(* ===== verification/Rdp_Prelude.thy ===== *)
theory Rdp_Prelude
  imports "HOL-Library.Word" "HOL-Library.Signed_Division"
begin

text \<open>
  Shared vocabulary of the development: the C integer types as words and as naturals with
  the wrap-around written out, the outcome type of a C function that works on a state and
  can return an error or touch memory it must not touch, a weakest-precondition reading of
  that type, the allocator, and the list lemmas (block copies into arrays, ring buffers)
  that the component theories use.
\<close>

unbundle bit_operations_syntax

section \<open>C integer types\<close>

type_synonym u8 = "8 word"
type_synonym u16 = "16 word"
type_synonym u32 = "32 word"
type_synonym u64 = "64 word"

text \<open>
  \<open>size_t\<close> values are naturals below \<open>2 ^ 64\<close>; the operations that may leave the range
  wrap. \<open>size_to_int\<close> is the cast \<open>(int)x\<close> of a \<open>size_t\<close> and \<open>int_to_size\<close> the
  implicit conversion of an \<open>int\<close> argument to \<open>size_t\<close>.
\<close>

definition size_sub :: "nat \<Rightarrow> nat \<Rightarrow> nat" where
  "size_sub a b = (if b \<le> a then a - b else a + 2 ^ 64 - b)"

definition size_add :: "nat \<Rightarrow> nat \<Rightarrow> nat" where
  "size_add a b = (a + b) mod 2 ^ 64"

definition size_mul :: "nat \<Rightarrow> nat \<Rightarrow> nat" where
  "size_mul a b = (a * b) mod 2 ^ 64"

definition size_to_int :: "nat \<Rightarrow> int" where
  "size_to_int n = signed_take_bit 31 (int n)"

definition int_to_size :: "int \<Rightarrow> nat" where
  "int_to_size i = nat (i mod 2 ^ 64)"

abbreviation INT_MAX :: int where
  "INT_MAX \<equiv> 2147483647"

named_theorems size_simps

lemma size_sub_le [size_simps]: "b \<le> a \<Longrightarrow> size_sub a b = a - b"
  by (simp add: size_sub_def)

lemma size_add_small [size_simps]: "a + b < 2 ^ 64 \<Longrightarrow> size_add a b = a + b"
  by (simp add: size_add_def)

lemma size_mul_small [size_simps]: "a * b < 2 ^ 64 \<Longrightarrow> size_mul a b = a * b"
  by (simp add: size_mul_def)

lemma int_to_size_nonneg [size_simps]: "0 \<le> i \<Longrightarrow> i < 2 ^ 64 \<Longrightarrow> int_to_size i = nat i"
  by (simp add: int_to_size_def)

lemma size_to_int_small [size_simps]: "n < 2 ^ 31 \<Longrightarrow> size_to_int n = int n"
  by (simp add: size_to_int_def signed_take_bit_int_eq_self)

lemma size_to_int_le: "size_to_int n \<le> int n"
proof (cases "bit (int n) 31")
  case True
  then have "signed_take_bit 31 (int n) < 0" by simp
  then have "signed_take_bit 31 (int n) \<le> int n" by linarith
  then show ?thesis by (simp only: size_to_int_def)
next
  case False
  then have "signed_take_bit 31 (int n) = take_bit 31 (int n)"
    by (simp add: signed_take_bit_eq_if_positive)
  then show ?thesis by (simp add: size_to_int_def take_bit_int_less_eq_self_iff)
qed

section \<open>Outcomes of C code\<close>

text \<open>
  \<open>Ok a s\<close>: the function returned the value \<open>a\<close> and left the state \<open>s\<close>. \<open>Fail s\<close>: it
  returned its failure value (\<open>FALSE\<close>, \<open>NULL\<close>) and left \<open>s\<close>. \<open>Fault\<close>: it read or wrote
  outside an object, dereferenced \<open>NULL\<close> or overflowed an \<open>int\<close>, so that C gives the
  execution no meaning.
\<close>

datatype ('a, 's) res = Fault | Fail 's | Ok 'a 's

primrec and_then :: "('a, 's) res \<Rightarrow> ('a \<Rightarrow> 's \<Rightarrow> ('b, 's) res) \<Rightarrow> ('b, 's) res" where
  "and_then Fault f = Fault"
| "and_then (Fail s) f = Fail s"
| "and_then (Ok a s) f = f a s"

primrec wp :: "('a, 's) res \<Rightarrow> ('a \<Rightarrow> 's \<Rightarrow> bool) \<Rightarrow> ('s \<Rightarrow> bool) \<Rightarrow> bool" where
  "wp Fault Q E = False"
| "wp (Fail s) Q E = E s"
| "wp (Ok a s) Q E = Q a s"

lemma wp_and_then [simp]:
  "wp (and_then r f) Q E = wp r (\<lambda>a s. wp (f a s) Q E) E"
  by (cases r) simp_all

lemma wp_mono:
  "wp r Q E \<Longrightarrow> (\<And>a s. Q a s \<Longrightarrow> Q' a s) \<Longrightarrow> (\<And>s. E s \<Longrightarrow> E' s) \<Longrightarrow> wp r Q' E'"
  by (cases r) auto

lemma wp_not_Fault: "wp r Q E \<Longrightarrow> r \<noteq> Fault"
  by (cases r) auto

lemma wp_if [simp]: "wp (if b then r else t) Q E = (if b then wp r Q E else wp t Q E)"
  by simp

lemma and_then_Ok_iff:
  "and_then r f = Ok b t \<longleftrightarrow> (\<exists>a s. r = Ok a s \<and> f a s = Ok b t)"
  by (cases r) auto

lemma and_then_assoc:
  "and_then (and_then r f) g = and_then r (\<lambda>a s. and_then (f a s) g)"
  by (cases r) auto

section \<open>The allocator\<close>

text \<open>
  An allocation answers \<open>None\<close> when it returns \<open>NULL\<close>, and otherwise a function that gives
  the indeterminate contents of the fresh block. \<open>calloc\<close> clears the block; \<open>realloc\<close> keeps
  the old contents up to the smaller of the two sizes.
\<close>

type_synonym 'a alloc = "(nat \<Rightarrow> 'a) option"

definition malloc :: "'a alloc \<Rightarrow> nat \<Rightarrow> 'a list option" where
  "malloc al n = map_option (\<lambda>f. map f [0..<n]) al"

definition realloc :: "'a alloc \<Rightarrow> 'a list \<Rightarrow> nat \<Rightarrow> 'a list option" where
  "realloc al xs n = map_option (\<lambda>f. take n xs @ map f [length xs..<n]) al"

lemma malloc_length: "malloc al n = Some xs \<Longrightarrow> length xs = n"
  by (auto simp: malloc_def)

lemma malloc_None [simp]: "malloc al n = None \<longleftrightarrow> al = None"
  by (simp add: malloc_def)

lemma realloc_None [simp]: "realloc al xs n = None \<longleftrightarrow> al = None"
  by (simp add: realloc_def)

lemma realloc_length: "realloc al xs n = Some ys \<Longrightarrow> length ys = n"
  by (auto simp: realloc_def)

lemma realloc_take: "realloc al xs n = Some ys \<Longrightarrow> k \<le> n \<Longrightarrow> k \<le> length xs \<Longrightarrow> take k ys = take k xs"
  by (auto simp: realloc_def min_def)

lemma realloc_nth: "realloc al xs n = Some ys \<Longrightarrow> i < n \<Longrightarrow> i < length xs \<Longrightarrow> ys ! i = xs ! i"
  by (auto simp: realloc_def nth_append)

section \<open>Block copies\<close>

text \<open>\<open>blit xs i ys\<close> is the array \<open>xs\<close> after \<open>memcpy (xs + i, ys, length ys)\<close>.\<close>

definition blit :: "'a list \<Rightarrow> nat \<Rightarrow> 'a list \<Rightarrow> 'a list" where
  "blit xs i ys = take i xs @ ys @ drop (i + length ys) xs"

lemma length_blit [simp]: "i + length ys \<le> length xs \<Longrightarrow> length (blit xs i ys) = length xs"
  by (simp add: blit_def)

lemma blit_Nil [simp]: "blit xs i [] = xs"
  by (simp add: blit_def)

lemma blit_single: "i < length xs \<Longrightarrow> blit xs i [y] = xs[i := y]"
  by (simp add: blit_def upd_conv_take_nth_drop)

lemma take_blit [simp]: "k \<le> i \<Longrightarrow> i \<le> length xs \<Longrightarrow> take k (blit xs i ys) = take k xs"
  by (simp add: blit_def)

lemma take_blit_full: "i \<le> length xs \<Longrightarrow> k = i + length ys \<Longrightarrow> take k (blit xs i ys) = take i xs @ ys"
  by (simp add: blit_def)

lemma drop_blit [simp]:
  "i \<le> length xs \<Longrightarrow> i + length ys \<le> k \<Longrightarrow> drop k (blit xs i ys) = drop k xs"
  by (simp add: blit_def)

lemma drop_blit_start: "i \<le> length xs \<Longrightarrow> drop i (blit xs i ys) = ys @ drop (i + length ys) xs"
  by (simp add: blit_def)

lemma blit_blit:
  assumes "i + length ys \<le> length xs" "j = i + length ys"
  shows "blit (blit xs i ys) j zs = blit xs i (ys @ zs)"
proof -
  have "drop (j + length zs) (blit xs i ys) = drop (i + length (ys @ zs)) xs"
    using assms by (simp add: add.assoc)
  then show ?thesis
    using assms by (simp add: blit_def [of _ j] take_blit_full) (simp add: blit_def ac_simps)
qed

lemma nth_blit:
  "i + length ys \<le> length xs \<Longrightarrow> k < length xs \<Longrightarrow>
   blit xs i ys ! k = (if i \<le> k \<and> k < i + length ys then ys ! (k - i) else xs ! k)"
  by (auto simp: blit_def nth_append min_def)

section \<open>Words as octets\<close>

text \<open>
  A word is the sum of its octets shifted into place; the byte orders of the wire differ only
  in the order of the summands.
\<close>

lemma and_mask8: "(x::'a::len word) AND 0xFF = take_bit 8 x"
  by (simp add: take_bit_eq_mask mask_numeral)

lemma and_mask16: "(x::'a::len word) AND 0xFFFF = take_bit 16 x"
  by (simp add: take_bit_eq_mask mask_numeral)

lemma ucast_octet: "LENGTH('a::len) \<ge> 8 \<Longrightarrow> ucast (ucast (w AND 0xFF) :: u8) = take_bit 8 (w :: 'a word)"
  unfolding and_mask8 by (rule bit_word_eqI) (auto simp: bit_simps)

lemma take_bit_add_octet:
  "take_bit k v + push_bit k (take_bit 8 (drop_bit k v)) = take_bit (k + 8) (v :: 'a::len word)"
proof -
  have "take_bit k v + push_bit k (take_bit 8 (drop_bit k v)) =
        take_bit k v OR push_bit k (take_bit 8 (drop_bit k v))"
    by (rule disjunctive_add) (auto simp: bit_simps)
  also have "\<dots> = take_bit (k + 8) v"
    by (rule bit_word_eqI) (auto simp: bit_simps)
  finally show ?thesis .
qed

lemma octets16: "take_bit 8 v + push_bit 8 (take_bit 8 (drop_bit 8 v)) = (v :: u16)"
  using take_bit_add_octet [of 8 v] by (simp add: take_bit_word_eq_self)

lemma octets32:
  "take_bit 8 v + push_bit 8 (take_bit 8 (drop_bit 8 v)) + push_bit 16 (take_bit 8 (drop_bit 16 v)) +
   push_bit 24 (take_bit 8 (drop_bit 24 v)) = (v :: u32)"
  using take_bit_add_octet [of 8 v] take_bit_add_octet [of 16 v] take_bit_add_octet [of 24 v]
  by (simp add: take_bit_word_eq_self)

lemma octets64:
  "take_bit 8 v + push_bit 8 (take_bit 8 (drop_bit 8 v)) + push_bit 16 (take_bit 8 (drop_bit 16 v)) +
   push_bit 24 (take_bit 8 (drop_bit 24 v)) + push_bit 32 (take_bit 8 (drop_bit 32 v)) +
   push_bit 40 (take_bit 8 (drop_bit 40 v)) + push_bit 48 (take_bit 8 (drop_bit 48 v)) +
   push_bit 56 (take_bit 8 (drop_bit 56 v)) = (v :: u64)"
  using take_bit_add_octet [of 8 v] take_bit_add_octet [of 16 v] take_bit_add_octet [of 24 v]
    take_bit_add_octet [of 32 v] take_bit_add_octet [of 40 v] take_bit_add_octet [of 48 v] take_bit_add_octet [of 56 v]
  by (simp add: take_bit_word_eq_self)
lemma octets32_be:
  "push_bit 24 (take_bit 8 (drop_bit 24 v)) + push_bit 16 (take_bit 8 (drop_bit 16 v)) +
   push_bit 8 (take_bit 8 (drop_bit 8 v)) + take_bit 8 v = (v :: u32)"
  using octets32 [of v] by (simp only: ac_simps)

lemma bit_less_exp: "unat (v :: 'a::len word) < 2 ^ k \<Longrightarrow> \<not> bit v k"
proof -
  assume "unat v < 2 ^ k"
  then have "\<not> bit (unat v) k" by (simp add: bit_iff_odd)
  then show ?thesis by (simp add: bit_unsigned_iff)
qed

lemma ucast_back:
  "unat (v :: 'a::len word) < 2 ^ LENGTH('b::len) \<Longrightarrow> ucast (ucast v :: 'b word) = v"
  by (simp add: word_unat_eq_iff unsigned_ucast_eq unsigned_take_bit_eq take_bit_nat_eq_self)

end
