(* ===== verification/WinPR_Stream.thy ===== *)
theory WinPR_Stream
  imports Rdp_Prelude
begin

text \<open>
  The byte stream \<open>wStream\<close> of \<^verbatim>\<open>winpr/include/winpr/stream.h\<close> and
  \<^verbatim>\<open>winpr/libwinpr/utils/stream.c\<close>. Every PDU of the protocol stack is read from and
  written to such a stream. The pointer is kept as its offset from the start of the buffer;
  \<open>s_buffer\<close> is the allocated block, so that an access at or past its end is a \<open>Fault\<close>.
  The reader accessors of the C code check nothing: it is the callers that must compare
  \<open>Stream_GetRemainingLength\<close> first, and the lemmas here say when that is enough.
\<close>

section \<open>The stream\<close>

record wStream =
  s_buffer :: "u8 list"
  s_pointer :: nat
  s_length :: nat
  s_capacity :: nat
  s_count :: u32
  s_isAllocatedStream :: bool
  s_isOwner :: bool

definition Stream_Seek :: "wStream \<Rightarrow> nat \<Rightarrow> wStream" where
  "Stream_Seek s off = s\<lparr>s_pointer := size_add (s_pointer s) off\<rparr>"

definition Stream_Rewind :: "wStream \<Rightarrow> nat \<Rightarrow> (unit, wStream) res" where
  "Stream_Rewind s off =
     (if off \<le> s_pointer s then Ok () (s\<lparr>s_pointer := s_pointer s - off\<rparr>) else Fault)"

definition stream_byte :: "wStream \<Rightarrow> nat \<Rightarrow> u8" where
  "stream_byte s k = s_buffer s ! (s_pointer s + k)"

definition in_block :: "wStream \<Rightarrow> nat \<Rightarrow> bool" where
  "in_block s n \<longleftrightarrow> s_pointer s + n \<le> length (s_buffer s)"

section \<open>Reading: the accessor macros, \<open>p\<close> telling whether to advance\<close>

definition stream_read_n8 :: "bool \<Rightarrow> wStream \<Rightarrow> (u8, wStream) res" where
  "stream_read_n8 p s =
     (if in_block s 1 then Ok (stream_byte s 0) (if p then Stream_Seek s 1 else s) else Fault)"

definition stream_read_n16_le :: "bool \<Rightarrow> wStream \<Rightarrow> (u16, wStream) res" where
  "stream_read_n16_le p s =
     (if in_block s 2
      then Ok (ucast (stream_byte s 0) + push_bit 8 (ucast (stream_byte s 1)))
             (if p then Stream_Seek s 2 else s)
      else Fault)"

definition stream_read_n16_be :: "bool \<Rightarrow> wStream \<Rightarrow> (u16, wStream) res" where
  "stream_read_n16_be p s =
     (if in_block s 2
      then Ok (push_bit 8 (ucast (stream_byte s 0)) + ucast (stream_byte s 1))
             (if p then Stream_Seek s 2 else s)
      else Fault)"

definition stream_read_n32_le :: "bool \<Rightarrow> wStream \<Rightarrow> (u32, wStream) res" where
  "stream_read_n32_le p s =
     (if in_block s 4
      then Ok (ucast (stream_byte s 0) + push_bit 8 (ucast (stream_byte s 1)) +
               push_bit 16 (ucast (stream_byte s 2)) + push_bit 24 (ucast (stream_byte s 3)))
             (if p then Stream_Seek s 4 else s)
      else Fault)"

definition stream_read_n32_be :: "bool \<Rightarrow> wStream \<Rightarrow> (u32, wStream) res" where
  "stream_read_n32_be p s =
     (if in_block s 4
      then Ok (push_bit 24 (ucast (stream_byte s 0)) + push_bit 16 (ucast (stream_byte s 1)) +
               push_bit 8 (ucast (stream_byte s 2)) + ucast (stream_byte s 3))
             (if p then Stream_Seek s 4 else s)
      else Fault)"

definition stream_read_n64_le :: "bool \<Rightarrow> wStream \<Rightarrow> (u64, wStream) res" where
  "stream_read_n64_le p s =
     (if in_block s 8
      then Ok (ucast (stream_byte s 0) + push_bit 8 (ucast (stream_byte s 1)) +
               push_bit 16 (ucast (stream_byte s 2)) + push_bit 24 (ucast (stream_byte s 3)) +
               push_bit 32 (ucast (stream_byte s 4)) + push_bit 40 (ucast (stream_byte s 5)) +
               push_bit 48 (ucast (stream_byte s 6)) + push_bit 56 (ucast (stream_byte s 7)))
             (if p then Stream_Seek s 8 else s)
      else Fault)"

abbreviation Stream_Read_UINT8 :: "wStream \<Rightarrow> (u8, wStream) res" where "Stream_Read_UINT8 \<equiv> stream_read_n8 True"
abbreviation Stream_Peek_UINT8 :: "wStream \<Rightarrow> (u8, wStream) res" where "Stream_Peek_UINT8 \<equiv> stream_read_n8 False"
abbreviation Stream_Read_UINT16 :: "wStream \<Rightarrow> (u16, wStream) res" where "Stream_Read_UINT16 \<equiv> stream_read_n16_le True"
abbreviation Stream_Read_UINT16_BE :: "wStream \<Rightarrow> (u16, wStream) res" where "Stream_Read_UINT16_BE \<equiv> stream_read_n16_be True"
abbreviation Stream_Read_UINT32 :: "wStream \<Rightarrow> (u32, wStream) res" where "Stream_Read_UINT32 \<equiv> stream_read_n32_le True"
abbreviation Stream_Read_UINT32_BE :: "wStream \<Rightarrow> (u32, wStream) res" where "Stream_Read_UINT32_BE \<equiv> stream_read_n32_be True"
abbreviation Stream_Read_UINT64 :: "wStream \<Rightarrow> (u64, wStream) res" where "Stream_Read_UINT64 \<equiv> stream_read_n64_le True"

definition Stream_Read :: "wStream \<Rightarrow> nat \<Rightarrow> (u8 list, wStream) res" where
  "Stream_Read s n =
     (if in_block s n then Ok (take n (drop (s_pointer s) (s_buffer s))) (Stream_Seek s n)
      else Fault)"

section \<open>Writing\<close>

definition Stream_Write_UINT8 :: "wStream \<Rightarrow> u8 \<Rightarrow> (unit, wStream) res" where
  "Stream_Write_UINT8 s v =
     (if in_block s 1
      then Ok () (s\<lparr>s_buffer := (s_buffer s)[s_pointer s := v], s_pointer := s_pointer s + 1\<rparr>)
      else Fault)"

definition Stream_Write_UINT16 :: "wStream \<Rightarrow> u16 \<Rightarrow> (unit, wStream) res" where
  "Stream_Write_UINT16 s v =
     and_then (Stream_Write_UINT8 s (ucast (v AND 0xFF))) (\<lambda>_ s.
     Stream_Write_UINT8 s (ucast (drop_bit 8 v AND 0xFF)))"

definition Stream_Write_UINT16_BE :: "wStream \<Rightarrow> u16 \<Rightarrow> (unit, wStream) res" where
  "Stream_Write_UINT16_BE s v =
     and_then (Stream_Write_UINT8 s (ucast (drop_bit 8 v AND 0xFF))) (\<lambda>_ s.
     Stream_Write_UINT8 s (ucast (v AND 0xFF)))"

definition Stream_Write_UINT32 :: "wStream \<Rightarrow> u32 \<Rightarrow> (unit, wStream) res" where
  "Stream_Write_UINT32 s v =
     and_then (Stream_Write_UINT8 s (ucast (v AND 0xFF))) (\<lambda>_ s.
     and_then (Stream_Write_UINT8 s (ucast (drop_bit 8 v AND 0xFF))) (\<lambda>_ s.
     and_then (Stream_Write_UINT8 s (ucast (drop_bit 16 v AND 0xFF))) (\<lambda>_ s.
     Stream_Write_UINT8 s (ucast (drop_bit 24 v AND 0xFF)))))"

definition Stream_Write_UINT32_BE :: "wStream \<Rightarrow> u32 \<Rightarrow> (unit, wStream) res" where
  "Stream_Write_UINT32_BE s v =
     and_then (Stream_Write_UINT16_BE s (ucast (drop_bit 16 v AND 0xFFFF))) (\<lambda>_ s.
     Stream_Write_UINT16_BE s (ucast (v AND 0xFFFF)))"

definition Stream_Write_UINT64 :: "wStream \<Rightarrow> u64 \<Rightarrow> (unit, wStream) res" where
  "Stream_Write_UINT64 s v =
     and_then (Stream_Write_UINT8 s (ucast (v AND 0xFF))) (\<lambda>_ s.
     and_then (Stream_Write_UINT8 s (ucast (drop_bit 8 v AND 0xFF))) (\<lambda>_ s.
     and_then (Stream_Write_UINT8 s (ucast (drop_bit 16 v AND 0xFF))) (\<lambda>_ s.
     and_then (Stream_Write_UINT8 s (ucast (drop_bit 24 v AND 0xFF))) (\<lambda>_ s.
     and_then (Stream_Write_UINT8 s (ucast (drop_bit 32 v AND 0xFF))) (\<lambda>_ s.
     and_then (Stream_Write_UINT8 s (ucast (drop_bit 40 v AND 0xFF))) (\<lambda>_ s.
     and_then (Stream_Write_UINT8 s (ucast (drop_bit 48 v AND 0xFF))) (\<lambda>_ s.
     Stream_Write_UINT8 s (ucast (drop_bit 56 v AND 0xFF)))))))))"

definition Stream_Write :: "wStream \<Rightarrow> u8 list \<Rightarrow> nat \<Rightarrow> (unit, wStream) res" where
  "Stream_Write s b n =
     (if n > 0
      then (if n \<le> length b \<and> in_block s n
            then Ok () (Stream_Seek (s\<lparr>s_buffer := blit (s_buffer s) (s_pointer s) (take n b)\<rparr>) n)
            else Fault)
      else Ok () s)"

definition Stream_Fill :: "wStream \<Rightarrow> u8 \<Rightarrow> nat \<Rightarrow> (unit, wStream) res" where
  "Stream_Fill s v n =
     (if in_block s n
      then Ok () (Stream_Seek (s\<lparr>s_buffer := blit (s_buffer s) (s_pointer s) (replicate n v)\<rparr>) n)
      else Fault)"

definition Stream_Zero :: "wStream \<Rightarrow> nat \<Rightarrow> (unit, wStream) res" where
  "Stream_Zero s n =
     (if in_block s n
      then Ok () (Stream_Seek (s\<lparr>s_buffer := blit (s_buffer s) (s_pointer s) (replicate n 0)\<rparr>) n)
      else Fault)"

section \<open>Positions and sizes\<close>

definition Stream_GetPosition :: "wStream \<Rightarrow> nat" where
  "Stream_GetPosition s = s_pointer s"

definition Stream_SetPosition :: "wStream \<Rightarrow> nat \<Rightarrow> wStream" where
  "Stream_SetPosition s p = s\<lparr>s_pointer := p\<rparr>"

definition Stream_SealLength :: "wStream \<Rightarrow> wStream" where
  "Stream_SealLength s = s\<lparr>s_length := s_pointer s\<rparr>"

definition Stream_GetRemainingCapacity :: "wStream \<Rightarrow> nat" where
  "Stream_GetRemainingCapacity s = size_sub (s_capacity s) (s_pointer s)"

definition Stream_GetRemainingLength :: "wStream \<Rightarrow> nat" where
  "Stream_GetRemainingLength s = size_sub (s_length s) (s_pointer s)"

definition Stream_SafeSeek :: "wStream \<Rightarrow> nat \<Rightarrow> (unit, wStream) res" where
  "Stream_SafeSeek s sz =
     (if Stream_GetRemainingLength s < sz then Fail s else Ok () (Stream_Seek s sz))"

section \<open>Allocation and growth\<close>

text \<open>
  The doubling loop of \<open>Stream_EnsureCapacity\<close>. It wraps at \<open>2 ^ 64\<close> as \<open>size_t\<close> does and
  need not terminate, so it is a partial function: \<open>None\<close> is a loop that never ends.
\<close>

partial_function (option) ensure_capacity_loop :: "nat \<Rightarrow> nat \<Rightarrow> nat option" where
  "ensure_capacity_loop new_capacity sz =
     (let new_capacity' = size_mul new_capacity 2
      in if new_capacity' < sz then ensure_capacity_loop new_capacity' sz
         else Some new_capacity')"

text \<open>
  When the stream does not own its buffer the C code copies into the new block before it
  tests the allocation for \<open>NULL\<close>; that path is a \<open>Fault\<close>.
\<close>

definition Stream_EnsureCapacity ::
  "u8 alloc \<Rightarrow> wStream \<Rightarrow> nat \<Rightarrow> (unit, wStream) res option" where
  "Stream_EnsureCapacity al s sz =
     (if s_capacity s < sz then
        map_option (\<lambda>new_capacity.
          let old_capacity = s_capacity s;
              position = Stream_GetPosition s;
              install = (\<lambda>s new_buf.
                Stream_SetPosition
                  (s\<lparr>s_buffer := blit new_buf old_capacity
                                  (replicate (new_capacity - old_capacity) 0),
                     s_capacity := new_capacity, s_length := new_capacity\<rparr>) position)
          in if \<not> s_isOwner s then
               (case malloc al new_capacity of
                  None \<Rightarrow> Fault
                | Some new_buf \<Rightarrow>
                    if s_capacity s \<le> length (s_buffer s)
                    then Ok () (install (s\<lparr>s_isOwner := True\<rparr>)
                                 (blit new_buf 0 (take (s_capacity s) (s_buffer s))))
                    else Fault)
             else
               (case realloc al (s_buffer s) new_capacity of
                  None \<Rightarrow> Fail s
                | Some new_buf \<Rightarrow> Ok () (install s new_buf)))
          (ensure_capacity_loop (s_capacity s) sz)
      else Some (Ok () s))"

definition Stream_EnsureRemainingCapacity ::
  "u8 alloc \<Rightarrow> wStream \<Rightarrow> nat \<Rightarrow> (unit, wStream) res option" where
  "Stream_EnsureRemainingCapacity al s sz =
     (if size_add (Stream_GetPosition s) sz > s_capacity s
      then Stream_EnsureCapacity al s (size_add (s_capacity s) sz)
      else Some (Ok () s))"

text \<open>
  \<open>Stream_New\<close> with the answers of the two allocations it makes: the struct and, when no
  buffer is given, the block.
\<close>

definition Stream_New ::
  "unit alloc \<Rightarrow> u8 alloc \<Rightarrow> u8 list option \<Rightarrow> nat \<Rightarrow> wStream option" where
  "Stream_New al_struct al buf sz =
     (if buf = None \<and> sz = 0 then None
      else if al_struct = None then None
      else (case (case buf of Some b \<Rightarrow> Some b | None \<Rightarrow> malloc al sz) of
              None \<Rightarrow> None
            | Some b \<Rightarrow>
                Some \<lparr>s_buffer = b, s_pointer = 0, s_length = sz, s_capacity = sz,
                      s_count = 0, s_isAllocatedStream = True, s_isOwner = True\<rparr>))"

definition Stream_StaticInit :: "u8 list \<Rightarrow> nat \<Rightarrow> wStream" where
  "Stream_StaticInit b sz =
     \<lparr>s_buffer = b, s_pointer = 0, s_length = sz, s_capacity = sz,
      s_count = 0, s_isAllocatedStream = False, s_isOwner = False\<rparr>"

text \<open>What \<open>Stream_Free\<close> releases: (the buffer, the struct).\<close>

definition Stream_Free :: "wStream option \<Rightarrow> bool \<Rightarrow> bool \<times> bool" where
  "Stream_Free s bFreeBuffer =
     (case s of None \<Rightarrow> (False, False)
      | Some s \<Rightarrow> (bFreeBuffer \<and> s_isOwner s, s_isAllocatedStream s))"

section \<open>Abstract view of a stream\<close>

text \<open>
  \<open>stream_ok\<close> is the invariant of a stream being written, \<open>readable\<close> that of one being
  parsed. The bytes a parser may still look at are \<open>remaining\<close>; \<open>skip n\<close> advances over
  \<open>n\<close> of them, and \<open>put bs\<close> is the effect of writing the bytes \<open>bs\<close> at the pointer, for
  which \<open>room\<close> bytes are free.
\<close>

definition stream_ok :: "wStream \<Rightarrow> bool" where
  "stream_ok s \<longleftrightarrow> s_capacity s = length (s_buffer s) \<and> s_pointer s \<le> s_capacity s \<and>
     s_capacity s < 2 ^ 63"

definition readable :: "wStream \<Rightarrow> bool" where
  "readable s \<longleftrightarrow> stream_ok s \<and> s_length s \<le> s_capacity s \<and> s_pointer s \<le> s_length s"

definition remaining :: "wStream \<Rightarrow> u8 list" where
  "remaining s = take (s_length s - s_pointer s) (drop (s_pointer s) (s_buffer s))"

definition skip :: "nat \<Rightarrow> wStream \<Rightarrow> wStream" where
  "skip n s = s\<lparr>s_pointer := s_pointer s + n\<rparr>"

definition put :: "u8 list \<Rightarrow> wStream \<Rightarrow> wStream" where
  "put bs s = s\<lparr>s_buffer := blit (s_buffer s) (s_pointer s) bs, s_pointer := s_pointer s + length bs\<rparr>"

definition room :: "wStream \<Rightarrow> nat" where
  "room s = s_capacity s - s_pointer s"

text \<open>The stream a peer parses after the bytes written so far have been sent to it.\<close>

definition deliver :: "wStream \<Rightarrow> wStream" where
  "deliver s = Stream_StaticInit (take (s_pointer s) (s_buffer s)) (s_pointer s)"

subsection \<open>Reading\<close>

lemma readable_length_remaining:
  "readable s \<Longrightarrow> length (remaining s) = s_length s - s_pointer s"
  by (auto simp: readable_def stream_ok_def remaining_def)

lemma GetRemainingLength_readable [simp]:
  "readable s \<Longrightarrow> Stream_GetRemainingLength s = length (remaining s)"
  unfolding readable_length_remaining
  by (simp add: Stream_GetRemainingLength_def readable_def size_sub_def)

lemma readable_skip [simp]: "readable s \<Longrightarrow> n \<le> length (remaining s) \<Longrightarrow> readable (skip n s)"
  by (auto simp: readable_length_remaining) (auto simp: readable_def stream_ok_def skip_def)

lemma remaining_skip [simp]: "remaining (skip n s) = drop n (remaining s)"
  by (simp add: remaining_def skip_def drop_take add.commute)

lemma skip_skip [simp]: "skip m (skip n s) = skip (n + m) s"
  by (simp add: skip_def)

lemma skip_0 [simp]: "skip 0 s = s"
  by (simp add: skip_def)

lemma skip_literals: "skip (Suc (Suc 0)) s = skip 2 s" "skip (Suc (Suc (Suc 0))) s = skip 3 s"
  by (simp_all add: numeral_2_eq_2 numeral_3_eq_3)

lemma skip_over:
  assumes "remaining s = xs @ rest" "n = length xs"
  shows "remaining (skip n s) = rest" "readable s \<Longrightarrow> readable (skip n s)"
  using assms by simp_all

lemma Stream_Seek_skip [simp]:
  "readable s \<Longrightarrow> n \<le> length (remaining s) \<Longrightarrow> Stream_Seek s n = skip n s"
  by (auto simp: readable_length_remaining)
    (auto simp: readable_def stream_ok_def Stream_Seek_def skip_def size_add_def)

lemma Stream_SafeSeek_readable:
  "readable s \<Longrightarrow>
   Stream_SafeSeek s n = (if length (remaining s) < n then Fail s else Ok () (skip n s))"
  by (auto simp: Stream_SafeSeek_def)

lemma in_block_readable: "readable s \<Longrightarrow> n \<le> length (remaining s) \<Longrightarrow> in_block s n"
  by (auto simp: readable_length_remaining) (auto simp: readable_def stream_ok_def in_block_def)

lemma stream_byte_remaining:
  "readable s \<Longrightarrow> Suc k \<le> length (remaining s) \<Longrightarrow> stream_byte s k = remaining s ! k"
  by (auto simp: readable_length_remaining)
    (auto simp: readable_def stream_ok_def remaining_def stream_byte_def)

text \<open>
  The value lemmas of the accessors: on a readable stream with enough bytes left they
  return the number the bytes encode and skip them.
\<close>

named_theorems stream_read

lemma read_n8 [stream_read]:
  "readable s \<Longrightarrow> 1 \<le> length (remaining s) \<Longrightarrow>
   stream_read_n8 p s = Ok (remaining s ! 0) (if p then skip 1 s else s)"
  by (simp add: stream_read_n8_def in_block_readable stream_byte_remaining)

lemma read_n16_le [stream_read]:
  "readable s \<Longrightarrow> 2 \<le> length (remaining s) \<Longrightarrow>
   stream_read_n16_le p s =
     Ok (ucast (remaining s ! 0) + push_bit 8 (ucast (remaining s ! 1))) (if p then skip 2 s else s)"
  by (simp add: stream_read_n16_le_def in_block_readable stream_byte_remaining)

lemma read_n16_be [stream_read]:
  "readable s \<Longrightarrow> 2 \<le> length (remaining s) \<Longrightarrow>
   stream_read_n16_be p s =
     Ok (push_bit 8 (ucast (remaining s ! 0)) + ucast (remaining s ! 1)) (if p then skip 2 s else s)"
  by (simp add: stream_read_n16_be_def in_block_readable stream_byte_remaining)

lemma read_n32_le [stream_read]:
  "readable s \<Longrightarrow> 4 \<le> length (remaining s) \<Longrightarrow>
   stream_read_n32_le p s =
     Ok (ucast (remaining s ! 0) + push_bit 8 (ucast (remaining s ! 1)) +
         push_bit 16 (ucast (remaining s ! 2)) + push_bit 24 (ucast (remaining s ! 3)))
       (if p then skip 4 s else s)"
  by (simp add: stream_read_n32_le_def in_block_readable stream_byte_remaining)

lemma read_n32_be [stream_read]:
  "readable s \<Longrightarrow> 4 \<le> length (remaining s) \<Longrightarrow>
   stream_read_n32_be p s =
     Ok (push_bit 24 (ucast (remaining s ! 0)) + push_bit 16 (ucast (remaining s ! 1)) +
         push_bit 8 (ucast (remaining s ! 2)) + ucast (remaining s ! 3))
       (if p then skip 4 s else s)"
  by (simp add: stream_read_n32_be_def in_block_readable stream_byte_remaining)

lemma read_n64_le [stream_read]:
  assumes "readable s" "8 \<le> length (remaining s)"
  shows "stream_read_n64_le p s =
     Ok (ucast (remaining s ! 0) + push_bit 8 (ucast (remaining s ! 1)) +
         push_bit 16 (ucast (remaining s ! 2)) + push_bit 24 (ucast (remaining s ! 3)) +
         push_bit 32 (ucast (remaining s ! 4)) + push_bit 40 (ucast (remaining s ! 5)) +
         push_bit 48 (ucast (remaining s ! 6)) + push_bit 56 (ucast (remaining s ! 7)))
       (if p then skip 8 s else s)"
  using assms by (simp add: stream_read_n64_le_def in_block_readable stream_byte_remaining)

lemma take_block_remaining:
  "readable s \<Longrightarrow> n \<le> length (remaining s) \<Longrightarrow>
   take n (drop (s_pointer s) (s_buffer s)) = take n (remaining s)"
  by (auto simp: readable_length_remaining remaining_def min_absorb1)

lemma read_block [stream_read]:
  "readable s \<Longrightarrow> n \<le> length (remaining s) \<Longrightarrow>
   Stream_Read s n = Ok (take n (remaining s)) (skip n s)"
  by (simp add: Stream_Read_def in_block_readable take_block_remaining)

subsection \<open>Writing\<close>

lemma stream_ok_put [simp]: "stream_ok s \<Longrightarrow> length bs \<le> room s \<Longrightarrow> stream_ok (put bs s)"
  by (auto simp: stream_ok_def put_def room_def)

lemma room_put [simp]: "room (put bs s) = room s - length bs"
  by (simp add: room_def put_def)

lemma put_Nil [simp]: "put [] s = s"
  by (simp add: put_def)

lemma put_put [simp]:
  assumes "stream_ok s" "length bs \<le> room s"
  shows "put cs (put bs s) = put (bs @ cs) s"
proof -
  have "s_pointer s + length bs \<le> length (s_buffer s)"
    using assms by (auto simp: stream_ok_def room_def)
  then show ?thesis by (simp add: put_def blit_blit add.assoc)
qed

lemma room_in_block: "stream_ok s \<Longrightarrow> n \<le> room s \<Longrightarrow> in_block s n"
  by (auto simp: stream_ok_def room_def in_block_def)

lemma s_fields_put [simp]:
  "s_pointer (put bs s) = s_pointer s + length bs"
  "s_capacity (put bs s) = s_capacity s"
  "s_length (put bs s) = s_length s"
  by (simp_all add: put_def)

lemma GetRemainingCapacity_ok: "stream_ok s \<Longrightarrow> Stream_GetRemainingCapacity s = room s"
  by (simp add: stream_ok_def Stream_GetRemainingCapacity_def room_def size_sub_def)

named_theorems stream_write

lemma write_u8 [stream_write]:
  "stream_ok s \<Longrightarrow> 1 \<le> room s \<Longrightarrow> Stream_Write_UINT8 s v = Ok () (put [v] s)"
  by (auto simp: Stream_Write_UINT8_def room_in_block put_def blit_single)
    (auto simp: stream_ok_def room_def blit_single)

definition be16 :: "u16 \<Rightarrow> u8 list" where
  "be16 v = [ucast (drop_bit 8 v AND 0xFF), ucast (v AND 0xFF)]"

definition le16 :: "u16 \<Rightarrow> u8 list" where
  "le16 v = [ucast (v AND 0xFF), ucast (drop_bit 8 v AND 0xFF)]"

definition le32 :: "u32 \<Rightarrow> u8 list" where
  "le32 v = [ucast (v AND 0xFF), ucast (drop_bit 8 v AND 0xFF),
             ucast (drop_bit 16 v AND 0xFF), ucast (drop_bit 24 v AND 0xFF)]"

definition be32 :: "u32 \<Rightarrow> u8 list" where
  "be32 v = be16 (ucast (drop_bit 16 v AND 0xFFFF)) @ be16 (ucast (v AND 0xFFFF))"

definition le64 :: "u64 \<Rightarrow> u8 list" where
  "le64 v = [ucast (v AND 0xFF), ucast (drop_bit 8 v AND 0xFF),
             ucast (drop_bit 16 v AND 0xFF), ucast (drop_bit 24 v AND 0xFF),
             ucast (drop_bit 32 v AND 0xFF), ucast (drop_bit 40 v AND 0xFF),
             ucast (drop_bit 48 v AND 0xFF), ucast (drop_bit 56 v AND 0xFF)]"

lemma length_encodings [simp]:
  "length (be16 v) = 2" "length (le16 v) = 2" "length (le32 w) = 4" "length (be32 w) = 4"
  "length (le64 x) = 8"
  by (simp_all add: be16_def le16_def le32_def be32_def le64_def)

lemma write_u16_be [stream_write]:
  "stream_ok s \<Longrightarrow> 2 \<le> room s \<Longrightarrow> Stream_Write_UINT16_BE s v = Ok () (put (be16 v) s)"
  by (simp add: Stream_Write_UINT16_BE_def write_u8 be16_def)

lemma write_u16 [stream_write]:
  "stream_ok s \<Longrightarrow> 2 \<le> room s \<Longrightarrow> Stream_Write_UINT16 s v = Ok () (put (le16 v) s)"
  by (simp add: Stream_Write_UINT16_def write_u8 le16_def)

lemma write_u32 [stream_write]:
  "stream_ok s \<Longrightarrow> 4 \<le> room s \<Longrightarrow> Stream_Write_UINT32 s v = Ok () (put (le32 v) s)"
  by (simp add: Stream_Write_UINT32_def write_u8 le32_def)

lemma write_u32_be [stream_write]:
  "stream_ok s \<Longrightarrow> 4 \<le> room s \<Longrightarrow> Stream_Write_UINT32_BE s v = Ok () (put (be32 v) s)"
  by (simp add: Stream_Write_UINT32_BE_def write_u16_be be32_def)

lemma write_u64 [stream_write]:
  "stream_ok s \<Longrightarrow> 8 \<le> room s \<Longrightarrow> Stream_Write_UINT64 s v = Ok () (put (le64 v) s)"
  by (simp add: Stream_Write_UINT64_def write_u8 le64_def)

lemma write_block [stream_write]:
  "stream_ok s \<Longrightarrow> n \<le> room s \<Longrightarrow> n \<le> length b \<Longrightarrow> Stream_Write s b n = Ok () (put (take n b) s)"
  by (cases "n = 0")
    (auto simp: Stream_Write_def room_in_block put_def Stream_Seek_def stream_ok_def room_def size_add_def)

lemma write_zero [stream_write]:
  "stream_ok s \<Longrightarrow> n \<le> room s \<Longrightarrow> Stream_Zero s n = Ok () (put (replicate n 0) s)"
  by (auto simp: Stream_Zero_def room_in_block put_def Stream_Seek_def stream_ok_def room_def size_add_def)


subsection \<open>Delivery\<close>

lemma deliver_put:
  assumes "stream_ok s" "s_pointer s = 0" "length bs \<le> room s"
  shows "readable (deliver (put bs s))" "remaining (deliver (put bs s)) = bs"
    "s_pointer (deliver (put bs s)) = 0"
  using assms
  by (auto simp: deliver_def Stream_StaticInit_def readable_def stream_ok_def remaining_def put_def
      room_def take_blit_full)

lemma remaining_put_back:
  assumes "stream_ok s" "length bs \<le> room s"
  defines "t \<equiv> Stream_SetPosition (Stream_SealLength (put bs s)) (s_pointer s)"
  shows "readable t" "remaining t = bs"
  using assms
  by (auto simp: t_def Stream_SetPosition_def Stream_SealLength_def readable_def stream_ok_def
      remaining_def put_def room_def blit_def)

section \<open>Memory safety of parsers\<close>

text \<open>
  \<open>safe_from n r\<close>: started on a readable stream that holds at least \<open>n\<close> more bytes, the
  parser \<open>r\<close> stays inside the buffer, whether it succeeds or fails, and changes nothing but
  the pointer, which it advances within the sealed length. The rules in \<open>safe_intros\<close>
  follow the shape of the C code: a length check, a read, a call of another parser.
\<close>

definition advances :: "wStream \<Rightarrow> wStream \<Rightarrow> bool" where
  "advances s t \<longleftrightarrow> (\<exists>n \<le> length (remaining s). t = skip n s)"

definition safe_from :: "nat \<Rightarrow> (wStream \<Rightarrow> ('a, wStream) res) \<Rightarrow> bool" where
  "safe_from n r \<longleftrightarrow>
     (\<forall>s. readable s \<longrightarrow> n \<le> length (remaining s) \<longrightarrow> wp (r s) (\<lambda>_. advances s) (advances s))"

abbreviation safe_read :: "(wStream \<Rightarrow> ('a, wStream) res) \<Rightarrow> bool" where
  "safe_read \<equiv> safe_from 0"

lemma advances_refl [simp]: "advances s s"
  unfolding advances_def by (rule exI [of _ 0]) simp

lemma advances_skip [simp]: "n \<le> length (remaining s) \<Longrightarrow> advances s (skip n s)"
  by (auto simp: advances_def)

lemma advances_trans:
  assumes "advances s t" "advances t u" shows "advances s u"
proof -
  from assms obtain n m where "n \<le> length (remaining s)" "t = skip n s"
    "m \<le> length (remaining t)" "u = skip m t" by (auto simp: advances_def)
  then have "n + m \<le> length (remaining s)" "u = skip (n + m) s" by simp_all
  then show ?thesis by (auto simp: advances_def)
qed

lemma advances_readable: "advances s t \<Longrightarrow> readable s \<Longrightarrow> readable t"
  by (auto simp: advances_def)

lemma safe_fromD:
  "safe_from n r \<Longrightarrow> readable s \<Longrightarrow> n \<le> length (remaining s) \<Longrightarrow>
   wp (r s) (\<lambda>_. advances s) (advances s)"
  by (simp add: safe_from_def)

lemma safe_read_no_fault: "safe_read r \<Longrightarrow> readable s \<Longrightarrow> r s \<noteq> Fault"
  by (auto dest!: safe_fromD [where s = s] wp_not_Fault)

lemma safe_Ok: "safe_from n (Ok a)"
  by (simp add: safe_from_def)

lemma safe_Ok_app: "safe_from n (\<lambda>s. Ok (f s) s)"
  by (simp add: safe_from_def)

lemma safe_Fail: "safe_from n Fail"
  by (simp add: safe_from_def)

lemma safe_Ok_seek: "k \<le> n \<Longrightarrow> safe_from n (\<lambda>s. Ok a (Stream_Seek s k))"
  by (simp add: safe_from_def)

lemma safe_if:
  "safe_from n f \<Longrightarrow> safe_from n g \<Longrightarrow> safe_from n (\<lambda>s. if b s then f s else g s)"
  by (simp add: safe_from_def)

lemma safe_if_const:
  "(b \<Longrightarrow> safe_from n f) \<Longrightarrow> (\<not> b \<Longrightarrow> safe_from n g) \<Longrightarrow> safe_from n (\<lambda>s. if b then f s else g s)"
  by (cases b) simp_all

lemma safe_mono: "safe_from m r \<Longrightarrow> m \<le> n \<Longrightarrow> safe_from n r"
  by (simp add: safe_from_def)

lemma safe_check:
  "safe_from (max n k) f \<Longrightarrow>
   safe_from n (\<lambda>s. if Stream_GetRemainingLength s < k then Fail s else f s)"
  by (auto simp: safe_from_def)

lemma size_to_int_check:
  "\<not> size_to_int m < i \<Longrightarrow> 0 \<le> i \<Longrightarrow> int_to_size i \<le> m \<and> int_to_size i = nat i"
proof -
  assume "\<not> size_to_int m < i" "0 \<le> i"
  moreover have "size_to_int m < 2 ^ 31"
    using signed_take_bit_int_less_exp [of 31 "int m"] by (simp add: size_to_int_def)
  ultimately show ?thesis
    using size_to_int_le [of m] by (simp add: int_to_size_def)
qed

lemma safe_check_int:
  "0 \<le> i \<Longrightarrow> safe_from n (\<lambda>s. if size_to_int (Stream_GetRemainingLength s) < i then Fail s
     else Ok a (Stream_Seek s (int_to_size i)))"
  by (auto simp: safe_from_def dest!: size_to_int_check)

lemma safe_read_then:
  assumes r: "\<And>s. readable s \<Longrightarrow> k \<le> length (remaining s) \<Longrightarrow> r s = Ok (v s) (skip k s)"
    and "k \<le> n" and g: "\<And>a. safe_from (n - k) (g a)"
  shows "safe_from n (\<lambda>s. and_then (r s) g)"
  unfolding safe_from_def
proof (intro allI impI)
  fix s assume s: "readable s" "n \<le> length (remaining s)"
  with \<open>k \<le> n\<close> have "r s = Ok (v s) (skip k s)" and sk: "advances s (skip k s)"
    and "readable (skip k s)" by (simp_all add: r)
  moreover from s \<open>k \<le> n\<close> have "n - k \<le> length (remaining (skip k s))" by simp
  ultimately show "wp (and_then (r s) g) (\<lambda>_. advances s) (advances s)"
    using safe_fromD [OF g, of "skip k s" "v s"] by (auto elim!: wp_mono intro: advances_trans)
qed

lemma safe_call:
  assumes r: "safe_from m r" and "m \<le> n" and g: "\<And>a. safe_read (g a)"
  shows "safe_from n (\<lambda>s. and_then (r s) g)"
  unfolding safe_from_def
proof (intro allI impI)
  fix s assume s: "readable s" "n \<le> length (remaining s)"
  with r \<open>m \<le> n\<close> have w: "wp (r s) (\<lambda>_. advances s) (advances s)" by (simp add: safe_from_def)
  show "wp (and_then (r s) g) (\<lambda>_. advances s) (advances s)"
    unfolding wp_and_then
  proof (rule wp_mono [OF w])
    fix a t assume t: "advances s t"
    with s have "wp (g a t) (\<lambda>_. advances t) (advances t)"
      using g [of a] advances_readable by (auto simp: safe_from_def)
    then show "wp (g a t) (\<lambda>_. advances s) (advances s)"
      using t by (auto elim!: wp_mono intro: advances_trans)
  qed
qed

lemma safe_seek:
  assumes "k \<le> n" and g: "safe_from (n - k) g"
  shows "safe_from n (\<lambda>s. g (Stream_Seek s k))"
  using safe_read_then [where r = "\<lambda>s. Ok () (Stream_Seek s k)" and g = "\<lambda>_. g" and v = "\<lambda>_. ()", OF _ assms]
  by simp

lemma safe_then_n8:
  "1 \<le> n \<Longrightarrow> (\<And>a. safe_from (n - 1) (g a)) \<Longrightarrow> safe_from n (\<lambda>s. and_then (Stream_Read_UINT8 s) g)"
  by (rule safe_read_then) (auto simp: stream_read)

lemma safe_then_n16_be:
  "2 \<le> n \<Longrightarrow> (\<And>a. safe_from (n - 2) (g a)) \<Longrightarrow> safe_from n (\<lambda>s. and_then (Stream_Read_UINT16_BE s) g)"
  by (rule safe_read_then) (auto simp: stream_read)

lemma safe_then_n16_le:
  "2 \<le> n \<Longrightarrow> (\<And>a. safe_from (n - 2) (g a)) \<Longrightarrow> safe_from n (\<lambda>s. and_then (Stream_Read_UINT16 s) g)"
  by (rule safe_read_then) (auto simp: stream_read)

lemma safe_then_n32_be:
  "4 \<le> n \<Longrightarrow> (\<And>a. safe_from (n - 4) (g a)) \<Longrightarrow> safe_from n (\<lambda>s. and_then (Stream_Read_UINT32_BE s) g)"
  by (rule safe_read_then) (auto simp: stream_read)

lemma safe_then_n32_le:
  "4 \<le> n \<Longrightarrow> (\<And>a. safe_from (n - 4) (g a)) \<Longrightarrow> safe_from n (\<lambda>s. and_then (Stream_Read_UINT32 s) g)"
  by (rule safe_read_then) (auto simp: stream_read)

lemma safe_then_peek:
  assumes "1 \<le> n" and g: "\<And>a. safe_from n (g a)"
  shows "safe_from n (\<lambda>s. and_then (Stream_Peek_UINT8 s) g)"
  using assms by (simp add: safe_from_def stream_read)

lemma safe_SafeSeek: "safe_from n (\<lambda>s. Stream_SafeSeek s k)"
  by (simp add: safe_from_def Stream_SafeSeek_readable)

lemma safe_n8: "1 \<le> n \<Longrightarrow> safe_from n Stream_Read_UINT8"
  by (simp add: safe_from_def stream_read)

text \<open>The rules in the order in which they are tried: the shapes of raw accesses first.\<close>

lemmas safe_rules =
  safe_Ok safe_Ok_app safe_Fail safe_n8 safe_Ok_seek safe_SafeSeek safe_check_int safe_check
  safe_then_n8 safe_then_n16_be safe_then_n16_le safe_then_n32_be safe_then_n32_le safe_then_peek
  safe_if_const safe_if

section \<open>Growth\<close>

lemma ensure_capacity_loop_enough:
  assumes "0 < c" "c < sz" "sz \<le> 2 ^ 63"
  shows "\<exists>n. ensure_capacity_loop c sz = Some n \<and> sz \<le> n \<and> n < 2 * sz"
  using assms
proof (induction "sz - c" arbitrary: c rule: less_induct)
  case less
  have c2: "size_mul c 2 = c * 2"
    using less.prems by (simp add: size_mul_def)
  show ?case
  proof (cases "c * 2 < sz")
    case True
    with less.prems have "sz - c * 2 < sz - c" by linarith
    with less.hyps [of "c * 2"] True less.prems show ?thesis
      by (simp add: ensure_capacity_loop.simps [of c] c2)
  next
    case False
    with less.prems show ?thesis
      by (simp add: ensure_capacity_loop.simps [of c] c2)
  qed
qed

lemma ensure_capacity_loop_Some_nonzero:
  assumes "ensure_capacity_loop c sz = Some n" shows "c \<noteq> 0 \<or> sz = 0"
proof (rule ensure_capacity_loop.raw_induct [where P = "\<lambda>c sz n. c \<noteq> 0 \<or> sz = 0", OF _ assms])
  fix f c sz n
  assume IH: "\<And>c sz n. f c sz = Some n \<Longrightarrow> c \<noteq> 0 \<or> sz = 0"
    and "(let c' = size_mul c 2 in if c' < sz then f c' sz else Some c') = Some n"
  then show "c \<noteq> 0 \<or> sz = 0"
    by (auto simp: Let_def size_mul_def split: if_splits dest: IH)
qed

lemma ensure_capacity_loop_zero: "0 < sz \<Longrightarrow> ensure_capacity_loop 0 sz = None"
  using ensure_capacity_loop_Some_nonzero [of 0 sz] by (cases "ensure_capacity_loop 0 sz") auto

lemma Stream_EnsureCapacity_grows_aux:
  assumes s: "stream_ok s" and c: "0 < s_capacity s" "s_capacity s < sz" "sz \<le> 2 ^ 62"
  shows "\<exists>t n. Stream_EnsureCapacity (Some f) s sz = Some (Ok () t) \<and>
      t = s\<lparr>s_buffer := s_buffer s @ replicate (n - s_capacity s) 0, s_capacity := n, s_length := n,
            s_isOwner := True\<rparr> \<and> sz \<le> n \<and> n < 2 ^ 63 \<and> n < 2 * sz"
proof -
  obtain n where n: "ensure_capacity_loop (s_capacity s) sz = Some n" "sz \<le> n" "n < 2 * sz"
    using ensure_capacity_loop_enough [OF c(1,2)] c(3) by auto
  have len: "length (s_buffer s) = s_capacity s" using s by (simp add: stream_ok_def)
  have b: "blit (blit (map f [0..<n]) 0 (s_buffer s)) (s_capacity s) (replicate (n - s_capacity s) 0)
           = s_buffer s @ replicate (n - s_capacity s) 0"
    using n c len by (simp add: blit_def)
  have r: "blit (s_buffer s @ map f [s_capacity s..<n]) (s_capacity s) (replicate (n - s_capacity s) 0)
           = s_buffer s @ replicate (n - s_capacity s) 0"
    using n c len by (simp add: blit_def)
  show ?thesis
    using n c len b r
    by (intro exI [of _ "s\<lparr>s_buffer := s_buffer s @ replicate (n - s_capacity s) 0, s_capacity := n,
          s_length := n, s_isOwner := True\<rparr>"] exI [of _ n])
      (auto simp: Stream_EnsureCapacity_def Let_def malloc_def realloc_def Stream_SetPosition_def
        Stream_GetPosition_def intro!: wStream.equality)
qed

text \<open>
  An owned stream whose reallocation fails is unchanged; a borrowed one is written through
  \<open>NULL\<close>.
\<close>

lemma Stream_EnsureCapacity_no_memory:
  assumes "0 < s_capacity s" "s_capacity s < sz" "sz \<le> 2 ^ 63"
  shows "Stream_EnsureCapacity None s sz = Some (if s_isOwner s then Fail s else Fault)"
  using assms ensure_capacity_loop_enough [OF assms]
  by (auto simp: Stream_EnsureCapacity_def Let_def malloc_def realloc_def)

section \<open>Properties\<close>

text \<open>
  C17. Growing a stream. When memory is granted, \<open>Stream_EnsureCapacity\<close> on a stream of non-zero
  capacity terminates (the doubling loop ends) and yields a well-formed stream of at least the
  requested capacity that keeps the old bytes and the position, and whose new bytes are zero.
\<close>

theorem Stream_EnsureCapacity_grows:
  assumes "stream_ok s" "0 < s_capacity s" "s_capacity s < sz" "sz \<le> 2 ^ 62"
  shows "\<exists>t. Stream_EnsureCapacity (Some f) s sz = Some (Ok () t) \<and> stream_ok t \<and>
     sz \<le> s_capacity t \<and> s_pointer t = s_pointer s \<and> s_isOwner t \<and>
     s_buffer t = s_buffer s @ replicate (s_capacity t - s_capacity s) 0"
proof -
  from Stream_EnsureCapacity_grows_aux [OF assms, of f] obtain n t where t:
    "Stream_EnsureCapacity (Some f) s sz = Some (Ok () t)"
    "t = s\<lparr>s_buffer := s_buffer s @ replicate (n - s_capacity s) 0, s_capacity := n, s_length := n,
           s_isOwner := True\<rparr>" "sz \<le> n" "n < 2 ^ 63" by blast
  with assms show ?thesis by (intro exI [of _ t]) (simp add: stream_ok_def)
qed

theorem Stream_EnsureCapacity_grows_witness:
  "\<exists>t. Stream_EnsureCapacity (Some (\<lambda>i. 7)) (Stream_StaticInit [1, 2, 3] 3) 10 = Some (Ok () t) \<and>
     stream_ok t \<and> 10 \<le> s_capacity t \<and> s_buffer t = [1, 2, 3] @ replicate (s_capacity t - 3) 0"
  using Stream_EnsureCapacity_grows [of "Stream_StaticInit [1, 2, 3] 3" 10 "\<lambda>i. 7"]
  by (auto simp: Stream_StaticInit_def stream_ok_def)

text \<open>
  A successful \<open>Stream_EnsureRemainingCapacity\<close> really makes room: afterwards the requested
  number of bytes can be written at the unchanged position without leaving the buffer.
\<close>

theorem Stream_EnsureRemainingCapacity_room:
  assumes "stream_ok s" "0 < s_capacity s" "0 < sz" "s_capacity s + sz \<le> 2 ^ 62"
  shows "\<exists>t. Stream_EnsureRemainingCapacity (Some f) s sz = Some (Ok () t) \<and> stream_ok t \<and>
     sz \<le> room t \<and> s_pointer t = s_pointer s \<and>
     take (s_capacity s) (s_buffer t) = s_buffer s"
proof -
  have add: "size_add (s_pointer s) sz = s_pointer s + sz" "size_add (s_capacity s) sz = s_capacity s + sz"
    using assms by (auto simp: size_add_def stream_ok_def)
  have len: "length (s_buffer s) = s_capacity s" using assms by (simp add: stream_ok_def)
  show ?thesis
  proof (cases "s_pointer s + sz > s_capacity s")
    case True
    obtain n t where t: "Stream_EnsureCapacity (Some f) s (s_capacity s + sz) = Some (Ok () t)"
      "t = s\<lparr>s_buffer := s_buffer s @ replicate (n - s_capacity s) 0, s_capacity := n, s_length := n,
           s_isOwner := True\<rparr>" "s_capacity s + sz \<le> n" "n < 2 ^ 63"
      using Stream_EnsureCapacity_grows_aux [OF assms(1,2), of "s_capacity s + sz" f] assms by auto
    with True add len assms show ?thesis
      by (intro exI [of _ t])
        (auto simp: Stream_EnsureRemainingCapacity_def Stream_GetPosition_def stream_ok_def room_def)
  next
    case False
    with assms len add show ?thesis
      by (auto simp: Stream_EnsureRemainingCapacity_def Stream_GetPosition_def room_def)
  qed
qed

theorem Stream_EnsureRemainingCapacity_room_witness:
  "\<exists>t. Stream_EnsureRemainingCapacity (Some (\<lambda>i. 7)) (Stream_StaticInit [1, 2] 2) 5 = Some (Ok () t) \<and>
     5 \<le> room t \<and> take 2 (s_buffer t) = [1, 2]"
  using Stream_EnsureRemainingCapacity_room [of "Stream_StaticInit [1, 2] 2" 5 "\<lambda>i. 7"]
  by (auto simp: Stream_StaticInit_def stream_ok_def)

text \<open>
  C18. The two ways \<open>Stream_EnsureCapacity\<close> does not return normally: on a stream of capacity zero
  the doubling loop never ends, and on a borrowed buffer a failed allocation is dereferenced.
\<close>

theorem Stream_EnsureCapacity_defects:
  assumes "s_capacity s < sz" "sz \<le> 2 ^ 63"
  shows "(s_capacity s = 0 \<longrightarrow> Stream_EnsureCapacity al s sz = None) \<and>
    (0 < s_capacity s \<longrightarrow>
      Stream_EnsureCapacity None s sz = Some (if s_isOwner s then Fail s else Fault))"
  using assms Stream_EnsureCapacity_no_memory [of s sz]
  by (simp add: Stream_EnsureCapacity_def [of al] ensure_capacity_loop_zero)

theorem Stream_EnsureCapacity_defects_witness:
  "Stream_EnsureCapacity (Some (\<lambda>i. 0)) (Stream_StaticInit [] 0) 1 = None \<and>
   Stream_EnsureCapacity None (Stream_StaticInit [1] 1) 2 = Some Fault"
  using Stream_EnsureCapacity_defects [of "Stream_StaticInit [] 0" 1 "Some (\<lambda>i. 0)"]
    Stream_EnsureCapacity_defects [of "Stream_StaticInit [1] 1" 2]
  by (simp add: Stream_StaticInit_def)

end
