(* ===== verification/Wire_Format.thy ===== *)
theory Wire_Format
  imports WinPR_Stream
begin

text \<open>
  The contract between a writer and the parser of the same field. \<open>enc v\<close> is the wire image
  of the value \<open>v\<close>, \<open>valid\<close> the values the format can carry. The provider promises that the
  writer emits exactly the image, that the parser returns the value and consumes exactly the
  image whatever follows it, and that the parser is memory safe on every input. The clients
  get the round trip through the network and that the format is unambiguous.
\<close>

locale wire_format =
  fixes enc :: "'a \<Rightarrow> u8 list"
    and valid :: "'a \<Rightarrow> bool"
    and wr :: "wStream \<Rightarrow> 'a \<Rightarrow> (unit, wStream) res"
    and rd :: "wStream \<Rightarrow> ('a, wStream) res"
  assumes write_enc:
    "stream_ok s \<Longrightarrow> valid v \<Longrightarrow> length (enc v) \<le> room s \<Longrightarrow> wr s v = Ok () (put (enc v) s)"
    and read_enc:
    "readable s \<Longrightarrow> valid v \<Longrightarrow> remaining s = enc v @ rest \<Longrightarrow>
     rd s = Ok v (skip (length (enc v)) s)"
    and read_safe: "safe_read rd"
begin

lemma roundtrip:
  assumes "stream_ok s" "s_pointer s = 0" "valid v" "length (enc v) + length rest \<le> room s"
  shows "\<exists>t u. wr s v = Ok () t \<and> rd (deliver (put rest t)) = Ok v u \<and> readable u \<and> remaining u = rest"
proof -
  let ?d = "deliver (put (enc v @ rest) s)"
  have d: "readable ?d" "remaining ?d = enc v @ rest"
    using deliver_put [OF assms(1,2), of "enc v @ rest"] assms(4) by simp_all
  have "wr s v = Ok () (put (enc v) s)" using assms by (simp add: write_enc)
  moreover have "put rest (put (enc v) s) = put (enc v @ rest) s" using assms by simp
  moreover have "rd ?d = Ok v (skip (length (enc v)) ?d)" using read_enc [OF d(1) assms(3) d(2)] .
  ultimately show ?thesis using d by auto
qed

lemma enc_inject:
  assumes "valid v" "valid w" "enc v @ xs = enc w @ ys" "length (enc v @ xs) < 2 ^ 63"
  shows "v = w" "xs = ys"
proof -
  let ?s = "Stream_StaticInit (enc v @ xs) (length (enc v @ xs))"
  have s: "readable ?s" "remaining ?s = enc v @ xs"
    using assms(4) by (simp_all add: readable_def stream_ok_def remaining_def Stream_StaticInit_def)
  from read_enc [OF s(1) assms(1) s(2)] read_enc [OF s(1) assms(2), of ys] s(2) assms(3)
  show "v = w" by simp
  with assms(3) show "xs = ys" by simp
qed

lemma read_no_fault: "readable s \<Longrightarrow> rd s \<noteq> Fault"
  using read_safe by (rule safe_read_no_fault)

end

text \<open>Two fields in a row, each parsed by its own parser, form a format again.\<close>

locale wire_pair =
  a: wire_format enc_a valid_a write_a read_a + b: wire_format enc_b valid_b write_b read_b
  for enc_a :: "'a \<Rightarrow> u8 list" and valid_a write_a read_a
    and enc_b :: "'b \<Rightarrow> u8 list" and valid_b write_b read_b
begin

lemma pair_write:
  assumes "stream_ok s" "valid_a x" "valid_b y" "length (enc_a x @ enc_b y) \<le> room s"
  shows "and_then (write_a s x) (\<lambda>_ s. write_b s y) = Ok () (put (enc_a x @ enc_b y) s)"
  using assms by (simp add: a.write_enc b.write_enc)

lemma pair_read:
  assumes "readable s" "valid_a x" "valid_b y" "remaining s = (enc_a x @ enc_b y) @ rest"
  shows "and_then (read_a s) (\<lambda>x s. and_then (read_b s) (\<lambda>y s. Ok (x, y) s)) =
         Ok (x, y) (skip (length (enc_a x @ enc_b y)) s)"
  using assms a.read_enc [of s x "enc_b y @ rest"]
    b.read_enc [of "skip (length (enc_a x)) s" y rest] by simp

lemma pair_safe: "safe_read (\<lambda>s. and_then (read_a s) (\<lambda>x s. and_then (read_b s) (\<lambda>y s. Ok (x, y) s)))"
  by (rule safe_call [OF a.read_safe] safe_call [OF b.read_safe] le_refl safe_rules)+

end

sublocale wire_pair \<subseteq> pair: wire_format
  "\<lambda>(x, y). enc_a x @ enc_b y" "\<lambda>(x, y). valid_a x \<and> valid_b y"
  "\<lambda>s (x, y). and_then (write_a s x) (\<lambda>_ s. write_b s y)"
  "\<lambda>s. and_then (read_a s) (\<lambda>x s. and_then (read_b s) (\<lambda>y s. Ok (x, y) s))"
  using pair_write pair_read pair_safe by unfold_locales auto

section \<open>The integer accessors as formats\<close>

lemma be32_octets:
  "be32 v = [ucast (drop_bit 24 v AND 0xFF), ucast (drop_bit 16 v AND 0xFF),
             ucast (drop_bit 8 v AND 0xFF), ucast (v AND 0xFF)]"
proof -
  have "(ucast (drop_bit 8 (ucast (w AND 0xFFFF) :: u16) AND 0xFF) :: u8) = ucast (drop_bit 8 w AND 0xFF)"
    "(ucast ((ucast (w AND 0xFFFF) :: u16) AND 0xFF) :: u8) = ucast (w AND 0xFF)" for w :: u32
    unfolding and_mask8 and_mask16 by (rule bit_word_eqI; auto simp: bit_simps ac_simps)+
  then show ?thesis by (simp add: be32_def be16_def)
qed

lemma read_be16:
  "readable s \<Longrightarrow> remaining s = be16 v @ rest \<Longrightarrow> Stream_Read_UINT16_BE s = Ok v (skip 2 s)"
  using octets16 [of v] by (simp add: stream_read be16_def ucast_octet add.commute)

lemma read_le16:
  "readable s \<Longrightarrow> remaining s = le16 v @ rest \<Longrightarrow> Stream_Read_UINT16 s = Ok v (skip 2 s)"
  using octets16 [of v] by (simp add: stream_read le16_def ucast_octet)

lemma read_be32:
  "readable s \<Longrightarrow> remaining s = be32 v @ rest \<Longrightarrow> Stream_Read_UINT32_BE s = Ok v (skip 4 s)"
  using octets32_be [of v] by (simp add: stream_read be32_octets ucast_octet numeral_eq_Suc)

lemma read_le32:
  "readable s \<Longrightarrow> remaining s = le32 v @ rest \<Longrightarrow> Stream_Read_UINT32 s = Ok v (skip 4 s)"
  using octets32 [of v] by (simp add: stream_read le32_def ucast_octet)

lemma read_le64:
  "readable s \<Longrightarrow> remaining s = le64 v @ rest \<Longrightarrow> Stream_Read_UINT64 s = Ok v (skip 8 s)"
  using octets64 [of v] by (simp add: stream_read le64_def ucast_octet)

section \<open>Exact bounds of writers\<close>

text \<open>
  The write accessors check nothing, so a writer that runs out of room writes behind the buffer.
  \<open>emits a bs f\<close>: on every well-formed stream the writer \<open>f\<close> writes exactly the bytes \<open>bs\<close> and returns
  \<open>a\<close> when they fit, and overruns the buffer when they do not. It composes along sequences.
\<close>

definition emits :: "'a \<Rightarrow> u8 list \<Rightarrow> (wStream \<Rightarrow> ('a, wStream) res) \<Rightarrow> bool" where
  "emits a bs f \<longleftrightarrow> (\<forall>s. stream_ok s \<longrightarrow> f s = (if length bs \<le> room s then Ok a (put bs s) else Fault))"

lemma emitsD: "emits a bs f \<Longrightarrow> stream_ok s \<Longrightarrow> f s = (if length bs \<le> room s then Ok a (put bs s) else Fault)"
  by (simp add: emits_def)

lemma emits_fits: "emits a bs f \<Longrightarrow> stream_ok s \<Longrightarrow> length bs \<le> room s \<Longrightarrow> f s = Ok a (put bs s)"
  by (simp add: emits_def)

lemma emits_Ok: "emits a [] (Ok a)"
  by (simp add: emits_def)

lemma emits_then:
  assumes "emits a bs f" "emits b cs (g a)" "ds = bs @ cs"
  shows "emits b ds (\<lambda>s. and_then (f s) g)"
  unfolding emits_def
proof (intro allI impI)
  fix s assume s: "stream_ok s"
  show "and_then (f s) g = (if length ds \<le> room s then Ok b (put ds s) else Fault)"
  proof (cases "length bs \<le> room s")
    case True
    with s assms show ?thesis by (auto simp: emits_def)
  qed (use s assms in \<open>auto simp: emits_def\<close>)
qed

lemma emits_if: "(b \<Longrightarrow> emits a bs f) \<Longrightarrow> (\<not> b \<Longrightarrow> emits a cs g) \<Longrightarrow>
  emits a (if b then bs else cs) (\<lambda>s. if b then f s else g s)"
  by simp

lemma emits_u8: "emits () [v] (\<lambda>s. Stream_Write_UINT8 s v)"
  by (auto simp: emits_def stream_write) (auto simp: Stream_Write_UINT8_def in_block_def stream_ok_def room_def)

lemma emits_u16: "emits () (le16 v) (\<lambda>s. Stream_Write_UINT16 s v)"
  unfolding Stream_Write_UINT16_def
  by (rule emits_then [OF emits_u8 emits_u8]) (simp add: le16_def)

lemma emits_u16_be: "emits () (be16 v) (\<lambda>s. Stream_Write_UINT16_BE s v)"
  unfolding Stream_Write_UINT16_BE_def
  by (rule emits_then [OF emits_u8 emits_u8]) (simp add: be16_def)

lemma emits_u32: "emits () (le32 v) (\<lambda>s. Stream_Write_UINT32 s v)"
  unfolding Stream_Write_UINT32_def
  by (rule emits_then emits_u8 refl)+ (simp add: le32_def)

lemma emits_block: "n \<le> length b \<Longrightarrow> emits () (take n b) (\<lambda>s. Stream_Write s b n)"
  by (auto simp: emits_def stream_write) (auto simp: Stream_Write_def in_block_def stream_ok_def room_def)

lemma emits_zero: "emits () (replicate n 0) (\<lambda>s. Stream_Zero s n)"
  by (auto simp: emits_def stream_write) (auto simp: Stream_Zero_def in_block_def stream_ok_def room_def)

lemmas emits_rules = emits_u8 emits_u16 emits_u16_be emits_u32 emits_Ok

end
