(* ===== verification/Crypto_Per.thy ===== *)
theory Crypto_Per
  imports Wire_Format
begin

text \<open>
  The PER primitives of \<^verbatim>\<open>libfreerdp/crypto/per.c\<close>, with which the T.124 and T.125 PDUs are
  encoded: one definition per C function, in the order of the file. C \<open>int\<close> parameters are
  \<open>int\<close>; a value passed as a narrower type is converted with \<open>word_of_int\<close>.
\<close>

section \<open>The primitives\<close>

definition per_read_length :: "wStream \<Rightarrow> (u16, wStream) res" where
  "per_read_length s =
     (if Stream_GetRemainingLength s < 1 then Fail s
      else and_then (Stream_Read_UINT8 s) (\<lambda>byte s.
        if byte AND 0x80 \<noteq> 0 then
          (if Stream_GetRemainingLength s < 1 then Fail s
           else and_then (Stream_Read_UINT8 s) (\<lambda>byte2 s.
                  Ok (push_bit 8 (ucast (byte AND NOT 0x80)) + ucast byte2) s))
        else Ok (ucast byte) s))"

definition per_write_length :: "wStream \<Rightarrow> int \<Rightarrow> (unit, wStream) res" where
  "per_write_length s len =
     (if len > 0x7F then Stream_Write_UINT16_BE s (word_of_int (len OR 0x8000))
      else Stream_Write_UINT8 s (word_of_int len))"

definition per_read_choice :: "wStream \<Rightarrow> (u8, wStream) res" where
  "per_read_choice s =
     (if Stream_GetRemainingLength s < 1 then Fail s else Stream_Read_UINT8 s)"

definition per_write_choice :: "wStream \<Rightarrow> u8 \<Rightarrow> (unit, wStream) res" where
  "per_write_choice s choice = Stream_Write_UINT8 s choice"

definition per_read_selection :: "wStream \<Rightarrow> (u8, wStream) res" where
  "per_read_selection s =
     (if Stream_GetRemainingLength s < 1 then Fail s else Stream_Read_UINT8 s)"

definition per_write_selection :: "wStream \<Rightarrow> u8 \<Rightarrow> (unit, wStream) res" where
  "per_write_selection s selection = Stream_Write_UINT8 s selection"

definition per_read_number_of_sets :: "wStream \<Rightarrow> (u8, wStream) res" where
  "per_read_number_of_sets s =
     (if Stream_GetRemainingLength s < 1 then Fail s else Stream_Read_UINT8 s)"

definition per_write_number_of_sets :: "wStream \<Rightarrow> u8 \<Rightarrow> (unit, wStream) res" where
  "per_write_number_of_sets s number = Stream_Write_UINT8 s number"

definition per_read_padding :: "wStream \<Rightarrow> int \<Rightarrow> (unit, wStream) res" where
  "per_read_padding s len =
     (if size_to_int (Stream_GetRemainingLength s) < len then Fail s
      else Ok () (Stream_Seek s (int_to_size len)))"

text \<open>The write loops of the file: one octet after the other.\<close>

primrec per_write_octets :: "wStream \<Rightarrow> u8 list \<Rightarrow> (unit, wStream) res" where
  "per_write_octets s [] = Ok () s"
| "per_write_octets s (b # bs) =
     and_then (Stream_Write_UINT8 s b) (\<lambda>_ s. per_write_octets s bs)"

definition per_write_padding :: "wStream \<Rightarrow> int \<Rightarrow> (unit, wStream) res" where
  "per_write_padding s len = per_write_octets s (replicate (nat len) 0)"

definition per_read_integer :: "wStream \<Rightarrow> (u32, wStream) res" where
  "per_read_integer s =
     and_then (per_read_length s) (\<lambda>len s.
       if Stream_GetRemainingLength s < unat len then Fail s
       else if len = 0 then Ok 0 s
       else if len = 1 then and_then (Stream_Read_UINT8 s) (\<lambda>v s. Ok (ucast v) s)
       else if len = 2 then and_then (Stream_Read_UINT16_BE s) (\<lambda>v s. Ok (ucast v) s)
       else Fail s)"

definition per_write_integer :: "wStream \<Rightarrow> u32 \<Rightarrow> (unit, wStream) res" where
  "per_write_integer s integer =
     (if integer \<le> 0xFF then
        and_then (per_write_length s 1) (\<lambda>_ s. Stream_Write_UINT8 s (ucast integer))
      else if integer \<le> 0xFFFF then
        and_then (per_write_length s 2) (\<lambda>_ s. Stream_Write_UINT16_BE s (ucast integer))
      else if integer \<le> 0xFFFFFFFF then
        and_then (per_write_length s 4) (\<lambda>_ s. Stream_Write_UINT32_BE s integer)
      else Ok () s)"

definition per_read_integer16 :: "wStream \<Rightarrow> u16 \<Rightarrow> (u16, wStream) res" where
  "per_read_integer16 s minimum =
     (if Stream_GetRemainingLength s < 2 then Fail s
      else and_then (Stream_Read_UINT16_BE s) (\<lambda>integer s.
        if uint integer + uint minimum > 0xFFFF then Fail s
        else Ok (integer + minimum) s))"

definition per_write_integer16 :: "wStream \<Rightarrow> u16 \<Rightarrow> u16 \<Rightarrow> (unit, wStream) res" where
  "per_write_integer16 s integer minimum = Stream_Write_UINT16_BE s (integer - minimum)"

definition per_read_enumerated :: "wStream \<Rightarrow> u8 \<Rightarrow> (u8, wStream) res" where
  "per_read_enumerated s cnt =
     (if Stream_GetRemainingLength s < 1 then Fail s
      else and_then (Stream_Read_UINT8 s) (\<lambda>enumerated s.
        if uint enumerated + 1 > uint cnt then Fail s else Ok enumerated s))"

definition per_write_enumerated :: "wStream \<Rightarrow> u8 \<Rightarrow> u8 \<Rightarrow> (unit, wStream) res" where
  "per_write_enumerated s enumerated cnt = Stream_Write_UINT8 s enumerated"

type_synonym oid = "u8 \<times> u8 \<times> u8 \<times> u8 \<times> u8 \<times> u8"

definition per_read_object_identifier :: "wStream \<Rightarrow> oid \<Rightarrow> (unit, wStream) res" where
  "per_read_object_identifier s oid =
     and_then (per_read_length s) (\<lambda>len s.
       if len \<noteq> 5 then Fail s
       else if Stream_GetRemainingLength s < unat len then Fail s
       else and_then (Stream_Read_UINT8 s) (\<lambda>t12 s.
            and_then (Stream_Read_UINT8 s) (\<lambda>a2 s.
            and_then (Stream_Read_UINT8 s) (\<lambda>a3 s.
            and_then (Stream_Read_UINT8 s) (\<lambda>a4 s.
            and_then (Stream_Read_UINT8 s) (\<lambda>a5 s.
              if (t12 div 40, t12 mod 40, a2, a3, a4, a5) = oid then Ok () s else Fail s))))))"

fun per_write_object_identifier :: "wStream \<Rightarrow> oid \<Rightarrow> (unit, wStream) res" where
  "per_write_object_identifier s (o0, o1, o2, o3, o4, o5) =
     and_then (Stream_Write_UINT8 s 5) (\<lambda>_ s.
     and_then (Stream_Write_UINT8 s (o0 * 40 + o1)) (\<lambda>_ s.
     and_then (Stream_Write_UINT8 s o2) (\<lambda>_ s.
     and_then (Stream_Write_UINT8 s o3) (\<lambda>_ s.
     and_then (Stream_Write_UINT8 s o4) (\<lambda>_ s.
     Stream_Write_UINT8 s o5)))))"

definition per_write_string :: "wStream \<Rightarrow> u8 list \<Rightarrow> int \<Rightarrow> (unit, wStream) res" where
  "per_write_string s str len =
     (if nat len \<le> length str then per_write_octets s (take (nat len) str) else Fault)"

text \<open>The comparison loop; \<open>None\<close> when it would read past one of the arrays.\<close>

fun per_match_octets :: "nat \<Rightarrow> u8 list \<Rightarrow> u8 list \<Rightarrow> bool option" where
  "per_match_octets 0 xs ys = Some True"
| "per_match_octets (Suc n) (x # xs) (y # ys) =
     (if x \<noteq> y then Some False else per_match_octets n xs ys)"
| "per_match_octets (Suc n) xs ys = None"

definition per_read_octet_string ::
  "wStream \<Rightarrow> u8 list \<Rightarrow> int \<Rightarrow> int \<Rightarrow> (unit, wStream) res" where
  "per_read_octet_string s oct_str len minimum =
     and_then (per_read_length s) (\<lambda>mlength s.
       if uint mlength + minimum \<noteq> len then Fail s
       else if size_to_int (Stream_GetRemainingLength s) < len then Fail s
       else case per_match_octets (nat len) (drop (s_pointer s) (s_buffer s)) oct_str of
              None \<Rightarrow> Fault
            | Some True \<Rightarrow> Ok () (Stream_Seek s (int_to_size len))
            | Some False \<Rightarrow> Fail (Stream_Seek s (int_to_size len)))"

definition per_write_octet_string ::
  "wStream \<Rightarrow> u8 list \<Rightarrow> int \<Rightarrow> int \<Rightarrow> (unit, wStream) res" where
  "per_write_octet_string s oct_str len minimum =
     and_then (per_write_length s (if len - minimum \<ge> 0 then len - minimum else minimum)) (\<lambda>_ s.
       if nat len \<le> length oct_str then per_write_octets s (take (nat len) oct_str) else Fault)"

definition per_read_numeric_string :: "wStream \<Rightarrow> int \<Rightarrow> (unit, wStream) res" where
  "per_read_numeric_string s minimum =
     and_then (per_read_length s) (\<lambda>mlength s.
       if size_to_int (Stream_GetRemainingLength s) < (uint mlength + minimum + 1) sdiv 2 then Fail s
       else Ok () (Stream_Seek s (int_to_size ((uint mlength + minimum + 1) sdiv 2))))"

definition per_nibble :: "u8 \<Rightarrow> u8" where
  "per_nibble c = word_of_int ((uint c - 0x30) smod 10)"

fun per_numeric_octets :: "u8 list \<Rightarrow> u8 list" where
  "per_numeric_octets [] = []"
| "per_numeric_octets [c1] = [push_bit 4 (per_nibble c1) OR per_nibble 0x30]"
| "per_numeric_octets (c1 # c2 # cs) =
     (push_bit 4 (per_nibble c1) OR per_nibble c2) # per_numeric_octets cs"

definition per_write_numeric_string ::
  "wStream \<Rightarrow> u8 list \<Rightarrow> int \<Rightarrow> int \<Rightarrow> (unit, wStream) res" where
  "per_write_numeric_string s num_str len minimum =
     and_then (per_write_length s (if len - minimum \<ge> 0 then len - minimum else minimum)) (\<lambda>_ s.
       if nat len \<le> length num_str
       then per_write_octets s (per_numeric_octets (take (nat len) num_str)) else Fault)"

section \<open>Memory safety\<close>

lemma per_read_length_safe: "safe_read per_read_length"
  unfolding per_read_length_def by (rule safe_rules | simp)+

lemma per_read_octet_safe:
  "safe_read per_read_choice" "safe_read per_read_selection" "safe_read per_read_number_of_sets"
  unfolding per_read_choice_def per_read_selection_def per_read_number_of_sets_def
  by (rule safe_rules | simp)+

lemma per_read_padding_safe: "0 \<le> len \<Longrightarrow> safe_read (\<lambda>s. per_read_padding s len)"
  unfolding per_read_padding_def by (rule safe_rules | assumption)+

lemma per_read_integer_safe: "safe_read per_read_integer"
  unfolding per_read_integer_def
  by (rule safe_call [OF per_read_length_safe] safe_rules | simp)+

lemma per_read_integer16_safe: "safe_read (\<lambda>s. per_read_integer16 s minimum)"
  unfolding per_read_integer16_def by (rule safe_rules | simp)+

lemma per_read_enumerated_safe: "safe_read (\<lambda>s. per_read_enumerated s cnt)"
  unfolding per_read_enumerated_def by (rule safe_rules | simp)+

lemma per_read_object_identifier_safe: "safe_read (\<lambda>s. per_read_object_identifier s oid)"
  unfolding per_read_object_identifier_def
  by (rule safe_call [OF per_read_length_safe] safe_rules | simp)+

lemma per_match_octets_defined:
  "n \<le> length xs \<Longrightarrow> n \<le> length ys \<Longrightarrow> per_match_octets n xs ys = Some (take n xs = take n ys)"
  by (induction n xs ys rule: per_match_octets.induct) auto

lemma per_read_octet_string_safe:
  assumes "0 \<le> len" "nat len \<le> length oct_str"
  shows "safe_read (\<lambda>s. per_read_octet_string s oct_str len minimum)"
proof -
  have "wp (if size_to_int (Stream_GetRemainingLength s) < len then Fail s
       else case per_match_octets (nat len) (drop (s_pointer s) (s_buffer s)) oct_str of
              None \<Rightarrow> Fault
            | Some True \<Rightarrow> Ok () (Stream_Seek s (int_to_size len))
            | Some False \<Rightarrow> Fail (Stream_Seek s (int_to_size len))) (\<lambda>_. advances s) (advances s)"
    if "readable s" for s
  proof (cases "size_to_int (Stream_GetRemainingLength s) < len")
    case True
    then show ?thesis by simp
  next
    case False
    from size_to_int_check [OF False assms(1)] that
    have k: "nat len \<le> length (remaining s)" "int_to_size len = nat len" by simp_all
    then have "nat len \<le> length (drop (s_pointer s) (s_buffer s))"
      by (simp add: remaining_def)
    with assms(2) False that k show ?thesis
      by (simp add: per_match_octets_defined split: bool.splits)
  qed
  then show ?thesis
    unfolding per_read_octet_string_def
    by (intro safe_call [OF per_read_length_safe] safe_if_const safe_Fail le_refl) (simp add: safe_from_def)
qed

lemma per_read_numeric_string_safe:
  assumes "0 \<le> minimum" shows "safe_read (\<lambda>s. per_read_numeric_string s minimum)"
proof -
  have "0 \<le> (uint (m :: u16) + minimum + 1) sdiv 2" for m
    using assms by (simp add: signed_divide_int_def)
  then show ?thesis
    unfolding per_read_numeric_string_def
    by (intro safe_call [OF per_read_length_safe] safe_check_int) simp_all
qed

section \<open>Wire formats\<close>

text \<open>The flag bits as words that the simplifier does not evaluate.\<close>

lemma flag_bits:
  obtains f :: u8 and g :: u16 where "0x80 = f" "0x8000 = g"
    "\<And>n. bit f n \<longleftrightarrow> n = 7" "\<And>n. bit g n \<longleftrightarrow> n = 15"
proof
  show "(0x80 :: u8) = 2 ^ 7" "(0x8000 :: u16) = 2 ^ 15" by simp_all
  show "bit (2 ^ 7 :: u8) n \<longleftrightarrow> n = 7" "bit (2 ^ 15 :: u16) n \<longleftrightarrow> n = 15" for n
    unfolding bit_exp_iff possible_bit_word by auto
qed

lemma per_length_flag:
  "(ucast (drop_bit 8 ((v :: u16) OR 0x8000) AND 0xFF) :: u8) AND 0x80 \<noteq> 0"
proof -
  obtain f :: u8 and g :: u16 where fg: "0x80 = f" "0x8000 = g"
    "\<And>n. bit f n \<longleftrightarrow> n = 7" "\<And>n. bit g n \<longleftrightarrow> n = 15" by (rule flag_bits) blast
  have "bit ((ucast (drop_bit 8 (v OR 0x8000) AND 0xFF) :: u8) AND 0x80) 7"
    unfolding and_mask8 fg(1,2) by (simp add: bit_simps fg(3,4))
  then show ?thesis by force
qed

lemma per_length_no_flag: "(v :: u16) \<le> 0x7F \<Longrightarrow> (ucast v :: u8) AND 0x80 = 0"
proof -
  obtain f :: u8 and g :: u16 where fg: "0x80 = f" "0x8000 = g"
    "\<And>n. bit f n \<longleftrightarrow> n = 7" "\<And>n. bit g n \<longleftrightarrow> n = 15" by (rule flag_bits) blast
  assume "v \<le> 0x7F"
  then have "\<not> bit v 7" by (intro bit_less_exp) (simp add: word_le_nat_alt)
  then show ?thesis
    unfolding fg(1) by (intro bit_word_eqI) (auto simp: bit_simps fg(3))
qed

lemma per_length_long:
  assumes "(v :: u16) < 0x8000"
  shows "push_bit 8 (ucast ((ucast (drop_bit 8 (v OR 0x8000) AND 0xFF) :: u8) AND NOT 0x80)) +
     ucast (ucast ((v OR 0x8000) AND 0xFF) :: u8) = v"
proof -
  obtain f :: u8 and g :: u16 where fg: "0x80 = f" "0x8000 = g"
    "\<And>n. bit f n \<longleftrightarrow> n = 7" "\<And>n. bit g n \<longleftrightarrow> n = 15" by (rule flag_bits) blast
  have v15: "\<not> bit v 15" using assms by (intro bit_less_exp) (simp add: word_less_nat_alt)
  have arith: "8 \<le> n \<Longrightarrow> n - 8 = 7 \<longleftrightarrow> n = 15" for n :: nat by auto
  let ?hi = "push_bit 8 (ucast ((ucast (drop_bit 8 (v OR g) AND 0xFF) :: u8) AND NOT f)) :: u16"
  let ?lo = "ucast (ucast ((v OR g) AND 0xFF) :: u8) :: u16"
  have "?hi + ?lo = ?hi OR ?lo"
    by (rule disjunctive_add) (auto simp: and_mask8 bit_simps)
  also have "\<dots> = v"
    using v15 unfolding and_mask8
    by (intro bit_word_eqI) (auto simp: bit_simps fg(3,4) arith)
  finally show ?thesis unfolding fg(1,2) .
qed

lemma per_length_short: "(v :: u16) \<le> 0x7F \<Longrightarrow> ucast (ucast v :: u8) = v"
  by (rule ucast_back) (simp add: word_le_nat_alt)

definition per_length_enc :: "u16 \<Rightarrow> u8 list" where
  "per_length_enc v = (if v > 0x7F then be16 (v OR 0x8000) else [ucast v])"

lemma per_write_length_enc:
  assumes "stream_ok s" "v < 0x8000" "length (per_length_enc v) \<le> room s"
  shows "per_write_length s (uint v) = Ok () (put (per_length_enc v) s)"
proof -
  have "(word_of_int (uint v OR 0x8000) :: u16) = v OR 0x8000"
    by (simp add: word_or_def)
  moreover have "0x7F < uint v \<longleftrightarrow> v > 0x7F" by (simp add: word_less_def)
  ultimately show ?thesis
    using assms by (auto simp: per_write_length_def per_length_enc_def stream_write split: if_splits)
qed

lemma per_read_length_enc:
  assumes "readable s" "v < 0x8000" "remaining s = per_length_enc v @ rest"
  shows "per_read_length s = Ok v (skip (length (per_length_enc v)) s)"
proof (cases "v > 0x7F")
  case True
  with assms show ?thesis
    using per_length_flag [of v] per_length_long [OF assms(2)]
    by (simp add: per_read_length_def per_length_enc_def be16_def stream_read)
next
  case False
  with assms show ?thesis
    using per_length_no_flag [of v] per_length_short [of v]
    by (simp add: per_read_length_def per_length_enc_def stream_read not_less)
qed

interpretation per_length: wire_format per_length_enc "\<lambda>v. v < 0x8000"
  "\<lambda>s v. per_write_length s (uint v)" per_read_length
  by unfold_locales (auto intro: per_write_length_enc per_read_length_enc per_read_length_safe)

text \<open>\<open>INTEGER\<close>: the writer has a four octet form, the reader has none.\<close>

definition per_integer_enc :: "u32 \<Rightarrow> u8 list" where
  "per_integer_enc v =
     (if v \<le> 0xFF then [1, ucast v] else if v \<le> 0xFFFF then 2 # be16 (ucast v) else 4 # be32 v)"

lemma per_length_small:
  "stream_ok s \<Longrightarrow> 1 \<le> room s \<Longrightarrow> per_write_length s 1 = Ok () (put [1] s)"
  "stream_ok s \<Longrightarrow> 1 \<le> room s \<Longrightarrow> per_write_length s 2 = Ok () (put [2] s)"
  "stream_ok s \<Longrightarrow> 1 \<le> room s \<Longrightarrow> per_write_length s 4 = Ok () (put [4] s)"
  by (simp_all add: per_write_length_def stream_write)

lemma per_read_length_small:
  assumes "readable s" "remaining s = b # rest" "b \<le> 0x7F"
  shows "per_read_length s = Ok (ucast b) (skip 1 s)"
proof -
  have "ucast b \<le> (0x7F :: u16)" using assms(3) by (simp add: word_le_nat_alt unsigned_ucast_eq take_bit_nat_eq_self)
  moreover have "unat b < 2 ^ LENGTH(8)" by (rule unsigned_less)
  then have "ucast (ucast b :: u16) = b" by (intro ucast_back) simp
  ultimately have "b AND 0x80 = 0" using per_length_no_flag [of "ucast b"] by simp
  then show ?thesis using assms by (simp add: per_read_length_def stream_read)
qed

lemma per_write_integer_enc:
  assumes "stream_ok s" "length (per_integer_enc v) \<le> room s"
  shows "per_write_integer s v = Ok () (put (per_integer_enc v) s)"
proof -
  have "unat v < 2 ^ LENGTH(32)" by (rule unsigned_less)
  then have "v \<le> 0xFFFFFFFF" by (simp add: word_le_nat_alt)
  with assms show ?thesis
    by (auto simp: per_write_integer_def per_integer_enc_def per_length_small stream_write
        split: if_splits)
qed

lemma per_read_integer_enc:
  assumes "readable s" "v \<le> 0xFFFF" "remaining s = per_integer_enc v @ rest"
  shows "per_read_integer s = Ok v (skip (length (per_integer_enc v)) s)"
proof (cases "v \<le> 0xFF")
  case True
  then have "ucast (ucast v :: u8) = v" by (intro ucast_back) (simp add: word_le_nat_alt)
  with True assms show ?thesis
    by (simp add: per_read_integer_def per_integer_enc_def per_read_length_small stream_read)
next
  case False
  have "ucast (ucast v :: u16) = v" using assms(2) by (intro ucast_back) (simp add: word_le_nat_alt)
  with False assms show ?thesis
    by (simp add: per_read_integer_def per_integer_enc_def per_read_length_small read_be16 [of _ _ rest]
        numeral_3_eq_3)
qed

lemma per_read_integer_long:
  assumes "readable s" "0xFFFF < v" "remaining s = per_integer_enc v @ rest"
  shows "per_read_integer s = Fail (skip 1 s)"
proof -
  have "\<not> v \<le> 0xFF" using assms(2) by (auto simp: word_le_nat_alt word_less_nat_alt)
  with assms show ?thesis
    by (simp add: per_read_integer_def per_integer_enc_def per_read_length_small not_le [symmetric])
qed

interpretation per_integer: wire_format per_integer_enc "\<lambda>v. v \<le> 0xFFFF"
  per_write_integer per_read_integer
  by unfold_locales (auto intro: per_write_integer_enc per_read_integer_enc per_read_integer_safe)

text \<open>\<open>INTEGER (minimum..65535)\<close> relative to its minimum.\<close>

definition per_integer16_enc :: "u16 \<Rightarrow> u16 \<Rightarrow> u8 list" where
  "per_integer16_enc minimum v = be16 (v - minimum)"

lemma per_read_integer16_enc:
  assumes "readable s" "minimum \<le> v" "remaining s = per_integer16_enc minimum v @ rest"
  shows "per_read_integer16 s minimum = Ok v (skip (length (per_integer16_enc minimum v)) s)"
proof -
  have "uint (v - minimum) + uint minimum = uint v"
    using assms(2) by (simp add: uint_minus_simple_alt word_le_def)
  moreover have "uint v \<le> 0xFFFF" using uint_lt2p [of v] by simp
  ultimately show ?thesis
    using assms by (simp add: per_read_integer16_def per_integer16_enc_def read_be16 [of _ _ rest])
qed

lemma per_write_integer16_enc:
  "stream_ok s \<Longrightarrow> length (per_integer16_enc minimum v) \<le> room s \<Longrightarrow>
   per_write_integer16 s v minimum = Ok () (put (per_integer16_enc minimum v) s)"
  by (simp add: per_write_integer16_def per_integer16_enc_def stream_write)

interpretation per_integer16: wire_format "per_integer16_enc minimum" "\<lambda>v. minimum \<le> v"
  "\<lambda>s v. per_write_integer16 s v minimum" "\<lambda>s. per_read_integer16 s minimum"
  for minimum
  by unfold_locales
    (auto intro: per_write_integer16_enc per_read_integer16_enc per_read_integer16_safe)

lemma per_enumerated_enc:
  "stream_ok s \<Longrightarrow> 1 \<le> room s \<Longrightarrow> per_write_enumerated s v cnt = Ok () (put [v] s)"
  "readable s \<Longrightarrow> uint v < uint cnt \<Longrightarrow> remaining s = v # rest \<Longrightarrow>
   per_read_enumerated s cnt = Ok v (skip 1 s)"
  by (simp_all add: per_write_enumerated_def per_read_enumerated_def stream_read stream_write)

interpretation per_enumerated: wire_format "\<lambda>v. [v]" "\<lambda>v. uint v < uint cnt"
  "\<lambda>s v. per_write_enumerated s v cnt" "\<lambda>s. per_read_enumerated s cnt"
  for cnt
  by unfold_locales (auto simp: per_enumerated_enc per_read_enumerated_safe)

lemma per_choice_enc:
  "stream_ok s \<Longrightarrow> 1 \<le> room s \<Longrightarrow> per_write_choice s v = Ok () (put [v] s)"
  "readable s \<Longrightarrow> remaining s = v # rest \<Longrightarrow> per_read_choice s = Ok v (skip 1 s)"
  by (simp_all add: per_write_choice_def per_read_choice_def stream_read stream_write)

interpretation per_choice: wire_format "\<lambda>v. [v]" "\<lambda>_. True" per_write_choice per_read_choice
  by unfold_locales (auto simp: per_choice_enc per_read_octet_safe)

text \<open>Object identifiers, for which the reader is given the identifier it must find.\<close>

fun per_oid_enc :: "oid \<Rightarrow> u8 list" where
  "per_oid_enc (o0, o1, o2, o3, o4, o5) = [5, o0 * 40 + o1, o2, o3, o4, o5]"

fun per_oid_valid :: "oid \<Rightarrow> bool" where
  "per_oid_valid (o0, o1, o2, o3, o4, o5) \<longleftrightarrow> unat o1 < 40 \<and> unat o0 * 40 + unat o1 < 256"

lemma per_write_oid_enc:
  "stream_ok s \<Longrightarrow> 6 \<le> room s \<Longrightarrow> per_write_object_identifier s oid = Ok () (put (per_oid_enc oid) s)"
  by (cases oid) (simp add: stream_write)

lemma per_read_oid_enc:
  assumes "readable s" "per_oid_valid oid" "remaining s = per_oid_enc oid @ rest"
  shows "per_read_object_identifier s oid = Ok () (skip 6 s)"
proof -
  obtain o0 o1 o2 o3 o4 o5 where oid: "oid = (o0, o1, o2, o3, o4, o5)" by (cases oid)
  with assms(2) have v: "unat o1 < 40" "unat o0 * 40 + unat o1 < 256" by simp_all
  have "unat (o0 * 40 + o1) = unat o0 * 40 + unat o1"
    using v(2) by (simp add: unat_word_ariths)
  then have "unat ((o0 * 40 + o1) div 40) = unat o0" "unat ((o0 * 40 + o1) mod 40) = unat o1"
    using v by (simp_all add: unat_div unat_mod)
  then have dm: "(o0 * 40 + o1) div 40 = o0" "(o0 * 40 + o1) mod 40 = o1"
    by (simp_all add: word_unat_eq_iff)
  show ?thesis
    using assms(1,3) unfolding oid
    by (simp add: per_read_object_identifier_def per_read_length_small stream_read dm)
      (simp add: numeral_eq_Suc)
qed

text \<open>Octet strings and numeric strings, whose length is sent relative to a minimum.\<close>

lemma per_write_octets_put:
  "stream_ok s \<Longrightarrow> length bs \<le> room s \<Longrightarrow> per_write_octets s bs = Ok () (put bs s)"
  by (induction bs arbitrary: s) (auto simp: stream_write)

lemma per_write_padding_put:
  "stream_ok s \<Longrightarrow> 0 \<le> n \<Longrightarrow> nat n \<le> room s \<Longrightarrow>
   per_write_padding s n = Ok () (put (replicate (nat n) 0) s)"
  by (simp add: per_write_padding_def per_write_octets_put)

lemma per_write_length_int:
  assumes "stream_ok s" "0 \<le> l" "l < 0x8000" "length (per_length_enc (word_of_int l)) \<le> room s"
  shows "per_write_length s l = Ok () (put (per_length_enc (word_of_int l)) s)"
proof -
  have "uint (word_of_int l :: u16) = l"
    using assms(2,3) by (simp add: uint_word_of_int)
  moreover from this assms(3) have "(word_of_int l :: u16) < 0x8000" by (simp add: word_less_def)
  ultimately show ?thesis using per_write_length_enc [OF assms(1), of "word_of_int l"] assms(4) by simp
qed

lemma per_read_length_int:
  assumes "readable s" "0 \<le> l" "l < 0x8000" "remaining s = per_length_enc (word_of_int l) @ rest"
  shows "per_read_length s = Ok (word_of_int l) (skip (length (per_length_enc (word_of_int l))) s)"
    "uint (word_of_int l :: u16) = l"
proof -
  show "uint (word_of_int l :: u16) = l"
    using assms(2,3) by (simp add: uint_word_of_int)
  with assms(3) have "(word_of_int l :: u16) < 0x8000" by (simp add: word_less_def)
  with assms(1) show "per_read_length s =
    Ok (word_of_int l) (skip (length (per_length_enc (word_of_int l))) s)"
    using assms(4) by (rule per_read_length_enc)
qed

lemma length_per_length_enc: "length (per_length_enc v) \<le> 2" "0 < length (per_length_enc v)"
  by (simp_all add: per_length_enc_def be16_def)

definition per_octet_string_enc :: "int \<Rightarrow> u8 list \<Rightarrow> u8 list" where
  "per_octet_string_enc minimum bs = per_length_enc (word_of_int (int (length bs) - minimum)) @ bs"

lemma per_write_octet_string_enc:
  assumes "stream_ok s" "minimum \<le> int (length bs)" "int (length bs) - minimum < 0x8000"
    "length (per_octet_string_enc minimum bs) \<le> room s"
  shows "per_write_octet_string s bs (int (length bs)) minimum =
    Ok () (put (per_octet_string_enc minimum bs) s)"
  using assms
  by (simp add: per_write_octet_string_def per_octet_string_enc_def per_write_length_int
      per_write_octets_put)

lemma per_match_octets_remaining:
  assumes "readable t" "remaining t = bs @ rest"
  shows "per_match_octets (length bs) (drop (s_pointer t) (s_buffer t)) bs = Some True"
proof -
  have "take (length bs) (drop (s_pointer t) (s_buffer t)) = bs"
    using take_block_remaining [OF assms(1), of "length bs"] assms(2) by simp
  moreover from this have "length bs \<le> length (drop (s_pointer t) (s_buffer t))"
    by (metis length_take min.cobounded1)
  ultimately show ?thesis by (simp add: per_match_octets_defined)
qed

lemma per_read_octet_string_enc:
  assumes "readable s" "minimum \<le> int (length bs)" "int (length bs) - minimum < 0x8000"
    "length bs < 2 ^ 31" "length (remaining s) < 2 ^ 31"
    "remaining s = per_octet_string_enc minimum bs @ rest"
  shows "per_read_octet_string s bs (int (length bs)) minimum =
    Ok () (skip (length (per_octet_string_enc minimum bs)) s)"
proof -
  let ?l = "per_length_enc (word_of_int (int (length bs) - minimum))"
  let ?t = "skip (length ?l) s"
  have rem: "remaining s = ?l @ bs @ rest" using assms(6) by (simp add: per_octet_string_enc_def)
  have nonneg: "0 \<le> int (length bs) - minimum" using assms(2) by simp
  note len = per_read_length_int [OF assms(1) nonneg assms(3) rem]
  have t: "readable ?t" "remaining ?t = bs @ rest" using assms(1) rem by simp_all
  note per_match_octets_remaining [OF t]
  moreover have "size_to_int (length (bs @ rest)) = int (length (bs @ rest))"
    using assms(5) rem by (simp add: size_to_int_small)
  moreover have "int_to_size (int (length bs)) = length bs"
    using assms(4) by (simp add: int_to_size_nonneg)
  ultimately show ?thesis
    using t len by (simp add: per_read_octet_string_def per_octet_string_enc_def)
qed

lemma length_per_numeric_octets: "length (per_numeric_octets cs) = (length cs + 1) div 2"
  by (induction cs rule: per_numeric_octets.induct) auto

definition per_numeric_string_enc :: "int \<Rightarrow> u8 list \<Rightarrow> u8 list" where
  "per_numeric_string_enc minimum cs =
     per_length_enc (word_of_int (int (length cs) - minimum)) @ per_numeric_octets cs"

lemma per_write_numeric_string_enc:
  assumes "stream_ok s" "minimum \<le> int (length cs)" "int (length cs) - minimum < 0x8000"
    "length (per_numeric_string_enc minimum cs) \<le> room s"
  shows "per_write_numeric_string s cs (int (length cs)) minimum =
    Ok () (put (per_numeric_string_enc minimum cs) s)"
  using assms
  by (simp add: per_write_numeric_string_def per_numeric_string_enc_def per_write_length_int
      per_write_octets_put)

lemma per_read_numeric_string_enc:
  assumes "readable s" "minimum \<le> int (length cs)" "int (length cs) - minimum < 0x8000"
    "length (remaining s) < 2 ^ 31" "remaining s = per_numeric_string_enc minimum cs @ rest"
  shows "per_read_numeric_string s minimum = Ok () (skip (length (per_numeric_string_enc minimum cs)) s)"
proof -
  let ?l = "per_length_enc (word_of_int (int (length cs) - minimum))"
  let ?t = "skip (length ?l) s"
  have rem: "remaining s = ?l @ per_numeric_octets cs @ rest"
    using assms(5) by (simp add: per_numeric_string_enc_def)
  have nonneg: "0 \<le> int (length cs) - minimum" using assms(2) by simp
  note len = per_read_length_int [OF assms(1) nonneg assms(3) rem]
  have t: "readable ?t" "remaining ?t = per_numeric_octets cs @ rest" using assms(1) rem by simp_all
  have half: "(int (length cs) + 1) sdiv 2 = int (length (per_numeric_octets cs))"
    by (simp add: length_per_numeric_octets signed_divide_int_def zdiv_int)
  moreover have "size_to_int (length (per_numeric_octets cs @ rest)) = int (length (per_numeric_octets cs @ rest))"
    using assms(4) rem by (simp add: size_to_int_small)
  moreover have "int_to_size (int (length (per_numeric_octets cs))) = length (per_numeric_octets cs)"
    using assms(4) rem by (simp add: int_to_size_nonneg)
  ultimately show ?thesis
    using t len by (simp add: per_read_numeric_string_def per_numeric_string_enc_def)
qed

section \<open>Properties\<close>

text \<open>
  C19. PER length determinants below \<open>0x8000\<close> survive the wire: what \<open>per_write_length\<close> emits,
  followed by anything, is read back by \<open>per_read_length\<close>, which leaves exactly what followed.
\<close>

theorem per_length_roundtrip:
  assumes "stream_ok s" "s_pointer s = 0" "v < 0x8000" "2 + length rest \<le> room s"
  shows "\<exists>t u. per_write_length s (uint v) = Ok () t \<and>
    per_read_length (deliver (put rest t)) = Ok v u \<and> readable u \<and> remaining u = rest"
  using assms length_per_length_enc(1) [of v] by (intro per_length.roundtrip) auto

theorem per_length_roundtrip_witness:
  "\<exists>t u. per_write_length (Stream_StaticInit (replicate 8 0) 8) 0x123 = Ok () t \<and>
    per_read_length (deliver (put [1, 2] t)) = Ok 0x123 u \<and> readable u \<and> remaining u = [1, 2]"
  using per_length_roundtrip [of "Stream_StaticInit (replicate 8 0) 8" "0x123" "[1, 2]"]
  by (simp add: Stream_StaticInit_def stream_ok_def room_def)

text \<open>
  PER integers: a value of at most 16 bits is read back as written, while every larger one,
  which the writer emits in a four octet form, is rejected by the reader.
\<close>

theorem per_integer_wire:
  assumes "stream_ok s" "s_pointer s = 0" "5 + length rest \<le> room s"
  shows "\<exists>t. per_write_integer s v = Ok () t \<and>
    (if v \<le> 0xFFFF
     then \<exists>u. per_read_integer (deliver (put rest t)) = Ok v u \<and> readable u \<and> remaining u = rest
     else \<exists>u. per_read_integer (deliver (put rest t)) = Fail u)"
proof -
  have len: "length (per_integer_enc v) \<le> 5" by (simp add: per_integer_enc_def)
  show ?thesis
  proof (cases "v \<le> 0xFFFF")
    case True
    with per_integer.roundtrip [of s v rest] assms len show ?thesis by fastforce
  next
    case False
    have "stream_ok s" "length (per_integer_enc v @ rest) \<le> room s" using assms(1,3) len by simp_all
    with False assms(2) len deliver_put [of s "per_integer_enc v @ rest"] show ?thesis
      by (auto simp: per_write_integer_enc per_read_integer_long [of _ v rest] not_le)
  qed
qed

theorem per_integer_wire_witness:
  "(\<exists>t u. per_write_integer (Stream_StaticInit (replicate 8 0) 8) 0xABCD = Ok () t \<and>
     per_read_integer (deliver (put [9] t)) = Ok 0xABCD u \<and> remaining u = [9]) \<and>
   (\<exists>t u. per_write_integer (Stream_StaticInit (replicate 8 0) 8) 0x10000 = Ok () t \<and>
     per_read_integer (deliver (put [9] t)) = Fail u)"
  using per_integer_wire [of "Stream_StaticInit (replicate 8 0) 8" "[9]" "0xABCD"]
    per_integer_wire [of "Stream_StaticInit (replicate 8 0) 8" "[9]" "0x10000"]
  by (auto simp: Stream_StaticInit_def stream_ok_def room_def)



text \<open>
  The octet and numeric strings of the GCC conference create PDUs survive the wire: the reader
  given the string the peer must send accepts exactly what the writer emitted, and the numeric
  string reader skips exactly the packed digits.
\<close>

theorem per_strings_roundtrip:
  assumes "stream_ok s" "s_pointer s = 0" "room s < 2 ^ 31" "0 \<le> minimum"
    "minimum \<le> int (length bs)" "length bs < 0x8000" "2 + length bs + length rest \<le> room s"
  shows "(\<exists>t u. per_write_octet_string s bs (int (length bs)) minimum = Ok () t \<and>
      per_read_octet_string (deliver (put rest t)) bs (int (length bs)) minimum = Ok () u \<and>
      remaining u = rest) \<and>
    (\<exists>t u. per_write_numeric_string s bs (int (length bs)) minimum = Ok () t \<and>
      per_read_numeric_string (deliver (put rest t)) minimum = Ok () u \<and> remaining u = rest)"
proof -
  let ?o = "per_octet_string_enc minimum bs" and ?n = "per_numeric_string_enc minimum bs"
  let ?l = "per_length_enc (word_of_int (int (length bs) - minimum))"
  have fits: "length (?o @ rest) \<le> room s" "length (?n @ rest) \<le> room s"
    using assms(7) length_per_length_enc(1) [of "word_of_int (int (length bs) - minimum)"]
    by (auto simp: per_octet_string_enc_def per_numeric_string_enc_def length_per_numeric_octets)
  note d = deliver_put [OF assms(1,2) fits(1)] deliver_put [OF assms(1,2) fits(2)]
  have "per_write_octet_string s bs (int (length bs)) minimum = Ok () (put ?o s)"
    "per_write_numeric_string s bs (int (length bs)) minimum = Ok () (put ?n s)"
    using assms fits by (auto intro!: per_write_octet_string_enc per_write_numeric_string_enc)
  moreover have "per_read_octet_string (deliver (put (?o @ rest) s)) bs (int (length bs)) minimum =
      Ok () (skip (length ?o) (deliver (put (?o @ rest) s)))"
    using assms fits d by (intro per_read_octet_string_enc [where rest = rest]) auto
  moreover have "per_read_numeric_string (deliver (put (?n @ rest) s)) minimum =
      Ok () (skip (length ?n) (deliver (put (?n @ rest) s)))"
    using assms fits d by (intro per_read_numeric_string_enc [where rest = rest]) auto
  ultimately show ?thesis using assms(1) fits d by simp
qed

theorem per_strings_roundtrip_witness:
  "\<exists>t u. per_write_octet_string (Stream_StaticInit (replicate 8 0) 8) [68, 117, 99, 97] 4 4 = Ok () t \<and>
     per_read_octet_string (deliver (put [7] t)) [68, 117, 99, 97] 4 4 = Ok () u \<and> remaining u = [7]"
  using per_strings_roundtrip [of "Stream_StaticInit (replicate 8 0) 8" 4 "[68, 117, 99, 97]" "[7]"]
  by (simp add: Stream_StaticInit_def stream_ok_def room_def)

end
