(* ===== verification/Core_Session.thy ===== *)
theory Core_Session
  imports Wire_Format
begin

text \<open>
  Handlers of received PDUs parse a stream and update a session object as they go. Their state
  is the pair of the object and the stream. \<open>on_stream\<close> runs a parser in a handler, and
  \<open>safe_session\<close> is memory safety for handlers under an invariant of the object.
\<close>

definition on_stream :: "'m \<Rightarrow> ('a, wStream) res \<Rightarrow> ('a, 'm \<times> wStream) res" where
  "on_stream m r = (case r of Fault \<Rightarrow> Fault | Fail s \<Rightarrow> Fail (m, s) | Ok a s \<Rightarrow> Ok a (m, s))"

lemma on_stream_simps [simp]:
  "on_stream m Fault = Fault" "on_stream m (Fail s) = Fail (m, s)" "on_stream m (Ok a s) = Ok a (m, s)"
  by (simp_all add: on_stream_def)

lemma wp_on_stream: "wp (on_stream m r) Q R = wp r (\<lambda>a s. Q a (m, s)) (\<lambda>s. R (m, s))"
  by (cases r) simp_all

text \<open>A call whose \<open>BOOL\<close> result the caller does not look at.\<close>

definition ignore_failure :: "(unit, 's) res \<Rightarrow> (unit, 's) res" where
  "ignore_failure r = (case r of Fail s \<Rightarrow> Ok () s | _ \<Rightarrow> r)"

lemma ignore_failure_simps [simp]:
  "ignore_failure Fault = Fault" "ignore_failure (Fail s) = Ok () s"
  "ignore_failure (Ok u s) = Ok u s"
  by (simp_all add: ignore_failure_def)

text \<open>
  An outcome within a stream: no fault, only the pointer has moved, inside the sealed length, and a
  successful outcome has an object that satisfies the invariant \<open>I\<close>. \<open>safe_session I n r\<close>: the handler
  \<open>r\<close> stays within every readable stream that has \<open>n\<close> bytes left when its object satisfies \<open>I\<close>.
\<close>

definition within :: "('m \<Rightarrow> bool) \<Rightarrow> wStream \<Rightarrow> ('a, 'm \<times> wStream) res \<Rightarrow> bool" where
  "within I s r = wp r (\<lambda>_ (m, t). I m \<and> advances s t) (\<lambda>(_, t). advances s t)"

lemma within_simps [simp]:
  "\<not> within I s Fault" "within I s (Fail (m, t)) = advances s t"
  "within I s (Ok a (m, t)) = (I m \<and> advances s t)"
  by (simp_all add: within_def)

lemma within_advances: "within I t r \<Longrightarrow> advances s t \<Longrightarrow> within I s r"
  by (auto simp: within_def elim!: wp_mono intro: advances_trans)

lemma within_skip: "within I (skip n s) r \<Longrightarrow> n \<le> length (remaining s) \<Longrightarrow> within I s r"
  by (erule within_advances) simp

definition safe_session ::
  "('m \<Rightarrow> bool) \<Rightarrow> nat \<Rightarrow> ('m \<Rightarrow> wStream \<Rightarrow> ('a, 'm \<times> wStream) res) \<Rightarrow> bool" where
  "safe_session I n r \<longleftrightarrow>
     (\<forall>m s. I m \<longrightarrow> readable s \<longrightarrow> n \<le> length (remaining s) \<longrightarrow> within I s (r m s))"

lemma safe_sessionI:
  "(\<And>m s. I m \<Longrightarrow> readable s \<Longrightarrow> n \<le> length (remaining s) \<Longrightarrow> within I s (r m s)) \<Longrightarrow> safe_session I n r"
  by (simp add: safe_session_def)

lemma safe_sessionD:
  "safe_session I n r \<Longrightarrow> I m \<Longrightarrow> readable s \<Longrightarrow> n \<le> length (remaining s) \<Longrightarrow> within I s (r m s)"
  by (simp add: safe_session_def)

lemma safe_session_Ok: "safe_session I n (\<lambda>m s. Ok a (m, s))"
  by (simp add: safe_session_def)

lemma safe_session_Fail: "safe_session I n (\<lambda>m s. Fail (m, s))"
  by (simp add: safe_session_def)

lemma safe_session_if:
  "safe_session I n f \<Longrightarrow> safe_session I n g \<Longrightarrow> safe_session I n (\<lambda>m s. if b m s then f m s else g m s)"
  by (simp add: safe_session_def)

lemma safe_session_let: "(\<And>x. safe_session I n (r x)) \<Longrightarrow> safe_session I n (\<lambda>m s. let x = c in r x m s)"
  by (simp add: safe_session_def)

lemma safe_session_update:
  "safe_session I n r \<Longrightarrow> (\<And>m. I m \<Longrightarrow> I (u m)) \<Longrightarrow> safe_session I n (\<lambda>m s. let m' = u m in r m' s)"
  by (simp add: safe_session_def)

lemma safe_session_mono: "safe_session I k r \<Longrightarrow> k \<le> n \<Longrightarrow> safe_session I n r"
  by (simp add: safe_session_def)

lemma safe_session_then:
  assumes r: "safe_session I n r" and g: "\<And>a. safe_session I 0 (g a)"
  shows "safe_session I n (\<lambda>m s. and_then (r m s) (\<lambda>a (m, s). g a m s))"
proof (rule safe_sessionI)
  fix m s assume m: "I m" and s: "readable s" "n \<le> length (remaining s)"
  note w = safe_sessionD [OF r m s]
  show "within I s (and_then (r m s) (\<lambda>a (m, s). g a m s))"
  proof (cases "r m s")
    case (Ok a p)
    obtain m' t where p: "p = (m', t)" by (cases p)
    with w Ok have t: "I m'" "advances s t" by simp_all
    with s have "within I t (g a m' t)" by (auto intro: safe_sessionD [OF g] advances_readable)
    with Ok p t show ?thesis by (auto intro: within_advances)
  qed (use w in auto)
qed

lemma safe_session_on_stream: "safe_read r \<Longrightarrow> safe_session I 0 (\<lambda>m s. on_stream m (r s))"
  by (auto simp: safe_session_def within_def wp_on_stream dest!: safe_fromD elim: wp_mono)

lemma safe_session_read:
  "safe_read r \<Longrightarrow> (\<And>a. safe_session I 0 (g a)) \<Longrightarrow>
   safe_session I 0 (\<lambda>m s. and_then (on_stream m (r s)) (\<lambda>a (m, s). g a m s))"
  by (rule safe_session_then [OF safe_session_on_stream])

lemma safe_session_skip:
  assumes g: "safe_session I 0 g"
  shows "safe_session I 0 (\<lambda>m s. if Stream_GetRemainingLength s < n then Fail (m, s) else g m (Stream_Seek s n))"
proof (rule safe_sessionI)
  fix m s assume m: "I m" and s: "readable s"
  show "within I s (if Stream_GetRemainingLength s < n then Fail (m, s) else g m (Stream_Seek s n))"
  proof (cases "length (remaining s) < n")
    case False
    with m s have "within I s (g m (skip n s))" by (intro within_skip [OF safe_sessionD [OF g]]) simp_all
    with s False show ?thesis by simp
  qed (use s in simp)
qed

text \<open>A parser of exactly \<open>n\<close> bytes, and the handler that goes on behind it.\<close>

definition parses :: "nat \<Rightarrow> (wStream \<Rightarrow> ('a, wStream) res) \<Rightarrow> bool" where
  "parses n rd \<longleftrightarrow> (\<forall>s. readable s \<longrightarrow> n \<le> length (remaining s) \<longrightarrow> wp (rd s) (\<lambda>_ t. t = skip n s) (\<lambda>t. t = s))"

lemma safe_session_parse:
  assumes rd: "parses k rd" and g: "\<And>v. safe_session I (n - k) (g v)" and k: "k \<le> n"
  shows "safe_session I n (\<lambda>m s. and_then (on_stream m (rd s)) (\<lambda>v (m, s). g v m s))"
proof (rule safe_sessionI)
  fix m s assume m: "I m" and s: "readable s" "n \<le> length (remaining s)"
  show "within I s (and_then (on_stream m (rd s)) (\<lambda>v (m, s). g v m s))"
  proof (cases "rd s")
    case (Ok v t)
    with rd s k have t: "t = skip k s" by (force simp: parses_def)
    have "within I t (g v m t)" by (rule safe_sessionD [OF g m]) (use t s k in simp_all)
    with Ok t s k show ?thesis by (auto intro: within_skip)
  qed (use rd s k in \<open>force simp: parses_def\<close>)+
qed

lemma safe_session_no_fault: "safe_session I 0 r \<Longrightarrow> I m \<Longrightarrow> readable s \<Longrightarrow> r m s \<noteq> Fault"
  by (auto dest: safe_sessionD [where m = m and s = s])

section \<open>Temporary streams\<close>

text \<open>
  A temporary stream: the block and the struct are each allocated, and the stream is released on
  every path, so that only what is done with it remains visible.
\<close>

type_synonym stream_oracle = "unit alloc \<times> u8 alloc"

definition with_stream ::
  "stream_oracle \<Rightarrow> nat \<Rightarrow> 's \<Rightarrow> (wStream \<Rightarrow> ('b, 's) res) \<Rightarrow> ('b, 's) res" where
  "with_stream ora sz s f =
     (case Stream_New (fst ora) (snd ora) None sz of None \<Rightarrow> Fail s | Some tmps \<Rightarrow> f tmps)"

definition then_free ::
  "('a, wStream) res \<Rightarrow> 's \<Rightarrow> (wStream \<Rightarrow> ('b, 's) res) \<Rightarrow> ('b, 's) res" where
  "then_free r s f = (case r of Fault \<Rightarrow> Fault | Fail _ \<Rightarrow> Fail s | Ok _ tmps \<Rightarrow> f tmps)"

definition fresh :: "(nat \<Rightarrow> u8) \<Rightarrow> nat \<Rightarrow> wStream" where
  "fresh f n = \<lparr>s_buffer = map f [0..<n], s_pointer = 0, s_length = n, s_capacity = n, s_count = 0,
                s_isAllocatedStream = True, s_isOwner = True\<rparr>"

lemma fresh_simps [simp]:
  "s_pointer (fresh f n) = 0" "s_capacity (fresh f n) = n" "room (fresh f n) = n"
  "n < 2 ^ 63 \<Longrightarrow> stream_ok (fresh f n)"
  by (simp_all add: fresh_def room_def stream_ok_def)

lemma with_stream_granted:
  "0 < n \<Longrightarrow> with_stream (Some u, Some f) n st F = F (fresh f n)"
  by (simp add: with_stream_def Stream_New_def malloc_def fresh_def)

lemma then_free_simps [simp]:
  "then_free (Ok a s) st F = F s" "then_free (Fail s) st F = Fail st" "then_free Fault st F = Fault"
  by (simp_all add: then_free_def)

lemma written_prefix:
  assumes "stream_ok s" "s_pointer s = 0" "length bs \<le> room s"
  shows "take (length bs) (s_buffer (put bs s)) = bs"
  using assms by (simp add: put_def stream_ok_def room_def take_blit_full)

lemma granted_cases:
  assumes "fst ora \<noteq> None" "snd ora \<noteq> None"
  obtains u f where "ora = (Some u, Some f)"
  using assms by (cases ora) auto

abbreviation granted :: "stream_oracle \<Rightarrow> bool" where
  "granted ora \<equiv> fst ora \<noteq> None \<and> snd ora \<noteq> None"

text \<open>The stream in which a received PDU arrives.\<close>

abbreviation received :: "u8 list \<Rightarrow> wStream" where
  "received pdu \<equiv> Stream_StaticInit pdu (length pdu)"

lemma received_readable [simp]: "length pdu < 2 ^ 63 \<Longrightarrow> readable (received pdu)"
  by (simp add: readable_def stream_ok_def Stream_StaticInit_def)

lemma remaining_received [simp]: "remaining (received pdu) = pdu"
  by (simp add: remaining_def Stream_StaticInit_def)

text \<open>A fresh stream in which a gap is left for the headers, which are written last.\<close>

lemma gap_left:
  assumes "k \<le> n" "n < 2 ^ 63"
  shows "stream_ok (Stream_Seek (fresh f n) k)" "room (Stream_Seek (fresh f n) k) = n - k"
    "s_pointer (Stream_Seek (fresh f n) k) = k" "s_capacity (Stream_Seek (fresh f n) k) = n"
    "s_buffer (Stream_Seek (fresh f n) k) = map f [0..<n]"
  using assms by (simp_all add: Stream_Seek_def size_add_def stream_ok_def fresh_def room_def)

lemma gap_rewound:
  fixes f :: "nat \<Rightarrow> u8"
  assumes "k + length bs \<le> n" "n < 2 ^ 63"
  defines "s \<equiv> Stream_SetPosition (put bs (Stream_Seek (fresh f n) k)) 0"
  shows "stream_ok s" "room s = n" "s_pointer s = 0"
    "length h = k \<Longrightarrow> take (k + length bs) (s_buffer (put h s)) = h @ bs"
proof -
  note g = gap_left [of k n f]
  have k: "k \<le> n" using assms(1) by simp
  have "length (blit (map f [0..<n]) k bs) = n"
    by (subst length_blit) (use assms(1) in simp_all)
  with k assms(1,2) g show "stream_ok s" "room s = n" "s_pointer s = 0"
    by (auto simp: s_def Stream_SetPosition_def stream_ok_def room_def put_def)
  show "take (k + length bs) (s_buffer (put h s)) = h @ bs" if "length h = k"
    using that assms(1) g(5) [OF k assms(2)] g(3) [OF k assms(2)]
    by (auto simp: s_def put_def Stream_SetPosition_def blit_def)
qed

end
