(* ===== verification/Core_Gcc.thy ===== *)
theory Core_Gcc
  imports Crypto_Per Core_Session
begin

text \<open>
  The T.124 conference create PDUs of \<^verbatim>\<open>libfreerdp/core/gcc.c\<close>, which wrap the client and server
  data blocks inside the MCS connect PDUs. The readers of the blocks themselves update the
  session object and are a parameter \<open>blocks\<close> here; \<open>length\<close> is what they are given.
\<close>

section \<open>The functions\<close>

definition t124_02_98_oid :: oid where
  "t124_02_98_oid = (0, 0, 20, 124, 0, 1)"

definition h221_cs_key :: "u8 list" where
  "h221_cs_key = [0x44, 0x75, 0x63, 0x61]"

definition h221_sc_key :: "u8 list" where
  "h221_sc_key = [0x4D, 0x63, 0x44, 0x6E]"

definition MCS_Result_enum_length :: u8 where
  "MCS_Result_enum_length = 16"

definition gcc_read_conference_create_request ::
  "('m \<Rightarrow> wStream \<Rightarrow> u16 \<Rightarrow> (unit, 'm \<times> wStream) res) \<Rightarrow> 'm \<Rightarrow> wStream \<Rightarrow> (unit, 'm \<times> wStream) res" where
  "gcc_read_conference_create_request blocks mcs s =
     and_then (on_stream mcs (per_read_choice s)) (\<lambda>choice (mcs, s).
     and_then (on_stream mcs (per_read_object_identifier s t124_02_98_oid)) (\<lambda>_ (mcs, s).
     and_then (on_stream mcs (per_read_length s)) (\<lambda>len (mcs, s).
     and_then (on_stream mcs (per_read_choice s)) (\<lambda>choice (mcs, s).
     and_then (on_stream mcs (per_read_selection s)) (\<lambda>selection (mcs, s).
     and_then (on_stream mcs (per_read_numeric_string s 1)) (\<lambda>_ (mcs, s).
     and_then (on_stream mcs (per_read_padding s 1)) (\<lambda>_ (mcs, s).
     and_then (on_stream mcs (per_read_number_of_sets s)) (\<lambda>number (mcs, s).
       if number \<noteq> 1 then Fail (mcs, s)
       else and_then (on_stream mcs (per_read_choice s)) (\<lambda>choice (mcs, s).
         if choice \<noteq> 0xC0 then Fail (mcs, s)
         else and_then (on_stream mcs (per_read_octet_string s h221_cs_key 4 4)) (\<lambda>_ (mcs, s).
              and_then (on_stream mcs (per_read_length s)) (\<lambda>len (mcs, s).
                if Stream_GetRemainingLength s < unat len then Fail (mcs, s)
                else blocks mcs s len)))))))))))"

definition gcc_write_conference_create_request :: "wStream \<Rightarrow> wStream \<Rightarrow> (unit, wStream) res" where
  "gcc_write_conference_create_request s userData =
     and_then (per_write_choice s 0) (\<lambda>_ s.
     and_then (per_write_object_identifier s t124_02_98_oid) (\<lambda>_ s.
     and_then (per_write_length s (size_to_int (size_add (Stream_GetPosition userData) 14))) (\<lambda>_ s.
     and_then (per_write_choice s 0) (\<lambda>_ s.
     and_then (per_write_selection s 0x08) (\<lambda>_ s.
     and_then (per_write_numeric_string s [0x31, 0] 1 1) (\<lambda>_ s.
     and_then (per_write_padding s 1) (\<lambda>_ s.
     and_then (per_write_number_of_sets s 1) (\<lambda>_ s.
     and_then (per_write_choice s 0xC0) (\<lambda>_ s.
     and_then (per_write_octet_string s h221_cs_key 4 4) (\<lambda>_ s.
     per_write_octet_string s (s_buffer userData) (size_to_int (Stream_GetPosition userData)) 0))))))))))"

definition gcc_read_conference_create_response ::
  "('m \<Rightarrow> wStream \<Rightarrow> u16 \<Rightarrow> (unit, 'm \<times> wStream) res) \<Rightarrow> 'm \<Rightarrow> wStream \<Rightarrow> (unit, 'm \<times> wStream) res" where
  "gcc_read_conference_create_response blocks mcs s =
     and_then (on_stream mcs (per_read_choice s)) (\<lambda>choice (mcs, s).
     and_then (on_stream mcs (per_read_object_identifier s t124_02_98_oid)) (\<lambda>_ (mcs, s).
     and_then (on_stream mcs (per_read_length s)) (\<lambda>len (mcs, s).
     and_then (on_stream mcs (per_read_choice s)) (\<lambda>choice (mcs, s).
     and_then (on_stream mcs (per_read_integer16 s 1001)) (\<lambda>nodeID (mcs, s).
     and_then (on_stream mcs (per_read_integer s)) (\<lambda>tag (mcs, s).
     and_then (on_stream mcs (per_read_enumerated s MCS_Result_enum_length)) (\<lambda>result (mcs, s).
     and_then (on_stream mcs (per_read_number_of_sets s)) (\<lambda>number (mcs, s).
     and_then (on_stream mcs (per_read_choice s)) (\<lambda>choice (mcs, s).
     and_then (on_stream mcs (per_read_octet_string s h221_sc_key 4 4)) (\<lambda>_ (mcs, s).
     and_then (on_stream mcs (per_read_length s)) (\<lambda>len (mcs, s).
       blocks mcs s len)))))))))))"

definition gcc_write_conference_create_response :: "wStream \<Rightarrow> wStream \<Rightarrow> (unit, wStream) res" where
  "gcc_write_conference_create_response s userData =
     and_then (per_write_choice s 0) (\<lambda>_ s.
     and_then (per_write_object_identifier s t124_02_98_oid) (\<lambda>_ s.
     and_then (per_write_length s 0x2A) (\<lambda>_ s.
     and_then (per_write_choice s 0x14) (\<lambda>_ s.
     and_then (per_write_integer16 s 0x79F3 1001) (\<lambda>_ s.
     and_then (per_write_integer s 1) (\<lambda>_ s.
     and_then (per_write_enumerated s 0 MCS_Result_enum_length) (\<lambda>_ s.
     and_then (per_write_number_of_sets s 1) (\<lambda>_ s.
     and_then (per_write_choice s 0xC0) (\<lambda>_ s.
     and_then (per_write_octet_string s h221_sc_key 4 4) (\<lambda>_ s.
     per_write_octet_string s (s_buffer userData) (size_to_int (Stream_GetPosition userData)) 0))))))))))"

section \<open>Memory safety\<close>

lemmas gcc_safe_reads =
  per_read_octet_safe per_read_object_identifier_safe per_read_length_safe
  per_read_numeric_string_safe per_read_padding_safe per_read_integer16_safe per_read_integer_safe
  per_read_enumerated_safe per_read_octet_string_safe

text \<open>The contract of the block reader: started with enough bytes, it is memory safe.\<close>

definition blocks_safe :: "('m \<Rightarrow> bool) \<Rightarrow> ('m \<Rightarrow> wStream \<Rightarrow> u16 \<Rightarrow> (unit, 'm \<times> wStream) res) \<Rightarrow> bool" where
  "blocks_safe I blocks \<longleftrightarrow> (\<forall>len. safe_session I 0 (\<lambda>m s. blocks m s len))"

lemma gcc_read_conference_create_request_safe:
  assumes "blocks_safe I blocks"
  shows "safe_session I 0 (gcc_read_conference_create_request blocks)"
  unfolding gcc_read_conference_create_request_def
  using assms unfolding blocks_safe_def
  by (intro safe_session_read safe_session_if safe_session_Fail gcc_safe_reads allI)
    (simp_all add: h221_cs_key_def)

lemma gcc_read_conference_create_response_safe:
  assumes "blocks_safe I blocks"
  shows "safe_session I 0 (gcc_read_conference_create_response blocks)"
  unfolding gcc_read_conference_create_response_def
  using assms unfolding blocks_safe_def
  by (intro safe_session_read safe_session_if safe_session_Fail gcc_safe_reads allI)
    (simp_all add: h221_sc_key_def)

section \<open>The PDUs on the wire\<close>

definition gcc_request_head :: "nat \<Rightarrow> u8 list" where
  "gcc_request_head n =
     0 # per_oid_enc t124_02_98_oid @ per_length_enc (of_nat (n + 14)) @
     [0, 8, 0, 0x10, 0, 1, 0xC0, 0] @ h221_cs_key @ per_length_enc (of_nat n)"

definition gcc_response_head :: "nat \<Rightarrow> u8 list" where
  "gcc_response_head n =
     0 # per_oid_enc t124_02_98_oid @ 0x2A # 0x14 # be16 (0x79F3 - 1001) @
     [1, 1, 0, 1, 0xC0, 0] @ h221_sc_key @ per_length_enc (of_nat n)"

lemma length_gcc_heads: "length (gcc_request_head n) \<le> 23" "length (gcc_response_head n) \<le> 23"
  using length_per_length_enc(1) [of "of_nat (n + 14)"] length_per_length_enc(1) [of "of_nat n"]
  by (simp_all add: gcc_request_head_def gcc_response_head_def t124_02_98_oid_def h221_cs_key_def
      h221_sc_key_def)

lemma per_write_length_nat:
  assumes "stream_ok s" "n < 0x8000" "length (per_length_enc (of_nat n)) \<le> room s"
  shows "per_write_length s (int n) = Ok () (put (per_length_enc (of_nat n)) s)"
  using per_write_length_int [of s "int n"] assms by simp

lemma per_read_length_nat:
  assumes "readable s" "n < 0x8000" "remaining s = per_length_enc (of_nat n) @ rest"
  shows "per_read_length s = Ok (of_nat n) (skip (length (per_length_enc (of_nat n))) s)"
  using per_read_length_int(1) [of s "int n" rest] assms by simp

lemma per_write_octets_prefix:
  assumes "stream_ok s" "n < 0x8000" "n \<le> length b" "length (per_length_enc (of_nat n)) + n \<le> room s"
  shows "per_write_octet_string s b (int n) 0 =
    Ok () (put (per_length_enc (of_nat n) @ take n b) s)"
  using assms by (simp add: per_write_octet_string_def per_write_length_nat per_write_octets_put)

lemma per_write_key:
  "stream_ok s \<Longrightarrow> length key = 4 \<Longrightarrow> 5 \<le> room s \<Longrightarrow>
   per_write_octet_string s key 4 4 = Ok () (put (0 # key) s)"
  by (simp add: per_write_octet_string_def per_write_length_def per_write_octets_put stream_write)

lemmas gcc_write_simps =
  per_choice_enc(1) per_write_oid_enc per_write_key per_write_octets_prefix
  per_write_selection_def per_write_number_of_sets_def per_write_padding_def per_write_octets_put
  per_write_length_nat stream_write

lemma gcc_write_request_enc:
  assumes "stream_ok s" "stream_ok u" "s_pointer u + 14 < 0x8000"
    "length (gcc_request_head (s_pointer u)) + s_pointer u \<le> room s"
  shows "gcc_write_conference_create_request s u =
    Ok () (put (gcc_request_head (s_pointer u) @ take (s_pointer u) (s_buffer u)) s)"
proof -
  let ?n = "s_pointer u"
  have n: "size_to_int ?n = int ?n" "size_to_int (size_add ?n 14) = int (?n + 14)"
    using assms(3) by (simp_all add: size_simps size_add_def)
  have b: "?n \<le> length (s_buffer u)" using assms(2) by (simp add: stream_ok_def)
  have num: "per_write_numeric_string t [0x31, 0] 1 1 = Ok () (put [0, 0x10] t)"
    if "stream_ok t" "2 \<le> room t" for t
    using that by (simp add: per_write_numeric_string_def per_write_length_def per_nibble_def
        signed_modulo_int_def stream_write)
  show ?thesis
    using assms b
    unfolding gcc_write_conference_create_request_def Stream_GetPosition_def n
    by (simp add: gcc_write_simps num gcc_request_head_def t124_02_98_oid_def h221_cs_key_def
        del: of_nat_add)
qed

lemma gcc_write_response_enc:
  assumes "stream_ok s" "stream_ok u" "s_pointer u < 0x8000"
    "length (gcc_response_head (s_pointer u)) + s_pointer u \<le> room s"
  shows "gcc_write_conference_create_response s u =
    Ok () (put (gcc_response_head (s_pointer u) @ take (s_pointer u) (s_buffer u)) s)"
proof -
  let ?n = "s_pointer u"
  have n: "size_to_int ?n = int ?n"
    using assms(3) by (simp add: size_simps)
  have b: "?n \<le> length (s_buffer u)" using assms(2) by (simp add: stream_ok_def)
  have len: "per_write_length t 0x2A = Ok () (put [0x2A] t)" if "stream_ok t" "1 \<le> room t" for t
    using that by (simp add: per_write_length_def stream_write)
  show ?thesis
    using assms b
    unfolding gcc_write_conference_create_response_def Stream_GetPosition_def n
    by (simp add: gcc_write_simps len per_write_integer16_enc per_integer16_enc_def
        per_write_integer_enc per_integer_enc_def per_write_enumerated_def
        gcc_response_head_def t124_02_98_oid_def h221_sc_key_def)
qed

lemma per_octet_reads:
  "readable s \<Longrightarrow> remaining s = v # rest \<Longrightarrow> per_read_choice s = Ok v (skip 1 s)"
  "readable s \<Longrightarrow> remaining s = v # rest \<Longrightarrow> per_read_selection s = Ok v (skip 1 s)"
  "readable s \<Longrightarrow> remaining s = v # rest \<Longrightarrow> per_read_number_of_sets s = Ok v (skip 1 s)"
  by (simp_all add: per_read_choice_def per_read_selection_def per_read_number_of_sets_def stream_read)

lemma gcc_oid_read:
  assumes "readable s" "remaining s = per_oid_enc t124_02_98_oid @ rest"
  shows "per_read_object_identifier s t124_02_98_oid = Ok () (skip 6 s)"
  using assms by (intro per_read_oid_enc) (auto simp: t124_02_98_oid_def)

lemma gcc_key_read:
  assumes "readable s" "length key = 4" "remaining s = 0 # key @ rest" "length (remaining s) < 2 ^ 31"
  shows "per_read_octet_string s key 4 4 = Ok () (skip 5 s)"
  using per_read_octet_string_enc [of s 4 key rest] assms
  by (simp add: per_octet_string_enc_def per_length_enc_def)

lemma gcc_numeric_read:
  assumes "readable s" "remaining s = 0 # b # rest" "length (remaining s) < 2 ^ 31"
  shows "per_read_numeric_string s 1 = Ok () (skip 2 s)"
proof -
  have "size_to_int (length rest + 1) = int (length rest + 1)"
    using assms(2,3) by (intro size_to_int_small) simp
  with assms show ?thesis
    by (simp add: per_read_numeric_string_def per_read_length_small signed_divide_int_def
        int_to_size_def skip_literals)
qed

lemma gcc_padding_read:
  assumes "readable s" "remaining s = b # rest" "length (remaining s) < 2 ^ 31"
  shows "per_read_padding s 1 = Ok () (skip 1 s)"
proof -
  have "size_to_int (length rest + 1) = int (length rest + 1)"
    using assms(2,3) by (intro size_to_int_small) simp
  with assms show ?thesis by (simp add: per_read_padding_def int_to_size_def)
qed

text \<open>Both PDUs start with a choice, the object identifier and a length.\<close>

lemma gcc_prefix_read:
  assumes s: "readable s" and n: "n < 0x8000"
    and rem: "remaining s = 0 # per_oid_enc t124_02_98_oid @ per_length_enc (of_nat n) @ rest"
  obtains t where "per_read_choice s = Ok 0 (skip 1 s)"
    "per_read_object_identifier (skip 1 s) t124_02_98_oid = Ok () (skip 7 s)"
    "per_read_length (skip 7 s) = Ok (of_nat n) t"
    "t = skip (7 + length (per_length_enc (of_nat n))) s" "readable t" "remaining t = rest"
proof
  let ?l = "length (per_length_enc (of_nat n))"
  have o6: "length (per_oid_enc t124_02_98_oid) = 6" by (simp add: t124_02_98_oid_def)
  show "per_read_choice s = Ok 0 (skip 1 s)" using s rem by (intro per_octet_reads)
  show "per_read_object_identifier (skip 1 s) t124_02_98_oid = Ok () (skip 7 s)"
    using gcc_oid_read [of "skip 1 s"] s rem by simp
  show "per_read_length (skip 7 s) = Ok (of_nat n) (skip (7 + ?l) s)"
    using per_read_length_nat [of "skip 7 s" n rest] s rem n o6 by simp
  let ?p = "0 # per_oid_enc t124_02_98_oid @ per_length_enc (of_nat n)"
  have "remaining s = ?p @ rest" "7 + ?l = length ?p" using rem o6 by simp_all
  from skip_over [OF this] s show "remaining (skip (7 + ?l) s) = rest" "readable (skip (7 + ?l) s)"
    by blast+
qed simp

lemma gcc_read_request_enc:
  assumes s: "readable s" and n: "length data + 14 < 0x8000" and short: "length (remaining s) < 2 ^ 31"
    and rem: "remaining s = gcc_request_head (length data) @ data @ rest"
  shows "gcc_read_conference_create_request blocks m s =
    blocks m (skip (length (gcc_request_head (length data))) s) (of_nat (length data))"
proof -
  let ?body = "per_length_enc (of_nat (length data)) @ data @ rest"
  have k4: "length h221_cs_key = 4" by (simp add: h221_cs_key_def)
  obtain t where pre: "per_read_choice s = Ok 0 (skip 1 s)"
    "per_read_object_identifier (skip 1 s) t124_02_98_oid = Ok () (skip 7 s)"
    "per_read_length (skip 7 s) = Ok (of_nat (length data + 14)) t"
    and t: "t = skip (7 + length (per_length_enc (of_nat (length data + 14)))) s" "readable t"
    "remaining t = [0, 8, 0, 0x10, 0, 1, 0xC0, 0] @ h221_cs_key @ ?body"
    by (rule gcc_prefix_read [OF s n]) (use rem in \<open>auto simp: gcc_request_head_def\<close>)
  have short_t: "length (remaining t) < 2 ^ 31" using short unfolding t(1) by simp
  have octets: "per_read_choice t = Ok 0 (skip 1 t)" "per_read_selection (skip 1 t) = Ok 8 (skip 2 t)"
    "per_read_number_of_sets (skip 5 t) = Ok 1 (skip 6 t)" "per_read_choice (skip 6 t) = Ok 0xC0 (skip 7 t)"
    using t(2,3) by (simp_all add: per_octet_reads skip_literals)
  have num: "per_read_numeric_string (skip 2 t) 1 = Ok () (skip 4 t)"
    using gcc_numeric_read [of "skip 2 t"] t(2,3) short_t by simp
  have pad: "per_read_padding (skip 4 t) 1 = Ok () (skip 5 t)"
    using gcc_padding_read [of "skip 4 t"] t(2,3) short_t by simp
  have key: "per_read_octet_string (skip 7 t) h221_cs_key 4 4 = Ok () (skip 12 t)"
    using gcc_key_read [of "skip 7 t" h221_cs_key ?body] t(2,3) short_t k4 by simp
  let ?u = "skip (12 + length (per_length_enc (of_nat (length data)))) t"
  have len: "per_read_length (skip 12 t) = Ok (of_nat (length data)) ?u"
    using per_read_length_nat [of "skip 12 t" "length data" "data @ rest"] t(2,3) k4 n by simp
  have u: "readable ?u" "remaining ?u = data @ rest"
    using skip_over [of t "[0, 8, 0, 0x10, 0, 1, 0xC0, 0] @ h221_cs_key @ per_length_enc (of_nat (length data))"]
      t(2,3) k4 by simp_all
  have "unat (of_nat (length data) :: u16) = length data" using n by (simp add: unat_of_nat take_bit_nat_eq_self)
  then have "gcc_read_conference_create_request blocks m s = blocks m ?u (of_nat (length data))"
    using u by (simp add: gcc_read_conference_create_request_def pre [unfolded One_nat_def]
        octets [unfolded One_nat_def] num pad key len)
  moreover have "?u = skip (length (gcc_request_head (length data))) s"
    by (simp add: t(1) gcc_request_head_def k4 t124_02_98_oid_def)
  ultimately show ?thesis by simp
qed

lemma gcc_read_response_enc:
  assumes s: "readable s" and n: "length data < 0x8000" and short: "length (remaining s) < 2 ^ 31"
    and rem: "remaining s = gcc_response_head (length data) @ data @ rest"
  shows "gcc_read_conference_create_response blocks m s =
    blocks m (skip (length (gcc_response_head (length data))) s) (of_nat (length data))"
proof -
  let ?body = "per_length_enc (of_nat (length data)) @ data @ rest"
  have k4: "length h221_sc_key = 4" by (simp add: h221_sc_key_def)
  have l1: "per_length_enc (of_nat 0x2A) = [0x2A]" by (simp add: per_length_enc_def)
  obtain t where pre: "per_read_choice s = Ok 0 (skip 1 s)"
    "per_read_object_identifier (skip 1 s) t124_02_98_oid = Ok () (skip 7 s)"
    "per_read_length (skip 7 s) = Ok (of_nat 0x2A) t"
    and t: "t = skip (7 + length (per_length_enc (of_nat 0x2A))) s" "readable t"
    "remaining t = 0x14 # be16 (0x79F3 - 1001) @ [1, 1, 0, 1, 0xC0, 0] @ h221_sc_key @ ?body"
    by (rule gcc_prefix_read [OF s, of "0x2A"]) (use rem l1 in \<open>auto simp: gcc_response_head_def\<close>)
  have t8: "t = skip 8 s" unfolding t(1) l1 by simp
  have short_t: "length (remaining t) < 2 ^ 31" using short unfolding t(1) by simp
  have octets: "per_read_choice t = Ok 0x14 (skip 1 t)" "per_read_number_of_sets (skip 6 t) = Ok 1 (skip 7 t)"
    "per_read_choice (skip 7 t) = Ok 0xC0 (skip 8 t)" "per_read_enumerated (skip 5 t) MCS_Result_enum_length = Ok 0 (skip 6 t)"
    using t(2,3) per_enumerated_enc(2) [of "skip 5 t" 0 MCS_Result_enum_length]
    by (simp_all add: per_octet_reads MCS_Result_enum_length_def)
  have node: "per_read_integer16 (skip 1 t) 1001 = Ok 0x79F3 (skip 3 t)"
    using per_read_integer16_enc [of "skip 1 t" 1001 "0x79F3"] t(2,3)
    by (simp add: per_integer16_enc_def skip_literals)
  have tag: "per_read_integer (skip 3 t) = Ok 1 (skip 5 t)"
    using per_read_integer_enc [of "skip 3 t" 1 "[0, 1, 0xC0, 0] @ h221_sc_key @ ?body"] t(2,3)
    by (simp add: per_integer_enc_def)
  have key: "per_read_octet_string (skip 8 t) h221_sc_key 4 4 = Ok () (skip 13 t)"
    using gcc_key_read [of "skip 8 t" h221_sc_key ?body] t(2,3) short_t k4 by simp
  let ?u = "skip (13 + length (per_length_enc (of_nat (length data)))) t"
  have len: "per_read_length (skip 13 t) = Ok (of_nat (length data)) ?u"
    using per_read_length_nat [of "skip 13 t" "length data" "data @ rest"] t(2,3) k4 n by simp
  have "gcc_read_conference_create_response blocks m s = blocks m ?u (of_nat (length data))"
    by (simp add: gcc_read_conference_create_response_def pre [unfolded One_nat_def]
        octets [unfolded One_nat_def] node [unfolded One_nat_def] tag key len)
  moreover have "?u = skip (length (gcc_response_head (length data))) s"
    by (simp add: t8 gcc_response_head_def k4 t124_02_98_oid_def)
  ultimately show ?thesis by simp
qed

end
