(* ===== verification/Crypto_Ber.thy ===== *)
theory Crypto_Ber
  imports Wire_Format
begin

text \<open>
  The BER primitives of \<^verbatim>\<open>libfreerdp/crypto/ber.c\<close> and the tag constants of
  \<^verbatim>\<open>include/freerdp/crypto/ber.h\<close>, one definition per C function in the order of the file. The
  writers return the number of bytes they claim to have written, as in C. A \<open>BOOL\<close> that is
  stored or compared with \<open>TRUE\<close> is the \<open>int\<close> it is in C.
\<close>

section \<open>The primitives\<close>

definition BER_CLASS_UNIV :: u8 where "BER_CLASS_UNIV = 0x00"
definition BER_CLASS_APPL :: u8 where "BER_CLASS_APPL = 0x40"
definition BER_CLASS_CTXT :: u8 where "BER_CLASS_CTXT = 0x80"
definition BER_PRIMITIVE :: u8 where "BER_PRIMITIVE = 0x00"
definition BER_CONSTRUCT :: u8 where "BER_CONSTRUCT = 0x20"
definition BER_TAG_MASK :: u8 where "BER_TAG_MASK = 0x1F"
definition BER_TAG_BOOLEAN :: u8 where "BER_TAG_BOOLEAN = 0x01"
definition BER_TAG_INTEGER :: u8 where "BER_TAG_INTEGER = 0x02"
definition BER_TAG_BIT_STRING :: u8 where "BER_TAG_BIT_STRING = 0x03"
definition BER_TAG_OCTET_STRING :: u8 where "BER_TAG_OCTET_STRING = 0x04"
definition BER_TAG_ENUMERATED :: u8 where "BER_TAG_ENUMERATED = 0x0A"
definition BER_TAG_SEQUENCE :: u8 where "BER_TAG_SEQUENCE = 0x10"
definition BER_TAG_SEQUENCE_OF :: u8 where "BER_TAG_SEQUENCE_OF = 0x10"

lemmas ber_consts =
  BER_CLASS_UNIV_def BER_CLASS_APPL_def BER_CLASS_CTXT_def BER_PRIMITIVE_def BER_CONSTRUCT_def
  BER_TAG_MASK_def BER_TAG_BOOLEAN_def BER_TAG_INTEGER_def BER_TAG_BIT_STRING_def
  BER_TAG_OCTET_STRING_def BER_TAG_ENUMERATED_def BER_TAG_SEQUENCE_def BER_TAG_SEQUENCE_OF_def

definition BER_PC :: "bool \<Rightarrow> u8" where
  "BER_PC pc = (if pc then BER_CONSTRUCT else BER_PRIMITIVE)"

definition ber_read_length :: "wStream \<Rightarrow> (nat, wStream) res" where
  "ber_read_length s =
     (if Stream_GetRemainingLength s < 1 then Fail s
      else and_then (Stream_Read_UINT8 s) (\<lambda>byte s.
        if byte AND 0x80 \<noteq> 0 then
          (if Stream_GetRemainingLength s < unat (byte AND NOT 0x80) then Fail s
           else if byte AND NOT 0x80 = 1 then
             and_then (Stream_Read_UINT8 s) (\<lambda>v s. Ok (unat v) s)
           else if byte AND NOT 0x80 = 2 then
             and_then (Stream_Read_UINT16_BE s) (\<lambda>v s. Ok (unat v) s)
           else Fail s)
        else Ok (unat byte) s))"

definition ber_write_length :: "wStream \<Rightarrow> nat \<Rightarrow> (nat, wStream) res" where
  "ber_write_length s len =
     (if len > 0xFF then
        and_then (Stream_Write_UINT8 s (0x80 XOR 2)) (\<lambda>_ s.
        and_then (Stream_Write_UINT16_BE s (of_nat len)) (\<lambda>_ s. Ok 3 s))
      else if len > 0x7F then
        and_then (Stream_Write_UINT8 s (0x80 XOR 1)) (\<lambda>_ s.
        and_then (Stream_Write_UINT8 s (of_nat len)) (\<lambda>_ s. Ok 2 s))
      else and_then (Stream_Write_UINT8 s (of_nat len)) (\<lambda>_ s. Ok 1 s))"

definition ber_sizeof_length :: "nat \<Rightarrow> nat" where
  "ber_sizeof_length len = (if len > 0xFF then 3 else if len > 0x7F then 2 else 1)"

definition ber_read_universal_tag :: "wStream \<Rightarrow> u8 \<Rightarrow> bool \<Rightarrow> (unit, wStream) res" where
  "ber_read_universal_tag s tag pc =
     (if Stream_GetRemainingLength s < 1 then Fail s
      else and_then (Stream_Read_UINT8 s) (\<lambda>byte s.
        if byte \<noteq> (BER_CLASS_UNIV OR BER_PC pc OR (BER_TAG_MASK AND tag)) then Fail s
        else Ok () s))"

definition ber_write_universal_tag :: "wStream \<Rightarrow> u8 \<Rightarrow> bool \<Rightarrow> (nat, wStream) res" where
  "ber_write_universal_tag s tag pc =
     and_then (Stream_Write_UINT8 s ((BER_CLASS_UNIV OR BER_PC pc) OR (BER_TAG_MASK AND tag)))
       (\<lambda>_ s. Ok 1 s)"

definition ber_read_application_tag :: "wStream \<Rightarrow> u8 \<Rightarrow> (nat, wStream) res" where
  "ber_read_application_tag s tag =
     (if tag > 30 then
        (if Stream_GetRemainingLength s < 1 then Fail s
         else and_then (Stream_Read_UINT8 s) (\<lambda>byte s.
           if byte \<noteq> ((BER_CLASS_APPL OR BER_CONSTRUCT) OR BER_TAG_MASK) then Fail s
           else if Stream_GetRemainingLength s < 1 then Fail s
           else and_then (Stream_Read_UINT8 s) (\<lambda>byte s.
             if byte \<noteq> tag then Fail s else ber_read_length s)))
      else
        (if Stream_GetRemainingLength s < 1 then Fail s
         else and_then (Stream_Read_UINT8 s) (\<lambda>byte s.
           if byte \<noteq> ((BER_CLASS_APPL OR BER_CONSTRUCT) OR (BER_TAG_MASK AND tag)) then Fail s
           else ber_read_length s)))"

definition ber_write_application_tag :: "wStream \<Rightarrow> u8 \<Rightarrow> nat \<Rightarrow> (unit, wStream) res" where
  "ber_write_application_tag s tag len =
     (if tag > 30 then
        and_then (Stream_Write_UINT8 s ((BER_CLASS_APPL OR BER_CONSTRUCT) OR BER_TAG_MASK)) (\<lambda>_ s.
        and_then (Stream_Write_UINT8 s tag) (\<lambda>_ s.
        and_then (ber_write_length s len) (\<lambda>_ s. Ok () s)))
      else
        and_then (Stream_Write_UINT8 s ((BER_CLASS_APPL OR BER_CONSTRUCT) OR (BER_TAG_MASK AND tag)))
          (\<lambda>_ s. and_then (ber_write_length s len) (\<lambda>_ s. Ok () s)))"

definition ber_read_contextual_tag :: "wStream \<Rightarrow> u8 \<Rightarrow> bool \<Rightarrow> (nat, wStream) res" where
  "ber_read_contextual_tag s tag pc =
     (if Stream_GetRemainingLength s < 1 then Fail s
      else and_then (Stream_Read_UINT8 s) (\<lambda>byte s.
        if byte \<noteq> ((BER_CLASS_CTXT OR BER_PC pc) OR (BER_TAG_MASK AND tag))
        then and_then (Stream_Rewind s 1) (\<lambda>_ s. Fail s)
        else ber_read_length s))"

definition ber_write_contextual_tag :: "wStream \<Rightarrow> u8 \<Rightarrow> nat \<Rightarrow> bool \<Rightarrow> (nat, wStream) res" where
  "ber_write_contextual_tag s tag len pc =
     and_then (Stream_Write_UINT8 s ((BER_CLASS_CTXT OR BER_PC pc) OR (BER_TAG_MASK AND tag)))
       (\<lambda>_ s. and_then (ber_write_length s len) (\<lambda>n s. Ok (1 + n) s))"

definition ber_sizeof_contextual_tag :: "nat \<Rightarrow> nat" where
  "ber_sizeof_contextual_tag len = 1 + ber_sizeof_length len"

definition ber_read_sequence_tag :: "wStream \<Rightarrow> (nat, wStream) res" where
  "ber_read_sequence_tag s =
     (if Stream_GetRemainingLength s < 1 then Fail s
      else and_then (Stream_Read_UINT8 s) (\<lambda>byte s.
        if byte \<noteq> ((BER_CLASS_UNIV OR BER_CONSTRUCT) OR BER_TAG_SEQUENCE_OF) then Fail s
        else ber_read_length s))"

definition ber_write_sequence_tag :: "wStream \<Rightarrow> nat \<Rightarrow> (nat, wStream) res" where
  "ber_write_sequence_tag s len =
     and_then (Stream_Write_UINT8 s
                 ((BER_CLASS_UNIV OR BER_CONSTRUCT) OR (BER_TAG_MASK AND BER_TAG_SEQUENCE)))
       (\<lambda>_ s. and_then (ber_write_length s len) (\<lambda>n s. Ok (1 + n) s))"

definition ber_sizeof_sequence :: "nat \<Rightarrow> nat" where
  "ber_sizeof_sequence len = 1 + ber_sizeof_length len + len"

definition ber_sizeof_sequence_tag :: "nat \<Rightarrow> nat" where
  "ber_sizeof_sequence_tag len = 1 + ber_sizeof_length len"

definition ber_read_enumerated :: "wStream \<Rightarrow> u8 \<Rightarrow> (u8, wStream) res" where
  "ber_read_enumerated s cnt =
     and_then (ber_read_universal_tag s BER_TAG_ENUMERATED False) (\<lambda>_ s.
     and_then (ber_read_length s) (\<lambda>len s.
       if len \<noteq> 1 then Fail s
       else if Stream_GetRemainingLength s < 1 then Fail s
       else and_then (Stream_Read_UINT8 s) (\<lambda>enumerated s.
         if uint enumerated + 1 > uint cnt then Fail s else Ok enumerated s)))"

definition ber_write_enumerated :: "wStream \<Rightarrow> u8 \<Rightarrow> u8 \<Rightarrow> (unit, wStream) res" where
  "ber_write_enumerated s enumerated cnt =
     and_then (ber_write_universal_tag s BER_TAG_ENUMERATED False) (\<lambda>_ s.
     and_then (ber_write_length s 1) (\<lambda>_ s.
     Stream_Write_UINT8 s enumerated))"

definition ber_read_bit_string :: "wStream \<Rightarrow> (nat \<times> u8, wStream) res" where
  "ber_read_bit_string s =
     and_then (ber_read_universal_tag s BER_TAG_BIT_STRING False) (\<lambda>_ s.
     and_then (ber_read_length s) (\<lambda>len s.
       if Stream_GetRemainingLength s < 1 then Fail s
       else and_then (Stream_Read_UINT8 s) (\<lambda>padding s. Ok (len, padding) s)))"

definition ber_write_octet_string :: "wStream \<Rightarrow> u8 list \<Rightarrow> nat \<Rightarrow> (nat, wStream) res" where
  "ber_write_octet_string s oct_str len =
     and_then (ber_write_universal_tag s BER_TAG_OCTET_STRING False) (\<lambda>n1 s.
     and_then (ber_write_length s len) (\<lambda>n2 s.
     and_then (Stream_Write s oct_str len) (\<lambda>_ s. Ok (n1 + n2 + len) s)))"

definition ber_read_octet_string_tag :: "wStream \<Rightarrow> (nat, wStream) res" where
  "ber_read_octet_string_tag s =
     and_then (ber_read_universal_tag s BER_TAG_OCTET_STRING False) (\<lambda>_ s. ber_read_length s)"

definition ber_write_octet_string_tag :: "wStream \<Rightarrow> nat \<Rightarrow> (nat, wStream) res" where
  "ber_write_octet_string_tag s len =
     and_then (ber_write_universal_tag s BER_TAG_OCTET_STRING False) (\<lambda>_ s.
     and_then (ber_write_length s len) (\<lambda>_ s. Ok (1 + ber_sizeof_length len) s))"

definition ber_sizeof_octet_string :: "nat \<Rightarrow> nat" where
  "ber_sizeof_octet_string len = 1 + ber_sizeof_length len + len"

definition ber_read_BOOL :: "wStream \<Rightarrow> (int, wStream) res" where
  "ber_read_BOOL s =
     and_then (ber_read_universal_tag s BER_TAG_BOOLEAN False) (\<lambda>_ s.
     and_then (ber_read_length s) (\<lambda>len s.
       if len \<noteq> 1 then Fail s
       else if Stream_GetRemainingLength s < 1 then Fail s
       else and_then (Stream_Read_UINT8 s) (\<lambda>v s. Ok (if v \<noteq> 0 then 1 else 0) s)))"

definition ber_write_BOOL :: "wStream \<Rightarrow> int \<Rightarrow> (unit, wStream) res" where
  "ber_write_BOOL s value =
     and_then (ber_write_universal_tag s BER_TAG_BOOLEAN False) (\<lambda>_ s.
     and_then (ber_write_length s 1) (\<lambda>_ s.
     Stream_Write_UINT8 s (if value = 1 then 0xFF else 0)))"

text \<open>\<open>want\<close> is whether the caller passed a pointer for the value.\<close>

definition ber_read_integer :: "bool \<Rightarrow> wStream \<Rightarrow> (u32 option, wStream) res" where
  "ber_read_integer want s =
     and_then (ber_read_universal_tag s BER_TAG_INTEGER False) (\<lambda>_ s.
     and_then (ber_read_length s) (\<lambda>len s.
       if Stream_GetRemainingLength s < len then Fail s
       else if \<not> want then and_then (Stream_SafeSeek s len) (\<lambda>_ s. Ok None s)
       else if len = 1 then and_then (Stream_Read_UINT8 s) (\<lambda>v s. Ok (Some (ucast v)) s)
       else if len = 2 then and_then (Stream_Read_UINT16_BE s) (\<lambda>v s. Ok (Some (ucast v)) s)
       else if len = 3 then
         and_then (Stream_Read_UINT8 s) (\<lambda>byte s.
         and_then (Stream_Read_UINT16_BE s) (\<lambda>v s.
           Ok (Some (ucast v + push_bit 16 (ucast byte))) s))
       else if len = 4 then and_then (Stream_Read_UINT32_BE s) (\<lambda>v s. Ok (Some v) s)
       else Fail s))"

definition ber_write_integer :: "wStream \<Rightarrow> u32 \<Rightarrow> (nat, wStream) res" where
  "ber_write_integer s value =
     and_then (ber_write_universal_tag s BER_TAG_INTEGER False) (\<lambda>_ s.
       if value < 0x80 then
         and_then (ber_write_length s 1) (\<lambda>_ s.
         and_then (Stream_Write_UINT8 s (ucast value)) (\<lambda>_ s. Ok 3 s))
       else if value < 0x8000 then
         and_then (ber_write_length s 2) (\<lambda>_ s.
         and_then (Stream_Write_UINT16_BE s (ucast value)) (\<lambda>_ s. Ok 4 s))
       else if value < 0x800000 then
         and_then (ber_write_length s 3) (\<lambda>_ s.
         and_then (Stream_Write_UINT8 s (ucast (drop_bit 16 value))) (\<lambda>_ s.
         and_then (Stream_Write_UINT16_BE s (ucast (value AND 0xFFFF))) (\<lambda>_ s. Ok 5 s)))
       else
         and_then (ber_write_length s 4) (\<lambda>_ s.
         and_then (Stream_Write_UINT32_BE s value) (\<lambda>_ s. Ok 6 s)))"

definition ber_sizeof_integer :: "u32 \<Rightarrow> nat" where
  "ber_sizeof_integer value =
     (if value < 0x80 then 3 else if value < 0x8000 then 4 else if value < 0x800000 then 5 else 6)"

definition ber_read_integer_length :: "wStream \<Rightarrow> (nat, wStream) res" where
  "ber_read_integer_length s =
     and_then (ber_read_universal_tag s BER_TAG_INTEGER False) (\<lambda>_ s. ber_read_length s)"

section \<open>Memory safety\<close>

lemma ber_read_length_safe: "safe_read ber_read_length"
  unfolding ber_read_length_def by (rule safe_rules | simp)+

lemma ber_read_universal_tag_safe: "safe_read (\<lambda>s. ber_read_universal_tag s tag pc)"
  unfolding ber_read_universal_tag_def by (rule safe_rules | simp)+

lemmas ber_safe_calls =
  safe_call [OF ber_read_universal_tag_safe] safe_call [OF ber_read_length_safe]
  safe_mono [OF ber_read_length_safe]

lemma ber_read_application_tag_safe: "safe_read (\<lambda>s. ber_read_application_tag s tag)"
  unfolding ber_read_application_tag_def by (rule ber_safe_calls safe_rules | simp)+

lemma ber_read_sequence_tag_safe: "safe_read ber_read_sequence_tag"
  unfolding ber_read_sequence_tag_def by (rule ber_safe_calls safe_rules | simp)+

lemma ber_read_enumerated_safe: "safe_read (\<lambda>s. ber_read_enumerated s cnt)"
  unfolding ber_read_enumerated_def by (rule ber_safe_calls safe_rules | simp)+

lemma ber_read_bit_string_safe: "safe_read ber_read_bit_string"
  unfolding ber_read_bit_string_def by (rule ber_safe_calls safe_rules | simp)+

lemma ber_read_octet_string_tag_safe: "safe_read ber_read_octet_string_tag"
  unfolding ber_read_octet_string_tag_def by (rule ber_safe_calls safe_rules | simp)+

lemma ber_read_BOOL_safe: "safe_read ber_read_BOOL"
  unfolding ber_read_BOOL_def by (rule ber_safe_calls safe_rules | simp)+

lemma ber_read_integer_safe: "safe_read (ber_read_integer want)"
  unfolding ber_read_integer_def
  by (rule ber_safe_calls safe_call [OF safe_SafeSeek [of 0]] safe_rules | simp)+

lemma ber_read_integer_length_safe: "safe_read ber_read_integer_length"
  unfolding ber_read_integer_length_def by (rule ber_safe_calls safe_rules | simp)+

lemma safe_rewind_fail:
  "1 \<le> n \<Longrightarrow> (\<And>b. safe_from (n - 1) (g b)) \<Longrightarrow>
   safe_from n (\<lambda>s. and_then (Stream_Read_UINT8 s) (\<lambda>b s.
     if b \<noteq> c then and_then (Stream_Rewind s 1) (\<lambda>_ s. Fail s) else g b s))"
proof (unfold safe_from_def, intro allI impI)
  fix s assume n: "1 \<le> n" and g: "\<And>b. \<forall>s. readable s \<longrightarrow> n - 1 \<le> length (remaining s) \<longrightarrow>
      wp (g b s) (\<lambda>_. advances s) (advances s)"
    and s: "readable s" "n \<le> length (remaining s)"
  have rew: "Stream_Rewind (skip 1 s) 1 = Ok () s"
    by (simp add: Stream_Rewind_def skip_def)
  have "advances s (skip 1 s)" "readable (skip 1 s)" "n - 1 \<le> length (remaining (skip 1 s))"
    using s n by simp_all
  then show "wp (and_then (Stream_Read_UINT8 s) (\<lambda>b s.
     if b \<noteq> c then and_then (Stream_Rewind s 1) (\<lambda>_ s. Fail s) else g b s))
     (\<lambda>_. advances s) (advances s)"
    using s n g [rule_format, of "skip 1 s" "remaining s ! 0"] rew
    by (auto simp: stream_read elim!: wp_mono intro: advances_trans [of s "skip (Suc 0) s"])
qed

lemma ber_read_contextual_tag_safe: "safe_read (\<lambda>s. ber_read_contextual_tag s tag pc)"
  unfolding ber_read_contextual_tag_def
  by (rule safe_rewind_fail ber_safe_calls safe_rules | simp)+

section \<open>Encodings\<close>

definition ber_length_enc :: "nat \<Rightarrow> u8 list" where
  "ber_length_enc len =
     (if len > 0xFF then 0x82 # be16 (of_nat len) else if len > 0x7F then [0x81, of_nat len]
      else [of_nat len])"

lemma length_ber_length_enc [simp]: "length (ber_length_enc len) = ber_sizeof_length len"
  by (simp add: ber_length_enc_def ber_sizeof_length_def)

lemma ber_sizeof_length_bounds: "1 \<le> ber_sizeof_length len" "ber_sizeof_length len \<le> 3"
  by (simp_all add: ber_sizeof_length_def)

lemma ber_write_length_enc [stream_write]:
  "stream_ok s \<Longrightarrow> ber_sizeof_length len \<le> room s \<Longrightarrow>
   ber_write_length s len = Ok (ber_sizeof_length len) (put (ber_length_enc len) s)"
  by (auto simp: ber_write_length_def ber_length_enc_def ber_sizeof_length_def stream_write
      split: if_splits)

lemma octet_flag_clear: "(b :: u8) < 0x80 \<Longrightarrow> b AND 0x80 = 0"
proof -
  assume b: "b < 0x80"
  have "\<not> bit b 7" using b by (intro bit_less_exp) (simp add: word_less_nat_alt)
  then show ?thesis using and_exp_eq_0_iff_not_bit [of b 7] by simp
qed

lemma unat_of_nat_u8: "n < 256 \<Longrightarrow> unat (of_nat n :: u8) = n"
  by (simp add: unat_of_nat take_bit_nat_eq_self)

lemma unat_of_nat_u16: "n < 65536 \<Longrightarrow> unat (of_nat n :: u16) = n"
  by (simp add: unat_of_nat take_bit_nat_eq_self)

lemma ber_read_length_enc:
  assumes "readable s" "len \<le> 0xFFFF" "remaining s = ber_length_enc len @ rest"
  shows "ber_read_length s = Ok len (skip (ber_sizeof_length len) s)"
proof -
  consider "len > 0xFF" | "len > 0x7F" "len \<le> 0xFF" | "len \<le> 0x7F" by linarith
  then show ?thesis
  proof cases
    case 1
    with assms have "Stream_Read_UINT16_BE (skip 1 s) = Ok (of_nat len) (skip 2 (skip 1 s))"
      by (intro read_be16 [of _ _ rest]) (auto simp: ber_length_enc_def)
    with 1 assms show ?thesis
      by (simp add: ber_read_length_def ber_length_enc_def ber_sizeof_length_def stream_read(1)
          unat_of_nat_u16 numeral_3_eq_3)
  next
    case 2
    with assms show ?thesis
      by (simp add: ber_read_length_def ber_length_enc_def ber_sizeof_length_def stream_read(1)
          unat_of_nat_u8) (simp add: numeral_2_eq_2)
  next
    case 3
    then have u: "unat (of_nat len :: u8) = len" by (simp add: unat_of_nat_u8)
    with 3 have "(of_nat len :: u8) AND 0x80 = 0"
      by (intro octet_flag_clear) (simp add: word_less_nat_alt)
    with 3 u assms show ?thesis
      by (simp add: ber_read_length_def ber_length_enc_def ber_sizeof_length_def stream_read(1))
  qed
qed

text \<open>Identifier octets. Each reader expects the octet the writer of the same name emits.\<close>

definition ber_univ_octet :: "u8 \<Rightarrow> bool \<Rightarrow> u8" where
  "ber_univ_octet tag pc = BER_CLASS_UNIV OR BER_PC pc OR (BER_TAG_MASK AND tag)"

lemma ber_universal_tag_enc:
  "stream_ok s \<Longrightarrow> 1 \<le> room s \<Longrightarrow>
   ber_write_universal_tag s tag pc = Ok 1 (put [ber_univ_octet tag pc] s)"
  "readable s \<Longrightarrow> remaining s = ber_univ_octet tag pc # rest \<Longrightarrow>
   ber_read_universal_tag s tag pc = Ok () (skip 1 s)"
  by (simp_all add: ber_write_universal_tag_def ber_read_universal_tag_def ber_univ_octet_def
      stream_read stream_write or.assoc)

lemma ber_univ_octets [simp]:
  "ber_univ_octet BER_TAG_INTEGER False = 2" "ber_univ_octet BER_TAG_ENUMERATED False = 10"
  "ber_univ_octet BER_TAG_BOOLEAN False = 1" "ber_univ_octet BER_TAG_OCTET_STRING False = 4"
  "ber_univ_octet BER_TAG_BIT_STRING False = 3"
  by (simp_all add: ber_univ_octet_def ber_consts BER_PC_def)

definition ber_appl_enc :: "u8 \<Rightarrow> nat \<Rightarrow> u8 list" where
  "ber_appl_enc tag len =
     (if tag > 30 then [0x7F, tag] else [0x60 OR (0x1F AND tag)]) @ ber_length_enc len"

definition ber_ctxt_enc :: "u8 \<Rightarrow> bool \<Rightarrow> nat \<Rightarrow> u8 list" where
  "ber_ctxt_enc tag pc len = (0x80 OR BER_PC pc OR (0x1F AND tag)) # ber_length_enc len"

definition ber_sequence_enc :: "nat \<Rightarrow> u8 list" where
  "ber_sequence_enc len = 0x30 # ber_length_enc len"

definition ber_octets_enc :: "nat \<Rightarrow> u8 list" where
  "ber_octets_enc len = 4 # ber_length_enc len"

lemma length_ber_tags [simp]:
  "length (ber_appl_enc tag len) = (if tag > 30 then 2 else 1) + ber_sizeof_length len"
  "length (ber_ctxt_enc tag pc len) = ber_sizeof_contextual_tag len"
  "length (ber_sequence_enc len) = ber_sizeof_sequence_tag len"
  "length (ber_octets_enc len) = 1 + ber_sizeof_length len"
  by (simp_all add: ber_appl_enc_def ber_ctxt_enc_def ber_sequence_enc_def ber_octets_enc_def
      ber_sizeof_contextual_tag_def ber_sizeof_sequence_tag_def)

lemma ber_write_tags_enc [stream_write]:
  assumes "stream_ok s"
  shows "length (ber_appl_enc tag len) \<le> room s \<Longrightarrow>
    ber_write_application_tag s tag len = Ok () (put (ber_appl_enc tag len) s)"
  and "length (ber_ctxt_enc tag pc len) \<le> room s \<Longrightarrow>
    ber_write_contextual_tag s tag len pc =
      Ok (ber_sizeof_contextual_tag len) (put (ber_ctxt_enc tag pc len) s)"
  and "length (ber_sequence_enc len) \<le> room s \<Longrightarrow>
    ber_write_sequence_tag s len = Ok (ber_sizeof_sequence_tag len) (put (ber_sequence_enc len) s)"
  using assms
  by (simp_all add: ber_write_application_tag_def ber_appl_enc_def ber_write_contextual_tag_def
      ber_ctxt_enc_def ber_write_sequence_tag_def ber_sequence_enc_def
      ber_sizeof_contextual_tag_def ber_sizeof_sequence_tag_def ber_consts or.assoc stream_write
      split: if_splits)

lemma ber_write_octet_string_tag_enc [stream_write]:
  "stream_ok s \<Longrightarrow> 1 + ber_sizeof_length len \<le> room s \<Longrightarrow>
   ber_write_octet_string_tag s len = Ok (1 + ber_sizeof_length len) (put (ber_octets_enc len) s)"
  by (simp add: ber_write_octet_string_tag_def ber_octets_enc_def ber_universal_tag_enc stream_write)

lemma ber_read_application_tag_enc:
  assumes "readable s" "len \<le> 0xFFFF" "remaining s = ber_appl_enc tag len @ rest"
  shows "ber_read_application_tag s tag = Ok len (skip (length (ber_appl_enc tag len)) s)"
  using assms ber_read_length_enc [of "skip (if tag > 30 then 2 else 1) s" len rest]
  by (simp add: ber_read_application_tag_def ber_appl_enc_def ber_consts stream_read numeral_2_eq_2
      split: if_splits)

lemma ber_read_contextual_tag_enc:
  assumes "readable s" "len \<le> 0xFFFF" "remaining s = ber_ctxt_enc tag pc len @ rest"
  shows "ber_read_contextual_tag s tag pc = Ok len (skip (ber_sizeof_contextual_tag len) s)"
  using assms ber_read_length_enc [of "skip 1 s" len rest]
  by (simp add: ber_read_contextual_tag_def ber_ctxt_enc_def ber_consts stream_read or.assoc
      ber_sizeof_contextual_tag_def)

lemma ber_read_sequence_tag_enc:
  assumes "readable s" "len \<le> 0xFFFF" "remaining s = ber_sequence_enc len @ rest"
  shows "ber_read_sequence_tag s = Ok len (skip (ber_sizeof_sequence_tag len) s)"
  using assms ber_read_length_enc [of "skip 1 s" len rest]
  by (simp add: ber_read_sequence_tag_def ber_sequence_enc_def ber_consts stream_read
      ber_sizeof_sequence_tag_def)

lemma ber_read_octet_string_tag_enc:
  assumes "readable s" "len \<le> 0xFFFF" "remaining s = ber_octets_enc len @ rest"
  shows "ber_read_octet_string_tag s = Ok len (skip (1 + ber_sizeof_length len) s)"
  using assms ber_read_length_enc [of "skip 1 s" len rest]
  by (simp add: ber_read_octet_string_tag_def ber_octets_enc_def ber_universal_tag_enc)

text \<open>Integers take one to four octets so that the sign bit stays clear below \<open>0x800000\<close>.\<close>

definition ber_integer_enc :: "u32 \<Rightarrow> u8 list" where
  "ber_integer_enc v =
     2 # (if v < 0x80 then [1, ucast v]
          else if v < 0x8000 then 2 # be16 (ucast v)
          else if v < 0x800000 then 3 # ucast (drop_bit 16 v) # be16 (ucast (v AND 0xFFFF))
          else 4 # be32 v)"

lemma length_ber_integer_enc [simp]: "length (ber_integer_enc v) = ber_sizeof_integer v"
  by (simp add: ber_integer_enc_def ber_sizeof_integer_def)

lemma ber_length_enc_short:
  "ber_length_enc 1 = [1]" "ber_length_enc 2 = [2]" "ber_length_enc 3 = [3]" "ber_length_enc 4 = [4]"
  "ber_sizeof_length 1 = 1" "ber_sizeof_length 2 = 1" "ber_sizeof_length 3 = 1" "ber_sizeof_length 4 = 1"
  by (simp_all add: ber_length_enc_def ber_sizeof_length_def)

lemma ber_write_integer_enc [stream_write]:
  "stream_ok s \<Longrightarrow> ber_sizeof_integer v \<le> room s \<Longrightarrow>
   ber_write_integer s v = Ok (ber_sizeof_integer v) (put (ber_integer_enc v) s)"
  by (simp add: ber_write_integer_def ber_integer_enc_def ber_sizeof_integer_def
      ber_universal_tag_enc stream_write ber_length_enc_short [unfolded One_nat_def] split: if_splits)

lemma ber_read_short_length:
  assumes "readable s" "len \<le> 0x7F" "remaining s = of_nat len # rest"
  shows "ber_read_length s = Ok len (skip 1 s)"
  using ber_read_length_enc [of s len rest] assms by (simp add: ber_length_enc_def ber_sizeof_length_def)

lemma ber_read_integer_header:
  assumes "readable s" "len \<le> 4" "remaining s = 2 # of_nat len # rest" "len \<le> length rest"
  shows "ber_read_integer True s =
    (if len = 1 then and_then (Stream_Read_UINT8 (skip 2 s)) (\<lambda>v s. Ok (Some (ucast v)) s)
     else if len = 2 then and_then (Stream_Read_UINT16_BE (skip 2 s)) (\<lambda>v s. Ok (Some (ucast v)) s)
     else if len = 3 then
       and_then (Stream_Read_UINT8 (skip 2 s)) (\<lambda>byte s.
       and_then (Stream_Read_UINT16_BE s) (\<lambda>v s. Ok (Some (ucast v + push_bit 16 (ucast byte))) s))
     else if len = 4 then and_then (Stream_Read_UINT32_BE (skip 2 s)) (\<lambda>v s. Ok (Some v) s)
     else Fail (skip 2 s))"
  using assms ber_read_short_length [of "skip 1 s" len rest]
  by (simp add: ber_read_integer_def ber_universal_tag_enc(2) skip_literals)

lemma ber_integer_three:
  assumes "(v :: u32) < 0x800000"
  shows "ucast (ucast (v AND 0xFFFF) :: u16) + push_bit 16 (ucast (ucast (drop_bit 16 v) :: u8)) = v"
proof -
  have hi: "\<not> bit v n" if "24 \<le> n" for n
  proof (rule bit_less_exp)
    have "unat v < 2 ^ 24" using assms by (simp add: word_less_nat_alt)
    also have "(2 :: nat) ^ 24 \<le> 2 ^ n" using that by (rule power_increasing) simp
    finally show "unat v < 2 ^ n" .
  qed
  then have hi': "n < 24" if "bit v n" for n using that by (meson not_less)
  let ?lo = "ucast (ucast (v AND 0xFFFF) :: u16) :: u32"
  let ?hi = "push_bit 16 (ucast (ucast (drop_bit 16 v) :: u8)) :: u32"
  have "?lo + ?hi = ?lo OR ?hi"
    unfolding and_mask16 by (rule disjunctive_add) (auto simp: bit_simps)
  also have "\<dots> = v"
    unfolding and_mask16 by (intro bit_word_eqI) (auto simp: bit_simps dest: hi')
  finally show ?thesis .
qed

lemma ber_read_integer_enc:
  assumes s: "readable s" and rem: "remaining s = ber_integer_enc v @ rest"
  shows "ber_read_integer True s = Ok (Some v) (skip (ber_sizeof_integer v) s)"
proof -
  note hd = ber_read_integer_header [OF s]
  consider "v < 0x80" | "\<not> v < 0x80" "v < 0x8000" | "\<not> v < 0x80" "\<not> v < 0x8000" "v < 0x800000" 
    | "\<not> v < 0x80" "\<not> v < 0x8000" "\<not> v < 0x800000"
    by blast
  then show ?thesis
  proof cases
    case 1
    then have "ucast (ucast v :: u8) = v" by (intro ucast_back) (simp add: word_less_nat_alt)
    with 1 s rem hd [of 1 "ucast v # rest"] show ?thesis
      by (simp add: ber_integer_enc_def ber_sizeof_integer_def stream_read(1))
  next
    case 2
    then have "ucast (ucast v :: u16) = v" by (intro ucast_back) (simp add: word_less_nat_alt)
    with 2 s rem hd [of 2 "be16 (ucast v) @ rest"] read_be16 [of "skip 2 s" "ucast v" rest] 
    show ?thesis
      by (simp add: ber_integer_enc_def ber_sizeof_integer_def)
  next
    case 3
    with s rem hd [of 3 "ucast (drop_bit 16 v) # be16 (ucast (v AND 0xFFFF)) @ rest"]
      read_be16 [of "skip 3 s" "ucast (v AND 0xFFFF)" rest] show ?thesis
      by (simp add: ber_integer_enc_def ber_sizeof_integer_def stream_read(1) ber_integer_three)
  next
    case 4
    with s rem hd [of 4 "be32 v @ rest"] read_be32 [of "skip 2 s" v rest] show ?thesis
      by (simp add: ber_integer_enc_def ber_sizeof_integer_def)
  qed
qed

interpretation ber_length: wire_format ber_length_enc "\<lambda>len. len \<le> 0xFFFF"
  "\<lambda>s len. and_then (ber_write_length s len) (\<lambda>_ s. Ok () s)" ber_read_length
  by unfold_locales (auto simp: ber_write_length_enc ber_read_length_enc ber_read_length_safe)

interpretation ber_appl: wire_format "ber_appl_enc tag" "\<lambda>len. len \<le> 0xFFFF"
  "\<lambda>s len. ber_write_application_tag s tag len" "\<lambda>s. ber_read_application_tag s tag"
  for tag
  by unfold_locales
    (auto intro: ber_write_tags_enc(1) ber_read_application_tag_enc ber_read_application_tag_safe
      simp del: length_ber_tags)

interpretation ber_ctxt: wire_format "ber_ctxt_enc tag pc" "\<lambda>len. len \<le> 0xFFFF"
  "\<lambda>s len. and_then (ber_write_contextual_tag s tag len pc) (\<lambda>_ s. Ok () s)"
  "\<lambda>s. ber_read_contextual_tag s tag pc"
  for tag pc
  by unfold_locales
    (auto simp: ber_write_tags_enc ber_read_contextual_tag_enc ber_read_contextual_tag_safe)

interpretation ber_sequence: wire_format ber_sequence_enc "\<lambda>len. len \<le> 0xFFFF"
  "\<lambda>s len. and_then (ber_write_sequence_tag s len) (\<lambda>_ s. Ok () s)" ber_read_sequence_tag
  by unfold_locales
    (auto simp: ber_write_tags_enc ber_read_sequence_tag_enc ber_read_sequence_tag_safe)

interpretation ber_octets: wire_format ber_octets_enc "\<lambda>len. len \<le> 0xFFFF"
  "\<lambda>s len. and_then (ber_write_octet_string_tag s len) (\<lambda>_ s. Ok () s)" ber_read_octet_string_tag
  by unfold_locales
    (auto simp: ber_write_octet_string_tag_enc ber_read_octet_string_tag_enc ber_read_octet_string_tag_safe)

definition ber_read_uint :: "wStream \<Rightarrow> (u32, wStream) res" where
  "ber_read_uint s = and_then (ber_read_integer True s) (\<lambda>v s. Ok (the v) s)"

lemma ber_read_uint_safe: "safe_read ber_read_uint"
  unfolding ber_read_uint_def by (rule safe_call [OF ber_read_integer_safe] safe_rules le_refl)+

interpretation ber_integer: wire_format ber_integer_enc "\<lambda>_. True"
  "\<lambda>s v. and_then (ber_write_integer s v) (\<lambda>_ s. Ok () s)" ber_read_uint
  by unfold_locales
    (auto simp: ber_write_integer_enc ber_read_uint_def ber_read_integer_enc ber_read_uint_safe)

lemma ber_enumerated_enc:
  "stream_ok s \<Longrightarrow> 3 \<le> room s \<Longrightarrow> ber_write_enumerated s v cnt = Ok () (put [10, 1, v] s)"
  "readable s \<Longrightarrow> uint v < uint cnt \<Longrightarrow> remaining s = [10, 1, v] @ rest \<Longrightarrow>
   ber_read_enumerated s cnt = Ok v (skip 3 s)"
  using ber_read_short_length [of "skip 1 s" 1 "v # rest"]
  by (simp_all add: ber_write_enumerated_def ber_read_enumerated_def ber_universal_tag_enc
      ber_length_enc_short [unfolded One_nat_def] stream_read(1) stream_write numeral_3_eq_3)

interpretation ber_enumerated: wire_format "\<lambda>v. [10, 1, v]" "\<lambda>v. uint v < uint cnt"
  "\<lambda>s v. ber_write_enumerated s v cnt" "\<lambda>s. ber_read_enumerated s cnt"
  for cnt
  by unfold_locales (auto simp: ber_enumerated_enc ber_read_enumerated_safe skip_literals)

definition ber_BOOL_enc :: "int \<Rightarrow> u8 list" where
  "ber_BOOL_enc b = [1, 1, if b = 1 then 0xFF else 0]"

lemma length_ber_BOOL_enc [simp]: "length (ber_BOOL_enc b) = 3"
  by (simp add: ber_BOOL_enc_def)

lemma ber_write_BOOL_enc [stream_write]:
  "stream_ok s \<Longrightarrow> 3 \<le> room s \<Longrightarrow> ber_write_BOOL s b = Ok () (put (ber_BOOL_enc b) s)"
  by (simp add: ber_write_BOOL_def ber_BOOL_enc_def ber_universal_tag_enc
      ber_length_enc_short [unfolded One_nat_def] stream_write)

lemma ber_read_BOOL_enc:
  "readable s \<Longrightarrow> remaining s = ber_BOOL_enc b @ rest \<Longrightarrow>
   ber_read_BOOL s = Ok (if b = 1 then 1 else 0) (skip 3 s)"
  using ber_read_short_length [of "skip 1 s" 1 "(if b = 1 then 0xFF else 0) # rest"]
  by (simp add: ber_BOOL_enc_def ber_read_BOOL_def ber_universal_tag_enc
      ber_length_enc_short [unfolded One_nat_def] stream_read(1) numeral_3_eq_3)

interpretation ber_BOOL: wire_format ber_BOOL_enc "\<lambda>b. b = 0 \<or> b = 1" ber_write_BOOL ber_read_BOOL
  by unfold_locales (auto simp: ber_write_BOOL_enc ber_read_BOOL_enc ber_read_BOOL_safe)

section \<open>Properties\<close>

text \<open>
  BER integers: every 32-bit value written by \<open>ber_write_integer\<close>, followed by anything, is
  read back by \<open>ber_read_integer\<close>, which leaves exactly what followed.
\<close>

theorem ber_integer_roundtrip:
  assumes "stream_ok s" "s_pointer s = 0" "6 + length rest \<le> room s"
  shows "\<exists>n t u. ber_write_integer s v = Ok n t \<and>
    ber_read_integer True (deliver (put rest t)) = Ok (Some v) u \<and> readable u \<and> remaining u = rest"
proof -
  have fit: "ber_sizeof_integer v + length rest \<le> room s"
    using assms(3) by (simp add: ber_sizeof_integer_def)
  have d: "readable (deliver (put (ber_integer_enc v @ rest) s))"
    "remaining (deliver (put (ber_integer_enc v @ rest) s)) = ber_integer_enc v @ rest"
    using deliver_put [OF assms(1,2), of "ber_integer_enc v @ rest"] fit by simp_all
  with fit assms(1) show ?thesis by (simp add: stream_write ber_read_integer_enc [OF d])
qed

theorem ber_integer_roundtrip_witness:
  "\<exists>n t u. ber_write_integer (Stream_StaticInit (replicate 8 0) 8) 0x12345678 = Ok n t \<and>
    ber_read_integer True (deliver (put [9] t)) = Ok (Some 0x12345678) u \<and> remaining u = [9]"
  using ber_integer_roundtrip [of "Stream_StaticInit (replicate 8 0) 8" "[9]" "0x12345678"]
  by (auto simp: Stream_StaticInit_def stream_ok_def room_def)

text \<open>
  BER definite lengths and the application, contextual and sequence tags that carry them
  survive the wire for every length of at most 16 bits, whatever the tag number and form.
\<close>

theorem ber_tags_roundtrip:
  assumes "stream_ok s" "s_pointer s = 0" "len \<le> 0xFFFF" "5 + length rest \<le> room s"
  shows "(\<exists>n t u. ber_write_length s len = Ok n t \<and>
      ber_read_length (deliver (put rest t)) = Ok len u \<and> remaining u = rest) \<and>
    (\<exists>t u. ber_write_application_tag s tag len = Ok () t \<and>
      ber_read_application_tag (deliver (put rest t)) tag = Ok len u \<and> remaining u = rest) \<and>
    (\<exists>n t u. ber_write_contextual_tag s tag len pc = Ok n t \<and>
      ber_read_contextual_tag (deliver (put rest t)) tag pc = Ok len u \<and> remaining u = rest) \<and>
    (\<exists>n t u. ber_write_sequence_tag s len = Ok n t \<and>
      ber_read_sequence_tag (deliver (put rest t)) = Ok len u \<and> remaining u = rest)"
proof (intro conjI)
  have size: "ber_sizeof_length len \<le> 3" by (rule ber_sizeof_length_bounds)
  show "\<exists>n t u. ber_write_length s len = Ok n t \<and>
      ber_read_length (deliver (put rest t)) = Ok len u \<and> remaining u = rest"
    using ber_length.roundtrip [OF assms(1,2,3), of rest] assms size
    by (auto simp: and_then_Ok_iff)
  show "\<exists>t u. ber_write_application_tag s tag len = Ok () t \<and>
      ber_read_application_tag (deliver (put rest t)) tag = Ok len u \<and> remaining u = rest"
    using ber_appl.roundtrip [OF assms(1,2,3), of tag rest] assms size
    by (cases "tag > 30") auto
  show "\<exists>n t u. ber_write_contextual_tag s tag len pc = Ok n t \<and>
      ber_read_contextual_tag (deliver (put rest t)) tag pc = Ok len u \<and> remaining u = rest"
    using ber_ctxt.roundtrip [OF assms(1,2,3), of tag pc rest] assms size
    by (auto simp: and_then_Ok_iff ber_sizeof_contextual_tag_def)
  show "\<exists>n t u. ber_write_sequence_tag s len = Ok n t \<and>
      ber_read_sequence_tag (deliver (put rest t)) = Ok len u \<and> remaining u = rest"
    using ber_sequence.roundtrip [OF assms(1,2,3), of rest] assms size
    by (auto simp: and_then_Ok_iff ber_sizeof_sequence_tag_def)
qed

theorem ber_tags_roundtrip_witness:
  "\<exists>t u. ber_write_application_tag (Stream_StaticInit (replicate 8 0) 8) 101 300 = Ok () t \<and>
      ber_read_application_tag (deliver (put [9] t)) 101 = Ok 300 u \<and> remaining u = [9]"
  using ber_tags_roundtrip [of "Stream_StaticInit (replicate 8 0) 8" 300 "[9]" 101]
  by (simp add: Stream_StaticInit_def stream_ok_def room_def)

text \<open>
  The size predictions of \<^verbatim>\<open>ber.c\<close> are exact: each writer advances the pointer by what the
  matching \<open>ber_sizeof\<close> function announces and returns that number, and writes nothing outside
  that range.
\<close>

theorem ber_sizeof_exact:
  assumes "stream_ok s" "8 \<le> room s"
  shows "(\<exists>bs. ber_write_length s len = Ok (ber_sizeof_length len) (put bs s) \<and>
      length bs = ber_sizeof_length len) \<and>
    (\<exists>bs. ber_write_integer s v = Ok (ber_sizeof_integer v) (put bs s) \<and>
      length bs = ber_sizeof_integer v) \<and>
    (\<exists>bs. ber_write_contextual_tag s tag len pc = Ok (ber_sizeof_contextual_tag len) (put bs s) \<and>
      length bs = ber_sizeof_contextual_tag len) \<and>
    (\<exists>bs. ber_write_sequence_tag s len = Ok (ber_sizeof_sequence_tag len) (put bs s) \<and>
      length bs = ber_sizeof_sequence_tag len)"
proof -
  have "ber_sizeof_length len \<le> room s" "ber_sizeof_integer v \<le> room s"
    "ber_sizeof_contextual_tag len \<le> room s" "ber_sizeof_sequence_tag len \<le> room s"
    using assms(2) by (simp_all add: ber_sizeof_length_def ber_sizeof_integer_def
        ber_sizeof_contextual_tag_def ber_sizeof_sequence_tag_def)
  with assms(1) show ?thesis
    by (intro conjI exI [of _ "ber_length_enc len"] exI [of _ "ber_integer_enc v"]
        exI [of _ "ber_ctxt_enc tag pc len"] exI [of _ "ber_sequence_enc len"])
      (simp_all add: stream_write)
qed

theorem ber_sizeof_exact_witness:
  "\<exists>bs. ber_write_integer (Stream_StaticInit (replicate 8 0) 8) 0x9000 =
     Ok 5 (put bs (Stream_StaticInit (replicate 8 0) 8)) \<and> length bs = 5"
  using ber_sizeof_exact [of "Stream_StaticInit (replicate 8 0) 8" 0 "0x9000"]
  by (simp add: Stream_StaticInit_def stream_ok_def room_def ber_sizeof_integer_def)

text \<open>
  C21. Memory safety of the BER readers: on any received bytes they stay inside the stream and
  leave the pointer inside the sealed length, on success and on failure alike.
\<close>

theorem ber_readers_safe:
  "safe_read ber_read_length \<and> safe_read (\<lambda>s. ber_read_universal_tag s tag pc) \<and>
   safe_read (\<lambda>s. ber_read_application_tag s tag) \<and> safe_read (\<lambda>s. ber_read_contextual_tag s tag pc) \<and>
   safe_read ber_read_sequence_tag \<and> safe_read (\<lambda>s. ber_read_enumerated s cnt) \<and>
   safe_read ber_read_bit_string \<and> safe_read ber_read_octet_string_tag \<and> safe_read ber_read_BOOL \<and>
   safe_read (ber_read_integer want) \<and> safe_read ber_read_integer_length"
  by (simp add: ber_read_length_safe ber_read_universal_tag_safe ber_read_application_tag_safe
      ber_read_contextual_tag_safe ber_read_sequence_tag_safe ber_read_enumerated_safe
      ber_read_bit_string_safe ber_read_octet_string_tag_safe ber_read_BOOL_safe
      ber_read_integer_safe ber_read_integer_length_safe)

end
