(* ===== verification/Core_Tpkt.thy ===== *)
theory Core_Tpkt
  imports Wire_Format
begin

text \<open>
  The TPKT header of \<^verbatim>\<open>libfreerdp/core/tpkt.c\<close> and the X.224 TPDU header of
  \<^verbatim>\<open>libfreerdp/core/tpdu.c\<close>, which every PDU of the slow path starts with. A \<open>FALSE\<close> return is
  \<open>Fail\<close>; the out parameters of a successful call are its result.
\<close>

section \<open>The functions\<close>

definition tpkt_verify_header :: "wStream \<Rightarrow> (bool, wStream) res" where
  "tpkt_verify_header s = and_then (Stream_Peek_UINT8 s) (\<lambda>version s. Ok (version = 3) s)"

definition tpkt_read_header :: "wStream \<Rightarrow> (u16, wStream) res" where
  "tpkt_read_header s =
     (if Stream_GetRemainingLength s < 1 then Fail s
      else and_then (Stream_Peek_UINT8 s) (\<lambda>version s.
        if version = 3 then
          (if Stream_GetRemainingLength s < 4 then Fail s
           else and_then (Stream_Read_UINT16_BE (Stream_Seek s 2)) (\<lambda>len s.
             if len < 7 then Fail s
             else if unat len > size_add (Stream_GetRemainingLength s) 4 then Fail s
             else Ok len s))
        else Ok 0 s))"

definition tpkt_ensure_stream_consumed :: "wStream \<Rightarrow> bool" where
  "tpkt_ensure_stream_consumed s = (\<not> Stream_GetRemainingLength s > 0)"

definition tpkt_write_header :: "wStream \<Rightarrow> u16 \<Rightarrow> (unit, wStream) res" where
  "tpkt_write_header s len =
     (if Stream_GetRemainingCapacity s < 4 then Fail s
      else and_then (Stream_Write_UINT8 s 3) (\<lambda>_ s.
           and_then (Stream_Write_UINT8 s 0) (\<lambda>_ s.
           Stream_Write_UINT16_BE s len)))"

definition X224_TPDU_CONNECTION_REQUEST :: u8 where "X224_TPDU_CONNECTION_REQUEST = 0xE0"
definition X224_TPDU_CONNECTION_CONFIRM :: u8 where "X224_TPDU_CONNECTION_CONFIRM = 0xD0"
definition X224_TPDU_DISCONNECT_REQUEST :: u8 where "X224_TPDU_DISCONNECT_REQUEST = 0x80"
definition X224_TPDU_DATA :: u8 where "X224_TPDU_DATA = 0xF0"

lemmas x224_consts = X224_TPDU_CONNECTION_REQUEST_def X224_TPDU_CONNECTION_CONFIRM_def
  X224_TPDU_DISCONNECT_REQUEST_def X224_TPDU_DATA_def

text \<open>The result of the TPDU readers is the pair of the code and the length indicator.\<close>

definition tpdu_read_header :: "wStream \<Rightarrow> u16 \<Rightarrow> (u8 \<times> u8, wStream) res" where
  "tpdu_read_header s tpktlength =
     (if Stream_GetRemainingLength s < 3 then Fail s
      else and_then (Stream_Read_UINT8 s) (\<lambda>li s.
           and_then (Stream_Read_UINT8 s) (\<lambda>code s.
             if uint li + 4 > uint tpktlength then Fail s
             else if code = X224_TPDU_DATA then Ok (code, li) (Stream_Seek s 1)
             else and_then (Stream_SafeSeek s 5) (\<lambda>_ s. Ok (code, li) s))))"

definition tpdu_write_header :: "wStream \<Rightarrow> u16 \<Rightarrow> u8 \<Rightarrow> (unit, wStream) res" where
  "tpdu_write_header s len code =
     and_then (Stream_Write_UINT8 s (ucast len)) (\<lambda>_ s.
     and_then (Stream_Write_UINT8 s code) (\<lambda>_ s.
       if code = X224_TPDU_DATA then Stream_Write_UINT8 s 0x80
       else and_then (Stream_Write_UINT16 s 0) (\<lambda>_ s.
            and_then (Stream_Write_UINT16 s 0) (\<lambda>_ s.
            Stream_Write_UINT8 s 0))))"

definition tpdu_read_connection_request :: "wStream \<Rightarrow> u16 \<Rightarrow> (u8, wStream) res" where
  "tpdu_read_connection_request s tpktlength =
     and_then (tpdu_read_header s tpktlength) (\<lambda>(code, li) s.
       if code \<noteq> X224_TPDU_CONNECTION_REQUEST then Fail s else Ok li s)"

definition tpdu_write_connection_request :: "wStream \<Rightarrow> u16 \<Rightarrow> (unit, wStream) res" where
  "tpdu_write_connection_request s len = tpdu_write_header s len X224_TPDU_CONNECTION_REQUEST"

definition tpdu_read_connection_confirm :: "wStream \<Rightarrow> u16 \<Rightarrow> (u8, wStream) res" where
  "tpdu_read_connection_confirm s tpktlength =
     (let position = Stream_GetPosition s in
      and_then (tpdu_read_header s tpktlength) (\<lambda>(code, li) s.
        if code \<noteq> X224_TPDU_CONNECTION_CONFIRM then Fail s
        else
          let bytes_read = size_sub (size_sub (Stream_GetPosition s) position) 1
          in if Stream_GetRemainingLength s \<ge> size_sub (unat li) bytes_read then Ok li s
             else Fail s))"

definition tpdu_write_connection_confirm :: "wStream \<Rightarrow> u16 \<Rightarrow> (unit, wStream) res" where
  "tpdu_write_connection_confirm s len = tpdu_write_header s len X224_TPDU_CONNECTION_CONFIRM"

definition tpdu_write_disconnect_request :: "wStream \<Rightarrow> u16 \<Rightarrow> (unit, wStream) res" where
  "tpdu_write_disconnect_request s len = tpdu_write_header s len X224_TPDU_DISCONNECT_REQUEST"

definition tpdu_write_data :: "wStream \<Rightarrow> (unit, wStream) res" where
  "tpdu_write_data s = tpdu_write_header s 2 X224_TPDU_DATA"

definition tpdu_read_data :: "wStream \<Rightarrow> u16 \<Rightarrow> (u16, wStream) res" where
  "tpdu_read_data s tpktlength =
     and_then (tpdu_read_header s tpktlength) (\<lambda>(code, li) s.
       if code \<noteq> X224_TPDU_DATA then Fail s else Ok (ucast li) s)"

section \<open>Memory safety\<close>

lemma tpkt_read_header_safe: "safe_read tpkt_read_header"
  unfolding tpkt_read_header_def
  by (rule safe_seek [where g = "\<lambda>s. and_then (Stream_Read_UINT16_BE s) h" for h] safe_rules | simp)+

lemma tpdu_read_header_safe: "safe_read (\<lambda>s. tpdu_read_header s n)"
  unfolding tpdu_read_header_def
  by (rule safe_call [OF safe_SafeSeek [of 0]] safe_rules | simp)+

lemma safe_prod: "(\<And>a b. safe_from n (f a b)) \<Longrightarrow> safe_from n (case p of (a, b) \<Rightarrow> f a b)"
  by (cases p) simp

lemma tpdu_read_connection_request_safe: "safe_read (\<lambda>s. tpdu_read_connection_request s n)"
  unfolding tpdu_read_connection_request_def
  by (rule safe_call [OF tpdu_read_header_safe] safe_prod safe_rules le_refl)+

lemma tpdu_read_data_safe: "safe_read (\<lambda>s. tpdu_read_data s n)"
  unfolding tpdu_read_data_def
  by (rule safe_call [OF tpdu_read_header_safe] safe_prod safe_rules le_refl)+

lemma tpdu_read_connection_confirm_safe: "safe_read (\<lambda>s. tpdu_read_connection_confirm s n)"
  unfolding safe_from_def
proof (intro allI impI)
  fix s assume "readable s"
  then have "wp (tpdu_read_header s n) (\<lambda>_. advances s) (advances s)"
    by (intro safe_fromD [OF tpdu_read_header_safe]) simp_all
  then show "wp (tpdu_read_connection_confirm s n) (\<lambda>_. advances s) (advances s)"
    by (auto simp: tpdu_read_connection_confirm_def Let_def wp_and_then elim!: wp_mono)
qed

section \<open>Headers on the wire\<close>

definition tpkt_enc :: "u16 \<Rightarrow> u8 list" where
  "tpkt_enc len = [3, 0] @ be16 len"

lemma length_tpkt_enc [simp]: "length (tpkt_enc len) = 4"
  by (simp add: tpkt_enc_def)

lemma tpkt_write_header_enc [stream_write]:
  "stream_ok s \<Longrightarrow> tpkt_write_header s len = (if room s < 4 then Fail s else Ok () (put (tpkt_enc len) s))"
  by (simp add: tpkt_write_header_def GetRemainingCapacity_ok stream_write tpkt_enc_def)

lemma tpkt_read_header_enc:
  assumes "readable s" "7 \<le> len" "remaining s = tpkt_enc len @ rest" "unat len \<le> length rest + 4"
  shows "tpkt_read_header s = Ok len (skip 4 s)"
proof -
  have r: "readable (skip 4 s)" using assms by simp
  have "length rest < 2 ^ 63"
    using assms(1) readable_length_remaining [OF assms(1)] assms(3)
    by (auto simp: readable_def stream_ok_def)
  then have "size_add (length rest) 4 = length rest + 4" by (simp add: size_add_def)
  with assms r read_be16 [of "skip 2 s" len rest] show ?thesis
    by (simp add: tpkt_read_header_def tpkt_enc_def stream_read(1) not_less)
qed

text \<open>What an accepted header says: either it is not a TPKT (and nothing is consumed), or the
  announced length is between 7 and the bytes received.\<close>

lemma tpkt_read_header_cases:
  assumes "readable s" "tpkt_read_header s = Ok len t"
  shows "(remaining s ! 0 \<noteq> 3 \<and> len = 0 \<and> t = s \<or>
          remaining s ! 0 = 3 \<and> 7 \<le> unat len \<and> unat len \<le> length (remaining s) \<and> t = skip 4 s)
         \<and> remaining s \<noteq> []"
proof -
  have "size_add (length (remaining s) - 4) 4 \<le> length (remaining s)" if "4 \<le> length (remaining s)"
    using that by (simp add: size_add_def)
  with assms show ?thesis
    by (auto simp: tpkt_read_header_def stream_read Suc_le_eq word_less_nat_alt not_less
        split: if_splits)
qed

definition tpdu_enc :: "u8 \<times> u8 \<Rightarrow> u8 list" where
  "tpdu_enc = (\<lambda>(code, li). [li, code] @ (if code = X224_TPDU_DATA then [0x80] else [0, 0, 0, 0, 0]))"

lemma tpdu_write_header_enc [stream_write]:
  "stream_ok s \<Longrightarrow> length (tpdu_enc (code, ucast len)) \<le> room s \<Longrightarrow>
   tpdu_write_header s len code = Ok () (put (tpdu_enc (code, ucast len)) s)"
  by (simp add: tpdu_write_header_def tpdu_enc_def stream_write le16_def split: if_splits)

lemma tpdu_read_header_enc:
  assumes "readable s" "uint li + 4 \<le> uint n" "remaining s = tpdu_enc (code, li) @ rest"
  shows "tpdu_read_header s n = Ok (code, li) (skip (length (tpdu_enc (code, li))) s)"
  using assms
  by (simp add: tpdu_read_header_def tpdu_enc_def stream_read(1) Stream_SafeSeek_readable
      split: if_splits) (simp_all add: eval_nat_numeral)

interpretation tpdu: wire_format tpdu_enc "\<lambda>(code, li). uint li + 4 \<le> uint n"
  "\<lambda>s (code, li). tpdu_write_header s (ucast li) code" "\<lambda>s. tpdu_read_header s n"
  for n
proof unfold_locales
  fix s and v :: "u8 \<times> u8"
  obtain code li where v: "v = (code, li)" by (cases v)
  have u: "ucast (ucast li :: u16) = li"
    by (rule bit_word_eqI) (auto simp: bit_simps)
  show "(case v of (code, li) \<Rightarrow> tpdu_write_header s (ucast li) code) = Ok () (put (tpdu_enc v) s)"
    if "stream_ok s" "length (tpdu_enc v) \<le> room s"
    using that unfolding v prod.case by (subst tpdu_write_header_enc) (simp_all add: u)
  show "tpdu_read_header s n = Ok v (skip (length (tpdu_enc v)) s)"
    if "readable s" "case v of (code, li) \<Rightarrow> uint li + 4 \<le> uint n" "remaining s = tpdu_enc v @ rest"
    for rest
    using that unfolding v prod.case by (rule tpdu_read_header_enc)
qed (rule tpdu_read_header_safe)

text \<open>The prefix of every data PDU: TPKT header and data TPDU.\<close>

lemma slow_path_header_enc:
  assumes "readable s" "remaining s = (tpkt_enc len @ tpdu_enc (X224_TPDU_DATA, 2)) @ rest"
    "unat len = length rest + 7"
  shows "and_then (tpkt_read_header s) (\<lambda>len s. and_then (tpdu_read_data s len) (\<lambda>li s. Ok (len, li) s))
     = Ok (len, 2) (skip 7 s)"
proof -
  have "tpkt_read_header s = Ok len (skip 4 s)"
    using assms
    by (intro tpkt_read_header_enc [of s len "tpdu_enc (X224_TPDU_DATA, 2) @ rest"])
      (auto simp: word_le_nat_alt tpdu_enc_def)
  moreover have "uint (2 :: u8) + 4 \<le> uint len" using assms(3) by (simp add: uint_nat)
  then have "tpdu_read_header (skip 4 s) len = Ok (X224_TPDU_DATA, 2) (skip 7 s)"
    using assms tpdu_read_header_enc [of "skip 4 s" 2 len X224_TPDU_DATA rest] 
    by (simp add: tpdu_enc_def eval_nat_numeral)
  ultimately show ?thesis by (simp add: tpdu_read_data_def)
qed

lemma tpdu_read_header_cases:
  assumes "readable s" "tpdu_read_header s n = Ok (code, li) t"
  shows "uint li + 4 \<le> uint n \<and> remaining s ! 0 = li \<and> remaining s ! 1 = code \<and>
    t = skip (if code = X224_TPDU_DATA then 3 else 7) s \<and>
    (if code = X224_TPDU_DATA then 3 else 7) \<le> length (remaining s)"
  using assms
  by (auto simp: tpdu_read_header_def stream_read Stream_SafeSeek_readable not_less skip_literals
      split: if_splits)

lemma tpdu_read_connection_confirm_li:
  assumes "readable s" "tpdu_read_connection_confirm s n = Ok li t"
  shows "6 \<le> unat li \<and> t = skip 7 s \<and> unat li < length (remaining s) \<and> uint li + 4 \<le> uint n"
proof -
  have pos: "size_sub (size_sub (s_pointer (skip 7 s)) (s_pointer s)) (Suc 0) = 6"
    by (simp add: size_sub_def skip_def)
  from assms(2) have h: "tpdu_read_header s n = Ok (X224_TPDU_CONNECTION_CONFIRM, li) t"
    "Stream_GetRemainingLength t \<ge>
      size_sub (unat li) (size_sub (size_sub (s_pointer t) (s_pointer s)) 1)"
    by (auto simp: tpdu_read_connection_confirm_def Let_def and_then_Ok_iff Stream_GetPosition_def
        split: if_splits)
  note c = tpdu_read_header_cases [OF assms(1) h(1)]
  then have t: "t = skip 7 s" "7 \<le> length (remaining s)" "uint li + 4 \<le> uint n"
    by (simp_all add: x224_consts)
  have len: "length (remaining s) < 2 ^ 63"
    using readable_length_remaining [OF assms(1)] assms(1) by (auto simp: readable_def stream_ok_def)
  have "size_sub (unat li) 6 \<le> length (remaining s) - 7"
    using h(2) t assms(1) by (simp add: pos)
  moreover have "6 \<le> unat li"
    using calculation len by (auto simp: size_sub_def split: if_splits)
  ultimately show ?thesis using t by (simp add: size_sub_def)
qed

section \<open>Properties\<close>

text \<open>
  C22. Soundness of the TPKT check: an accepted header is either no TPKT header, and then nothing
  is consumed, or announces a length between 7 and the number of bytes received.
\<close>

theorem tpkt_read_header_sound:
  assumes "readable s" "tpkt_read_header s = Ok len t"
  shows "remaining s \<noteq> [] \<and>
    (if remaining s ! 0 = 3 then 7 \<le> unat len \<and> unat len \<le> length (remaining s) \<and> t = skip 4 s
     else len = 0 \<and> t = s)"
  using tpkt_read_header_cases [OF assms] by auto

theorem tpkt_read_header_sound_witness:
  "7 \<le> unat (7 :: u16) \<and> (\<exists>t. tpkt_read_header (Stream_StaticInit [3, 0, 0, 7, 2, 0xF0, 0x80] 7) = Ok 7 t \<and>
     t = skip 4 (Stream_StaticInit [3, 0, 0, 7, 2, 0xF0, 0x80] 7))"
proof -
  let ?s = "Stream_StaticInit [3, 0, 0, 7, 2, 0xF0, 0x80] 7"
  have s: "readable ?s" "remaining ?s = [3, 0, 0, 7, 2, 0xF0, 0x80]"
    by (simp_all add: Stream_StaticInit_def readable_def stream_ok_def remaining_def)
  then have "tpkt_read_header ?s = Ok 7 (skip 4 ?s)"
    by (intro tpkt_read_header_enc [of _ _ "[2, 0xF0, 0x80]"]) (simp_all add: tpkt_enc_def be16_def)
  with tpkt_read_header_sound [OF s(1) this] s(2) show ?thesis by simp
qed

text \<open>
  The framing of data PDUs: after \<open>tpkt_write_header\<close> with the length of the whole PDU and
  \<open>tpdu_write_data\<close>, the peer reads back that length and the length indicator 2, and is left with
  exactly the payload.
\<close>

theorem slow_path_framing:
  assumes "stream_ok s" "s_pointer s = 0" "unat len = length payload + 7" "unat len \<le> room s"
  shows "\<exists>t u v. tpkt_write_header s len = Ok () t \<and> tpdu_write_data t = Ok () u \<and>
     and_then (tpkt_read_header (deliver (put payload u))) (\<lambda>len s.
       and_then (tpdu_read_data s len) (\<lambda>li s. Ok (len, li) s)) = Ok (len, 2) v \<and>
     readable v \<and> remaining v = payload"
proof -
  let ?h = "tpkt_enc len @ tpdu_enc (X224_TPDU_DATA, 2)"
  have seven: "length ?h = 7" by (simp add: tpdu_enc_def)
  have room: "7 + length payload \<le> room s" using assms(3,4) by simp
  have d: "readable (deliver (put (?h @ payload) s))"
    "remaining (deliver (put (?h @ payload) s)) = ?h @ payload"
    using deliver_put [OF assms(1,2), of "?h @ payload"] room seven by simp_all
  have w: "tpkt_write_header s len = Ok () (put (tpkt_enc len) s)"
    "tpdu_write_data (put (tpkt_enc len) s) = Ok () (put ?h s)"
    using assms(1) room by (simp_all add: stream_write tpdu_write_data_def tpdu_enc_def)
  have "put payload (put ?h s) = put (?h @ payload) s"
    using assms(1) room seven by (subst put_put) simp_all
  with w slow_path_header_enc [OF d assms(3)] show ?thesis
    using d seven by simp
qed

theorem slow_path_framing_witness:
  "\<exists>t u v. tpkt_write_header (Stream_StaticInit (replicate 16 0) 16) 9 = Ok () t \<and>
     tpdu_write_data t = Ok () u \<and>
     and_then (tpkt_read_header (deliver (put [1, 2] u))) (\<lambda>len s.
       and_then (tpdu_read_data s len) (\<lambda>li s. Ok (len, li) s)) = Ok (9, 2) v \<and>
     remaining v = [1, 2]"
  using slow_path_framing [of "Stream_StaticInit (replicate 16 0) 16" 9 "[1, 2]"]
  by (auto simp: Stream_StaticInit_def stream_ok_def room_def)

text \<open>
  The connection confirm check: when \<open>tpdu_read_connection_confirm\<close> succeeds, the length
  indicator covers the fixed part, fits the TPKT length, and the variable part it announces has
  been received in full.
\<close>

theorem tpdu_connection_confirm_complete:
  assumes "readable s" "tpdu_read_connection_confirm s n = Ok li t"
  shows "6 \<le> unat li \<and> uint li + 4 \<le> uint n \<and> t = skip 7 s \<and> unat li - 6 \<le> length (remaining t)"
  using tpdu_read_connection_confirm_li [OF assms] by auto

theorem tpdu_connection_confirm_complete_witness:
  "\<exists>t. tpdu_read_connection_confirm (Stream_StaticInit [6, 0xD0, 0, 0, 0, 0, 0] 7) 11 = Ok 6 t \<and>
     t = skip 7 (Stream_StaticInit [6, 0xD0, 0, 0, 0, 0, 0] 7)"
proof -
  let ?s = "Stream_StaticInit [6, 0xD0, 0, 0, 0, 0, 0] 7"
  have s: "readable ?s" by (simp add: Stream_StaticInit_def readable_def stream_ok_def)
  have "tpdu_read_header ?s 11 = Ok (0xD0, 6) (skip 7 ?s)"
    using tpdu_read_header_enc [OF s, of 6 11 "0xD0" "[]"]
    by (simp add: remaining_def Stream_StaticInit_def tpdu_enc_def x224_consts skip_def)
  then have "tpdu_read_connection_confirm ?s 11 = Ok 6 (skip 7 ?s)"
    by (simp add: tpdu_read_connection_confirm_def x224_consts size_sub_def Stream_GetPosition_def skip_def
        Stream_StaticInit_def)
  with tpdu_connection_confirm_complete [OF s] show ?thesis by blast
qed

end
