(* ===== verification/Core_Settings.thy ===== *)
theory Core_Settings
  imports Rdp_Prelude
begin

text \<open>
  The part of \<open>rdpSettings\<close> of \<^verbatim>\<open>include/freerdp/settings.h\<close> that the negotiation, the MCS layer and the GCC
  data blocks read and write. Strings are byte lists without their terminator; an array is a list, and
  the size of the monitor array is the length of its list. \<open>RdpServerCertificate\<close> is kept as the bytes it
  was parsed from.
\<close>

record MONITOR_ATTRIBUTES =
  physicalWidth :: u32
  physicalHeight :: u32
  orientation :: u32
  desktopScaleFactor :: u32
  deviceScaleFactor :: u32

record rdpMonitor =
  mon_x :: u32
  mon_y :: u32
  mon_width :: u32
  mon_height :: u32
  mon_is_primary :: u32
  mon_orig_screen :: u32
  mon_attributes :: MONITOR_ATTRIBUTES

record CHANNEL_DEF =
  cd_name :: "u8 list"
  cd_options :: u32

record rdpRsaKey =
  rsa_Modulus :: "u8 list"
  rsa_ModulusLength :: u32
  rsa_exponent :: "u8 list"

record rdpSettings =
  ServerMode :: bool
  RdpVersion :: u32
  DesktopWidth :: u32
  DesktopHeight :: u32
  ColorDepth :: u32
  ConnectionType :: u32
  ClientBuild :: u32
  ClientHostname :: "u8 list option"
  ClientProductId :: "u8 list option"
  EarlyCapabilityFlags :: u32
  NetworkAutoDetect :: bool
  SupportErrorInfoPdu :: bool
  SupportStatusInfoPdu :: bool
  SupportMonitorLayoutPdu :: bool
  SupportGraphicsPipeline :: bool
  SupportDynamicTimeZone :: bool
  SupportHeartbeatPdu :: bool
  DesktopPhysicalWidth :: u32
  DesktopPhysicalHeight :: u32
  DesktopOrientation :: u16
  DesktopScaleFactor :: u32
  DeviceScaleFactor :: u32
  UseRdpSecurityLayer :: bool
  EncryptionMethods :: u32
  EncryptionLevel :: u32
  ServerRandom :: "u8 list option"
  ServerRandomLength :: u32
  ServerCertificate :: "u8 list option"
  ServerCertificateLength :: u32
  ChannelCount :: u32
  ChannelDefArray :: "CHANNEL_DEF list"
  ConsoleSession :: bool
  RedirectedSessionId :: u32
  RedirectSmartCards :: bool
  MonitorCount :: u32
  MonitorDefArray :: "rdpMonitor list"
  HasMonitorAttributes :: bool
  UseMultimon :: bool
  SpanMonitors :: bool
  ForceMultimon :: bool
  MultitransportFlags :: u32
  SupportMultitransport :: bool
  KeyboardLayout :: u32
  KeyboardType :: u32
  KeyboardSubType :: u32
  KeyboardFunctionKey :: u32
  TlsSecurity :: bool
  NlaSecurity :: bool
  RdpSecurity :: bool
  RequestedProtocols :: u32
  SelectedProtocol :: u32
  NegotiationFlags :: u32
  LocalConnection :: bool
  RdpKeyFile :: bool
  RdpKeyContent :: bool
  RdpServerRsaKey :: "rdpRsaKey option"
  RdpServerCertificate :: "u8 list option"
  TcpConnectTimeout :: u32

text \<open>Settings in which every number is 0, every flag off and every pointer null.\<close>

definition zero_settings :: rdpSettings where
  "zero_settings = \<lparr>ServerMode = False, RdpVersion = 0, DesktopWidth = 0, DesktopHeight = 0, ColorDepth = 0,
     ConnectionType = 0, ClientBuild = 0, ClientHostname = None, ClientProductId = None, EarlyCapabilityFlags = 0,
     NetworkAutoDetect = False, SupportErrorInfoPdu = False, SupportStatusInfoPdu = False,
     SupportMonitorLayoutPdu = False, SupportGraphicsPipeline = False, SupportDynamicTimeZone = False,
     SupportHeartbeatPdu = False, DesktopPhysicalWidth = 0, DesktopPhysicalHeight = 0, DesktopOrientation = 0,
     DesktopScaleFactor = 0, DeviceScaleFactor = 0, UseRdpSecurityLayer = False, EncryptionMethods = 0,
     EncryptionLevel = 0, ServerRandom = None, ServerRandomLength = 0, ServerCertificate = None,
     ServerCertificateLength = 0, ChannelCount = 0, ChannelDefArray = [], ConsoleSession = False,
     RedirectedSessionId = 0, RedirectSmartCards = False, MonitorCount = 0, MonitorDefArray = [],
     HasMonitorAttributes = False, UseMultimon = False, SpanMonitors = False, ForceMultimon = False,
     MultitransportFlags = 0, SupportMultitransport = False, KeyboardLayout = 0, KeyboardType = 0,
     KeyboardSubType = 0, KeyboardFunctionKey = 0, TlsSecurity = False, NlaSecurity = False, RdpSecurity = False,
     RequestedProtocols = 0, SelectedProtocol = 0, NegotiationFlags = 0, LocalConnection = False,
     RdpKeyFile = False, RdpKeyContent = False, RdpServerRsaKey = None, RdpServerCertificate = None,
     TcpConnectTimeout = 0\<rparr>"

end
