(* ===== verification/Core_Mcs.thy ===== *)
theory Core_Mcs
  imports Core_Gcc Crypto_Ber Core_Tpkt Core_Settings
begin

text \<open>
  The T.125 multipoint communication service of \<^verbatim>\<open>libfreerdp/core/mcs.c\<close>: domain parameters, the
  connect PDUs and the domain PDUs a connection is set up with. The functions are only called with
  live objects, so their \<open>NULL\<close> guards are not represented. The receivers thread the session
  object \<open>rdpMcs\<close> and the stream; the senders thread the session object and the list of
  PDUs handed to the transport. \<open>tw\<close> answers for \<open>transport_write\<close>, which sends the bytes up to the
  stream position, and the \<open>blocks\<close> parameters for the readers and writers of GCC data blocks.
\<close>

section \<open>Session state\<close>

record DomainParameters =
  maxChannelIds :: u32
  maxUserIds :: u32
  maxTokenIds :: u32
  numPriorities :: u32
  minThroughput :: u32
  maxHeight :: u32
  maxMCSPDUsize :: u32
  protocolVersion :: u32

record rdpMcsChannel =
  ch_Name :: "u8 list"
  ch_options :: u32
  ch_ChannelId :: int
  ch_joined :: bool
  ch_handle :: "nat option"

record rdpMcs =
  mcs_userId :: u16
  mcs_baseChannelId :: u16
  mcs_messageChannelId :: u16
  mcs_domainParameters :: DomainParameters
  mcs_targetParameters :: DomainParameters
  mcs_minimumParameters :: DomainParameters
  mcs_maximumParameters :: DomainParameters
  mcs_userChannelJoined :: bool
  mcs_globalChannelJoined :: bool
  mcs_messageChannelJoined :: bool
  mcs_channelCount :: u32
  mcs_channelMaxCount :: u32
  mcs_channels :: "rdpMcsChannel list"
  mcs_settings :: rdpSettings

definition MCS_BASE_CHANNEL_ID :: u16 where "MCS_BASE_CHANNEL_ID = 1001"
definition MCS_GLOBAL_CHANNEL_ID :: u16 where "MCS_GLOBAL_CHANNEL_ID = 1003"
definition CHANNEL_MAX_COUNT :: u32 where "CHANNEL_MAX_COUNT = 31"
definition MCS_TYPE_CONNECT_INITIAL :: u8 where "MCS_TYPE_CONNECT_INITIAL = 0x65"
definition MCS_TYPE_CONNECT_RESPONSE :: u8 where "MCS_TYPE_CONNECT_RESPONSE = 0x66"

definition DomainMCSPDU_ErectDomainRequest :: u8 where "DomainMCSPDU_ErectDomainRequest = 1"
definition DomainMCSPDU_DisconnectProviderUltimatum :: u8 where "DomainMCSPDU_DisconnectProviderUltimatum = 8"
definition DomainMCSPDU_AttachUserRequest :: u8 where "DomainMCSPDU_AttachUserRequest = 10"
definition DomainMCSPDU_AttachUserConfirm :: u8 where "DomainMCSPDU_AttachUserConfirm = 11"
definition DomainMCSPDU_ChannelJoinRequest :: u8 where "DomainMCSPDU_ChannelJoinRequest = 14"
definition DomainMCSPDU_ChannelJoinConfirm :: u8 where "DomainMCSPDU_ChannelJoinConfirm = 15"

lemmas mcs_consts = MCS_BASE_CHANNEL_ID_def MCS_GLOBAL_CHANNEL_ID_def CHANNEL_MAX_COUNT_def
  MCS_TYPE_CONNECT_INITIAL_def MCS_TYPE_CONNECT_RESPONSE_def MCS_Result_enum_length_def
  DomainMCSPDU_ErectDomainRequest_def DomainMCSPDU_DisconnectProviderUltimatum_def
  DomainMCSPDU_AttachUserRequest_def DomainMCSPDU_AttachUserConfirm_def
  DomainMCSPDU_ChannelJoinRequest_def DomainMCSPDU_ChannelJoinConfirm_def

definition zero_channel :: rdpMcsChannel where
  "zero_channel = \<lparr>ch_Name = replicate 8 0, ch_options = 0, ch_ChannelId = 0, ch_joined = False,
                   ch_handle = None\<rparr>"

definition mcs_initialize_client_channels :: "rdpMcs \<Rightarrow> rdpSettings \<Rightarrow> (unit, rdpMcs) res" where
  "mcs_initialize_client_channels mcs settings =
     (let count = (if ChannelCount settings > mcs_channelMaxCount mcs then mcs_channelMaxCount mcs
                   else ChannelCount settings)
      in if unat (mcs_channelMaxCount mcs) \<le> length (mcs_channels mcs) \<and>
            unat count \<le> length (ChannelDefArray settings)
         then Ok () (mcs\<lparr>mcs_channelCount := count,
           mcs_channels := fold (\<lambda>index channels.
               channels[index := (channels ! index)
                 \<lparr>ch_Name := take 8 (cd_name (ChannelDefArray settings ! index)),
                  ch_options := cd_options (ChannelDefArray settings ! index)\<rparr>])
             [0..<unat count]
             (blit (mcs_channels mcs) 0 (replicate (unat (mcs_channelMaxCount mcs)) zero_channel))\<rparr>)
         else Fault)"

section \<open>Headers and domain parameters\<close>

definition mcs_read_domain_mcspdu_header :: "wStream \<Rightarrow> u8 \<Rightarrow> (u16, wStream) res" where
  "mcs_read_domain_mcspdu_header s MCSPDU =
     and_then (tpkt_read_header s) (\<lambda>len s.
     and_then (tpdu_read_data s len) (\<lambda>li s.
     and_then (per_read_choice s) (\<lambda>choice s.
       if drop_bit 2 choice \<noteq> MCSPDU then Fail s else Ok len s)))"

definition mcs_write_domain_mcspdu_header ::
  "wStream \<Rightarrow> u8 \<Rightarrow> u16 \<Rightarrow> u8 \<Rightarrow> (unit, wStream) res" where
  "mcs_write_domain_mcspdu_header s domainMCSPDU len options =
     and_then (ignore_failure (tpkt_write_header s len)) (\<lambda>_ s.
     and_then (tpdu_write_data s) (\<lambda>_ s.
     per_write_choice s (push_bit 2 domainMCSPDU OR options)))"

definition mcs_init_domain_parameters :: "u32 \<Rightarrow> u32 \<Rightarrow> u32 \<Rightarrow> u32 \<Rightarrow> DomainParameters" where
  "mcs_init_domain_parameters channelIds userIds tokenIds pduSize =
     \<lparr>maxChannelIds = channelIds, maxUserIds = userIds, maxTokenIds = tokenIds, numPriorities = 1,
      minThroughput = 0, maxHeight = 1, maxMCSPDUsize = pduSize, protocolVersion = 2\<rparr>"

text \<open>\<open>ber_read_integer(s, &dp->field)\<close>: the field is stored when the call succeeds.\<close>

definition read_field ::
  "(u32 \<Rightarrow> 'd \<Rightarrow> 'd) \<Rightarrow> 'd \<Rightarrow> wStream \<Rightarrow> (unit, 'd \<times> wStream) res" where
  "read_field store dp s =
     and_then (on_stream dp (ber_read_uint s)) (\<lambda>v (dp, s). Ok () (store v dp, s))"

definition mcs_read_domain_parameters ::
  "DomainParameters \<Rightarrow> wStream \<Rightarrow> (unit, DomainParameters \<times> wStream) res" where
  "mcs_read_domain_parameters dp s =
     and_then (on_stream dp (ber_read_sequence_tag s)) (\<lambda>_ (dp, s).
     and_then (read_field (\<lambda>v. maxChannelIds_update (\<lambda>_. v)) dp s) (\<lambda>_ (dp, s).
     and_then (read_field (\<lambda>v. maxUserIds_update (\<lambda>_. v)) dp s) (\<lambda>_ (dp, s).
     and_then (read_field (\<lambda>v. maxTokenIds_update (\<lambda>_. v)) dp s) (\<lambda>_ (dp, s).
     and_then (read_field (\<lambda>v. numPriorities_update (\<lambda>_. v)) dp s) (\<lambda>_ (dp, s).
     and_then (read_field (\<lambda>v. minThroughput_update (\<lambda>_. v)) dp s) (\<lambda>_ (dp, s).
     and_then (read_field (\<lambda>v. maxHeight_update (\<lambda>_. v)) dp s) (\<lambda>_ (dp, s).
     and_then (read_field (\<lambda>v. maxMCSPDUsize_update (\<lambda>_. v)) dp s) (\<lambda>_ (dp, s).
     read_field (\<lambda>v. protocolVersion_update (\<lambda>_. v)) dp s))))))))"

definition mcs_write_domain_parameters ::
  "stream_oracle \<Rightarrow> wStream \<Rightarrow> DomainParameters \<Rightarrow> (unit, wStream) res" where
  "mcs_write_domain_parameters ora s dp =
     with_stream ora (s_capacity s) s (\<lambda>tmps.
     then_free
       (and_then (ber_write_integer tmps (maxChannelIds dp)) (\<lambda>_ tmps.
        and_then (ber_write_integer tmps (maxUserIds dp)) (\<lambda>_ tmps.
        and_then (ber_write_integer tmps (maxTokenIds dp)) (\<lambda>_ tmps.
        and_then (ber_write_integer tmps (numPriorities dp)) (\<lambda>_ tmps.
        and_then (ber_write_integer tmps (minThroughput dp)) (\<lambda>_ tmps.
        and_then (ber_write_integer tmps (maxHeight dp)) (\<lambda>_ tmps.
        and_then (ber_write_integer tmps (maxMCSPDUsize dp)) (\<lambda>_ tmps.
        ber_write_integer tmps (protocolVersion dp)))))))))
       s
       (\<lambda>tmps. and_then (ber_write_sequence_tag s (Stream_GetPosition tmps)) (\<lambda>_ s.
          Stream_Write s (s_buffer tmps) (Stream_GetPosition tmps))))"

text \<open>
  The values \<open>mcs_merge_domain_parameters\<close> chooses, field by field; \<open>None\<close> is its \<open>return FALSE\<close>, at
  which point the fields before are already stored.
\<close>

definition merge_maxChannelIds :: "DomainParameters \<Rightarrow> DomainParameters \<Rightarrow> u32 option" where
  "merge_maxChannelIds target maximum =
     (if maxChannelIds target \<ge> 4 then Some (maxChannelIds target)
      else if maxChannelIds maximum \<ge> 4 then Some 4 else None)"

definition merge_maxUserIds :: "DomainParameters \<Rightarrow> DomainParameters \<Rightarrow> u32 option" where
  "merge_maxUserIds target maximum =
     (if maxUserIds target \<ge> 3 then Some (maxUserIds target)
      else if maxUserIds maximum \<ge> 3 then Some 3 else None)"

definition merge_numPriorities :: "DomainParameters \<Rightarrow> u32 option" where
  "merge_numPriorities minimum = (if numPriorities minimum \<le> 1 then Some 1 else None)"

definition merge_maxHeight :: "DomainParameters \<Rightarrow> DomainParameters \<Rightarrow> u32 option" where
  "merge_maxHeight target minimum =
     (if maxHeight target = 1 \<or> maxHeight minimum \<le> 1 then Some 1 else None)"

definition merge_maxMCSPDUsize ::
  "DomainParameters \<Rightarrow> DomainParameters \<Rightarrow> DomainParameters \<Rightarrow> u32 option" where
  "merge_maxMCSPDUsize target minimum maximum =
     (if maxMCSPDUsize target \<ge> 1024 then
        (if maxMCSPDUsize target \<le> 65528 then Some (maxMCSPDUsize target)
         else if maxMCSPDUsize minimum \<ge> 124 \<and> maxMCSPDUsize minimum \<le> 65528 then Some 65528
         else None)
      else if maxMCSPDUsize maximum \<ge> 124 then Some (maxMCSPDUsize maximum)
      else None)"

definition merge_protocolVersion ::
  "DomainParameters \<Rightarrow> DomainParameters \<Rightarrow> DomainParameters \<Rightarrow> u32 option" where
  "merge_protocolVersion target minimum maximum =
     (if protocolVersion target = 2 \<or> (protocolVersion minimum \<le> 2 \<and> protocolVersion maximum \<ge> 2)
      then Some 2 else None)"

definition store_field :: "'v option \<Rightarrow> ('v \<Rightarrow> 'd \<Rightarrow> 'd) \<Rightarrow> 'd \<Rightarrow> (unit, 'd) res" where
  "store_field choice store out =
     (case choice of None \<Rightarrow> Fail out | Some v \<Rightarrow> Ok () (store v out))"

definition mcs_merge_domain_parameters ::
  "DomainParameters \<Rightarrow> DomainParameters \<Rightarrow> DomainParameters \<Rightarrow> DomainParameters \<Rightarrow>
   (unit, DomainParameters) res" where
  "mcs_merge_domain_parameters target minimum maximum out =
     and_then (store_field (merge_maxChannelIds target maximum) (\<lambda>v. maxChannelIds_update (\<lambda>_. v)) out) (\<lambda>_ out.
     and_then (store_field (merge_maxUserIds target maximum) (\<lambda>v. maxUserIds_update (\<lambda>_. v)) out) (\<lambda>_ out.
     let out = out\<lparr>maxTokenIds := maxTokenIds target\<rparr> in
     and_then (store_field (merge_numPriorities minimum) (\<lambda>v. numPriorities_update (\<lambda>_. v)) out) (\<lambda>_ out.
     let out = out\<lparr>minThroughput := minThroughput target\<rparr> in
     and_then (store_field (merge_maxHeight target minimum) (\<lambda>v. maxHeight_update (\<lambda>_. v)) out) (\<lambda>_ out.
     and_then (store_field (merge_maxMCSPDUsize target minimum maximum) (\<lambda>v. maxMCSPDUsize_update (\<lambda>_. v)) out)
       (\<lambda>_ out.
     store_field (merge_protocolVersion target minimum maximum) (\<lambda>v. protocolVersion_update (\<lambda>_. v)) out)))))"

lemma store_field_wp: "wp (store_field c f out) Q R = (case c of None \<Rightarrow> R out | Some v \<Rightarrow> Q () (f v out))"
  by (simp add: store_field_def split: option.splits)

lemma store_field_Ok: "store_field c f out = Ok u d \<longleftrightarrow> (\<exists>v. c = Some v \<and> d = f v out)"
  by (auto simp: store_field_def split: option.splits)

section \<open>Connect PDUs\<close>

text \<open>A call that works on a part of the session object.\<close>

definition in_part :: "('d \<Rightarrow> 'm) \<Rightarrow> ('a, 'd \<times> wStream) res \<Rightarrow> ('a, 'm \<times> wStream) res" where
  "in_part store r =
     (case r of Fault \<Rightarrow> Fault | Fail (d, s) \<Rightarrow> Fail (store d, s) | Ok a (d, s) \<Rightarrow> Ok a (store d, s))"

definition in_object :: "('d \<Rightarrow> 'm) \<Rightarrow> wStream \<Rightarrow> ('a, 'd) res \<Rightarrow> ('a, 'm \<times> wStream) res" where
  "in_object store s r =
     (case r of Fault \<Rightarrow> Fault | Fail d \<Rightarrow> Fail (store d, s) | Ok a d \<Rightarrow> Ok a (store d, s))"

definition skip_octet_string :: "rdpMcs \<Rightarrow> wStream \<Rightarrow> (unit, rdpMcs \<times> wStream) res" where
  "skip_octet_string mcs s =
     and_then (on_stream mcs (ber_read_octet_string_tag s)) (\<lambda>len (mcs, s).
       if Stream_GetRemainingLength s < len then Fail (mcs, s) else Ok () (mcs, Stream_Seek s len))"

definition mcs_recv_connect_initial ::
  "(rdpMcs \<Rightarrow> wStream \<Rightarrow> u16 \<Rightarrow> (unit, rdpMcs \<times> wStream) res) \<Rightarrow> rdpMcs \<Rightarrow> wStream \<Rightarrow>
   (unit, rdpMcs \<times> wStream) res" where
  "mcs_recv_connect_initial blocks mcs s =
     and_then (on_stream mcs (tpkt_read_header s)) (\<lambda>tlength (mcs, s).
     and_then (on_stream mcs (tpdu_read_data s tlength)) (\<lambda>li (mcs, s).
     and_then (on_stream mcs (ber_read_application_tag s MCS_TYPE_CONNECT_INITIAL)) (\<lambda>len (mcs, s).
     and_then (skip_octet_string mcs s) (\<lambda>_ (mcs, s).
     and_then (skip_octet_string mcs s) (\<lambda>_ (mcs, s).
     and_then (on_stream mcs (ber_read_BOOL s)) (\<lambda>upwardFlag (mcs, s).
     and_then (in_part (\<lambda>dp. mcs\<lparr>mcs_targetParameters := dp\<rparr>)
                 (mcs_read_domain_parameters (mcs_targetParameters mcs) s)) (\<lambda>_ (mcs, s).
     and_then (in_part (\<lambda>dp. mcs\<lparr>mcs_minimumParameters := dp\<rparr>)
                 (mcs_read_domain_parameters (mcs_minimumParameters mcs) s)) (\<lambda>_ (mcs, s).
     and_then (in_part (\<lambda>dp. mcs\<lparr>mcs_maximumParameters := dp\<rparr>)
                 (mcs_read_domain_parameters (mcs_maximumParameters mcs) s)) (\<lambda>_ (mcs, s).
     and_then (on_stream mcs (ber_read_octet_string_tag s)) (\<lambda>len (mcs, s).
       if Stream_GetRemainingLength s < len then Fail (mcs, s)
       else
         and_then (gcc_read_conference_create_request blocks mcs s) (\<lambda>_ (mcs, s).
         and_then (in_object (\<lambda>dp. mcs\<lparr>mcs_domainParameters := dp\<rparr>) s
                     (mcs_merge_domain_parameters (mcs_targetParameters mcs) (mcs_minimumParameters mcs)
                        (mcs_maximumParameters mcs) (mcs_domainParameters mcs))) (\<lambda>_ (mcs, s).
         if tpkt_ensure_stream_consumed s then Ok () (mcs, s) else Fail (mcs, s)))))))))))))"

definition callingDomainSelector :: "u8 list" where "callingDomainSelector = [1]"
definition calledDomainSelector :: "u8 list" where "calledDomainSelector = [1]"

definition mcs_write_connect_initial ::
  "(nat \<Rightarrow> stream_oracle) \<Rightarrow> wStream \<Rightarrow> rdpMcs \<Rightarrow> wStream \<Rightarrow> (unit, wStream) res" where
  "mcs_write_connect_initial ora s mcs userData =
     with_stream (ora 0) (s_capacity s) s (\<lambda>tmps.
     then_free
       (and_then (ber_write_octet_string tmps callingDomainSelector 1) (\<lambda>_ tmps.
        and_then (ber_write_octet_string tmps calledDomainSelector 1) (\<lambda>_ tmps.
        and_then (ber_write_BOOL tmps 1) (\<lambda>_ tmps.
        and_then (mcs_write_domain_parameters (ora 1) tmps (mcs_targetParameters mcs)) (\<lambda>_ tmps.
        and_then (mcs_write_domain_parameters (ora 2) tmps (mcs_minimumParameters mcs)) (\<lambda>_ tmps.
        and_then (mcs_write_domain_parameters (ora 3) tmps (mcs_maximumParameters mcs)) (\<lambda>_ tmps.
        ber_write_octet_string tmps (s_buffer userData) (Stream_GetPosition userData))))))))
       s
       (\<lambda>tmps.
          and_then (ber_write_application_tag s MCS_TYPE_CONNECT_INITIAL (Stream_GetPosition tmps))
            (\<lambda>_ s. Stream_Write s (s_buffer tmps) (Stream_GetPosition tmps))))"

definition mcs_write_connect_response ::
  "(nat \<Rightarrow> stream_oracle) \<Rightarrow> wStream \<Rightarrow> rdpMcs \<Rightarrow> wStream \<Rightarrow> (unit, wStream) res" where
  "mcs_write_connect_response ora s mcs userData =
     with_stream (ora 0) (s_capacity s) s (\<lambda>tmps.
     then_free
       (and_then (ber_write_enumerated tmps 0 MCS_Result_enum_length) (\<lambda>_ tmps.
        and_then (ber_write_integer tmps 0) (\<lambda>_ tmps.
        and_then (mcs_write_domain_parameters (ora 1) tmps (mcs_domainParameters mcs)) (\<lambda>_ tmps.
        ber_write_octet_string tmps (s_buffer userData) (Stream_GetPosition userData)))))
       s
       (\<lambda>tmps.
          and_then (ber_write_application_tag s MCS_TYPE_CONNECT_RESPONSE (Stream_GetPosition tmps))
            (\<lambda>_ s. Stream_Write s (s_buffer tmps) (Stream_GetPosition tmps))))"

text \<open>\<open>transport_write\<close> is handed the bytes before the stream position; \<open>tw\<close> is its status.\<close>

definition transmit ::
  "(u8 list \<Rightarrow> int) \<Rightarrow> rdpMcs \<times> u8 list list \<Rightarrow> wStream \<Rightarrow> (unit, rdpMcs \<times> u8 list list) res" where
  "transmit tw st s =
     (let pdu = take (s_pointer s) (s_buffer s); st' = (fst st, snd st @ [pdu])
      in if tw pdu < 0 then Fail st' else Ok () st')"

text \<open>The common end of the two senders of connect PDUs: frame what was written behind the gap.\<close>

definition send_framed ::
  "(u8 list \<Rightarrow> int) \<Rightarrow> rdpMcs \<times> u8 list list \<Rightarrow> nat \<Rightarrow> wStream \<Rightarrow> (unit, rdpMcs \<times> u8 list list) res" where
  "send_framed tw st bm s =
     (let em = Stream_GetPosition s; len = size_sub em bm
      in if len > 0xFFFF then Fail st
         else then_free (tpkt_write_header (Stream_SetPosition s bm) (of_nat len)) st (\<lambda>s.
              then_free (tpdu_write_data s) st (\<lambda>s.
              transmit tw st (Stream_SealLength (Stream_SetPosition s em)))))"

definition mcs_send_connect_initial ::
  "(nat \<Rightarrow> stream_oracle) \<Rightarrow> (rdpMcs \<Rightarrow> wStream \<Rightarrow> (unit, wStream) res) \<Rightarrow> (u8 list \<Rightarrow> int) \<Rightarrow>
   rdpMcs \<Rightarrow> u8 list list \<Rightarrow> (unit, rdpMcs \<times> u8 list list) res" where
  "mcs_send_connect_initial ora gcc_write_client_data_blocks tw mcs sent =
     (case mcs_initialize_client_channels mcs (mcs_settings mcs) of
        Fault \<Rightarrow> Fault
      | Fail mcs \<Rightarrow> Fail (mcs, sent)
      | Ok _ mcs \<Rightarrow>
          with_stream (ora 0) 512 (mcs, sent) (\<lambda>client_data.
          then_free (gcc_write_client_data_blocks mcs client_data) (mcs, sent) (\<lambda>client_data.
          with_stream (ora 1) 1024 (mcs, sent) (\<lambda>gcc_CCrq.
          then_free (gcc_write_conference_create_request gcc_CCrq client_data) (mcs, sent) (\<lambda>gcc_CCrq.
          with_stream (ora 2) (size_add 1024 (size_add (Stream_GetPosition gcc_CCrq) 7)) (mcs, sent) (\<lambda>s.
          let bm = Stream_GetPosition s
          in then_free (mcs_write_connect_initial (\<lambda>i. ora (3 + i)) (Stream_Seek s 7) mcs gcc_CCrq)
               (mcs, sent) (send_framed tw (mcs, sent) bm)))))))"

definition mcs_recv_connect_response ::
  "(rdpMcs \<Rightarrow> wStream \<Rightarrow> u16 \<Rightarrow> (unit, rdpMcs \<times> wStream) res) \<Rightarrow> rdpMcs \<Rightarrow> wStream \<Rightarrow>
   (unit, rdpMcs \<times> wStream) res" where
  "mcs_recv_connect_response blocks mcs s =
     and_then (on_stream mcs (tpkt_read_header s)) (\<lambda>tlength (mcs, s).
     and_then (on_stream mcs (tpdu_read_data s tlength)) (\<lambda>li (mcs, s).
     and_then (on_stream mcs (ber_read_application_tag s MCS_TYPE_CONNECT_RESPONSE)) (\<lambda>len (mcs, s).
     and_then (on_stream mcs (ber_read_enumerated s MCS_Result_enum_length)) (\<lambda>result (mcs, s).
     and_then (on_stream mcs (ber_read_uint s)) (\<lambda>calledConnectId (mcs, s).
     and_then (in_part (\<lambda>dp. mcs\<lparr>mcs_domainParameters := dp\<rparr>)
                 (mcs_read_domain_parameters (mcs_domainParameters mcs) s)) (\<lambda>_ (mcs, s).
     and_then (on_stream mcs (ber_read_octet_string_tag s)) (\<lambda>len (mcs, s).
     and_then (gcc_read_conference_create_response blocks mcs s) (\<lambda>_ (mcs, s).
     if tpkt_ensure_stream_consumed s then Ok () (mcs, s) else Fail (mcs, s)))))))))"

definition mcs_send_connect_response ::
  "(nat \<Rightarrow> stream_oracle) \<Rightarrow> (rdpMcs \<Rightarrow> wStream \<Rightarrow> (unit, rdpMcs \<times> wStream) res) \<Rightarrow> (u8 list \<Rightarrow> int) \<Rightarrow>
   rdpMcs \<Rightarrow> u8 list list \<Rightarrow> (unit, rdpMcs \<times> u8 list list) res" where
  "mcs_send_connect_response ora gcc_write_server_data_blocks tw mcs sent =
     with_stream (ora 0) 512 (mcs, sent) (\<lambda>server_data.
     case gcc_write_server_data_blocks mcs server_data of
       Fault \<Rightarrow> Fault
     | Fail (mcs, _) \<Rightarrow> Fail (mcs, sent)
     | Ok _ (mcs, server_data) \<Rightarrow>
         with_stream (ora 1) (size_add 512 (s_capacity server_data)) (mcs, sent) (\<lambda>gcc_CCrsp.
         then_free (gcc_write_conference_create_response gcc_CCrsp server_data) (mcs, sent) (\<lambda>gcc_CCrsp.
         with_stream (ora 2) (size_add (size_add (Stream_GetPosition gcc_CCrsp) 7) 1024) (mcs, sent) (\<lambda>s.
         let bm = Stream_GetPosition s
         in then_free (mcs_write_connect_response (\<lambda>i. ora (3 + i)) (Stream_Seek s 7) mcs gcc_CCrsp)
              (mcs, sent) (send_framed tw (mcs, sent) bm)))))"

section \<open>Domain PDUs\<close>

definition mcs_recv_erect_domain_request :: "rdpMcs \<Rightarrow> wStream \<Rightarrow> (unit, rdpMcs \<times> wStream) res" where
  "mcs_recv_erect_domain_request mcs s =
     and_then (on_stream mcs (mcs_read_domain_mcspdu_header s DomainMCSPDU_ErectDomainRequest)) (\<lambda>len (mcs, s).
     and_then (on_stream mcs (per_read_integer s)) (\<lambda>subHeight (mcs, s).
     and_then (on_stream mcs (per_read_integer s)) (\<lambda>subInterval (mcs, s).
     if tpkt_ensure_stream_consumed s then Ok () (mcs, s) else Fail (mcs, s))))"

definition mcs_send_erect_domain_request ::
  "stream_oracle \<Rightarrow> (u8 list \<Rightarrow> int) \<Rightarrow> rdpMcs \<Rightarrow> u8 list list \<Rightarrow> (unit, rdpMcs \<times> u8 list list) res" where
  "mcs_send_erect_domain_request ora tw mcs sent =
     with_stream ora 12 (mcs, sent) (\<lambda>s.
     then_free
       (and_then (mcs_write_domain_mcspdu_header s DomainMCSPDU_ErectDomainRequest 12 0) (\<lambda>_ s.
        and_then (per_write_integer s 0) (\<lambda>_ s.
        per_write_integer s 0)))
       (mcs, sent)
       (\<lambda>s. transmit tw (mcs, sent) (Stream_SealLength s)))"

definition mcs_recv_attach_user_request :: "rdpMcs \<Rightarrow> wStream \<Rightarrow> (unit, rdpMcs \<times> wStream) res" where
  "mcs_recv_attach_user_request mcs s =
     and_then (on_stream mcs (mcs_read_domain_mcspdu_header s DomainMCSPDU_AttachUserRequest)) (\<lambda>len (mcs, s).
     if tpkt_ensure_stream_consumed s then Ok () (mcs, s) else Fail (mcs, s))"

definition mcs_send_attach_user_request ::
  "stream_oracle \<Rightarrow> (u8 list \<Rightarrow> int) \<Rightarrow> rdpMcs \<Rightarrow> u8 list list \<Rightarrow> (unit, rdpMcs \<times> u8 list list) res" where
  "mcs_send_attach_user_request ora tw mcs sent =
     with_stream ora 8 (mcs, sent) (\<lambda>s.
     then_free (mcs_write_domain_mcspdu_header s DomainMCSPDU_AttachUserRequest 8 0) (mcs, sent)
       (\<lambda>s. transmit tw (mcs, sent) (Stream_SealLength s)))"

text \<open>
  What a failing \<open>per_read_integer16\<close> leaves in its out parameter: the old value when there were
  no two octets to read, and the octets without the minimum when the sum exceeds 16 bits.
\<close>

definition integer16_left :: "u16 \<Rightarrow> wStream \<Rightarrow> u16" where
  "integer16_left old s =
     (if Stream_GetRemainingLength s < 2 then old
      else case Stream_Read_UINT16_BE s of Ok v _ \<Rightarrow> v | _ \<Rightarrow> old)"

definition mcs_recv_attach_user_confirm :: "rdpMcs \<Rightarrow> wStream \<Rightarrow> (unit, rdpMcs \<times> wStream) res" where
  "mcs_recv_attach_user_confirm mcs s =
     and_then (on_stream mcs (mcs_read_domain_mcspdu_header s DomainMCSPDU_AttachUserConfirm)) (\<lambda>len (mcs, s).
     and_then (on_stream mcs (per_read_enumerated s MCS_Result_enum_length)) (\<lambda>result (mcs, s).
     case per_read_integer16 s MCS_BASE_CHANNEL_ID of
       Fault \<Rightarrow> Fault
     | Fail t \<Rightarrow> Fail (mcs\<lparr>mcs_userId := integer16_left (mcs_userId mcs) s\<rparr>, t)
     | Ok v s \<Rightarrow>
         let mcs = mcs\<lparr>mcs_userId := v\<rparr>
         in if tpkt_ensure_stream_consumed s then Ok () (mcs, s) else Fail (mcs, s)))"

definition mcs_send_attach_user_confirm ::
  "stream_oracle \<Rightarrow> (u8 list \<Rightarrow> int) \<Rightarrow> rdpMcs \<Rightarrow> u8 list list \<Rightarrow> (unit, rdpMcs \<times> u8 list list) res" where
  "mcs_send_attach_user_confirm ora tw mcs sent =
     with_stream ora 11 (mcs, sent) (\<lambda>s.
     let mcs = mcs\<lparr>mcs_userId := mcs_baseChannelId mcs, mcs_baseChannelId := mcs_baseChannelId mcs + 1\<rparr>
     in then_free
          (and_then (mcs_write_domain_mcspdu_header s DomainMCSPDU_AttachUserConfirm 11 2) (\<lambda>_ s.
           and_then (per_write_enumerated s 0 MCS_Result_enum_length) (\<lambda>_ s.
           per_write_integer16 s (mcs_userId mcs) MCS_BASE_CHANNEL_ID)))
          (mcs, sent)
          (\<lambda>s. transmit tw (mcs, sent) (Stream_SealLength s)))"

text \<open>
  The test of the user id, \<open>!per_read_integer16(s, &userId, MCS_BASE_CHANNEL_ID) && (userId == mcs->userId)\<close>,
  rejects only when the call fails; \<open>junk\<close> is the indeterminate initial value of \<open>userId\<close>.
\<close>

definition mcs_recv_channel_join_request ::
  "u16 \<Rightarrow> rdpMcs \<Rightarrow> wStream \<Rightarrow> (u16, rdpMcs \<times> wStream) res" where
  "mcs_recv_channel_join_request junk mcs s =
     and_then (on_stream mcs (mcs_read_domain_mcspdu_header s DomainMCSPDU_ChannelJoinRequest)) (\<lambda>len (mcs, s).
     and_then (case per_read_integer16 s MCS_BASE_CHANNEL_ID of
                 Fault \<Rightarrow> Fault
               | Fail t \<Rightarrow> if integer16_left junk s = mcs_userId mcs then Fail (mcs, t) else Ok () (mcs, t)
               | Ok userId t \<Rightarrow> Ok () (mcs, t)) (\<lambda>_ (mcs, s).
     and_then (on_stream mcs (per_read_integer16 s 0)) (\<lambda>channelId (mcs, s).
     if tpkt_ensure_stream_consumed s then Ok channelId (mcs, s) else Fail (mcs, s))))"

definition mcs_send_channel_join_request ::
  "stream_oracle \<Rightarrow> (u8 list \<Rightarrow> int) \<Rightarrow> rdpMcs \<Rightarrow> u16 \<Rightarrow> u8 list list \<Rightarrow>
   (unit, rdpMcs \<times> u8 list list) res" where
  "mcs_send_channel_join_request ora tw mcs channelId sent =
     with_stream ora 12 (mcs, sent) (\<lambda>s.
     then_free
       (and_then (mcs_write_domain_mcspdu_header s DomainMCSPDU_ChannelJoinRequest 12 0) (\<lambda>_ s.
        and_then (per_write_integer16 s (mcs_userId mcs) MCS_BASE_CHANNEL_ID) (\<lambda>_ s.
        per_write_integer16 s channelId 0)))
       (mcs, sent)
       (\<lambda>s. transmit tw (mcs, sent) (Stream_SealLength s)))"

definition mcs_recv_channel_join_confirm :: "rdpMcs \<Rightarrow> wStream \<Rightarrow> (u16, rdpMcs \<times> wStream) res" where
  "mcs_recv_channel_join_confirm mcs s =
     and_then (on_stream mcs (mcs_read_domain_mcspdu_header s DomainMCSPDU_ChannelJoinConfirm)) (\<lambda>len (mcs, s).
     and_then (on_stream mcs (per_read_enumerated s MCS_Result_enum_length)) (\<lambda>result (mcs, s).
     and_then (on_stream mcs (per_read_integer16 s MCS_BASE_CHANNEL_ID)) (\<lambda>initiator (mcs, s).
     and_then (on_stream mcs (per_read_integer16 s 0)) (\<lambda>requested (mcs, s).
     and_then (on_stream mcs (per_read_integer16 s 0)) (\<lambda>channelId (mcs, s).
     if tpkt_ensure_stream_consumed s then Ok channelId (mcs, s) else Fail (mcs, s))))))"

definition mcs_send_channel_join_confirm ::
  "stream_oracle \<Rightarrow> (u8 list \<Rightarrow> int) \<Rightarrow> rdpMcs \<Rightarrow> u16 \<Rightarrow> u8 list list \<Rightarrow>
   (unit, rdpMcs \<times> u8 list list) res" where
  "mcs_send_channel_join_confirm ora tw mcs channelId sent =
     with_stream ora 15 (mcs, sent) (\<lambda>s.
     then_free
       (and_then (mcs_write_domain_mcspdu_header s DomainMCSPDU_ChannelJoinConfirm 15 2) (\<lambda>_ s.
        and_then (per_write_enumerated s 0 MCS_Result_enum_length) (\<lambda>_ s.
        and_then (per_write_integer16 s (mcs_userId mcs) MCS_BASE_CHANNEL_ID) (\<lambda>_ s.
        and_then (per_write_integer16 s channelId 0) (\<lambda>_ s.
        per_write_integer16 s channelId 0)))))
       (mcs, sent)
       (\<lambda>s. transmit tw (mcs, sent) (Stream_SealLength s)))"

definition mcs_recv_disconnect_provider_ultimatum :: "wStream \<Rightarrow> (int, wStream) res" where
  "mcs_recv_disconnect_provider_ultimatum s =
     (if Stream_GetRemainingLength s < 1 then Fail s
      else and_then (Stream_Rewind s 1) (\<lambda>_ s.
           and_then (Stream_Read_UINT8 s) (\<lambda>b1 s.
           and_then (Stream_Read_UINT8 s) (\<lambda>b2 s.
           Ok (push_bit 1 (uint (b1 AND 0x01)) OR uint (drop_bit 7 b2)) s))))"

definition mcs_send_disconnect_provider_ultimatum ::
  "stream_oracle \<Rightarrow> (u8 list \<Rightarrow> int) \<Rightarrow> rdpMcs \<Rightarrow> u8 list list \<Rightarrow> (unit, rdpMcs \<times> u8 list list) res" where
  "mcs_send_disconnect_provider_ultimatum ora tw mcs sent =
     with_stream ora 9 (mcs, sent) (\<lambda>s.
     then_free
       (and_then (mcs_write_domain_mcspdu_header s DomainMCSPDU_DisconnectProviderUltimatum 9 1) (\<lambda>_ s.
        per_write_enumerated s 0x80 0))
       (mcs, sent) (transmit tw (mcs, sent)))"

text \<open>The two allocations of \<open>mcs_new\<close> are the object and the channel array.\<close>

definition mcs_new :: "unit alloc \<Rightarrow> unit alloc \<Rightarrow> rdpSettings \<Rightarrow> rdpMcs option" where
  "mcs_new al_mcs al_channels settings =
     (if al_mcs = None then None
      else if al_channels = None then None
      else Some
        \<lparr>mcs_userId = 0, mcs_baseChannelId = MCS_GLOBAL_CHANNEL_ID + 1, mcs_messageChannelId = 0,
         mcs_domainParameters = mcs_init_domain_parameters 0 0 0 0xFFFF,
         mcs_targetParameters = mcs_init_domain_parameters 34 2 0 0xFFFF,
         mcs_minimumParameters = mcs_init_domain_parameters 1 1 1 0x420,
         mcs_maximumParameters = mcs_init_domain_parameters 0xFFFF 0xFC17 0xFFFF 0xFFFF,
         mcs_userChannelJoined = False, mcs_globalChannelJoined = False,
         mcs_messageChannelJoined = False, mcs_channelCount = 0,
         mcs_channelMaxCount = CHANNEL_MAX_COUNT,
         mcs_channels = replicate (unat CHANNEL_MAX_COUNT) zero_channel, mcs_settings = settings\<rparr>)"

section \<open>Memory safety\<close>

lemma mcs_read_domain_mcspdu_header_safe: "safe_read (\<lambda>s. mcs_read_domain_mcspdu_header s pdu)"
  unfolding mcs_read_domain_mcspdu_header_def
  by (rule safe_call [OF tpkt_read_header_safe] safe_call [OF tpdu_read_data_safe]
      safe_call [OF per_read_octet_safe(1)] safe_rules le_refl)+

text \<open>
  The invariant of sessions: the channel table has 31 entries of which the counted ones are in use,
  and the monitors that are counted are in the array.
\<close>

definition session_ok :: "rdpMcs \<Rightarrow> bool" where
  "session_ok m \<longleftrightarrow> length (mcs_channels m) = 31 \<and> mcs_channelCount m \<le> 31 \<and>
     unat (MonitorCount (mcs_settings m)) \<le> length (MonitorDefArray (mcs_settings m))"

lemma session_ok_update [simp]:
  "session_ok (m\<lparr>mcs_messageChannelId := i\<rparr>) = session_ok m"
  "session_ok (m\<lparr>mcs_baseChannelId := b\<rparr>) = session_ok m"
  "session_ok (m\<lparr>mcs_userId := u\<rparr>) = session_ok m"
  "session_ok (m\<lparr>mcs_domainParameters := dp\<rparr>) = session_ok m"
  "session_ok (m\<lparr>mcs_targetParameters := dp\<rparr>) = session_ok m"
  "session_ok (m\<lparr>mcs_minimumParameters := dp\<rparr>) = session_ok m"
  "session_ok (m\<lparr>mcs_maximumParameters := dp\<rparr>) = session_ok m"
  by (simp_all add: session_ok_def)

lemma mcs_new_ok:
  "mcs_new a b settings = Some m \<Longrightarrow> unat (MonitorCount settings) \<le> length (MonitorDefArray settings) \<Longrightarrow> session_ok m"
  by (auto simp: mcs_new_def session_ok_def CHANNEL_MAX_COUNT_def split: if_splits)

abbreviation safe_handler :: "(rdpMcs \<Rightarrow> wStream \<Rightarrow> ('a, rdpMcs \<times> wStream) res) \<Rightarrow> bool" where
  "safe_handler \<equiv> safe_session session_ok 0"

lemma read_field_safe: "safe_session (\<lambda>_. True) 0 (read_field store)"
  unfolding read_field_def
  by (intro safe_session_read ber_read_uint_safe) (auto simp: safe_session_def)

lemma mcs_read_domain_parameters_safe: "safe_session (\<lambda>_. True) 0 mcs_read_domain_parameters"
  unfolding mcs_read_domain_parameters_def
  by (intro safe_session_read safe_session_then read_field_safe ber_read_sequence_tag_safe)

lemma safe_session_in_part:
  assumes r: "safe_session (\<lambda>_. True) 0 r" and I: "\<And>m d. I m \<Longrightarrow> I (store m d)"
  shows "safe_session I 0 (\<lambda>m s. in_part (store m) (r (part m) s))"
proof (rule safe_sessionI)
  fix m s assume m: "I m" and "readable s"
  with r have "within (\<lambda>_. True) s (r (part m) s)" by (auto intro: safe_sessionD)
  with I [OF m] show "within I s (in_part (store m) (r (part m) s))"
    by (cases "r (part m) s") (auto simp: in_part_def)
qed

lemma safe_session_in_object:
  assumes "\<And>m. r m \<noteq> Fault" "\<And>m d. I m \<Longrightarrow> I (store m d)"
  shows "safe_session I 0 (\<lambda>m s. in_object (store m) s (r m))"
  using assms by (auto simp: safe_session_def in_object_def split: res.splits)

lemma skip_octet_string_safe: "safe_session I 0 skip_octet_string"
  unfolding skip_octet_string_def
  by (intro safe_session_read safe_session_skip [where g = "\<lambda>m s. Ok () (m, s)"] safe_session_Ok
      ber_read_octet_string_tag_safe)

lemma mcs_merge_no_fault: "mcs_merge_domain_parameters t mn mx out \<noteq> Fault"
proof -
  have "wp (mcs_merge_domain_parameters t mn mx out) (\<lambda>_ _. True) (\<lambda>_. True)"
    by (simp add: mcs_merge_domain_parameters_def Let_def store_field_wp split: option.split)
  then show ?thesis by (rule wp_not_Fault)
qed

lemmas mcs_safe_reads =
  tpkt_read_header_safe tpdu_read_data_safe ber_read_application_tag_safe ber_read_BOOL_safe
  ber_read_octet_string_tag_safe ber_read_enumerated_safe ber_read_uint_safe
  mcs_read_domain_mcspdu_header_safe per_read_integer_safe per_read_enumerated_safe
  per_read_integer16_safe

lemma mcs_recv_connect_initial_safe:
  assumes "blocks_safe session_ok blocks"
  shows "safe_handler (mcs_recv_connect_initial blocks)"
  unfolding mcs_recv_connect_initial_def
  by (intro safe_session_read mcs_safe_reads safe_session_then [OF skip_octet_string_safe]
      safe_session_then [OF safe_session_in_part [OF mcs_read_domain_parameters_safe]] safe_session_if
      safe_session_Fail safe_session_Ok
      safe_session_then [OF gcc_read_conference_create_request_safe [OF assms]]
      safe_session_then [OF safe_session_in_object] mcs_merge_no_fault) simp_all

lemma mcs_recv_connect_response_safe:
  assumes "blocks_safe session_ok blocks"
  shows "safe_handler (mcs_recv_connect_response blocks)"
  unfolding mcs_recv_connect_response_def
  by (intro safe_session_read mcs_safe_reads
      safe_session_then [OF safe_session_in_part [OF mcs_read_domain_parameters_safe]] safe_session_if
      safe_session_Fail safe_session_Ok
      safe_session_then [OF gcc_read_conference_create_response_safe [OF assms]]) simp_all

lemma within_integer16:
  assumes "readable s" "\<And>t. advances s t \<Longrightarrow> within I s (f t)" "\<And>v t. advances s t \<Longrightarrow> within I s (g v t)"
  shows "within I s (case per_read_integer16 s k of Fault \<Rightarrow> Fault | Fail t \<Rightarrow> f t | Ok v t \<Rightarrow> g v t)"
proof -
  have "wp (per_read_integer16 s k) (\<lambda>_. advances s) (advances s)"
    using assms(1) by (intro safe_fromD [OF per_read_integer16_safe]) simp_all
  with assms(2,3) show ?thesis by (cases "per_read_integer16 s k") auto
qed

lemma mcs_recv_domain_pdus_safe:
  "safe_handler mcs_recv_erect_domain_request" "safe_handler mcs_recv_attach_user_request"
  "safe_handler mcs_recv_channel_join_confirm"
  unfolding mcs_recv_erect_domain_request_def mcs_recv_attach_user_request_def
    mcs_recv_channel_join_confirm_def
  by (intro safe_session_read mcs_safe_reads safe_session_if safe_session_Fail safe_session_Ok)+

lemma mcs_recv_attach_user_confirm_safe: "safe_handler mcs_recv_attach_user_confirm"
  unfolding mcs_recv_attach_user_confirm_def Let_def
  by (intro safe_session_read mcs_safe_reads safe_sessionI within_integer16) simp_all

lemma mcs_recv_channel_join_request_safe: "safe_handler (mcs_recv_channel_join_request junk)"
  unfolding mcs_recv_channel_join_request_def
  by (intro safe_session_read safe_session_then [OF safe_sessionI] mcs_safe_reads within_integer16
      safe_session_if safe_session_Fail safe_session_Ok) simp_all

end
