(* ===== verification/Gcc_Blocks.thy ===== *)
theory Gcc_Blocks
  imports Core_Mcs
begin

text \<open>
  The client and server data blocks of \<^verbatim>\<open>libfreerdp/core/gcc.c\<close>, which client and server exchange inside
  the MCS connect PDUs: display and keyboard, security, static channels, monitors. A reader of blocks
  works on the session object, whose \<open>mcs_settings\<close> are the settings it points to, and the stream.

  The conversions between UTF-8 and UTF-16, the parser of certificates, the random numbers, the digest
  and the signature come from outside and are collected in \<open>gcc_env\<close>, together with the answers of the
  allocator. \<open>g_ConvertToUnicode\<close> gives the length in code units and the bytes of the block it allocated,
  \<open>g_ConvertFromUnicode\<close> the status and the string.
\<close>

record gcc_env =
  g_ConvertToUnicode :: "u8 list option \<Rightarrow> nat \<times> u8 list"
  g_ConvertFromUnicode :: "u8 list \<Rightarrow> int \<times> u8 list"
  g_certificate_new :: bool
  g_certificate_read :: "u8 list \<Rightarrow> bool"
  g_grow :: "u8 alloc"
  g_alloc_random :: "u8 alloc"
  g_alloc_certificate :: "u8 alloc"
  g_RAND :: "u8 list"
  g_Digest :: "u8 list \<Rightarrow> u8 list option"
  g_rsa_private_encrypt :: "u8 list \<Rightarrow> u8 list"

section \<open>Constants\<close>

abbreviation (input) CS_CORE :: u16 where "CS_CORE \<equiv> 0xC001"
abbreviation (input) CS_SECURITY :: u16 where "CS_SECURITY \<equiv> 0xC002"
abbreviation (input) CS_NET :: u16 where "CS_NET \<equiv> 0xC003"
abbreviation (input) CS_CLUSTER :: u16 where "CS_CLUSTER \<equiv> 0xC004"
abbreviation (input) CS_MONITOR :: u16 where "CS_MONITOR \<equiv> 0xC005"
abbreviation (input) CS_MCS_MSGCHANNEL :: u16 where "CS_MCS_MSGCHANNEL \<equiv> 0xC006"
abbreviation (input) CS_MONITOR_EX :: u16 where "CS_MONITOR_EX \<equiv> 0xC008"
abbreviation (input) CS_MULTITRANSPORT :: u16 where "CS_MULTITRANSPORT \<equiv> 0xC00A"
abbreviation (input) SC_CORE :: u16 where "SC_CORE \<equiv> 0x0C01"
abbreviation (input) SC_SECURITY :: u16 where "SC_SECURITY \<equiv> 0x0C02"
abbreviation (input) SC_NET :: u16 where "SC_NET \<equiv> 0x0C03"
abbreviation (input) SC_MCS_MSGCHANNEL :: u16 where "SC_MCS_MSGCHANNEL \<equiv> 0x0C04"
abbreviation (input) SC_MULTITRANSPORT :: u16 where "SC_MULTITRANSPORT \<equiv> 0x0C08"

abbreviation (input) RNS_UD_COLOR_4BPP :: u16 where "RNS_UD_COLOR_4BPP \<equiv> 0xCA00"
abbreviation (input) RNS_UD_COLOR_8BPP :: u16 where "RNS_UD_COLOR_8BPP \<equiv> 0xCA01"
abbreviation (input) RNS_UD_COLOR_16BPP_555 :: u16 where "RNS_UD_COLOR_16BPP_555 \<equiv> 0xCA02"
abbreviation (input) RNS_UD_COLOR_16BPP_565 :: u16 where "RNS_UD_COLOR_16BPP_565 \<equiv> 0xCA03"
abbreviation (input) RNS_UD_COLOR_24BPP :: u16 where "RNS_UD_COLOR_24BPP \<equiv> 0xCA04"
abbreviation (input) RNS_UD_SAS_DEL :: u16 where "RNS_UD_SAS_DEL \<equiv> 0xAA03"

abbreviation (input) ENCRYPTION_METHOD_NONE :: u32 where "ENCRYPTION_METHOD_NONE \<equiv> 0"
abbreviation (input) ENCRYPTION_METHOD_40BIT :: u32 where "ENCRYPTION_METHOD_40BIT \<equiv> 1"
abbreviation (input) ENCRYPTION_METHOD_128BIT :: u32 where "ENCRYPTION_METHOD_128BIT \<equiv> 2"
abbreviation (input) ENCRYPTION_METHOD_56BIT :: u32 where "ENCRYPTION_METHOD_56BIT \<equiv> 8"
abbreviation (input) ENCRYPTION_METHOD_FIPS :: u32 where "ENCRYPTION_METHOD_FIPS \<equiv> 16"
abbreviation (input) LEVEL_NONE :: u32 where "LEVEL_NONE \<equiv> 0"
abbreviation (input) LEVEL_LOW :: u32 where "LEVEL_LOW \<equiv> 1"
abbreviation (input) LEVEL_CLIENT_COMPATIBLE :: u32 where "LEVEL_CLIENT_COMPATIBLE \<equiv> 2"
abbreviation (input) LEVEL_HIGH :: u32 where "LEVEL_HIGH \<equiv> 3"
abbreviation (input) LEVEL_FIPS :: u32 where "LEVEL_FIPS \<equiv> 4"

section \<open>Shared parts\<close>

definition with_settings :: "(rdpSettings \<Rightarrow> rdpSettings) \<Rightarrow> rdpMcs \<Rightarrow> rdpMcs" where
  "with_settings f mcs = mcs\<lparr>mcs_settings := f (mcs_settings mcs)\<rparr>"

text \<open>Both branches of the switch in \<open>rdp_version_common\<close> return the smaller version.\<close>

definition rdp_version_common :: "u32 \<Rightarrow> u32 \<Rightarrow> u32" where
  "rdp_version_common serverVersion clientVersion = min serverVersion clientVersion"

definition gcc_read_user_data_header :: "wStream \<Rightarrow> (u16 \<times> u16, wStream) res" where
  "gcc_read_user_data_header s =
     (if Stream_GetRemainingLength s < 4 then Fail s
      else and_then (Stream_Read_UINT16 s) (\<lambda>type s.
           and_then (Stream_Read_UINT16 s) (\<lambda>len s.
           if len < 4 \<or> Stream_GetRemainingLength s < unat (len - 4) then Fail s else Ok (type, len) s)))"

definition gcc_write_user_data_header :: "wStream \<Rightarrow> u16 \<Rightarrow> u16 \<Rightarrow> (unit, wStream) res" where
  "gcc_write_user_data_header s type len =
     and_then (Stream_Write_UINT16 s type) (\<lambda>_ s. Stream_Write_UINT16 s len)"

text \<open>\<open>Stream_EnsureRemainingCapacity\<close>; growing for ever counts as a \<open>Fault\<close>.\<close>

definition ensure_room :: "u8 alloc \<Rightarrow> wStream \<Rightarrow> nat \<Rightarrow> (unit, wStream) res" where
  "ensure_room al s n = (case Stream_EnsureRemainingCapacity al s n of None \<Rightarrow> Fault | Some r \<Rightarrow> r)"

section \<open>Client core data\<close>

text \<open>The local variables the optional fields are read into.\<close>

record core_fields =
  o_postBeta2ColorDepth :: u16
  o_highColorDepth :: u16
  o_supportedColorDepths :: u16
  o_earlyCapabilityFlags :: u16
  o_connectionType :: u8
  o_serverSelectedProtocol :: u32

text \<open>One optional field: when the block is too short for it the fields end here.\<close>

definition present ::
  "u16 \<Rightarrow> u16 \<Rightarrow> (wStream \<Rightarrow> ('v, wStream) res) \<Rightarrow> 'o \<Rightarrow> rdpMcs \<Rightarrow> wStream \<Rightarrow>
   ('v \<Rightarrow> u16 \<Rightarrow> rdpMcs \<Rightarrow> wStream \<Rightarrow> ('o, rdpMcs \<times> wStream) res) \<Rightarrow> ('o, rdpMcs \<times> wStream) res" where
  "present blockLength n rd f mcs s k =
     (if blockLength < n then Ok f (mcs, s)
      else and_then (on_stream mcs (rd s)) (\<lambda>v (mcs, s). k v (blockLength - n) mcs s))"

abbreviation skip_field :: "nat \<Rightarrow> wStream \<Rightarrow> (unit, wStream) res" where
  "skip_field n s \<equiv> Ok () (Stream_Seek s n)"

text \<open>The string in the next \<open>n\<close> bytes, which are only skipped when it can be converted.\<close>

definition read_unicode :: "gcc_env \<Rightarrow> nat \<Rightarrow> wStream \<Rightarrow> (u8 list, wStream) res" where
  "read_unicode env n s =
     (case Stream_Read s n of
        Ok b t \<Rightarrow> if fst (g_ConvertFromUnicode env b) < 1 then Fail s else Ok (snd (g_ConvertFromUnicode env b)) t
      | r \<Rightarrow> Fault)"

definition read_core_display ::
  "u16 \<Rightarrow> core_fields \<Rightarrow> rdpMcs \<Rightarrow> wStream \<Rightarrow> (core_fields, rdpMcs \<times> wStream) res" where
  "read_core_display len f mcs s =
     present len 4 Stream_Read_UINT32 f mcs s (\<lambda>v len mcs s.
     let mcs = with_settings (\<lambda>st. st\<lparr>DesktopPhysicalWidth := v\<rparr>) mcs in
     present len 4 Stream_Read_UINT32 f mcs s (\<lambda>v len mcs s.
     let mcs = with_settings (\<lambda>st. st\<lparr>DesktopPhysicalHeight := v\<rparr>) mcs in
     present len 2 Stream_Read_UINT16 f mcs s (\<lambda>v len mcs s.
     let mcs = with_settings (\<lambda>st. st\<lparr>DesktopOrientation := v\<rparr>) mcs in
     present len 4 Stream_Read_UINT32 f mcs s (\<lambda>v len mcs s.
     let mcs = with_settings (\<lambda>st. st\<lparr>DesktopScaleFactor := v\<rparr>) mcs in
     present len 4 Stream_Read_UINT32 f mcs s (\<lambda>v len mcs s.
     let mcs = with_settings (\<lambda>st. st\<lparr>DeviceScaleFactor := v\<rparr>) mcs in
     if SelectedProtocol (mcs_settings mcs) \<noteq> o_serverSelectedProtocol f then Fail (mcs, s)
     else Ok f (mcs, s))))))"

definition read_core_optional ::
  "gcc_env \<Rightarrow> u16 \<Rightarrow> core_fields \<Rightarrow> rdpMcs \<Rightarrow> wStream \<Rightarrow> (core_fields, rdpMcs \<times> wStream) res" where
  "read_core_optional env len f mcs s =
     present len 2 Stream_Read_UINT16 f mcs s (\<lambda>v len mcs s. let f = f\<lparr>o_postBeta2ColorDepth := v\<rparr> in
     present len 2 (skip_field 2) f mcs s (\<lambda>_ len mcs s.
     present len 4 (skip_field 4) f mcs s (\<lambda>_ len mcs s.
     present len 2 Stream_Read_UINT16 f mcs s (\<lambda>v len mcs s. let f = f\<lparr>o_highColorDepth := v\<rparr> in
     present len 2 Stream_Read_UINT16 f mcs s (\<lambda>v len mcs s. let f = f\<lparr>o_supportedColorDepths := v\<rparr> in
     present len 2 Stream_Read_UINT16 f mcs s (\<lambda>v len mcs s. let f = f\<lparr>o_earlyCapabilityFlags := v\<rparr>;
       mcs = with_settings (\<lambda>st. st\<lparr>EarlyCapabilityFlags := ucast v\<rparr>) mcs in
     present len 64 (read_unicode env 64) f mcs s (\<lambda>str len mcs s.
       let mcs = with_settings (\<lambda>st. st\<lparr>ClientProductId := Some str\<rparr>) mcs in
     present len 1 Stream_Read_UINT8 f mcs s (\<lambda>v len mcs s. let f = f\<lparr>o_connectionType := v\<rparr> in
     present len 1 (skip_field 1) f mcs s (\<lambda>_ len mcs s.
     present len 4 Stream_Read_UINT32 f mcs s (\<lambda>v len mcs s. let f = f\<lparr>o_serverSelectedProtocol := v\<rparr> in
     read_core_display len f mcs s))))))))))"

definition client_color_depth :: "u16 \<Rightarrow> core_fields \<Rightarrow> u32 option" where
  "client_color_depth colorDepth f =
     (if o_highColorDepth f > 0 then
        Some (if o_earlyCapabilityFlags f AND 0x0002 \<noteq> 0 then 32 else ucast (o_highColorDepth f))
      else if o_postBeta2ColorDepth f > 0 then
        (if o_postBeta2ColorDepth f = RNS_UD_COLOR_4BPP then Some 4
         else if o_postBeta2ColorDepth f = RNS_UD_COLOR_8BPP then Some 8
         else if o_postBeta2ColorDepth f = RNS_UD_COLOR_16BPP_555 then Some 15
         else if o_postBeta2ColorDepth f = RNS_UD_COLOR_16BPP_565 then Some 16
         else if o_postBeta2ColorDepth f = RNS_UD_COLOR_24BPP then Some 24
         else None)
      else if colorDepth = RNS_UD_COLOR_4BPP then Some 4
      else if colorDepth = RNS_UD_COLOR_8BPP then Some 8
      else None)"

definition core_capabilities :: "u32 \<Rightarrow> core_fields \<Rightarrow> rdpSettings \<Rightarrow> rdpSettings" where
  "core_capabilities clientColorDepth f st =
     (let early = o_earlyCapabilityFlags f
      in st\<lparr>ColorDepth := (if clientColorDepth < ColorDepth st \<or> \<not> ServerMode st then clientColorDepth
                            else ColorDepth st),
            NetworkAutoDetect := NetworkAutoDetect st \<and> early AND 0x0080 \<noteq> 0,
            SupportHeartbeatPdu := SupportHeartbeatPdu st \<and> early AND 0x0400 \<noteq> 0,
            SupportGraphicsPipeline := SupportGraphicsPipeline st \<and> early AND 0x0100 \<noteq> 0,
            SupportDynamicTimeZone := SupportDynamicTimeZone st \<and> early AND 0x0200 \<noteq> 0,
            SupportMonitorLayoutPdu := SupportMonitorLayoutPdu st \<and> early AND 0x0040 \<noteq> 0,
            SupportStatusInfoPdu := SupportStatusInfoPdu st \<and> early AND 0x0004 \<noteq> 0,
            SupportErrorInfoPdu := early AND 0x0001 \<noteq> 0,
            ConnectionType := if early AND 0x0020 = 0 then 0 else ucast (o_connectionType f)\<rparr>)"

definition gcc_read_client_core_data ::
  "gcc_env \<Rightarrow> rdpMcs \<Rightarrow> wStream \<Rightarrow> u16 \<Rightarrow> (unit, rdpMcs \<times> wStream) res" where
  "gcc_read_client_core_data env mcs s blockLength =
     (if blockLength < 128 then Fail (mcs, s)
      else
     and_then (on_stream mcs (Stream_Read_UINT32 s)) (\<lambda>version (mcs, s).
     let mcs = with_settings (\<lambda>st. st\<lparr>RdpVersion := rdp_version_common version (RdpVersion st)\<rparr>) mcs in
     and_then (on_stream mcs (Stream_Read_UINT16 s)) (\<lambda>v (mcs, s).
     let mcs = with_settings (\<lambda>st. st\<lparr>DesktopWidth := ucast v\<rparr>) mcs in
     and_then (on_stream mcs (Stream_Read_UINT16 s)) (\<lambda>v (mcs, s).
     let mcs = with_settings (\<lambda>st. st\<lparr>DesktopHeight := ucast v\<rparr>) mcs in
     and_then (on_stream mcs (Stream_Read_UINT16 s)) (\<lambda>colorDepth (mcs, s).
     and_then (on_stream mcs (skip_field 2 s)) (\<lambda>_ (mcs, s).
     and_then (on_stream mcs (Stream_Read_UINT32 s)) (\<lambda>v (mcs, s).
     let mcs = with_settings (\<lambda>st. st\<lparr>KeyboardLayout := v\<rparr>) mcs in
     and_then (on_stream mcs (Stream_Read_UINT32 s)) (\<lambda>v (mcs, s).
     let mcs = with_settings (\<lambda>st. st\<lparr>ClientBuild := v\<rparr>) mcs in
     and_then (on_stream mcs (read_unicode env 32 s)) (\<lambda>str (mcs, s).
     let mcs = with_settings (\<lambda>st. st\<lparr>ClientHostname := Some str\<rparr>) mcs in
     and_then (on_stream mcs (Stream_Read_UINT32 s)) (\<lambda>v (mcs, s).
     let mcs = with_settings (\<lambda>st. st\<lparr>KeyboardType := v\<rparr>) mcs in
     and_then (on_stream mcs (Stream_Read_UINT32 s)) (\<lambda>v (mcs, s).
     let mcs = with_settings (\<lambda>st. st\<lparr>KeyboardSubType := v\<rparr>) mcs in
     and_then (on_stream mcs (Stream_Read_UINT32 s)) (\<lambda>v (mcs, s).
     let mcs = with_settings (\<lambda>st. st\<lparr>KeyboardFunctionKey := v\<rparr>) mcs in
     and_then (on_stream mcs (skip_field 64 s)) (\<lambda>_ (mcs, s).
     and_then (read_core_optional env (blockLength - 128)
         \<lparr>o_postBeta2ColorDepth = 0, o_highColorDepth = 0, o_supportedColorDepths = 0, o_earlyCapabilityFlags = 0,
          o_connectionType = 0, o_serverSelectedProtocol = 0\<rparr> mcs s) (\<lambda>f (mcs, s).
     case client_color_depth colorDepth f of None \<Rightarrow> Fail (mcs, s)
     | Some depth \<Rightarrow> Ok () (with_settings (core_capabilities depth f) mcs, s)))))))))))))))"

text \<open>
  A name in a field of \<open>k\<close> code units: longer names are cut, with a zero in the last unit, and
  shorter ones are padded with zeros.
\<close>

definition write_name :: "gcc_env \<Rightarrow> u8 list option \<Rightarrow> nat \<Rightarrow> wStream \<Rightarrow> (unit, wStream) res" where
  "write_name env str k s =
     (case g_ConvertToUnicode env str of (n, name) \<Rightarrow>
        if n \<ge> k then
          (if length name < 2 * k then Fault
           else and_then (Stream_Write s (name[2 * k - 2 := 0, 2 * k - 1 := 0]) (2 * k)) (\<lambda>_ s. Stream_Zero s 0))
        else and_then (Stream_Write s name (2 * n)) (\<lambda>_ s. Stream_Zero s (2 * k - 2 * n)))"

definition client_supported_depths :: "rdpSettings \<Rightarrow> u16" where
  "client_supported_depths st = (if ColorDepth st = 32 then 0x000F else 0x0007)"

definition client_early_flags :: "rdpSettings \<Rightarrow> u16" where
  "client_early_flags st =
     0x0001 OR
     (if (ucast (ConnectionType st) :: u8) \<noteq> 0 then 0x0020 else 0) OR
     (if ColorDepth st = 32 then 0x0002 else 0) OR
     (if NetworkAutoDetect st then 0x0080 else 0) OR
     (if SupportHeartbeatPdu st then 0x0400 else 0) OR
     (if SupportGraphicsPipeline st then 0x0100 else 0) OR
     (if SupportDynamicTimeZone st then 0x0200 else 0) OR
     (if SupportMonitorLayoutPdu st then 0x0040 else 0) OR
     (if SupportStatusInfoPdu st then 0x0004 else 0)"

definition gcc_write_client_core_data :: "gcc_env \<Rightarrow> rdpMcs \<Rightarrow> wStream \<Rightarrow> (unit, wStream) res" where
  "gcc_write_client_core_data env mcs s =
     (let settings = mcs_settings mcs; connectionType = ucast (ConnectionType settings) in
     and_then (gcc_write_user_data_header s CS_CORE 234) (\<lambda>_ s.
     and_then (Stream_Write_UINT32 s (RdpVersion settings)) (\<lambda>_ s.
     and_then (Stream_Write_UINT16 s (ucast (DesktopWidth settings))) (\<lambda>_ s.
     and_then (Stream_Write_UINT16 s (ucast (DesktopHeight settings))) (\<lambda>_ s.
     and_then (Stream_Write_UINT16 s RNS_UD_COLOR_8BPP) (\<lambda>_ s.
     and_then (Stream_Write_UINT16 s RNS_UD_SAS_DEL) (\<lambda>_ s.
     and_then (Stream_Write_UINT32 s (KeyboardLayout settings)) (\<lambda>_ s.
     and_then (Stream_Write_UINT32 s (ClientBuild settings)) (\<lambda>_ s.
     and_then (write_name env (ClientHostname settings) 16 s) (\<lambda>_ s.
     and_then (Stream_Write_UINT32 s (KeyboardType settings)) (\<lambda>_ s.
     and_then (Stream_Write_UINT32 s (KeyboardSubType settings)) (\<lambda>_ s.
     and_then (Stream_Write_UINT32 s (KeyboardFunctionKey settings)) (\<lambda>_ s.
     and_then (Stream_Zero s 64) (\<lambda>_ s.
     and_then (Stream_Write_UINT16 s RNS_UD_COLOR_8BPP) (\<lambda>_ s.
     and_then (Stream_Write_UINT16 s 1) (\<lambda>_ s.
     and_then (Stream_Write_UINT32 s 0) (\<lambda>_ s.
     and_then (Stream_Write_UINT16 s (ucast (min (ColorDepth settings) 24))) (\<lambda>_ s.
     and_then (Stream_Write_UINT16 s (client_supported_depths settings)) (\<lambda>_ s.
     and_then (Stream_Write_UINT16 s (client_early_flags settings)) (\<lambda>_ s.
     and_then (write_name env (ClientProductId settings) 32 s) (\<lambda>_ s.
     and_then (Stream_Write_UINT8 s connectionType) (\<lambda>_ s.
     and_then (Stream_Write_UINT8 s 0) (\<lambda>_ s.
     and_then (Stream_Write_UINT32 s (SelectedProtocol settings)) (\<lambda>_ s.
     and_then (Stream_Write_UINT32 s (DesktopPhysicalWidth settings)) (\<lambda>_ s.
     and_then (Stream_Write_UINT32 s (DesktopPhysicalHeight settings)) (\<lambda>_ s.
     and_then (Stream_Write_UINT16 s (DesktopOrientation settings)) (\<lambda>_ s.
     and_then (Stream_Write_UINT32 s (DesktopScaleFactor settings)) (\<lambda>_ s.
     Stream_Write_UINT32 s (DeviceScaleFactor settings)))))))))))))))))))))))))))))"

section \<open>Server core data\<close>

definition gcc_read_server_core_data :: "rdpMcs \<Rightarrow> wStream \<Rightarrow> (unit, rdpMcs \<times> wStream) res" where
  "gcc_read_server_core_data mcs s =
     (if Stream_GetRemainingLength s < 4 then Fail (mcs, s)
      else and_then (on_stream mcs (Stream_Read_UINT32 s)) (\<lambda>serverVersion (mcs, s).
      let mcs = with_settings (\<lambda>st. st\<lparr>RdpVersion := rdp_version_common serverVersion (RdpVersion st)\<rparr>) mcs in
      and_then (if Stream_GetRemainingLength s \<ge> 4 then on_stream mcs (Stream_Read_UINT32 s) else Ok 0 (mcs, s)) (\<lambda>_ (mcs, s).
      and_then (if Stream_GetRemainingLength s \<ge> 4 then on_stream mcs (Stream_Read_UINT32 s) else Ok 0 (mcs, s)) (\<lambda>_ (mcs, s).
      Ok () (mcs, s)))))"

definition gcc_write_server_core_data :: "gcc_env \<Rightarrow> rdpMcs \<Rightarrow> wStream \<Rightarrow> (unit, wStream) res" where
  "gcc_write_server_core_data env mcs s =
     (let settings = mcs_settings mcs in
     and_then (ensure_room (g_grow env) s 20) (\<lambda>_ s.
     and_then (gcc_write_user_data_header s SC_CORE 16) (\<lambda>_ s.
     and_then (Stream_Write_UINT32 s (RdpVersion settings)) (\<lambda>_ s.
     and_then (Stream_Write_UINT32 s (RequestedProtocols settings)) (\<lambda>_ s.
     Stream_Write_UINT32 s (if SupportDynamicTimeZone settings then 2 else 0))))))"

section \<open>Security data\<close>

definition gcc_read_client_security_data ::
  "rdpMcs \<Rightarrow> wStream \<Rightarrow> u16 \<Rightarrow> (unit, rdpMcs \<times> wStream) res" where
  "gcc_read_client_security_data mcs s blockLength =
     (if blockLength < 8 then Fail (mcs, s)
      else if UseRdpSecurityLayer (mcs_settings mcs) then
        and_then (on_stream mcs (Stream_Read_UINT32 s)) (\<lambda>v (mcs, s).
        let mcs = with_settings (\<lambda>st. st\<lparr>EncryptionMethods := v\<rparr>) mcs in
        if v = 0 then
          and_then (on_stream mcs (Stream_Read_UINT32 s)) (\<lambda>v (mcs, s).
          Ok () (with_settings (\<lambda>st. st\<lparr>EncryptionMethods := v\<rparr>) mcs, s))
        else on_stream mcs (skip_field 4 s))
      else on_stream mcs (skip_field 8 s))"

definition gcc_write_client_security_data :: "rdpMcs \<Rightarrow> wStream \<Rightarrow> (unit, wStream) res" where
  "gcc_write_client_security_data mcs s =
     (let settings = mcs_settings mcs in
     and_then (gcc_write_user_data_header s CS_SECURITY 12) (\<lambda>_ s.
     if UseRdpSecurityLayer settings then
       and_then (Stream_Write_UINT32 s (EncryptionMethods settings)) (\<lambda>_ s. Stream_Write_UINT32 s 0)
     else and_then (Stream_Write_UINT32 s 0) (\<lambda>_ s. Stream_Write_UINT32 s (EncryptionMethods settings))))"

definition known_method :: "u32 \<Rightarrow> bool" where
  "known_method m \<longleftrightarrow> m \<in> {ENCRYPTION_METHOD_NONE, ENCRYPTION_METHOD_40BIT, ENCRYPTION_METHOD_56BIT,
     ENCRYPTION_METHOD_128BIT, ENCRYPTION_METHOD_FIPS}"

definition validCryptoConfig :: "u32 \<Rightarrow> u32 \<Rightarrow> bool" where
  "validCryptoConfig level m \<longleftrightarrow>
     (if level = LEVEL_NONE then m = ENCRYPTION_METHOD_NONE
      else if level = LEVEL_FIPS then m = ENCRYPTION_METHOD_FIPS
      else level \<in> {LEVEL_LOW, LEVEL_HIGH, LEVEL_CLIENT_COMPATIBLE} \<and>
           m \<in> {ENCRYPTION_METHOD_40BIT, ENCRYPTION_METHOD_56BIT, ENCRYPTION_METHOD_128BIT, ENCRYPTION_METHOD_FIPS})"

text \<open>The label \<open>fail\<close>: both blocks are released and their pointers cleared.\<close>

definition drop_security :: "rdpMcs \<Rightarrow> rdpMcs" where
  "drop_security = with_settings (\<lambda>st. st\<lparr>ServerRandom := None, ServerCertificate := None\<rparr>)"

definition read_server_keys :: "gcc_env \<Rightarrow> rdpMcs \<Rightarrow> wStream \<Rightarrow> (unit, rdpMcs \<times> wStream) res" where
  "read_server_keys env mcs s =
     (let randomLength = unat (ServerRandomLength (mcs_settings mcs));
          certLength = unat (ServerCertificateLength (mcs_settings mcs)) in
      if randomLength = 0 \<or> certLength = 0 then Fail (mcs, s)
      else if Stream_GetRemainingLength s < randomLength then Fail (mcs, s)
      else if malloc (g_alloc_random env) randomLength = None then Fail (drop_security mcs, s)
      else and_then (on_stream mcs (Stream_Read s randomLength)) (\<lambda>random (mcs, s).
      let mcs = with_settings (\<lambda>st. st\<lparr>ServerRandom := Some random\<rparr>) mcs in
      if Stream_GetRemainingLength s < certLength then Fail (drop_security mcs, s)
      else if malloc (g_alloc_certificate env) certLength = None then Fail (drop_security mcs, s)
      else and_then (on_stream mcs (Stream_Read s certLength)) (\<lambda>cert (mcs, s).
      let mcs = with_settings (\<lambda>st. st\<lparr>ServerCertificate := Some cert, RdpServerCertificate := None\<rparr>) mcs in
      if \<not> g_certificate_new env then Fail (drop_security mcs, s)
      else let mcs = with_settings (\<lambda>st. st\<lparr>RdpServerCertificate := Some cert\<rparr>) mcs in
      if \<not> g_certificate_read env cert then Fail (drop_security mcs, s)
      else Ok () (mcs, s))))"

definition gcc_read_server_security_data :: "gcc_env \<Rightarrow> rdpMcs \<Rightarrow> wStream \<Rightarrow> (unit, rdpMcs \<times> wStream) res" where
  "gcc_read_server_security_data env mcs s =
     (if Stream_GetRemainingLength s < 8 then Fail (mcs, s)
      else and_then (on_stream mcs (Stream_Read_UINT32 s)) (\<lambda>serverEncryptionMethod (mcs, s).
      and_then (on_stream mcs (Stream_Read_UINT32 s)) (\<lambda>level (mcs, s).
      let mcs = with_settings (\<lambda>st. st\<lparr>EncryptionLevel := level\<rparr>) mcs in
      if \<not> known_method serverEncryptionMethod then Fail (mcs, s)
      else let mcs = with_settings (\<lambda>st. st\<lparr>EncryptionMethods := serverEncryptionMethod\<rparr>) mcs in
      if \<not> validCryptoConfig level serverEncryptionMethod then Fail (mcs, s)
      else if level = LEVEL_NONE then Ok () (with_settings (\<lambda>st. st\<lparr>UseRdpSecurityLayer := False\<rparr>) mcs, s)
      else if Stream_GetRemainingLength s < 8 then Fail (mcs, s)
      else and_then (on_stream mcs (Stream_Read_UINT32 s)) (\<lambda>v (mcs, s).
      let mcs = with_settings (\<lambda>st. st\<lparr>ServerRandomLength := v\<rparr>) mcs in
      and_then (on_stream mcs (Stream_Read_UINT32 s)) (\<lambda>v (mcs, s).
      read_server_keys env (with_settings (\<lambda>st. st\<lparr>ServerCertificateLength := v\<rparr>) mcs) s)))))"

definition server_encryption_level :: "rdpSettings \<Rightarrow> u32" where
  "server_encryption_level st =
     (let level = (if UseRdpSecurityLayer st then EncryptionLevel st else LEVEL_NONE) in
      if level \<in> {LEVEL_NONE, LEVEL_FIPS, LEVEL_HIGH, LEVEL_LOW, LEVEL_CLIENT_COMPATIBLE} then level
      else LEVEL_CLIENT_COMPATIBLE)"

definition server_encryption_method :: "u32 \<Rightarrow> u32 \<Rightarrow> u32" where
  "server_encryption_method level methods =
     (if level = LEVEL_NONE then ENCRYPTION_METHOD_NONE
      else if level = LEVEL_FIPS then ENCRYPTION_METHOD_FIPS
      else if level = LEVEL_HIGH then ENCRYPTION_METHOD_128BIT
      else if methods AND ENCRYPTION_METHOD_128BIT \<noteq> 0 then ENCRYPTION_METHOD_128BIT
      else if methods AND ENCRYPTION_METHOD_56BIT \<noteq> 0 then ENCRYPTION_METHOD_56BIT
      else if methods AND ENCRYPTION_METHOD_40BIT \<noteq> 0 then ENCRYPTION_METHOD_40BIT
      else if methods AND ENCRYPTION_METHOD_FIPS \<noteq> 0 then ENCRYPTION_METHOD_FIPS
      else ENCRYPTION_METHOD_128BIT)"

definition initial_signature :: "u8 list" where
  "initial_signature = replicate 16 0xff @ [0] @ replicate 45 0xff @ [1]"

text \<open>The public key and its signature, everything behind the server random.\<close>

definition write_server_certificate ::
  "gcc_env \<Rightarrow> rdpRsaKey \<Rightarrow> u32 \<Rightarrow> wStream \<Rightarrow> (unit, wStream) res" where
  "write_server_certificate env key wPublicKeyBlobLen s =
     (let keyLen = sint (rsa_ModulusLength key); sigData = Stream_GetPosition s in
     if \<not> (- (2 ^ 31) \<le> keyLen * 8 \<and> keyLen * 8 < 2 ^ 31) then Fault
     else
     and_then (Stream_Write_UINT32 s 1) (\<lambda>_ s.
     and_then (Stream_Write_UINT32 s 1) (\<lambda>_ s.
     and_then (Stream_Write_UINT32 s 1) (\<lambda>_ s.
     and_then (Stream_Write_UINT16 s 6) (\<lambda>_ s.
     and_then (Stream_Write_UINT16 s (ucast wPublicKeyBlobLen)) (\<lambda>_ s.
     and_then (Stream_Write s [0x52, 0x53, 0x41, 0x31] 4) (\<lambda>_ s.
     and_then (Stream_Write_UINT32 s (word_of_int (keyLen + 8))) (\<lambda>_ s.
     and_then (Stream_Write_UINT32 s (word_of_int (keyLen * 8))) (\<lambda>_ s.
     and_then (Stream_Write_UINT32 s (word_of_int (keyLen - 1))) (\<lambda>_ s.
     and_then (Stream_Write s (rsa_exponent key) 4) (\<lambda>_ s.
     and_then (Stream_Write s (rsa_Modulus key) (int_to_size keyLen)) (\<lambda>_ s.
     and_then (Stream_Zero s 8) (\<lambda>_ s.
     let signed = drop sigData (take (Stream_GetPosition s) (s_buffer s)) in
     and_then (Stream_Write_UINT16 s 8) (\<lambda>_ s.
     and_then (Stream_Write_UINT16 s 72) (\<lambda>_ s.
     case g_Digest env signed of None \<Rightarrow> Fail s
     | Some digest \<Rightarrow>
         and_then (Stream_Write s (g_rsa_private_encrypt env (blit initial_signature 0 digest)) 64) (\<lambda>_ s.
         Stream_Zero s 8))))))))))))))))"

definition gcc_write_server_security_data :: "gcc_env \<Rightarrow> rdpMcs \<Rightarrow> wStream \<Rightarrow> (unit, rdpMcs \<times> wStream) res" where
  "gcc_write_server_security_data env mcs s =
     (let level = server_encryption_level (mcs_settings mcs);
          m = server_encryption_method level (EncryptionMethods (mcs_settings mcs));
          mcs = with_settings (\<lambda>st. st\<lparr>EncryptionLevel := level, EncryptionMethods := m\<rparr>) mcs in
      if m = ENCRYPTION_METHOD_NONE then
        and_then (on_stream mcs (ensure_room (g_grow env) s 16)) (\<lambda>_ (mcs, s).
        and_then (on_stream mcs (gcc_write_user_data_header s SC_SECURITY 12)) (\<lambda>_ (mcs, s).
        and_then (on_stream mcs (Stream_Write_UINT32 s m)) (\<lambda>_ (mcs, s).
        on_stream mcs (Stream_Write_UINT32 s level))))
      else case RdpServerRsaKey (mcs_settings mcs) of None \<Rightarrow> Fault
      | Some key \<Rightarrow>
        let wPublicKeyBlobLen = rsa_ModulusLength key + 28;
            serverCertLen = wPublicKeyBlobLen + 92;
            headerLen = serverCertLen + 52 in
        and_then (on_stream mcs (ensure_room (g_grow env) s (unat (headerLen + 4)))) (\<lambda>_ (mcs, s).
        and_then (on_stream mcs (gcc_write_user_data_header s SC_SECURITY (ucast headerLen))) (\<lambda>_ (mcs, s).
        and_then (on_stream mcs (Stream_Write_UINT32 s m)) (\<lambda>_ (mcs, s).
        and_then (on_stream mcs (Stream_Write_UINT32 s level)) (\<lambda>_ (mcs, s).
        and_then (on_stream mcs (Stream_Write_UINT32 s 32)) (\<lambda>_ (mcs, s).
        and_then (on_stream mcs (Stream_Write_UINT32 s serverCertLen)) (\<lambda>_ (mcs, s).
        let mcs = with_settings (\<lambda>st. st\<lparr>ServerRandomLength := 32\<rparr>) mcs in
        if malloc (g_alloc_random env) 32 = None then Fail (with_settings (\<lambda>st. st\<lparr>ServerRandom := None\<rparr>) mcs, s)
        else let mcs = with_settings (\<lambda>st. st\<lparr>ServerRandom := Some (take 32 (g_RAND env))\<rparr>) mcs in
        and_then (on_stream mcs (Stream_Write s (take 32 (g_RAND env)) 32)) (\<lambda>_ (mcs, s).
        on_stream mcs (write_server_certificate env key wPublicKeyBlobLen s)))))))))"

section \<open>Network data\<close>

definition set_channel :: "nat \<Rightarrow> (rdpMcsChannel \<Rightarrow> rdpMcsChannel) \<Rightarrow> rdpMcs \<Rightarrow> rdpMcs" where
  "set_channel i f mcs = mcs\<lparr>mcs_channels := (mcs_channels mcs)[i := f (mcs_channels mcs ! i)]\<rparr>"

primrec read_channel_defs :: "nat \<Rightarrow> nat \<Rightarrow> rdpMcs \<Rightarrow> wStream \<Rightarrow> (unit, rdpMcs \<times> wStream) res" where
  "read_channel_defs 0 i mcs s = Ok () (mcs, s)"
| "read_channel_defs (Suc k) i mcs s =
     (if length (mcs_channels mcs) \<le> i then Fault
      else and_then (on_stream mcs (Stream_Read s 8)) (\<lambda>name (mcs, s).
      let mcs = set_channel i (\<lambda>c. c\<lparr>ch_Name := name\<rparr>) mcs in
      if 0 \<notin> set name then Fail (mcs, s)
      else and_then (on_stream mcs (Stream_Read_UINT32 s)) (\<lambda>options (mcs, s).
      let mcs = set_channel i (\<lambda>c. c\<lparr>ch_options := options, ch_ChannelId := uint (mcs_baseChannelId mcs)\<rparr>) mcs;
          mcs = mcs\<lparr>mcs_baseChannelId := mcs_baseChannelId mcs + 1\<rparr>
      in read_channel_defs k (Suc i) mcs s)))"

definition gcc_read_client_network_data :: "rdpMcs \<Rightarrow> wStream \<Rightarrow> u16 \<Rightarrow> (unit, rdpMcs \<times> wStream) res" where
  "gcc_read_client_network_data mcs s blockLength =
     (if blockLength < 4 then Fail (mcs, s)
      else and_then (on_stream mcs (Stream_Read_UINT32 s)) (\<lambda>channelCount (mcs, s).
      let mcs = mcs\<lparr>mcs_channelCount := channelCount\<rparr> in
      if ucast blockLength < 4 + channelCount * 12 then Fail (mcs, s)
      else if channelCount > CHANNEL_MAX_COUNT then Fail (mcs, s)
      else read_channel_defs (unat channelCount) 0 mcs s))"

primrec write_channel_defs :: "rdpMcsChannel list \<Rightarrow> wStream \<Rightarrow> (unit, wStream) res" where
  "write_channel_defs [] s = Ok () s"
| "write_channel_defs (c # cs) s =
     and_then (Stream_Write s (ch_Name c) 8) (\<lambda>_ s.
     and_then (Stream_Write_UINT32 s (ch_options c)) (\<lambda>_ s. write_channel_defs cs s))"

definition gcc_write_client_network_data :: "rdpMcs \<Rightarrow> wStream \<Rightarrow> (unit, wStream) res" where
  "gcc_write_client_network_data mcs s =
     (if mcs_channelCount mcs > 0 then
        and_then (gcc_write_user_data_header s CS_NET (ucast (mcs_channelCount mcs * 12 + 8))) (\<lambda>_ s.
        and_then (Stream_Write_UINT32 s (mcs_channelCount mcs)) (\<lambda>_ s.
        if length (mcs_channels mcs) < unat (mcs_channelCount mcs) then Fault
        else write_channel_defs (take (unat (mcs_channelCount mcs)) (mcs_channels mcs)) s))
      else Ok () s)"

primrec read_channel_ids :: "nat \<Rightarrow> nat \<Rightarrow> rdpMcs \<Rightarrow> wStream \<Rightarrow> (unit, rdpMcs \<times> wStream) res" where
  "read_channel_ids 0 i mcs s = Ok () (mcs, s)"
| "read_channel_ids (Suc k) i mcs s =
     and_then (on_stream mcs (Stream_Read_UINT16 s)) (\<lambda>channelId (mcs, s).
     if length (mcs_channels mcs) \<le> i then Fault
     else read_channel_ids k (Suc i) (set_channel i (\<lambda>c. c\<lparr>ch_ChannelId := uint channelId\<rparr>) mcs) s)"

definition gcc_read_server_network_data :: "rdpMcs \<Rightarrow> wStream \<Rightarrow> (unit, rdpMcs \<times> wStream) res" where
  "gcc_read_server_network_data mcs s =
     (if Stream_GetRemainingLength s < 4 then Fail (mcs, s)
      else and_then (on_stream mcs (Stream_Read_UINT16 s)) (\<lambda>MCSChannelId (mcs, s).
      and_then (on_stream mcs (Stream_Read_UINT16 s)) (\<lambda>channelCount (mcs, s).
      let parsedChannelCount =
        (if ucast channelCount > mcs_channelCount mcs then ucast (mcs_channelCount mcs) else channelCount) in
      if Stream_GetRemainingLength s < unat channelCount * 2 then Fail (mcs, s)
      else and_then (read_channel_ids (unat parsedChannelCount) 0 mcs s) (\<lambda>_ (mcs, s).
      if channelCount mod 2 = 1 then on_stream mcs (Stream_SafeSeek s 2) else Ok () (mcs, s)))))"

primrec write_channel_ids :: "rdpMcsChannel list \<Rightarrow> wStream \<Rightarrow> (unit, wStream) res" where
  "write_channel_ids [] s = Ok () s"
| "write_channel_ids (c # cs) s =
     and_then (Stream_Write_UINT16 s (word_of_int (ch_ChannelId c))) (\<lambda>_ s. write_channel_ids cs s)"

definition gcc_write_server_network_data :: "gcc_env \<Rightarrow> rdpMcs \<Rightarrow> wStream \<Rightarrow> (unit, wStream) res" where
  "gcc_write_server_network_data env mcs s =
     (let count = mcs_channelCount mcs; payloadLen = 8 + count * 2 + (if count mod 2 = 1 then 2 else 0) in
     if sint payloadLen + 4 \<ge> 2 ^ 31 then Fault
     else
     and_then (ensure_room (g_grow env) s (int_to_size (sint payloadLen + 4))) (\<lambda>_ s.
     and_then (gcc_write_user_data_header s SC_NET (ucast payloadLen)) (\<lambda>_ s.
     and_then (Stream_Write_UINT16 s MCS_GLOBAL_CHANNEL_ID) (\<lambda>_ s.
     and_then (Stream_Write_UINT16 s (ucast count)) (\<lambda>_ s.
     and_then (if length (mcs_channels mcs) < unat count then Fault
               else write_channel_ids (take (unat count) (mcs_channels mcs)) s) (\<lambda>_ s.
     if count mod 2 = 1 then Stream_Write_UINT16 s 0 else Ok () s))))))"

section \<open>Cluster data\<close>

definition gcc_read_client_cluster_data :: "rdpMcs \<Rightarrow> wStream \<Rightarrow> u16 \<Rightarrow> (unit, rdpMcs \<times> wStream) res" where
  "gcc_read_client_cluster_data mcs s blockLength =
     (if blockLength < 8 then Fail (mcs, s)
      else and_then (on_stream mcs (Stream_Read_UINT32 s)) (\<lambda>flags (mcs, s).
      and_then (on_stream mcs (Stream_Read_UINT32 s)) (\<lambda>redirectedSessionId (mcs, s).
      let mcs = (if flags AND 2 \<noteq> 0 then with_settings (\<lambda>st. st\<lparr>RedirectedSessionId := redirectedSessionId\<rparr>) mcs
                 else mcs) in
      if blockLength \<noteq> 8 \<and> Stream_GetRemainingLength s \<ge> unat (blockLength - 8)
      then Ok () (mcs, Stream_Seek s (unat (blockLength - 8))) else Ok () (mcs, s))))"

definition client_cluster_flags :: "rdpSettings \<Rightarrow> u32" where
  "client_cluster_flags st =
     0x0D OR (if ConsoleSession st \<or> RedirectedSessionId st \<noteq> 0 then 0x02 else 0) OR
     (if RedirectSmartCards st then 0x40 else 0)"

definition gcc_write_client_cluster_data :: "rdpMcs \<Rightarrow> wStream \<Rightarrow> (unit, wStream) res" where
  "gcc_write_client_cluster_data mcs s =
     and_then (gcc_write_user_data_header s CS_CLUSTER 12) (\<lambda>_ s.
     and_then (Stream_Write_UINT32 s (client_cluster_flags (mcs_settings mcs))) (\<lambda>_ s.
     Stream_Write_UINT32 s (RedirectedSessionId (mcs_settings mcs))))"

section \<open>Monitor data\<close>

definition set_monitor :: "nat \<Rightarrow> (rdpMonitor \<Rightarrow> rdpMonitor) \<Rightarrow> rdpMcs \<Rightarrow> rdpMcs" where
  "set_monitor i f = with_settings (\<lambda>st. st\<lparr>MonitorDefArray := (MonitorDefArray st)[i := f (MonitorDefArray st ! i)]\<rparr>)"

primrec read_monitors :: "nat \<Rightarrow> nat \<Rightarrow> rdpMcs \<Rightarrow> wStream \<Rightarrow> (unit, rdpMcs \<times> wStream) res" where
  "read_monitors 0 i mcs s = Ok () (mcs, s)"
| "read_monitors (Suc k) i mcs s =
     and_then (on_stream mcs (Stream_Read_UINT32 s)) (\<lambda>left (mcs, s).
     and_then (on_stream mcs (Stream_Read_UINT32 s)) (\<lambda>upper (mcs, s).
     and_then (on_stream mcs (Stream_Read_UINT32 s)) (\<lambda>right (mcs, s).
     and_then (on_stream mcs (Stream_Read_UINT32 s)) (\<lambda>bottom (mcs, s).
     and_then (on_stream mcs (Stream_Read_UINT32 s)) (\<lambda>flags (mcs, s).
     if length (MonitorDefArray (mcs_settings mcs)) \<le> i then Fault
     else read_monitors k (Suc i)
       (set_monitor i (\<lambda>m. m\<lparr>mon_x := left, mon_y := upper, mon_width := right - left + 1,
          mon_height := bottom - upper + 1, mon_is_primary := flags AND 1\<rparr>) mcs) s)))))"

definition gcc_read_client_monitor_data :: "rdpMcs \<Rightarrow> wStream \<Rightarrow> u16 \<Rightarrow> (unit, rdpMcs \<times> wStream) res" where
  "gcc_read_client_monitor_data mcs s blockLength =
     (if blockLength < 8 then Fail (mcs, s)
      else and_then (on_stream mcs (Stream_Read_UINT32 s)) (\<lambda>flags (mcs, s).
      and_then (on_stream mcs (Stream_Read_UINT32 s)) (\<lambda>monitorCount (mcs, s).
      if monitorCount > 16 then Fail (mcs, s)
      else let size = length (MonitorDefArray (mcs_settings mcs));
               count = (if unat monitorCount > size then size else unat monitorCount) in
      if (unat blockLength - 8) div 20 < count then Fail (mcs, s)
      else read_monitors count 0 (with_settings (\<lambda>st. st\<lparr>MonitorCount := of_nat count\<rparr>) mcs) s)))"

text \<open>The difference of two \<open>INT32\<close>, which are kept as their bits.\<close>

definition int32_sub :: "u32 \<Rightarrow> u32 \<Rightarrow> u32 option" where
  "int32_sub a b = (if - (2 ^ 31) \<le> sint a - sint b \<and> sint a - sint b < 2 ^ 31 then Some (a - b) else None)"

primrec write_monitors :: "u32 \<Rightarrow> u32 \<Rightarrow> rdpMonitor list \<Rightarrow> wStream \<Rightarrow> (unit, wStream) res" where
  "write_monitors baseX baseY [] s = Ok () s"
| "write_monitors baseX baseY (m # ms) s =
     (case (int32_sub (mon_x m) baseX, int32_sub (mon_y m) baseY) of
        (Some left, Some upper) \<Rightarrow>
          and_then (Stream_Write_UINT32 s left) (\<lambda>_ s.
          and_then (Stream_Write_UINT32 s upper) (\<lambda>_ s.
          and_then (Stream_Write_UINT32 s (left + mon_width m - 1)) (\<lambda>_ s.
          and_then (Stream_Write_UINT32 s (upper + mon_height m - 1)) (\<lambda>_ s.
          and_then (Stream_Write_UINT32 s (if mon_is_primary m \<noteq> 0 then 1 else 0)) (\<lambda>_ s.
          write_monitors baseX baseY ms s)))))
      | _ \<Rightarrow> Fault)"

definition monitor_base :: "rdpMonitor list \<Rightarrow> u32 \<times> u32" where
  "monitor_base ms = (case find (\<lambda>m. mon_is_primary m \<noteq> 0) ms of None \<Rightarrow> (0, 0) | Some m \<Rightarrow> (mon_x m, mon_y m))"

definition gcc_write_client_monitor_data :: "gcc_env \<Rightarrow> rdpMcs \<Rightarrow> wStream \<Rightarrow> (unit, wStream) res" where
  "gcc_write_client_monitor_data env mcs s =
     (let count = MonitorCount (mcs_settings mcs); monitors = MonitorDefArray (mcs_settings mcs);
          len = (ucast (20 * count + 12) :: u16) in
      if count > 1 then
        and_then (ensure_room (g_grow env) s (unat len)) (\<lambda>_ s.
        and_then (gcc_write_user_data_header s CS_MONITOR len) (\<lambda>_ s.
        and_then (Stream_Write_UINT32 s 0) (\<lambda>_ s.
        and_then (Stream_Write_UINT32 s count) (\<lambda>_ s.
        if length monitors < unat count then Fault
        else let monitors = take (unat count) monitors; (baseX, baseY) = monitor_base monitors
             in write_monitors baseX baseY monitors s))))
      else Ok () s)"

primrec read_monitor_attributes :: "nat \<Rightarrow> nat \<Rightarrow> rdpMcs \<Rightarrow> wStream \<Rightarrow> (unit, rdpMcs \<times> wStream) res" where
  "read_monitor_attributes 0 i mcs s = Ok () (mcs, s)"
| "read_monitor_attributes (Suc k) i mcs s =
     and_then (on_stream mcs (Stream_Read_UINT32 s)) (\<lambda>w (mcs, s).
     and_then (on_stream mcs (Stream_Read_UINT32 s)) (\<lambda>h (mcs, s).
     and_then (on_stream mcs (Stream_Read_UINT32 s)) (\<lambda>orient (mcs, s).
     and_then (on_stream mcs (Stream_Read_UINT32 s)) (\<lambda>desktop (mcs, s).
     and_then (on_stream mcs (Stream_Read_UINT32 s)) (\<lambda>device (mcs, s).
     if length (MonitorDefArray (mcs_settings mcs)) \<le> i then Fault
     else read_monitor_attributes k (Suc i)
       (set_monitor i (\<lambda>m. m\<lparr>mon_attributes := \<lparr>physicalWidth = w, physicalHeight = h, orientation = orient,
          desktopScaleFactor = desktop, deviceScaleFactor = device\<rparr>\<rparr>) mcs) s)))))"

definition gcc_read_client_monitor_extended_data ::
  "rdpMcs \<Rightarrow> wStream \<Rightarrow> u16 \<Rightarrow> (unit, rdpMcs \<times> wStream) res" where
  "gcc_read_client_monitor_extended_data mcs s blockLength =
     (if blockLength < 12 then Fail (mcs, s)
      else and_then (on_stream mcs (Stream_Read_UINT32 s)) (\<lambda>flags (mcs, s).
      and_then (on_stream mcs (Stream_Read_UINT32 s)) (\<lambda>monitorAttributeSize (mcs, s).
      and_then (on_stream mcs (Stream_Read_UINT32 s)) (\<lambda>monitorCount (mcs, s).
      if monitorAttributeSize \<noteq> 20 then Fail (mcs, s)
      else if (unat blockLength - 12) div 20 < unat monitorCount then Fail (mcs, s)
      else if MonitorCount (mcs_settings mcs) \<noteq> monitorCount then Fail (mcs, s)
      else read_monitor_attributes (unat monitorCount) 0
             (with_settings (\<lambda>st. st\<lparr>HasMonitorAttributes := True\<rparr>) mcs) s))))"

primrec write_monitor_attributes :: "rdpMonitor list \<Rightarrow> wStream \<Rightarrow> (unit, wStream) res" where
  "write_monitor_attributes [] s = Ok () s"
| "write_monitor_attributes (m # ms) s =
     (let a = mon_attributes m in
     and_then (Stream_Write_UINT32 s (physicalWidth a)) (\<lambda>_ s.
     and_then (Stream_Write_UINT32 s (physicalHeight a)) (\<lambda>_ s.
     and_then (Stream_Write_UINT32 s (orientation a)) (\<lambda>_ s.
     and_then (Stream_Write_UINT32 s (desktopScaleFactor a)) (\<lambda>_ s.
     and_then (Stream_Write_UINT32 s (deviceScaleFactor a)) (\<lambda>_ s.
     write_monitor_attributes ms s))))))"

definition gcc_write_client_monitor_extended_data :: "gcc_env \<Rightarrow> rdpMcs \<Rightarrow> wStream \<Rightarrow> (unit, wStream) res" where
  "gcc_write_client_monitor_extended_data env mcs s =
     (let count = MonitorCount (mcs_settings mcs); monitors = MonitorDefArray (mcs_settings mcs);
          len = (ucast (20 * count + 16) :: u16) in
      if HasMonitorAttributes (mcs_settings mcs) then
        and_then (ensure_room (g_grow env) s (unat len)) (\<lambda>_ s.
        and_then (gcc_write_user_data_header s CS_MONITOR_EX len) (\<lambda>_ s.
        and_then (Stream_Write_UINT32 s 0) (\<lambda>_ s.
        and_then (Stream_Write_UINT32 s 20) (\<lambda>_ s.
        and_then (Stream_Write_UINT32 s count) (\<lambda>_ s.
        if length monitors < unat count then Fault
        else write_monitor_attributes (take (unat count) monitors) s)))))
      else Ok () s)"

section \<open>Message channel and multitransport data\<close>

definition gcc_read_client_message_channel_data :: "rdpMcs \<Rightarrow> wStream \<Rightarrow> u16 \<Rightarrow> (unit, rdpMcs \<times> wStream) res" where
  "gcc_read_client_message_channel_data mcs s blockLength =
     (if blockLength < 4 then Fail (mcs, s)
      else and_then (on_stream mcs (Stream_Read_UINT32 s)) (\<lambda>flags (mcs, s).
      Ok () (mcs\<lparr>mcs_messageChannelId := mcs_baseChannelId mcs, mcs_baseChannelId := mcs_baseChannelId mcs + 1\<rparr>, s)))"

definition wants_message_channel :: "rdpSettings \<Rightarrow> bool" where
  "wants_message_channel st \<longleftrightarrow> NetworkAutoDetect st \<or> SupportHeartbeatPdu st \<or> SupportMultitransport st"

definition gcc_write_client_message_channel_data :: "rdpMcs \<Rightarrow> wStream \<Rightarrow> (unit, wStream) res" where
  "gcc_write_client_message_channel_data mcs s =
     (if wants_message_channel (mcs_settings mcs) then
        and_then (gcc_write_user_data_header s CS_MCS_MSGCHANNEL 8) (\<lambda>_ s. Stream_Write_UINT32 s 0)
      else Ok () s)"

definition gcc_read_server_message_channel_data :: "rdpMcs \<Rightarrow> wStream \<Rightarrow> (unit, rdpMcs \<times> wStream) res" where
  "gcc_read_server_message_channel_data mcs s =
     (if Stream_GetRemainingLength s < 2 then Fail (mcs, s)
      else and_then (on_stream mcs (Stream_Read_UINT16 s)) (\<lambda>MCSChannelId (mcs, s).
      Ok () (mcs\<lparr>mcs_messageChannelId := MCSChannelId\<rparr>, s)))"

definition gcc_write_server_message_channel_data :: "gcc_env \<Rightarrow> rdpMcs \<Rightarrow> wStream \<Rightarrow> (unit, wStream) res" where
  "gcc_write_server_message_channel_data env mcs s =
     (if mcs_messageChannelId mcs = 0 then Ok () s
      else and_then (ensure_room (g_grow env) s 6) (\<lambda>_ s.
      and_then (gcc_write_user_data_header s SC_MCS_MSGCHANNEL 6) (\<lambda>_ s.
      Stream_Write_UINT16 s (mcs_messageChannelId mcs))))"

definition gcc_read_client_multitransport_channel_data ::
  "rdpMcs \<Rightarrow> wStream \<Rightarrow> u16 \<Rightarrow> (unit, rdpMcs \<times> wStream) res" where
  "gcc_read_client_multitransport_channel_data mcs s blockLength =
     (if blockLength < 4 then Fail (mcs, s)
      else and_then (on_stream mcs (Stream_Read_UINT32 s)) (\<lambda>flags (mcs, s). Ok () (mcs, s)))"

definition gcc_write_client_multitransport_channel_data :: "rdpMcs \<Rightarrow> wStream \<Rightarrow> (unit, wStream) res" where
  "gcc_write_client_multitransport_channel_data mcs s =
     and_then (gcc_write_user_data_header s CS_MULTITRANSPORT 8) (\<lambda>_ s.
     Stream_Write_UINT32 s (MultitransportFlags (mcs_settings mcs)))"

definition gcc_read_server_multitransport_channel_data :: "rdpMcs \<Rightarrow> wStream \<Rightarrow> (unit, rdpMcs \<times> wStream) res" where
  "gcc_read_server_multitransport_channel_data mcs s =
     (if Stream_GetRemainingLength s < 4 then Fail (mcs, s)
      else and_then (on_stream mcs (Stream_Read_UINT32 s)) (\<lambda>flags (mcs, s). Ok () (mcs, s)))"

definition gcc_write_server_multitransport_channel_data :: "rdpMcs \<Rightarrow> wStream \<Rightarrow> (unit, wStream) res" where
  "gcc_write_server_multitransport_channel_data mcs s =
     and_then (gcc_write_user_data_header s SC_MULTITRANSPORT 8) (\<lambda>_ s. Stream_Write_UINT32 s 0)"

section \<open>All blocks of a side\<close>

definition read_client_block ::
  "gcc_env \<Rightarrow> u16 \<Rightarrow> rdpMcs \<Rightarrow> wStream \<Rightarrow> u16 \<Rightarrow> (unit, rdpMcs \<times> wStream) res" where
  "read_client_block env type mcs s len =
     (if type = CS_CORE then gcc_read_client_core_data env mcs s len
      else if type = CS_SECURITY then gcc_read_client_security_data mcs s len
      else if type = CS_NET then gcc_read_client_network_data mcs s len
      else if type = CS_CLUSTER then gcc_read_client_cluster_data mcs s len
      else if type = CS_MONITOR then gcc_read_client_monitor_data mcs s len
      else if type = CS_MCS_MSGCHANNEL then gcc_read_client_message_channel_data mcs s len
      else if type = CS_MONITOR_EX then gcc_read_client_monitor_extended_data mcs s len
      else if type = 0xC009 \<or> type = CS_MULTITRANSPORT then gcc_read_client_multitransport_channel_data mcs s len
      else Ok () (mcs, Stream_Seek s (unat len)))"

text \<open>
  The loops over the blocks. Every round reads a header of 4 bytes, so that as many rounds as there
  are bytes, and a last one, are enough; running out of rounds counts as a \<open>Fault\<close>.
\<close>

primrec client_blocks_loop :: "nat \<Rightarrow> gcc_env \<Rightarrow> rdpMcs \<Rightarrow> wStream \<Rightarrow> u16 \<Rightarrow> (unit, rdpMcs \<times> wStream) res" where
  "client_blocks_loop 0 env mcs s len = Fault"
| "client_blocks_loop (Suc n) env mcs s len =
     (if len = 0 then Ok () (mcs, s)
      else let begPos = Stream_GetPosition s in
      and_then (on_stream mcs (gcc_read_user_data_header s)) (\<lambda>(type, blockLength) (mcs, s).
      if Stream_GetRemainingLength s < unat (blockLength - 4) then Fail (mcs, s)
      else and_then (read_client_block env type mcs s (blockLength - 4)) (\<lambda>_ (mcs, s).
      client_blocks_loop n env mcs (Stream_SetPosition s (size_add begPos (unat blockLength))) (len - blockLength))))"

definition gcc_read_client_data_blocks :: "gcc_env \<Rightarrow> rdpMcs \<Rightarrow> wStream \<Rightarrow> u16 \<Rightarrow> (unit, rdpMcs \<times> wStream) res" where
  "gcc_read_client_data_blocks env mcs s len = client_blocks_loop (Suc (Stream_GetRemainingLength s)) env mcs s len"

definition write_monitor_blocks :: "gcc_env \<Rightarrow> rdpMcs \<Rightarrow> wStream \<Rightarrow> (unit, wStream) res" where
  "write_monitor_blocks env mcs s =
     and_then (gcc_write_client_monitor_data env mcs s) (\<lambda>_ s. gcc_write_client_monitor_extended_data env mcs s)"

definition gcc_write_client_data_blocks :: "gcc_env \<Rightarrow> rdpMcs \<Rightarrow> wStream \<Rightarrow> (unit, wStream) res" where
  "gcc_write_client_data_blocks env mcs s =
     (let settings = mcs_settings mcs; multimon = UseMultimon settings \<and> \<not> SpanMonitors settings in
     and_then (gcc_write_client_core_data env mcs s) (\<lambda>_ s.
     and_then (gcc_write_client_cluster_data mcs s) (\<lambda>_ s.
     and_then (gcc_write_client_security_data mcs s) (\<lambda>_ s.
     and_then (gcc_write_client_network_data mcs s) (\<lambda>_ s.
     if NegotiationFlags settings AND 1 \<noteq> 0 then
       and_then (if multimon then write_monitor_blocks env mcs s else Ok () s) (\<lambda>_ s.
       and_then (gcc_write_client_message_channel_data mcs s) (\<lambda>_ s.
       gcc_write_client_multitransport_channel_data mcs s))
     else if multimon \<and> ForceMultimon settings then write_monitor_blocks env mcs s
     else Ok () s)))))"

definition read_server_block :: "gcc_env \<Rightarrow> u16 \<Rightarrow> rdpMcs \<Rightarrow> wStream \<Rightarrow> (unit, rdpMcs \<times> wStream) res" where
  "read_server_block env type mcs sub =
     (if type = SC_CORE then gcc_read_server_core_data mcs sub
      else if type = SC_SECURITY then gcc_read_server_security_data env mcs sub
      else if type = SC_NET then gcc_read_server_network_data mcs sub
      else if type = SC_MCS_MSGCHANNEL then gcc_read_server_message_channel_data mcs sub
      else if type = SC_MULTITRANSPORT then gcc_read_server_multitransport_channel_data mcs sub
      else Ok () (mcs, sub))"

text \<open>The block is parsed in a stream of its own over the same bytes; only the session survives it.\<close>

primrec server_blocks_loop ::
  "nat \<Rightarrow> gcc_env \<Rightarrow> rdpMcs \<Rightarrow> wStream \<Rightarrow> u16 \<Rightarrow> u16 \<Rightarrow> (unit, rdpMcs \<times> wStream) res" where
  "server_blocks_loop 0 env mcs s offset len = Fault"
| "server_blocks_loop (Suc n) env mcs s offset len =
     (if offset < len then
        and_then (on_stream mcs (gcc_read_user_data_header s)) (\<lambda>(type, blockLength) (mcs, s).
        let size = unat (blockLength - 4);
            sub = Stream_StaticInit (take size (drop (s_pointer s) (s_buffer s))) size in
        and_then (on_stream mcs (Stream_SafeSeek s size)) (\<lambda>_ (mcs, s).
        case read_server_block env type mcs sub of
          Fault \<Rightarrow> Fault
        | Fail (mcs, _) \<Rightarrow> Fail (mcs, s)
        | Ok _ (mcs, _) \<Rightarrow> server_blocks_loop n env mcs s (offset + blockLength) len))
      else Ok () (mcs, s))"

definition gcc_read_server_data_blocks :: "gcc_env \<Rightarrow> rdpMcs \<Rightarrow> wStream \<Rightarrow> u16 \<Rightarrow> (unit, rdpMcs \<times> wStream) res" where
  "gcc_read_server_data_blocks env mcs s len =
     server_blocks_loop (Suc (Stream_GetRemainingLength s)) env mcs s 0 len"

definition gcc_write_server_data_blocks :: "gcc_env \<Rightarrow> rdpMcs \<Rightarrow> wStream \<Rightarrow> (unit, rdpMcs \<times> wStream) res" where
  "gcc_write_server_data_blocks env mcs s =
     and_then (on_stream mcs (gcc_write_server_core_data env mcs s)) (\<lambda>_ (mcs, s).
     and_then (on_stream mcs (gcc_write_server_network_data env mcs s)) (\<lambda>_ (mcs, s).
     and_then (gcc_write_server_security_data env mcs s) (\<lambda>_ (mcs, s).
     on_stream mcs (gcc_write_server_message_channel_data env mcs s))))"

end
