(* ===== verification/Mcs_Protocol.thy ===== *)
theory Mcs_Protocol
  imports Core_Mcs
begin

text \<open>
  The exchange of MCS PDUs between two sides: what a sender hands to its transport is what the
  receiver on the other side accepts, with the values of the sender.
\<close>

section \<open>Sending\<close>

lemma transmit_put:
  assumes "stream_ok s" "s_pointer s = 0" "length bs \<le> room s" "0 \<le> tw bs"
  shows "transmit tw (m, sent) (Stream_SealLength (put bs s)) = Ok () (m, sent @ [bs])"
    "transmit tw (m, sent) (put bs s) = Ok () (m, sent @ [bs])"
proof -
  have "take (s_pointer (put bs s)) (s_buffer (put bs s)) = bs"
    using written_prefix [OF assms(1-3)] assms(2) by simp
  with assms(4) show "transmit tw (m, sent) (Stream_SealLength (put bs s)) = Ok () (m, sent @ [bs])"
    "transmit tw (m, sent) (put bs s) = Ok () (m, sent @ [bs])"
    by (simp_all add: transmit_def Stream_SealLength_def)
qed


section \<open>Domain PDU headers\<close>

definition mcs_header_enc :: "u8 \<Rightarrow> u16 \<Rightarrow> u8 \<Rightarrow> u8 list" where
  "mcs_header_enc pdu len options =
     (tpkt_enc len @ tpdu_enc (X224_TPDU_DATA, 2)) @ [push_bit 2 pdu OR options]"

lemma length_mcs_header_enc [simp]: "length (mcs_header_enc pdu len options) = 8"
  by (simp add: mcs_header_enc_def tpdu_enc_def)

lemma mcs_write_header_enc [stream_write]:
  assumes "stream_ok s" "8 \<le> room s"
  shows "mcs_write_domain_mcspdu_header s pdu len options = Ok () (put (mcs_header_enc pdu len options) s)"
proof -
  have "length (tpdu_enc (X224_TPDU_DATA, 2)) = 3" by (simp add: tpdu_enc_def)
  with assms show ?thesis
    by (simp add: mcs_write_domain_mcspdu_header_def tpdu_write_data_def stream_write
        per_write_choice_def mcs_header_enc_def)
qed

lemma mcs_choice_pdu:
  assumes "pdu < 64" "options < 4"
  shows "drop_bit 2 (push_bit 2 pdu OR options :: u8) = pdu"
proof -
  have p: "\<not> bit pdu n" if "6 \<le> n" for n
  proof (rule bit_less_exp)
    have "unat pdu < 2 ^ 6" using assms(1) by (simp add: word_less_nat_alt)
    also have "(2 :: nat) ^ 6 \<le> 2 ^ n" using that by (rule power_increasing) simp
    finally show "unat pdu < 2 ^ n" .
  qed
  have o2: "\<not> bit options (2 + n)" for n
  proof (rule bit_less_exp)
    have "unat options < 2 ^ 2" using assms(2) by (simp add: word_less_nat_alt)
    also have "(2 :: nat) ^ 2 \<le> 2 ^ (2 + n)" by (rule power_increasing) simp_all
    finally show "unat options < 2 ^ (2 + n)" .
  qed
  have "n < 6" if "bit pdu n" for n using p [of n] that by (meson not_less)
  with o2 show ?thesis
    by (intro bit_word_eqI) (auto simp: bit_simps)
qed

lemma mcs_read_header_enc:
  assumes "readable s" "remaining s = mcs_header_enc pdu len options @ rest"
    "unat len = length rest + 8" "pdu < 64" "options < 4"
  shows "mcs_read_domain_mcspdu_header s pdu = Ok len (skip 8 s)"
proof -
  have frame: "and_then (tpkt_read_header s) (\<lambda>len s. and_then (tpdu_read_data s len) (\<lambda>li s. Ok (len, li) s))
      = Ok (len, 2) (skip 7 s)"
    using assms by (intro slow_path_header_enc [where rest = "(push_bit 2 pdu OR options) # rest"])
      (auto simp: mcs_header_enc_def)
  then obtain t where t: "tpkt_read_header s = Ok len t" "tpdu_read_data t len = Ok 2 (skip 7 s)"
    by (auto simp: and_then_Ok_iff)
  have "readable (skip 7 s)" "remaining (skip 7 s) = (push_bit 2 pdu OR options) # rest"
    using assms(1,2) by (simp_all add: mcs_header_enc_def tpdu_enc_def tpkt_enc_def be16_def)
  then have "per_read_choice (skip 7 s) = Ok (push_bit 2 pdu OR options) (skip 8 s)"
    by (simp add: per_choice_enc(2))
  with t mcs_choice_pdu [OF assms(4,5)] show ?thesis
    by (simp add: mcs_read_domain_mcspdu_header_def)
qed

section \<open>Domain PDUs\<close>

lemma tpkt_consumed: "readable s \<Longrightarrow> remaining s = [] \<Longrightarrow> tpkt_ensure_stream_consumed s"
  by (simp add: tpkt_ensure_stream_consumed_def)

lemma integer16_octets:
  assumes "stream_ok s" "2 \<le> room s"
  shows "per_write_integer16 s v k = Ok () (put (be16 (v - k)) s)"
  using assms by (simp add: per_write_integer16_enc per_integer16_enc_def)

lemma integer16_octets_read:
  assumes "readable s" "remaining s = be16 (v - k) @ rest" "k \<le> v"
  shows "per_read_integer16 s k = Ok v (skip 2 s)"
  using per_read_integer16_enc [of s k v rest] assms by (simp add: per_integer16_enc_def)

definition attach_user_confirm_pdu :: "u16 \<Rightarrow> u8 list" where
  "attach_user_confirm_pdu userId =
     mcs_header_enc DomainMCSPDU_AttachUserConfirm 11 2 @ [0] @ be16 (userId - MCS_BASE_CHANNEL_ID)"

definition channel_join_request_pdu :: "u16 \<Rightarrow> u16 \<Rightarrow> u8 list" where
  "channel_join_request_pdu userId channelId =
     mcs_header_enc DomainMCSPDU_ChannelJoinRequest 12 0 @ be16 (userId - MCS_BASE_CHANNEL_ID) @ be16 channelId"

definition channel_join_confirm_pdu :: "u16 \<Rightarrow> u16 \<Rightarrow> u8 list" where
  "channel_join_confirm_pdu userId channelId =
     mcs_header_enc DomainMCSPDU_ChannelJoinConfirm 15 2 @ [0] @ be16 (userId - MCS_BASE_CHANNEL_ID) @
     be16 channelId @ be16 channelId"

definition erect_domain_pdu :: "u8 list" where
  "erect_domain_pdu = mcs_header_enc DomainMCSPDU_ErectDomainRequest 12 0 @ [1, 0, 1, 0]"

definition attach_user_request_pdu :: "u8 list" where
  "attach_user_request_pdu = mcs_header_enc DomainMCSPDU_AttachUserRequest 8 0"

lemma domain_sends:
  assumes tw: "\<And>bs. 0 \<le> tw bs"
  shows "mcs_send_erect_domain_request (Some u, Some f) tw m sent = Ok () (m, sent @ [erect_domain_pdu])"
    and "mcs_send_attach_user_request (Some u, Some f) tw m sent = Ok () (m, sent @ [attach_user_request_pdu])"
    and "mcs_send_channel_join_request (Some u, Some f) tw m ch sent =
      Ok () (m, sent @ [channel_join_request_pdu (mcs_userId m) ch])"
    and "mcs_send_channel_join_confirm (Some u, Some f) tw m ch sent =
      Ok () (m, sent @ [channel_join_confirm_pdu (mcs_userId m) ch])"
  by (simp_all add: mcs_send_erect_domain_request_def mcs_send_attach_user_request_def
      mcs_send_channel_join_request_def mcs_send_channel_join_confirm_def with_stream_granted
      stream_write per_write_integer_enc per_integer_enc_def per_write_enumerated_def integer16_octets
      transmit_put tw erect_domain_pdu_def attach_user_request_pdu_def channel_join_request_pdu_def
      channel_join_confirm_pdu_def)

lemma attach_user_confirm_send:
  assumes tw: "\<And>bs. 0 \<le> tw bs"
  shows "mcs_send_attach_user_confirm (Some u, Some f) tw m sent =
    Ok () (m\<lparr>mcs_userId := mcs_baseChannelId m, mcs_baseChannelId := mcs_baseChannelId m + 1\<rparr>,
           sent @ [attach_user_confirm_pdu (mcs_baseChannelId m)])"
  by (simp add: mcs_send_attach_user_confirm_def with_stream_granted stream_write
      per_write_enumerated_def integer16_octets transmit_put tw attach_user_confirm_pdu_def)

lemma domain_header_received:
  assumes "unat len = length rest + 8" "pdu < 64" "options < 4"
  defines "s \<equiv> received (mcs_header_enc pdu len options @ rest)"
  shows "mcs_read_domain_mcspdu_header s pdu = Ok len (skip 8 s)" "readable (skip 8 s)"
    "remaining (skip 8 s) = rest"
proof -
  have "unat len < 2 ^ LENGTH(16)" by (rule unsigned_less)
  then have "length (mcs_header_enc pdu len options @ rest) < 2 ^ 63" using assms(1) by simp
  then have r: "readable s" unfolding s_def by (rule received_readable)
  have rem: "remaining s = mcs_header_enc pdu len options @ rest"
    unfolding s_def by (rule remaining_received)
  show "mcs_read_domain_mcspdu_header s pdu = Ok len (skip 8 s)"
    using mcs_read_header_enc [OF r rem assms(1-3)] .
  show "readable (skip 8 s)" "remaining (skip 8 s) = rest" using r rem by simp_all
qed

lemma erect_domain_received:
  "\<exists>s. mcs_recv_erect_domain_request m (received erect_domain_pdu) = Ok () (m, s)"
proof -
  let ?s = "received erect_domain_pdu"
  have h: "mcs_read_domain_mcspdu_header ?s DomainMCSPDU_ErectDomainRequest = Ok 12 (skip 8 ?s)"
    "readable (skip 8 ?s)" "remaining (skip 8 ?s) = [1, 0, 1, 0]"
    using domain_header_received [of 12 "[1, 0, 1, 0]" DomainMCSPDU_ErectDomainRequest 0]
    by (simp_all add: erect_domain_pdu_def mcs_consts)
  define t where "t = skip 8 ?s"
  have "per_read_integer t = Ok 0 (skip 2 t)" "per_read_integer (skip 2 t) = Ok 0 (skip 4 t)"
    using h per_read_integer_enc [of t 0 "[1, 0]"] per_read_integer_enc [of "skip 2 t" 0 "[]"]
    by (simp_all add: t_def [symmetric] per_integer_enc_def skip_literals)
  with h show ?thesis
    by (simp add: mcs_recv_erect_domain_request_def t_def [symmetric] tpkt_consumed)
qed

lemma attach_user_request_received:
  "\<exists>s. mcs_recv_attach_user_request m (received attach_user_request_pdu) = Ok () (m, s)"
  using domain_header_received [of 8 "[]" DomainMCSPDU_AttachUserRequest 0]
  by (simp add: mcs_recv_attach_user_request_def attach_user_request_pdu_def tpkt_consumed mcs_consts)

lemma attach_user_confirm_received:
  assumes "MCS_BASE_CHANNEL_ID \<le> v"
  shows "\<exists>s. mcs_recv_attach_user_confirm m (received (attach_user_confirm_pdu v)) =
    Ok () (m\<lparr>mcs_userId := v\<rparr>, s)"
proof -
  let ?s = "received (attach_user_confirm_pdu v)"
  let ?body = "0 # be16 (v - MCS_BASE_CHANNEL_ID)"
  have h: "mcs_read_domain_mcspdu_header ?s DomainMCSPDU_AttachUserConfirm = Ok 11 (skip 8 ?s)"
    "readable (skip 8 ?s)" "remaining (skip 8 ?s) = ?body"
    using domain_header_received [of 11 ?body DomainMCSPDU_AttachUserConfirm 2]
    by (simp_all add: attach_user_confirm_pdu_def mcs_consts)
  define t where "t = skip 8 ?s"
  have "per_read_enumerated t MCS_Result_enum_length = Ok 0 (skip 1 t)"
    using h per_enumerated_enc(2) [of t 0 MCS_Result_enum_length]
    by (simp add: t_def [symmetric] mcs_consts)
  moreover have "per_read_integer16 (skip 1 t) MCS_BASE_CHANNEL_ID = Ok v (skip 3 t)"
    using h assms integer16_octets_read [of "skip 1 t" v MCS_BASE_CHANNEL_ID "[]"]
    by (simp add: t_def [symmetric] skip_literals)
  ultimately show ?thesis
    using h by (simp add: mcs_recv_attach_user_confirm_def t_def [symmetric] tpkt_consumed)
qed

lemma channel_join_request_received:
  assumes "MCS_BASE_CHANNEL_ID \<le> v"
  shows "\<exists>s. mcs_recv_channel_join_request junk m (received (channel_join_request_pdu v ch)) = Ok ch (m, s)"
proof -
  let ?s = "received (channel_join_request_pdu v ch)"
  let ?body = "be16 (v - MCS_BASE_CHANNEL_ID) @ be16 ch"
  have h: "mcs_read_domain_mcspdu_header ?s DomainMCSPDU_ChannelJoinRequest = Ok 12 (skip 8 ?s)"
    "readable (skip 8 ?s)" "remaining (skip 8 ?s) = ?body"
    using domain_header_received [of 12 ?body DomainMCSPDU_ChannelJoinRequest 0]
    by (simp_all add: channel_join_request_pdu_def mcs_consts)
  define t where "t = skip 8 ?s"
  have "per_read_integer16 t MCS_BASE_CHANNEL_ID = Ok v (skip 2 t)"
    "per_read_integer16 (skip 2 t) 0 = Ok ch (skip 4 t)"
    using h assms integer16_octets_read [of t v MCS_BASE_CHANNEL_ID "be16 ch"]
      integer16_octets_read [of "skip 2 t" ch 0 "[]"]
    by (simp_all add: t_def [symmetric])
  with h show ?thesis
    by (simp add: mcs_recv_channel_join_request_def t_def [symmetric] tpkt_consumed)
qed

lemma channel_join_confirm_received:
  assumes "MCS_BASE_CHANNEL_ID \<le> v"
  shows "\<exists>s. mcs_recv_channel_join_confirm m (received (channel_join_confirm_pdu v ch)) = Ok ch (m, s)"
proof -
  let ?s = "received (channel_join_confirm_pdu v ch)"
  let ?body = "0 # be16 (v - MCS_BASE_CHANNEL_ID) @ be16 ch @ be16 ch"
  have h: "mcs_read_domain_mcspdu_header ?s DomainMCSPDU_ChannelJoinConfirm = Ok 15 (skip 8 ?s)"
    "readable (skip 8 ?s)" "remaining (skip 8 ?s) = ?body"
    using domain_header_received [of 15 ?body DomainMCSPDU_ChannelJoinConfirm 2]
    by (simp_all add: channel_join_confirm_pdu_def mcs_consts)
  define t where "t = skip 8 ?s"
  have "per_read_enumerated t MCS_Result_enum_length = Ok 0 (skip 1 t)"
    using h per_enumerated_enc(2) [of t 0 MCS_Result_enum_length]
    by (simp add: t_def [symmetric] mcs_consts)
  moreover have "per_read_integer16 (skip 1 t) MCS_BASE_CHANNEL_ID = Ok v (skip 3 t)"
    "per_read_integer16 (skip 3 t) 0 = Ok ch (skip 5 t)" "per_read_integer16 (skip 5 t) 0 = Ok ch (skip 7 t)"
    using h assms integer16_octets_read [of "skip 1 t" v MCS_BASE_CHANNEL_ID "be16 ch @ be16 ch"]
      integer16_octets_read [of "skip 3 t" ch 0 "be16 ch"] integer16_octets_read [of "skip 5 t" ch 0 "[]"]
    by (simp_all add: t_def [symmetric] skip_literals)
  ultimately show ?thesis
    using h by (simp add: mcs_recv_channel_join_confirm_def t_def [symmetric] tpkt_consumed)
qed

section \<open>Domain parameters\<close>

definition dp_body :: "DomainParameters \<Rightarrow> u8 list" where
  "dp_body dp =
     ber_integer_enc (maxChannelIds dp) @ ber_integer_enc (maxUserIds dp) @
     ber_integer_enc (maxTokenIds dp) @ ber_integer_enc (numPriorities dp) @
     ber_integer_enc (minThroughput dp) @ ber_integer_enc (maxHeight dp) @
     ber_integer_enc (maxMCSPDUsize dp) @ ber_integer_enc (protocolVersion dp)"

definition dp_enc :: "DomainParameters \<Rightarrow> u8 list" where
  "dp_enc dp = ber_sequence_enc (length (dp_body dp)) @ dp_body dp"

lemma length_dp_body: "length (dp_body dp) \<le> 48"
proof -
  have "ber_sizeof_integer v \<le> 6" for v by (simp add: ber_sizeof_integer_def)
  from this [of "maxChannelIds dp"] this [of "maxUserIds dp"] this [of "maxTokenIds dp"]
    this [of "numPriorities dp"] this [of "minThroughput dp"] this [of "maxHeight dp"]
    this [of "maxMCSPDUsize dp"] this [of "protocolVersion dp"]
  show ?thesis by (simp add: dp_body_def)
qed

lemma length_dp_enc: "length (dp_enc dp) = 2 + length (dp_body dp)" "length (dp_enc dp) \<le> 50"
  using length_dp_body [of dp] by (simp_all add: dp_enc_def ber_sizeof_sequence_tag_def ber_sizeof_length_def)

lemma mcs_write_domain_parameters_enc:
  assumes "stream_ok s" "length (dp_enc dp) \<le> room s"
  shows "mcs_write_domain_parameters (Some u, Some f) s dp = Ok () (put (dp_enc dp) s)"
proof -
  let ?b = "dp_body dp" and ?t = "fresh f (s_capacity s)"
  have cap: "length ?b + 2 \<le> s_capacity s" "s_capacity s < 2 ^ 63"
    using assms length_dp_enc(1) [of dp] by (auto simp: room_def stream_ok_def)
  then have "0 < s_capacity s" by simp
  moreover have "and_then (ber_write_integer ?t (maxChannelIds dp)) (\<lambda>_ tmps.
        and_then (ber_write_integer tmps (maxUserIds dp)) (\<lambda>_ tmps.
        and_then (ber_write_integer tmps (maxTokenIds dp)) (\<lambda>_ tmps.
        and_then (ber_write_integer tmps (numPriorities dp)) (\<lambda>_ tmps.
        and_then (ber_write_integer tmps (minThroughput dp)) (\<lambda>_ tmps.
        and_then (ber_write_integer tmps (maxHeight dp)) (\<lambda>_ tmps.
        and_then (ber_write_integer tmps (maxMCSPDUsize dp)) (\<lambda>_ tmps.
        ber_write_integer tmps (protocolVersion dp)))))))) =
      Ok (ber_sizeof_integer (protocolVersion dp)) (put ?b ?t)"
    using cap by (simp add: stream_write dp_body_def)
  moreover have "take (length ?b) (s_buffer (put ?b ?t)) = ?b"
    using cap by (intro written_prefix) auto
  moreover have "length ?b \<le> length (s_buffer (put ?b ?t))"
    using cap by (simp add: put_def fresh_def)
  ultimately show ?thesis
    using assms length_dp_enc(1) [of dp] cap
    by (simp add: mcs_write_domain_parameters_def with_stream_granted Stream_GetPosition_def stream_write
        dp_enc_def)
qed

lemma read_field_enc:
  assumes "readable s" "remaining s = ber_integer_enc v @ rest"
  shows "read_field store d s = Ok () (store v d, skip (ber_sizeof_integer v) s)"
  using assms by (simp add: read_field_def ber_read_uint_def ber_read_integer_enc)

lemma read_field_then:
  assumes "readable s" "remaining s = ber_integer_enc v @ rest"
    and "\<And>t. readable t \<Longrightarrow> remaining t = rest \<Longrightarrow> t = skip (ber_sizeof_integer v) s \<Longrightarrow> g (store v d) t = r"
  shows "and_then (read_field store d s) (\<lambda>_. case_prod g) = r"
  using assms(1,2) assms(3) [of "skip (ber_sizeof_integer v) s"] skip_over [OF assms(2), of "ber_sizeof_integer v"]
  by (simp add: read_field_enc)

lemma dp_updates:
  "old\<lparr>maxChannelIds := maxChannelIds dp, maxUserIds := maxUserIds dp, maxTokenIds := maxTokenIds dp,
       numPriorities := numPriorities dp, minThroughput := minThroughput dp, maxHeight := maxHeight dp,
       maxMCSPDUsize := maxMCSPDUsize dp, protocolVersion := protocolVersion dp\<rparr> = (dp :: DomainParameters)"
  by simp

lemma mcs_read_domain_parameters_enc:
  assumes "readable s" "remaining s = dp_enc dp @ rest"
  shows "mcs_read_domain_parameters old s = Ok () (dp, skip (length (dp_enc dp)) s)"
proof -
  let ?n = "ber_sizeof_sequence_tag (length (dp_body dp))"
  have tag: "ber_read_sequence_tag s = Ok (length (dp_body dp)) (skip ?n s)"
    using assms length_dp_body [of dp]
    by (intro ber_read_sequence_tag_enc [where rest = "dp_body dp @ rest"]) (auto simp: dp_enc_def)
  define t where "t = skip ?n s"
  have "remaining s = ber_sequence_enc (length (dp_body dp)) @ dp_body dp @ rest"
    using assms(2) by (simp add: dp_enc_def)
  from skip_over [OF this, of ?n] assms(1)
  have t: "readable t" "remaining t = dp_body dp @ rest" by (simp_all add: t_def)
  have "mcs_read_domain_parameters old s = Ok () (dp, skip (length (dp_body dp)) t)"
    unfolding mcs_read_domain_parameters_def tag t_def [symmetric] on_stream_simps and_then.simps prod.case
    by (rule read_field_then, use t in \<open>simp_all add: dp_body_def\<close>)
      ((rule read_field_then, assumption, assumption)+,
        simp add: read_field_enc [where rest = rest] dp_updates add.assoc)
  then show ?thesis by (simp add: t_def dp_enc_def)
qed

section \<open>The Connect-Initial PDU\<close>

definition ci_body :: "rdpMcs \<Rightarrow> u8 list \<Rightarrow> u8 list" where
  "ci_body mcs data =
     [4, 1, 1] @ [4, 1, 1] @ ber_BOOL_enc 1 @ dp_enc (mcs_targetParameters mcs) @
     dp_enc (mcs_minimumParameters mcs) @ dp_enc (mcs_maximumParameters mcs) @
     ber_octets_enc (length data) @ data"

definition ci_enc :: "rdpMcs \<Rightarrow> u8 list \<Rightarrow> u8 list" where
  "ci_enc mcs data = ber_appl_enc MCS_TYPE_CONNECT_INITIAL (length (ci_body mcs data)) @ ci_body mcs data"

lemma length_ci_body: "length (ci_body mcs data) \<le> length data + 163"
  using length_dp_enc(2) [of "mcs_targetParameters mcs"] length_dp_enc(2) [of "mcs_minimumParameters mcs"]
    length_dp_enc(2) [of "mcs_maximumParameters mcs"] ber_sizeof_length_bounds(2) [of "length data"]
  by (simp add: ci_body_def)

lemma length_ci_enc: "length (ci_enc mcs data) \<le> length data + 168"
  using length_ci_body [of mcs data] ber_sizeof_length_bounds(2) [of "length (ci_body mcs data)"]
  by (simp add: ci_enc_def mcs_consts)

lemma ber_write_octet_string_enc:
  assumes "stream_ok s" "n \<le> length b" "1 + ber_sizeof_length n + n \<le> room s"
  shows "ber_write_octet_string s b n =
    Ok (1 + ber_sizeof_length n + n) (put (ber_octets_enc n @ take n b) s)"
  using assms
  by (simp add: ber_write_octet_string_def ber_universal_tag_enc ber_octets_enc_def stream_write)

lemma octets_selector: "ber_octets_enc (Suc 0) = [4, 1]" "ber_sizeof_length (Suc 0) = 1"
  using ber_length_enc_short by (simp_all add: ber_octets_enc_def)

lemma mcs_write_connect_initial_enc:
  assumes ora: "\<And>i. granted (ora i)" and s: "stream_ok s" and u: "stream_ok u"
    and fit: "s_pointer u + 168 \<le> room s"
  defines "data \<equiv> take (s_pointer u) (s_buffer u)"
  shows "mcs_write_connect_initial ora s mcs u = Ok () (put (ci_enc mcs data) s)"
proof -
  have n: "length data = s_pointer u" "s_pointer u \<le> length (s_buffer u)"
    using u by (auto simp: data_def stream_ok_def)
  let ?b = "ci_body mcs data"
  have len: "length ?b \<le> room s" "length (ci_enc mcs data) \<le> room s"
    using fit n length_ci_body [of mcs data] length_ci_enc [of mcs data] by simp_all
  have cap: "room s \<le> s_capacity s" "s_capacity s < 2 ^ 63" "0 < s_capacity s"
    using s fit by (auto simp: room_def stream_ok_def)
  obtain u0 f0 where o0: "ora 0 = (Some u0, Some f0)" using granted_cases [of "ora 0"] ora by blast
  let ?t = "fresh f0 (s_capacity s)"
  note dl = length_dp_enc(2) [of "mcs_targetParameters mcs"] length_dp_enc(2) [of "mcs_minimumParameters mcs"]
    length_dp_enc(2) [of "mcs_maximumParameters mcs"] ber_sizeof_length_bounds(2) [of "s_pointer u"]
  have dp: "mcs_write_domain_parameters (ora i) t d = Ok () (put (dp_enc d) t)"
    if "stream_ok t" "50 \<le> room t" for i t d
  proof -
    obtain v g where "ora i = (Some v, Some g)" using granted_cases [of "ora i"] ora by blast
    with that length_dp_enc(2) [of d] show ?thesis by (simp add: mcs_write_domain_parameters_enc)
  qed
  have tmp: "\<exists>k. and_then (ber_write_octet_string ?t callingDomainSelector 1) (\<lambda>_ tmps.
        and_then (ber_write_octet_string tmps calledDomainSelector 1) (\<lambda>_ tmps.
        and_then (ber_write_BOOL tmps 1) (\<lambda>_ tmps.
        and_then (mcs_write_domain_parameters (ora 1) tmps (mcs_targetParameters mcs)) (\<lambda>_ tmps.
        and_then (mcs_write_domain_parameters (ora 2) tmps (mcs_minimumParameters mcs)) (\<lambda>_ tmps.
        and_then (mcs_write_domain_parameters (ora 3) tmps (mcs_maximumParameters mcs)) (\<lambda>_ tmps.
        ber_write_octet_string tmps (s_buffer u) (Stream_GetPosition u))))))) = Ok k (put ?b ?t)"
    (is "\<exists>k. ?w = Ok k _")
    using cap fit n dl
    by (simp add: callingDomainSelector_def calledDomainSelector_def octets_selector stream_write dp
        ber_write_octet_string_enc Stream_GetPosition_def ci_body_def data_def)
  then obtain k where "?w = Ok k (put ?b ?t)" ..
  moreover have "take (length ?b) (s_buffer (put ?b ?t)) = ?b"
    using cap len by (intro written_prefix) auto
  moreover have "length ?b \<le> length (s_buffer (put ?b ?t))"
    using cap len by (simp add: put_def fresh_def)
  ultimately show ?thesis
    using s len cap
    by (simp add: mcs_write_connect_initial_def o0 with_stream_granted Stream_GetPosition_def stream_write
        ci_enc_def)
qed

definition framed :: "u8 list \<Rightarrow> u8 list" where
  "framed bs = (tpkt_enc (of_nat (7 + length bs)) @ tpdu_enc (X224_TPDU_DATA, 2)) @ bs"

lemma gap_stream:
  assumes "7 \<le> n" "n < 2 ^ 63"
  shows "stream_ok (Stream_Seek (fresh f n) 7)" "room (Stream_Seek (fresh f n) 7) = n - 7"
    "s_pointer (Stream_Seek (fresh f n) 7) = 7" "s_capacity (Stream_Seek (fresh f n) 7) = n"
    "s_buffer (Stream_Seek (fresh f n) 7) = map f [0..<n]"
  using assms by (simp_all add: Stream_Seek_def size_add_def stream_ok_def fresh_def room_def)

lemma send_framed_put:
  assumes n: "7 + length bs \<le> n" "n < 2 ^ 63" "7 + length bs \<le> 0xFFFF" and tw: "\<And>bs. 0 \<le> tw bs"
  shows "send_framed tw (m, sent) 0 (put bs (Stream_Seek (fresh f n) 7)) = Ok () (m, sent @ [framed bs])"
proof -
  let ?s = "put bs (Stream_Seek (fresh f n) 7)" and ?h = "tpkt_enc (of_nat (7 + length bs)) @ tpdu_enc (X224_TPDU_DATA, 2)"
  have gap: "7 \<le> n" using n(1) by simp
  note g = gap_stream [OF gap n(2), of f]
  have h: "length ?h = 7" by (simp add: tpdu_enc_def)
  have ok: "stream_ok (Stream_SetPosition ?s 0)" "room (Stream_SetPosition ?s 0) = n"
    using g n by (auto simp: Stream_SetPosition_def stream_ok_def room_def put_def)
  have w: "tpkt_write_header (Stream_SetPosition ?s 0) (of_nat (7 + length bs)) =
      Ok () (put (tpkt_enc (of_nat (7 + length bs))) (Stream_SetPosition ?s 0))"
    "tpdu_write_data (put (tpkt_enc (of_nat (7 + length bs))) (Stream_SetPosition ?s 0)) =
      Ok () (put ?h (Stream_SetPosition ?s 0))"
    using ok gap by (simp_all add: stream_write tpdu_write_data_def tpdu_enc_def del: of_nat_add)
  have "take (7 + length bs) (blit (blit (map f [0..<n]) 7 bs) 0 ?h) = ?h @ bs"
    using n h by (simp add: blit_def)
  then have "take (7 + length bs) (s_buffer (put ?h (Stream_SetPosition ?s 0))) = framed bs"
    using g by (simp add: put_def Stream_SetPosition_def framed_def del: of_nat_add)
  with w g n tw show ?thesis
    by (simp add: send_framed_def Stream_GetPosition_def size_sub_def transmit_def Stream_SealLength_def
        Let_def Stream_SetPosition_def leD del: of_nat_add)
qed

definition connect_initial_pdu :: "rdpMcs \<Rightarrow> u8 list \<Rightarrow> u8 list" where
  "connect_initial_pdu mcs blocks =
     framed (ci_enc mcs (gcc_request_head (length blocks) @ blocks))"

text \<open>
  What the senders of connect PDUs rely on in the writer of the data blocks: given a fresh stream it
  leaves a well-formed stream that holds the bytes \<open>blk\<close>.
\<close>

definition blocks_written :: "(rdpMcs \<Rightarrow> wStream \<Rightarrow> (unit, wStream) res) \<Rightarrow> rdpMcs \<Rightarrow> u8 list \<Rightarrow> bool" where
  "blocks_written wb m blk \<longleftrightarrow>
     (\<forall>f. \<exists>u. wb m (fresh f 512) = Ok () u \<and> stream_ok u \<and> s_capacity u < 2 ^ 62 \<and>
       take (s_pointer u) (s_buffer u) = blk)"

lemma blocks_writtenE:
  assumes "blocks_written wb m blk"
  obtains u where "wb m (fresh f 512) = Ok () u" "stream_ok u" "take (s_pointer u) (s_buffer u) = blk"
    "s_pointer u = length blk" "s_capacity u < 2 ^ 62"
proof -
  obtain u where u: "wb m (fresh f 512) = Ok () u" "stream_ok u" "s_capacity u < 2 ^ 62"
    "take (s_pointer u) (s_buffer u) = blk"
    using assms by (auto simp: blocks_written_def)
  then have "s_pointer u = length blk" by (auto simp: stream_ok_def)
  with u that show thesis by blast
qed

lemma mcs_send_connect_initial_pdu:
  assumes ora: "\<And>i. granted (ora i)" and tw: "\<And>bs. 0 \<le> tw bs"
    and init: "mcs_initialize_client_channels m (mcs_settings m) = Ok () m'"
    and wb: "blocks_written wb m' blk" and len: "length blk \<le> 1000"
  shows "mcs_send_connect_initial ora wb tw m sent = Ok () (m', sent @ [connect_initial_pdu m' blk])"
proof -
  obtain u0 f0 u1 f1 u2 f2 where o: "ora 0 = (Some u0, Some f0)" "ora 1 = (Some u1, Some f1)"
    "ora 2 = (Some u2, Some f2)"
    using granted_cases [of "ora 0"] granted_cases [of "ora 1"] granted_cases [of "ora 2"] ora by metis
  obtain cd where cd: "wb m' (fresh f0 512) = Ok () cd" "stream_ok cd"
    "take (s_pointer cd) (s_buffer cd) = blk" "s_pointer cd = length blk"
    using wb by (rule blocks_writtenE)
  let ?g = "gcc_request_head (length blk) @ blk"
  have g: "length ?g \<le> 1023" using len length_gcc_heads(1) [of "length blk"] by simp
  have gcc: "gcc_write_conference_create_request (fresh f1 1024) cd = Ok () (put ?g (fresh f1 1024))"
    using gcc_write_request_enc [of "fresh f1 1024" cd] cd g len by simp
  let ?r = "put ?g (fresh f1 1024)"
  have r: "stream_ok ?r" "s_pointer ?r = length ?g" "take (s_pointer ?r) (s_buffer ?r) = ?g"
    using g written_prefix [of "fresh f1 1024" ?g] by simp_all
  let ?n = "1024 + (length ?g + 7)"
  have size: "size_add 1024 (size_add (Stream_GetPosition ?r) 7) = ?n"
    using g r(2) by (simp add: size_add_def Stream_GetPosition_def)
  have n: "7 \<le> ?n" "?n < 2 ^ 63" using g by simp_all
  note gap = gap_stream [OF n, of f2]
  let ?ci = "ci_enc m' ?g"
  have ci: "mcs_write_connect_initial (\<lambda>i. ora (3 + i)) (Stream_Seek (fresh f2 ?n) 7) m' ?r =
      Ok () (put ?ci (Stream_Seek (fresh f2 ?n) 7))"
    using mcs_write_connect_initial_enc [of "\<lambda>i. ora (3 + i)" "Stream_Seek (fresh f2 ?n) 7" ?r m'] ora gap r
    by simp
  have "length ?ci \<le> length ?g + 168" by (rule length_ci_enc)
  then have "send_framed tw (m', sent) 0 (put ?ci (Stream_Seek (fresh f2 ?n) 7)) = Ok () (m', sent @ [framed ?ci])"
    using g n tw by (intro send_framed_put) auto
  with init o cd(1) gcc size ci show ?thesis
    by (simp add: mcs_send_connect_initial_def with_stream_granted connect_initial_pdu_def Let_def
        Stream_GetPosition_def)
qed

text \<open>Stepping through a receiver on a stream whose contents are known.\<close>

definition accepts :: "('b, 'm \<times> wStream) res \<Rightarrow> ('b \<Rightarrow> 'm \<Rightarrow> bool) \<Rightarrow> bool" where
  "accepts r Q \<longleftrightarrow> (\<exists>b m s. r = Ok b (m, s) \<and> Q b m)"

lemma accepts_skip_octet_string:
  assumes "readable s" "remaining s = [4, 1, 1] @ rest"
    and "\<And>t. readable t \<Longrightarrow> remaining t = rest \<Longrightarrow> accepts (g () m t) Q"
  shows "accepts (and_then (skip_octet_string m s) (\<lambda>a. case_prod (g a))) Q"
proof -
  have "ber_read_octet_string_tag s = Ok 1 (skip 2 s)"
    using ber_read_octet_string_tag_enc [of s 1 "1 # rest"] assms(1,2) octets_selector
    by (simp add: skip_literals)
  with assms(1,2) have "skip_octet_string m s = Ok () (m, skip 3 s)"
    by (simp add: skip_octet_string_def)
  with assms(3) [of "skip 3 s"] skip_over [OF assms(2), of 3] assms(1) show ?thesis by simp
qed

lemma accepts_domain_parameters:
  assumes "readable s" "remaining s = dp_enc dp @ rest"
    and "\<And>t. readable t \<Longrightarrow> remaining t = rest \<Longrightarrow> accepts (g () (store dp) t) Q"
  shows "accepts (and_then (in_part store (mcs_read_domain_parameters old s)) (\<lambda>a. case_prod (g a))) Q"
  using assms skip_over [OF assms(2) refl]
  by (simp add: mcs_read_domain_parameters_enc [OF assms(1,2)] in_part_def)

text \<open>
  What the receivers rely on in the reader of the data blocks: from a session that satisfies \<open>I\<close> it
  accepts the bytes \<open>blk\<close>, consumes them, leads to the session that \<open>after\<close> gives, and leaves the domain
  parameters of the session alone.
\<close>

definition blocks_accepted ::
  "(rdpMcs \<Rightarrow> wStream \<Rightarrow> u16 \<Rightarrow> (unit, rdpMcs \<times> wStream) res) \<Rightarrow> u8 list \<Rightarrow>
   (rdpMcs \<Rightarrow> bool) \<Rightarrow> (rdpMcs \<Rightarrow> rdpMcs) \<Rightarrow> bool" where
  "blocks_accepted rb blk I after \<longleftrightarrow>
     (\<forall>m. I m \<longrightarrow>
        (\<forall>s. readable s \<longrightarrow> remaining s = blk \<longrightarrow>
           rb m s (of_nat (length blk)) = Ok () (after m, skip (length blk) s)) \<and>
        mcs_targetParameters (after m) = mcs_targetParameters m \<and>
        mcs_minimumParameters (after m) = mcs_minimumParameters m \<and>
        mcs_maximumParameters (after m) = mcs_maximumParameters m \<and>
        mcs_domainParameters (after m) = mcs_domainParameters m)"

lemma framed_received:
  assumes "length bs \<le> 0xFFF8"
    and "\<And>t. readable t \<Longrightarrow> remaining t = bs \<Longrightarrow> accepts (g 2 m t) Q"
  shows "accepts (and_then (on_stream m (tpkt_read_header (received (framed bs)))) (\<lambda>tl (m, s).
     and_then (on_stream m (tpdu_read_data s tl)) (\<lambda>a. case_prod (g a)))) Q"
proof -
  let ?s = "received (framed bs)" and ?l = "of_nat (7 + length bs) :: u16"
  have len: "unat ?l = length bs + 7"
    using assms(1) unat_of_nat_u16 [of "7 + length bs"] by (simp del: of_nat_add)
  have len7: "length (framed bs) = length bs + 7" by (simp add: framed_def tpdu_enc_def del: of_nat_add)
  have s: "readable ?s" using assms(1) len7 by (intro received_readable) simp
  have rem: "remaining ?s = (tpkt_enc ?l @ tpdu_enc (X224_TPDU_DATA, 2)) @ bs"
    by (subst remaining_received) (simp add: framed_def)
  obtain t where t: "tpkt_read_header ?s = Ok ?l t" "tpdu_read_data t ?l = Ok 2 (skip 7 ?s)"
    using slow_path_header_enc [OF s rem len] by (auto simp: and_then_Ok_iff)
  have "7 = length (tpkt_enc ?l @ tpdu_enc (X224_TPDU_DATA, 2))" by (simp add: tpdu_enc_def)
  from skip_over [OF rem this] s have "readable (skip 7 ?s)" "remaining (skip 7 ?s) = bs" by blast+
  with assms(2) t show ?thesis by (simp del: of_nat_add)
qed

lemma gcc_request_accepted:
  assumes "readable s" "remaining s = gcc_request_head (length blk) @ blk" "length blk \<le> 1000"
    "blocks_accepted rb blk I after" "I m"
  obtains t where "gcc_read_conference_create_request rb m s = Ok () (after m, t)"
    "readable t" "remaining t = []"
proof -
  let ?t = "skip (length (gcc_request_head (length blk))) s"
  have "gcc_read_conference_create_request rb m s = rb m ?t (of_nat (length blk))"
    using assms(1-3) length_gcc_heads(1) [of "length blk"]
    by (intro gcc_read_request_enc [where rest = "[]"]) simp_all
  moreover have t: "readable ?t" "remaining ?t = blk" using skip_over [OF assms(2) refl] assms(1) by blast+
  moreover from t assms(4,5) have "rb m ?t (of_nat (length blk)) = Ok () (after m, skip (length blk) ?t)"
    unfolding blocks_accepted_def by blast
  moreover have "remaining ?t = blk @ []" using t by simp
  from skip_over [OF this refl] t
  have "readable (skip (length blk) ?t)" "remaining (skip (length blk) ?t) = []" by blast+
  ultimately show thesis using that by metis
qed

lemma accepts_appl:
  assumes "readable s" "remaining s = ber_appl_enc tag n @ rest" "n \<le> 0xFFFF"
    and "\<And>t. readable t \<Longrightarrow> remaining t = rest \<Longrightarrow> accepts (g n m t) Q"
  shows "accepts (and_then (on_stream m (ber_read_application_tag s tag)) (\<lambda>a. case_prod (g a))) Q"
  using assms skip_over [OF assms(2) refl]
  by (simp add: ber_read_application_tag_enc [OF assms(1,3,2)] del: length_ber_tags)

lemma accepts_BOOL:
  assumes "readable s" "remaining s = ber_BOOL_enc v @ rest"
    and "\<And>t. readable t \<Longrightarrow> remaining t = rest \<Longrightarrow> accepts (g (if v = 1 then 1 else 0) m t) Q"
  shows "accepts (and_then (on_stream m (ber_read_BOOL s)) (\<lambda>a. case_prod (g a))) Q"
  using assms skip_over [OF assms(2) refl] by (simp add: ber_read_BOOL_enc [OF assms(1,2)])

lemma accepts_octets:
  assumes "readable s" "remaining s = ber_octets_enc n @ rest" "n \<le> 0xFFFF"
    and "\<And>t. readable t \<Longrightarrow> remaining t = rest \<Longrightarrow> accepts (g n m t) Q"
  shows "accepts (and_then (on_stream m (ber_read_octet_string_tag s)) (\<lambda>a. case_prod (g a))) Q"
  using assms skip_over [OF assms(2) refl] by (simp add: ber_read_octet_string_tag_enc [OF assms(1,3,2)])

text \<open>The session that has read the domain parameters of a Connect-Initial PDU.\<close>

definition with_parameters :: "rdpMcs \<Rightarrow> rdpMcs \<Rightarrow> rdpMcs" where
  "with_parameters c m = m\<lparr>mcs_targetParameters := mcs_targetParameters c,
     mcs_minimumParameters := mcs_minimumParameters c, mcs_maximumParameters := mcs_maximumParameters c\<rparr>"

lemma connect_initial_received:
  assumes rb: "blocks_accepted rb blk I after" and len: "length blk \<le> 1000" and I: "I (with_parameters m m0)"
    and merge: "mcs_merge_domain_parameters (mcs_targetParameters m) (mcs_minimumParameters m)
      (mcs_maximumParameters m) (mcs_domainParameters m0) = Ok () dp"
  shows "accepts (mcs_recv_connect_initial rb m0 (received (connect_initial_pdu m blk)))
    (\<lambda>_ m'. m' = (after (with_parameters m m0))\<lparr>mcs_domainParameters := dp\<rparr>)"
    (is "accepts _ ?Q")
proof -
  let ?g = "gcc_request_head (length blk) @ blk"
  let ?b = "ci_body m ?g"
  have g: "length ?g \<le> 1023" using len length_gcc_heads(1) [of "length blk"] by simp
  have b: "length ?b \<le> 1186" "length (ci_enc m ?g) \<le> 1191"
    using g length_ci_body [of m ?g] length_ci_enc [of m ?g] by linarith+
  have tail: "accepts
      (if Stream_GetRemainingLength t < length ?g then Fail (mcs, t)
       else and_then (gcc_read_conference_create_request rb mcs t) (\<lambda>_ (mcs, s).
         and_then (in_object (\<lambda>dp. mcs\<lparr>mcs_domainParameters := dp\<rparr>) s
                     (mcs_merge_domain_parameters (mcs_targetParameters mcs) (mcs_minimumParameters mcs)
                        (mcs_maximumParameters mcs) (mcs_domainParameters mcs))) (\<lambda>_ (mcs, s).
         if tpkt_ensure_stream_consumed s then Ok () (mcs, s) else Fail (mcs, s)))) ?Q"
    if t: "readable t" "remaining t = ?g" and p: "mcs = with_parameters m m0" for t mcs
  proof -
    obtain u where "gcc_read_conference_create_request rb mcs t = Ok () (after mcs, u)" "readable u" "remaining u = []"
      using t len rb I unfolding p by (rule gcc_request_accepted)
    moreover have "mcs_merge_domain_parameters (mcs_targetParameters (after mcs)) (mcs_minimumParameters (after mcs))
        (mcs_maximumParameters (after mcs)) (mcs_domainParameters (after mcs)) = Ok () dp"
      using rb I merge unfolding p by (simp add: blocks_accepted_def) (simp add: with_parameters_def)
    ultimately show ?thesis using t p by (simp add: in_object_def tpkt_consumed accepts_def)
  qed
  show ?thesis
    unfolding mcs_recv_connect_initial_def connect_initial_pdu_def
    apply (rule framed_received)
    subgoal using b by simp
    apply (unfold ci_enc_def)
    apply (rule accepts_appl, assumption, assumption)
    subgoal using b by simp
    apply (unfold ci_body_def append_assoc)
    apply (rule accepts_skip_octet_string, assumption, assumption)+
    apply (rule accepts_BOOL, assumption, assumption)
    apply (rule accepts_domain_parameters, assumption, assumption)+
    apply (rule accepts_octets, assumption, assumption)
    subgoal using g by simp
    apply (rule tail, assumption, assumption)
    apply (simp add: with_parameters_def)
    done
qed

definition cr_body :: "rdpMcs \<Rightarrow> u8 list \<Rightarrow> u8 list" where
  "cr_body mcs data =
     [10, 1, 0] @ ber_integer_enc 0 @ dp_enc (mcs_domainParameters mcs) @ ber_octets_enc (length data) @ data"

definition cr_enc :: "rdpMcs \<Rightarrow> u8 list \<Rightarrow> u8 list" where
  "cr_enc mcs data = ber_appl_enc MCS_TYPE_CONNECT_RESPONSE (length (cr_body mcs data)) @ cr_body mcs data"

definition connect_response_pdu :: "rdpMcs \<Rightarrow> u8 list \<Rightarrow> u8 list" where
  "connect_response_pdu mcs blocks = framed (cr_enc mcs (gcc_response_head (length blocks) @ blocks))"

lemma length_cr_body: "length (cr_body mcs data) \<le> length data + 60"
  using length_dp_enc(2) [of "mcs_domainParameters mcs"] ber_sizeof_length_bounds(2) [of "length data"]
  by (simp add: cr_body_def ber_sizeof_integer_def)

lemma length_cr_enc: "length (cr_enc mcs data) \<le> length data + 65"
  using length_cr_body [of mcs data] ber_sizeof_length_bounds(2) [of "length (cr_body mcs data)"]
  by (simp add: cr_enc_def mcs_consts)

lemma mcs_write_connect_response_enc:
  assumes ora: "\<And>i. granted (ora i)" and s: "stream_ok s" and u: "stream_ok u"
    and fit: "s_pointer u + 65 \<le> room s"
  defines "data \<equiv> take (s_pointer u) (s_buffer u)"
  shows "mcs_write_connect_response ora s mcs u = Ok () (put (cr_enc mcs data) s)"
proof -
  have n: "length data = s_pointer u" "s_pointer u \<le> length (s_buffer u)"
    using u by (auto simp: data_def stream_ok_def)
  let ?b = "cr_body mcs data"
  have len: "length ?b \<le> room s" "length (cr_enc mcs data) \<le> room s"
    using fit n length_cr_body [of mcs data] length_cr_enc [of mcs data] by simp_all
  have cap: "room s \<le> s_capacity s" "s_capacity s < 2 ^ 63" "0 < s_capacity s"
    using s fit by (auto simp: room_def stream_ok_def)
  obtain u0 f0 where o0: "ora 0 = (Some u0, Some f0)" using granted_cases [of "ora 0"] ora by blast
  obtain u1 f1 where o1: "ora 1 = (Some u1, Some f1)" using granted_cases [of "ora 1"] ora by blast
  let ?t = "fresh f0 (s_capacity s)"
  note dl = length_dp_enc(2) [of "mcs_domainParameters mcs"] ber_sizeof_length_bounds(2) [of "s_pointer u"]
  have tmp: "\<exists>k. and_then (ber_write_enumerated ?t 0 MCS_Result_enum_length) (\<lambda>_ tmps.
        and_then (ber_write_integer tmps 0) (\<lambda>_ tmps.
        and_then (mcs_write_domain_parameters (ora 1) tmps (mcs_domainParameters mcs)) (\<lambda>_ tmps.
        ber_write_octet_string tmps (s_buffer u) (Stream_GetPosition u)))) = Ok k (put ?b ?t)"
    (is "\<exists>k. ?w = Ok k _")
    unfolding o1 using cap fit n dl
    by (simp add: ber_enumerated_enc(1) stream_write mcs_write_domain_parameters_enc ber_sizeof_integer_def
        ber_write_octet_string_enc Stream_GetPosition_def cr_body_def data_def)
  then obtain k where "?w = Ok k (put ?b ?t)" ..
  moreover have "take (length ?b) (s_buffer (put ?b ?t)) = ?b"
    using cap len by (intro written_prefix) auto
  moreover have "length ?b \<le> length (s_buffer (put ?b ?t))"
    using cap len by (simp add: put_def fresh_def)
  ultimately show ?thesis
    using s len cap
    by (simp add: mcs_write_connect_response_def o0 with_stream_granted Stream_GetPosition_def stream_write
        cr_enc_def)
qed

text \<open>The writer of the server's blocks also settles the encryption, so that the session changes.\<close>

definition reply_written ::
  "(rdpMcs \<Rightarrow> wStream \<Rightarrow> (unit, rdpMcs \<times> wStream) res) \<Rightarrow> rdpMcs \<Rightarrow> u8 list \<Rightarrow> rdpMcs \<Rightarrow> bool" where
  "reply_written wb m blk m' \<longleftrightarrow>
     (\<forall>f. \<exists>u. wb m (fresh f 512) = Ok () (m', u) \<and> stream_ok u \<and> s_capacity u < 2 ^ 62 \<and>
       take (s_pointer u) (s_buffer u) = blk)"

lemma reply_writtenE:
  assumes "reply_written wb m blk m'"
  obtains u where "wb m (fresh f 512) = Ok () (m', u)" "stream_ok u" "take (s_pointer u) (s_buffer u) = blk"
    "s_pointer u = length blk" "s_capacity u < 2 ^ 62"
proof -
  obtain u where u: "wb m (fresh f 512) = Ok () (m', u)" "stream_ok u" "s_capacity u < 2 ^ 62"
    "take (s_pointer u) (s_buffer u) = blk"
    using assms by (auto simp: reply_written_def)
  then have "s_pointer u = length blk" by (auto simp: stream_ok_def)
  with u that show thesis by blast
qed

lemma mcs_send_connect_response_pdu:
  assumes ora: "\<And>i. granted (ora i)" and tw: "\<And>bs. 0 \<le> tw bs"
    and wb: "reply_written wb m0 blk m" and len: "length blk \<le> 0x7000"
  shows "mcs_send_connect_response ora wb tw m0 sent = Ok () (m, sent @ [connect_response_pdu m blk])"
proof -
  obtain u0 f0 u1 f1 u2 f2 where o: "ora 0 = (Some u0, Some f0)" "ora 1 = (Some u1, Some f1)"
    "ora 2 = (Some u2, Some f2)"
    using granted_cases [of "ora 0"] granted_cases [of "ora 1"] granted_cases [of "ora 2"] ora by metis
  obtain sd where sd: "wb m0 (fresh f0 512) = Ok () (m, sd)" "stream_ok sd"
    "take (s_pointer sd) (s_buffer sd) = blk" "s_pointer sd = length blk" "s_capacity sd < 2 ^ 62"
    using wb by (rule reply_writtenE)
  let ?g = "gcc_response_head (length blk) @ blk" and ?c = "512 + s_capacity sd"
  have g: "length ?g \<le> length blk + 23" using length_gcc_heads(2) [of "length blk"] by simp
  have c: "length ?g \<le> ?c" "?c < 2 ^ 63" "size_add 512 (s_capacity sd) = ?c"
    using g sd(2,4,5) by (auto simp: stream_ok_def size_add_def)
  have gcc: "gcc_write_conference_create_response (fresh f1 ?c) sd = Ok () (put ?g (fresh f1 ?c))"
    using gcc_write_response_enc [of "fresh f1 ?c" sd] sd c len by simp
  let ?r = "put ?g (fresh f1 ?c)"
  have r: "stream_ok ?r" "s_pointer ?r = length ?g" "take (s_pointer ?r) (s_buffer ?r) = ?g"
    using c written_prefix [of "fresh f1 ?c" ?g] by simp_all
  let ?n = "length ?g + 7 + 1024"
  have size: "size_add (size_add (Stream_GetPosition ?r) 7) 1024 = ?n"
    using g len r(2) by (simp add: size_add_def Stream_GetPosition_def)
  have n: "7 \<le> ?n" "?n < 2 ^ 63" using g len by simp_all
  note gap = gap_stream [OF n, of f2]
  let ?cr = "cr_enc m ?g"
  have cr: "mcs_write_connect_response (\<lambda>i. ora (3 + i)) (Stream_Seek (fresh f2 ?n) 7) m ?r =
      Ok () (put ?cr (Stream_Seek (fresh f2 ?n) 7))"
    using mcs_write_connect_response_enc [of "\<lambda>i. ora (3 + i)" "Stream_Seek (fresh f2 ?n) 7" ?r m] ora gap r
    by simp
  have "length ?cr \<le> length ?g + 65" by (rule length_cr_enc)
  then have "send_framed tw (m, sent) 0 (put ?cr (Stream_Seek (fresh f2 ?n) 7)) = Ok () (m, sent @ [framed ?cr])"
    using g len n tw by (intro send_framed_put) auto
  with o sd(1) gcc size cr c(3) show ?thesis
    by (simp add: mcs_send_connect_response_def with_stream_granted connect_response_pdu_def Let_def
        Stream_GetPosition_def)
qed

lemma gcc_response_accepted:
  assumes "readable s" "remaining s = gcc_response_head (length blk) @ blk" "length blk \<le> 0x7000"
    "blocks_accepted rb blk I after" "I m"
  obtains t where "gcc_read_conference_create_response rb m s = Ok () (after m, t)"
    "readable t" "remaining t = []"
proof -
  let ?t = "skip (length (gcc_response_head (length blk))) s"
  have "gcc_read_conference_create_response rb m s = rb m ?t (of_nat (length blk))"
    using assms(1-3) length_gcc_heads(2) [of "length blk"]
    by (intro gcc_read_response_enc [where rest = "[]"]) simp_all
  moreover have t: "readable ?t" "remaining ?t = blk" using skip_over [OF assms(2) refl] assms(1) by blast+
  moreover from t assms(4,5) have "rb m ?t (of_nat (length blk)) = Ok () (after m, skip (length blk) ?t)"
    unfolding blocks_accepted_def by blast
  moreover have "remaining ?t = blk @ []" using t(2) by simp
  from skip_over [OF this refl] t(1)
  have "readable (skip (length blk) ?t)" "remaining (skip (length blk) ?t) = []" by blast+
  ultimately show thesis using that by metis
qed

lemma accepts_enumerated:
  assumes "readable s" "remaining s = [10, 1, v] @ rest" "uint v < uint cnt"
    and "\<And>t. readable t \<Longrightarrow> remaining t = rest \<Longrightarrow> accepts (g v m t) Q"
  shows "accepts (and_then (on_stream m (ber_read_enumerated s cnt)) (\<lambda>a. case_prod (g a))) Q"
  using assms skip_over [OF assms(2), of 3] by (simp add: ber_enumerated_enc(2) [OF assms(1,3,2)])

lemma accepts_uint:
  assumes "readable s" "remaining s = ber_integer_enc v @ rest"
    and "\<And>t. readable t \<Longrightarrow> remaining t = rest \<Longrightarrow> accepts (g v m t) Q"
  shows "accepts (and_then (on_stream m (ber_read_uint s)) (\<lambda>a. case_prod (g a))) Q"
  using assms skip_over [OF assms(2) refl]
  by (simp add: ber_read_uint_def ber_read_integer_enc [OF assms(1,2)])

lemma connect_response_received:
  assumes rb: "blocks_accepted rb blk I after" and len: "length blk \<le> 0x7000"
    and I: "I (m0\<lparr>mcs_domainParameters := mcs_domainParameters m\<rparr>)"
  shows "accepts (mcs_recv_connect_response rb m0 (received (connect_response_pdu m blk)))
    (\<lambda>_ m'. m' = after (m0\<lparr>mcs_domainParameters := mcs_domainParameters m\<rparr>))"
    (is "accepts _ ?Q")
proof -
  let ?g = "gcc_response_head (length blk) @ blk"
  let ?b = "cr_body m ?g"
  have g: "length ?g \<le> 0x7000 + 23" using len length_gcc_heads(2) [of "length blk"] by simp
  have b: "length ?b \<le> 0x7000 + 83" "length (cr_enc m ?g) \<le> 0x7000 + 88"
    using g length_cr_body [of m ?g] length_cr_enc [of m ?g] by linarith+
  have tail: "accepts (and_then (gcc_read_conference_create_response rb mcs t) (\<lambda>_ (mcs, s).
       if tpkt_ensure_stream_consumed s then Ok () (mcs, s) else Fail (mcs, s))) ?Q"
    if t: "readable t" "remaining t = ?g" and p: "mcs = m0\<lparr>mcs_domainParameters := mcs_domainParameters m\<rparr>"
    for t mcs
  proof -
    obtain u where "gcc_read_conference_create_response rb mcs t = Ok () (after mcs, u)" "readable u"
      "remaining u = []"
      using t len rb I unfolding p by (rule gcc_response_accepted)
    with t p show ?thesis by (simp add: tpkt_consumed accepts_def)
  qed
  show ?thesis
    unfolding mcs_recv_connect_response_def connect_response_pdu_def
    apply (rule framed_received)
    subgoal using b by simp
    apply (unfold cr_enc_def)
    apply (rule accepts_appl, assumption, assumption)
    subgoal using b by simp
    apply (unfold cr_body_def append_assoc)
    apply (rule accepts_enumerated, assumption, assumption)
    subgoal by (simp add: mcs_consts)
    apply (rule accepts_uint, assumption, assumption)
    apply (rule accepts_domain_parameters, assumption, assumption)
    apply (rule accepts_octets, assumption, assumption)
    subgoal using g by simp
    apply (rule tail, assumption, assumption)
    apply simp
    done
qed

lemma merge_bounds:
  "merge_maxChannelIds t x = Some v \<Longrightarrow> 4 \<le> v" "merge_maxUserIds t x = Some v \<Longrightarrow> 3 \<le> v"
  "merge_numPriorities n = Some v \<Longrightarrow> v = 1" "merge_maxHeight t n = Some v \<Longrightarrow> v = 1"
  "merge_maxMCSPDUsize t n x = Some v \<Longrightarrow> 124 \<le> v" "merge_protocolVersion t n x = Some v \<Longrightarrow> v = 2"
  by (auto simp: merge_maxChannelIds_def merge_maxUserIds_def merge_numPriorities_def merge_maxHeight_def
      merge_maxMCSPDUsize_def merge_protocolVersion_def split: if_splits intro: order_trans [rotated])

lemma mcs_merge_Ok:
  "mcs_merge_domain_parameters t n x out = Ok () dp \<longleftrightarrow>
     merge_maxChannelIds t x = Some (maxChannelIds dp) \<and> merge_maxUserIds t x = Some (maxUserIds dp) \<and>
     merge_numPriorities n = Some (numPriorities dp) \<and> merge_maxHeight t n = Some (maxHeight dp) \<and>
     merge_maxMCSPDUsize t n x = Some (maxMCSPDUsize dp) \<and>
     merge_protocolVersion t n x = Some (protocolVersion dp) \<and>
     maxTokenIds dp = maxTokenIds t \<and> minThroughput dp = minThroughput t"
  by (auto simp: mcs_merge_domain_parameters_def Let_def and_then_Ok_iff store_field_Ok
      intro!: DomainParameters.equality)

section \<open>Properties\<close>



definition sample_mcs :: rdpMcs where
  "sample_mcs = the (mcs_new (Some (\<lambda>_. ())) (Some (\<lambda>_. ())) zero_settings)"

lemma sample_merge:
  "\<exists>dp. mcs_merge_domain_parameters (mcs_targetParameters sample_mcs) (mcs_minimumParameters sample_mcs)
     (mcs_maximumParameters sample_mcs) (mcs_domainParameters sample_mcs) = Ok () dp"
  by (simp add: sample_mcs_def mcs_new_def mcs_merge_domain_parameters_def mcs_init_domain_parameters_def
      Let_def store_field_def merge_maxChannelIds_def merge_maxUserIds_def merge_numPriorities_def
      merge_maxHeight_def merge_maxMCSPDUsize_def merge_protocolVersion_def)

lemma sample_init:
  "\<exists>m. mcs_initialize_client_channels sample_mcs (mcs_settings sample_mcs) = Ok () m \<and>
     mcs_targetParameters m = mcs_targetParameters sample_mcs \<and>
     mcs_minimumParameters m = mcs_minimumParameters sample_mcs \<and>
     mcs_maximumParameters m = mcs_maximumParameters sample_mcs"
  by (simp add: sample_mcs_def mcs_new_def mcs_initialize_client_channels_def mcs_consts zero_settings_def)

text \<open>
  Attaching users: the confirm the server sends carries a fresh user id, the base channel id, which
  it then increments, and the client that receives it has exactly this user id.
\<close>

theorem attach_user_exchange:
  assumes "granted ora" "\<And>bs. 0 \<le> tw bs" "MCS_BASE_CHANNEL_ID \<le> mcs_baseChannelId server"
  shows "\<exists>pdu server' client' s.
    mcs_send_attach_user_confirm ora tw server [] = Ok () (server', [pdu]) \<and>
    mcs_recv_attach_user_confirm client (received pdu) = Ok () (client', s) \<and>
    mcs_userId client' = mcs_baseChannelId server \<and> mcs_userId server' = mcs_baseChannelId server \<and>
    mcs_baseChannelId server' = mcs_baseChannelId server + 1"
proof -
  obtain u f where "ora = (Some u, Some f)" using granted_cases [of ora] assms(1) by blast
  then have "mcs_send_attach_user_confirm ora tw server [] =
    Ok () (server\<lparr>mcs_userId := mcs_baseChannelId server, mcs_baseChannelId := mcs_baseChannelId server + 1\<rparr>,
           [attach_user_confirm_pdu (mcs_baseChannelId server)])"
    using attach_user_confirm_send [where u = u and f = f and m = server and sent = "[]", OF assms(2)] by simp
  moreover obtain s where
    "mcs_recv_attach_user_confirm client (received (attach_user_confirm_pdu (mcs_baseChannelId server))) =
      Ok () (client\<lparr>mcs_userId := mcs_baseChannelId server\<rparr>, s)"
    using attach_user_confirm_received [OF assms(3), of client] by blast
  ultimately show ?thesis by (intro exI conjI) (assumption | simp)+
qed

theorem attach_user_exchange_witness:
  "\<exists>pdu server' client' s.
     mcs_send_attach_user_confirm (Some (\<lambda>_. ()), Some (\<lambda>_. 0)) (\<lambda>_. 1) sample_mcs [] = Ok () (server', [pdu]) \<and>
     mcs_recv_attach_user_confirm sample_mcs (received pdu) = Ok () (client', s) \<and> mcs_userId client' = 1004"
  using attach_user_exchange [of "(Some (\<lambda>_. ()), Some (\<lambda>_. 0))" "\<lambda>_. 1" sample_mcs sample_mcs]
  by (auto simp: sample_mcs_def mcs_new_def mcs_consts)

text \<open>
  Joining channels: a join request for a channel reaches the server with its channel id, and the
  confirm it answers with gives the client the same channel id; the erect domain and attach user
  requests are accepted by the server and leave its session as it is.
\<close>

theorem channel_join_exchange:
  assumes "granted ora" "\<And>bs. 0 \<le> tw bs" "MCS_BASE_CHANNEL_ID \<le> mcs_userId client"
    "MCS_BASE_CHANNEL_ID \<le> mcs_userId server"
  shows "\<exists>erect attach request confirm s1 s2 s3 s4.
    mcs_send_erect_domain_request ora tw client [] = Ok () (client, [erect]) \<and>
    mcs_recv_erect_domain_request server (received erect) = Ok () (server, s1) \<and>
    mcs_send_attach_user_request ora tw client [] = Ok () (client, [attach]) \<and>
    mcs_recv_attach_user_request server (received attach) = Ok () (server, s2) \<and>
    mcs_send_channel_join_request ora tw client channelId [] = Ok () (client, [request]) \<and>
    mcs_recv_channel_join_request junk server (received request) = Ok channelId (server, s3) \<and>
    mcs_send_channel_join_confirm ora tw server channelId [] = Ok () (server, [confirm]) \<and>
    mcs_recv_channel_join_confirm client (received confirm) = Ok channelId (client, s4)"
proof -
  obtain u f where "ora = (Some u, Some f)" using granted_cases [of ora] assms(1) by blast
  with domain_sends [OF assms(2), where sent = "[]"] have sends:
    "mcs_send_erect_domain_request ora tw client [] = Ok () (client, [erect_domain_pdu])"
    "mcs_send_attach_user_request ora tw client [] = Ok () (client, [attach_user_request_pdu])"
    "mcs_send_channel_join_request ora tw client channelId [] =
      Ok () (client, [channel_join_request_pdu (mcs_userId client) channelId])"
    "mcs_send_channel_join_confirm ora tw server channelId [] =
      Ok () (server, [channel_join_confirm_pdu (mcs_userId server) channelId])"
    by simp_all
  from erect_domain_received [of server] attach_user_request_received [of server]
    channel_join_request_received [OF assms(3), of junk server channelId]
    channel_join_confirm_received [OF assms(4), of client channelId]
  obtain s1 s2 s3 s4 where
    "mcs_recv_erect_domain_request server (received erect_domain_pdu) = Ok () (server, s1)"
    "mcs_recv_attach_user_request server (received attach_user_request_pdu) = Ok () (server, s2)"
    "mcs_recv_channel_join_request junk server
      (received (channel_join_request_pdu (mcs_userId client) channelId)) = Ok channelId (server, s3)"
    "mcs_recv_channel_join_confirm client
      (received (channel_join_confirm_pdu (mcs_userId server) channelId)) = Ok channelId (client, s4)"
    by blast
  with sends show ?thesis by (intro exI conjI)
qed

theorem channel_join_exchange_witness:
  "\<exists>request s. mcs_send_channel_join_request (Some (\<lambda>_. ()), Some (\<lambda>_. 0)) (\<lambda>_. 1)
      (sample_mcs\<lparr>mcs_userId := 1007\<rparr>) 1003 [] = Ok () (sample_mcs\<lparr>mcs_userId := 1007\<rparr>, [request]) \<and>
    mcs_recv_channel_join_request 0 (sample_mcs\<lparr>mcs_userId := 1007\<rparr>) (received request) =
      Ok 1003 (sample_mcs\<lparr>mcs_userId := 1007\<rparr>, s)"
  using channel_join_exchange [of "(Some (\<lambda>_. ()), Some (\<lambda>_. 0))" "\<lambda>_. 1"
      "sample_mcs\<lparr>mcs_userId := 1007\<rparr>" "sample_mcs\<lparr>mcs_userId := 1007\<rparr>" 1003 0]
  by (auto simp: mcs_consts)

text \<open>
  The join request handler does not check who asks: for every user id the PDU carries, of any other
  user of the domain as well, the request is accepted.
\<close>

theorem channel_join_any_user:
  assumes "MCS_BASE_CHANNEL_ID \<le> v"
  shows "\<exists>s. mcs_recv_channel_join_request junk server (received (channel_join_request_pdu v channelId)) =
    Ok channelId (server, s)"
  using channel_join_request_received [OF assms] .

theorem channel_join_any_user_witness:
  "mcs_userId sample_mcs \<noteq> 1234 \<and>
   (\<exists>s. mcs_recv_channel_join_request 0 sample_mcs (received (channel_join_request_pdu 1234 1003)) =
     Ok 1003 (sample_mcs, s))"
  using channel_join_any_user [of 1234 0 sample_mcs 1003]
  by (simp add: mcs_consts sample_mcs_def mcs_new_def)

end
