(* ===== verification/Gcc_Protocol.thy ===== *)
theory Gcc_Protocol
  imports Gcc_Blocks Mcs_Protocol
begin

text \<open>
  The protocol of the GCC data blocks of \<open>Gcc_Blocks\<close>: memory safety of all readers on hostile bytes, the
  bytes that the writers emit and when they fit, what the readers make of them, and, with the PDUs of
  \<open>Mcs_Protocol\<close> around them, the two exchanges that open an MCS session.
\<close>

section \<open>Memory safety of the readers\<close>

text \<open>
  On a readable stream with enough bytes left the accessors return some value and skip it. Rewriting
  with these laws runs a reader of blocks symbolically.
\<close>

definition value_of :: "('a, wStream) res \<Rightarrow> 'a" where
  "value_of r = (case r of Ok a _ \<Rightarrow> a | _ \<Rightarrow> undefined)"

definition u8_at :: "wStream \<Rightarrow> u8" where "u8_at s = value_of (Stream_Read_UINT8 s)"
definition u16_at :: "wStream \<Rightarrow> u16" where "u16_at s = value_of (Stream_Read_UINT16 s)"
definition u32_at :: "wStream \<Rightarrow> u32" where "u32_at s = value_of (Stream_Read_UINT32 s)"

named_theorems block_run

lemma read_value [block_run]:
  "readable s \<Longrightarrow> 1 \<le> length (remaining s) \<Longrightarrow> Stream_Read_UINT8 s = Ok (u8_at s) (skip 1 s)"
  "readable s \<Longrightarrow> 2 \<le> length (remaining s) \<Longrightarrow> Stream_Read_UINT16 s = Ok (u16_at s) (skip 2 s)"
  "readable s \<Longrightarrow> 4 \<le> length (remaining s) \<Longrightarrow> Stream_Read_UINT32 s = Ok (u32_at s) (skip 4 s)"
  by (simp_all add: u8_at_def u16_at_def u32_at_def value_of_def stream_read)

lemma read_bytes [block_run]:
  "readable s \<Longrightarrow> n \<le> length (remaining s) \<Longrightarrow> Stream_Read s n = Ok (take n (remaining s)) (skip n s)"
  by (rule read_block)

lemma session_ok_with_settings [simp]:
  "(\<And>st. MonitorCount (f st) = MonitorCount st \<and> MonitorDefArray (f st) = MonitorDefArray st) \<Longrightarrow>
   session_ok (with_settings f m) = session_ok m"
  by (simp add: session_ok_def with_settings_def)

lemma session_ok_ids [simp]:
  "session_ok (set_channel k f m) = session_ok m"
  "session_ok (set_monitor k g m) = session_ok m"
  by (simp_all add: session_ok_def set_channel_def set_monitor_def with_settings_def)

lemma advances_from: "advances (skip n s) t \<Longrightarrow> n \<le> length (remaining s) \<Longrightarrow> advances s t"
  by (rule advances_trans [OF advances_skip])

lemma unat_widen [simp]: "unat (ucast (x :: u16) :: u32) = unat x"
proof -
  have "unat x < 2 ^ 32" using unsigned_less [of x, where 'a = nat] by simp
  then show ?thesis by (simp add: unsigned_ucast_eq take_bit_nat_eq_self)
qed

lemma unat_ge: "\<not> (len :: u16) < n \<Longrightarrow> unat n \<le> unat len"
  by (simp add: word_less_nat_alt)

lemma parses_accessors:
  "parses 1 Stream_Read_UINT8" "parses 2 Stream_Read_UINT16" "parses 4 Stream_Read_UINT32"
  "parses n (\<lambda>s. Stream_Read s n)" "parses n (skip_field n)" "parses n (read_unicode env n)"
  by (simp_all add: parses_def block_run read_unicode_def)

lemmas block_safe_reads = parses_accessors [THEN safe_session_parse]

lemmas block_rules = safe_session_if safe_session_Ok safe_session_Fail safe_session_let

lemma present_safe:
  assumes rd: "parses (unat n) rd" and k: "\<And>v len. safe_session session_ok (unat len) (k v len)"
  shows "safe_session session_ok (unat len) (\<lambda>m s. present len n rd f m s k)"
proof (cases "len < n")
  case False
  then have n: "unat n \<le> unat len" "unat (len - n) = unat len - unat n"
    by (simp_all add: not_less word_le_nat_alt unat_sub)
  have "safe_session session_ok (unat len) (\<lambda>m s. and_then (on_stream m (rd s)) (\<lambda>v (m, s). k v (len - n) m s))"
    by (rule safe_session_parse [OF rd _ n(1)]) (use k [of "len - n"] n(2) in simp)
  with False show ?thesis by (simp add: present_def)
qed (simp add: present_def safe_session_Ok)

lemma parses_fields:
  "parses (unat (1 :: u16)) Stream_Read_UINT8" "parses (unat (2 :: u16)) Stream_Read_UINT16"
  "parses (unat (4 :: u16)) Stream_Read_UINT32" "parses (unat (1 :: u16)) (skip_field 1)"
  "parses (unat (2 :: u16)) (skip_field 2)" "parses (unat (4 :: u16)) (skip_field 4)"
  "parses (unat (64 :: u16)) (read_unicode env 64)"
  using parses_accessors by simp_all

lemma core_display_safe: "safe_session session_ok (unat len) (\<lambda>m s. read_core_display len f m s)"
  unfolding read_core_display_def
  by (rule present_safe parses_fields safe_session_update block_rules session_ok_with_settings [THEN iffD2]
      conjI | simp)+

lemma core_optional_safe: "safe_session session_ok (unat len) (\<lambda>m s. read_core_optional env len f m s)"
  unfolding read_core_optional_def
  by (rule present_safe parses_fields core_display_safe safe_session_update block_rules | simp)+

lemma client_core_data_safe: "safe_session session_ok (unat len) (\<lambda>m s. gcc_read_client_core_data env m s len)"
proof (cases "len < 128")
  case False
  then have n: "128 \<le> unat len" "unat (len - 128) = unat len - 128"
    by (simp_all add: not_less word_le_nat_alt unat_sub)
  have opt: "safe_session session_ok (unat len - 128) (\<lambda>m s. read_core_optional env (len - 128) f m s)" for f
    using core_optional_safe [of "len - 128" env f] n by simp
  have fin: "safe_session session_ok 0 (\<lambda>m s. case d of None \<Rightarrow> Fail (m, s) | Some depth \<Rightarrow> Ok () (with_settings (core_capabilities depth f) m, s))"
    for d f by (cases d) (auto simp: safe_session_def core_capabilities_def Let_def)
  show ?thesis
    unfolding gcc_read_client_core_data_def if_not_P [OF False] eqTrueI [OF False] 
    by (rule block_safe_reads safe_session_update safe_session_then fin safe_session_mono [OF opt]
        | (use n in simp; fail))+
qed (simp add: gcc_read_client_core_data_def safe_session_Fail)

lemma client_small_blocks_safe:
  "safe_session session_ok (unat len) (\<lambda>m s. gcc_read_client_security_data m s len)"
  "safe_session session_ok (unat len) (\<lambda>m s. gcc_read_client_cluster_data m s len)"
  "safe_session session_ok (unat len) (\<lambda>m s. gcc_read_client_message_channel_data m s len)"
  "safe_session session_ok (unat len) (\<lambda>m s. gcc_read_client_multitransport_channel_data m s len)"
     apply (rule safe_sessionI; auto dest!: unat_ge simp: gcc_read_client_security_data_def block_run Let_def)
    apply (rule safe_sessionI; auto dest!: unat_ge simp: gcc_read_client_cluster_data_def block_run Let_def)
   apply (rule safe_sessionI; auto dest!: unat_ge simp: gcc_read_client_message_channel_data_def block_run Let_def)
  apply (rule safe_sessionI; auto dest!: unat_ge simp: gcc_read_client_multitransport_channel_data_def block_run Let_def)
  done

lemma channel_defs_safe:
  "session_ok m \<Longrightarrow> i + k \<le> 31 \<Longrightarrow> readable s \<Longrightarrow> 12 * k \<le> length (remaining s) \<Longrightarrow>
   within session_ok s (read_channel_defs k i m s)"
proof (induction k arbitrary: i m s)
  case (Suc k)
  then have "i < length (mcs_channels m)" by (simp add: session_ok_def)
  moreover have "within session_ok s (read_channel_defs k (Suc i) m' (skip 12 s))" if "session_ok m'" for m'
    using Suc.prems that by (intro within_skip [OF Suc.IH]) simp_all
  ultimately show ?case using Suc.prems by (auto simp: block_run Let_def)
qed simp

lemma client_network_data_safe: "safe_session session_ok (unat len) (\<lambda>m s. gcc_read_client_network_data m s len)"
proof (rule safe_sessionI)
  fix m s assume m: "session_ok m" and s: "readable s" "unat len \<le> length (remaining s)"
  show "within session_ok s (gcc_read_client_network_data m s len)"
  proof (cases "len < 4")
    case False
    then have len: "4 \<le> unat len" using unat_ge [of len 4] by simp
    let ?c = "u32_at s"
    have "within session_ok s (read_channel_defs (unat ?c) 0 (m\<lparr>mcs_channelCount := ?c\<rparr>) (skip 4 s))"
      if c: "\<not> ucast len < 4 + ?c * 12" "\<not> 31 < ?c"
    proof -
      have n: "unat ?c \<le> 31" using c(2) by (simp add: word_less_nat_alt)
      then have "unat (4 + ?c * 12) = 4 + unat ?c * 12" by (simp add: unat_word_ariths)
      with c(1) have "12 * unat ?c \<le> unat len - 4" by (simp add: word_less_nat_alt)
      with m s len n c(2) show ?thesis
        by (intro within_skip [OF channel_defs_safe]) (simp_all add: session_ok_def not_less)
    qed
    with s len False show ?thesis
      by (auto simp: gcc_read_client_network_data_def block_run Let_def CHANNEL_MAX_COUNT_def)
  qed (simp add: gcc_read_client_network_data_def)
qed

lemma monitors_kept [simp]:
  "length (MonitorDefArray (mcs_settings (set_monitor i f m))) = length (MonitorDefArray (mcs_settings m))"
  by (simp add: set_monitor_def with_settings_def)

lemma read_monitors_safe:
  "session_ok m \<Longrightarrow> i + k \<le> length (MonitorDefArray (mcs_settings m)) \<Longrightarrow> readable s \<Longrightarrow>
   20 * k \<le> length (remaining s) \<Longrightarrow> within session_ok s (read_monitors k i m s)"
proof (induction k arbitrary: i m s)
  case (Suc k)
  have "within session_ok s (read_monitors k (Suc i) (set_monitor i f m) (skip 20 s))" for f
    using Suc.prems by (intro within_skip [OF Suc.IH]) simp_all
  with Suc.prems show ?case by (simp add: block_run)
qed simp

lemma read_monitor_attributes_safe:
  "session_ok m \<Longrightarrow> i + k \<le> length (MonitorDefArray (mcs_settings m)) \<Longrightarrow> readable s \<Longrightarrow>
   20 * k \<le> length (remaining s) \<Longrightarrow> within session_ok s (read_monitor_attributes k i m s)"
proof (induction k arbitrary: i m s)
  case (Suc k)
  have "within session_ok s (read_monitor_attributes k (Suc i) (set_monitor i f m) (skip 20 s))" for f
    using Suc.prems by (intro within_skip [OF Suc.IH]) simp_all
  with Suc.prems show ?case by (simp add: block_run)
qed simp

lemma client_monitor_data_safe: "safe_session session_ok (unat len) (\<lambda>m s. gcc_read_client_monitor_data m s len)"
proof (rule safe_sessionI)
  fix m s assume m: "session_ok m" and s: "readable s" "unat len \<le> length (remaining s)"
  show "within session_ok s (gcc_read_client_monitor_data m s len)"
  proof (cases "len < 8")
    case False
    then have len: "8 \<le> unat len" using unat_ge [of len 8] by simp
    let ?n = "length (MonitorDefArray (mcs_settings m))"
    have "within session_ok s (read_monitors c 0 (with_settings (\<lambda>st. st\<lparr>MonitorCount := of_nat c\<rparr>) m) (skip 8 s))"
      if c: "c \<le> 16" "c \<le> ?n" "\<not> (unat len - 8) div 20 < c" for c
    proof -
      have "20 * c \<le> unat len - 8" using c(3) by (simp add: not_less less_eq_div_iff_mult_less_eq)
      moreover have "session_ok (with_settings (\<lambda>st. st\<lparr>MonitorCount := of_nat c\<rparr>) m)"
        using m c(1,2) by (simp add: session_ok_def with_settings_def unsigned_of_nat take_bit_nat_eq_self)
      ultimately show ?thesis
        using s len c(2) by (intro within_skip [OF read_monitors_safe]) (simp_all add: with_settings_def)
    qed
    from this [of "unat (u32_at (skip 4 s))"] this [of ?n] s len False show ?thesis
      by (auto simp: gcc_read_client_monitor_data_def block_run Let_def word_less_nat_alt)
  qed (simp add: gcc_read_client_monitor_data_def)
qed

lemma client_monitor_extended_data_safe:
  "safe_session session_ok (unat len) (\<lambda>m s. gcc_read_client_monitor_extended_data m s len)"
proof (rule safe_sessionI)
  fix m s assume m: "session_ok m" and s: "readable s" "unat len \<le> length (remaining s)"
  show "within session_ok s (gcc_read_client_monitor_extended_data m s len)"
  proof (cases "len < 12")
    case False
    then have len: "12 \<le> unat len" using unat_ge [of len 12] by simp
    let ?c = "unat (MonitorCount (mcs_settings m))"
    let ?m = "with_settings (\<lambda>st. st\<lparr>HasMonitorAttributes := True\<rparr>) m"
    have "within session_ok s (read_monitor_attributes ?c 0 ?m (skip 12 s))" if c: "\<not> (unat len - 12) div 20 < ?c"
    proof -
      have "20 * ?c \<le> unat len - 12" using c by (simp add: not_less less_eq_div_iff_mult_less_eq)
      with m s len show ?thesis
        by (intro within_skip [OF read_monitor_attributes_safe])
          (simp_all add: session_ok_def with_settings_def)
    qed
    with s len False show ?thesis
      by (auto simp: gcc_read_client_monitor_extended_data_def block_run)
  qed (simp add: gcc_read_client_monitor_extended_data_def)
qed

lemma client_block_safe: "safe_session session_ok (unat len) (\<lambda>m s. read_client_block env type m s len)"
proof -
  have "safe_session session_ok (unat len) (\<lambda>m s. Ok () (m, Stream_Seek s (unat len)))"
    by (rule safe_sessionI) simp
  then show ?thesis
    unfolding read_client_block_def
    by (intro safe_session_if client_core_data_safe client_small_blocks_safe client_network_data_safe
        client_monitor_data_safe client_monitor_extended_data_safe)
qed

lemma user_data_header_run:
  assumes "readable s"
  shows "gcc_read_user_data_header s = Fail s \<or> gcc_read_user_data_header s = Fail (skip 4 s) \<and> 4 \<le> length (remaining s) \<or>
    (\<exists>type len. gcc_read_user_data_header s = Ok (type, len) (skip 4 s) \<and> 4 \<le> unat len \<and> unat len \<le> length (remaining s))"
proof (cases "length (remaining s) < 4")
  case False
  let ?l = "u16_at (skip 2 s)"
  have "unat (?l - 4) = unat ?l - 4" "4 \<le> unat ?l" if "\<not> ?l < 4"
    using that by (simp_all add: not_less word_le_nat_alt unat_sub)
  with False assms show ?thesis
    by (auto simp: gcc_read_user_data_header_def block_run skip_literals)
qed (use assms in \<open>simp add: gcc_read_user_data_header_def\<close>)

lemma SetPosition_skip:
  assumes "readable s" "n \<le> length (remaining s)" "advances s t"
  shows "Stream_SetPosition t (size_add (Stream_GetPosition s) n) = skip n s"
proof -
  have "size_add (s_pointer s) n = s_pointer s + n"
    using assms(1,2) unfolding readable_length_remaining [OF assms(1)]
    by (intro size_add_small) (auto simp: readable_def stream_ok_def)
  with assms(3) show ?thesis
    by (auto simp: advances_def skip_def Stream_SetPosition_def Stream_GetPosition_def)
qed

lemma client_blocks_loop_safe:
  "session_ok m \<Longrightarrow> readable s \<Longrightarrow> length (remaining s) < n \<Longrightarrow> within session_ok s (client_blocks_loop n env m s len)"
proof (induction n arbitrary: m s len)
  case (Suc n)
  note s = Suc.prems(2)
  consider "gcc_read_user_data_header s = Fail s"
    | "gcc_read_user_data_header s = Fail (skip 4 s)" "4 \<le> length (remaining s)"
    | type bl where "gcc_read_user_data_header s = Ok (type, bl) (skip 4 s)" "4 \<le> unat bl" "unat bl \<le> length (remaining s)"
    using user_data_header_run [OF s] by blast
  then show ?case
  proof cases
    case (3 type bl)
    then have bl: "unat (bl - 4) = unat bl - 4" by (simp add: unat_sub word_le_nat_alt)
    have w: "within session_ok (skip 4 s) (read_client_block env type m (skip 4 s) (bl - 4))"
      by (rule safe_sessionD [OF client_block_safe]) (use Suc.prems 3 bl in simp_all)
    have from4: "advances s t" if "advances (skip 4 s) t" for t using 3 advances_from [OF that] by simp
    show ?thesis
    proof (cases "read_client_block env type m (skip 4 s) (bl - 4)")
      case (Ok a p)
      obtain m' t where p: "p = (m', t)" by (cases p)
      with w Ok 3 have t: "session_ok m'" "advances s t" by (auto intro: from4)
      have "within session_ok s (client_blocks_loop n env m' (skip (unat bl) s) (len - bl))"
        using Suc.prems 3 t(1) by (intro within_skip [OF Suc.IH]) simp_all
      with 3 Ok p t s Suc.prems(1) show ?thesis by (simp add: Let_def bl SetPosition_skip)
    qed (use 3 w bl s Suc.prems from4 in \<open>auto simp: Let_def\<close>)
  qed (use s Suc.prems in \<open>auto simp: Let_def\<close>)
qed simp

text \<open>The client's side. Each block is parsed in a stream of its own.\<close>

lemma channel_ids_safe:
  "session_ok m \<Longrightarrow> i + k \<le> 31 \<Longrightarrow> readable s \<Longrightarrow> 2 * k \<le> length (remaining s) \<Longrightarrow>
   within session_ok s (read_channel_ids k i m s)"
proof (induction k arbitrary: i m s)
  case (Suc k)
  have "within session_ok s (read_channel_ids k (Suc i) (set_channel i f m) (skip 2 s))" for f
    using Suc.prems by (intro within_skip [OF Suc.IH]) simp_all
  moreover have "i < length (mcs_channels m)" using Suc.prems by (simp add: session_ok_def)
  ultimately show ?case using Suc.prems by (simp add: block_run)
qed simp

lemma advances_onward: "advances s t \<Longrightarrow> n \<le> length (remaining t) \<Longrightarrow> advances s (skip n t)"
  by (rule advances_trans [OF _ advances_skip])

lemma server_network_data_safe: "safe_session session_ok 0 gcc_read_server_network_data"
proof (rule safe_sessionI)
  fix m s assume m: "session_ok m" and s: "readable s"
  let ?c = "u16_at (skip 2 s)"
  let ?p = "if ucast ?c > mcs_channelCount m then ucast (mcs_channelCount m) else ?c"
  have c31: "unat (mcs_channelCount m) \<le> 31" using m by (simp add: session_ok_def word_le_nat_alt)
  have p: "unat ?p \<le> 31" "unat ?p \<le> unat ?c"
    using c31 by (auto simp: word_less_nat_alt unat_widen unsigned_ucast_eq [of "_ :: u32"] take_bit_nat_eq_self not_less)
  have ids: "within session_ok s (read_channel_ids (unat ?p) 0 m (skip 4 s))"
    if "4 \<le> length (remaining s)" "unat ?c * 2 \<le> length (remaining s) - 4"
    using m s p that by (intro within_skip [OF channel_ids_safe]) simp_all
  show "within session_ok s (gcc_read_server_network_data m s)"
  proof (cases "read_channel_ids (unat ?p) 0 m (skip 4 s)")
    case (Ok a q)
    with ids s show ?thesis
      by (cases q) (auto simp: gcc_read_server_network_data_def block_run Let_def not_less
          Stream_SafeSeek_readable advances_readable advances_onward)
  qed (use ids s in \<open>auto simp: gcc_read_server_network_data_def block_run Let_def not_less\<close>)
qed

lemma server_keys_safe: "safe_session session_ok 0 (read_server_keys env)"
  by (rule safe_sessionI) (auto simp: read_server_keys_def drop_security_def block_run Let_def)

lemma server_security_data_safe: "safe_session session_ok 0 (gcc_read_server_security_data env)"
  by (rule safe_sessionI)
    (auto simp: gcc_read_server_security_data_def block_run Let_def
      intro!: within_skip [OF safe_sessionD [OF server_keys_safe]])

lemma server_small_blocks_safe:
  "safe_session session_ok 0 gcc_read_server_core_data"
  "safe_session session_ok 0 gcc_read_server_message_channel_data"
  "safe_session session_ok 0 gcc_read_server_multitransport_channel_data"
    apply (rule safe_sessionI; auto simp: gcc_read_server_core_data_def block_run Let_def)
   apply (rule safe_sessionI; auto simp: gcc_read_server_message_channel_data_def block_run)
  apply (rule safe_sessionI; auto simp: gcc_read_server_multitransport_channel_data_def block_run)
  done

lemma server_block_safe: "safe_session session_ok 0 (read_server_block env type)"
  unfolding read_server_block_def
  by (intro safe_session_if server_small_blocks_safe server_network_data_safe server_security_data_safe
      safe_session_Ok)

lemma server_blocks_loop_safe:
  "session_ok m \<Longrightarrow> readable s \<Longrightarrow> length (remaining s) < n \<Longrightarrow>
   within session_ok s (server_blocks_loop n env m s offset len)"
proof (induction n arbitrary: m s offset)
  case (Suc n)
  note s = Suc.prems(2)
  consider "gcc_read_user_data_header s = Fail s"
    | "gcc_read_user_data_header s = Fail (skip 4 s)" "4 \<le> length (remaining s)"
    | type bl where "gcc_read_user_data_header s = Ok (type, bl) (skip 4 s)" "4 \<le> unat bl" "unat bl \<le> length (remaining s)"
    using user_data_header_run [OF s] by blast
  then show ?case
  proof cases
    case (3 type bl)
    then have bl: "unat (bl - 4) = unat bl - 4" by (simp add: unat_sub word_le_nat_alt)
    let ?block = "take (unat bl - 4) (drop 4 (remaining s))"
    let ?sub = "received ?block"
    have len: "length ?block = unat bl - 4" using 3 by simp
    have blk: "take (unat bl - 4) (drop (s_pointer (skip 4 s)) (s_buffer (skip 4 s))) = ?block"
      using take_block_remaining [of "skip 4 s" "unat bl - 4"] s 3 by simp
    have "length ?block < 2 ^ 63" using s readable_length_remaining [OF s] by (auto simp: readable_def stream_ok_def)
    then have "readable ?sub" by (rule received_readable)
    then have w: "within session_ok ?sub (read_server_block env type m ?sub)"
      by (intro safe_sessionD [OF server_block_safe]) (use Suc.prems in simp_all)
    show ?thesis
    proof (cases "read_server_block env type m ?sub")
      case (Ok a p)
      obtain m' t where p: "p = (m', t)" by (cases p)
      with w Ok have m': "session_ok m'" by simp
      have "within session_ok s (server_blocks_loop n env m' (skip (unat bl) s) (offset + bl) len)"
        using Suc.prems 3 m' by (intro within_skip [OF Suc.IH]) simp_all
      with 3 Ok p s Suc.prems(1) len blk bl show ?thesis
        by (simp add: Let_def Stream_SafeSeek_readable)
    qed (use 3 w bl s Suc.prems len blk in \<open>auto simp: Let_def Stream_SafeSeek_readable\<close>)
  qed (use s Suc.prems in \<open>auto simp: Let_def\<close>)
qed simp


lemma gcc_blocks_safe:
  "blocks_safe session_ok (gcc_read_client_data_blocks env)" "blocks_safe session_ok (gcc_read_server_data_blocks env)"
  unfolding blocks_safe_def gcc_read_client_data_blocks_def gcc_read_server_data_blocks_def
  by (intro allI safe_sessionI client_blocks_loop_safe server_blocks_loop_safe; simp)+


section \<open>What the writers emit\<close>

definition block_enc :: "u16 \<Rightarrow> u8 list \<Rightarrow> u8 list" where
  "block_enc type body = le16 type @ le16 (of_nat (length body + 4)) @ body"

definition name_enc :: "gcc_env \<Rightarrow> u8 list option \<Rightarrow> nat \<Rightarrow> u8 list" where
  "name_enc env str k =
     (case g_ConvertToUnicode env str of (n, name) \<Rightarrow>
        if n \<ge> k then take (2 * k) (name[2 * k - 2 := 0, 2 * k - 1 := 0])
        else take (2 * n) name @ replicate (2 * k - 2 * n) 0)"

text \<open>
  The block that \<open>ConvertToUnicode\<close> allocates holds the number of code units it returns.
\<close>

definition converts :: "gcc_env \<Rightarrow> bool" where
  "converts env \<longleftrightarrow> (\<forall>str. 2 * fst (g_ConvertToUnicode env str) \<le> length (snd (g_ConvertToUnicode env str)))"

lemma length_name_enc [simp]: "converts env \<Longrightarrow> length (name_enc env str k) = 2 * k"
proof -
  assume "converts env"
  then have "2 * fst (g_ConvertToUnicode env str) \<le> length (snd (g_ConvertToUnicode env str))"
    by (simp add: converts_def)
  then show ?thesis by (auto simp: name_enc_def split: prod.split)
qed

lemma emits_name: "converts env \<Longrightarrow> emits () (name_enc env str k) (write_name env str k)"
proof -
  assume "converts env"
  then have c: "2 * fst (g_ConvertToUnicode env str) \<le> length (snd (g_ConvertToUnicode env str))"
    by (simp add: converts_def)
  obtain n name where g: "g_ConvertToUnicode env str = (n, name)" by (cases "g_ConvertToUnicode env str")
  with c have n: "2 * n \<le> length name" by simp
  show ?thesis
  proof (cases "n \<ge> k")
    case True
    have "emits () (take (2 * k) (name[2 * k - 2 := 0, 2 * k - 1 := 0]) @ [])
       (\<lambda>s. and_then (Stream_Write s (name[2 * k - 2 := 0, 2 * k - 1 := 0]) (2 * k)) (\<lambda>_ s. Stream_Zero s 0))"
      using emits_zero [of 0] True n by (intro emits_then [OF emits_block _ refl]) simp_all
    with True n g show ?thesis unfolding write_name_def [abs_def] name_enc_def by simp
  next
    case False
    have "emits () (take (2 * n) name @ replicate (2 * k - 2 * n) 0)
       (\<lambda>s. and_then (Stream_Write s name (2 * n)) (\<lambda>_ s. Stream_Zero s (2 * k - 2 * n)))"
      using n by (intro emits_then [OF emits_block emits_zero refl])
    with False g show ?thesis unfolding write_name_def [abs_def] name_enc_def by simp
  qed
qed

definition core_enc :: "gcc_env \<Rightarrow> rdpSettings \<Rightarrow> u8 list" where
  "core_enc env st =
     le32 (RdpVersion st) @ le16 (ucast (DesktopWidth st)) @ le16 (ucast (DesktopHeight st)) @
     le16 RNS_UD_COLOR_8BPP @ le16 RNS_UD_SAS_DEL @ le32 (KeyboardLayout st) @ le32 (ClientBuild st) @
     name_enc env (ClientHostname st) 16 @ le32 (KeyboardType st) @ le32 (KeyboardSubType st) @
     le32 (KeyboardFunctionKey st) @ replicate 64 0 @ le16 RNS_UD_COLOR_8BPP @ le16 1 @ le32 0 @
     le16 (ucast (min (ColorDepth st) 24)) @ le16 (client_supported_depths st) @ le16 (client_early_flags st) @
     name_enc env (ClientProductId st) 32 @ [ucast (ConnectionType st)] @ [0] @ le32 (SelectedProtocol st) @
     le32 (DesktopPhysicalWidth st) @ le32 (DesktopPhysicalHeight st) @ le16 (DesktopOrientation st) @
     le32 (DesktopScaleFactor st) @ le32 (DeviceScaleFactor st)"

lemma length_core_enc: "converts env \<Longrightarrow> length (core_enc env st) = 230"
  by (simp add: core_enc_def)

lemma emits_header: "emits () (le16 type @ le16 len) (\<lambda>s. gcc_write_user_data_header s type len)"
  unfolding gcc_write_user_data_header_def by (rule emits_then [OF emits_u16 emits_u16 refl])

lemma emits_octet: "emits b bs (g ()) \<Longrightarrow> emits b (v # bs) (\<lambda>s. and_then (Stream_Write_UINT8 s v) g)"
  by (rule emits_then [OF emits_u8]) simp_all

lemma emits_data_block:
  assumes "emits () body f" "len = of_nat (length body + 4)"
  shows "emits () (block_enc type body) (\<lambda>s. and_then (gcc_write_user_data_header s type len) (\<lambda>_ s. f s))"
  unfolding block_enc_def assms(2) by (rule emits_then [OF emits_header assms(1)]) simp

lemma emits_client_core:
  assumes "converts env"
  shows "emits () (block_enc CS_CORE (core_enc env (mcs_settings m))) (gcc_write_client_core_data env m)"
  unfolding gcc_write_client_core_data_def [abs_def] Let_def core_enc_def append.simps
  by (rule emits_data_block)
    (rule emits_octet emits_then [OF _ _ refl] emits_rules emits_zero emits_name [OF assms] | simp add: assms)+

definition cluster_enc :: "rdpSettings \<Rightarrow> u8 list" where
  "cluster_enc st = le32 (client_cluster_flags st) @ le32 (RedirectedSessionId st)"

lemma emits_client_cluster:
  "emits () (block_enc CS_CLUSTER (cluster_enc (mcs_settings m))) (gcc_write_client_cluster_data m)"
  unfolding gcc_write_client_cluster_data_def [abs_def] cluster_enc_def
  by (rule emits_data_block) (rule emits_then [OF _ _ refl] emits_rules | simp)+

definition security_enc :: "rdpSettings \<Rightarrow> u8 list" where
  "security_enc st = (if UseRdpSecurityLayer st then le32 (EncryptionMethods st) @ le32 0
                      else le32 0 @ le32 (EncryptionMethods st))"

lemma emits_client_security:
  "emits () (block_enc CS_SECURITY (security_enc (mcs_settings m))) (gcc_write_client_security_data m)"
  unfolding gcc_write_client_security_data_def [abs_def] security_enc_def Let_def
  by (rule emits_data_block) (rule emits_if emits_then [OF _ _ refl] emits_rules | simp)+

definition channel_enc :: "rdpMcsChannel \<Rightarrow> u8 list" where
  "channel_enc c = take 8 (ch_Name c) @ le32 (ch_options c)"

lemma emits_channel_defs:
  "\<forall>c \<in> set cs. length (ch_Name c) = 8 \<Longrightarrow> emits () (concat (map channel_enc cs)) (write_channel_defs cs)"
proof (induction cs)
  case Nil
  then show ?case by (simp add: emits_def)
next
  case (Cons c cs)
  have "emits () ((take 8 (ch_Name c)) @ le32 (ch_options c) @ concat (map channel_enc cs)) (write_channel_defs (c # cs))"
    unfolding write_channel_defs.simps [abs_def]
    using Cons by (intro emits_then [OF emits_block] emits_then [OF emits_u32] refl) simp_all
  then show ?case by (simp add: channel_enc_def [of c] del: write_channel_defs.simps)
qed

definition network_enc :: "rdpMcs \<Rightarrow> u8 list" where
  "network_enc m = le32 (mcs_channelCount m) @
     concat (map channel_enc (take (unat (mcs_channelCount m)) (mcs_channels m)))"

text \<open>A session whose channel names fill their arrays of eight bytes.\<close>

definition named_channels :: "rdpMcs \<Rightarrow> bool" where
  "named_channels m \<longleftrightarrow> (\<forall>c \<in> set (mcs_channels m). length (ch_Name c) = 8)"

lemma length_channel_encs:
  "\<forall>c \<in> set cs. length (ch_Name c) = 8 \<Longrightarrow> length (concat (map channel_enc cs)) = 12 * length cs"
  by (induction cs) (simp_all add: channel_enc_def)

lemma length_network_enc:
  "session_ok m \<Longrightarrow> named_channels m \<Longrightarrow> length (network_enc m) = 4 + 12 * unat (mcs_channelCount m)"
proof -
  assume m: "session_ok m" "named_channels m"
  then have "\<forall>c \<in> set (take (unat (mcs_channelCount m)) (mcs_channels m)). length (ch_Name c) = 8"
    by (auto simp: named_channels_def dest: in_set_takeD)
  from length_channel_encs [OF this] m(1) show ?thesis
    by (simp add: network_enc_def session_ok_def word_le_nat_alt)
qed

lemma emits_client_network:
  assumes "session_ok m" "named_channels m"
  shows "emits () (if mcs_channelCount m > 0 then block_enc CS_NET (network_enc m) else [])
    (gcc_write_client_network_data m)"
proof -
  let ?c = "mcs_channelCount m"
  have c: "unat ?c \<le> 31" "unat ?c \<le> length (mcs_channels m)" using assms(1) by (simp_all add: session_ok_def word_le_nat_alt)
  have len: "(ucast (?c * 12 + 8) :: u16) = of_nat (length (network_enc m) + 4)"
  proof (rule word_unat_eq_iff [THEN iffD2])
    have "unat (?c * 12 + 8) = unat ?c * 12 + 8" using c by (simp add: unat_word_ariths)
    then show "unat (ucast (?c * 12 + 8) :: u16) = unat (of_nat (length (network_enc m) + 4) :: u16)"
      using c length_network_enc [OF assms]
      by (simp add: unsigned_ucast_eq unsigned_of_nat take_bit_nat_eq_self del: of_nat_add)
  qed
  have n: "\<forall>c \<in> set (take (unat ?c) (mcs_channels m)). length (ch_Name c) = 8"
    using assms(2) by (auto simp: named_channels_def dest: in_set_takeD)
  have "emits () (block_enc CS_NET (network_enc m))
     (\<lambda>s. and_then (gcc_write_user_data_header s CS_NET (ucast (?c * 12 + 8))) (\<lambda>_ s.
        and_then (Stream_Write_UINT32 s ?c) (\<lambda>_ s. write_channel_defs (take (unat ?c) (mcs_channels m)) s)))"
    by (rule emits_data_block [OF _ len], unfold network_enc_def)
      (rule emits_then [OF emits_u32 emits_channel_defs [OF n] refl])
  with c(2) show ?thesis
    unfolding gcc_write_client_network_data_def [abs_def] by (simp add: emits_Ok)
qed

text \<open>The blocks before the monitors, and those behind them.\<close>

definition client_front_enc :: "gcc_env \<Rightarrow> rdpMcs \<Rightarrow> u8 list" where
  "client_front_enc env m =
     block_enc CS_CORE (core_enc env (mcs_settings m)) @ block_enc CS_CLUSTER (cluster_enc (mcs_settings m)) @
     block_enc CS_SECURITY (security_enc (mcs_settings m)) @
     (if mcs_channelCount m > 0 then block_enc CS_NET (network_enc m) else [])"

definition client_ext_enc :: "rdpSettings \<Rightarrow> u8 list" where
  "client_ext_enc st =
     (if wants_message_channel st then block_enc CS_MCS_MSGCHANNEL (le32 0) else []) @
     block_enc CS_MULTITRANSPORT (le32 (MultitransportFlags st))"

abbreviation extended_data :: "rdpSettings \<Rightarrow> bool" where
  "extended_data st \<equiv> NegotiationFlags st AND 1 \<noteq> 0"

definition client_data_enc :: "gcc_env \<Rightarrow> rdpMcs \<Rightarrow> u8 list" where
  "client_data_enc env m =
     client_front_enc env m @ (if extended_data (mcs_settings m) then client_ext_enc (mcs_settings m) else [])"

abbreviation multimon :: "rdpSettings \<Rightarrow> bool" where
  "multimon st \<equiv> UseMultimon st \<and> \<not> SpanMonitors st"

lemma length_block_enc [simp]: "length (block_enc type body) = length body + 4"
  by (simp add: block_enc_def)

lemma length_client_front:
  assumes "converts env" "session_ok m" "named_channels m"
  shows "length (client_front_enc env m) =
    258 + (if mcs_channelCount m > 0 then 8 + 12 * unat (mcs_channelCount m) else 0)"
  using length_core_enc [OF assms(1)] length_network_enc [OF assms(2,3)]
  by (simp add: client_front_enc_def cluster_enc_def security_enc_def)

lemma length_client_data:
  assumes "converts env" "session_ok m" "named_channels m"
  shows "length (client_data_enc env m) =
    258 + (if mcs_channelCount m > 0 then 8 + 12 * unat (mcs_channelCount m) else 0) +
    (if extended_data (mcs_settings m) then 8 + (if wants_message_channel (mcs_settings m) then 8 else 0) else 0)"
  using length_client_front [OF assms] by (simp add: client_data_enc_def client_ext_enc_def)

lemma emits_client_ext:
  "emits () (client_ext_enc (mcs_settings m)) (\<lambda>s. and_then (gcc_write_client_message_channel_data m s) (\<lambda>_ s.
     gcc_write_client_multitransport_channel_data m s))"
proof -
  have "emits () (if wants_message_channel (mcs_settings m) then block_enc CS_MCS_MSGCHANNEL (le32 0) else [])
     (gcc_write_client_message_channel_data m)"
    unfolding gcc_write_client_message_channel_data_def [abs_def]
    by (rule emits_if) (rule emits_data_block emits_rules | simp)+
  moreover have "emits () (block_enc CS_MULTITRANSPORT (le32 (MultitransportFlags (mcs_settings m))))
     (gcc_write_client_multitransport_channel_data m)"
    unfolding gcc_write_client_multitransport_channel_data_def [abs_def]
    by (rule emits_data_block emits_rules | simp)+
  ultimately show ?thesis unfolding client_ext_enc_def by (rule emits_then) (rule refl)
qed

text \<open>
  A writer that emits \<open>bs\<close> and goes on with something else: it runs out of room when \<open>bs\<close> does not fit.
\<close>

definition client_tail :: "gcc_env \<Rightarrow> rdpMcs \<Rightarrow> wStream \<Rightarrow> (unit, wStream) res" where
  "client_tail env mcs s =
     (let settings = mcs_settings mcs in
      if extended_data settings then
        and_then (if multimon settings then write_monitor_blocks env mcs s else Ok () s) (\<lambda>_ s.
        and_then (gcc_write_client_message_channel_data mcs s) (\<lambda>_ s.
        gcc_write_client_multitransport_channel_data mcs s))
      else if multimon settings \<and> ForceMultimon settings then write_monitor_blocks env mcs s
      else Ok () s)"

lemma client_data_front:
  assumes "converts env" "session_ok m" "named_channels m" "stream_ok s"
  shows "gcc_write_client_data_blocks env m s =
    (if length (client_front_enc env m) \<le> room s then client_tail env m (put (client_front_enc env m) s) else Fault)"
proof -
  have "emits () (client_front_enc env m) (\<lambda>s. and_then (gcc_write_client_core_data env m s) (\<lambda>_ s.
     and_then (gcc_write_client_cluster_data m s) (\<lambda>_ s.
     and_then (gcc_write_client_security_data m s) (\<lambda>_ s. gcc_write_client_network_data m s))))"
    unfolding client_front_enc_def
    by (rule emits_then [OF _ _ refl] emits_client_core emits_client_cluster emits_client_security
        emits_client_network assms)+
  from emitsD [OF this assms(4)] show ?thesis
    unfolding gcc_write_client_data_blocks_def client_tail_def
    by (simp add: Let_def and_then_assoc [symmetric]) 
qed

lemma client_data_emitted:
  assumes "converts env" "session_ok m" "named_channels m" "\<not> multimon (mcs_settings m)"
  shows "emits () (client_data_enc env m) (gcc_write_client_data_blocks env m)"
  unfolding emits_def
proof (intro allI impI)
  fix s assume s: "stream_ok s"
  have "emits () (if extended_data (mcs_settings m) then client_ext_enc (mcs_settings m) else []) (client_tail env m)"
    using emits_client_ext [of m] assms(4) unfolding client_tail_def [abs_def] Let_def
    by (cases "UseMultimon (mcs_settings m)") (simp_all add: emits_Ok)
  from emitsD [OF this] show "gcc_write_client_data_blocks env m s =
      (if length (client_data_enc env m) \<le> room s then Ok () (put (client_data_enc env m) s) else Fault)"
    using client_data_front [OF assms(1-3) s] s by (auto simp: client_data_enc_def le_diff_conv2)
qed

lemma too_many_channels:
  assumes "converts env" "session_ok m" "named_channels m" "21 \<le> unat (mcs_channelCount m)"
  shows "gcc_write_client_data_blocks env m (fresh f 512) = Fault"
proof -
  have "0 < mcs_channelCount m" using assms(4) by (simp add: word_less_nat_alt)
  with length_client_front [OF assms(1-3)] assms(4) have "512 < length (client_front_enc env m)" by simp
  with client_data_front [OF assms(1-3), of "fresh f 512"] show ?thesis by simp
qed

text \<open>
  C27. The size of the client data. Without multiple monitors the writer of the client data blocks, which
  gets a stream of 512 bytes from \<open>mcs_send_connect_initial\<close>, overruns it exactly when the blocks
  are longer than that: 258 bytes, 8 for the channels and 12 for each of them, and 8 or 16 when the server
  supports extended client data. Up to 19 channels always fit, and with 21 of the 31 channels that the
  table can hold the send operation overruns the buffer in every configuration.
\<close>

theorem gcc_client_data_bound:
  assumes "converts env" "session_ok m" "named_channels m"
  defines "n \<equiv> unat (mcs_channelCount m)" and "st \<equiv> mcs_settings m"
  shows "(\<not> multimon st \<longrightarrow>
      (gcc_write_client_data_blocks env m (fresh f 512) = Fault \<longleftrightarrow>
       512 < 258 + (if 0 < n then 8 + 12 * n else 0) +
         (if extended_data st then 8 + (if wants_message_channel st then 8 else 0) else 0))) \<and>
    (\<not> multimon st \<and> n \<le> 19 \<longrightarrow>
      gcc_write_client_data_blocks env m (fresh f 512) = Ok () (put (client_data_enc env m) (fresh f 512))) \<and>
    (21 \<le> n \<and> (\<forall>i. granted (ora i)) \<and> mcs_initialize_client_channels m0 (mcs_settings m0) = Ok () m \<longrightarrow>
      mcs_send_connect_initial ora (gcc_write_client_data_blocks env) tw m0 sent = Fault)"
proof (intro conjI impI; (elim conjE)?)
  note len = length_client_data [OF assms(1-3)]
  have c: "0 < mcs_channelCount m \<longleftrightarrow> 0 < n" by (simp add: n_def word_less_nat_alt)
  note w = emitsD [OF client_data_emitted [OF assms(1-3)], of "fresh f 512"]
  show "gcc_write_client_data_blocks env m (fresh f 512) = Fault \<longleftrightarrow>
       512 < 258 + (if 0 < n then 8 + 12 * n else 0) +
         (if extended_data st then 8 + (if wants_message_channel st then 8 else 0) else 0)"
    if "\<not> multimon st" using w that len c unfolding n_def st_def by (simp split: if_split_asm)
  show "gcc_write_client_data_blocks env m (fresh f 512) = Ok () (put (client_data_enc env m) (fresh f 512))"
    if "\<not> multimon st" "n \<le> 19" using w that len unfolding n_def st_def by simp
  show "mcs_send_connect_initial ora (gcc_write_client_data_blocks env) tw m0 sent = Fault"
    if n: "21 \<le> n" and ora: "\<forall>i. granted (ora i)" and init: "mcs_initialize_client_channels m0 (mcs_settings m0) = Ok () m"
  proof -
    obtain u f where "ora 0 = (Some u, Some f)" using granted_cases [of "ora 0"] ora by blast
    with init too_many_channels [OF assms(1-3), where f = f] n show ?thesis
      by (simp add: mcs_send_connect_initial_def with_stream_granted n_def)
  qed
qed

section \<open>Reading what was written\<close>

text \<open>
  The values the accessors return as a function of the bytes ahead; with the laws on \<open>take\<close> and \<open>drop\<close>
  of concatenations, rewriting evaluates a reader on an encoded block.
\<close>

definition le16_val :: "u8 list \<Rightarrow> u16" where
  "le16_val bs = ucast (bs ! 0) + push_bit 8 (ucast (bs ! 1))"

definition le32_val :: "u8 list \<Rightarrow> u32" where
  "le32_val bs = ucast (bs ! 0) + push_bit 8 (ucast (bs ! 1)) + push_bit 16 (ucast (bs ! 2)) + push_bit 24 (ucast (bs ! 3))"

lemma val_enc [simp]: "le16_val (le16 v @ bs) = v" "le32_val (le32 w @ cs) = w"
  "le16_val (le16 v) = v" "le32_val (le32 w) = w"
  using octets16 [of v] octets32 [of w] by (simp_all add: le16_val_def le32_val_def le16_def le32_def ucast_octet)

named_theorems block_vals

lemma at_remaining [block_vals]:
  "readable s \<Longrightarrow> 1 \<le> length (remaining s) \<Longrightarrow> u8_at s = hd (remaining s)"
  "readable s \<Longrightarrow> 2 \<le> length (remaining s) \<Longrightarrow> u16_at s = le16_val (remaining s)"
  "readable s \<Longrightarrow> 4 \<le> length (remaining s) \<Longrightarrow> u32_at s = le32_val (remaining s)"
  by (simp_all add: u8_at_def u16_at_def u32_at_def value_of_def stream_read le16_val_def le32_val_def)
    (cases "remaining s"; simp)

lemma and_flag: "(w :: 'a::len word) AND 2 ^ k = 0 \<longleftrightarrow> \<not> bit w k" if "k < LENGTH('a)"
proof
  assume "w AND 2 ^ k = 0"
  then have "\<not> bit (w AND 2 ^ k) k" by simp
  with that show "\<not> bit w k" by (simp add: bit_and_iff bit_exp_iff)
next
  assume "\<not> bit w k"
  then show "w AND 2 ^ k = 0" by (intro bit_eqI) (auto simp: bit_and_iff bit_exp_iff)
qed

lemma early_flags:
  "client_early_flags st AND 0x0001 \<noteq> 0"
  "client_early_flags st AND 0x0002 = 0 \<longleftrightarrow> ColorDepth st \<noteq> 32"
  "client_early_flags st AND 0x0004 = 0 \<longleftrightarrow> \<not> SupportStatusInfoPdu st"
  "client_early_flags st AND 0x0020 = 0 \<longleftrightarrow> (ucast (ConnectionType st) :: u8) = 0"
  "client_early_flags st AND 0x0040 = 0 \<longleftrightarrow> \<not> SupportMonitorLayoutPdu st"
  "client_early_flags st AND 0x0080 = 0 \<longleftrightarrow> \<not> NetworkAutoDetect st"
  "client_early_flags st AND 0x0100 = 0 \<longleftrightarrow> \<not> SupportGraphicsPipeline st"
  "client_early_flags st AND 0x0200 = 0 \<longleftrightarrow> \<not> SupportDynamicTimeZone st"
  "client_early_flags st AND 0x0400 = 0 \<longleftrightarrow> \<not> SupportHeartbeatPdu st"
  using and_flag [of 0 "client_early_flags st"] and_flag [of 1 "client_early_flags st"]
    and_flag [of 2 "client_early_flags st"] and_flag [of 5 "client_early_flags st"]
    and_flag [of 6 "client_early_flags st"] and_flag [of 7 "client_early_flags st"]
    and_flag [of 8 "client_early_flags st"] and_flag [of 9 "client_early_flags st"]
    and_flag [of 10 "client_early_flags st"]
  by (simp_all add: client_early_flags_def bit_or_iff bit_numeral_rec numeral_eq_Suc)

lemma with_settings_twice [simp]: "with_settings f (with_settings g m) = with_settings (\<lambda>st. f (g st)) m"
  by (simp add: with_settings_def)

lemma with_settings_cong: "(\<And>st. f st = g st) \<Longrightarrow> with_settings f m = with_settings g m"
  by (simp add: with_settings_def)

text \<open>The color depth a client asks for, and the settings of the server behind the client core data.\<close>

definition depth_asked :: "rdpSettings \<Rightarrow> u32" where
  "depth_asked st = (if ColorDepth st = 0 then 8 else if ColorDepth st = 32 then 32 else min (ColorDepth st) 24)"

definition core_taken :: "gcc_env \<Rightarrow> rdpSettings \<Rightarrow> rdpSettings \<Rightarrow> rdpSettings" where
  "core_taken env st old = old
    \<lparr>RdpVersion := min (RdpVersion st) (RdpVersion old),
     DesktopWidth := take_bit 16 (DesktopWidth st), DesktopHeight := take_bit 16 (DesktopHeight st),
     KeyboardLayout := KeyboardLayout st, ClientBuild := ClientBuild st,
     ClientHostname := Some (snd (g_ConvertFromUnicode env (name_enc env (ClientHostname st) 16))),
     KeyboardType := KeyboardType st, KeyboardSubType := KeyboardSubType st,
     KeyboardFunctionKey := KeyboardFunctionKey st, EarlyCapabilityFlags := ucast (client_early_flags st),
     ClientProductId := Some (snd (g_ConvertFromUnicode env (name_enc env (ClientProductId st) 32))),
     DesktopPhysicalWidth := DesktopPhysicalWidth st, DesktopPhysicalHeight := DesktopPhysicalHeight st,
     DesktopOrientation := DesktopOrientation st, DesktopScaleFactor := DesktopScaleFactor st,
     DeviceScaleFactor := DeviceScaleFactor st,
     ColorDepth := (if depth_asked st < ColorDepth old \<or> \<not> ServerMode old then depth_asked st else ColorDepth old),
     NetworkAutoDetect := NetworkAutoDetect old \<and> NetworkAutoDetect st,
     SupportHeartbeatPdu := SupportHeartbeatPdu old \<and> SupportHeartbeatPdu st,
     SupportGraphicsPipeline := SupportGraphicsPipeline old \<and> SupportGraphicsPipeline st,
     SupportDynamicTimeZone := SupportDynamicTimeZone old \<and> SupportDynamicTimeZone st,
     SupportMonitorLayoutPdu := SupportMonitorLayoutPdu old \<and> SupportMonitorLayoutPdu st,
     SupportStatusInfoPdu := SupportStatusInfoPdu old \<and> SupportStatusInfoPdu st,
     SupportErrorInfoPdu := True, ConnectionType := take_bit 8 (ConnectionType st)\<rparr>"

lemma ucast_take: "ucast (ucast (w :: u32) :: u16) = take_bit 16 w" "ucast (ucast (w :: u32) :: u8) = take_bit 8 w"
  by (rule bit_word_eqI; auto simp: bit_simps)+

lemma connection_type:
  "(if (ucast (c :: u32) :: u8) = 0 then 0 else take_bit 8 c) = take_bit 8 c"
  by (auto simp: ucast_take(2) [symmetric])

lemma client_depth_asked:
  assumes "o_highColorDepth f = ucast (min (ColorDepth st) 24)" "o_earlyCapabilityFlags f = client_early_flags st"
    "o_postBeta2ColorDepth f = RNS_UD_COLOR_8BPP"
  shows "client_color_depth d f = Some (depth_asked st)"
proof -
  let ?h = "min (ColorDepth st) 24"
  have "?h \<le> 24" by simp
  then have "unat ?h \<le> unat (24 :: u32)" unfolding word_le_nat_alt .
  then have h: "unat ?h < 2 ^ 16" by simp
  then have b: "take_bit 16 ?h = ?h"
    by (simp add: word_unat_eq_iff unsigned_take_bit_eq take_bit_nat_eq_self)
  have "(0 :: u16) < ucast ?h \<longleftrightarrow> unat ?h \<noteq> 0"
    using h by (simp add: word_less_nat_alt unsigned_ucast_eq take_bit_nat_eq_self)
  also have "\<dots> \<longleftrightarrow> ColorDepth st \<noteq> 0" by (auto simp: min_def unat_eq_0)
  finally have "(0 :: u16) < ucast ?h \<longleftrightarrow> ColorDepth st \<noteq> 0" .
  with assms b show ?thesis
    by (simp add: client_color_depth_def depth_asked_def early_flags ucast_take)
qed

lemma core_body_read:
  assumes c: "converts env" and s: "readable s" and r: "remaining s = core_enc env st @ rest"
    and p: "SelectedProtocol st = SelectedProtocol (mcs_settings m)"
    and names: "0 < fst (g_ConvertFromUnicode env (name_enc env (ClientHostname st) 16))"
      "0 < fst (g_ConvertFromUnicode env (name_enc env (ClientProductId st) 32))"
  shows "gcc_read_client_core_data env m s 230 = Ok () (with_settings (core_taken env st) m, skip 230 s)"
proof -
  have len: "length (remaining s) \<ge> 230" using r length_core_enc [OF c] by simp
  have sel: "SelectedProtocol (mcs_settings (with_settings f m)) = SelectedProtocol st"
    if "\<And>st. SelectedProtocol (f st) = SelectedProtocol st" for f using p that by (simp add: with_settings_def)
  show ?thesis
    using len s names
    apply (simp add: gcc_read_client_core_data_def block_run Let_def read_core_optional_def present_def read_core_display_def read_unicode_def)
    apply (simp add: block_vals)
    apply (simp add: r core_enc_def c sel client_depth_asked rdp_version_common_def)
    apply (rule with_settings_cong)
    apply (insert len)
    apply (simp add: block_vals)
    apply (simp add: r core_enc_def c)
    apply (simp add: core_capabilities_def core_taken_def Let_def early_flags ucast_take connection_type
        split del: if_split cong: if_cong)
    done
qed

definition cluster_taken :: "rdpSettings \<Rightarrow> rdpSettings \<Rightarrow> rdpSettings" where
  "cluster_taken st old =
     (if ConsoleSession st \<or> RedirectedSessionId st \<noteq> 0 then old\<lparr>RedirectedSessionId := RedirectedSessionId st\<rparr> else old)"

definition security_taken :: "rdpSettings \<Rightarrow> rdpSettings \<Rightarrow> rdpSettings" where
  "security_taken st old =
     (if UseRdpSecurityLayer old then old\<lparr>EncryptionMethods := EncryptionMethods st\<rparr> else old)"

lemma cluster_flag: "client_cluster_flags st AND 2 = 0 \<longleftrightarrow> \<not> (ConsoleSession st \<or> RedirectedSessionId st \<noteq> 0)"
  using and_flag [of 1 "client_cluster_flags st"]
  by (simp add: client_cluster_flags_def bit_or_iff bit_numeral_rec numeral_eq_Suc)

lemma cluster_body_read:
  assumes "readable s" "remaining s = cluster_enc st @ rest"
  shows "gcc_read_client_cluster_data m s 8 = Ok () (with_settings (cluster_taken st) m, skip 8 s)"
proof -
  have "8 \<le> length (remaining s)" using assms by (simp add: cluster_enc_def)
  then have "gcc_read_client_cluster_data m s 8 = Ok ()
      (if u32_at s AND 2 \<noteq> 0 then with_settings (\<lambda>t. t\<lparr>RedirectedSessionId := u32_at (skip 4 s)\<rparr>) m else m, skip 8 s)"
    using assms(1) by (simp add: gcc_read_client_cluster_data_def block_run Let_def)
  moreover have "u32_at s = client_cluster_flags st" "u32_at (skip 4 s) = RedirectedSessionId st"
    using assms by (simp_all add: block_vals cluster_enc_def)
  ultimately show ?thesis by (auto simp: cluster_flag cluster_taken_def with_settings_def)
qed

lemma security_body_read:
  assumes "readable s" "remaining s = security_enc st @ rest"
  shows "gcc_read_client_security_data m s 8 = Ok () (with_settings (security_taken st) m, skip 8 s)"
proof -
  have len: "8 \<le> length (remaining s)" using assms by (simp add: security_enc_def)
  have "u32_at s = (if UseRdpSecurityLayer st then EncryptionMethods st else 0)"
    "u32_at (skip 4 s) = (if UseRdpSecurityLayer st then 0 else EncryptionMethods st)"
    using assms by (simp_all add: block_vals security_enc_def)
  with len assms(1) show ?thesis
    by (auto simp: gcc_read_client_security_data_def block_run Let_def security_taken_def with_settings_def
        split: if_splits)
qed

text \<open>The channel definitions land in the table in order, with consecutive ids from the base channel id.\<close>

definition take_channel :: "nat \<Rightarrow> rdpMcsChannel \<Rightarrow> rdpMcs \<Rightarrow> rdpMcs" where
  "take_channel i c m =
     (set_channel i (\<lambda>d. d\<lparr>ch_Name := ch_Name c, ch_options := ch_options c,
        ch_ChannelId := uint (mcs_baseChannelId m)\<rparr>) m)\<lparr>mcs_baseChannelId := mcs_baseChannelId m + 1\<rparr>"

primrec take_channels :: "nat \<Rightarrow> rdpMcsChannel list \<Rightarrow> rdpMcs \<Rightarrow> rdpMcs" where
  "take_channels i [] m = m"
| "take_channels i (c # cs) m = take_channels (Suc i) cs (take_channel i c m)"

definition sendable :: "rdpMcsChannel \<Rightarrow> bool" where
  "sendable c \<longleftrightarrow> length (ch_Name c) = 8 \<and> 0 \<in> set (ch_Name c)"

lemma session_ok_take_channel [simp]: "session_ok (take_channel i c m) = session_ok m"
  by (simp add: take_channel_def)

lemma channel_defs_read:
  assumes "session_ok m" "i + length cs \<le> 31" "readable s"
    "remaining s = concat (map channel_enc cs) @ rest" "\<forall>c \<in> set cs. sendable c"
  shows "read_channel_defs (length cs) i m s = Ok () (take_channels i cs m, skip (12 * length cs) s)"
  using assms
proof (induction cs arbitrary: i m s)
  case (Cons c cs)
  have len: "12 \<le> length (remaining s)" using Cons.prems(4,5) by (simp add: channel_enc_def sendable_def)
  have i: "i < length (mcs_channels m)" using Cons.prems(1,2) by (simp add: session_ok_def)
  have name: "take 8 (remaining s) = ch_Name c" "0 \<in> set (ch_Name c)"
    and opt: "u32_at (skip 8 s) = ch_options c"
    and rest: "remaining (skip 12 s) = concat (map channel_enc cs) @ rest"
    using Cons.prems(3-5) by (simp_all add: block_vals channel_enc_def [of c] sendable_def)
  have "read_channel_defs (length cs) (Suc i) (take_channel i c m) (skip 12 s) =
      Ok () (take_channels (Suc i) cs (take_channel i c m), skip (12 * length cs) (skip 12 s))"
    using Cons.prems rest len by (intro Cons.IH) simp_all
  moreover have "read_channel_defs (length (c # cs)) i m s =
      read_channel_defs (length cs) (Suc i) (take_channel i c m) (skip 12 s)"
    using Cons.prems(3) len i name opt
    by (simp add: block_run Let_def take_channel_def set_channel_def)
  ultimately show ?case by simp
qed simp

abbreviation used_channels :: "rdpMcs \<Rightarrow> rdpMcsChannel list" where
  "used_channels c \<equiv> take (unat (mcs_channelCount c)) (mcs_channels c)"

definition network_taken :: "rdpMcs \<Rightarrow> rdpMcs \<Rightarrow> rdpMcs" where
  "network_taken c m = take_channels 0 (used_channels c) (m\<lparr>mcs_channelCount := mcs_channelCount c\<rparr>)"

text \<open>A client whose channels can be announced.\<close>

definition channels_ready :: "rdpMcs \<Rightarrow> bool" where
  "channels_ready c \<longleftrightarrow> session_ok c \<and> named_channels c \<and> (\<forall>d \<in> set (used_channels c). sendable d)"

lemma network_body_read:
  assumes c: "channels_ready c" and m: "session_ok m" and s: "readable s" "remaining s = network_enc c @ rest"
  shows "gcc_read_client_network_data m s (of_nat (length (network_enc c))) =
    Ok () (network_taken c m, skip (length (network_enc c)) s)"
proof -
  let ?n = "mcs_channelCount c" and ?cs = "used_channels c"
  let ?len = "of_nat (length (network_enc c)) :: u16"
  have n: "unat ?n \<le> 31" "length ?cs = unat ?n" "?n \<le> 31"
    using c by (simp_all add: channels_ready_def session_ok_def word_le_nat_alt)
  have len: "length (network_enc c) = 4 + 12 * unat ?n"
    using c length_network_enc by (simp add: channels_ready_def)
  have ul: "unat ?len = 4 + 12 * unat ?n"
    using n len by (simp add: unsigned_of_nat take_bit_nat_eq_self del: of_nat_add)
  have "unat (4 + ?n * 12) = 4 + unat ?n * 12" using n by (simp add: unat_word_ariths)
  then have g: "\<not> ucast ?len < 4 + ?n * 12" "\<not> ?len < 4" "\<not> CHANNEL_MAX_COUNT < ?n"
    using ul n by (simp_all add: word_less_nat_alt CHANNEL_MAX_COUNT_def)
  have v: "u32_at s = ?n" "remaining (skip 4 s) = concat (map channel_enc ?cs) @ rest"
    "4 \<le> length (remaining s)" using s by (simp_all add: block_vals network_enc_def)
  have "read_channel_defs (length ?cs) 0 (m\<lparr>mcs_channelCount := ?n\<rparr>) (skip 4 s) =
      Ok () (network_taken c m, skip (12 * length ?cs) (skip 4 s))"
    unfolding network_taken_def
    using m s c n v by (intro channel_defs_read) (simp_all add: session_ok_def channels_ready_def)
  with s v g n len show ?thesis
    by (simp add: gcc_read_client_network_data_def block_run Let_def del: of_nat_add)
qed

text \<open>One round of the loop over the blocks.\<close>

lemma client_block_round:
  assumes s: "readable s" "remaining s = block_enc type body @ rest" and l: "length body + 4 < 2 ^ 16" "len \<noteq> 0"
    and r: "\<And>t. readable t \<Longrightarrow> remaining t = body @ rest \<Longrightarrow>
      read_client_block env type m t (of_nat (length body)) = Ok () (m', skip (length body) t)"
  shows "client_blocks_loop (Suc n) env m s len =
    client_blocks_loop n env m' (skip (length (block_enc type body)) s) (len - of_nat (length body + 4))"
proof -
  let ?bl = "of_nat (length body + 4) :: u16"
  have bl: "unat ?bl = length body + 4" using l by (simp add: unsigned_of_nat take_bit_nat_eq_self del: of_nat_add)
  have bl4: "?bl - 4 = of_nat (length body)" by simp
  have ub: "unat (of_nat (length body) :: u16) = length body"
    using l by (simp add: unsigned_of_nat take_bit_nat_eq_self)
  have v: "u16_at s = type" "u16_at (skip 2 s) = ?bl" "4 + length body \<le> length (remaining s)"
    using s by (simp_all add: block_vals block_enc_def del: of_nat_add)
  have h: "gcc_read_user_data_header s = Ok (type, ?bl) (skip 4 s)"
    using s(1) v bl ub bl4
    by (simp add: gcc_read_user_data_header_def block_run skip_literals word_less_nat_alt del: of_nat_add)
  have "readable (skip 4 s)" "remaining (skip 4 s) = body @ rest" using s v by (simp_all add: block_enc_def)
  note r = r [OF this]
  have "Stream_SetPosition (skip (4 + length body) s) (size_add (Stream_GetPosition s) (unat ?bl)) =
      skip (length body + 4) s"
    unfolding bl using s(1) v(3) by (intro SetPosition_skip) simp_all
  with h r s(1) v(3) l(2) ub bl4 show ?thesis
    by (auto simp: Let_def simp del: of_nat_add)
qed

text \<open>\<open>k\<close> rounds of the loop, or more, take a session over the blocks \<open>bs\<close>.\<close>

definition blocks_taken :: "nat \<Rightarrow> gcc_env \<Rightarrow> rdpMcs \<Rightarrow> u8 list \<Rightarrow> rdpMcs \<Rightarrow> bool" where
  "blocks_taken k env m bs m' \<longleftrightarrow> (\<forall>n s. k \<le> n \<longrightarrow> readable s \<longrightarrow> remaining s = bs \<longrightarrow>
     client_blocks_loop n env m s (of_nat (length bs)) = Ok () (m', skip (length bs) s))"

lemma blocks_taken_Nil: "blocks_taken 1 env m [] m"
  unfolding blocks_taken_def
proof (intro allI impI)
  fix n :: nat and s assume "1 \<le> n"
  then show "client_blocks_loop n env m s (of_nat (length [])) = Ok () (m, skip (length []) s)"
    by (cases n) simp_all
qed

lemma blocks_taken_Cons:
  assumes r: "\<And>t. readable t \<Longrightarrow> remaining t = body @ rest \<Longrightarrow>
      read_client_block env type m t (of_nat (length body)) = Ok () (m', skip (length body) t)"
    and len: "length body + 4 + length rest < 2 ^ 16" and k: "blocks_taken k env m' rest m''"
  shows "blocks_taken (Suc k) env m (block_enc type body @ rest) m''"
  unfolding blocks_taken_def
proof (intro allI impI)
  fix n s assume n: "Suc k \<le> n" and s: "readable s" "remaining s = block_enc type body @ rest"
  then obtain n' where n': "n = Suc n'" "k \<le> n'" by (cases n) auto
  let ?l = "of_nat (length (block_enc type body @ rest)) :: u16"
  have "unat ?l = length body + 4 + length rest"
    using len by (simp add: unsigned_of_nat take_bit_nat_eq_self del: of_nat_add)
  then have l: "?l \<noteq> 0" by (auto simp: unat_eq_0 [symmetric] simp del: of_nat_add)
  have "client_blocks_loop n env m s ?l =
      client_blocks_loop n' env m' (skip (length (block_enc type body)) s) (?l - of_nat (length body + 4))"
    unfolding n' using s len l r by (intro client_block_round) simp_all
  also have "?l - of_nat (length body + 4) = of_nat (length rest)" by simp
  also have "client_blocks_loop n' env m' (skip (length (block_enc type body)) s) (of_nat (length rest)) =
      Ok () (m'', skip (length rest) (skip (length (block_enc type body)) s))"
    using k n' skip_over [OF s(2) refl] s(1) by (simp add: blocks_taken_def)
  finally show "client_blocks_loop n env m s ?l = Ok () (m'', skip (length (block_enc type body @ rest)) s)"
    by simp
qed

definition server_after :: "gcc_env \<Rightarrow> rdpMcs \<Rightarrow> rdpMcs \<Rightarrow> rdpMcs" where
  "server_after env c m =
     (let st = mcs_settings c;
          m = with_settings (security_taken st) (with_settings (cluster_taken st) (with_settings (core_taken env st) m));
          m = (if mcs_channelCount c > 0 then network_taken c m else m)
      in if extended_data st \<and> wants_message_channel st
         then m\<lparr>mcs_messageChannelId := mcs_baseChannelId m, mcs_baseChannelId := mcs_baseChannelId m + 1\<rparr> else m)"

lemma four_read: "readable s \<Longrightarrow> remaining s = le32 v @ rest \<Longrightarrow>
  gcc_read_client_message_channel_data m s 4 =
    Ok () (m\<lparr>mcs_messageChannelId := mcs_baseChannelId m, mcs_baseChannelId := mcs_baseChannelId m + 1\<rparr>, skip 4 s) \<and>
  gcc_read_client_multitransport_channel_data m s 4 = Ok () (m, skip 4 s)"
  by (simp add: gcc_read_client_message_channel_data_def gcc_read_client_multitransport_channel_data_def block_run)

lemma ext_blocks_taken:
  "blocks_taken 3 env m (if extended_data st then client_ext_enc st else [])
    (if extended_data st \<and> wants_message_channel st
     then m\<lparr>mcs_messageChannelId := mcs_baseChannelId m, mcs_baseChannelId := mcs_baseChannelId m + 1\<rparr> else m)"
proof -
  have mt: "blocks_taken 2 env m' (block_enc CS_MULTITRANSPORT (le32 (MultitransportFlags st)) @ []) m'" for m'
    unfolding numeral_2_eq_2
    by (rule blocks_taken_Cons [OF _ _ blocks_taken_Nil [unfolded One_nat_def]])
      (use four_read in \<open>force simp: read_client_block_def\<close>)+
  have "blocks_taken 3 env m (block_enc CS_MCS_MSGCHANNEL (le32 0) @ block_enc CS_MULTITRANSPORT (le32 (MultitransportFlags st)) @ [])
     (m\<lparr>mcs_messageChannelId := mcs_baseChannelId m, mcs_baseChannelId := mcs_baseChannelId m + 1\<rparr>)"
    unfolding numeral_3_eq_3
    by (rule blocks_taken_Cons [OF _ _ mt [unfolded numeral_2_eq_2]])
      (use four_read in \<open>force simp: read_client_block_def\<close>)+
  with mt [of m] blocks_taken_Nil [of env m] show ?thesis
    by (auto simp: client_ext_enc_def blocks_taken_def)
qed

text \<open>The two names a client announces can be converted back by the server.\<close>

definition names_readable :: "gcc_env \<Rightarrow> rdpSettings \<Rightarrow> bool" where
  "names_readable env st \<longleftrightarrow>
     0 < fst (g_ConvertFromUnicode env (name_enc env (ClientHostname st) 16)) \<and>
     0 < fst (g_ConvertFromUnicode env (name_enc env (ClientProductId st) 32))"

lemma network_blocks_taken:
  assumes c: "channels_ready c" and m: "session_ok m" and l: "length rest < 1000"
    and k: "blocks_taken k env (if mcs_channelCount c > 0 then network_taken c m else m) rest m'"
  shows "blocks_taken (Suc k) env m ((if mcs_channelCount c > 0 then block_enc CS_NET (network_enc c) else []) @ rest) m'"
proof (cases "mcs_channelCount c > 0")
  case True
  have "unat (mcs_channelCount c) \<le> 31" using c by (simp add: channels_ready_def session_ok_def word_le_nat_alt)
  then have "length (network_enc c) \<le> 376" using c length_network_enc by (simp add: channels_ready_def)
  with True l k network_body_read [OF c m] show ?thesis
    by (simp del: append_assoc) (rule blocks_taken_Cons [where m' = "network_taken c m"];
        simp add: read_client_block_def)
next
  case False
  with k show ?thesis by (auto simp: blocks_taken_def)
qed

lemma session_ok_taken [simp]:
  "session_ok (with_settings (security_taken st) m) = session_ok m"
  "session_ok (with_settings (cluster_taken st) m) = session_ok m"
  "session_ok (with_settings (core_taken env st) m) = session_ok m"
  by (simp_all add: security_taken_def cluster_taken_def core_taken_def)

lemma client_data_read:
  assumes env: "converts env" "names_readable env (mcs_settings c)" and c: "channels_ready c" and m: "session_ok m"
    and p: "SelectedProtocol (mcs_settings c) = SelectedProtocol (mcs_settings m)"
    and s: "readable s" "remaining s = client_data_enc env c"
  shows "gcc_read_client_data_blocks env m s (of_nat (length (client_data_enc env c))) =
    Ok () (server_after env c m, skip (length (client_data_enc env c)) s)"
proof -
  let ?st = "mcs_settings c"
  let ?ext = "if extended_data ?st then client_ext_enc ?st else []"
  let ?net = "if mcs_channelCount c > 0 then block_enc CS_NET (network_enc c) else []"
  define m1 where "m1 = with_settings (core_taken env ?st) m"
  define m2 where "m2 = with_settings (cluster_taken ?st) m1"
  define m3 where "m3 = with_settings (security_taken ?st) m2"
  have m3: "session_ok m3" using m unfolding m1_def m2_def m3_def by (simp del: with_settings_twice)
  have ext: "length ?ext \<le> 16" by (simp add: client_ext_enc_def)
  have "unat (mcs_channelCount c) \<le> 31" using c by (simp add: channels_ready_def session_ok_def word_le_nat_alt)
  then have net: "length ?net \<le> 380" using c length_network_enc by (simp add: channels_ready_def)
  have "blocks_taken 4 env m3 (?net @ ?ext) (server_after env c m)"
    using network_blocks_taken [OF c m3, of ?ext 3 env "server_after env c m"] ext
      ext_blocks_taken [of env "if mcs_channelCount c > 0 then network_taken c m3 else m3" ?st]
    unfolding server_after_def Let_def m1_def [symmetric] m2_def [symmetric] m3_def [symmetric] by simp
  then have "blocks_taken 5 env m2 (block_enc CS_SECURITY (security_enc ?st) @ ?net @ ?ext) (server_after env c m)"
    using net ext security_body_read [where m = m2 and st = ?st]
    by (intro blocks_taken_Cons [where m' = m3 and k = 4, simplified]) 
      (simp_all add: read_client_block_def security_enc_def m3_def)
  then have "blocks_taken 6 env m1 (block_enc CS_CLUSTER (cluster_enc ?st) @ block_enc CS_SECURITY (security_enc ?st) @ ?net @ ?ext) (server_after env c m)"
    using net ext cluster_body_read [where m = m1 and st = ?st]
    by (intro blocks_taken_Cons [where m' = m2 and k = 5, simplified]) 
      (simp_all add: read_client_block_def security_enc_def cluster_enc_def m2_def)
  then have "blocks_taken 7 env m (client_data_enc env c) (server_after env c m)"
    unfolding client_data_enc_def client_front_enc_def append_assoc
    using net ext core_body_read [OF env(1) _ _ p] env(2) length_core_enc [OF env(1)]
    by (intro blocks_taken_Cons [where m' = m1 and k = 6, simplified]) 
      (simp_all add: read_client_block_def security_enc_def cluster_enc_def names_readable_def m1_def)
  moreover have "7 \<le> Suc (length (client_data_enc env c))"
    using length_client_data [OF env(1)] c by (simp add: channels_ready_def)
  ultimately show ?thesis
    using s unfolding gcc_read_client_data_blocks_def blocks_taken_def
    by (simp del: client_blocks_loop.simps)
qed

lemma take_channel_fields [simp]:
  "mcs_baseChannelId (take_channel i c m) = mcs_baseChannelId m + 1"
  "length (mcs_channels (take_channel i c m)) = length (mcs_channels m)"
  "mcs_settings (take_channel i c m) = mcs_settings m"
  "mcs_channelCount (take_channel i c m) = mcs_channelCount m"
  "mcs_messageChannelId (take_channel i c m) = mcs_messageChannelId m"
  "mcs_targetParameters (take_channel i c m) = mcs_targetParameters m"
  "mcs_minimumParameters (take_channel i c m) = mcs_minimumParameters m"
  "mcs_maximumParameters (take_channel i c m) = mcs_maximumParameters m"
  "mcs_domainParameters (take_channel i c m) = mcs_domainParameters m"
  by (simp_all add: take_channel_def set_channel_def)

lemma take_channels_fields [simp]:
  "mcs_baseChannelId (take_channels i cs m) = mcs_baseChannelId m + of_nat (length cs)"
  "length (mcs_channels (take_channels i cs m)) = length (mcs_channels m)"
  "mcs_settings (take_channels i cs m) = mcs_settings m"
  "mcs_channelCount (take_channels i cs m) = mcs_channelCount m"
  "mcs_messageChannelId (take_channels i cs m) = mcs_messageChannelId m"
  "mcs_targetParameters (take_channels i cs m) = mcs_targetParameters m"
  "mcs_minimumParameters (take_channels i cs m) = mcs_minimumParameters m"
  "mcs_maximumParameters (take_channels i cs m) = mcs_maximumParameters m"
  "mcs_domainParameters (take_channels i cs m) = mcs_domainParameters m"
  by (induction cs arbitrary: i m) simp_all

lemma take_channels_before: "k < i \<Longrightarrow> mcs_channels (take_channels i cs m) ! k = mcs_channels m ! k"
  by (induction cs arbitrary: i m) (simp_all add: take_channel_def set_channel_def)

lemma take_channels_nth:
  assumes "i + length cs \<le> length (mcs_channels m)" "j < length cs"
  shows "ch_Name (mcs_channels (take_channels i cs m) ! (i + j)) = ch_Name (cs ! j)"
    "ch_options (mcs_channels (take_channels i cs m) ! (i + j)) = ch_options (cs ! j)"
    "ch_ChannelId (mcs_channels (take_channels i cs m) ! (i + j)) = uint (mcs_baseChannelId m + of_nat j)"
proof -
  have "ch_Name (mcs_channels (take_channels i cs m) ! (i + j)) = ch_Name (cs ! j) \<and>
    ch_options (mcs_channels (take_channels i cs m) ! (i + j)) = ch_options (cs ! j) \<and>
    ch_ChannelId (mcs_channels (take_channels i cs m) ! (i + j)) = uint (mcs_baseChannelId m + of_nat j)"
    using assms
  proof (induction cs arbitrary: i m j)
    case (Cons c cs)
    show ?case
    proof (cases j)
      case 0
      with Cons.prems show ?thesis
        by (simp add: take_channels_before) (simp add: take_channel_def set_channel_def)
    next
      case (Suc k)
      with Cons.prems Cons.IH [of "Suc i" "take_channel i c m" k] show ?thesis by (simp add: ac_simps)
    qed
  qed simp
  then show "ch_Name (mcs_channels (take_channels i cs m) ! (i + j)) = ch_Name (cs ! j)"
    "ch_options (mcs_channels (take_channels i cs m) ! (i + j)) = ch_options (cs ! j)"
    "ch_ChannelId (mcs_channels (take_channels i cs m) ! (i + j)) = uint (mcs_baseChannelId m + of_nat j)"
    by blast+
qed

text \<open>What the server knows about a client behind its data blocks.\<close>

definition client_known :: "gcc_env \<Rightarrow> rdpMcs \<Rightarrow> rdpMcs \<Rightarrow> rdpMcs \<Rightarrow> bool" where
  "client_known env c m m' \<longleftrightarrow>
     (let st = mcs_settings c; n = unat (mcs_channelCount c) in
      mcs_settings m' = security_taken st (cluster_taken st (core_taken env st (mcs_settings m))) \<and>
      (0 < n \<longrightarrow> mcs_channelCount m' = mcs_channelCount c) \<and>
      (\<forall>i < n. ch_Name (mcs_channels m' ! i) = ch_Name (mcs_channels c ! i) \<and>
         ch_options (mcs_channels m' ! i) = ch_options (mcs_channels c ! i) \<and>
         ch_ChannelId (mcs_channels m' ! i) = uint (mcs_baseChannelId m + of_nat i)) \<and>
      (extended_data st \<and> wants_message_channel st \<longrightarrow> mcs_messageChannelId m' = mcs_baseChannelId m + of_nat n))"

lemma server_after_known:
  assumes "channels_ready c" "session_ok m"
  shows "client_known env c m (server_after env c m)"
    "mcs_targetParameters (server_after env c m) = mcs_targetParameters m"
    "mcs_minimumParameters (server_after env c m) = mcs_minimumParameters m"
    "mcs_maximumParameters (server_after env c m) = mcs_maximumParameters m"
    "mcs_domainParameters (server_after env c m) = mcs_domainParameters m"
proof -
  have n: "unat (mcs_channelCount c) \<le> 31" "length (mcs_channels c) = 31" "length (mcs_channels m) = 31"
    using assms by (simp_all add: channels_ready_def session_ok_def word_le_nat_alt)
  have pos: "0 < mcs_channelCount c \<longleftrightarrow> 0 < unat (mcs_channelCount c)" by (simp add: word_less_nat_alt)
  note nth = take_channels_nth [where i = 0 and cs = "used_channels c", simplified]
  show "client_known env c m (server_after env c m)"
    using n pos unfolding client_known_def server_after_def Let_def
    by (cases "0 < mcs_channelCount c") (simp_all add: network_taken_def with_settings_def nth)
  show "mcs_targetParameters (server_after env c m) = mcs_targetParameters m"
    "mcs_minimumParameters (server_after env c m) = mcs_minimumParameters m"
    "mcs_maximumParameters (server_after env c m) = mcs_maximumParameters m"
    "mcs_domainParameters (server_after env c m) = mcs_domainParameters m"
    by (simp_all add: server_after_def Let_def network_taken_def with_settings_def)
qed

section \<open>Writers that make room\<close>

text \<open>
  The bytes written to a stream are those before its position. A growing writer appends to them and
  may enlarge the buffer: \<open>appends k bs f\<close> says that \<open>f\<close>, given a stream whose capacity is below \<open>c\<close>, appends
  \<open>bs\<close> and leaves a capacity below \<open>4 ^ k * c\<close>, when memory is granted.
\<close>

abbreviation written :: "wStream \<Rightarrow> u8 list" where
  "written s \<equiv> take (s_pointer s) (s_buffer s)"

definition appends :: "nat \<Rightarrow> u8 list \<Rightarrow> (wStream \<Rightarrow> (unit, wStream) res) \<Rightarrow> bool" where
  "appends k bs f \<longleftrightarrow> (\<forall>s c. stream_ok s \<and> 0 < s_capacity s \<and> s_capacity s \<le> c \<and> 2 ^ 17 \<le> c \<and> 4 ^ k * c \<le> 2 ^ 61 \<longrightarrow>
     (\<exists>t. f s = Ok () t \<and> stream_ok t \<and> written t = written s @ bs \<and> s_capacity s \<le> s_capacity t \<and>
        s_capacity t \<le> 4 ^ k * c))"

lemma written_put: "stream_ok s \<Longrightarrow> length bs \<le> room s \<Longrightarrow> written (put bs s) = written s @ bs"
  by (simp add: put_def stream_ok_def room_def take_blit_full)

lemma ensure_room_grows:
  assumes s: "stream_ok s" "0 < s_capacity s" and c: "s_capacity s + n \<le> 2 ^ 62"
  shows "\<exists>t. ensure_room (Some f) s n = Ok () t \<and> stream_ok t \<and> n \<le> room t \<and> written t = written s \<and>
    s_capacity s \<le> s_capacity t \<and> s_capacity t \<le> 2 * (s_capacity s + n)"
proof -
  have add: "size_add (s_pointer s) n = s_pointer s + n" "size_add (s_capacity s) n = s_capacity s + n"
    using s c by (auto simp: size_add_def stream_ok_def)
  have len: "length (s_buffer s) = s_capacity s" using s by (simp add: stream_ok_def)
  show ?thesis
  proof (cases "s_pointer s + n > s_capacity s")
    case True
    have "s_pointer s \<le> s_capacity s" using s by (simp add: stream_ok_def)
    with True have n: "s_capacity s < s_capacity s + n" by simp
    obtain t k where t: "Stream_EnsureCapacity (Some f) s (s_capacity s + n) = Some (Ok () t)"
      "t = s\<lparr>s_buffer := s_buffer s @ replicate (k - s_capacity s) 0, s_capacity := k, s_length := k,
           s_isOwner := True\<rparr>" "s_capacity s + n \<le> k" "k < 2 ^ 63" "k < 2 * (s_capacity s + n)"
      using Stream_EnsureCapacity_grows_aux [OF s n c, of f] by blast
    with True add len s show ?thesis
      by (intro exI [of _ t])
        (auto simp: ensure_room_def Stream_EnsureRemainingCapacity_def Stream_GetPosition_def stream_ok_def room_def)
  next
    case False
    with s len add show ?thesis
      by (auto simp: ensure_room_def Stream_EnsureRemainingCapacity_def Stream_GetPosition_def room_def)
  qed
qed

lemma appendsI:
  assumes "\<And>s c. stream_ok s \<Longrightarrow> 0 < s_capacity s \<Longrightarrow> s_capacity s \<le> c \<Longrightarrow> 2 ^ 17 \<le> c \<Longrightarrow> 4 ^ k * c \<le> 2 ^ 61 \<Longrightarrow>
     \<exists>t. f s = Ok () t \<and> stream_ok t \<and> written t = written s @ bs \<and> s_capacity s \<le> s_capacity t \<and>
        s_capacity t \<le> 4 ^ k * c"
  shows "appends k bs f"
  using assms unfolding appends_def by blast

lemma appends_Ok: "appends k [] (Ok ())"
proof (rule appendsI)
  fix s and c :: nat assume s: "stream_ok s" "s_capacity s \<le> c"
  have "c \<le> 4 ^ k * c" by simp
  with s show "\<exists>t. Ok () s = Ok () t \<and> stream_ok t \<and> written t = written s @ [] \<and> s_capacity s \<le> s_capacity t \<and>
      s_capacity t \<le> 4 ^ k * c" using order_trans by fastforce
qed

lemma appends_room:
  assumes e: "emits () bs g" and n: "length bs \<le> n" "n \<le> 2 ^ 17"
  shows "appends 1 bs (\<lambda>s. and_then (ensure_room (Some f) s n) (\<lambda>_ s. g s))"
proof (rule appendsI)
  fix s c assume s: "stream_ok s" "0 < s_capacity s" and c: "s_capacity s \<le> c" "2 ^ 17 \<le> c" "4 ^ 1 * c \<le> 2 ^ 61"
  have "s_capacity s + n \<le> 2 ^ 62" using c n by simp
  then obtain t where t: "ensure_room (Some f) s n = Ok () t" "stream_ok t" "n \<le> room t" "written t = written s"
    "s_capacity s \<le> s_capacity t" "s_capacity t \<le> 2 * (s_capacity s + n)"
    using ensure_room_grows [OF s] by blast
  have "2 * (s_capacity s + n) \<le> 4 ^ 1 * c" using c n by simp
  with t e n show "\<exists>t. and_then (ensure_room (Some f) s n) (\<lambda>_ s. g s) = Ok () t \<and> stream_ok t \<and>
      written t = written s @ bs \<and> s_capacity s \<le> s_capacity t \<and> s_capacity t \<le> 4 ^ 1 * c"
    using written_put [of t bs] by (intro exI [of _ "put bs t"]) (simp add: emits_fits)
qed

lemma appends_then:
  assumes f: "appends j bs f" and g: "appends k cs g"
  shows "appends (j + k) (bs @ cs) (\<lambda>s. and_then (f s) (\<lambda>_ s. g s))"
proof (rule appendsI)
  fix s and c :: nat
  assume s: "stream_ok s" "0 < s_capacity s" and c: "s_capacity s \<le> c" "2 ^ 17 \<le> c" "4 ^ (j + k) * c \<le> 2 ^ 61"
  have e: "4 ^ (j + k) * c = 4 ^ k * (4 ^ j * c)" by (simp add: power_add)
  have "4 ^ j * c \<le> 4 ^ k * (4 ^ j * c)" by simp
  with c(3) have "4 ^ j * c \<le> 2 ^ 61" unfolding e by (rule order_trans [rotated])
  with f s c obtain t where t: "f s = Ok () t" "stream_ok t" "written t = written s @ bs"
    "s_capacity s \<le> s_capacity t" "s_capacity t \<le> 4 ^ j * c" unfolding appends_def by metis
  moreover have "0 < s_capacity t" using s t by simp
  moreover have "2 ^ 17 \<le> 4 ^ j * c" using c(2) by (rule order_trans) simp
  ultimately obtain u where "g t = Ok () u" "stream_ok u" "written u = written t @ cs"
    "s_capacity t \<le> s_capacity u" "s_capacity u \<le> 4 ^ k * (4 ^ j * c)"
    using g c(3) unfolding appends_def e by metis
  with t e show "\<exists>u. and_then (f s) (\<lambda>_ s. g s) = Ok () u \<and> stream_ok u \<and> written u = written s @ bs @ cs \<and>
      s_capacity s \<le> s_capacity u \<and> s_capacity u \<le> 4 ^ (j + k) * c" by auto
qed

lemma appends_fresh:
  assumes "appends k bs f" "k \<le> 20"
  obtains t where "f (fresh h 512) = Ok () t" "stream_ok t" "written t = bs" "s_capacity t < 2 ^ 62"
proof -
  have "(4 :: nat) ^ k \<le> 4 ^ 20" using assms(2) by (rule power_increasing) simp
  then have k: "(4 :: nat) ^ k * 2 ^ 17 \<le> 2 ^ 61" by simp
  obtain t where "f (fresh h 512) = Ok () t" "stream_ok t" "written t = written (fresh h 512) @ bs"
    "s_capacity t \<le> 4 ^ k * 2 ^ 17"
    using assms(1) [unfolded appends_def, rule_format, of "fresh h 512" "2 ^ 17"] k by auto
  with k that show thesis by simp
qed

section \<open>Server data\<close>

definition server_core_enc :: "rdpSettings \<Rightarrow> u8 list" where
  "server_core_enc st = le32 (RdpVersion st) @ le32 (RequestedProtocols st) @
     le32 (if SupportDynamicTimeZone st then 2 else 0)"

definition server_network_enc :: "rdpMcs \<Rightarrow> u8 list" where
  "server_network_enc m = le16 MCS_GLOBAL_CHANNEL_ID @ le16 (ucast (mcs_channelCount m)) @
     concat (map (\<lambda>c. le16 (word_of_int (ch_ChannelId c))) (used_channels m)) @
     (if mcs_channelCount m mod 2 = 1 then le16 0 else [])"

definition plain_security_enc :: "u8 list" where
  "plain_security_enc = le32 ENCRYPTION_METHOD_NONE @ le32 LEVEL_NONE"

definition server_data_enc :: "rdpMcs \<Rightarrow> u8 list" where
  "server_data_enc m =
     block_enc SC_CORE (server_core_enc (mcs_settings m)) @ block_enc SC_NET (server_network_enc m) @
     block_enc SC_SECURITY plain_security_enc @
     (if mcs_messageChannelId m = 0 then [] else block_enc SC_MCS_MSGCHANNEL (le16 (mcs_messageChannelId m)))"

lemma emits_channel_ids:
  "emits () (concat (map (\<lambda>c. le16 (word_of_int (ch_ChannelId c))) cs)) (write_channel_ids cs)"
proof (induction cs)
  case Nil
  then show ?case by (simp add: emits_def)
next
  case (Cons c cs)
  then show ?case unfolding write_channel_ids.simps [abs_def] by (simp add: emits_then [OF emits_u16])
qed

lemma length_channel_ids: "length (concat (map (\<lambda>c. le16 (f c)) cs)) = 2 * length cs"
  by (induction cs) simp_all

lemma word_mod_2: "(w :: u32) mod 2 = 1 \<longleftrightarrow> odd (unat w)"
  by (simp add: word_unat_eq_iff unat_mod odd_iff_mod_2_eq_one)

lemma length_server_network:
  "session_ok m \<Longrightarrow> length (server_network_enc m) =
     4 + 2 * unat (mcs_channelCount m) + (if odd (unat (mcs_channelCount m)) then 2 else 0)"
  by (simp add: server_network_enc_def length_channel_ids session_ok_def word_le_nat_alt word_mod_2)

lemma sint_small: "unat (w :: u32) < 2 ^ 31 \<Longrightarrow> sint w = int (unat w)"
proof -
  assume "unat w < 2 ^ 31"
  then have "int (unat w) < int (2 ^ 31)" by (simp only: of_nat_less_iff)
  then have "uint w < 2 ^ 31" by simp
  then have "signed_take_bit 31 (uint w) = uint w"
    using unsigned_greater_eq [of w, where 'a = int] by (intro signed_take_bit_int_eq_self) linarith+
  then show ?thesis by (simp add: sint_uint)
qed

lemma appends_server_core:
  assumes "g_grow env = Some f"
  shows "appends 1 (block_enc SC_CORE (server_core_enc (mcs_settings m))) (gcc_write_server_core_data env m)"
  unfolding gcc_write_server_core_data_def [abs_def] Let_def assms
  by (rule appends_room, rule emits_data_block, unfold server_core_enc_def)
    (rule emits_then [OF _ _ refl] emits_rules | simp)+

lemma appends_server_message:
  assumes "g_grow env = Some f"
  shows "appends 1 (if mcs_messageChannelId m = 0 then [] else block_enc SC_MCS_MSGCHANNEL (le16 (mcs_messageChannelId m)))
    (gcc_write_server_message_channel_data env m)"
proof (cases "mcs_messageChannelId m = 0")
  case False
  have "appends 1 (block_enc SC_MCS_MSGCHANNEL (le16 (mcs_messageChannelId m)))
     (\<lambda>s. and_then (ensure_room (Some f) s 6) (\<lambda>_ s. and_then (gcc_write_user_data_header s SC_MCS_MSGCHANNEL 6)
        (\<lambda>_ s. Stream_Write_UINT16 s (mcs_messageChannelId m))))"
    by (rule appends_room, rule emits_data_block) (rule emits_rules | simp)+
  with False assms show ?thesis unfolding gcc_write_server_message_channel_data_def [abs_def] by simp
qed (simp add: gcc_write_server_message_channel_data_def [abs_def] appends_Ok)

lemma appends_server_network:
  assumes g: "g_grow env = Some f" and m: "session_ok m"
  shows "appends 1 (block_enc SC_NET (server_network_enc m)) (gcc_write_server_network_data env m)"
proof -
  let ?c = "mcs_channelCount m"
  let ?p = "8 + ?c * 2 + (if ?c mod 2 = 1 then 2 else 0)"
  have c: "unat ?c \<le> 31" "unat ?c \<le> length (mcs_channels m)" using m by (simp_all add: session_ok_def word_le_nat_alt)
  have p: "unat ?p = length (server_network_enc m) + 4"
    using c length_server_network [OF m] by (auto simp: unat_word_ariths word_mod_2)
  then have p72: "unat ?p \<le> 72" using c length_server_network [OF m] by (auto elim: oddE)
  then have s: "sint ?p = int (unat ?p)" by (intro sint_small) simp
  have h: "(ucast ?p :: u16) = of_nat (length (server_network_enc m) + 4)"
    using p p72 by (simp add: word_unat_eq_iff unsigned_ucast_eq unsigned_of_nat take_bit_nat_eq_self del: of_nat_add)
  have "emits () (block_enc SC_NET (server_network_enc m)) (\<lambda>s. and_then (gcc_write_user_data_header s SC_NET (ucast ?p)) (\<lambda>_ s.
     and_then (Stream_Write_UINT16 s MCS_GLOBAL_CHANNEL_ID) (\<lambda>_ s.
     and_then (Stream_Write_UINT16 s (ucast ?c)) (\<lambda>_ s.
     and_then (write_channel_ids (used_channels m) s) (\<lambda>_ s.
     if ?c mod 2 = 1 then Stream_Write_UINT16 s 0 else Ok () s)))))"
    by (rule emits_data_block [OF _ h], unfold server_network_enc_def)
      (rule emits_then [OF _ _ refl] emits_channel_ids emits_if emits_rules)+
  from appends_room [OF this, of "unat ?p + 4" f] p p72
  show ?thesis unfolding gcc_write_server_network_data_def [abs_def] Let_def g
    using s p72 c by (simp add: int_to_size_def nat_add_distrib cong: if_cong)
qed

text \<open>Under TLS or NLA the server switches the encryption of the RDP layer off.\<close>

definition unencrypted :: "rdpMcs \<Rightarrow> rdpMcs" where
  "unencrypted = with_settings (\<lambda>st. st\<lparr>EncryptionLevel := LEVEL_NONE, EncryptionMethods := ENCRYPTION_METHOD_NONE\<rparr>)"

lemma on_stream_then:
  "and_then (on_stream m r) (\<lambda>a (m, s). on_stream m (g a s)) = on_stream m (and_then r g)"
  by (cases r) simp_all

lemma server_security_plain:
  assumes "server_encryption_level (mcs_settings m) = LEVEL_NONE"
  shows "gcc_write_server_security_data env m s = on_stream (unencrypted m)
    (and_then (ensure_room (g_grow env) s 16) (\<lambda>_ s. and_then (gcc_write_user_data_header s SC_SECURITY 12) (\<lambda>_ s.
     and_then (Stream_Write_UINT32 s ENCRYPTION_METHOD_NONE) (\<lambda>_ s. Stream_Write_UINT32 s LEVEL_NONE))))"
  using assms unfolding gcc_write_server_security_data_def Let_def unencrypted_def
  by (simp add: server_encryption_method_def on_stream_then)

lemma appends_server_security:
  "appends 1 (block_enc SC_SECURITY plain_security_enc)
    (\<lambda>s. and_then (ensure_room (Some f) s 16) (\<lambda>_ s. and_then (gcc_write_user_data_header s SC_SECURITY 12) (\<lambda>_ s.
     and_then (Stream_Write_UINT32 s ENCRYPTION_METHOD_NONE) (\<lambda>_ s. Stream_Write_UINT32 s LEVEL_NONE))))"
  by (rule appends_room, rule emits_data_block, unfold plain_security_enc_def)
    (rule emits_then [OF _ _ refl] emits_rules | simp)+

lemma server_data_written:
  assumes g: "g_grow env = Some f" and m: "session_ok m"
    and none: "server_encryption_level (mcs_settings m) = LEVEL_NONE"
  shows "reply_written (gcc_write_server_data_blocks env) m (server_data_enc m) (unencrypted m)"
  unfolding reply_written_def
proof
  fix h
  let ?w = "\<lambda>s. and_then (gcc_write_server_core_data env m s) (\<lambda>_ s. and_then (gcc_write_server_network_data env m s) (\<lambda>_ s.
     and_then (and_then (ensure_room (Some f) s 16) (\<lambda>_ s. and_then (gcc_write_user_data_header s SC_SECURITY 12) (\<lambda>_ s.
     and_then (Stream_Write_UINT32 s ENCRYPTION_METHOD_NONE) (\<lambda>_ s. Stream_Write_UINT32 s LEVEL_NONE)))) (\<lambda>_ s.
     gcc_write_server_message_channel_data env m s)))"
  have "appends (1 + (1 + (1 + 1))) (server_data_enc m) ?w"
    unfolding server_data_enc_def
    by (intro appends_then appends_server_core [OF g] appends_server_network [OF g m] appends_server_security
        appends_server_message [OF g])
  then obtain t where t: "?w (fresh h 512) = Ok () t" "stream_ok t" "written t = server_data_enc m" "s_capacity t < 2 ^ 62"
    by (rule appends_fresh) simp
  have msg: "gcc_write_server_message_channel_data env (unencrypted m) s = gcc_write_server_message_channel_data env m s" for s
    by (simp add: gcc_write_server_message_channel_data_def unencrypted_def with_settings_def)
  have "gcc_write_server_data_blocks env m (fresh h 512) = Ok () (unencrypted m, t)"
    using t(1) unfolding gcc_write_server_data_blocks_def
    by (auto simp: and_then_Ok_iff server_security_plain [OF none] g msg)
  with t(2-4) show "\<exists>u. gcc_write_server_data_blocks env m (fresh h 512) = Ok () (unencrypted m, u) \<and>
      stream_ok u \<and> s_capacity u < 2 ^ 62 \<and> written u = server_data_enc m" by blast
qed

lemma server_block_round:
  assumes s: "readable s" "remaining s = block_enc type body @ rest" and l: "length body + 4 < 2 ^ 16" "offset < len"
    and r: "read_server_block env type m (received body) = Ok () (m', u)"
  shows "server_blocks_loop (Suc n) env m s offset len =
    server_blocks_loop n env m' (skip (length (block_enc type body)) s) (offset + of_nat (length body + 4)) len"
proof -
  let ?bl = "of_nat (length body + 4) :: u16"
  have bl: "unat ?bl = length body + 4" using l by (simp add: unsigned_of_nat take_bit_nat_eq_self del: of_nat_add)
  have ub: "unat (?bl - 4) = length body"
    using l by (simp add: unsigned_of_nat take_bit_nat_eq_self)
  have v: "u16_at s = type" "u16_at (skip 2 s) = ?bl" "4 + length body \<le> length (remaining s)"
    using s by (simp_all add: block_vals block_enc_def del: of_nat_add)
  have h: "gcc_read_user_data_header s = Ok (type, ?bl) (skip 4 s)"
    using s(1) v bl ub
    by (simp add: gcc_read_user_data_header_def block_run skip_literals word_less_nat_alt del: of_nat_add)
  have t: "readable (skip 4 s)" "remaining (skip 4 s) = body @ rest" using s v by (simp_all add: block_enc_def)
  have "take (length body) (drop (s_pointer (skip 4 s)) (s_buffer (skip 4 s))) = body"
    using take_block_remaining [OF t(1), of "length body"] t(2) v(3) by simp
  with h r t l(2) ub v(3) show ?thesis
    by (simp add: Let_def Stream_SafeSeek_readable add.commute [of 4] del: of_nat_add)
qed

definition reply_taken :: "nat \<Rightarrow> gcc_env \<Rightarrow> rdpMcs \<Rightarrow> u8 list \<Rightarrow> rdpMcs \<Rightarrow> bool" where
  "reply_taken k env m bs m' \<longleftrightarrow> (\<forall>n s offset len. k \<le> n \<longrightarrow> readable s \<longrightarrow> remaining s = bs \<longrightarrow>
     unat offset + length bs = unat len \<longrightarrow>
     server_blocks_loop n env m s offset len = Ok () (m', skip (length bs) s))"

lemma reply_taken_Nil: "reply_taken 1 env m [] m"
  unfolding reply_taken_def
proof (intro allI impI)
  fix n :: nat and s and offset len :: u16 assume "1 \<le> n" "unat offset + length ([] :: u8 list) = unat len"
  then show "server_blocks_loop n env m s offset len = Ok () (m, skip (length ([] :: u8 list)) s)"
    by (cases n) (simp_all add: word_less_nat_alt)
qed

lemma reply_taken_Cons:
  assumes r: "read_server_block env type m (received body) = Ok () (m', u)"
    and k: "reply_taken k env m' rest m''"
  shows "reply_taken (Suc k) env m (block_enc type body @ rest) m''"
  unfolding reply_taken_def
proof (intro allI impI)
  fix n s and offset len :: u16
  assume n: "Suc k \<le> n" and s: "readable s" "remaining s = block_enc type body @ rest"
    and l: "unat offset + length (block_enc type body @ rest) = unat len"
  then obtain n' where n': "n = Suc n'" "k \<le> n'" by (cases n) auto
  have b: "unat len < 2 ^ 16" using unsigned_less [of len, where 'a = nat] by simp
  have o: "offset < len" using l by (simp add: word_less_nat_alt)
  let ?o = "offset + of_nat (length body + 4)"
  have o': "unat ?o = unat offset + (length body + 4)"
    using l b by (simp add: unat_word_ariths unsigned_of_nat take_bit_nat_eq_self del: of_nat_add)
  have "server_blocks_loop n env m s offset len =
      server_blocks_loop n' env m' (skip (length (block_enc type body)) s) ?o len"
    unfolding n' using s l b o r by (intro server_block_round) simp_all
  also have "\<dots> = Ok () (m'', skip (length rest) (skip (length (block_enc type body)) s))"
    using k n' skip_over [OF s(2) refl] s(1) o' l by (simp add: reply_taken_def del: of_nat_add)
  finally show "server_blocks_loop n env m s offset len = Ok () (m'', skip (length (block_enc type body @ rest)) s)"
    by simp
qed

text \<open>The bodies of the blocks, each in a stream of its own.\<close>

lemma server_core_read:
  assumes s: "readable s" "remaining s = server_core_enc st"
  shows "\<exists>u. gcc_read_server_core_data m s = Ok () (with_settings (\<lambda>t. t\<lparr>RdpVersion := min (RdpVersion st) (RdpVersion t)\<rparr>) m, u)"
proof -
  have l: "12 = length (remaining s)" using s by (simp add: server_core_enc_def)
  have "u32_at s = RdpVersion st" using s l by (simp add: block_vals server_core_enc_def)
  with s(1) l show ?thesis
    by (simp add: gcc_read_server_core_data_def block_run Let_def rdp_version_common_def)
qed

lemma server_security_read:
  assumes s: "readable s" "remaining s = plain_security_enc"
  shows "\<exists>u. gcc_read_server_security_data env m s = Ok () (with_settings (\<lambda>t. t\<lparr>EncryptionLevel := 0, EncryptionMethods := 0, UseRdpSecurityLayer := False\<rparr>) m, u)"
proof -
  have l: "8 = length (remaining s)" using s by (simp add: plain_security_enc_def)
  have "u32_at s = 0" "u32_at (skip 4 s) = 0" using s l by (simp_all add: block_vals plain_security_enc_def)
  with s(1) l show ?thesis
    by (simp add: gcc_read_server_security_data_def block_run Let_def known_method_def validCryptoConfig_def)
qed

lemma server_message_read:
  assumes s: "readable s" "remaining s = le16 v"
  shows "\<exists>u. gcc_read_server_message_channel_data m s = Ok () (m\<lparr>mcs_messageChannelId := v\<rparr>, u)"
proof -
  have l: "2 = length (remaining s)" using s by simp
  have "u16_at s = v" using s l by (simp add: block_vals)
  with s(1) l show ?thesis by (simp add: gcc_read_server_message_channel_data_def block_run)
qed

primrec take_ids :: "nat \<Rightarrow> rdpMcsChannel list \<Rightarrow> rdpMcs \<Rightarrow> rdpMcs" where
  "take_ids i [] m = m"
| "take_ids i (c # cs) m = take_ids (Suc i) cs
     (set_channel i (\<lambda>d. d\<lparr>ch_ChannelId := uint (word_of_int (ch_ChannelId c) :: u16)\<rparr>) m)"

lemma channel_ids_read:
  assumes "i + length cs \<le> length (mcs_channels m)" "readable s"
    "remaining s = concat (map (\<lambda>c. le16 (word_of_int (ch_ChannelId c))) cs) @ rest"
  shows "read_channel_ids (length cs) i m s = Ok () (take_ids i cs m, skip (2 * length cs) s)"
  using assms
proof (induction cs arbitrary: i m s)
  case (Cons c cs)
  have len: "2 \<le> length (remaining s)" using Cons.prems(3) by simp
  have v: "u16_at s = word_of_int (ch_ChannelId c)"
    "remaining (skip 2 s) = concat (map (\<lambda>c. le16 (word_of_int (ch_ChannelId c))) cs) @ rest"
    using Cons.prems(2,3) by (simp_all add: block_vals)
  let ?m = "set_channel i (\<lambda>d. d\<lparr>ch_ChannelId := uint (word_of_int (ch_ChannelId c) :: u16)\<rparr>) m"
  have "read_channel_ids (length cs) (Suc i) ?m (skip 2 s) = Ok () (take_ids (Suc i) cs ?m, skip (2 * length cs) (skip 2 s))"
    using Cons.prems v(2) len by (intro Cons.IH) (simp_all add: set_channel_def)
  with Cons.prems len v(1) show ?case by (simp add: block_run)
qed simp

lemma take_ids_fields [simp]:
  "length (mcs_channels (take_ids i cs m)) = length (mcs_channels m)"
  "mcs_settings (take_ids i cs m) = mcs_settings m"
  "mcs_channelCount (take_ids i cs m) = mcs_channelCount m"
  "mcs_messageChannelId (take_ids i cs m) = mcs_messageChannelId m"
  "mcs_targetParameters (take_ids i cs m) = mcs_targetParameters m"
  "mcs_minimumParameters (take_ids i cs m) = mcs_minimumParameters m"
  "mcs_maximumParameters (take_ids i cs m) = mcs_maximumParameters m"
  "mcs_domainParameters (take_ids i cs m) = mcs_domainParameters m"
  by (induction cs arbitrary: i m) (simp_all add: set_channel_def)

lemma take_ids_nth:
  "i + length cs \<le> length (mcs_channels m) \<Longrightarrow> k < length (mcs_channels m) \<Longrightarrow>
   mcs_channels (take_ids i cs m) ! k =
     (if i \<le> k \<and> k < i + length cs
      then (mcs_channels m ! k)\<lparr>ch_ChannelId := uint (word_of_int (ch_ChannelId (cs ! (k - i))) :: u16)\<rparr>
      else mcs_channels m ! k)"
  by (induction cs arbitrary: i m) (auto simp: set_channel_def nth_list_update nth_Cons')

lemma server_network_read:
  assumes s: "session_ok s" and c: "session_ok c" "mcs_channelCount c = mcs_channelCount s"
    and t: "readable t" "remaining t = server_network_enc s"
  shows "\<exists>u. gcc_read_server_network_data c t = Ok () (take_ids 0 (used_channels s) c, u)"
proof -
  let ?n = "mcs_channelCount s"
  let ?ids = "concat (map (\<lambda>c. le16 (word_of_int (ch_ChannelId c))) (used_channels s))"
  let ?pad = "if ?n mod 2 = 1 then le16 0 else []"
  have n: "unat ?n \<le> 31" "length (used_channels s) = unat ?n" using s by (simp_all add: session_ok_def word_le_nat_alt)
  have len: "length (remaining t) = 4 + 2 * unat ?n + (if odd (unat ?n) then 2 else 0)"
    using length_server_network [OF s] t(2) by simp
  have u: "unat (ucast ?n :: u16) = unat ?n" using n by (simp add: unsigned_ucast_eq take_bit_nat_eq_self)
  then have w: "ucast (ucast ?n :: u16) = ?n" by (simp add: word_unat_eq_iff)
  have v: "u16_at (skip 2 t) = ucast ?n" "remaining (skip 4 t) = ?ids @ ?pad"
    using t len by (simp_all add: block_vals) (simp_all add: server_network_enc_def)
  have "read_channel_ids (length (used_channels s)) 0 c (skip 4 t) =
      Ok () (take_ids 0 (used_channels s) c, skip (2 * length (used_channels s)) (skip 4 t))"
    using c n t v(2) len by (intro channel_ids_read) (simp_all add: session_ok_def)
  moreover have "(ucast ?n :: u16) mod 2 = 1 \<longleftrightarrow> odd (unat ?n)"
    using u by (simp add: word_unat_eq_iff unat_mod odd_iff_mod_2_eq_one)
  ultimately show ?thesis
    using t len n v(1) c(2) w u
    by (auto simp: gcc_read_server_network_data_def block_run Let_def Stream_SafeSeek_readable)
qed

section \<open>The exchanges\<close>

text \<open>What a client makes of the data blocks of a server \<open>s\<close> that leaves the encryption to the transport.\<close>

definition client_after :: "rdpMcs \<Rightarrow> rdpMcs \<Rightarrow> rdpMcs" where
  "client_after s c =
     (let c = with_settings (\<lambda>t. t\<lparr>RdpVersion := min (RdpVersion (mcs_settings s)) (RdpVersion t)\<rparr>) c;
          c = take_ids 0 (used_channels s) c;
          c = with_settings (\<lambda>t. t\<lparr>EncryptionLevel := 0, EncryptionMethods := 0, UseRdpSecurityLayer := False\<rparr>) c
      in if mcs_messageChannelId s = 0 then c else c\<lparr>mcs_messageChannelId := mcs_messageChannelId s\<rparr>)"

lemma length_server_data:
  assumes "session_ok s" shows "length (server_data_enc s) \<le> 118"
proof -
  have "unat (mcs_channelCount s) \<le> 31" using assms by (simp add: session_ok_def word_le_nat_alt)
  then show ?thesis
    using length_server_network [OF assms]
    by (auto simp: server_data_enc_def server_core_enc_def plain_security_enc_def)
qed

lemma server_block_kinds:
  "read_server_block env SC_CORE m s = gcc_read_server_core_data m s"
  "read_server_block env SC_SECURITY m s = gcc_read_server_security_data env m s"
  "read_server_block env SC_NET m s = gcc_read_server_network_data m s"
  "read_server_block env SC_MCS_MSGCHANNEL m s = gcc_read_server_message_channel_data m s"
  by (simp_all add: read_server_block_def)

lemma server_data_read:
  assumes s: "session_ok s" and c: "session_ok c" "mcs_channelCount c = mcs_channelCount s"
    and t: "readable t" "remaining t = server_data_enc s"
  shows "gcc_read_server_data_blocks env c t (of_nat (length (server_data_enc s))) =
    Ok () (client_after s c, skip (length (server_data_enc s)) t)"
proof -
  define c1 where "c1 = with_settings (\<lambda>t. t\<lparr>RdpVersion := min (RdpVersion (mcs_settings s)) (RdpVersion t)\<rparr>) c"
  define c2 where "c2 = take_ids 0 (used_channels s) c1"
  define c3 where
    "c3 = with_settings (\<lambda>t. t\<lparr>EncryptionLevel := 0, EncryptionMethods := 0, UseRdpSecurityLayer := False\<rparr>) c2"
  let ?id = "mcs_messageChannelId s"
  have len: "length (server_network_enc s) < 2 ^ 63" "length (server_core_enc (mcs_settings s)) < 2 ^ 63"
    "length plain_security_enc < 2 ^ 63" "length (le16 ?id) < 2 ^ 63"
    using length_server_data [OF s] by (simp_all add: server_data_enc_def server_core_enc_def plain_security_enc_def)
  note sub = len [THEN received_readable] 
  obtain u1 where 1: "gcc_read_server_core_data c (received (server_core_enc (mcs_settings s))) = Ok () (c1, u1)"
    using server_core_read [OF sub(2) remaining_received] unfolding c1_def by blast
  have "session_ok c1" "mcs_channelCount c1 = mcs_channelCount s" using c by (simp_all add: c1_def with_settings_def session_ok_def)
  then obtain u2 where 2: "gcc_read_server_network_data c1 (received (server_network_enc s)) = Ok () (c2, u2)"
    using server_network_read [OF s _ _ sub(1) remaining_received] unfolding c2_def by blast
  obtain u3 where 3: "gcc_read_server_security_data env c2 (received plain_security_enc) = Ok () (c3, u3)"
    using server_security_read [OF sub(3) remaining_received] unfolding c3_def by blast
  obtain u4 where 4: "gcc_read_server_message_channel_data c3 (received (le16 ?id)) =
      Ok () (c3\<lparr>mcs_messageChannelId := ?id\<rparr>, u4)"
    using server_message_read [OF sub(4) remaining_received] by blast
  let ?msg = "if ?id = 0 then [] else block_enc SC_MCS_MSGCHANNEL (le16 ?id)"
  have after: "client_after s c = (if ?id = 0 then c3 else c3\<lparr>mcs_messageChannelId := ?id\<rparr>)"
    by (simp add: client_after_def Let_def c1_def [symmetric] c2_def [symmetric] c3_def [symmetric])
  have "reply_taken (Suc 1) env c3 ?msg (client_after s c)"
  proof (cases "?id = 0")
    case True
    with reply_taken_Nil [of env c3] show ?thesis by (simp add: after reply_taken_def)
  next
    case False
    with reply_taken_Cons [OF server_block_kinds(4) [THEN trans, OF 4] reply_taken_Nil, of env] show ?thesis
      by (simp add: after)
  qed
  note reply_taken_Cons [OF server_block_kinds(2) [THEN trans, OF 3] this]
  note reply_taken_Cons [OF server_block_kinds(3) [THEN trans, OF 2] this]
  note reply_taken_Cons [OF server_block_kinds(1) [THEN trans, OF 1] this]
  then have "reply_taken 5 env c (server_data_enc s) (client_after s c)"
    unfolding server_data_enc_def by (simp add: eval_nat_numeral)
  moreover have "unat (of_nat (length (server_data_enc s)) :: u16) = length (server_data_enc s)"
    using length_server_data [OF s] by (simp add: unsigned_of_nat take_bit_nat_eq_self)
  moreover have "5 \<le> length (server_data_enc s)" by (simp add: server_data_enc_def)
  ultimately show ?thesis using t
    unfolding gcc_read_server_data_blocks_def reply_taken_def by (simp del: server_blocks_loop.simps)
qed

text \<open>What a client knows about its server behind the reply: the ids of its channels, in order.\<close>

definition server_known :: "rdpMcs \<Rightarrow> rdpMcs \<Rightarrow> rdpMcs \<Rightarrow> bool" where
  "server_known s c c' \<longleftrightarrow>
     RdpVersion (mcs_settings c') = min (RdpVersion (mcs_settings s)) (RdpVersion (mcs_settings c)) \<and>
     EncryptionLevel (mcs_settings c') = 0 \<and> EncryptionMethods (mcs_settings c') = 0 \<and>
     \<not> UseRdpSecurityLayer (mcs_settings c') \<and>
     (\<forall>i < unat (mcs_channelCount s). mcs_channels c' ! i =
        (mcs_channels c ! i)\<lparr>ch_ChannelId := ch_ChannelId (mcs_channels s ! i) mod 2 ^ 16\<rparr>) \<and>
     mcs_messageChannelId c' = (if mcs_messageChannelId s = 0 then mcs_messageChannelId c else mcs_messageChannelId s)"

lemma client_after_known:
  assumes "session_ok s" "session_ok c"
  shows "server_known s c (client_after s c)"
    "mcs_targetParameters (client_after s c) = mcs_targetParameters c"
    "mcs_minimumParameters (client_after s c) = mcs_minimumParameters c"
    "mcs_maximumParameters (client_after s c) = mcs_maximumParameters c"
    "mcs_domainParameters (client_after s c) = mcs_domainParameters c"
proof -
  have n: "unat (mcs_channelCount s) \<le> 31" "length (mcs_channels s) = 31" "length (mcs_channels c) = 31"
    using assms by (simp_all add: session_ok_def word_le_nat_alt)
  show "server_known s c (client_after s c)"
    using n by (simp add: server_known_def client_after_def Let_def with_settings_def take_ids_nth uint_word_of_int)
  show "mcs_targetParameters (client_after s c) = mcs_targetParameters c"
    "mcs_minimumParameters (client_after s c) = mcs_minimumParameters c"
    "mcs_maximumParameters (client_after s c) = mcs_maximumParameters c"
    "mcs_domainParameters (client_after s c) = mcs_domainParameters c"
    by (simp_all add: client_after_def Let_def with_settings_def)
qed


text \<open>
  C25. The Connect-Response exchange with the data blocks: a server that leaves the encryption to TLS or NLA
  switches the encryption of the RDP layer off and sends a PDU that its client accepts. The client then
  uses the lower of both protocol versions, no RDP encryption, the server's id for each of its channels,
  the message channel, and the domain parameters of the server.
\<close>

theorem connect_response_exchange:
  assumes ora: "\<And>i. granted (ora i)" and tw: "\<And>bs. 0 \<le> tw bs" and grow: "g_grow env = Some f"
    and s: "session_ok server" "server_encryption_level (mcs_settings server) = LEVEL_NONE"
    and c: "session_ok client" "mcs_channelCount client = mcs_channelCount server"
  shows "\<exists>pdu client' t.
    mcs_send_connect_response ora (gcc_write_server_data_blocks env) tw server [] = Ok () (unencrypted server, [pdu]) \<and>
    mcs_recv_connect_response (gcc_read_server_data_blocks env) client (received pdu) = Ok () (client', t) \<and>
    server_known server client client' \<and> mcs_domainParameters client' = mcs_domainParameters server"
proof -
  let ?blk = "server_data_enc server" and ?server = "unencrypted server"
  let ?I = "\<lambda>m. session_ok m \<and> mcs_channelCount m = mcs_channelCount server"
  let ?client = "client\<lparr>mcs_domainParameters := mcs_domainParameters ?server\<rparr>"
  have len: "length ?blk \<le> 0x7000" using length_server_data [OF s(1)] by simp
  have "mcs_send_connect_response ora (gcc_write_server_data_blocks env) tw server [] =
      Ok () (?server, [] @ [connect_response_pdu ?server ?blk])"
    by (rule mcs_send_connect_response_pdu [OF ora tw server_data_written [OF grow s] len])
  moreover have acc: "blocks_accepted (gcc_read_server_data_blocks env) ?blk ?I (client_after server)"
    unfolding blocks_accepted_def using server_data_read [OF s(1)] client_after_known [OF s(1)] by blast
  have "accepts (mcs_recv_connect_response (gcc_read_server_data_blocks env) client
      (received (connect_response_pdu ?server ?blk))) (\<lambda>_ m'. m' = client_after server ?client)"
    using c by (intro connect_response_received [OF acc len]) (simp add: session_ok_def)
  moreover have "session_ok ?client" using c(1) by (simp add: session_ok_def)
  note client_after_known [OF s(1) this]
  moreover have "mcs_domainParameters ?server = mcs_domainParameters server"
    by (simp add: unencrypted_def with_settings_def)
  ultimately show ?thesis by (auto simp: accepts_def server_known_def)
qed

section \<open>Sample sessions\<close>

lemma fold_update:
  "n \<le> length xs \<Longrightarrow> length (fold (\<lambda>i ys. ys[i := f i (ys ! i)]) [0..<n] xs) = length xs \<and>
   (\<forall>k < length xs. fold (\<lambda>i ys. ys[i := f i (ys ! i)]) [0..<n] xs ! k = (if k < n then f k (xs ! k) else xs ! k))"
  by (induction n) (simp_all add: nth_list_update)

text \<open>A client with proper channel names is ready after \<open>mcs_initialize_client_channels\<close>.\<close>

lemma initialized_ready:
  assumes m: "session_ok m" "mcs_channelMaxCount m = 31" and n: "unat (ChannelCount st) = n" "n \<le> 31"
    and d: "n \<le> length (ChannelDefArray st)"
      "\<forall>d \<in> set (ChannelDefArray st). 8 \<le> length (cd_name d) \<and> 0 \<in> set (take 8 (cd_name d))"
  obtains m' where "mcs_initialize_client_channels m st = Ok () m'" "channels_ready m'"
    "mcs_channelCount m' = ChannelCount st" "mcs_settings m' = mcs_settings m"
    "mcs_targetParameters m' = mcs_targetParameters m" "mcs_minimumParameters m' = mcs_minimumParameters m"
    "mcs_maximumParameters m' = mcs_maximumParameters m"
proof -
  let ?f = "\<lambda>i c. c\<lparr>ch_Name := take 8 (cd_name (ChannelDefArray st ! i)), ch_options := cd_options (ChannelDefArray st ! i)\<rparr>"
  let ?zero = "replicate 31 zero_channel"
  let ?chs = "fold (\<lambda>i chs. chs[i := ?f i (chs ! i)]) [0..<n] ?zero"
  let ?m = "m\<lparr>mcs_channelCount := ChannelCount st, mcs_channels := ?chs\<rparr>"
  have small: "\<not> 31 < ChannelCount st" "ChannelCount st \<le> 31" using n by (simp_all add: word_less_nat_alt word_le_nat_alt)
  have b: "blit (mcs_channels m) 0 ?zero = ?zero" using m by (simp add: session_ok_def blit_def)
  have init: "mcs_initialize_client_channels m st = Ok () ?m"
    using m n d(1) small by (simp add: mcs_initialize_client_channels_def b session_ok_def)
  have chs: "length ?chs = 31" "\<forall>k < 31. ?chs ! k = (if k < n then ?f k zero_channel else zero_channel)"
    using fold_update [of n ?zero ?f] n by simp_all
  have names: "8 \<le> length (cd_name (ChannelDefArray st ! k))" "0 \<in> set (take 8 (cd_name (ChannelDefArray st ! k)))"
    if "k < n" for k using that d by simp_all
  have "length (ch_Name (?chs ! k)) = 8" "k < n \<Longrightarrow> 0 \<in> set (ch_Name (?chs ! k))" if "k < 31" for k
    using chs(2) that names [of k] by (simp_all add: zero_channel_def)
  then have "\<forall>c \<in> set ?chs. length (ch_Name c) = 8" "\<forall>c \<in> set (take n ?chs). sendable c"
    using chs(1) n(2) by (simp_all add: all_set_conv_all_nth sendable_def)
  then have "channels_ready ?m"
    using m(1) small(2) chs(1) n(1) by (simp add: channels_ready_def session_ok_def named_channels_def)
  with init show thesis by (intro that [of ?m]) simp_all
qed

text \<open>Conversions for strings of ASCII characters.\<close>

definition ascii_env :: gcc_env where
  "ascii_env = \<lparr>g_ConvertToUnicode = (\<lambda>str. case str of None \<Rightarrow> (0, [])
                     | Some cs \<Rightarrow> (length cs, concat (map (\<lambda>c. [c, 0]) cs))),
     g_ConvertFromUnicode = (\<lambda>bs. (int (length bs div 2), map (\<lambda>i. bs ! (2 * i)) [0..<length bs div 2])),
     g_certificate_new = False, g_certificate_read = (\<lambda>_. False), g_grow = Some (\<lambda>_. 0), g_alloc_random = None,
     g_alloc_certificate = None, g_RAND = [], g_Digest = (\<lambda>_. None), g_rsa_private_encrypt = (\<lambda>b. b)\<rparr>"

lemma ascii_converts: "converts ascii_env"
  by (simp add: converts_def ascii_env_def length_concat comp_def sum_list_triv split: option.split)

lemma ascii_names: "names_readable ascii_env st"
  using ascii_converts by (simp add: names_readable_def) (simp add: ascii_env_def ascii_converts [unfolded ascii_env_def])

text \<open>The first \<open>n\<close> of the channels \<open>rdpdr\<close>.\<close>

definition sample_settings :: "nat \<Rightarrow> rdpSettings" where
  "sample_settings n = zero_settings\<lparr>ChannelCount := of_nat n, NegotiationFlags := 1, ClientHostname := Some [112, 99],
     ChannelDefArray := replicate n \<lparr>cd_name = [114, 100, 112, 100, 114, 0, 0, 0], cd_options = 0x80800000\<rparr>\<rparr>"

definition sample_client :: "nat \<Rightarrow> rdpMcs" where
  "sample_client n = sample_mcs\<lparr>mcs_settings := sample_settings n\<rparr>"

lemma sample_client_ready:
  assumes "n \<le> 31"
  obtains m where "mcs_initialize_client_channels (sample_client n) (mcs_settings (sample_client n)) = Ok () m"
    "channels_ready m" "mcs_channelCount m = of_nat n" "mcs_settings m = sample_settings n"
    "mcs_targetParameters m = mcs_targetParameters sample_mcs" "mcs_minimumParameters m = mcs_minimumParameters sample_mcs"
    "mcs_maximumParameters m = mcs_maximumParameters sample_mcs"
proof -
  have "session_ok (sample_client n)" "mcs_channelMaxCount (sample_client n) = 31"
    by (simp_all add: sample_client_def sample_mcs_def mcs_new_def session_ok_def sample_settings_def zero_settings_def mcs_consts)
  moreover have "unat (ChannelCount (mcs_settings (sample_client n))) = n"
    using assms by (simp add: sample_client_def sample_settings_def unsigned_of_nat take_bit_nat_eq_self)
  ultimately show thesis
    using assms by (rule initialized_ready) (auto intro: that simp: sample_client_def sample_settings_def)
qed


theorem gcc_client_data_bound_witness:
  "mcs_send_connect_initial (\<lambda>_. (Some (\<lambda>_. ()), Some (\<lambda>_. 0))) (gcc_write_client_data_blocks ascii_env) (\<lambda>_. 1)
     (sample_client 21) [] = Fault \<and>
   (\<exists>m. mcs_initialize_client_channels (sample_client 2) (mcs_settings (sample_client 2)) = Ok () m \<and>
      gcc_write_client_data_blocks ascii_env m (fresh (\<lambda>_. 0) 512) =
        Ok () (put (client_data_enc ascii_env m) (fresh (\<lambda>_. 0) 512)))"
proof
  obtain m where m: "mcs_initialize_client_channels (sample_client 21) (mcs_settings (sample_client 21)) = Ok () m"
    "channels_ready m" "mcs_channelCount m = of_nat 21" by (rule sample_client_ready [of 21]) simp
  then show "mcs_send_connect_initial (\<lambda>_. (Some (\<lambda>_. ()), Some (\<lambda>_. 0))) (gcc_write_client_data_blocks ascii_env) (\<lambda>_. 1)
     (sample_client 21) [] = Fault"
    using gcc_client_data_bound [OF ascii_converts, of m "\<lambda>_. 0" "\<lambda>_. (Some (\<lambda>_. ()), Some (\<lambda>_. 0))" "sample_client 21"]
    by (simp add: channels_ready_def)
  obtain m where "mcs_initialize_client_channels (sample_client 2) (mcs_settings (sample_client 2)) = Ok () m"
    "channels_ready m" "mcs_channelCount m = of_nat 2" "mcs_settings m = sample_settings 2"
    by (rule sample_client_ready [of 2]) simp
  then show "\<exists>m. mcs_initialize_client_channels (sample_client 2) (mcs_settings (sample_client 2)) = Ok () m \<and>
      gcc_write_client_data_blocks ascii_env m (fresh (\<lambda>_. 0) 512) =
        Ok () (put (client_data_enc ascii_env m) (fresh (\<lambda>_. 0) 512))"
    using gcc_client_data_bound [OF ascii_converts, of m "\<lambda>_. 0"]
    by (intro exI [of _ m]) (simp add: channels_ready_def sample_settings_def zero_settings_def)
qed


theorem connect_response_exchange_witness:
  "\<exists>pdu client t.
     mcs_send_connect_response (\<lambda>_. (Some (\<lambda>_. ()), Some (\<lambda>_. 0))) (gcc_write_server_data_blocks ascii_env) (\<lambda>_. 1)
       (sample_mcs\<lparr>mcs_messageChannelId := 1009\<rparr>) [] = Ok () (unencrypted (sample_mcs\<lparr>mcs_messageChannelId := 1009\<rparr>), [pdu]) \<and>
     mcs_recv_connect_response (gcc_read_server_data_blocks ascii_env) sample_mcs (received pdu) = Ok () (client, t) \<and>
     mcs_messageChannelId client = 1009"
proof -
  let ?server = "sample_mcs\<lparr>mcs_messageChannelId := 1009\<rparr>"
  have ok: "session_ok sample_mcs" "session_ok ?server"
    by (simp_all add: sample_mcs_def mcs_new_def session_ok_def zero_settings_def mcs_consts)
  have lvl: "server_encryption_level (mcs_settings ?server) = LEVEL_NONE"
    by (simp add: sample_mcs_def mcs_new_def server_encryption_level_def zero_settings_def)
  have "g_grow ascii_env = Some (\<lambda>_. 0)" by (simp add: ascii_env_def)
  from connect_response_exchange [where ora = "\<lambda>_. (Some (\<lambda>_. ()), Some (\<lambda>_. 0))" and tw = "\<lambda>_. 1",
      OF _ _ this ok(2) lvl ok(1)]
  show ?thesis by (auto simp: server_known_def)
qed

end
