(* ===== verification/Crt_Utf.thy ===== *)
theory Crt_Utf
  imports Rdp_Prelude
begin

text \<open>
  The Unicode converters of \<^verbatim>\<open>winpr/libwinpr/crt/utf.c\<close>. The source is the list of code units between
  \<open>*sourceStart\<close> and \<open>sourceEnd\<close>. The target is the block at \<open>*targetStart\<close> with the distance to the end that
  the caller announces, or \<open>None\<close> when \<open>targetEnd\<close> is null and only the length is computed. A converter
  returns its result and how far the two pointers have moved, in code units; a store outside the
  block is a \<open>Fault\<close>. The converters are compared with the encoding forms of the Unicode standard, which are
  stated by division of code points.
\<close>

datatype ConversionResult = conversionOK | sourceExhausted | targetExhausted | sourceIllegal

datatype ConversionFlags = strictConversion | lenientConversion

section \<open>Constants and tables\<close>

abbreviation (input) halfShift :: nat where "halfShift \<equiv> 10"
abbreviation (input) halfBase :: u32 where "halfBase \<equiv> 0x10000"
abbreviation (input) halfMask :: u32 where "halfMask \<equiv> 0x3FF"
abbreviation (input) UNI_SUR_HIGH_START :: u32 where "UNI_SUR_HIGH_START \<equiv> 0xD800"
abbreviation (input) UNI_SUR_HIGH_END :: u32 where "UNI_SUR_HIGH_END \<equiv> 0xDBFF"
abbreviation (input) UNI_SUR_LOW_START :: u32 where "UNI_SUR_LOW_START \<equiv> 0xDC00"
abbreviation (input) UNI_SUR_LOW_END :: u32 where "UNI_SUR_LOW_END \<equiv> 0xDFFF"
abbreviation (input) UNI_REPLACEMENT_CHAR :: u32 where "UNI_REPLACEMENT_CHAR \<equiv> 0xFFFD"
abbreviation (input) UNI_MAX_BMP :: u32 where "UNI_MAX_BMP \<equiv> 0xFFFF"
abbreviation (input) UNI_MAX_UTF16 :: u32 where "UNI_MAX_UTF16 \<equiv> 0x10FFFF"
abbreviation (input) UNI_MAX_LEGAL_UTF32 :: u32 where "UNI_MAX_LEGAL_UTF32 \<equiv> 0x10FFFF"

definition trailingBytesForUTF8 :: "nat list" where
  "trailingBytesForUTF8 = replicate 192 0 @ replicate 32 1 @ replicate 16 2 @ replicate 8 3 @ replicate 4 4 @ replicate 4 5"

definition offsetsFromUTF8 :: "u32 list" where
  "offsetsFromUTF8 = [0x00000000, 0x00003080, 0x000E2080, 0x03C82080, 0xFA082080, 0x82082080]"

definition firstByteMark :: "u8 list" where
  "firstByteMark = [0x00, 0x00, 0xC0, 0xE0, 0xF0, 0xF8, 0xFC]"

section \<open>Storing\<close>

definition store :: "'a list option \<Rightarrow> nat \<Rightarrow> 'a list \<Rightarrow> (unit, 'a list option) res" where
  "store target pos units =
     (case target of None \<Rightarrow> Ok () None
      | Some buf \<Rightarrow> if pos + length units \<le> length buf then Ok () (Some (blit buf pos units)) else Fault)"

section \<open>One character of each encoding form\<close>

text \<open>The code point at the front of a source, with the number of its code units, or why there is none.\<close>

definition surrogate :: "u32 \<Rightarrow> bool" where
  "surrogate ch \<longleftrightarrow> ch \<ge> UNI_SUR_HIGH_START \<and> ch \<le> UNI_SUR_LOW_END"

definition utf16_next :: "ConversionFlags \<Rightarrow> u16 list \<Rightarrow> ConversionResult + u32 \<times> nat" where
  "utf16_next flags source =
     (let ch = ucast (hd source) in
      if ch \<ge> UNI_SUR_HIGH_START \<and> ch \<le> UNI_SUR_HIGH_END then
        (if tl source = [] then Inl sourceExhausted
         else let ch2 = ucast (hd (tl source)) in
           if ch2 \<ge> UNI_SUR_LOW_START \<and> ch2 \<le> UNI_SUR_LOW_END
           then Inr (push_bit halfShift (ch - UNI_SUR_HIGH_START) + (ch2 - UNI_SUR_LOW_START) + halfBase, 2)
           else if flags = strictConversion then Inl sourceIllegal
           else Inr (ch, 1))
      else if flags = strictConversion \<and> ch \<ge> UNI_SUR_LOW_START \<and> ch \<le> UNI_SUR_LOW_END then Inl sourceIllegal
      else Inr (ch, 1))"

definition isLegalUTF8 :: "u8 list \<Rightarrow> nat \<Rightarrow> bool" where
  "isLegalUTF8 source len =
     (let a = (source ! 0) in
      if len \<notin> {1, 2, 3, 4} then False
      else if len \<ge> 4 \<and> (source ! 3 < 0x80 \<or> source ! 3 > 0xBF) then False
      else if len \<ge> 3 \<and> (source ! 2 < 0x80 \<or> source ! 2 > 0xBF) then False
      else if len \<ge> 2 \<and> source ! 1 > 0xBF then False
      else if len \<ge> 2 \<and>
        (if a = 0xE0 then source ! 1 < 0xA0
         else if a = 0xED then source ! 1 > 0x9F
         else if a = 0xF0 then source ! 1 < 0x90
         else if a = 0xF4 then source ! 1 > 0x8F
         else source ! 1 < 0x80) then False
      else if a \<ge> 0x80 \<and> a < 0xC2 then False
      else if a > 0xF4 then False
      else True)"

text \<open>The first byte is read before the bound is looked at.\<close>

definition isLegalUTF8Sequence :: "u8 list \<Rightarrow> bool option" where
  "isLegalUTF8Sequence source =
     (if source = [] then None
      else let len = trailingBytesForUTF8 ! unat (hd source) + 1 in
        if len > length source then Some False else Some (isLegalUTF8 source len))"

definition utf8_next :: "u8 list \<Rightarrow> ConversionResult + u32 \<times> nat" where
  "utf8_next source =
     (let extraBytesToRead = trailingBytesForUTF8 ! unat (hd source) in
      if extraBytesToRead \<ge> length source then Inl sourceExhausted
      else if \<not> isLegalUTF8 source (extraBytesToRead + 1) then Inl sourceIllegal
      else Inr (foldl (\<lambda>ch b. push_bit 6 ch + ucast b) 0 (take (extraBytesToRead + 1) source)
                  - offsetsFromUTF8 ! extraBytesToRead, extraBytesToRead + 1))"

text \<open>The number of bytes of a code point, which is replaced when it is too large, and the bytes.\<close>

definition utf8_size :: "u32 \<Rightarrow> nat \<times> u32" where
  "utf8_size ch =
     (if ch < 0x80 then (1, ch) else if ch < 0x800 then (2, ch) else if ch < 0x10000 then (3, ch)
      else if ch < 0x110000 then (4, ch) else (3, UNI_REPLACEMENT_CHAR))"

definition utf8_bytes :: "u32 \<Rightarrow> nat \<Rightarrow> u8 list" where
  "utf8_bytes ch bytesToWrite =
     (ucast (drop_bit (6 * (bytesToWrite - 1)) ch) OR firstByteMark ! bytesToWrite) #
     map (\<lambda>j. ucast ((drop_bit (6 * j) ch OR 0x80) AND 0xBF)) (rev [0..<bytesToWrite - 1])"

definition utf16_pair :: "u32 \<Rightarrow> u16 list" where
  "utf16_pair ch =
     [ucast (drop_bit halfShift (ch - halfBase) + UNI_SUR_HIGH_START), ucast (((ch - halfBase) AND halfMask) + UNI_SUR_LOW_START)]"

lemma utf8_next_length: "utf8_next source = Inr (ch, n) \<Longrightarrow> 0 < n \<and> n \<le> length source"
  by (auto simp: utf8_next_def Let_def split: if_split_asm)

lemma utf16_next_length: "utf16_next flags source = Inr (ch, n) \<Longrightarrow> source \<noteq> [] \<Longrightarrow> 0 < n \<and> n \<le> length source"
  by (cases source; cases "tl source") (auto simp: utf16_next_def Let_def split: if_split_asm)

section \<open>The converters\<close>

type_synonym conversion = "ConversionResult \<times> nat \<times> nat"

function utf16_to_utf8 ::
  "ConversionFlags \<Rightarrow> nat \<Rightarrow> u16 list \<Rightarrow> nat \<Rightarrow> nat \<Rightarrow> u8 list option \<Rightarrow> (conversion, u8 list option) res" where
  "utf16_to_utf8 flags end source i pos target =
     (if source = [] then Ok (conversionOK, i, pos) target
      else case utf16_next flags source of
        Inl result \<Rightarrow> Ok (result, i, pos) target
      | Inr (ch, n) \<Rightarrow>
          let (bytesToWrite, ch) = utf8_size ch in
          if pos + bytesToWrite > end \<and> target \<noteq> None then Ok (targetExhausted, i, pos) target
          else and_then (store target pos (utf8_bytes ch bytesToWrite)) (\<lambda>_ target.
               utf16_to_utf8 flags end (drop n source) (i + n) (pos + bytesToWrite) target))"
  by pat_completeness auto
termination
  by (relation "measure (\<lambda>(_, _, source, _). length source)") (auto dest: utf16_next_length)

text \<open>\<open>extent\<close> is the distance from \<open>*targetStart\<close> to \<open>te\<close>.\<close>

definition ConvertUTF16toUTF8 ::
  "u16 list \<Rightarrow> (u8 list \<times> int) option \<Rightarrow> ConversionFlags \<Rightarrow> (conversion, u8 list option) res" where
  "ConvertUTF16toUTF8 source target flags =
     (case target of None \<Rightarrow> utf16_to_utf8 flags 0 source 0 0 None
      | Some (buf, extent) \<Rightarrow>
          if extent < 0 then Ok (sourceIllegal, 0, 0) (Some buf)
          else utf16_to_utf8 flags (nat extent) source 0 0 (Some buf))"

function utf8_to_utf16 ::
  "ConversionFlags \<Rightarrow> nat \<Rightarrow> u8 list \<Rightarrow> nat \<Rightarrow> nat \<Rightarrow> u16 list option \<Rightarrow> (conversion, u16 list option) res" where
  "utf8_to_utf16 flags end source i pos target =
     (if source = [] then Ok (conversionOK, i, pos) target
      else case utf8_next source of
        Inl result \<Rightarrow> Ok (result, i, pos) target
      | Inr (ch, n) \<Rightarrow>
          if pos * 2 \<ge> end \<and> target \<noteq> None then Ok (targetExhausted, i, pos) target
          else if ch \<le> UNI_MAX_BMP then
            (if surrogate ch \<and> flags = strictConversion then Ok (sourceIllegal, i, pos) target
             else and_then (store target pos [ucast (if surrogate ch then UNI_REPLACEMENT_CHAR else ch)]) (\<lambda>_ target.
                  utf8_to_utf16 flags end (drop n source) (i + n) (pos + 1) target))
          else if ch > UNI_MAX_UTF16 then
            (if flags = strictConversion then Ok (sourceIllegal, i, pos) target
             else and_then (store target pos [ucast UNI_REPLACEMENT_CHAR]) (\<lambda>_ target.
                  utf8_to_utf16 flags end (drop n source) (i + n) (pos + 1) target))
          else if (pos + 1) * 2 \<ge> end \<and> target \<noteq> None then Ok (targetExhausted, i, pos) target
          else and_then (store target pos (utf16_pair ch)) (\<lambda>_ target.
               utf8_to_utf16 flags end (drop n source) (i + n) (pos + 2) target))"
  by pat_completeness auto
termination
  by (relation "measure (\<lambda>(_, _, source, _). length source)") (auto dest: utf8_next_length)

text \<open>Here \<open>extent\<close> counts bytes, two for each unit of the target.\<close>

definition ConvertUTF8toUTF16 ::
  "u8 list \<Rightarrow> (u16 list \<times> int) option \<Rightarrow> ConversionFlags \<Rightarrow> (conversion, u16 list option) res" where
  "ConvertUTF8toUTF16 source target flags =
     (case target of None \<Rightarrow> utf8_to_utf16 flags 0 source 0 0 None
      | Some (buf, extent) \<Rightarrow>
          if extent < 0 then Ok (sourceIllegal, 0, 0) (Some buf)
          else utf8_to_utf16 flags (nat extent) source 0 0 (Some buf))"

text \<open>
  The converters from and to UTF-32 always have a target. Two of them note an illegal source and go on,
  so that the result is part of the state.
\<close>

primrec utf32_to_utf16 ::
  "ConversionFlags \<Rightarrow> nat \<Rightarrow> u32 list \<Rightarrow> ConversionResult \<Rightarrow> nat \<Rightarrow> nat \<Rightarrow> u16 list option \<Rightarrow> (conversion, u16 list option) res" where
  "utf32_to_utf16 flags end [] result i pos target = Ok (result, i, pos) target"
| "utf32_to_utf16 flags end (ch # source) result i pos target =
     (if pos \<ge> end then Ok (targetExhausted, i, pos) target
      else if ch \<le> UNI_MAX_BMP then
        (if surrogate ch \<and> flags = strictConversion then Ok (sourceIllegal, i, pos) target
         else and_then (store target pos [ucast (if surrogate ch then UNI_REPLACEMENT_CHAR else ch)]) (\<lambda>_ target.
              utf32_to_utf16 flags end source result (i + 1) (pos + 1) target))
      else if ch > UNI_MAX_LEGAL_UTF32 then
        (if flags = strictConversion then utf32_to_utf16 flags end source sourceIllegal (i + 1) pos target
         else and_then (store target pos [ucast UNI_REPLACEMENT_CHAR]) (\<lambda>_ target.
              utf32_to_utf16 flags end source result (i + 1) (pos + 1) target))
      else if pos + 1 \<ge> end then Ok (targetExhausted, i, pos) target
      else and_then (store target pos (utf16_pair ch)) (\<lambda>_ target.
           utf32_to_utf16 flags end source result (i + 1) (pos + 2) target))"

definition ConvertUTF32toUTF16 :: "u32 list \<Rightarrow> u16 list \<Rightarrow> nat \<Rightarrow> ConversionFlags \<Rightarrow> (conversion, u16 list option) res" where
  "ConvertUTF32toUTF16 source buf extent flags = utf32_to_utf16 flags extent source conversionOK 0 0 (Some buf)"

function utf16_to_utf32 ::
  "ConversionFlags \<Rightarrow> nat \<Rightarrow> u16 list \<Rightarrow> nat \<Rightarrow> nat \<Rightarrow> u32 list option \<Rightarrow> (conversion, u32 list option) res" where
  "utf16_to_utf32 flags end source i pos target =
     (if source = [] then Ok (conversionOK, i, pos) target
      else case utf16_next flags source of
        Inl result \<Rightarrow> Ok (result, i, pos) target
      | Inr (ch, n) \<Rightarrow>
          if pos \<ge> end then Ok (targetExhausted, i, pos) target
          else and_then (store target pos [ch]) (\<lambda>_ target.
               utf16_to_utf32 flags end (drop n source) (i + n) (pos + 1) target))"
  by pat_completeness auto
termination
  by (relation "measure (\<lambda>(_, _, source, _). length source)") (auto dest: utf16_next_length)

definition ConvertUTF16toUTF32 :: "u16 list \<Rightarrow> u32 list \<Rightarrow> nat \<Rightarrow> ConversionFlags \<Rightarrow> (conversion, u32 list option) res" where
  "ConvertUTF16toUTF32 source buf extent flags = utf16_to_utf32 flags extent source 0 0 (Some buf)"

primrec utf32_to_utf8 ::
  "ConversionFlags \<Rightarrow> nat \<Rightarrow> u32 list \<Rightarrow> ConversionResult \<Rightarrow> nat \<Rightarrow> nat \<Rightarrow> u8 list option \<Rightarrow> (conversion, u8 list option) res" where
  "utf32_to_utf8 flags end [] result i pos target = Ok (result, i, pos) target"
| "utf32_to_utf8 flags end (ch # source) result i pos target =
     (if flags = strictConversion \<and> surrogate ch then Ok (sourceIllegal, i, pos) target
      else let result = (if ch \<le> UNI_MAX_LEGAL_UTF32 then result else sourceIllegal);
               (bytesToWrite, ch) = utf8_size ch in
        if pos + bytesToWrite > end then Ok (targetExhausted, i, pos) target
        else and_then (store target pos (utf8_bytes ch bytesToWrite)) (\<lambda>_ target.
             utf32_to_utf8 flags end source result (i + 1) (pos + bytesToWrite) target))"

definition ConvertUTF32toUTF8 :: "u32 list \<Rightarrow> u8 list \<Rightarrow> nat \<Rightarrow> ConversionFlags \<Rightarrow> (conversion, u8 list option) res" where
  "ConvertUTF32toUTF8 source buf extent flags = utf32_to_utf8 flags extent source conversionOK 0 0 (Some buf)"

function utf8_to_utf32 ::
  "ConversionFlags \<Rightarrow> nat \<Rightarrow> u8 list \<Rightarrow> ConversionResult \<Rightarrow> nat \<Rightarrow> nat \<Rightarrow> u32 list option \<Rightarrow> (conversion, u32 list option) res" where
  "utf8_to_utf32 flags end source result i pos target =
     (if source = [] then Ok (result, i, pos) target
      else case utf8_next source of
        Inl result \<Rightarrow> Ok (result, i, pos) target
      | Inr (ch, n) \<Rightarrow>
          if pos \<ge> end then Ok (targetExhausted, i, pos) target
          else if ch \<le> UNI_MAX_LEGAL_UTF32 then
            (if surrogate ch \<and> flags = strictConversion then Ok (sourceIllegal, i, pos) target
             else and_then (store target pos [if surrogate ch then UNI_REPLACEMENT_CHAR else ch]) (\<lambda>_ target.
                  utf8_to_utf32 flags end (drop n source) result (i + n) (pos + 1) target))
          else and_then (store target pos [UNI_REPLACEMENT_CHAR]) (\<lambda>_ target.
               utf8_to_utf32 flags end (drop n source) sourceIllegal (i + n) (pos + 1) target))"
  by pat_completeness auto
termination
  by (relation "measure (\<lambda>(_, _, source, _). length source)") (auto dest: utf8_next_length)

definition ConvertUTF8toUTF32 :: "u8 list \<Rightarrow> u32 list \<Rightarrow> nat \<Rightarrow> ConversionFlags \<Rightarrow> (conversion, u32 list option) res" where
  "ConvertUTF8toUTF32 source buf extent flags = utf8_to_utf32 flags extent source conversionOK 0 0 (Some buf)"

declare utf16_to_utf8.simps [simp del] utf8_to_utf16.simps [simp del] utf16_to_utf32.simps [simp del] utf8_to_utf32.simps [simp del]

section \<open>The encoding forms\<close>

text \<open>Unicode scalar values, and their encodings in bytes and in 16-bit code units.\<close>

definition scalar :: "nat \<Rightarrow> bool" where
  "scalar c \<longleftrightarrow> c < 0x110000 \<and> \<not> (0xD800 \<le> c \<and> c < 0xE000)"

definition utf8_enc :: "nat \<Rightarrow> u8 list" where
  "utf8_enc c =
     (if c < 0x80 then [of_nat c]
      else if c < 0x800 then [of_nat (0xC0 + c div 64), of_nat (0x80 + c mod 64)]
      else if c < 0x10000 then [of_nat (0xE0 + c div 4096), of_nat (0x80 + c div 64 mod 64), of_nat (0x80 + c mod 64)]
      else [of_nat (0xF0 + c div 262144), of_nat (0x80 + c div 4096 mod 64), of_nat (0x80 + c div 64 mod 64),
            of_nat (0x80 + c mod 64)])"

definition utf16_enc :: "nat \<Rightarrow> u16 list" where
  "utf16_enc c =
     (if c < 0x10000 then [of_nat c]
      else [of_nat (0xD800 + (c - 0x10000) div 1024), of_nat (0xDC00 + (c - 0x10000) mod 1024)])"

lemma trailing_nth:
  "k < 256 \<Longrightarrow> trailingBytesForUTF8 ! k =
     (if k < 192 then 0 else if k < 224 then 1 else if k < 240 then 2 else if k < 248 then 3 else if k < 252 then 4 else 5)"
  by (auto simp: trailingBytesForUTF8_def nth_append)

lemma octet_bound: "unat (b :: u8) < 256"
  using unsigned_less [of b, where 'a = nat] by simp

lemma utf8_value:
  fixes b0 b1 b2 b3 :: u8
  defines "f \<equiv> \<lambda>(ch :: u32) (b :: u8). push_bit 6 ch + ucast b"
  shows "foldl f 0 [b0] = of_nat (unat b0)"
    "foldl f 0 [b0, b1] = of_nat (unat b0 * 64 + unat b1)"
    "foldl f 0 [b0, b1, b2] = of_nat ((unat b0 * 64 + unat b1) * 64 + unat b2)"
    "foldl f 0 [b0, b1, b2, b3] = of_nat (((unat b0 * 64 + unat b1) * 64 + unat b2) * 64 + unat b3)"
  unfolding f_def by (simp_all add: push_bit_eq_mult algebra_simps)

lemma utf8_nextI:
  assumes "trailingBytesForUTF8 ! unat (hd source) = k" "k < length source" "isLegalUTF8 source (k + 1)"
    "foldl (\<lambda>ch b. push_bit 6 ch + ucast b) 0 (take (k + 1) source) = (of_nat v :: u32)"
    "offsetsFromUTF8 ! k = of_nat d" "d \<le> v"
  shows "utf8_next source = Inr (of_nat (v - d), k + 1)"
  using assms by (simp add: utf8_next_def)

lemmas word_nat_order = word_le_nat_alt word_less_nat_alt word_unat_eq_iff

lemma utf8_next1: "unat b0 < 0x80 \<Longrightarrow> utf8_next (b0 # bs) = Inr (of_nat (unat b0 - 0), 0 + 1)"
  by (rule utf8_nextI) (simp_all add: trailing_nth isLegalUTF8_def word_nat_order offsetsFromUTF8_def)

lemma utf8_next2:
  assumes "0xC2 \<le> unat b0" "unat b0 < 0xE0" "0x80 \<le> unat b1" "unat b1 < 0xC0"
  shows "utf8_next (b0 # b1 # bs) = Inr (of_nat (unat b0 * 64 + unat b1 - 0x3080), 1 + 1)"
proof (rule utf8_nextI)
  show "foldl (\<lambda>ch b. push_bit 6 ch + ucast b) 0 (take (1 + 1) (b0 # b1 # bs)) = (of_nat (unat b0 * 64 + unat b1) :: u32)"
    using utf8_value(2) [of b0 b1] by simp
  show "isLegalUTF8 (b0 # b1 # bs) (1 + 1)" using assms by (auto simp: isLegalUTF8_def word_nat_order)
qed (use assms in \<open>simp_all add: trailing_nth offsetsFromUTF8_def\<close>)

text \<open>
  The second byte is checked against a lower bound except behind \<open>0xED\<close> and \<open>0xF4\<close>, where only the upper
  bound is.
\<close>

lemma utf8_next3:
  assumes "0xE0 \<le> unat b0" "unat b0 < 0xF0" "unat b1 < 0xC0" "0x80 \<le> unat b2" "unat b2 < 0xC0"
    and "unat b0 = 0xE0 \<Longrightarrow> 0xA0 \<le> unat b1" "unat b0 \<noteq> 0xED \<Longrightarrow> 0x80 \<le> unat b1" "unat b0 = 0xED \<Longrightarrow> unat b1 < 0xA0"
  shows "utf8_next (b0 # b1 # b2 # bs) = Inr (of_nat ((unat b0 * 64 + unat b1) * 64 + unat b2 - 0xE2080), 2 + 1)"
proof (rule utf8_nextI)
  let ?v = "(unat b0 * 64 + unat b1) * 64 + unat b2"
  show "foldl (\<lambda>ch b. push_bit 6 ch + ucast b) 0 (take (2 + 1) (b0 # b1 # b2 # bs)) = (of_nat ?v :: u32)"
    using utf8_value(3) [of b0 b1 b2] by simp
  show "isLegalUTF8 (b0 # b1 # b2 # bs) (2 + 1)" using assms by (auto simp: isLegalUTF8_def word_nat_order)
  show "0xE2080 \<le> ?v" using assms(1,2,4,6,7) by (cases "unat b0 = 0xED") simp_all
qed (use assms(1-5) in \<open>simp_all add: trailing_nth offsetsFromUTF8_def\<close>)

lemma utf8_next4:
  assumes "0xF0 \<le> unat b0" "unat b0 < 0xF5" "unat b1 < 0xC0" "0x80 \<le> unat b2" "unat b2 < 0xC0"
    "0x80 \<le> unat b3" "unat b3 < 0xC0"
    and "unat b0 = 0xF0 \<Longrightarrow> 0x90 \<le> unat b1" "unat b0 \<noteq> 0xF4 \<Longrightarrow> 0x80 \<le> unat b1" "unat b0 = 0xF4 \<Longrightarrow> unat b1 < 0x90"
  shows "utf8_next (b0 # b1 # b2 # b3 # bs) =
    Inr (of_nat (((unat b0 * 64 + unat b1) * 64 + unat b2) * 64 + unat b3 - 0x3C82080), 3 + 1)"
proof (rule utf8_nextI)
  let ?v = "((unat b0 * 64 + unat b1) * 64 + unat b2) * 64 + unat b3"
  show "foldl (\<lambda>ch b. push_bit 6 ch + ucast b) 0 (take (3 + 1) (b0 # b1 # b2 # b3 # bs)) = (of_nat ?v :: u32)"
    using utf8_value(4) [of b0 b1 b2 b3] by simp
  show "isLegalUTF8 (b0 # b1 # b2 # b3 # bs) (3 + 1)" using assms by (auto simp: isLegalUTF8_def word_nat_order)
  show "0x3C82080 \<le> ?v" using assms(1,2,4,6,8,9) by (cases "unat b0 = 0xF4") simp_all
qed (use assms(1-7) in \<open>simp_all add: trailing_nth offsetsFromUTF8_def\<close>)

text \<open>Only these four forms are accepted.\<close>

lemma utf8_next_forms:
  assumes "utf8_next source = Inr (ch, n)" "source \<noteq> []"
  obtains b0 bs where "source = b0 # bs" "unat b0 < 0x80"
  | b0 b1 bs where "source = b0 # b1 # bs" "0xC2 \<le> unat b0" "unat b0 < 0xE0" "0x80 \<le> unat b1" "unat b1 < 0xC0"
  | b0 b1 b2 bs where "source = b0 # b1 # b2 # bs" "0xE0 \<le> unat b0" "unat b0 < 0xF0" "unat b1 < 0xC0"
      "0x80 \<le> unat b2" "unat b2 < 0xC0" "unat b0 = 0xE0 \<Longrightarrow> 0xA0 \<le> unat b1" "unat b0 \<noteq> 0xED \<Longrightarrow> 0x80 \<le> unat b1"
      "unat b0 = 0xED \<Longrightarrow> unat b1 < 0xA0"
  | b0 b1 b2 b3 bs where "source = b0 # b1 # b2 # b3 # bs" "0xF0 \<le> unat b0" "unat b0 < 0xF5" "unat b1 < 0xC0"
      "0x80 \<le> unat b2" "unat b2 < 0xC0" "0x80 \<le> unat b3" "unat b3 < 0xC0"
      "unat b0 = 0xF0 \<Longrightarrow> 0x90 \<le> unat b1" "unat b0 \<noteq> 0xF4 \<Longrightarrow> 0x80 \<le> unat b1" "unat b0 = 0xF4 \<Longrightarrow> unat b1 < 0x90"
proof -
  obtain b0 bs where s: "source = b0 # bs" using assms(2) by (cases source) auto
  let ?k = "trailingBytesForUTF8 ! unat b0"
  have k: "?k \<le> length bs" "isLegalUTF8 (b0 # bs) (?k + 1)"
    using assms(1) by (auto simp: utf8_next_def Let_def s split: if_split_asm)
  have t: "?k = (if unat b0 < 192 then 0 else if unat b0 < 224 then 1 else if unat b0 < 240 then 2
      else if unat b0 < 248 then 3 else if unat b0 < 252 then 4 else 5)"
    using octet_bound by (rule trailing_nth)
  consider "unat b0 < 192" | "192 \<le> unat b0" "unat b0 < 224" | "224 \<le> unat b0" "unat b0 < 240"
    | "240 \<le> unat b0" "unat b0 < 248" | "248 \<le> unat b0" by linarith
  then show thesis
  proof cases
    case 1
    with k t have "isLegalUTF8 (b0 # bs) 1" by simp
    with 1 show thesis by (intro that(1) [OF s]) (auto simp: isLegalUTF8_def word_nat_order split: if_split_asm)
  next
    case 2
    with k t have l: "isLegalUTF8 (b0 # bs) 2" "1 \<le> length bs" by (simp_all add: numeral_2_eq_2)
    then obtain b1 cs where bs: "bs = b1 # cs" by (cases bs) auto
    from l 2 show thesis
      by (intro that(2) [OF s [unfolded bs]]) (auto simp: bs isLegalUTF8_def word_nat_order split: if_split_asm)
  next
    case 3
    with k t have l: "isLegalUTF8 (b0 # bs) 3" "2 \<le> length bs" by (simp_all add: numeral_3_eq_3)
    then obtain b1 b2 cs where bs: "bs = b1 # b2 # cs" by (cases bs; cases "tl bs") auto
    from l 3 show thesis
      by (intro that(3) [OF s [unfolded bs]]) (auto simp: bs isLegalUTF8_def word_nat_order split: if_split_asm)
  next
    case 4
    with k t have l: "isLegalUTF8 (b0 # bs) 4" "3 \<le> length bs" by (simp_all add: numeral_eq_Suc)
    then obtain b1 b2 b3 cs where bs: "bs = b1 # b2 # b3 # cs" by (cases bs; cases "tl bs"; cases "tl (tl bs)") auto
    from l 4 show thesis
      by (intro that(4) [OF s [unfolded bs]]) (auto simp: bs isLegalUTF8_def word_nat_order split: if_split_asm)
  next
    case 5
    with k t show thesis by (simp add: isLegalUTF8_def split: if_split_asm)
  qed
qed

lemma scalar_less: "scalar c \<Longrightarrow> c < 0x110000"
  by (simp add: scalar_def)

lemma split_64: "c = c div 64 * 64 + c mod 64" "c = (c div 4096 * 64 + c div 64 mod 64) * 64 + c mod 64"
  "c = ((c div 262144 * 64 + c div 4096 mod 64) * 64 + c div 64 mod 64) * 64 + c mod 64" for c :: nat
proof -
  have 1: "x div 64 * 64 + x mod 64 = x" for x :: nat by simp
  have d: "c div 4096 = c div 64 div 64" "c div 262144 = c div 64 div 64 div 64" by (simp_all add: div_mult2_eq [symmetric])
  show "c = c div 64 * 64 + c mod 64" "c = (c div 4096 * 64 + c div 64 mod 64) * 64 + c mod 64"
    "c = ((c div 262144 * 64 + c div 4096 mod 64) * 64 + c div 64 mod 64) * 64 + c mod 64"
    unfolding d by (simp_all only: 1)
qed

lemma digits_64:
  fixes x :: nat assumes "y < 64" "z < 64" "w < 64"
  shows "((x * 64 + y) * 64 + z) mod 64 = z" "((x * 64 + y) * 64 + z) div 64 mod 64 = y"
    "((x * 64 + y) * 64 + z) div 4096 = x"
    "(((x * 64 + y) * 64 + z) * 64 + w) mod 64 = w" "(((x * 64 + y) * 64 + z) * 64 + w) div 64 mod 64 = z"
    "(((x * 64 + y) * 64 + z) * 64 + w) div 4096 mod 64 = y" "(((x * 64 + y) * 64 + z) * 64 + w) div 262144 = x"
proof -
  have 1: "(a * 64 + b) div 64 = a" "(a * 64 + b) mod 64 = b" if "b < 64" for a b :: nat using that by simp_all
  have d: "c div 4096 = c div 64 div 64" "c div 262144 = c div 64 div 64 div 64" for c :: nat
    by (simp_all add: div_mult2_eq [symmetric])
  show "((x * 64 + y) * 64 + z) mod 64 = z" "((x * 64 + y) * 64 + z) div 64 mod 64 = y"
    "((x * 64 + y) * 64 + z) div 4096 = x"
    "(((x * 64 + y) * 64 + z) * 64 + w) mod 64 = w" "(((x * 64 + y) * 64 + z) * 64 + w) div 64 mod 64 = z"
    "(((x * 64 + y) * 64 + z) * 64 + w) div 4096 mod 64 = y" "(((x * 64 + y) * 64 + z) * 64 + w) div 262144 = x"
    unfolding d by (simp_all only: 1 assms)
qed

lemma unat_u8: "k < 256 \<Longrightarrow> unat (of_nat k :: u8) = k"
  by (simp add: unsigned_of_nat take_bit_nat_eq_self)

lemma unat_u16: "k < 65536 \<Longrightarrow> unat (of_nat k :: u16) = k"
  by (simp add: unsigned_of_nat take_bit_nat_eq_self)

lemma unat_u32: "k < 0x110000 \<Longrightarrow> unat (of_nat k :: u32) = k"
  by (simp add: unsigned_of_nat take_bit_nat_eq_self)

lemma utf8_next_enc:
  assumes "scalar c"
  shows "utf8_next (utf8_enc c @ rest) = Inr (of_nat c, length (utf8_enc c))"
proof -
  consider "c < 0x80" | "0x80 \<le> c" "c < 0x800" | "0x800 \<le> c" "c < 0x10000" | "0x10000 \<le> c" "c < 0x110000"
    using scalar_less [OF assms] by linarith
  then show ?thesis
  proof cases
    case 1
    then show ?thesis using utf8_next1 [of "of_nat c" rest] unat_u8 [of c] by (simp add: utf8_enc_def)
  next
    case 2
    have u: "unat (of_nat (0xC0 + c div 64) :: u8) = 0xC0 + c div 64" "unat (of_nat (0x80 + c mod 64) :: u8) = 0x80 + c mod 64"
      using 2 by (intro unat_u8; simp add: less_mult_imp_div_less)+
    have "utf8_next (of_nat (0xC0 + c div 64) # of_nat (0x80 + c mod 64) # rest) = Inr (of_nat c, 1 + 1)"
      using utf8_next2 [of "of_nat (0xC0 + c div 64)" "of_nat (0x80 + c mod 64)" rest] 2 split_64(1) [of c]
      unfolding u by (simp add: div_le_mono less_mult_imp_div_less)
    with 2 show ?thesis by (simp add: utf8_enc_def)
  next
    case 3
    define x y z where "x = c div 4096" "y = c div 64 mod 64" "z = c mod 64"
    then have c: "c = (x * 64 + y) * 64 + z" "y < 64" "z < 64" using split_64(2) [of c] by simp_all
    have u: "unat (of_nat (0xE0 + x) :: u8) = 0xE0 + x" "unat (of_nat (0x80 + y) :: u8) = 0x80 + y"
      "unat (of_nat (0x80 + z) :: u8) = 0x80 + z"
      using 3 c by (intro unat_u8; simp)+
    have "utf8_next (of_nat (0xE0 + x) # of_nat (0x80 + y) # of_nat (0x80 + z) # rest) = Inr (of_nat c, 2 + 1)"
      using utf8_next3 [of "of_nat (0xE0 + x)" "of_nat (0x80 + y)" "of_nat (0x80 + z)" rest] 3 c assms
      unfolding u scalar_def by force
    with 3 show ?thesis by (simp add: utf8_enc_def x_y_z_def)
  next
    case 4
    define x y z w where "x = c div 262144" "y = c div 4096 mod 64" "z = c div 64 mod 64" "w = c mod 64"
    then have c: "c = ((x * 64 + y) * 64 + z) * 64 + w" "y < 64" "z < 64" "w < 64" using split_64(3) [of c] by simp_all
    have u: "unat (of_nat (0xF0 + x) :: u8) = 0xF0 + x" "unat (of_nat (0x80 + y) :: u8) = 0x80 + y"
      "unat (of_nat (0x80 + z) :: u8) = 0x80 + z" "unat (of_nat (0x80 + w) :: u8) = 0x80 + w"
      using 4 c by (intro unat_u8; simp)+
    have "utf8_next (of_nat (0xF0 + x) # of_nat (0x80 + y) # of_nat (0x80 + z) # of_nat (0x80 + w) # rest) = Inr (of_nat c, 3 + 1)"
      using utf8_next4 [of "of_nat (0xF0 + x)" "of_nat (0x80 + y)" "of_nat (0x80 + z)" "of_nat (0x80 + w)" rest] 4 c
      unfolding u by force
    with 4 show ?thesis by (simp add: utf8_enc_def x_y_z_w_def)
  qed
qed

text \<open>Sequences that are accepted although they are ill-formed.\<close>

definition lax :: "u8 list \<Rightarrow> bool" where
  "lax source \<longleftrightarrow> 1 < length source \<and> hd source \<in> {0xED, 0xF4} \<and> source ! 1 < 0x80"

lemma of_nat_u8: "unat b = k \<Longrightarrow> of_nat k = (b :: u8)"
  by (auto simp: word_unat_eq_iff)

lemma utf8_next_sound:
  assumes "utf8_next source = Inr (ch, n)" "source \<noteq> []"
  shows "\<exists>c. scalar c \<and> ch = of_nat c \<and> (take n source = utf8_enc c \<or> lax source)"
  using assms
proof (cases rule: utf8_next_forms)
  case (1 b0 bs)
  with assms utf8_next1 [of b0 bs] show ?thesis
    by (intro exI [of _ "unat b0"]) (auto simp: scalar_def utf8_enc_def)
next
  case (2 b0 b1 bs)
  define x y where "x = unat b0 - 0xC0" "y = unat b1 - 0x80"
  with 2 have b: "unat b0 = 0xC0 + x" "unat b1 = 0x80 + y" "2 \<le> x" "x < 32" "y < 64" by simp_all
  let ?c = "x * 64 + y"
  have "?c div 64 = x" "?c mod 64 = y" using b by simp_all
  moreover have "unat b0 * 64 + unat b1 - 0x3080 = ?c" using b by simp
  ultimately show ?thesis
    using assms utf8_next2 [OF 2(2-5), of bs] 2(1) b of_nat_u8 [OF b(1)] of_nat_u8 [OF b(2)]
    by (intro exI [of _ ?c]) (auto simp: scalar_def utf8_enc_def)
next
  case (3 b0 b1 b2 bs)
  let ?v = "(unat b0 * 64 + unat b1) * 64 + unat b2"
  have nx: "ch = of_nat (?v - 0xE2080)" "n = 3" using assms(1) utf8_next3 [OF 3(2-9), of bs] 3(1) by simp_all
  show ?thesis
  proof (cases "unat b1 < 0x80")
    case True
    with 3 have "unat b0 = 0xED" by force
    with True 3 nx show ?thesis
      by (intro exI [of _ "?v - 0xE2080"]) (auto simp: scalar_def lax_def word_nat_order)
  next
    case False
    define x y z where "x = unat b0 - 0xE0" "y = unat b1 - 0x80" "z = unat b2 - 0x80"
    with 3 False have b: "unat b0 = 0xE0 + x" "unat b1 = 0x80 + y" "unat b2 = 0x80 + z" "x < 16" "y < 64" "z < 64"
      by simp_all
    let ?c = "(x * 64 + y) * 64 + z"
    have "?c mod 64 = z" "?c div 64 mod 64 = y" "?c div 4096 = x" using digits_64(1-3) [OF b(5,6) b(6), of x] .
    moreover have "?v - 0xE2080 = ?c" using b by simp
    moreover have xy: "x = 0 \<Longrightarrow> 32 \<le> y" "x = 13 \<Longrightarrow> y < 32" using 3(7,9) b by simp_all
    moreover have "0x800 \<le> ?c" "?c < 0x10000" using b xy by (cases "x = 0"; simp)+
    moreover have "scalar ?c"
      using b xy by (cases "x < 13"; cases "x = 13") (simp_all add: scalar_def)
    ultimately show ?thesis
      using nx 3(1) of_nat_u8 [OF b(1)] of_nat_u8 [OF b(2)] of_nat_u8 [OF b(3)]
      by (intro exI [of _ ?c]) (auto simp: utf8_enc_def)
  qed
next
  case (4 b0 b1 b2 b3 bs)
  let ?v = "((unat b0 * 64 + unat b1) * 64 + unat b2) * 64 + unat b3"
  have nx: "ch = of_nat (?v - 0x3C82080)" "n = 4" using assms(1) utf8_next4 [OF 4(2-11), of bs] 4(1) by simp_all
  show ?thesis
  proof (cases "unat b1 < 0x80")
    case True
    with 4 have "unat b0 = 0xF4" by force
    with True 4 nx show ?thesis
      by (intro exI [of _ "?v - 0x3C82080"]) (auto simp: scalar_def lax_def word_nat_order)
  next
    case False
    define x y z w where "x = unat b0 - 0xF0" "y = unat b1 - 0x80" "z = unat b2 - 0x80" "w = unat b3 - 0x80"
    with 4 False have b: "unat b0 = 0xF0 + x" "unat b1 = 0x80 + y" "unat b2 = 0x80 + z" "unat b3 = 0x80 + w"
      "x < 5" "y < 64" "z < 64" "w < 64" by simp_all
    let ?c = "((x * 64 + y) * 64 + z) * 64 + w"
    have "?c mod 64 = w" "?c div 64 mod 64 = z" "?c div 4096 mod 64 = y" "?c div 262144 = x"
      using digits_64(4-7) [OF b(6,7,8), of x] .
    moreover have "?v - 0x3C82080 = ?c" using b by simp
    moreover have xy: "x = 0 \<Longrightarrow> 16 \<le> y" "x = 4 \<Longrightarrow> y < 16" using 4(9,11) b by simp_all
    moreover have "0x10000 \<le> ?c" using b xy by (cases "x = 0") simp_all
    moreover have "scalar ?c" using b xy \<open>0x10000 \<le> ?c\<close> by (cases "x = 4") (simp_all add: scalar_def)
    ultimately show ?thesis
      using nx 4(1) of_nat_u8 [OF b(1)] of_nat_u8 [OF b(2)] of_nat_u8 [OF b(3)] of_nat_u8 [OF b(4)]
      by (intro exI [of _ ?c]) (auto simp: utf8_enc_def)
  qed
qed

lemma wide: "unat (ucast (w :: u16) :: u32) = unat w"
  using unsigned_less [of w, where 'a = nat] by (simp add: unsigned_ucast_eq take_bit_nat_eq_self)

lemma narrow_of_nat: "ucast (of_nat k :: u16) = (of_nat k :: u32)" if "k < 0x10000"
  using that by (simp add: word_unat_eq_iff wide unsigned_of_nat take_bit_nat_eq_self)

lemma pair_value:
  fixes ch ch2 :: u32
  assumes "unat ch = 0xD800 + x" "x < 1024" "unat ch2 = 0xDC00 + y" "y < 1024"
  shows "push_bit 10 (ch - 0xD800) + (ch2 - 0xDC00) + 0x10000 = of_nat (0x10000 + x * 1024 + y)"
proof -
  have "ch = 0xD800 + of_nat x" "ch2 = 0xDC00 + of_nat y"
    using assms by (simp_all add: word_unat_eq_iff unat_word_ariths unsigned_of_nat take_bit_nat_eq_self)
  then show ?thesis by (simp add: push_bit_eq_mult)
qed

lemma utf16_next_enc:
  assumes "scalar c"
  shows "utf16_next flags (utf16_enc c @ rest) = Inr (of_nat c, length (utf16_enc c))"
proof (cases "c < 0x10000")
  case True
  then have "unat (of_nat c :: u32) = c" by (simp add: unsigned_of_nat take_bit_nat_eq_self)
  with True assms show ?thesis
    by (auto simp: utf16_enc_def utf16_next_def Let_def narrow_of_nat word_nat_order scalar_def)
next
  case False
  define x y where "x = (c - 0x10000) div 1024" "y = (c - 0x10000) mod 1024"
  with False scalar_less [OF assms] have c: "c = 0x10000 + x * 1024 + y" "x < 1024" "y < 1024"
    by (auto simp: less_mult_imp_div_less)
  have u: "unat (of_nat (0xD800 + x) :: u32) = 0xD800 + x" "unat (of_nat (0xDC00 + y) :: u32) = 0xDC00 + y"
    using c by (intro unat_u32; simp)+
  have n: "ucast (of_nat (0xD800 + x) :: u16) = (of_nat (0xD800 + x) :: u32)"
    "ucast (of_nat (0xDC00 + y) :: u16) = (of_nat (0xDC00 + y) :: u32)"
    using c by (intro narrow_of_nat; simp)+
  from False have e: "utf16_enc c = [of_nat (0xD800 + x), of_nat (0xDC00 + y)]" by (simp add: utf16_enc_def x_y_def)
  note v = pair_value [OF u(1) c(2) u(2) c(3), folded c(1)]
  show ?thesis
    unfolding e utf16_next_def Let_def append_Cons list.sel n v
    using c(2,3) by (simp add: u word_le_nat_alt del: of_nat_add)
qed

lemma utf16_next_sound:
  assumes "utf16_next strictConversion source = Inr (ch, n)" "source \<noteq> []"
  shows "\<exists>c. scalar c \<and> ch = of_nat c \<and> take n source = utf16_enc c"
proof -
  obtain w ws where s: "source = w # ws" using assms(2) by (cases source) auto
  have b: "unat w < 0x10000" using unsigned_less [of w, where 'a = nat] by simp
  show ?thesis
  proof (cases "0xD800 \<le> unat w \<and> unat w < 0xDC00")
    case True
    then obtain v vs where ws: "ws = v # vs" and v: "0xDC00 \<le> unat v" "unat v < 0xE000"
      and r: "ch = push_bit 10 (ucast w - 0xD800) + (ucast v - 0xDC00) + 0x10000" "n = 2"
      using assms(1) by (cases ws) (auto simp: s utf16_next_def Let_def word_nat_order wide split: if_split_asm)
    define x y where "x = unat w - 0xD800" "y = unat v - 0xDC00"
    with True v have xy: "unat w = 0xD800 + x" "x < 1024" "unat v = 0xDC00 + y" "y < 1024" by auto
    let ?c = "0x10000 + x * 1024 + y"
    have "ch = of_nat ?c" unfolding r using xy by (intro pair_value) (simp_all add: wide)
    moreover have "(?c - 0x10000) div 1024 = x" "(?c - 0x10000) mod 1024 = y" using xy by simp_all
    moreover have "of_nat (0xD800 + x) = w" "of_nat (0xDC00 + y) = v" using xy(1,3) [symmetric] by simp_all
    ultimately show ?thesis using xy s ws r
      by (intro exI [of _ ?c]) (auto simp: utf16_enc_def scalar_def simp del: of_nat_add)
  next
    case False
    with assms(1) have "ch = ucast w" "n = 1" "\<not> (0xDC00 \<le> unat w \<and> unat w < 0xE000)"
      by (auto simp: s utf16_next_def Let_def word_nat_order wide split: if_split_asm)
    with False b s show ?thesis
      by (intro exI [of _ "unat w"]) (auto simp: utf16_enc_def scalar_def word_unat_eq_iff wide)
  qed
qed

lemma trail_byte: "ucast ((w OR 0x80) AND 0xBF :: u32) = (of_nat (0x80 + unat w mod 64) :: u8)"
proof -
  let ?x = "ucast w :: u8"
  have "ucast ((w OR 0x80) AND 0xBF :: u32) = (?x OR 0x80) AND 0xBF"
    by (rule bit_word_eqI) (auto simp: bit_simps less_Suc_eq numeral_eq_Suc)
  also have "\<dots> = 0x80 OR (?x AND 0x3F)"
    by (rule bit_word_eqI) (auto simp: bit_simps less_Suc_eq numeral_eq_Suc)
  also have "\<dots> = 0x80 + (?x AND 0x3F)"
  proof -
    have "0x80 AND (?x AND 0x3F) = 0"
      by (rule bit_word_eqI) (auto simp: bit_simps less_Suc_eq numeral_eq_Suc)
    then show ?thesis by (rule disjunctive_add_eq_or [symmetric])
  qed
  also have "?x AND 0x3F = of_nat (unat ?x mod 64)"
    using take_bit_eq_mask [of 6 ?x] by (simp add: word_unat_eq_iff mask_eq_exp_minus_1 unsigned_take_bit_eq take_bit_nat_def)
  also have "unat ?x mod 64 = unat w mod 64"
    by (simp add: unsigned_ucast_eq take_bit_nat_def mod_mod_cancel)
  finally show ?thesis by simp
qed

lemma drop_of_nat: "c < 0x110000 \<Longrightarrow> unat (drop_bit k (of_nat c :: u32)) = c div 2 ^ k"
  using unat_u32 [of c] by (simp add: unsigned_drop_bit_eq drop_bit_nat_def unsigned_of_nat take_bit_nat_eq_self)

lemma or_is_add:
  fixes v m :: u8
  assumes "unat v < 2 ^ k" "mask k AND m = 0"
  shows "v OR m = m + v"
proof -
  have v: "take_bit k v = v" using assms(1) by (simp add: word_unat_eq_iff unsigned_take_bit_eq take_bit_nat_eq_self)
  have "m AND take_bit k v = (mask k AND m) AND v" by (simp add: take_bit_eq_mask ac_simps)
  with v assms(2) have "m AND v = 0" by simp
  then show ?thesis by (simp add: disjunctive_add_eq_or or.commute)
qed

lemma lead_byte:
  assumes "c < 0x110000" "c div 2 ^ j < 2 ^ k" "mask k AND m = 0" "k < 8"
  shows "ucast (drop_bit j (of_nat c :: u32)) OR m = (m + of_nat (c div 2 ^ j) :: u8)"
proof -
  have "(2 :: nat) ^ k \<le> 2 ^ 7" using assms(4) by (intro power_increasing) simp_all
  with assms(2) have b: "c div 2 ^ j < 256" by simp
  have "ucast (drop_bit j (of_nat c :: u32)) = (of_nat (c div 2 ^ j) :: u8)"
    using b by (simp add: word_unat_eq_iff unsigned_ucast_eq drop_of_nat [OF assms(1)] unsigned_of_nat)
  moreover have "unat (of_nat (c div 2 ^ j) :: u8) < 2 ^ k" using assms(2) unat_u8 [OF b] by simp
  ultimately show ?thesis using or_is_add [OF _ assms(3)] by simp
qed

lemma utf8_bytes_enc:
  assumes "c < 0x110000"
  shows "utf8_size (of_nat c) = (length (utf8_enc c), of_nat c)" "utf8_bytes (of_nat c) (length (utf8_enc c)) = utf8_enc c"
proof -
  have u: "unat (of_nat c :: u32) = c" by (rule unat_u32) (rule assms)
  show "utf8_size (of_nat c) = (length (utf8_enc c), of_nat c)"
    using assms by (simp add: utf8_size_def utf8_enc_def word_less_nat_alt u)
  consider "c < 0x80" | "0x80 \<le> c" "c < 0x800" | "0x800 \<le> c" "c < 0x10000" | "0x10000 \<le> c"
    by linarith
  then show "utf8_bytes (of_nat c) (length (utf8_enc c)) = utf8_enc c"
  proof cases
    case 1
    then have "ucast (of_nat c :: u32) = (of_nat c :: u8)"
      by (simp add: word_unat_eq_iff unsigned_ucast_eq u unsigned_of_nat)
    with 1 show ?thesis by (simp add: utf8_bytes_def utf8_enc_def firstByteMark_def)
  next
    case 2
    then show ?thesis using lead_byte [OF assms, of 6 5 "0xC0"]
      by (simp add: utf8_bytes_def utf8_enc_def firstByteMark_def trail_byte u less_mult_imp_div_less mask_eq_exp_minus_1)
  next
    case 3
    then show ?thesis using lead_byte [OF assms, of 12 4 "0xE0"]
      by (simp add: utf8_bytes_def utf8_enc_def firstByteMark_def trail_byte u drop_of_nat [OF assms]
          less_mult_imp_div_less mask_eq_exp_minus_1)
  next
    case 4
    then show ?thesis using lead_byte [OF assms, of 18 3 "0xF0"] assms
      by (simp add: utf8_bytes_def utf8_enc_def firstByteMark_def trail_byte u drop_of_nat [OF assms]
          less_mult_imp_div_less mask_eq_exp_minus_1)
  qed
qed

end
