(* ===== verification/Crt_Transcode.thy ===== *)
theory Crt_Transcode
  imports Crt_Utf
begin

text \<open>
  Correctness of the converters of \<open>Crt_Utf\<close>. The loop they share is proved once in the locale
  \<open>transcoder\<close>, which asks for a reader and a writer of single code points; the converters are interpretations
  of it.
\<close>

section \<open>Surrogate pairs\<close>

lemma narrow_u16: "k < 0x10000 \<Longrightarrow> ucast (of_nat k :: u32) = (of_nat k :: u16)"
  by (simp add: word_unat_eq_iff unsigned_ucast_eq unsigned_of_nat)

lemma utf16_pair_enc:
  assumes "0x10000 \<le> c" "c < 0x110000"
  shows "utf16_pair (of_nat c) = utf16_enc c"
proof -
  let ?d = "c - 0x10000"
  have d: "of_nat c - (0x10000 :: u32) = of_nat ?d" using assms(1) by simp
  have u: "unat (of_nat ?d :: u32) = ?d" using assms by (intro unat_u32) simp
  have q: "?d div 1024 < 1024" using assms by (simp add: less_mult_imp_div_less)
  have h: "drop_bit 10 (of_nat ?d :: u32) = of_nat (?d div 1024)"
    using assms drop_of_nat [of ?d 10] q by (simp add: word_unat_eq_iff unat_u32 del: of_nat_diff)
  have l: "of_nat ?d AND 0x3FF = (of_nat (?d mod 1024) :: u32)"
    using take_bit_eq_mask [of 10 "of_nat ?d :: u32"] u
    by (simp add: word_unat_eq_iff mask_eq_exp_minus_1 unsigned_take_bit_eq take_bit_nat_def unat_u32 del: of_nat_diff)
  have "of_nat (?d div 1024) + (0xD800 :: u32) = of_nat (0xD800 + ?d div 1024)"
    "of_nat (?d mod 1024) + (0xDC00 :: u32) = of_nat (0xDC00 + ?d mod 1024)" by simp_all
  with q assms(1) show ?thesis
    unfolding utf16_pair_def d h l utf16_enc_def by (simp add: narrow_u16 del: of_nat_add)
qed

section \<open>Transcoding\<close>

text \<open>
  What the converters have in common: they take code points off the source with \<open>nxt\<close>, write the units \<open>emit\<close>
  gives for each while these fit, and stop at the first that \<open>nxt\<close> refuses.
\<close>

function transcode ::
  "('a list \<Rightarrow> ConversionResult + u32 \<times> nat) \<Rightarrow> (u32 \<Rightarrow> 'b list) \<Rightarrow> nat \<Rightarrow> 'a list \<Rightarrow> nat \<Rightarrow> nat \<Rightarrow> 'b list option \<Rightarrow>
   (conversion, 'b list option) res" where
  "transcode nxt emit end source i pos target =
     (if source = [] then Ok (conversionOK, i, pos) target
      else case nxt source of
        Inl result \<Rightarrow> Ok (result, i, pos) target
      | Inr (ch, n) \<Rightarrow>
          if pos + length (emit ch) > end \<and> target \<noteq> None then Ok (targetExhausted, i, pos) target
          else and_then (store target pos (emit ch)) (\<lambda>_ target.
               transcode nxt emit end (drop (Suc (n - 1)) source) (i + n) (pos + length (emit ch)) target))"
  by pat_completeness auto
termination
  by (relation "measure (\<lambda>(_, _, _, source, _). length source)") (auto simp: neq_Nil_conv)

declare transcode.simps [simp del]

abbreviation encoded :: "(nat \<Rightarrow> 'a list) \<Rightarrow> nat list \<Rightarrow> 'a list" where
  "encoded enc cs \<equiv> concat (map enc cs)"

definition stored :: "'b list option \<Rightarrow> nat \<Rightarrow> 'b list \<Rightarrow> 'b list option" where
  "stored target pos units = map_option (\<lambda>buf. blit buf pos units) target"

definition room_for :: "'b list option \<Rightarrow> nat \<Rightarrow> nat \<Rightarrow> bool" where
  "room_for target end n \<longleftrightarrow> (\<forall>buf. target = Some buf \<longrightarrow> n \<le> end \<and> end \<le> length buf)"

lemma store_fits: "room_for target end (pos + length units) \<Longrightarrow> store target pos units = Ok () (stored target pos units)"
  by (auto simp: store_def stored_def room_for_def split: option.split)

lemma stored_stored:
  assumes "room_for target end (pos + length xs + length ys)"
  shows "stored (stored target pos xs) (pos + length xs) ys = stored target pos (xs @ ys)"
    "room_for (stored target pos xs) end (pos + length xs + length ys)"
  using assms by (cases target; auto simp: stored_def room_for_def blit_blit)+

locale transcoder =
  fixes nxt :: "'a list \<Rightarrow> ConversionResult + u32 \<times> nat" and emit :: "u32 \<Rightarrow> 'b list"
    and enc :: "nat \<Rightarrow> 'a list" and out :: "nat \<Rightarrow> 'b list"
  assumes nxt_bound: "nxt source = Inr (ch, n) \<Longrightarrow> source \<noteq> [] \<Longrightarrow> 0 < n \<and> n \<le> length source"
    and nxt_enc: "scalar c \<Longrightarrow> nxt (enc c @ rest) = Inr (of_nat c, length (enc c))"
    and emit_out: "scalar c \<Longrightarrow> emit (of_nat c) = out c"
    and enc_nonempty: "enc c \<noteq> []"
begin

lemma run_step:
  assumes "source \<noteq> []" "nxt source = Inr (ch, n)" "room_for target end (pos + length (emit ch))"
  shows "transcode nxt emit end source i pos target =
    transcode nxt emit end (drop n source) (i + n) (pos + length (emit ch)) (stored target pos (emit ch))"
proof -
  have "Suc (n - 1) = n" using nxt_bound [OF assms(2,1)] by simp
  with assms show ?thesis
    by (subst transcode.simps) (auto simp: store_fits room_for_def)
qed

lemma run_text:
  assumes "\<forall>c \<in> set cs. scalar c" "room_for target end (pos + length (encoded out cs))"
  shows "transcode nxt emit end (encoded enc cs @ rest) i pos target =
    transcode nxt emit end rest (i + length (encoded enc cs)) (pos + length (encoded out cs)) (stored target pos (encoded out cs))"
  using assms
proof (induction cs arbitrary: i pos target)
  case Nil
  then show ?case by (simp add: stored_def option.map_ident)
next
  case (Cons c cs)
  then have c: "scalar c" by simp
  have r: "room_for target end (pos + length (out c))" using Cons.prems(2) by (auto simp: room_for_def)
  have "transcode nxt emit end (encoded enc (c # cs) @ rest) i pos target =
      transcode nxt emit end (encoded enc cs @ rest) (i + length (enc c)) (pos + length (out c)) (stored target pos (out c))"
    using run_step [of "enc c @ encoded enc cs @ rest" "of_nat c" "length (enc c)" target "end" pos i] c r
    by (simp add: nxt_enc emit_out enc_nonempty)
  with Cons stored_stored [of target "end" pos "out c" "encoded out cs"] show ?case by (simp add: add.assoc)
qed

lemma run_all:
  assumes "\<forall>c \<in> set cs. scalar c" "room_for target end (pos + length (encoded out cs))"
  shows "transcode nxt emit end (encoded enc cs) i pos target =
    Ok (conversionOK, i + length (encoded enc cs), pos + length (encoded out cs)) (stored target pos (encoded out cs))"
  using run_text [OF assms, of "[]"] by (simp add: transcode.simps [of nxt emit "end" "[]"])

text \<open>Any source: nothing outside the room is touched.\<close>

lemma run_safe:
  assumes "pos \<le> end" "end \<le> length buf"
  shows "\<exists>r i' p buf'. transcode nxt emit end source i pos (Some buf) = Ok (r, i', p) (Some buf') \<and>
    i \<le> i' \<and> i' \<le> i + length source \<and> pos \<le> p \<and> p \<le> end \<and> length buf' = length buf \<and> drop p buf' = drop p buf"
  using assms
proof (induction "length source" arbitrary: source i pos buf rule: less_induct)
  case less
  show ?case
  proof (cases "source = []")
    case False
    show ?thesis
    proof (cases "nxt source")
      case (Inr p)
      then obtain ch n where p: "nxt source = Inr (ch, n)" by (cases p) auto
      then have n: "0 < n" "n \<le> length source" using nxt_bound False by blast+
      show ?thesis
      proof (cases "pos + length (emit ch) \<le> end")
        case True
        let ?buf = "blit buf pos (emit ch)"
        have l: "length ?buf = length buf" using True less.prems by simp
        have "\<exists>r i' p buf'. transcode nxt emit end (drop n source) (i + n) (pos + length (emit ch)) (Some ?buf) =
            Ok (r, i', p) (Some buf') \<and> i + n \<le> i' \<and> i' \<le> i + n + length (drop n source) \<and> pos + length (emit ch) \<le> p \<and>
            p \<le> end \<and> length buf' = length ?buf \<and> drop p buf' = drop p ?buf"
          using n True less.prems l by (intro less.hyps) simp_all
        moreover have "drop p ?buf = drop p buf" if "pos + length (emit ch) \<le> p" for p
          using that True less.prems by simp
        moreover have "transcode nxt emit end source i pos (Some buf) =
            transcode nxt emit end (drop n source) (i + n) (pos + length (emit ch)) (Some ?buf)"
          using run_step [OF False p, of "Some buf" "end" pos i] True less.prems by (simp add: room_for_def stored_def)
        ultimately show ?thesis using n l by (auto; fastforce)
      qed (use p False less.prems in \<open>simp add: transcode.simps [of nxt emit "end" source]\<close>)
    qed (use False less.prems in \<open>simp add: transcode.simps [of nxt emit "end" source]\<close>)
  qed (use less.prems in \<open>simp add: transcode.simps [of nxt emit "end" "[]"]\<close>)
qed

end

section \<open>The code points of a source\<close>

text \<open>The code points that are taken off a source, why this ends, and how many code units it takes.\<close>

function code_points :: "('a list \<Rightarrow> ConversionResult + u32 \<times> nat) \<Rightarrow> 'a list \<Rightarrow> u32 list \<times> ConversionResult \<times> nat" where
  "code_points nxt source =
     (if source = [] then ([], conversionOK, 0)
      else case nxt source of
        Inl result \<Rightarrow> ([], result, 0)
      | Inr (ch, n) \<Rightarrow> (case code_points nxt (drop (Suc (n - 1)) source) of (chs, result, k) \<Rightarrow> (ch # chs, result, n + k)))"
  by pat_completeness auto
termination
  by (relation "measure (\<lambda>(_, source). length source)") (auto simp: neq_Nil_conv)

declare code_points.simps [simp del]

context transcoder
begin

lemma points_step:
  assumes "source \<noteq> []" "nxt source = Inr (ch, n)" "code_points nxt (drop n source) = (chs, r, k)"
  shows "code_points nxt source = (ch # chs, r, n + k)"
proof -
  have "Suc (n - 1) = n" using nxt_bound [OF assms(2,1)] by simp
  with assms show ?thesis by (subst code_points.simps) simp
qed

text \<open>In a buffer that is large enough, and without a buffer, exactly these are converted.\<close>

lemma run_points:
  assumes "code_points nxt source = (chs, r, k)" "room_for target end (pos + length (concat (map emit chs)))"
  shows "transcode nxt emit end source i pos target =
    Ok (r, i + k, pos + length (concat (map emit chs))) (stored target pos (concat (map emit chs)))"
  using assms
proof (induction "length source" arbitrary: source chs k i pos target rule: less_induct)
  case less
  show ?case
  proof (cases "source = []")
    case True
    with less.prems(1) show ?thesis
      by (simp add: transcode.simps [of nxt emit _ "[]"] code_points.simps [of nxt "[]"] stored_def option.map_ident)
  next
    case False
    show ?thesis
    proof (cases "nxt source")
      case (Inl e)
      with False less.prems(1) show ?thesis
        by (simp add: transcode.simps [of nxt emit _ source] code_points.simps [of nxt source] stored_def option.map_ident)
    next
      case (Inr q)
      then obtain ch n where q: "nxt source = Inr (ch, n)" by (cases q) auto
      then have n: "0 < n" "n \<le> length source" using nxt_bound False by blast+
      obtain chs' r' k' where d: "code_points nxt (drop n source) = (chs', r', k')" by (metis prod_cases3)
      with points_step [OF False q] less.prems(1) have c: "chs = ch # chs'" "r' = r" "k = n + k'" by simp_all
      let ?u = "concat (map emit chs')"
      have room: "room_for target end (pos + length (emit ch))" "room_for target end (pos + length (emit ch) + length ?u)"
        using less.prems(2) c by (auto simp: room_for_def)
      note s = stored_stored [OF room(2)]
      have "transcode nxt emit end source i pos target =
          transcode nxt emit end (drop n source) (i + n) (pos + length (emit ch)) (stored target pos (emit ch))"
        using False q room(1) by (rule run_step)
      also have "\<dots> = Ok (r, i + n + k', pos + length (emit ch) + length ?u)
          (stored (stored target pos (emit ch)) (pos + length (emit ch)) ?u)"
        using n d c s(2) by (intro less.hyps) simp_all
      finally show ?thesis using c s(1) by (simp add: add.assoc)
    qed
  qed
qed

lemma points_bound: "code_points nxt source = (chs, r, k) \<Longrightarrow> length chs \<le> k \<and> k \<le> length source"
proof (induction "length source" arbitrary: source chs k rule: less_induct)
  case less
  show ?case
  proof (cases "source = [] \<or> (\<exists>e. nxt source = Inl e)")
    case True
    with less.prems show ?thesis by (subst (asm) code_points.simps) (auto split: if_split_asm)
  next
    case False
    then obtain ch n where q: "source \<noteq> []" "nxt source = Inr (ch, n)" by (cases "nxt source") auto
    then have n: "0 < n" "n \<le> length source" using nxt_bound by blast+
    obtain chs' r' k' where d: "code_points nxt (drop n source) = (chs', r', k')" by (metis prod_cases3)
    with points_step [OF q] less.prems have c: "chs = ch # chs'" "r' = r" "k = n + k'" by simp_all
    have "length chs' \<le> k' \<and> k' \<le> length (drop n source)" using less.hyps [OF _ d [unfolded c(2)]] n by simp
    with c n show ?thesis by auto
  qed
qed

lemma points_prefix:
  assumes "\<forall>c \<in> set cs. scalar c" "code_points nxt rest = (chs, r, k)"
  shows "code_points nxt (encoded enc cs @ rest) = (map of_nat cs @ chs, r, length (encoded enc cs) + k)"
  using assms
proof (induction cs)
  case (Cons c cs)
  then have c: "scalar c" "code_points nxt (encoded enc cs @ rest) = (map of_nat cs @ chs, r, length (encoded enc cs) + k)" by auto
  with points_step [of "enc c @ encoded enc cs @ rest" "of_nat c" "length (enc c)"] show ?case
    by (simp add: nxt_enc enc_nonempty)
qed simp

lemma points_text:
  assumes "\<forall>c \<in> set cs. scalar c"
  shows "code_points nxt (encoded enc cs) = (map of_nat cs, conversionOK, length (encoded enc cs))"
  using points_prefix [OF assms, of "[]" "[]" conversionOK 0] by (simp add: code_points.simps)

end

text \<open>
  A reader that accepts nothing but encodings of scalar values, apart from the sources that \<open>bad\<close> names.
\<close>

locale checked_transcoder = transcoder +
  fixes bad :: "'a list \<Rightarrow> bool"
  assumes nxt_sound: "nxt source = Inr (ch, n) \<Longrightarrow> source \<noteq> [] \<Longrightarrow>
    \<exists>c. scalar c \<and> ch = of_nat c \<and> (take n source = enc c \<or> bad source)"
    and nxt_refuses: "nxt source \<noteq> Inl conversionOK"
begin

lemma points_scalar:
  assumes "code_points nxt source = (chs, r, k)"
  obtains cs where "\<forall>c \<in> set cs. scalar c" "chs = map of_nat cs"
    "take k source = encoded enc cs \<or> (\<exists>j < length source. bad (drop j source))"
    "r = conversionOK \<Longrightarrow> k = length source"
proof -
  have "\<exists>cs. (\<forall>c \<in> set cs. scalar c) \<and> chs = map of_nat cs \<and>
    (take k source = encoded enc cs \<or> (\<exists>j < length source. bad (drop j source))) \<and> (r = conversionOK \<longrightarrow> k = length source)"
    using assms
  proof (induction "length source" arbitrary: source chs k rule: less_induct)
    case less
    show ?case
    proof (cases "source = [] \<or> (\<exists>e. nxt source = Inl e)")
      case True
      with less.prems nxt_refuses have "chs = []" "k = 0" "r = conversionOK \<Longrightarrow> source = []"
        by (subst (asm) code_points.simps; auto split: if_split_asm)+
      then show ?thesis by auto
    next
      case False
      then obtain ch n where q: "source \<noteq> []" "nxt source = Inr (ch, n)" by (cases "nxt source") auto
      then have n: "0 < n" "n \<le> length source" using nxt_bound by blast+
      obtain chs' r' k' where d: "code_points nxt (drop n source) = (chs', r', k')" by (metis prod_cases3)
      with points_step [OF q] less.prems have c: "chs = ch # chs'" "r' = r" "k = n + k'" by simp_all
      obtain a where a: "scalar a" "ch = of_nat a" "take n source = enc a \<or> bad source" using nxt_sound [OF q(2,1)] by blast
      obtain cs where cs: "\<forall>c \<in> set cs. scalar c" "chs' = map of_nat cs"
        "take k' (drop n source) = encoded enc cs \<or> (\<exists>j < length (drop n source). bad (drop j (drop n source)))"
        "r = conversionOK \<longrightarrow> k' = length (drop n source)"
        using less.hyps [OF _ d [unfolded c]] n by (metis c(2) diff_less length_drop length_greater_0_conv q(1))
      have "take k source = encoded enc (a # cs) \<or> (\<exists>j < length source. bad (drop j source))"
      proof (cases "bad source")
        case False
        with a cs(3) c(3) n show ?thesis
          by (auto simp: take_add)
      qed (use q(1) in \<open>auto intro!: exI [of _ 0]\<close>)
      with a cs c n show ?thesis by (intro exI [of _ "a # cs"]) auto
    qed
  qed
  with that show thesis by blast
qed

end


section \<open>The converters between the encoding forms\<close>

definition emit_utf8 :: "u32 \<Rightarrow> u8 list" where
  "emit_utf8 ch = (case utf8_size ch of (n, ch) \<Rightarrow> utf8_bytes ch n)"

definition emit_utf16 :: "u32 \<Rightarrow> u16 list" where
  "emit_utf16 ch = (if ch \<le> UNI_MAX_BMP then [ucast ch] else utf16_pair ch)"

lemma scalar_word:
  assumes "scalar c"
  shows "\<not> surrogate (of_nat c)" "of_nat c \<le> (0x10FFFF :: u32)" "emit_utf8 (of_nat c) = utf8_enc c"
    "emit_utf16 (of_nat c) = utf16_enc c"
proof -
  have c: "c < 0x110000" using assms by (rule scalar_less)
  note u = unat_u32 [OF c]
  show "\<not> surrogate (of_nat c)" "of_nat c \<le> (0x10FFFF :: u32)"
    using assms by (auto simp: surrogate_def word_le_nat_alt u scalar_def)
  show "emit_utf8 (of_nat c) = utf8_enc c" using utf8_bytes_enc [OF c] by (simp add: emit_utf8_def)
  show "emit_utf16 (of_nat c) = utf16_enc c"
    using utf16_pair_enc [of c] c narrow_u16 [of c]
    by (cases "c < 0x10000") (simp_all add: emit_utf16_def word_le_nat_alt u utf16_enc_def)
qed

lemma enc_not_Nil: "utf8_enc c \<noteq> []" "utf16_enc c \<noteq> []"
  by (simp_all add: utf8_enc_def utf16_enc_def)

interpretation utf16_utf8: transcoder "utf16_next flags" emit_utf8 utf16_enc utf8_enc for flags
  by unfold_locales (auto dest: utf16_next_length simp: utf16_next_enc scalar_word enc_not_Nil)

interpretation utf16_utf32: transcoder "utf16_next flags" "\<lambda>ch. [ch]" utf16_enc "\<lambda>c. [of_nat c]" for flags
  by unfold_locales (auto dest: utf16_next_length simp: utf16_next_enc enc_not_Nil)

lemma utf16_next_refuses: "utf16_next flags source \<noteq> Inl conversionOK"
  by (simp add: utf16_next_def Let_def)

lemma utf8_next_refuses: "utf8_next source \<noteq> Inl conversionOK"
  by (simp add: utf8_next_def Let_def)

interpretation utf16_strict: checked_transcoder "utf16_next strictConversion" emit_utf8 utf16_enc utf8_enc "\<lambda>_. False"
  by unfold_locales (auto dest: utf16_next_sound simp: utf16_next_refuses)

interpretation utf8_utf16: checked_transcoder utf8_next emit_utf16 utf8_enc utf16_enc lax
  by unfold_locales
    (auto dest: utf8_next_length utf8_next_sound simp: utf8_next_enc scalar_word enc_not_Nil utf8_next_refuses)

interpretation utf8_utf32: checked_transcoder utf8_next "\<lambda>ch. [ch]" utf8_enc "\<lambda>c. [of_nat c]" lax
  by unfold_locales
    (auto dest: utf8_next_length utf8_next_sound simp: utf8_next_enc enc_not_Nil utf8_next_refuses)

lemma utf16_to_utf8_transcode: "utf16_to_utf8 flags end source = transcode (utf16_next flags) emit_utf8 end source"
proof (induction source rule: length_induct)
  case (1 source)
  show ?case
  proof (intro ext)
    fix i pos target
    show "utf16_to_utf8 flags end source i pos target = transcode (utf16_next flags) emit_utf8 end source i pos target"
    proof (cases "source = [] \<or> (\<exists>e. utf16_next flags source = Inl e)")
      case True
      then show ?thesis by (subst utf16_to_utf8.simps, subst transcode.simps) auto
    next
      case False
      then obtain ch n where q: "source \<noteq> []" "utf16_next flags source = Inr (ch, n)" by (cases "utf16_next flags source") auto
      then have "0 < n" using utf16_next_length by blast
      then have n: "Suc (n - 1) = n" "length (drop n source) < length source" using q(1) by simp_all
      obtain k c where k: "utf8_size ch = (k, c)" by (cases "utf8_size ch")
      moreover have "length (utf8_bytes c k) = k" using k by (auto simp: utf8_size_def utf8_bytes_def split: if_split_asm)
      ultimately show ?thesis
        using q n(1) 1 [rule_format, OF n(2)] by (subst utf16_to_utf8.simps, subst transcode.simps) (auto simp: emit_utf8_def)
    qed
  qed
qed

lemma utf8_to_utf16_transcode: "utf8_to_utf16 flags (2 * end) source = transcode utf8_next emit_utf16 end source"
proof (induction source rule: length_induct)
  case (1 source)
  show ?case
  proof (intro ext)
    fix i pos target
    show "utf8_to_utf16 flags (2 * end) source i pos target = transcode utf8_next emit_utf16 end source i pos target"
    proof (cases "source = [] \<or> (\<exists>e. utf8_next source = Inl e)")
      case True
      then show ?thesis by (subst utf8_to_utf16.simps, subst transcode.simps) auto
    next
      case False
      then obtain ch n where q: "source \<noteq> []" "utf8_next source = Inr (ch, n)" by (cases "utf8_next source") auto
      then have "0 < n" using utf8_next_length by blast
      then have n: "Suc (n - 1) = n" "length (drop n source) < length source" using q(1) by simp_all
      obtain c where c: "scalar c" "ch = of_nat c" using utf8_next_sound [OF q(2,1)] by blast
      with q n(1) 1 [rule_format, OF n(2)] scalar_word(1,2) [OF c(1)] show ?thesis
        by (subst utf8_to_utf16.simps, subst transcode.simps)
          (auto simp: emit_utf16_def utf16_pair_def)
    qed
  qed
qed


lemma utf16_to_utf32_transcode:
  "utf16_to_utf32 flags end source i pos (Some buf) = transcode (utf16_next flags) (\<lambda>ch. [ch]) end source i pos (Some buf)"
proof (induction source arbitrary: i pos buf rule: length_induct)
  case (1 source)
  show ?case
  proof (cases "source = [] \<or> (\<exists>e. utf16_next flags source = Inl e)")
    case True
    then show ?thesis by (subst utf16_to_utf32.simps, subst transcode.simps) auto
  next
    case False
    then obtain ch n where q: "source \<noteq> []" "utf16_next flags source = Inr (ch, n)" by (cases "utf16_next flags source") auto
    then have "0 < n" using utf16_next_length by blast
    then have n: "Suc (n - 1) = n" "length (drop n source) < length source" using q(1) by simp_all
    with q 1 [rule_format, OF n(2)] show ?thesis
      by (subst utf16_to_utf32.simps, subst transcode.simps) (auto simp: store_def)
  qed
qed

lemma utf8_to_utf32_transcode:
  "utf8_to_utf32 flags end source conversionOK i pos (Some buf) = transcode utf8_next (\<lambda>ch. [ch]) end source i pos (Some buf)"
proof (induction source arbitrary: i pos buf rule: length_induct)
  case (1 source)
  show ?case
  proof (cases "source = [] \<or> (\<exists>e. utf8_next source = Inl e)")
    case True
    then show ?thesis by (subst utf8_to_utf32.simps, subst transcode.simps) auto
  next
    case False
    then obtain ch n where q: "source \<noteq> []" "utf8_next source = Inr (ch, n)" by (cases "utf8_next source") auto
    then have "0 < n" using utf8_next_length by blast
    then have n: "Suc (n - 1) = n" "length (drop n source) < length source" using q(1) by simp_all
    obtain c where c: "scalar c" "ch = of_nat c" using utf8_next_sound [OF q(2,1)] by blast
    with q n(1) 1 [rule_format, OF n(2)] scalar_word(1,2) [OF c(1)] show ?thesis
      by (subst utf8_to_utf32.simps, subst transcode.simps) (auto simp: store_def)
  qed
qed

text \<open>From UTF-32, scalar values only.\<close>

lemma utf32_to_utf8_text:
  assumes "\<forall>c \<in> set cs. scalar c" "room_for target end (pos + length (encoded utf8_enc cs))" "target \<noteq> None"
  shows "utf32_to_utf8 flags end (map of_nat cs) r i pos target =
    Ok (r, i + length cs, pos + length (encoded utf8_enc cs)) (stored target pos (encoded utf8_enc cs))"
  using assms
proof (induction cs arbitrary: i pos target)
  case Nil
  then show ?case by (simp add: stored_def option.map_ident)
next
  case (Cons c cs)
  let ?u = "encoded utf8_enc cs"
  have c: "scalar c" "c < 0x110000" using Cons.prems(1) scalar_less by simp_all
  have room: "room_for target end (pos + length (utf8_enc c))" "room_for target end (pos + length (utf8_enc c) + length ?u)"
    using Cons.prems(2) by (auto simp: room_for_def)
  note s = stored_stored [OF room(2)]
  have "utf32_to_utf8 flags end (map of_nat (c # cs)) r i pos target =
      utf32_to_utf8 flags end (map of_nat cs) r (i + 1) (pos + length (utf8_enc c)) (stored target pos (utf8_enc c))"
    using scalar_word [OF c(1)] utf8_bytes_enc [OF c(2)] store_fits [OF room(1)] room(1) Cons.prems(3)
    by (auto simp: room_for_def Let_def)
  also have "\<dots> = Ok (r, i + 1 + length cs, pos + length (utf8_enc c) + length ?u)
      (stored (stored target pos (utf8_enc c)) (pos + length (utf8_enc c)) ?u)"
    using Cons.prems s(2) by (intro Cons.IH) (simp_all add: stored_def)
  finally show ?case using s(1) by (simp add: add.assoc)
qed

lemma utf32_to_utf16_text:
  assumes "\<forall>c \<in> set cs. scalar c" "room_for target end (pos + length (encoded utf16_enc cs))" "target \<noteq> None"
  shows "utf32_to_utf16 flags end (map of_nat cs) r i pos target =
    Ok (r, i + length cs, pos + length (encoded utf16_enc cs)) (stored target pos (encoded utf16_enc cs))"
  using assms
proof (induction cs arbitrary: i pos target)
  case Nil
  then show ?case by (simp add: stored_def option.map_ident)
next
  case (Cons c cs)
  let ?u = "encoded utf16_enc cs"
  have c: "scalar c" "c < 0x110000" using Cons.prems(1) scalar_less by simp_all
  have room: "room_for target end (pos + length (utf16_enc c))" "room_for target end (pos + length (utf16_enc c) + length ?u)"
    using Cons.prems(2) by (auto simp: room_for_def)
  note s = stored_stored [OF room(2)]
  have "utf32_to_utf16 flags end (map of_nat (c # cs)) r i pos target =
      utf32_to_utf16 flags end (map of_nat cs) r (i + 1) (pos + length (utf16_enc c)) (stored target pos (utf16_enc c))"
    using scalar_word(1,2) [OF c(1)] scalar_word(4) [OF c(1), symmetric] store_fits [OF room(1)] room(1) Cons.prems(3)
    by (cases "of_nat c \<le> (0xFFFF :: u32)") (auto simp: room_for_def emit_utf16_def utf16_pair_def not_le)
  also have "\<dots> = Ok (r, i + 1 + length cs, pos + length (utf16_enc c) + length ?u)
      (stored (stored target pos (utf16_enc c)) (pos + length (utf16_enc c)) ?u)"
    using Cons.prems s(2) by (intro Cons.IH) (simp_all add: stored_def)
  finally show ?case using s(1) by (simp add: add.assoc)
qed

section \<open>Properties\<close>

lemma encoded_of_nat: "\<forall>c \<in> set cs. scalar c \<Longrightarrow> concat (map emit_utf8 (map of_nat cs)) = encoded utf8_enc cs"
  "\<forall>c \<in> set cs. scalar c \<Longrightarrow> concat (map emit_utf16 (map of_nat cs)) = encoded utf16_enc cs"
  by (induction cs) (simp_all add: scalar_word)

lemma nat_double: "0 \<le> n \<Longrightarrow> nat (2 * n) = 2 * nat n"
  by simp

text \<open>
  C11. The converters implement the Unicode encoding forms. For every sequence of scalar values, whatever the
  flags, each of the six converters turns its encoding in the one form completely into that in the other
  when the announced room is there: the source is used up, the target is advanced by the length of the
  result, which is written at its start, and nothing behind it is changed.
\<close>

theorem utf_converters_encode:
  assumes cs: "\<forall>c \<in> set cs. scalar c"
    and room: "length (encoded utf8_enc cs) \<le> n8" "n8 \<le> length b8" "length (encoded utf16_enc cs) \<le> n16" "n16 \<le> length b16"
      "length cs \<le> n32" "n32 \<le> length b32"
  defines "u8s \<equiv> encoded utf8_enc cs" and "u16s \<equiv> encoded utf16_enc cs" and "u32s \<equiv> map of_nat cs"
  shows "ConvertUTF8toUTF16 u8s (Some (b16, 2 * int n16)) flags = Ok (conversionOK, length u8s, length u16s) (Some (blit b16 0 u16s)) \<and>
    ConvertUTF16toUTF8 u16s (Some (b8, int n8)) flags = Ok (conversionOK, length u16s, length u8s) (Some (blit b8 0 u8s)) \<and>
    ConvertUTF8toUTF32 u8s b32 n32 flags = Ok (conversionOK, length u8s, length u32s) (Some (blit b32 0 u32s)) \<and>
    ConvertUTF32toUTF8 u32s b8 n8 flags = Ok (conversionOK, length u32s, length u8s) (Some (blit b8 0 u8s)) \<and>
    ConvertUTF16toUTF32 u16s b32 n32 flags = Ok (conversionOK, length u16s, length u32s) (Some (blit b32 0 u32s)) \<and>
    ConvertUTF32toUTF16 u32s b16 n16 flags = Ok (conversionOK, length u32s, length u16s) (Some (blit b16 0 u16s))"
proof (intro conjI)
  have id: "concat (map (\<lambda>c. [of_nat c]) cs) = u32s" by (simp add: u32s_def)
  show "ConvertUTF8toUTF16 u8s (Some (b16, 2 * int n16)) flags = Ok (conversionOK, length u8s, length u16s) (Some (blit b16 0 u16s))"
    using utf8_utf16.run_all [OF cs, of "Some b16" n16 0 0] room
    by (simp add: ConvertUTF8toUTF16_def nat_double utf8_to_utf16_transcode room_for_def stored_def u8s_def u16s_def)
  show "ConvertUTF16toUTF8 u16s (Some (b8, int n8)) flags = Ok (conversionOK, length u16s, length u8s) (Some (blit b8 0 u8s))"
    using utf16_utf8.run_all [OF cs, of "Some b8" n8 0 flags 0] room
    by (simp add: ConvertUTF16toUTF8_def utf16_to_utf8_transcode room_for_def stored_def u8s_def u16s_def)
  show "ConvertUTF8toUTF32 u8s b32 n32 flags = Ok (conversionOK, length u8s, length u32s) (Some (blit b32 0 u32s))"
    using utf8_utf32.run_all [OF cs, of "Some b32" n32 0 0] room unfolding id
    by (simp add: ConvertUTF8toUTF32_def utf8_to_utf32_transcode room_for_def stored_def u8s_def u32s_def)
  show "ConvertUTF32toUTF8 u32s b8 n8 flags = Ok (conversionOK, length u32s, length u8s) (Some (blit b8 0 u8s))"
    using utf32_to_utf8_text [OF cs, of "Some b8" n8 0] room
    by (simp add: ConvertUTF32toUTF8_def room_for_def stored_def u8s_def u32s_def)
  show "ConvertUTF16toUTF32 u16s b32 n32 flags = Ok (conversionOK, length u16s, length u32s) (Some (blit b32 0 u32s))"
    using utf16_utf32.run_all [OF cs, of "Some b32" n32 0 flags 0] room unfolding id
    by (simp add: ConvertUTF16toUTF32_def utf16_to_utf32_transcode room_for_def stored_def u16s_def u32s_def)
  show "ConvertUTF32toUTF16 u32s b16 n16 flags = Ok (conversionOK, length u32s, length u16s) (Some (blit b16 0 u16s))"
    using utf32_to_utf16_text [OF cs, of "Some b16" n16 0] room
    by (simp add: ConvertUTF32toUTF16_def room_for_def stored_def u16s_def u32s_def)
qed

text \<open>The euro sign and a character outside the basic plane.\<close>

theorem utf_converters_encode_witness:
  "ConvertUTF8toUTF16 [0xE2, 0x82, 0xAC, 0xF0, 0x90, 0x90, 0xB7] (Some ([1, 1, 1, 1], 8)) strictConversion =
     Ok (conversionOK, 7, 3) (Some [0x20AC, 0xD801, 0xDC37, 1]) \<and>
   ConvertUTF16toUTF8 [0x20AC, 0xD801, 0xDC37] (Some (replicate 7 0, 7)) strictConversion =
     Ok (conversionOK, 3, 7) (Some [0xE2, 0x82, 0xAC, 0xF0, 0x90, 0x90, 0xB7])"
proof -
  have s: "\<forall>c \<in> set [0x20AC, 0x10437]. scalar c" by (simp add: scalar_def)
  have e: "encoded utf8_enc [0x20AC, 0x10437] = [0xE2, 0x82, 0xAC, 0xF0, 0x90, 0x90, 0xB7]"
    "encoded utf16_enc [0x20AC, 0x10437] = [0x20AC, 0xD801, 0xDC37]"
    by (simp_all add: utf8_enc_def utf16_enc_def)
  show ?thesis
    using utf_converters_encode [OF s, of 7 "replicate 7 0" 4 "[1, 1, 1, 1]" 2 "[0, 0]" strictConversion]
    unfolding e by (simp add: blit_def)
qed

lemma length_pass:
  "ConvertUTF16toUTF8 source None flags = (case code_points (utf16_next flags) source of (chs, r, k) \<Rightarrow>
     Ok (r, k, length (concat (map emit_utf8 chs))) None)"
  "ConvertUTF8toUTF16 source8 None flags = (case code_points utf8_next source8 of (chs, r, k) \<Rightarrow>
     Ok (r, k, length (concat (map emit_utf16 chs))) None)"
proof -
  obtain chs r k where c: "code_points (utf16_next flags) source = (chs, r, k)" by (metis prod_cases3)
  with utf16_utf8.run_points [OF c, of None 0 0 0]
  show "ConvertUTF16toUTF8 source None flags = (case code_points (utf16_next flags) source of (chs, r, k) \<Rightarrow>
     Ok (r, k, length (concat (map emit_utf8 chs))) None)"
    by (simp add: ConvertUTF16toUTF8_def utf16_to_utf8_transcode room_for_def stored_def)
  obtain chs r k where c: "code_points utf8_next source8 = (chs, r, k)" by (metis prod_cases3)
  with utf8_utf16.run_points [OF c, of None 0 0 0] utf8_to_utf16_transcode [of flags 0]
  show "ConvertUTF8toUTF16 source8 None flags = (case code_points utf8_next source8 of (chs, r, k) \<Rightarrow>
     Ok (r, k, length (concat (map emit_utf16 chs))) None)"
    by (simp add: ConvertUTF8toUTF16_def room_for_def stored_def)
qed

lemma room_pass:
  "code_points (utf16_next flags) source = (chs, r, k) \<Longrightarrow> length (concat (map emit_utf8 chs)) \<le> n \<Longrightarrow> n \<le> length buf \<Longrightarrow>
   ConvertUTF16toUTF8 source (Some (buf, int n)) flags =
     Ok (r, k, length (concat (map emit_utf8 chs))) (Some (blit buf 0 (concat (map emit_utf8 chs))))"
  "code_points utf8_next source8 = (chs, r, k) \<Longrightarrow> length (concat (map emit_utf16 chs)) \<le> n \<Longrightarrow> n \<le> length buf16 \<Longrightarrow>
   ConvertUTF8toUTF16 source8 (Some (buf16, 2 * int n)) flags =
     Ok (r, k, length (concat (map emit_utf16 chs))) (Some (blit buf16 0 (concat (map emit_utf16 chs))))"
  using utf16_utf8.run_points [of flags source chs r k "Some buf" n 0 0]
    utf8_utf16.run_points [of source8 chs r k "Some buf16" n 0 0]
  by (simp_all add: ConvertUTF16toUTF8_def utf16_to_utf8_transcode ConvertUTF8toUTF16_def nat_double
      utf8_to_utf16_transcode room_for_def stored_def)



lemma utf8_enc_second: "k < length (utf8_enc c) \<Longrightarrow> c < 0x110000 \<Longrightarrow> 0 < k \<Longrightarrow> 0x80 \<le> utf8_enc c ! k"
proof -
  have "0x80 \<le> (of_nat (0x80 + c mod 64) :: u8)" for c :: nat
    by (simp add: word_le_nat_alt unat_u8 del: of_nat_add)
  then show "k < length (utf8_enc c) \<Longrightarrow> c < 0x110000 \<Longrightarrow> 0 < k \<Longrightarrow> 0x80 \<le> utf8_enc c ! k"
    by (auto simp: utf8_enc_def less_Suc_eq nth_Cons' numeral_2_eq_2 numeral_3_eq_3 simp del: of_nat_add split: if_split_asm)
qed






text \<open>
  The converter from UTF-32 to UTF-16 does not stop at a value above 0x10FFFF as the others do: strictly
  converted, the value is left out and the source is advanced to the end; leniently it is replaced and the
  result is success.
\<close>

lemma utf32_illegal_passed:
  "ConvertUTF32toUTF16 [0x110000, 0x41] [0, 0] 2 strictConversion = Ok (sourceIllegal, 2, 1) (Some [0x41, 0])"
  "ConvertUTF32toUTF16 [0x110000, 0x41] [0, 0] 2 lenientConversion = Ok (conversionOK, 2, 2) (Some [0xFFFD, 0x41])"
  by (simp_all add: ConvertUTF32toUTF16_def surrogate_def store_def blit_def)

end
