(* ===== verification/Crt_Unicode.thy ===== *)
theory Crt_Unicode
  imports Crt_Transcode
begin

text \<open>
  The conversion functions of \<^verbatim>\<open>winpr/libwinpr/crt/unicode.c\<close> in the build without ICU, where the code page is not
  looked at. A string argument is the memory block it points to, with its terminator; \<open>None\<close> is the null
  pointer. Reading beyond the block is a \<open>Fault\<close>. The allocating wrappers return the block through a pointer
  to a pointer, which may itself be null.
\<close>

section \<open>Definitions\<close>

abbreviation (input) INT32_MAX :: nat where "INT32_MAX \<equiv> 2147483647"

definition strnlen :: "u8 list \<Rightarrow> nat \<Rightarrow> nat option" where
  "strnlen str maxlen =
     (let n = length (takeWhile (\<lambda>b. b \<noteq> 0) (take maxlen str)) in if n < length str \<or> n = maxlen then Some n else None)"

definition wcslen :: "u16 list option \<Rightarrow> nat option" where
  "wcslen str =
     (case str of None \<Rightarrow> Some 0
      | Some p \<Rightarrow> let n = length (takeWhile (\<lambda>w. w \<noteq> 0) p) in if n < length p then Some n else None)"

definition calloc :: "'a::zero alloc \<Rightarrow> nat \<Rightarrow> 'a list option" where
  "calloc al n = map_option (\<lambda>_. replicate n 0) al"

text \<open>The value that the conversion functions return for the length of a converted string.\<close>

definition conversion_status :: "conversion \<Rightarrow> int" where
  "conversion_status c = (case c of (result, _, len) \<Rightarrow> if result = conversionOK then size_to_int len else 0)"

definition MultiByteToWideChar :: "u8 list \<Rightarrow> int \<Rightarrow> u16 list option \<Rightarrow> int \<Rightarrow> (int, u16 list option) res" where
  "MultiByteToWideChar lpMultiByteStr cbMultiByte lpWideCharStr cchWideChar =
     (let convert = (\<lambda>n. if length lpMultiByteStr < n then Fault
        else if cchWideChar = 0 then
          (case ConvertUTF8toUTF16 (take n lpMultiByteStr) None strictConversion of
             Ok c _ \<Rightarrow> Ok (conversion_status c) lpWideCharStr | _ \<Rightarrow> Fault)
        else
          (case ConvertUTF8toUTF16 (take n lpMultiByteStr)
                  (Some (case lpWideCharStr of None \<Rightarrow> [] | Some buf \<Rightarrow> buf, 2 * cchWideChar)) strictConversion of
             Ok c buf \<Rightarrow> Ok (conversion_status c) (if lpWideCharStr = None then None else buf) | _ \<Rightarrow> Fault))
      in if cbMultiByte = 0 \<or> cbMultiByte < - 1 then Ok 0 lpWideCharStr
         else if cbMultiByte = - 1 then
           (case strnlen lpMultiByteStr INT32_MAX of
              None \<Rightarrow> Fault
            | Some len \<Rightarrow> if len \<ge> INT32_MAX then Ok 0 lpWideCharStr else convert (len + 1))
         else convert (nat cbMultiByte))"

definition WideCharToMultiByte :: "u16 list option \<Rightarrow> int \<Rightarrow> u8 list option \<Rightarrow> int \<Rightarrow> (int, u8 list option) res" where
  "WideCharToMultiByte lpWideCharStr cchWideChar lpMultiByteStr cbMultiByte =
     (let source = (case lpWideCharStr of None \<Rightarrow> [] | Some p \<Rightarrow> p);
          convert = (\<lambda>n. if length source < n then Fault
        else if cbMultiByte = 0 then
          (case ConvertUTF16toUTF8 (take n source) None strictConversion of
             Ok c _ \<Rightarrow> Ok (conversion_status c) lpMultiByteStr | _ \<Rightarrow> Fault)
        else
          (case ConvertUTF16toUTF8 (take n source)
                  (Some (case lpMultiByteStr of None \<Rightarrow> [] | Some buf \<Rightarrow> buf, cbMultiByte)) strictConversion of
             Ok c buf \<Rightarrow> Ok (conversion_status c) (if lpMultiByteStr = None then None else buf) | _ \<Rightarrow> Fault))
      in if cchWideChar = 0 \<or> cchWideChar < - 1 then Ok 0 lpMultiByteStr
         else if cchWideChar = - 1 then
           (case wcslen lpWideCharStr of
              None \<Rightarrow> Fault
            | Some len \<Rightarrow> if len \<ge> INT32_MAX then Ok 0 lpMultiByteStr else convert (len + 1))
         else convert (nat cchWideChar))"

definition ConvertToUnicode ::
  "u16 alloc \<Rightarrow> u8 list option \<Rightarrow> int \<Rightarrow> u16 list option option \<Rightarrow> int \<Rightarrow> (int, u16 list option option) res" where
  "ConvertToUnicode al lpMultiByteStr cbMultiByte lpWideCharStr cchWideChar =
     (case (lpMultiByteStr, lpWideCharStr) of
        (Some str, Some wide) \<Rightarrow>
          let go = (\<lambda>cb.
            case (if cchWideChar = 0 then MultiByteToWideChar str cb None 0 else Ok cchWideChar None) of
              Fault \<Rightarrow> Fault | Fail _ \<Rightarrow> Fault
            | Ok cch _ \<Rightarrow>
            let allocate = (cchWideChar = 0 \<or> wide = None) in
            if cch < 1 then Ok 0 lpWideCharStr
            else if allocate \<and> cch = INT_MAX then Fault
            else
              let wide = (if allocate then calloc al (nat (cch + 1)) else wide) in
              if wide = None then Ok 0 (Some None)
              else case MultiByteToWideChar str cb wide cch of
                Fault \<Rightarrow> Fault
              | Fail wide \<Rightarrow> Fail (Some wide)
              | Ok status wide \<Rightarrow> if status \<noteq> cch \<and> allocate then Ok 0 (Some None) else Ok status (Some wide))
          in if cbMultiByte = - 1 then
               (case strnlen str INT32_MAX of
                  None \<Rightarrow> Fault
                | Some len \<Rightarrow> if len \<ge> INT32_MAX then Ok 0 lpWideCharStr else go (int len + 1))
             else go cbMultiByte
      | _ \<Rightarrow> Ok 0 lpWideCharStr)"

definition ConvertFromUnicode ::
  "u8 alloc \<Rightarrow> u16 list option \<Rightarrow> int \<Rightarrow> u8 list option option \<Rightarrow> int \<Rightarrow> (int, u8 list option option) res" where
  "ConvertFromUnicode al lpWideCharStr cchWideChar lpMultiByteStr cbMultiByte =
     (case (lpWideCharStr, lpMultiByteStr) of
        (Some _, Some multi) \<Rightarrow>
          let go = (\<lambda>cch.
            case (if cbMultiByte = 0 then WideCharToMultiByte lpWideCharStr cch None 0 else Ok cbMultiByte None) of
              Fault \<Rightarrow> Fault | Fail _ \<Rightarrow> Fault
            | Ok cb _ \<Rightarrow>
            let allocate = (cbMultiByte = 0 \<or> multi = None) in
            if cb < 1 then Ok 0 lpMultiByteStr
            else if allocate \<and> cb = INT_MAX then Fault
            else
              let multi = (if allocate then calloc al (nat (cb + 1)) else multi) in
              if multi = None then Ok 0 (Some None)
              else case WideCharToMultiByte lpWideCharStr cch multi cb of
                Fault \<Rightarrow> Fault
              | Fail multi \<Rightarrow> Fail (Some multi)
              | Ok status multi \<Rightarrow>
                  let status = (if status \<noteq> cb \<and> allocate then 0 else status) in
                  if status \<le> 0 \<and> allocate then Ok status (Some None) else Ok status (Some multi))
          in if cchWideChar = - 1 then
               (case wcslen lpWideCharStr of None \<Rightarrow> Fault | Some len \<Rightarrow> go (size_to_int (len + 1)))
             else go cchWideChar
      | _ \<Rightarrow> Ok 0 lpMultiByteStr)"

definition byteswap_ushort :: "u16 \<Rightarrow> u16" where
  "byteswap_ushort val = (drop_bit 8 val) OR (push_bit 8 val)"

definition ByteSwapUnicode :: "u16 list \<Rightarrow> nat \<Rightarrow> u16 list option" where
  "ByteSwapUnicode wstr len = (if len \<le> length wstr then Some (map byteswap_ushort (take len wstr) @ drop len wstr) else None)"

section \<open>What they compute\<close>

lemma status_small: "n < 2 ^ 31 \<Longrightarrow> conversion_status (r, k, n) = (if r = conversionOK then int n else 0)"
  by (simp add: conversion_status_def size_to_int_small)

lemma emit_length: "Suc 0 \<le> length (emit_utf8 ch)" "length (emit_utf8 ch) \<le> 4" "Suc 0 \<le> length (emit_utf16 ch)" "length (emit_utf16 ch) \<le> 2"
  by (auto simp: emit_utf8_def utf8_size_def utf8_bytes_def emit_utf16_def utf16_pair_def)

lemma emitted_length: "length chs \<le> length (concat (map emit_utf8 chs))" "length (concat (map emit_utf8 chs)) \<le> 4 * length chs"
  "length chs \<le> length (concat (map emit_utf16 chs))" "length (concat (map emit_utf16 chs)) \<le> 2 * length chs"
proof (induction chs)
  case (Cons ch chs)
  {
    case 1 then show ?case using Cons(1) emit_length(1) [of ch] by (simp del: length_concat; linarith)
  next
    case 2 then show ?case using Cons(2) emit_length(2) [of ch] by (simp del: length_concat; linarith)
  next
    case 3 then show ?case using Cons(3) emit_length(3) [of ch] by (simp del: length_concat; linarith)
  next
    case 4 then show ?case using Cons(4) emit_length(4) [of ch] by (simp del: length_concat; linarith)
  }
qed simp_all

lemma points_Nil: "code_points utf8_next source = ([], conversionOK, k) \<Longrightarrow> source = []"
  "code_points (utf16_next strictConversion) source16 = ([], conversionOK, k) \<Longrightarrow> source16 = []"
  by (subst (asm) code_points.simps;
      auto split: if_split_asm sum.split_asm prod.split_asm dest: utf8_next_refuses [THEN notE] utf16_next_refuses [THEN notE])+

text \<open>The units of a source, or nothing when it is not well formed.\<close>

definition to_utf16 :: "u8 list \<Rightarrow> u16 list option" where
  "to_utf16 source = (case code_points utf8_next source of (chs, r, _) \<Rightarrow>
     if r = conversionOK then Some (concat (map emit_utf16 chs)) else None)"

definition to_utf8 :: "u16 list \<Rightarrow> u8 list option" where
  "to_utf8 source = (case code_points (utf16_next strictConversion) source of (chs, r, _) \<Rightarrow>
     if r = conversionOK then Some (concat (map emit_utf8 chs)) else None)"

lemma to_utf16_length: "to_utf16 source = Some u \<Longrightarrow> length u \<le> 2 * length source \<and> (source \<noteq> [] \<longrightarrow> u \<noteq> [])"
proof -
  assume u: "to_utf16 source = Some u"
  then obtain chs k where c: "code_points utf8_next source = (chs, conversionOK, k)" "u = concat (map emit_utf16 chs)"
    by (auto simp: to_utf16_def split: prod.split_asm if_split_asm)
  have "length chs \<le> length source" using utf8_utf16.points_bound [OF c(1)] by simp
  moreover have "chs \<noteq> []" if "source \<noteq> []" using that c(1) points_Nil(1) by auto
  ultimately show ?thesis unfolding c(2) using emitted_length(3,4) [of chs] by (cases "source = []") (auto simp del: concat_eq_Nil_conv simp flip: length_greater_0_conv)
qed

lemma to_utf8_length: "to_utf8 source = Some u \<Longrightarrow> length u \<le> 4 * length source \<and> (source \<noteq> [] \<longrightarrow> u \<noteq> [])"
proof -
  assume u: "to_utf8 source = Some u"
  then obtain chs k where c: "code_points (utf16_next strictConversion) source = (chs, conversionOK, k)"
    "u = concat (map emit_utf8 chs)"
    by (auto simp: to_utf8_def split: prod.split_asm if_split_asm)
  have "length chs \<le> length source" using utf16_utf8.points_bound [OF c(1)] by simp
  moreover have "chs \<noteq> []" if "source \<noteq> []" using that c(1) points_Nil(2) by auto
  ultimately show ?thesis unfolding c(2) using emitted_length(1,2) [of chs] by (cases "source = []") (auto simp del: concat_eq_Nil_conv simp flip: length_greater_0_conv)
qed

lemma multi_to_wide:
  assumes n: "0 < n" "n \<le> length str" "n < 2 ^ 30"
  shows "MultiByteToWideChar str (int n) wide 0 = Ok (case to_utf16 (take n str) of None \<Rightarrow> 0 | Some u \<Rightarrow> int (length u)) wide"
    "to_utf16 (take n str) = Some u \<Longrightarrow> length u = m \<Longrightarrow> m \<le> length buf \<Longrightarrow>
     MultiByteToWideChar str (int n) (Some buf) (int m) = Ok (int m) (Some (blit buf 0 u))"
proof -
  obtain chs r k where c: "code_points utf8_next (take n str) = (chs, r, k)" by (metis prod_cases3)
  let ?u = "concat (map emit_utf16 chs)"
  have "length chs \<le> n" using utf8_utf16.points_bound [OF c] n by simp
  then have l: "length ?u < 2 ^ 31" using emitted_length(4) [of chs] n by simp
  show "MultiByteToWideChar str (int n) wide 0 = Ok (case to_utf16 (take n str) of None \<Rightarrow> 0 | Some u \<Rightarrow> int (length u)) wide"
    using n c l by (auto simp: MultiByteToWideChar_def to_utf16_def length_pass status_small Let_def)
  assume u: "to_utf16 (take n str) = Some u" and m: "length u = m" "m \<le> length buf"
  have "u = ?u" "r = conversionOK" using u c by (auto simp: to_utf16_def split: if_split_asm)
  moreover have "0 < m" using to_utf16_length [OF u] n m by auto
  ultimately show "MultiByteToWideChar str (int n) (Some buf) (int m) = Ok (int m) (Some (blit buf 0 u))"
    using n m l room_pass(2) [OF c, of m buf strictConversion]
    by (auto simp: MultiByteToWideChar_def status_small Let_def)
qed

lemma wide_to_multi:
  assumes n: "0 < n" "n \<le> length str" "n < 2 ^ 29"
  shows "WideCharToMultiByte (Some str) (int n) multi 0 = Ok (case to_utf8 (take n str) of None \<Rightarrow> 0 | Some u \<Rightarrow> int (length u)) multi"
    "to_utf8 (take n str) = Some u \<Longrightarrow> length u = m \<Longrightarrow> m \<le> length buf \<Longrightarrow>
     WideCharToMultiByte (Some str) (int n) (Some buf) (int m) = Ok (int m) (Some (blit buf 0 u))"
proof -
  obtain chs r k where c: "code_points (utf16_next strictConversion) (take n str) = (chs, r, k)" by (metis prod_cases3)
  let ?u = "concat (map emit_utf8 chs)"
  have "length chs \<le> n" using utf16_utf8.points_bound [OF c] n by simp
  then have l: "length ?u < 2 ^ 31" using emitted_length(2) [of chs] n by simp
  show "WideCharToMultiByte (Some str) (int n) multi 0 = Ok (case to_utf8 (take n str) of None \<Rightarrow> 0 | Some u \<Rightarrow> int (length u)) multi"
    using n c l by (auto simp: WideCharToMultiByte_def to_utf8_def length_pass status_small Let_def)
  assume u: "to_utf8 (take n str) = Some u" and m: "length u = m" "m \<le> length buf"
  have "u = ?u" "r = conversionOK" using u c by (auto simp: to_utf8_def split: if_split_asm)
  moreover have "0 < m" using to_utf8_length [OF u] n m by auto
  ultimately show "WideCharToMultiByte (Some str) (int n) (Some buf) (int m) = Ok (int m) (Some (blit buf 0 u))"
    using n m l room_pass(1) [OF c, of m buf]
    by (auto simp: WideCharToMultiByte_def status_small Let_def)
qed

lemma blit_over_zeros: "length u = n \<Longrightarrow> blit (replicate (Suc n) 0) 0 u = u @ [0]"
  by (simp add: blit_def replicate_append_same [symmetric])

text \<open>The wrappers allocate one unit more than the converted string has, so that it is terminated.\<close>

lemma to_unicode_counted:
  assumes n: "0 < n" "n \<le> length str" "n < 2 ^ 30"
  shows "ConvertToUnicode (Some f) (Some str) (int n) (Some None) 0 =
    (case to_utf16 (take n str) of None \<Rightarrow> Ok 0 (Some None) | Some u \<Rightarrow> Ok (int (length u)) (Some (Some (u @ [0]))))"
proof (cases "to_utf16 (take n str)")
  case None
  with n show ?thesis by (simp add: ConvertToUnicode_def multi_to_wide(1) Let_def)
next
  case (Some u)
  let ?m = "length u"
  have l: "?m < 2 ^ 31 - 1" "0 < ?m" using to_utf16_length [OF Some] n by auto
  have b: "blit (replicate (Suc ?m) 0) 0 u = u @ [0]" by (rule blit_over_zeros) (rule refl)
  have w: "MultiByteToWideChar str (int n) (Some (replicate (Suc ?m) 0)) (int ?m) = Ok (int ?m) (Some (u @ [0]))"
    using multi_to_wide(2) [OF n Some refl, of "replicate (Suc ?m) 0"] unfolding b by simp
  have c: "calloc (Some f) (nat (int ?m + 1)) = Some (replicate (Suc ?m) (0 :: u16))" by (simp add: calloc_def nat_add_distrib)
  from n Some l w c show ?thesis
    by (auto simp: ConvertToUnicode_def multi_to_wide(1) Let_def simp del: replicate.simps)
qed

lemma from_unicode_counted:
  assumes n: "0 < n" "n \<le> length str" "n < 2 ^ 28"
  shows "ConvertFromUnicode (Some f) (Some str) (int n) (Some None) 0 =
    (case to_utf8 (take n str) of None \<Rightarrow> Ok 0 (Some None) | Some u \<Rightarrow> Ok (int (length u)) (Some (Some (u @ [0]))))"
proof (cases "to_utf8 (take n str)")
  case None
  with n show ?thesis by (simp add: ConvertFromUnicode_def wide_to_multi(1) Let_def)
next
  case (Some u)
  let ?m = "length u"
  have l: "?m < 2 ^ 31 - 1" "0 < ?m" using to_utf8_length [OF Some] n by auto
  have b: "blit (replicate (Suc ?m) 0) 0 u = u @ [0]" by (rule blit_over_zeros) (rule refl)
  have w: "WideCharToMultiByte (Some str) (int n) (Some (replicate (Suc ?m) 0)) (int ?m) = Ok (int ?m) (Some (u @ [0]))"
    using wide_to_multi(2) [OF n(1,2) _ Some refl, of "replicate (Suc ?m) 0"] n unfolding b by simp
  have c: "calloc (Some f) (nat (int ?m + 1)) = Some (replicate (Suc ?m) (0 :: u8))" by (simp add: calloc_def nat_add_distrib)
  from n Some l w c show ?thesis
    by (auto simp: ConvertFromUnicode_def wide_to_multi(1) Let_def simp del: replicate.simps)
qed

lemma strnlen_terminated: "0 \<notin> set s \<Longrightarrow> length s < m \<Longrightarrow> strnlen (s @ 0 # rest) m = Some (length s)"
proof -
  assume s: "0 \<notin> set s" "length s < m"
  then obtain k where "m = length s + Suc k" using less_imp_add_positive by (metis Suc_pred)
  then have "takeWhile (\<lambda>b. b \<noteq> 0) (take m (s @ 0 # rest)) = s" using s(1) by (auto simp: takeWhile_append)
  with s show ?thesis by (simp add: strnlen_def)
qed

lemma wcslen_terminated: "0 \<notin> set s \<Longrightarrow> wcslen (Some (s @ 0 # rest)) = Some (length s)"
  by (simp add: wcslen_def takeWhile_append)

lemma to_unicode_terminated:
  assumes "0 \<notin> set s" "length s < 2 ^ 29"
  shows "ConvertToUnicode (Some f) (Some (s @ 0 # rest)) (- 1) (Some None) 0 =
    (case to_utf16 (s @ [0]) of None \<Rightarrow> Ok 0 (Some None) | Some u \<Rightarrow> Ok (int (length u)) (Some (Some (u @ [0]))))"
proof -
  have "ConvertToUnicode (Some f) (Some (s @ 0 # rest)) (- 1) (Some None) 0 =
      ConvertToUnicode (Some f) (Some (s @ 0 # rest)) (int (Suc (length s))) (Some None) 0"
    using strnlen_terminated [of s 2147483647 rest] assms by (simp add: ConvertToUnicode_def add.commute)
  with to_unicode_counted [of "Suc (length s)" "s @ 0 # rest" f] assms show ?thesis by simp
qed

lemma from_unicode_terminated:
  assumes "0 \<notin> set s" "length s < 2 ^ 27"
  shows "ConvertFromUnicode (Some f) (Some (s @ 0 # rest)) (- 1) (Some None) 0 =
    (case to_utf8 (s @ [0]) of None \<Rightarrow> Ok 0 (Some None) | Some u \<Rightarrow> Ok (int (length u)) (Some (Some (u @ [0]))))"
proof -
  have "size_to_int (Suc (length s)) = int (Suc (length s))" using assms(2) by (intro size_to_int_small) simp
  then have "ConvertFromUnicode (Some f) (Some (s @ 0 # rest)) (- 1) (Some None) 0 =
      ConvertFromUnicode (Some f) (Some (s @ 0 # rest)) (int (Suc (length s))) (Some None) 0"
    using wcslen_terminated [of s rest] assms by (simp add: ConvertFromUnicode_def)
  with from_unicode_counted [of "Suc (length s)" "s @ 0 # rest" f] assms show ?thesis by simp
qed

lemma forms_of_text:
  assumes "\<forall>c \<in> set cs. scalar c"
  shows "to_utf16 (encoded utf8_enc cs) = Some (encoded utf16_enc cs)" "to_utf8 (encoded utf16_enc cs) = Some (encoded utf8_enc cs)"
  using utf8_utf16.points_text [OF assms] utf16_utf8.points_text [OF assms, of strictConversion] encoded_of_nat [OF assms]
  by (simp_all add: to_utf16_def to_utf8_def)

lemma enc_zero: "utf8_enc 0 = [0]" "utf16_enc 0 = [0]" "scalar 0"
  by (simp_all add: utf8_enc_def utf16_enc_def scalar_def)

lemma enc_no_zero: "c \<noteq> 0 \<Longrightarrow> c < 0x110000 \<Longrightarrow> 0 \<notin> set (utf8_enc c)" "c \<noteq> 0 \<Longrightarrow> c < 0x110000 \<Longrightarrow> 0 \<notin> set (utf16_enc c)"
proof -
  have z: "k \<noteq> 0 \<Longrightarrow> k < 256 \<Longrightarrow> (0 :: u8) \<noteq> of_nat k" "k \<noteq> 0 \<Longrightarrow> k < 65536 \<Longrightarrow> (0 :: u16) \<noteq> of_nat k" for k
    using unat_u8 [of k] unat_u16 [of k] by (metis unsigned_0)+
  show "c \<noteq> 0 \<Longrightarrow> c < 0x110000 \<Longrightarrow> 0 \<notin> set (utf8_enc c)"
    using z(1) by (auto simp: utf8_enc_def less_mult_imp_div_less simp del: of_nat_add of_nat_eq_0_iff)
  show "c \<noteq> 0 \<Longrightarrow> c < 0x110000 \<Longrightarrow> 0 \<notin> set (utf16_enc c)"
    using z(2) by (auto simp: utf16_enc_def less_mult_imp_div_less simp del: of_nat_add of_nat_eq_0_iff)
qed

lemma wrappers_text:
  assumes cs: "\<forall>c \<in> set cs. scalar c" "0 \<notin> set cs" and l: "length cs < 2 ^ 25"
  defines "s \<equiv> encoded utf8_enc cs" and "w \<equiv> encoded utf16_enc cs"
  shows "ConvertToUnicode (Some f) (Some (s @ [0])) (- 1) (Some None) 0 = Ok (int (length w) + 1) (Some (Some (w @ [0, 0])))"
    "ConvertFromUnicode (Some g) (Some (w @ [0, 0])) (- 1) (Some None) 0 = Ok (int (length s) + 1) (Some (Some (s @ [0, 0])))"
proof -
  have "0 \<notin> set (utf8_enc c) \<and> 0 \<notin> set (utf16_enc c)" if "c \<in> set cs" for c
    using that cs enc_no_zero [of c] scalar_less [of c] by (cases "c = 0") simp_all
  then have s0: "0 \<notin> set s" and w0: "0 \<notin> set w" unfolding s_def w_def by auto
  have "length s \<le> 4 * length cs" "length w \<le> 2 * length cs"
    using emitted_length(2,4) [of "map of_nat cs"] unfolding s_def w_def encoded_of_nat [OF cs(1)] length_map .
  with l have sl: "length s < 2 ^ 29" and wl: "length w < 2 ^ 27" by simp_all
  have "\<forall>c \<in> set (cs @ [0]). scalar c" using cs(1) enc_zero(3) by auto
  note forms_of_text [OF this]
  then have f: "to_utf16 (s @ [0]) = Some (w @ [0])" "to_utf8 (w @ [0]) = Some (s @ [0])"
    by (simp_all add: s_def w_def enc_zero)
  show "ConvertToUnicode (Some f) (Some (s @ [0])) (- 1) (Some None) 0 = Ok (int (length w) + 1) (Some (Some (w @ [0, 0])))"
    "ConvertFromUnicode (Some g) (Some (w @ [0, 0])) (- 1) (Some None) 0 = Ok (int (length s) + 1) (Some (Some (s @ [0, 0])))"
    using to_unicode_terminated [OF s0 sl, of f "[]"] from_unicode_terminated [OF w0 wl, of g "[0]"]
    unfolding f by simp_all
qed

section \<open>Properties\<close>

text \<open>
  C15. The round trip of the allocating wrappers: a C string that holds the UTF-8 encoding of scalar values other
  than 0 is turned by \<open>ConvertToUnicode\<close> into a fresh terminated UTF-16 string of the same values, and
  \<open>ConvertFromUnicode\<close> turns this back into a copy of the original. Both return the length with the terminator.
\<close>

theorem unicode_wrappers_roundtrip:
  assumes cs: "\<forall>c \<in> set cs. scalar c" "0 \<notin> set cs" and l: "length cs < 2 ^ 25"
  defines "s \<equiv> encoded utf8_enc cs" and "w \<equiv> encoded utf16_enc cs"
  shows "ConvertToUnicode (Some f) (Some (s @ [0])) (- 1) (Some None) 0 = Ok (int (length w) + 1) (Some (Some (w @ [0, 0]))) \<and>
    ConvertFromUnicode (Some g) (Some (w @ [0, 0])) (- 1) (Some None) 0 = Ok (int (length s) + 1) (Some (Some (s @ [0, 0])))"
  unfolding s_def w_def using wrappers_text [OF cs l] by blast

theorem unicode_wrappers_roundtrip_witness:
  "ConvertToUnicode (Some (\<lambda>_. 0)) (Some [0x70, 0xE2, 0x82, 0xAC, 0]) (- 1) (Some None) 0 = Ok 3 (Some (Some [0x70, 0x20AC, 0, 0])) \<and>
   ConvertFromUnicode (Some (\<lambda>_. 0)) (Some [0x70, 0x20AC, 0, 0]) (- 1) (Some None) 0 =
     Ok 5 (Some (Some [0x70, 0xE2, 0x82, 0xAC, 0, 0]))"
  using unicode_wrappers_roundtrip [of "[0x70, 0x20AC]" "\<lambda>_. 0" "\<lambda>_. 0"]
  by (simp add: scalar_def utf8_enc_def utf16_enc_def)

end
