(* ===== verification/Gcc_Names.thy ===== *)
theory Gcc_Names
  imports Gcc_Protocol Crt_Unicode
begin

text \<open>
  The names in the client core data with the converters of \<open>Crt_Unicode\<close>: what a server makes of the host name
  and the product id of a client.
\<close>

section \<open>The environment with the converters\<close>

text \<open>A string of the settings is a C string; code units are stored with the low byte first.\<close>

fun le_units :: "u8 list \<Rightarrow> u16 list" where
  "le_units (a # b # bs) = (ucast a + push_bit 8 (ucast b)) # le_units bs"
| "le_units _ = []"

abbreviation le_bytes :: "u16 list \<Rightarrow> u8 list" where
  "le_bytes ws \<equiv> concat (map le16 ws)"

definition utf_env :: "gcc_env \<Rightarrow> gcc_env" where
  "utf_env env = env
     \<lparr>g_ConvertToUnicode := (\<lambda>str.
        case ConvertToUnicode (Some (\<lambda>_. 0)) (map_option (\<lambda>s. s @ [0]) str) (- 1) (Some None) 0 of
          Ok n (Some (Some w)) \<Rightarrow> (nat n, le_bytes w) | _ \<Rightarrow> (0, [])),
      g_ConvertFromUnicode := (\<lambda>bs.
        case ConvertFromUnicode (Some (\<lambda>_. 0)) (Some (le_units bs)) (int (length bs div 2)) (Some None) 0 of
          Ok n (Some (Some s)) \<Rightarrow> (n, takeWhile (\<lambda>b. b \<noteq> 0) s) | Ok n _ \<Rightarrow> (n, []) | _ \<Rightarrow> (0, []))\<rparr>"

lemma le_units_bytes [simp]: "le_units (le_bytes ws) = ws"
  by (induction ws) (simp_all add: le16_def ucast_octet octets16)

lemma length_le_bytes [simp]: "length (le_bytes ws) = 2 * length ws"
  by (induction ws) simp_all

lemma le_bytes_take: "take (2 * k) (le_bytes ws) = le_bytes (take k ws)"
proof (induction ws arbitrary: k)
  case (Cons w ws)
  then show ?case by (cases k) (simp_all add: le16_def)
qed simp

lemma le_bytes_zero: "(le_bytes ws)[2 * k := 0, Suc (2 * k) := 0] = le_bytes (ws[k := 0])"
proof (induction ws arbitrary: k)
  case (Cons w ws)
  then show ?case by (cases k) (simp_all add: le16_def)
qed simp

lemma le_bytes_replicate: "replicate (2 * n) 0 = le_bytes (replicate n 0)"
  by (induction n) (simp_all add: le16_def)

text \<open>The allocated block has room for the units that are counted.\<close>

lemma multi_to_wide_length:
  assumes "0 < m" "m \<le> int (length buf)" "MultiByteToWideChar str cb (Some buf) m = Ok n (Some w)"
  shows "length w = length buf"
proof -
  have "length w' = length buf" if "ConvertUTF8toUTF16 source (Some (buf, 2 * m)) strictConversion = Ok c (Some w')" for source c w'
  proof -
    have "nat m \<le> length buf" using assms(1,2) by linarith
    from utf8_utf16.run_safe [OF le0 this, of source 0] that assms(1) show ?thesis
      by (auto simp: ConvertUTF8toUTF16_def nat_double utf8_to_utf16_transcode)
  qed
  with assms(1,3) show ?thesis
    by (auto simp: MultiByteToWideChar_def Let_def split: if_split_asm option.split_asm res.split_asm)
qed

lemma to_unicode_block:
  assumes "ConvertToUnicode (Some f) str cb (Some None) 0 = Ok n (Some (Some w))"
  shows "0 < n \<and> n < int (length w)"
proof -
  have "0 < cch \<and> n = cch \<and> length w = nat (cch + 1)"
    if "MultiByteToWideChar s b (Some (replicate (nat (cch + 1)) 0)) cch = Ok n (Some w)" "\<not> cch < 1" "n = cch" for s b cch
    using multi_to_wide_length [OF _ _ that(1)] that by simp
  then show ?thesis using assms
    by (auto simp: ConvertToUnicode_def Let_def calloc_def split: if_split_asm option.split_asm res.split_asm) 
qed

lemma utf_converts: "converts (utf_env env)"
  unfolding converts_def
proof
  fix str
  show "2 * fst (g_ConvertToUnicode (utf_env env) str) \<le> length (snd (g_ConvertToUnicode (utf_env env) str))"
    using to_unicode_block [of "\<lambda>_. 0" "map_option (\<lambda>s. s @ [0]) str" "- 1"]
    by (auto simp: utf_env_def split: res.split option.split)
qed

section \<open>Names that are cut\<close>

text \<open>A boundary of \<open>k\<close> code units that lies inside a surrogate pair of a text.\<close>

definition splits :: "nat \<Rightarrow> nat list \<Rightarrow> bool" where
  "splits k cs \<longleftrightarrow> (\<exists>as c bs. cs = as @ c # bs \<and> 0x10000 \<le> c \<and> k = Suc (length (encoded utf16_enc as)))"

lemma length_utf16_enc: "length (utf16_enc c) = (if c < 0x10000 then 1 else 2)"
  by (simp add: utf16_enc_def)

lemma take_text:
  "\<not> splits k cs \<Longrightarrow> \<exists>as bs. cs = as @ bs \<and> take k (encoded utf16_enc cs) = encoded utf16_enc as"
proof (induction cs arbitrary: k)
  case (Cons c cs)
  show ?case
  proof (cases "length (utf16_enc c) \<le> k")
    case True
    have "\<not> splits (k - length (utf16_enc c)) cs"
    proof
      assume "splits (k - length (utf16_enc c)) cs"
      then obtain as d bs where "cs = as @ d # bs" "0x10000 \<le> d" "k - length (utf16_enc c) = Suc (length (encoded utf16_enc as))"
        by (auto simp: splits_def)
      then have "splits k (c # cs)" using True
        unfolding splits_def by (intro exI [of _ "c # as"] exI [of _ d] exI [of _ bs]) simp
      with Cons.prems show False by simp
    qed
    from Cons.IH [OF this] obtain as bs where "cs = as @ bs" "take (k - length (utf16_enc c)) (encoded utf16_enc cs) = encoded utf16_enc as"
      by blast
    with True show ?thesis by (intro exI [of _ "c # as"] exI [of _ bs]) simp
  next
    case False
    then have "k = 0 \<or> k = 1 \<and> 0x10000 \<le> c" by (auto simp: length_utf16_enc split: if_split_asm)
    moreover have "\<not> (k = 1 \<and> 0x10000 \<le> c)"
      using Cons.prems unfolding splits_def by (metis (no_types) One_nat_def append_Nil concat.simps(1) list.map(1) list.size(3))
    ultimately have "k = 0" by auto
    then show ?thesis by (intro exI [of _ "[]"] exI) simp_all
  qed
qed simp

lemma take_split_text:
  assumes "splits k cs" "\<forall>c \<in> set cs. scalar c"
  obtains as h where "\<forall>c \<in> set as. scalar c" "take k (encoded utf16_enc cs) = encoded utf16_enc as @ [h]"
    "0xD800 \<le> unat h" "unat h < 0xDC00"
proof -
  obtain as c bs where c: "cs = as @ c # bs" "0x10000 \<le> c" "k = Suc (length (encoded utf16_enc as))"
    using assms(1) by (auto simp: splits_def)
  have "c < 0x110000" using assms(2) c(1) scalar_less by simp
  then have q: "(c - 0x10000) div 1024 < 1024" using c(2) by (simp add: less_mult_imp_div_less)
  let ?h = "of_nat (0xD800 + (c - 0x10000) div 1024) :: u16"
  have "unat ?h = 0xD800 + (c - 0x10000) div 1024" using q by (intro unat_u16) simp
  moreover have "take k (encoded utf16_enc cs) = encoded utf16_enc as @ [?h]"
    using c by (simp add: utf16_enc_def del: of_nat_add)
  ultimately show thesis using assms(2) c(1) q by (intro that) auto
qed

text \<open>The code units of a name in its field.\<close>

lemma name_units:
  assumes cs: "\<forall>c \<in> set cs. scalar c" "0 \<notin> set cs" and l: "length cs < 2 ^ 25" and k: "0 < k"
  defines "w \<equiv> encoded utf16_enc cs"
  shows "name_enc (utf_env env) (Some (encoded utf8_enc cs)) k =
    le_bytes (take (k - 1) w @ replicate (k - min (k - 1) (length w)) 0)"
proof -
  have "ConvertToUnicode (Some (\<lambda>_. 0)) (Some (encoded utf8_enc cs @ [0])) (- 1) (Some None) 0 =
      Ok (int (length w) + 1) (Some (Some (w @ [0, 0])))"
    unfolding w_def using cs l by (rule wrappers_text)
  then have g: "g_ConvertToUnicode (utf_env env) (Some (encoded utf8_enc cs)) = (length w + 1, le_bytes (w @ [0, 0]))"
    by (simp add: utf_env_def nat_add_distrib)
  show ?thesis
  proof (cases "k \<le> length w + 1")
    case True
    obtain j where j: "k = Suc j" using k by (cases k) auto
    have "take (2 * k) ((le_bytes (w @ [0, 0]))[2 * k - 2 := 0, 2 * k - 1 := 0]) = le_bytes (take k ((w @ [0, 0])[j := 0]))"
      using le_bytes_zero [of "w @ [0, 0]" j] le_bytes_take [of k] by (simp add: j)
    also have "take k ((w @ [0, 0])[j := 0]) = take j w @ [0]"
      using True j by (cases "j = length w") (simp_all add: list_update_append take_Suc_conv_app_nth)
    finally show ?thesis using True g j by (simp add: name_enc_def min_def)
  next
    case False
    then obtain d where d: "k = Suc (Suc (length w)) + d" using less_iff_Suc_add by (auto simp: not_le)
    have "take (2 * (length w + 1)) (le_bytes (w @ [0, 0])) = le_bytes (w @ [0])"
      unfolding le_bytes_take by simp
    with g show ?thesis
      using le_bytes_replicate [of "Suc d"] by (simp add: name_enc_def min_def d)
  qed
qed


lemma from_units:
  assumes "0 < length us" "length us < 2 ^ 28"
  shows "g_ConvertFromUnicode (utf_env env) (le_bytes us) =
    (case to_utf8 us of None \<Rightarrow> (0, []) | Some u \<Rightarrow> (int (length u), takeWhile (\<lambda>b. b \<noteq> 0) (u @ [0])))"
  using from_unicode_counted [of "length us" us "\<lambda>_. 0"] assms
  by (simp add: utf_env_def split: option.split)

lemma name_received:
  fixes env :: gcc_env
  assumes cs: "\<forall>c \<in> set cs. scalar c" "0 \<notin> set cs" and l: "length cs < 2 ^ 25" and k: "0 < k" "k < 2 ^ 28"
  defines "name \<equiv> name_enc (utf_env env) (Some (encoded utf8_enc cs)) k"
  shows "\<not> splits (k - 1) cs \<Longrightarrow> \<exists>as bs. cs = as @ bs \<and> encoded utf16_enc as = take (k - 1) (encoded utf16_enc cs) \<and>
      0 < fst (g_ConvertFromUnicode (utf_env env) name) \<and> snd (g_ConvertFromUnicode (utf_env env) name) = encoded utf8_enc as"
    "splits (k - 1) cs \<Longrightarrow> fst (g_ConvertFromUnicode (utf_env env) name) = 0"
proof -
  let ?w = "encoded utf16_enc cs"
  define n where "n = k - min (k - 1) (length ?w)"
  have n: "0 < n" "n \<le> k" using k by (auto simp: n_def)
  let ?us = "take (k - 1) ?w @ replicate n 0"
  have name: "name = le_bytes ?us" unfolding name_def n_def by (rule name_units [OF cs l k(1)])
  have us: "0 < length ?us" "length ?us < 2 ^ 28" using n k by (auto simp: n_def)
  note g = from_units [OF us, of env, folded name]
  {
    assume "\<not> splits (k - 1) cs"
    then obtain as bs where as: "cs = as @ bs" "take (k - 1) ?w = encoded utf16_enc as" using take_text by blast
    have z: "encoded utf16_enc (replicate n 0) = replicate n 0" "encoded utf8_enc (replicate n 0) = replicate n 0"
      by (induction n) (simp_all add: enc_zero)
    have "\<forall>c \<in> set (as @ replicate n 0). scalar c" using cs(1) as(1) enc_zero(3) by auto
    from forms_of_text(2) [OF this] have u: "to_utf8 ?us = Some (encoded utf8_enc as @ replicate n 0)"
      using as(2) z by simp
    have "0 \<notin> set (utf8_enc c)" if "c \<in> set as" for c
      using that cs as(1) enc_no_zero(1) [of c] scalar_less [of c] by (cases "c = 0") auto
    then have "takeWhile (\<lambda>b. b \<noteq> 0) (encoded utf8_enc as @ replicate n 0 @ [0]) = encoded utf8_enc as"
      using n by (subst takeWhile_append2) (auto simp: gr0_conv_Suc)
    with g u n as show "\<exists>as bs. cs = as @ bs \<and> encoded utf16_enc as = take (k - 1) ?w \<and>
      0 < fst (g_ConvertFromUnicode (utf_env env) name) \<and> snd (g_ConvertFromUnicode (utf_env env) name) = encoded utf8_enc as"
      by (intro exI [of _ as] exI [of _ bs]) simp
  next
    assume "splits (k - 1) cs"
    then obtain as h where as: "\<forall>c \<in> set as. scalar c" "take (k - 1) ?w = encoded utf16_enc as @ [h]"
      "0xD800 \<le> unat h" "unat h < 0xDC00" using cs(1) by (rule take_split_text)
    have "utf16_next strictConversion (h # replicate n 0) = Inl sourceIllegal"
      using as(3,4) n by (cases n) (auto simp: utf16_next_def Let_def word_nat_order wide)
    then have "code_points (utf16_next strictConversion) (h # replicate n 0) = ([], sourceIllegal, 0)"
      by (simp add: code_points.simps)
    from utf16_utf8.points_prefix [OF as(1) this] have "to_utf8 (encoded utf16_enc as @ h # replicate n 0) = None"
      by (simp add: to_utf8_def)
    moreover have "?us = encoded utf16_enc as @ h # replicate n 0" unfolding as(2) by simp
    ultimately have "to_utf8 ?us = None" by (simp only:)
    with g show "fst (g_ConvertFromUnicode (utf_env env) name) = 0" by simp
  }
qed


lemma core_refused:
  assumes c: "converts env" and s: "readable s" and r: "remaining s = core_enc env st @ rest"
    and name: "fst (g_ConvertFromUnicode env (name_enc env (ClientHostname st) 16)) = 0"
  shows "\<exists>m' t. gcc_read_client_core_data env m s 230 = Fail (m', t)"
proof -
  have len: "length (remaining s) \<ge> 230" using r length_core_enc [OF c] by simp
  show ?thesis
    using len s name
    apply (simp add: gcc_read_client_core_data_def block_run Let_def read_unicode_def)
    apply (simp add: block_vals)
    apply (simp add: r core_enc_def c)
    done
qed

section \<open>Properties\<close>

text \<open>
  C16. Host names. The client announces its host name in a field of 16 UTF-16 code units, of which the last
  is zero; \<open>core_enc\<close> is the data it writes. When the cut at 15 units does not fall into a surrogate pair (and the same holds for the product
  id), the server accepts the client core data and then holds the characters of the name that fit. When it does, the
  conversion at the server refuses the half pair and the server rejects the client.
\<close>

theorem client_name_exchange:
  assumes cs: "\<forall>c \<in> set cs. scalar c" "0 \<notin> set cs" "length cs < 2 ^ 25" "ClientHostname st = Some (encoded utf8_enc cs)"
    and ps: "\<forall>c \<in> set ps. scalar c" "0 \<notin> set ps" "length ps < 2 ^ 25" "ClientProductId st = Some (encoded utf8_enc ps)"
      "\<not> splits 31 ps"
    and p: "SelectedProtocol st = SelectedProtocol (mcs_settings m)"
    and s: "readable s" "remaining s = core_enc (utf_env env) st @ rest"
  shows "emits () (block_enc CS_CORE (core_enc (utf_env env) st)) (gcc_write_client_core_data (utf_env env) (client\<lparr>mcs_settings := st\<rparr>)) \<and>
    (\<not> splits 15 cs \<longrightarrow> (\<exists>as bs m'. gcc_read_client_core_data (utf_env env) m s 230 = Ok () (m', skip 230 s) \<and>
      ClientHostname (mcs_settings m') = Some (encoded utf8_enc as) \<and> cs = as @ bs \<and>
      encoded utf16_enc as = take 15 (encoded utf16_enc cs))) \<and>
    (splits 15 cs \<longrightarrow> (\<exists>m' t. gcc_read_client_core_data (utf_env env) m s 230 = Fail (m', t)))"
proof (intro conjI impI)
  show "emits () (block_enc CS_CORE (core_enc (utf_env env) st)) (gcc_write_client_core_data (utf_env env) (client\<lparr>mcs_settings := st\<rparr>))"
    using emits_client_core [OF utf_converts, of env "client\<lparr>mcs_settings := st\<rparr>"] by simp
  have k: "(0::nat) < 16" "(16::nat) < 2 ^ 28" "(0::nat) < 32" "(32::nat) < 2 ^ 28" "(16::nat) - 1 = 15" "(32::nat) - 1 = 31" by simp_all
  note host = name_received [OF cs(1-3) k(1,2), of env, unfolded k(5)] and id = name_received [OF ps(1-3) k(3,4), of env, unfolded k(6)]
  show "\<exists>as bs m'. gcc_read_client_core_data (utf_env env) m s 230 = Ok () (m', skip 230 s) \<and>
      ClientHostname (mcs_settings m') = Some (encoded utf8_enc as) \<and> cs = as @ bs \<and>
      encoded utf16_enc as = take 15 (encoded utf16_enc cs)" if whole: "\<not> splits 15 cs"
  proof -
    obtain as bs where as: "cs = as @ bs" "encoded utf16_enc as = take 15 (encoded utf16_enc cs)"
      "0 < fst (g_ConvertFromUnicode (utf_env env) (name_enc (utf_env env) (ClientHostname st) 16))"
      "snd (g_ConvertFromUnicode (utf_env env) (name_enc (utf_env env) (ClientHostname st) 16)) = encoded utf8_enc as"
      using host(1) [OF whole] unfolding cs(4) by blast
    have "0 < fst (g_ConvertFromUnicode (utf_env env) (name_enc (utf_env env) (ClientProductId st) 32))"
      using id(1) [OF ps(5)] unfolding ps(4) by blast
    from core_body_read [OF utf_converts s p as(3) this]
    show ?thesis using as
      by (intro exI [of _ as] exI [of _ bs] exI [of _ "with_settings (core_taken (utf_env env) st) m"])
        (simp add: with_settings_def core_taken_def)
  qed
  show "\<exists>m' t. gcc_read_client_core_data (utf_env env) m s 230 = Fail (m', t)" if "splits 15 cs"
    using host(2) [OF that] by (intro core_refused [OF utf_converts s]) (simp only: cs(4))
qed

text \<open>Fourteen letters and one character outside the basic plane, against a name of one letter.\<close>

definition named_settings :: "nat list \<Rightarrow> rdpSettings" where
  "named_settings cs = zero_settings\<lparr>ClientHostname := Some (encoded utf8_enc cs), ClientProductId := Some (encoded utf8_enc [49])\<rparr>"

lemma named_fields:
  "ClientHostname (named_settings cs) = Some (encoded utf8_enc cs)" "ClientProductId (named_settings cs) = Some (encoded utf8_enc [49])"
  "SelectedProtocol (named_settings cs) = SelectedProtocol (mcs_settings sample_mcs)"
  by (simp_all add: named_settings_def sample_mcs_def mcs_new_def zero_settings_def)

lemma named_split:
  "splits 15 (replicate 14 97 @ [0x1F600])" "\<not> splits 15 [97]" "\<not> splits 31 [49]"
proof -
  have "encoded utf16_enc (replicate n 97) = replicate n 97" for n by (induction n) (simp_all add: utf16_enc_def)
  then have l: "15 = Suc (length (encoded utf16_enc (replicate 14 97)))" by (simp only: length_replicate)
  show "splits 15 (replicate 14 97 @ [0x1F600])"
    unfolding splits_def using l by (intro exI [of _ "replicate 14 97"] exI [of _ "0x1F600"] exI [of _ "[]"] conjI) simp_all
  show "\<not> splits 15 [97]" "\<not> splits 31 [49]" by (simp_all add: splits_def Cons_eq_append_conv)
qed

theorem client_name_exchange_witness:
  "(\<exists>m' t. gcc_read_client_core_data (utf_env ascii_env) sample_mcs
      (received (core_enc (utf_env ascii_env) (named_settings (replicate 14 97 @ [0x1F600])))) 230 = Fail (m', t)) \<and>
   (\<exists>m' t. gcc_read_client_core_data (utf_env ascii_env) sample_mcs
      (received (core_enc (utf_env ascii_env) (named_settings [97]))) 230 = Ok () (m', t) \<and>
      ClientHostname (mcs_settings m') = Some [97])"
proof
  have s: "readable (received (core_enc (utf_env ascii_env) st))"
    "remaining (received (core_enc (utf_env ascii_env) st)) = core_enc (utf_env ascii_env) st @ []" for st
    using length_core_enc [OF utf_converts, of ascii_env st]
    by (intro received_readable, simp) (simp only: remaining_received append_Nil2)
  have ps: "\<forall>c \<in> set [49]. scalar c" "0 \<notin> set [49 :: nat]" "length [49 :: nat] < 2 ^ 25" by (simp_all add: scalar_def)
  have b: "\<forall>c \<in> set (replicate 14 97 @ [0x1F600]). scalar c" "0 \<notin> set (replicate 14 97 @ [0x1F600 :: nat])"
    "length (replicate 14 97 @ [0x1F600 :: nat]) < 2 ^ 25" by (simp_all add: scalar_def)
  show "\<exists>m' t. gcc_read_client_core_data (utf_env ascii_env) sample_mcs
      (received (core_enc (utf_env ascii_env) (named_settings (replicate 14 97 @ [0x1F600])))) 230 = Fail (m', t)"
    using client_name_exchange [OF b named_fields(1) ps named_fields(2) named_split(3) named_fields(3) s, THEN conjunct2, THEN conjunct2]
      named_split(1) by (rule mp)
  have a: "\<forall>c \<in> set [97]. scalar c" "0 \<notin> set [97 :: nat]" "length [97 :: nat] < 2 ^ 25" by (simp_all add: scalar_def)
  obtain as bs m' where n: "gcc_read_client_core_data (utf_env ascii_env) sample_mcs
      (received (core_enc (utf_env ascii_env) (named_settings [97]))) 230 =
      Ok () (m', skip 230 (received (core_enc (utf_env ascii_env) (named_settings [97]))))"
    "ClientHostname (mcs_settings m') = Some (encoded utf8_enc as)" "[97] = as @ bs"
    "encoded utf16_enc as = take 15 (encoded utf16_enc [97])"
    using client_name_exchange [OF a named_fields(1) ps named_fields(2) named_split(3) named_fields(3) s, THEN conjunct2, THEN conjunct1]
      named_split(2) by blast
  from n(3,4) have "as = [97]" by (cases as) (auto simp: utf16_enc_def)
  then have "encoded utf8_enc as = [97]" by (simp add: utf8_enc_def)
  with n show "\<exists>m' t. gcc_read_client_core_data (utf_env ascii_env) sample_mcs
      (received (core_enc (utf_env ascii_env) (named_settings [97]))) 230 = Ok () (m', t) \<and>
      ClientHostname (mcs_settings m') = Some [97]" by metis
qed

end
