(* ===== verification/WinPR_BitStream.thy ===== *)
theory WinPR_BitStream
  imports Rdp_Prelude
begin

text \<open>
  The bit stream of \<^verbatim>\<open>winpr/bitstream.h\<close> and \<^verbatim>\<open>utils/collections/BitStream.c\<close>, most significant bit first. A reader
  holds the next 32 bits in the accumulator and the rest of the next word in the prefetch register; a writer
  collects bits in the accumulator and flushes whole words. \<open>bs_pointer\<close> is the distance of the
  pointer from the buffer. The lemmas relate both to the sequence of bits of the buffer.
\<close>

section \<open>Definitions\<close>

record wBitStream =
  bs_buffer :: "u8 list"
  bs_pointer :: nat
  bs_position :: u32
  bs_length :: u32
  bs_capacity :: u32
  bs_mask :: u32
  bs_offset :: u32
  bs_prefetch :: u32
  bs_accumulator :: u32

text \<open>
  One guarded access of the fetch and flush functions: nothing happens behind the capacity, and an access that the
  guard lets through must lie in the buffer.
\<close>

definition bs_guard :: "wBitStream \<Rightarrow> nat \<Rightarrow> bool" where
  "bs_guard bs k \<longleftrightarrow> of_nat (bs_pointer bs) + of_nat k < bs_capacity bs"

definition bs_load :: "wBitStream \<Rightarrow> nat \<Rightarrow> u8 option" where
  "bs_load bs k =
     (if \<not> bs_guard bs k then Some 0
      else if bs_pointer bs + k < length (bs_buffer bs) then Some (bs_buffer bs ! (bs_pointer bs + k)) else None)"

definition bs_store :: "nat \<Rightarrow> u32 \<Rightarrow> wBitStream \<Rightarrow> (unit, wBitStream) res" where
  "bs_store k v bs =
     (if \<not> bs_guard bs k then Ok () bs
      else if bs_pointer bs + k < length (bs_buffer bs)
      then Ok () (bs\<lparr>bs_buffer := (bs_buffer bs)[bs_pointer bs + k := ucast v]\<rparr>) else Fault)"

definition bs_word :: "wBitStream \<Rightarrow> nat \<Rightarrow> u32 option" where
  "bs_word bs k =
     (case (bs_load bs k, bs_load bs (k + 1), bs_load bs (k + 2), bs_load bs (k + 3)) of
        (Some a, Some b, Some c, Some d) \<Rightarrow>
          Some (push_bit 24 (ucast a) OR push_bit 16 (ucast b) OR push_bit 8 (ucast c) OR ucast d)
      | _ \<Rightarrow> None)"

definition BitStream_Prefetch :: "wBitStream \<Rightarrow> (unit, wBitStream) res" where
  "BitStream_Prefetch bs = (case bs_word bs 4 of None \<Rightarrow> Fault | Some w \<Rightarrow> Ok () (bs\<lparr>bs_prefetch := w\<rparr>))"

definition BitStream_Fetch :: "wBitStream \<Rightarrow> (unit, wBitStream) res" where
  "BitStream_Fetch bs =
     (case bs_word bs 0 of None \<Rightarrow> Fault | Some w \<Rightarrow> BitStream_Prefetch (bs\<lparr>bs_accumulator := w\<rparr>))"

definition BitStream_Flush :: "wBitStream \<Rightarrow> (unit, wBitStream) res" where
  "BitStream_Flush bs =
     (let acc = bs_accumulator bs in
      and_then (bs_store 0 (drop_bit 24 acc) bs) (\<lambda>_ bs.
      and_then (bs_store 1 (drop_bit 16 acc) bs) (\<lambda>_ bs.
      and_then (bs_store 2 (drop_bit 8 acc) bs) (\<lambda>_ bs.
      bs_store 3 acc bs))))"

definition BitStream_Shift :: "wBitStream \<Rightarrow> u32 \<Rightarrow> (unit, wBitStream) res" where
  "BitStream_Shift bs nbits =
     (if nbits = 0 then Ok () bs
      else if nbits < 32 then
        let n = unat nbits;
            mask = push_bit n 1 - 1;
            bs = bs\<lparr>bs_accumulator := push_bit n (bs_accumulator bs), bs_position := bs_position bs + nbits,
                    bs_offset := bs_offset bs + nbits, bs_mask := mask\<rparr>;
            bs = bs\<lparr>bs_accumulator := bs_accumulator bs OR (drop_bit (32 - n) (bs_prefetch bs) AND mask),
                    bs_prefetch := push_bit n (bs_prefetch bs)\<rparr>
        in if bs_offset bs < 32 then Ok () bs
           else and_then (BitStream_Prefetch (bs\<lparr>bs_offset := bs_offset bs - 32, bs_pointer := bs_pointer bs + 4\<rparr>)) (\<lambda>_ bs.
             let k = unat (bs_offset bs); mask = push_bit k 1 - 1 in
             if bs_offset bs = 0 then Ok () bs
             else if 32 < k then Fault
             else Ok () (bs\<lparr>bs_mask := mask,
                    bs_accumulator := bs_accumulator bs OR (drop_bit (32 - k) (bs_prefetch bs) AND mask),
                    bs_prefetch := push_bit k (bs_prefetch bs)\<rparr>))
      else Ok () bs)"

definition BitStream_Shift32 :: "wBitStream \<Rightarrow> (unit, wBitStream) res" where
  "BitStream_Shift32 bs = and_then (BitStream_Shift bs 16) (\<lambda>_ bs. BitStream_Shift bs 16)"

text \<open>A shift by 32 or more, and of the signed constant 1 by 31, is undefined.\<close>

definition BitStream_Write_Bits :: "wBitStream \<Rightarrow> u32 \<Rightarrow> u32 \<Rightarrow> (unit, wBitStream) res" where
  "BitStream_Write_Bits bs bits nbits =
     (let bs = bs\<lparr>bs_position := bs_position bs + nbits, bs_offset := bs_offset bs + nbits\<rparr> in
      if bs_offset bs < 32 then
        (if bs_offset bs = 0 then Fault
         else Ok () (bs\<lparr>bs_accumulator := bs_accumulator bs OR push_bit (32 - unat (bs_offset bs)) bits\<rparr>))
      else
        let bs = bs\<lparr>bs_offset := bs_offset bs - 32\<rparr>;
            k = unat (bs_offset bs);
            mask = push_bit (unat (nbits - bs_offset bs)) 1 - 1
        in if k > 31 \<or> unat (nbits - bs_offset bs) \<ge> 31 then Fault
           else and_then (BitStream_Flush (bs\<lparr>bs_mask := mask,
                    bs_accumulator := bs_accumulator bs OR (drop_bit k bits AND mask)\<rparr>)) (\<lambda>_ bs.
             let bs = bs\<lparr>bs_accumulator := 0, bs_pointer := bs_pointer bs + 4\<rparr> in
             if bs_offset bs = 0 then Ok () bs
             else let mask = push_bit k 1 - 1 in
               Ok () (bs\<lparr>bs_mask := mask, bs_accumulator := bs_accumulator bs OR push_bit (32 - k) (bits AND mask)\<rparr>)))"

definition BitStream_GetRemainingLength :: "wBitStream \<Rightarrow> u32" where
  "BitStream_GetRemainingLength bs = bs_length bs - bs_position bs"

definition BitStream_Attach :: "wBitStream \<Rightarrow> u8 list \<Rightarrow> u32 \<Rightarrow> wBitStream" where
  "BitStream_Attach bs buffer capacity =
     bs\<lparr>bs_position := 0, bs_buffer := buffer, bs_offset := 0, bs_accumulator := 0, bs_pointer := 0,
        bs_capacity := capacity, bs_length := capacity * 8\<rparr>"

definition BitStream_New :: "unit alloc \<Rightarrow> wBitStream option" where
  "BitStream_New al = map_option (\<lambda>_. \<lparr>bs_buffer = [], bs_pointer = 0, bs_position = 0, bs_length = 0, bs_capacity = 0,
     bs_mask = 0, bs_offset = 0, bs_prefetch = 0, bs_accumulator = 0\<rparr>) al"

text \<open>The loop runs before its condition is tested, so that no bits count as \<open>2 ^ 32\<close>.\<close>

primrec reverse_loop :: "nat \<Rightarrow> u32 \<Rightarrow> u32 \<Rightarrow> u32" where
  "reverse_loop 0 bits rbits = rbits"
| "reverse_loop (Suc n) bits rbits = reverse_loop n (drop_bit 1 bits) (push_bit 1 (rbits OR (bits AND 1)))"

definition ReverseBits32 :: "u32 \<Rightarrow> u32 \<Rightarrow> u32" where
  "ReverseBits32 bits nbits = drop_bit 1 (reverse_loop (if nbits = 0 then 2 ^ 32 else unat nbits) bits 0)"

section \<open>Bits of a buffer\<close>

text \<open>The bits in the order of the stream, and zeros behind them.\<close>

definition bit_of :: "u8 list \<Rightarrow> nat \<Rightarrow> bool" where
  "bit_of bytes k \<longleftrightarrow> k < 8 * length bytes \<and> bit (bytes ! (k div 8)) (7 - k mod 8)"

lemma unat_less: "unat (of_nat n :: u32) = n" if "n < 2 ^ 32"
  using that by (simp add: unsigned_of_nat take_bit_nat_eq_self)

lemma of_nat_less32: "of_nat m < (of_nat n :: u32) \<longleftrightarrow> m < n" if "m < 2 ^ 32" "n < 2 ^ 32"
  using that by (simp add: word_less_nat_alt unat_less)

lemma bit_of_at:
  assumes "i < 8"
  shows "bit_of bytes (8 * q + 7 - i) \<longleftrightarrow> q < length bytes \<and> bit (bytes ! q) i"
proof -
  have e: "8 * q + 7 - i = 8 * q + (7 - i)" using assms by simp
  have "8 * q + 7 - i < 8 * length bytes \<longleftrightarrow> q < length bytes" using assms by auto
  moreover have "(8 * q + 7 - i) div 8 = q" "7 - (8 * q + 7 - i) mod 8 = i"
    unfolding e mod_mult_self4 using assms by simp_all
  ultimately show ?thesis unfolding bit_of_def by simp
qed

text \<open>A word fetched from the buffer.\<close>

lemma bs_word_bits:
  assumes c: "bs_capacity bs = of_nat (length (bs_buffer bs))" "length (bs_buffer bs) < 2 ^ 32" "bs_pointer bs + k + 3 < 2 ^ 32"
  obtains w where "bs_word bs k = Some w" "\<And>i m. i < 32 \<Longrightarrow> i + m = 8 * (bs_pointer bs + k) + 31 \<Longrightarrow> bit w i = bit_of (bs_buffer bs) m"
proof -
  define b where "b j = (if bs_pointer bs + k + j < length (bs_buffer bs) then bs_buffer bs ! (bs_pointer bs + k + j) else 0)" for j
  have g: "bs_guard bs (k + j) \<longleftrightarrow> bs_pointer bs + k + j < length (bs_buffer bs)" if "j \<le> 3" for j
    using of_nat_less32 [of "bs_pointer bs + k + j" "length (bs_buffer bs)"] that c
    by (simp add: bs_guard_def add.assoc)
  have l: "bs_load bs (k + j) = Some (b j)" if "j \<le> 3" for j
    using that g [OF that] by (auto simp: bs_load_def b_def add.assoc)
  have bb: "bit (b j) i = bit_of (bs_buffer bs) m" if "i < 8" "i + m = 8 * (bs_pointer bs + k + j) + 7" for j i m
  proof -
    have "m = 8 * (bs_pointer bs + k + j) + 7 - i" using that by simp
    then show ?thesis unfolding b_def by (simp only: bit_of_at [OF that(1)]) simp
  qed
  let ?w = "push_bit 24 (ucast (b 0)) OR push_bit 16 (ucast (b 1)) OR push_bit 8 (ucast (b 2)) OR ucast (b 3) :: u32"
  show thesis
  proof (rule that [of ?w])
    show "bs_word bs k = Some ?w" using l [of 0] l [of 1] l [of 2] l [of 3] by (simp add: bs_word_def)
    show "bit ?w i = bit_of (bs_buffer bs) m" if "i < 32" "i + m = 8 * (bs_pointer bs + k) + 31" for i m
    proof -
      have hi: "\<not> bit (b j) n" if "8 \<le> n" for j n using that bit_imp_le_length [of "b j" n] by (auto simp: not_le)
      consider "24 \<le> i" | "16 \<le> i" "i < 24" | "8 \<le> i" "i < 16" | "i < 8" by linarith
      then show ?thesis
      proof cases
        case 1
        then have "bit ?w i = bit (b 0) (i - 24)" using that hi by (auto simp: bit_simps)
        with 1 that bb [of "i - 24" m 0] show ?thesis by simp
      next
        case 2
        then have "bit ?w i = bit (b 1) (i - 16)" using that hi by (auto simp: bit_simps)
        with 2 that bb [of "i - 16" m 1] show ?thesis by simp
      next
        case 3
        then have "bit ?w i = bit (b 2) (i - 8)" using that hi by (auto simp: bit_simps)
        with 3 that bb [of "i - 8" m 2] show ?thesis by simp
      next
        case 4
        then have "bit ?w i = bit (b 3) i" using that hi by (auto simp: bit_simps)
        with 4 that bb [of i m 3] show ?thesis by simp
      qed
    qed
  qed
qed

section \<open>Reading\<close>

text \<open>The state of a reader that has consumed \<open>p\<close> bits.\<close>

definition reader_at :: "wBitStream \<Rightarrow> u8 list \<Rightarrow> nat \<Rightarrow> bool" where
  "reader_at bs bytes p \<longleftrightarrow>
     bs_buffer bs = bytes \<and> bs_capacity bs = of_nat (length bytes) \<and> bs_length bs = of_nat (8 * length bytes) \<and>
     length bytes < 2 ^ 29 \<and> bs_position bs = of_nat p \<and> bs_offset bs = of_nat (p mod 32) \<and> bs_pointer bs = 4 * (p div 32) \<and>
     (\<forall>i<32. bit (bs_accumulator bs) i = bit_of bytes (p + 31 - i)) \<and>
     (\<forall>i<32. bit (bs_prefetch bs) i = (p mod 32 \<le> i \<and> bit_of bytes (p + 63 - i)))"

lemma reader_attached:
  assumes "length bytes < 2 ^ 29"
  shows "\<exists>bs'. BitStream_Fetch (BitStream_Attach bs bytes (of_nat (length bytes))) = Ok () bs' \<and> reader_at bs' bytes 0"
proof -
  let ?bs = "BitStream_Attach bs bytes (of_nat (length bytes))"
  obtain a where a: "bs_word ?bs 0 = Some a" "\<And>i m. i < 32 \<Longrightarrow> i + m = 31 \<Longrightarrow> bit a i = bit_of bytes m"
    using assms by (rule_tac bs_word_bits [of ?bs 0]) (auto simp: BitStream_Attach_def)
  obtain b where b: "bs_word (?bs\<lparr>bs_accumulator := a\<rparr>) 4 = Some b" "\<And>i m. i < 32 \<Longrightarrow> i + m = 63 \<Longrightarrow> bit b i = bit_of bytes m"
    using assms by (rule_tac bs_word_bits [of "?bs\<lparr>bs_accumulator := a\<rparr>" 4]) (auto simp: BitStream_Attach_def)
  show ?thesis
    using a b assms by (auto simp: BitStream_Fetch_def BitStream_Prefetch_def reader_at_def BitStream_Attach_def)
qed

lemma bit_mask_shift: "n < 32 \<Longrightarrow> bit (push_bit n 1 - 1 :: u32) i \<longleftrightarrow> i < n"
proof -
  assume n: "n < 32"
  have "push_bit n 1 - 1 = (mask n :: u32)" by (simp add: mask_eq_exp_minus_1)
  then show ?thesis using n by (auto simp: bit_mask_iff)
qed

text \<open>The accumulator after a shift, before the prefetch register is refilled.\<close>

lemma shifted_bits:
  assumes "0 < n" "n < 32" "i < 32"
  shows "bit (push_bit n (a :: u32) OR (drop_bit (32 - n) p AND (push_bit n 1 - 1))) i = (if n \<le> i then bit a (i - n) else bit p (32 - n + i))"
  using assms by (auto simp: bit_simps bit_mask_shift simp del: push_bit_of_1)

lemma word_offset:
  fixes p n :: nat
  assumes "n < 32"
  shows "p mod 32 + n < 32 \<Longrightarrow> (p + n) mod 32 = p mod 32 + n" "p mod 32 + n < 32 \<Longrightarrow> (p + n) div 32 = p div 32"
    "\<not> p mod 32 + n < 32 \<Longrightarrow> (p + n) mod 32 = p mod 32 + n - 32" "\<not> p mod 32 + n < 32 \<Longrightarrow> (p + n) div 32 = p div 32 + 1"
proof -
  define q r where "q = p div 32" and "r = p mod 32"
  have p: "p = 32 * q + r" and r: "r < 32" by (simp_all add: q_def r_def)
  have e: "(p + n) mod 32 = (r + n) mod 32" "(p + n) div 32 = q + (r + n) div 32"
    unfolding p add.assoc by simp_all
  have f: "(r + n) mod 32 = r + n - 32" "(r + n) div 32 = 1" if "\<not> r + n < 32"
    using that r assms by (simp_all add: le_mod_geq le_div_geq)
  show "(p + n) mod 32 = p mod 32 + n" "(p + n) div 32 = p div 32" if "p mod 32 + n < 32"
    using e that unfolding r_def [symmetric] q_def [symmetric] by simp_all
  show "(p + n) mod 32 = p mod 32 + n - 32" "(p + n) div 32 = p div 32 + 1" if "\<not> p mod 32 + n < 32"
    using e f that unfolding r_def [symmetric] q_def [symmetric] by simp_all
qed

lemma reader_moved:
  assumes "reader_at bs bytes p" "bs_buffer bs' = bs_buffer bs" "bs_capacity bs' = bs_capacity bs" "bs_length bs' = bs_length bs"
    "bs_position bs' = of_nat q" "bs_offset bs' = of_nat (q mod 32)" "bs_pointer bs' = 4 * (q div 32)"
    "\<And>i. i < 32 \<Longrightarrow> bit (bs_accumulator bs') i = bit_of bytes (q + 31 - i)"
    "\<And>i. i < 32 \<Longrightarrow> bit (bs_prefetch bs') i = (q mod 32 \<le> i \<and> bit_of bytes (q + 63 - i))"
  shows "reader_at bs' bytes q"
  using assms unfolding reader_at_def by simp

lemma reader_shift:
  assumes r: "reader_at bs bytes p" and n: "0 < n" "n < 32" and p: "p < 2 ^ 31"
  shows "\<exists>bs'. BitStream_Shift bs (of_nat n) = Ok () bs' \<and> reader_at bs' bytes (p + n)"
proof -
  let ?o = "p mod 32"
  have un: "unat (of_nat n :: u32) = n" "(of_nat n :: u32) \<noteq> 0" "(of_nat n :: u32) < 32"
    using n unat_less [of n] by (simp_all add: word_less_nat_alt) (metis unat_0 gr_implies_not0)
  define acc where "acc = push_bit n (bs_accumulator bs) OR (drop_bit (32 - n) (bs_prefetch bs) AND (push_bit n 1 - 1))"
  define pre where "pre = push_bit n (bs_prefetch bs)"
  have ra: "bit (bs_accumulator bs) i = bit_of bytes j" if "i < 32" "i + j = p + 31" for i j
  proof -
    have "j = p + 31 - i" using that by simp
    then show ?thesis using r that(1) by (simp add: reader_at_def)
  qed
  have rp: "bit (bs_prefetch bs) i = (?o \<le> i \<and> bit_of bytes j)" if "i < 32" "i + j = p + 63" for i j
  proof -
    have "j = p + 63 - i" using that by simp
    then show ?thesis using r that(1) by (simp add: reader_at_def)
  qed
  have acc: "bit acc i = ((n \<le> i \<or> ?o + n \<le> 32 + i) \<and> bit_of bytes (p + n + 31 - i))" if "i < 32" for i
    using shifted_bits [OF n that, of "bs_accumulator bs" "bs_prefetch bs"] that n
      ra [of "i - n" "p + n + 31 - i"] rp [of "32 - n + i" "p + n + 31 - i"]
    unfolding acc_def by (cases "n \<le> i") auto
  have pre: "bit pre i = (?o + n \<le> i \<and> bit_of bytes (p + n + 63 - i))" if "i < 32" for i
    using that n rp [of "i - n" "p + n + 63 - i"] by (cases "n \<le> i") (auto simp: pre_def bit_simps)
  define bs1 where "bs1 = bs\<lparr>bs_position := of_nat (p + n), bs_offset := of_nat (?o + n), bs_mask := push_bit n 1 - 1, bs_accumulator := acc, bs_prefetch := pre\<rparr>"
  have off: "bs_offset bs + of_nat n = of_nat (?o + n)" "bs_position bs + of_nat n = of_nat (p + n)"
      "(of_nat (?o + n) :: u32) < 32 \<longleftrightarrow> ?o + n < 32"
    using r n of_nat_less32 [of "?o + n" 32] by (simp_all add: reader_at_def)
  have start: "BitStream_Shift bs (of_nat n) = (if ?o + n < 32 then Ok () bs1
    else and_then (BitStream_Prefetch (bs1\<lparr>bs_offset := bs_offset bs1 - 32, bs_pointer := bs_pointer bs1 + 4\<rparr>)) (\<lambda>_ bs.
             let k = unat (bs_offset bs); mask = push_bit k 1 - 1 in
             if bs_offset bs = 0 then Ok () bs
             else if 32 < k then Fault
             else Ok () (bs\<lparr>bs_mask := mask,
                    bs_accumulator := bs_accumulator bs OR (drop_bit (32 - k) (bs_prefetch bs) AND mask),
                    bs_prefetch := push_bit k (bs_prefetch bs)\<rparr>)))"
    unfolding BitStream_Shift_def Let_def bs1_def acc_def pre_def using un off by (simp del: of_nat_add push_bit_of_1)
  show ?thesis
  proof (cases "?o + n < 32")
    case True
    note pn = word_offset(1,2) [OF n(2) True]
    have "reader_at bs1 bytes (p + n)"
      using r acc pre True n unfolding bs1_def by (intro reader_moved [OF r]) (simp_all add: pn reader_at_def)
    with True start show ?thesis by simp
  next
    case False
    define k where "k = ?o + n - 32"
    have pn: "(p + n) mod 32 = k" "(p + n) div 32 = p div 32 + 1" "k < 32" "p + n = 32 * (p div 32 + 1) + k"
      using False n word_offset(3,4) [OF n(2) False] div_mult_mod_eq [of p 32] unfolding k_def by auto
    define bs2 where "bs2 = bs1\<lparr>bs_offset := of_nat k, bs_pointer := bs_pointer bs + 4\<rparr>"
    have of_k: "of_nat (?o + n) - 32 = (of_nat k :: u32)" using False by (simp add: k_def of_nat_diff)
    have b2: "bs_buffer bs2 = bytes" "bs_pointer bs2 = 4 * (p div 32) + 4" "bs_capacity bs2 = of_nat (length bytes)" "length bytes < 2 ^ 29"
      using r by (auto simp: bs2_def bs1_def reader_at_def)
    obtain w where w: "bs_word bs2 4 = Some w" "\<And>i m. i < 32 \<Longrightarrow> i + m = 8 * (4 * (p div 32) + 4 + 4) + 31 \<Longrightarrow> bit w i = bit_of bytes m"
      using b2 p by (rule_tac bs_word_bits [of bs2 4]) auto
    have wb: "bit w i = bit_of bytes m" if "i < 32" "i + k + m = p + n + 63" for i m
      using that pn(4) by (intro w(2)) simp_all
    have bs2: "bs1\<lparr>bs_offset := bs_offset bs1 - 32, bs_pointer := bs_pointer bs1 + 4\<rparr> = bs2"
      by (simp add: bs2_def bs1_def of_k del: of_nat_add)
    have b2f: "bs_offset bs2 = of_nat k" "bs_accumulator bs2 = acc" by (simp_all add: bs2_def bs1_def)
    have k0: "(of_nat k :: u32) = 0 \<longleftrightarrow> k = 0" "unat (of_nat k :: u32) = k" using pn(3) unat_less [of k] by (auto simp: unat_eq_0 [symmetric])
    have sh: "BitStream_Shift bs (of_nat n) = (if k = 0 then Ok () (bs2\<lparr>bs_prefetch := w\<rparr>) else
        Ok () (bs2\<lparr>bs_mask := push_bit k 1 - 1, bs_accumulator := acc OR (drop_bit (32 - k) w AND (push_bit k 1 - 1)), bs_prefetch := push_bit k w\<rparr>))"
      unfolding start bs2 BitStream_Prefetch_def w(1) using False pn(3) k0 b2f by (simp add: Let_def)
    have fields: "bs_buffer bs2 = bs_buffer bs" "bs_capacity bs2 = bs_capacity bs" "bs_length bs2 = bs_length bs"
        "bs_position bs2 = of_nat (p + n)" "bs_pointer bs2 = 4 * ((p + n) div 32)"
      using r by (simp_all add: bs2_def bs1_def pn(2) reader_at_def)
    show ?thesis
    proof (cases "k = 0")
      case True
      then have "n \<le> i \<or> ?o + n \<le> 32 + i" for i by (simp add: k_def)
      with True acc wb fields b2f pn(1) have "reader_at (bs2\<lparr>bs_prefetch := w\<rparr>) bytes (p + n)"
        by (intro reader_moved [OF r]) simp_all
      with True sh show ?thesis by simp
    next
      case k: False
      have a: "bit (acc OR (drop_bit (32 - k) w AND (push_bit k 1 - 1))) i = bit_of bytes (p + n + 31 - i)" if "i < 32" for i
      proof -
        have "bit (acc OR (drop_bit (32 - k) w AND (push_bit k 1 - 1))) i \<longleftrightarrow> bit acc i \<or> i < k \<and> bit w (32 - k + i)"
          using pn(3) by (auto simp: bit_simps bit_mask_shift simp del: push_bit_of_1)
        with acc [OF that] wb [of "32 - k + i" "p + n + 31 - i"] that k pn(3) n False show ?thesis
          by (cases "i < k") (auto simp: k_def)
      qed
      have b: "bit (push_bit k w) i = (k \<le> i \<and> bit_of bytes (p + n + 63 - i))" if "i < 32" for i
        using wb [of "i - k" "p + n + 63 - i"] that by (cases "k \<le> i") (auto simp: bit_simps)
      let ?bs = "bs2\<lparr>bs_mask := push_bit k 1 - 1, bs_accumulator := acc OR (drop_bit (32 - k) w AND (push_bit k 1 - 1)), bs_prefetch := push_bit k w\<rparr>"
      have "reader_at ?bs bytes (p + n)"
        by (rule reader_moved [OF r]) (simp_all add: a b pn(1) b2f fields del: push_bit_of_1)
      with k sh show ?thesis by simp
    qed
  qed
qed

text \<open>The bits of a number, most significant first, and what a reader sees of a number that lies ahead.\<close>

definition bits_msb :: "u32 \<Rightarrow> nat \<Rightarrow> bool list" where
  "bits_msb v n = map (bit v) (rev [0..<n])"

lemma length_bits_msb [simp]: "length (bits_msb v n) = n"
  by (simp add: bits_msb_def)

lemma nth_bits_msb [simp]: "j < n \<Longrightarrow> bits_msb v n ! j = bit v (n - Suc j)"
  by (simp add: bits_msb_def rev_nth)

lemma reader_sees:
  assumes r: "reader_at bs bytes p" and n: "n \<le> 32" "unat v < 2 ^ n" and b: "\<And>j. j < n \<Longrightarrow> bit_of bytes (p + j) = bits_msb v n ! j"
  shows "drop_bit (32 - n) (bs_accumulator bs) = v"
proof (rule bit_word_eqI)
  fix i assume "i < LENGTH(32)"
  show "bit (drop_bit (32 - n) (bs_accumulator bs)) i = bit v i"
  proof (cases "i < n")
    case True
    then have "bit (bs_accumulator bs) (32 - n + i) = bit_of bytes (p + (n - Suc i))"
      using r n by (simp add: reader_at_def)
    with True n b [of "n - Suc i"] show ?thesis by (simp add: bit_drop_bit_eq)
  next
    case False
    then have "unat v < 2 ^ i" using n by (meson less_le_trans not_less one_le_numeral power_increasing)
    then have "\<not> bit v i" by (rule bit_less_exp)
    moreover have "\<not> bit (bs_accumulator bs) (32 - n + i)" using False n bit_imp_le_length by fastforce
    ultimately show ?thesis by (simp add: bit_drop_bit_eq)
  qed
qed

section \<open>Writing\<close>

lemma bit_of_update:
  "q < length bytes \<Longrightarrow> k < 8 * length bytes \<Longrightarrow>
   bit_of (bytes[q := v]) k = (if k div 8 = q then bit v (7 - k mod 8) else bit_of bytes k)"
  by (auto simp: bit_of_def nth_list_update)

lemma store_in_place:
  assumes "bs_capacity bs = of_nat (length (bs_buffer bs))" "length (bs_buffer bs) < 2 ^ 32" "bs_pointer bs + k < 2 ^ 32"
  shows "bs_store k v bs = Ok () (bs\<lparr>bs_buffer := (bs_buffer bs)[bs_pointer bs + k := ucast v]\<rparr>)"
proof -
  have "bs_guard bs k \<longleftrightarrow> bs_pointer bs + k < length (bs_buffer bs)"
    using of_nat_less32 [of "bs_pointer bs + k" "length (bs_buffer bs)"] assms by (simp add: bs_guard_def)
  then show ?thesis by (cases bs) (auto simp: bs_store_def not_less list_update_beyond)
qed

lemma split_index:
  fixes k :: nat
  obtains s j r where "j < 4" "r < 8" "k div 8 = 4 * s + j" "k mod 8 = r" "k div 32 = s" "k mod 32 = 8 * j + r"
proof (rule that [of "k div 8 mod 4" "k mod 8" "k div 32"])
  show "k div 8 = 4 * (k div 32) + k div 8 mod 4"
    using mult_div_mod_eq [of 4 "k div 8"] div_mult2_eq [of k 8 4] by simp
  show "k mod 32 = 8 * (k div 8 mod 4) + k mod 8"
    using mod_mult2_eq [of k 8 4] by simp
qed simp_all

lemma flush_in_place:
  assumes "bs_capacity bs = of_nat (length (bs_buffer bs))" "length (bs_buffer bs) < 2 ^ 32" "bs_pointer bs = 4 * q" "4 * q + 3 < 2 ^ 32"
  obtains buf where "BitStream_Flush bs = Ok () (bs\<lparr>bs_buffer := buf\<rparr>)" "length buf = length (bs_buffer bs)"
    "\<And>k. k < 8 * length buf \<Longrightarrow> bit_of buf k = (if k div 32 = q then bit (bs_accumulator bs) (31 - k mod 32) else bit_of (bs_buffer bs) k)"
proof -
  let ?a = "bs_accumulator bs"
  let ?b = "\<lambda>j. ucast (drop_bit (24 - 8 * j) ?a) :: u8"
  let ?buf = "(bs_buffer bs)[4 * q := ?b 0, 4 * q + 1 := ?b 1, 4 * q + 2 := ?b 2, 4 * q + 3 := ?b 3]"
  have "BitStream_Flush bs = Ok () (bs\<lparr>bs_buffer := ?buf\<rparr>)"
    using assms by (simp add: BitStream_Flush_def Let_def store_in_place)
  moreover have "bit_of ?buf k = (if k div 32 = q then bit ?a (31 - k mod 32) else bit_of (bs_buffer bs) k)"
    if k: "k < 8 * length (bs_buffer bs)" for k
  proof -
    obtain s j r where i: "j < 4" "r < 8" "k div 8 = 4 * s + j" "k mod 8 = r" "k div 32 = s" "k mod 32 = 8 * j + r" by (rule split_index)
    have l: "4 * s + j < length (bs_buffer bs)" using k i(3) by (metis less_mult_imp_div_less mult.commute)
    have b: "bit (?b j) (7 - r) = bit ?a (31 - k mod 32)" using i by (auto simp: bit_simps)
    have "?buf ! (4 * s + j) = (if s = q then ?b j else bs_buffer bs ! (4 * s + j))"
      using i(1) l by (auto simp: nth_list_update numeral_eq_Suc less_Suc_eq)
    then have "bit_of ?buf k = (if s = q then bit (?b j) (7 - r) else bit_of (bs_buffer bs) k)"
      using k l i by (simp add: bit_of_def)
    with b i(5) show ?thesis by simp
  qed
  ultimately show thesis using that by simp
qed

text \<open>The state of a writer that has taken the bits \<open>ws\<close> into a buffer of \<open>cap\<close> bytes.\<close>

definition writer_at :: "wBitStream \<Rightarrow> nat \<Rightarrow> bool list \<Rightarrow> bool" where
  "writer_at bs cap ws \<longleftrightarrow>
     length (bs_buffer bs) = cap \<and> bs_capacity bs = of_nat cap \<and> cap < 2 ^ 29 \<and> bs_position bs = of_nat (length ws) \<and>
     bs_offset bs = of_nat (length ws mod 32) \<and> bs_pointer bs = 4 * (length ws div 32) \<and>
     (\<forall>k < 32 * (length ws div 32). k < 8 * cap \<longrightarrow> bit_of (bs_buffer bs) k = ws ! k) \<and>
     (\<forall>i<32. bit (bs_accumulator bs) i =
        (32 * (length ws div 32) + 31 - i < length ws \<and> ws ! (32 * (length ws div 32) + 31 - i)))"

lemma writer_attached:
  "length buf < 2 ^ 29 \<Longrightarrow> writer_at (BitStream_Attach bs buf (of_nat (length buf))) (length buf) []"
  by (simp add: writer_at_def BitStream_Attach_def)

lemma writer_flushed:
  assumes w: "writer_at bs cap ws" and l: "length ws < 2 ^ 31" and b: "bs_buffer bs' = bs_buffer bs" "bs_capacity bs' = bs_capacity bs"
    "bs_pointer bs' = bs_pointer bs" "\<And>i. i < 32 \<Longrightarrow> bit (bs_accumulator bs') i \<longleftrightarrow> (let k = 32 * (length ws div 32) + 31 - i in k < length us \<and> us ! k)"
    and us: "\<And>k. k < length ws \<Longrightarrow> us ! k = ws ! k" "length ws \<le> length us"
  obtains buf where "BitStream_Flush bs' = Ok () (bs'\<lparr>bs_buffer := buf\<rparr>)" "length buf = cap"
    "\<And>k. k < 32 * (length ws div 32) + 32 \<Longrightarrow> k < 8 * cap \<Longrightarrow> bit_of buf k = (k < length us \<and> us ! k)"
proof -
  have "4 * (length ws div 32) + 3 < 2 ^ 32" using l div_le_dividend [of "length ws" 32] by simp
  then obtain buf where f: "BitStream_Flush bs' = Ok () (bs'\<lparr>bs_buffer := buf\<rparr>)" "length buf = length (bs_buffer bs')"
    "\<And>k. k < 8 * length buf \<Longrightarrow> bit_of buf k = (if k div 32 = length ws div 32 then bit (bs_accumulator bs') (31 - k mod 32) else bit_of (bs_buffer bs') k)"
    using w b by (rule_tac flush_in_place [of bs' "length ws div 32"]) (auto simp: writer_at_def)
  show thesis
  proof (rule that [OF f(1)])
    show "length buf = cap" using f(2) b w by (simp add: writer_at_def)
    show "bit_of buf k = (k < length us \<and> us ! k)" if "k < 32 * (length ws div 32) + 32" "k < 8 * cap" for k
    proof (cases "k div 32 = length ws div 32")
      case True
      have "32 * (length ws div 32) + 31 - (31 - k mod 32) = k" using True mult_div_mod_eq [of 32 k] by simp
      with True f(3) [of k] b(4) [of "31 - k mod 32"] \<open>length buf = cap\<close> that show ?thesis by (simp add: Let_def)
    next
      case False
      then have "k < 32 * (length ws div 32)" using that(1) by (metis (no_types, opaque_lifting) add.commute div_less_iff_less_mult less_SucE mult.commute mult_Suc_right zero_less_numeral)
      moreover have "32 * (length ws div 32) \<le> length ws" by simp
      ultimately have "k < length us" "us ! k = ws ! k" using us by auto
      with \<open>k < 32 * (length ws div 32)\<close> show ?thesis using False f(3) [of k] w b \<open>length buf = cap\<close> that by (simp add: writer_at_def)
    qed
  qed
qed

lemma writer_moved:
  assumes "writer_at bs cap ws" "length (bs_buffer bs') = cap" "bs_capacity bs' = bs_capacity bs" "bs_position bs' = of_nat (length us)"
    "bs_offset bs' = of_nat (length us mod 32)" "bs_pointer bs' = 4 * (length us div 32)"
    "\<And>k. k < 32 * (length us div 32) \<Longrightarrow> k < 8 * cap \<Longrightarrow> bit_of (bs_buffer bs') k = us ! k"
    "\<And>i. i < 32 \<Longrightarrow> bit (bs_accumulator bs') i \<longleftrightarrow> (let k = 32 * (length us div 32) + 31 - i in k < length us \<and> us ! k)"
  shows "writer_at bs' cap us"
  using assms unfolding writer_at_def by (simp add: Let_def)

lemma writer_write:
  assumes w: "writer_at bs cap ws" and l: "length ws < 2 ^ 31" and n: "0 < n" "n \<le> 30" and v: "unat v < 2 ^ n"
  shows "\<exists>bs'. BitStream_Write_Bits bs v (of_nat n) = Ok () bs' \<and> writer_at bs' cap (ws @ bits_msb v n)"
proof -
  let ?p = "length ws" and ?us = "ws @ bits_msb v n"
  define q r where "q = ?p div 32" and "r = ?p mod 32"
  have p: "?p = 32 * q + r" "r < 32" by (simp_all add: q_def r_def)
  have us: "?us ! k = (if k < ?p then ws ! k else bit v (?p + n - Suc k))" if "k < ?p + n" for k
    using that by (simp add: nth_append add.commute)
  have v_high: "\<not> bit v i" if "n \<le> i" for i
    using that v by (meson bit_less_exp less_le_trans one_le_numeral power_increasing)
  have acc: "bit (bs_accumulator bs) i \<longleftrightarrow> 31 - i < r \<and> ws ! (32 * q + 31 - i)" if "i < 32" for i
  proof -
    have "32 * q + 31 - i < ?p \<longleftrightarrow> 31 - i < r" using p that by arith
    then show ?thesis using w that unfolding writer_at_def q_def [symmetric] by simp
  qed
  have off: "bs_offset bs + of_nat n = of_nat (r + n)" "bs_position bs + of_nat n = of_nat (?p + n)"
      "(of_nat (r + n) :: u32) < 32 \<longleftrightarrow> r + n < 32" "unat (of_nat (r + n) :: u32) = r + n" "(of_nat (r + n) :: u32) \<noteq> 0"
  proof -
    show "bs_offset bs + of_nat n = of_nat (r + n)" "bs_position bs + of_nat n = of_nat (?p + n)" using w by (simp_all add: writer_at_def r_def)
    show "(of_nat (r + n) :: u32) < 32 \<longleftrightarrow> r + n < 32" "unat (of_nat (r + n) :: u32) = r + n" "(of_nat (r + n) :: u32) \<noteq> 0"
      using n p(2) of_nat_less32 [of "r + n" 32] unat_less [of "r + n"] by (auto simp: unat_eq_0 [symmetric] simp del: of_nat_add)
  qed
  show ?thesis
  proof (cases "r + n < 32")
    case True
    have len: "(?p + n) div 32 = q" "(?p + n) mod 32 = r + n" using word_offset(1,2) [of n ?p] True n by (auto simp: q_def r_def)
    let ?bs = "bs\<lparr>bs_position := of_nat (?p + n), bs_offset := of_nat (r + n), bs_accumulator := bs_accumulator bs OR push_bit (32 - (r + n)) v\<rparr>"
    have run: "BitStream_Write_Bits bs v (of_nat n) = Ok () ?bs"
      using off True by (simp add: BitStream_Write_Bits_def Let_def del: of_nat_add)
    have a: "bit (bs_accumulator bs OR push_bit (32 - (r + n)) v) i \<longleftrightarrow> (let k = 32 * q + 31 - i in k < ?p + n \<and> ?us ! k)" if "i < 32" for i
    proof -
      have k: "32 * q + 31 - i < ?p + n \<longleftrightarrow> 32 - (r + n) \<le> i" "32 * q + 31 - i < ?p \<longleftrightarrow> 31 - i < r"
        "32 - (r + n) \<le> i \<Longrightarrow> ?p + n - Suc (32 * q + 31 - i) = i - (32 - (r + n))" using p that True by arith+
      have high: "31 - i < r \<Longrightarrow> \<not> bit v (i - (32 - (r + n)))" using that True by (intro v_high) arith
      have "bit (bs_accumulator bs OR push_bit (32 - (r + n)) v) i \<longleftrightarrow> bit (bs_accumulator bs) i \<or> 32 - (r + n) \<le> i \<and> bit v (i - (32 - (r + n)))"
        using that by (auto simp: bit_simps)
      with acc [OF that] us [of "32 * q + 31 - i"] k high p True that show ?thesis unfolding Let_def by auto
    qed
    have "writer_at ?bs cap ?us"
    proof (rule writer_moved [OF w])
      show "bit_of (bs_buffer ?bs) k = ?us ! k" if "k < 32 * (length ?us div 32)" "k < 8 * cap" for k
        using w that p len us [of k] by (simp add: writer_at_def q_def [symmetric])
      show "bit (bs_accumulator ?bs) i \<longleftrightarrow> (let k = 32 * (length ?us div 32) + 31 - i in k < length ?us \<and> ?us ! k)" if "i < 32" for i
        using a [OF that] len by simp
    qed (use w len in \<open>simp_all add: writer_at_def q_def\<close>)
    with run show ?thesis by blast
  next
    case False
    define k where "k = r + n - 32"
    have kn: "k \<le> 29" "n - k = 32 - r" "n - k \<le> 30" "r + n = k + 32" using False n p(2) by (auto simp: k_def)
    have len: "(?p + n) div 32 = q + 1" "(?p + n) mod 32 = k" using word_offset(3,4) [of n ?p] False n by (auto simp: q_def r_def k_def)
    have wk: "of_nat (r + n) - 32 = (of_nat k :: u32)" "unat (of_nat k :: u32) = k" "(of_nat k :: u32) = 0 \<longleftrightarrow> k = 0"
        "unat (of_nat n - of_nat k :: u32) = 32 - r"
    proof -
      show "of_nat (r + n) - 32 = (of_nat k :: u32)" using kn(4) by simp
      show "unat (of_nat k :: u32) = k" "(of_nat k :: u32) = 0 \<longleftrightarrow> k = 0" using kn(1) unat_less [of k] by (auto simp: unat_eq_0 [symmetric])
      have "of_nat n - of_nat k = (of_nat (n - k) :: u32)" using kn n p(2) by (intro of_nat_diff [symmetric]) arith
      then show "unat (of_nat n - of_nat k :: u32) = 32 - r" using kn unat_less [of "n - k"] by simp
    qed
    let ?m = "push_bit (32 - r) 1 - 1 :: u32"
    define bs1 where "bs1 = bs\<lparr>bs_position := of_nat (?p + n), bs_offset := of_nat k, bs_mask := ?m, bs_accumulator := bs_accumulator bs OR (drop_bit k v AND ?m)\<rparr>"
    have a1: "bit (bs_accumulator bs1) i \<longleftrightarrow> (let k = 32 * q + 31 - i in k < length ?us \<and> ?us ! k)" if "i < 32" for i
    proof -
      have e: "32 * q + 31 - i < ?p + n" "32 * q + 31 - i < ?p \<longleftrightarrow> 31 - i < r" "?p + n - Suc (32 * q + 31 - i) = k + i" "31 - i < r \<longleftrightarrow> \<not> i < 32 - r"
        using p that False by (auto simp: k_def)
      have "bit (bs_accumulator bs1) i \<longleftrightarrow> bit (bs_accumulator bs) i \<or> i < 32 - r \<and> bit v (k + i)"
        using p(2) kn by (auto simp: bs1_def bit_simps bit_mask_shift simp del: push_bit_of_1)
      with acc [OF that] us [OF e(1)] e show ?thesis unfolding Let_def by auto
    qed
    obtain buf where buf: "BitStream_Flush bs1 = Ok () (bs1\<lparr>bs_buffer := buf\<rparr>)" "length buf = cap"
      "\<And>k. k < 32 * q + 32 \<Longrightarrow> k < 8 * cap \<Longrightarrow> bit_of buf k = (k < length ?us \<and> ?us ! k)"
      using a1 unfolding q_def by (rule_tac writer_flushed [OF w l, of bs1 ?us]) (auto simp: bs1_def nth_append)
    let ?bs = "bs1\<lparr>bs_buffer := buf, bs_pointer := bs_pointer bs + 4, bs_mask := if k = 0 then ?m else push_bit k 1 - 1,
        bs_accumulator := if k = 0 then 0 else push_bit (32 - k) (v AND (push_bit k 1 - 1))\<rparr>"
    have run: "BitStream_Write_Bits bs v (of_nat n) = Ok () ?bs"
      using off False wk kn buf(1) [unfolded bs1_def] unfolding BitStream_Write_Bits_def Let_def bs1_def
      by (simp del: of_nat_add push_bit_of_1)
    have a2: "bit (bs_accumulator ?bs) i \<longleftrightarrow> (let k = 32 * (q + 1) + 31 - i in k < length ?us \<and> ?us ! k)" if "i < 32" for i
    proof -
      have e: "32 * (q + 1) + 31 - i < ?p + n \<longleftrightarrow> 32 - k \<le> i" "\<not> 32 * (q + 1) + 31 - i < ?p"
          "32 - k \<le> i \<Longrightarrow> ?p + n - Suc (32 * (q + 1) + 31 - i) = i - (32 - k)"
        using p that kn by auto
      have "bit (bs_accumulator ?bs) i \<longleftrightarrow> 32 - k \<le> i \<and> bit v (i - (32 - k))"
        using kn that by (auto simp: bit_simps bit_mask_shift simp del: push_bit_of_1)
      with us [of "32 * (q + 1) + 31 - i"] e show ?thesis unfolding Let_def by auto
    qed
    have "writer_at ?bs cap ?us"
    proof (rule writer_moved [OF w])
      show "bit_of (bs_buffer ?bs) j = ?us ! j" if "j < 32 * (length ?us div 32)" "j < 8 * cap" for j
        using buf(3) [of j] that p len kn by simp
      show "bit (bs_accumulator ?bs) i \<longleftrightarrow> (let k = 32 * (length ?us div 32) + 31 - i in k < length ?us \<and> ?us ! k)" if "i < 32" for i
        using a2 [OF that] len by (simp only: length_append length_bits_msb)
    qed (use w len buf(2) in \<open>simp_all add: writer_at_def bs1_def q_def\<close>)
    with run show ?thesis by blast
  qed
qed

lemma writer_end:
  assumes w: "writer_at bs cap ws" and l: "length ws < 2 ^ 31"
  obtains buf where "BitStream_Flush bs = Ok () (bs\<lparr>bs_buffer := buf\<rparr>)" "length buf = cap"
    "\<And>k. k < length ws \<Longrightarrow> k < 8 * cap \<Longrightarrow> bit_of buf k = ws ! k"
proof -
  have b: "length ws < 32 * (length ws div 32) + 32" using mult_div_mod_eq [of 32 "length ws"] mod_less_divisor [of 32 "length ws"] by linarith
  from w l obtain buf where "BitStream_Flush bs = Ok () (bs\<lparr>bs_buffer := buf\<rparr>)" "length buf = cap"
    "\<And>k. k < 32 * (length ws div 32) + 32 \<Longrightarrow> k < 8 * cap \<Longrightarrow> bit_of buf k = (k < length ws \<and> ws ! k)"
    by (rule writer_flushed [where bs' = bs and us = ws]) (use w in \<open>auto simp: writer_at_def Let_def\<close>)
  then show thesis using b by (intro that) auto
qed

text \<open>What was written, as far as the capacity goes, is what a reader of the buffer sees.\<close>

lemma bit_of_take: "k < 8 * n \<Longrightarrow> n \<le> length bytes \<Longrightarrow> bit_of (take n bytes) k = bit_of bytes k"
  by (simp add: bit_of_def less_mult_imp_div_less mult.commute)

section \<open>Properties\<close>

text \<open>Several numbers in a row, each given with the number of its bits.\<close>

primrec write_all :: "wBitStream \<Rightarrow> (u32 \<times> u32) list \<Rightarrow> (unit, wBitStream) res" where
  "write_all bs [] = Ok () bs"
| "write_all bs (c # cs) = and_then (BitStream_Write_Bits bs (fst c) (snd c)) (\<lambda>_ bs. write_all bs cs)"

primrec read_all :: "wBitStream \<Rightarrow> u32 list \<Rightarrow> (u32 list, wBitStream) res" where
  "read_all bs [] = Ok [] bs"
| "read_all bs (n # ns) =
     (let v = drop_bit (32 - unat n) (bs_accumulator bs) in
      and_then (BitStream_Shift bs n) (\<lambda>_ bs. and_then (read_all bs ns) (\<lambda>vs bs. Ok (v # vs) bs)))"

definition code_ok :: "u32 \<times> u32 \<Rightarrow> bool" where
  "code_ok c \<longleftrightarrow> 0 < snd c \<and> snd c \<le> 30 \<and> unat (fst c) < 2 ^ unat (snd c)"

abbreviation code_bits :: "(u32 \<times> u32) list \<Rightarrow> bool list" where
  "code_bits cs \<equiv> concat (map (\<lambda>c. bits_msb (fst c) (unat (snd c))) cs)"

lemma code_ok_word:
  assumes "code_ok (v, n)" obtains k where "n = of_nat k" "0 < k" "k \<le> 30" "unat n = k" "unat v < 2 ^ k"
  using assms by (intro that [of "unat n"]) (auto simp: code_ok_def word_le_nat_alt word_less_nat_alt)

lemma write_all_bits:
  "writer_at bs cap ws \<Longrightarrow> \<forall>c \<in> set cs. code_ok c \<Longrightarrow> length ws + length (code_bits cs) < 2 ^ 31 \<Longrightarrow>
   \<exists>bs'. write_all bs cs = Ok () bs' \<and> writer_at bs' cap (ws @ code_bits cs)"
proof (induction cs arbitrary: bs ws)
  case (Cons c cs)
  obtain v n where c: "c = (v, n)" by (cases c)
  with Cons.prems obtain k where k: "n = of_nat k" "0 < k" "k \<le> 30" "unat n = k" "unat v < 2 ^ k" by (auto elim: code_ok_word)
  obtain bs' where "BitStream_Write_Bits bs v n = Ok () bs'" "writer_at bs' cap (ws @ bits_msb v k)"
    using writer_write [OF Cons.prems(1) _ k(2,3,5)] Cons.prems(3) k(1) by auto
  with Cons.IH [of bs' "ws @ bits_msb v k"] Cons.prems c k(4) show ?case by (auto simp: c)
qed simp

lemma read_all_bits:
  "reader_at bs bytes p \<Longrightarrow> \<forall>c \<in> set cs. code_ok c \<Longrightarrow> p + length (code_bits cs) < 2 ^ 31 \<Longrightarrow>
   (\<And>j. j < length (code_bits cs) \<Longrightarrow> bit_of bytes (p + j) = code_bits cs ! j) \<Longrightarrow>
   \<exists>bs'. read_all bs (map snd cs) = Ok (map fst cs) bs' \<and> reader_at bs' bytes (p + length (code_bits cs))"
proof (induction cs arbitrary: bs p)
  case (Cons c cs)
  obtain v n where c: "c = (v, n)" by (cases c)
  with Cons.prems obtain k where k: "n = of_nat k" "0 < k" "k \<le> 30" "unat n = k" "unat v < 2 ^ k" by (auto elim: code_ok_word)
  have split: "code_bits (c # cs) = bits_msb v k @ code_bits cs" by (simp add: c k(4))
  note bits = Cons.prems(4) [unfolded split length_append length_bits_msb]
  have v: "drop_bit (32 - k) (bs_accumulator bs) = v"
    using k bits by (intro reader_sees [OF Cons.prems(1)]) (simp_all add: nth_append)
  obtain bs' where bs': "BitStream_Shift bs n = Ok () bs'" "reader_at bs' bytes (p + k)"
    using reader_shift [OF Cons.prems(1), of k] k Cons.prems(3) by auto
  have "bit_of bytes (p + k + j) = code_bits cs ! j" if "j < length (code_bits cs)" for j
    using bits [of "k + j"] that by (simp add: nth_append add.assoc)
  with Cons.IH [OF bs'(2)] Cons.prems(2,3) c k(4) obtain bs'' where
    "read_all bs' (map snd cs) = Ok (map fst cs) bs''" "reader_at bs'' bytes (p + k + length (code_bits cs))" by auto
  with bs'(1) v k(4) c show ?case by (simp add: Let_def add.assoc)
qed simp

text \<open>
  C10. Bit streams. Numbers of up to 30 bits that are written one after the other into a buffer with enough room, and
  flushed, are read back in the same order by a reader attached to the buffer.
\<close>

theorem bitstream_roundtrip:
  assumes cs: "\<forall>c \<in> set cs. code_ok c" and room: "length (code_bits cs) \<le> 8 * length buf" and l: "length buf < 2 ^ 27"
  shows "\<exists>out bs. and_then (write_all (BitStream_Attach b buf (of_nat (length buf))) cs) (\<lambda>_ bs. BitStream_Flush bs) = Ok () out \<and>
     length (bs_buffer out) = length buf \<and>
     and_then (BitStream_Fetch (BitStream_Attach b' (bs_buffer out) (of_nat (length buf)))) (\<lambda>_ bs. read_all bs (map snd cs)) = Ok (map fst cs) bs"
proof -
  have len: "length (code_bits cs) < 2 ^ 31" using room l by (simp del: length_concat)
  obtain bs where w: "write_all (BitStream_Attach b buf (of_nat (length buf))) cs = Ok () bs" "writer_at bs (length buf) (code_bits cs)"
    using write_all_bits [OF writer_attached cs, of buf b] l len by (auto simp del: length_concat)
  obtain buf' where f: "BitStream_Flush bs = Ok () (bs\<lparr>bs_buffer := buf'\<rparr>)" "length buf' = length buf"
    "\<And>k. k < length (code_bits cs) \<Longrightarrow> k < 8 * length buf \<Longrightarrow> bit_of buf' k = code_bits cs ! k"
    by (rule writer_end [OF w(2) len]) blast
  obtain r where r: "BitStream_Fetch (BitStream_Attach b' buf' (of_nat (length buf'))) = Ok () r" "reader_at r buf' 0"
    using reader_attached [of buf' b'] f(2) l by auto
  have "\<exists>bs'. read_all r (map snd cs) = Ok (map fst cs) bs' \<and> reader_at bs' buf' (0 + length (code_bits cs))"
    using r(2) cs len f(3) room by (intro read_all_bits) (simp_all del: length_concat)
  with w(1) f(1,2) r(1) show ?thesis by (auto simp del: length_concat)
qed

theorem bitstream_roundtrip_witness:
  "\<forall>b. \<exists>out bs. and_then (write_all (BitStream_Attach b (replicate 8 0) 8) [(5, 3), (0x3FFFFFFF, 30), (1, 9)]) (\<lambda>_ bs. BitStream_Flush bs) = Ok () out \<and>
     and_then (BitStream_Fetch (BitStream_Attach b (bs_buffer out) 8)) (\<lambda>_ bs. read_all bs [3, 30, 9]) = Ok [5, 0x3FFFFFFF, 1] bs"
proof
  fix b
  show "\<exists>out bs. and_then (write_all (BitStream_Attach b (replicate 8 0) 8) [(5, 3), (0x3FFFFFFF, 30), (1, 9)]) (\<lambda>_ bs. BitStream_Flush bs) = Ok () out \<and>
     and_then (BitStream_Fetch (BitStream_Attach b (bs_buffer out) 8)) (\<lambda>_ bs. read_all bs [3, 30, 9]) = Ok [5, 0x3FFFFFFF, 1] bs"
    using bitstream_roundtrip [of "[(5, 3), (0x3FFFFFFF, 30), (1, 9)]" "replicate 8 0" b b]
    by (simp add: code_ok_def del: write_all.simps read_all.simps) blast
qed

end
