(* ===== verification/Codec_Mppc.thy ===== *)
theory Codec_Mppc
  imports WinPR_BitStream
begin

text \<open>
  The bulk compressor MPPC of \<^verbatim>\<open>libfreerdp/codec/mppc.c\<close>, as written: both ends keep a history buffer; the compressor
  replaces a run that occurs in its history by the distance and the length, found through a table of positions
  indexed by a hash of three bytes. Pointers into the history are indices. An access outside
  \<open>HistoryBuffer\<close> is a \<open>Fault\<close>, except for one read of the compressor: it compares a byte with the one in front of a
  position of the table before it finds out that the position is zero, which stands for none. That byte is the
  argument \<open>below\<close> of the compressor.
\<close>

section \<open>Context\<close>

record mppc_context =
  mp_bs :: wBitStream
  mp_Compressor :: bool
  mp_HistoryPtr :: nat
  mp_HistoryOffset :: u32
  mp_HistoryBufferSize :: u32
  mp_HistoryBuffer :: "u8 list"
  mp_MatchBuffer :: "u16 list"
  mp_CompressionLevel :: u32

abbreviation (input) PACKET_COMPRESSED :: u32 where "PACKET_COMPRESSED \<equiv> 0x20"
abbreviation (input) PACKET_AT_FRONT :: u32 where "PACKET_AT_FRONT \<equiv> 0x40"
abbreviation (input) PACKET_FLUSHED :: u32 where "PACKET_FLUSHED \<equiv> 0x80"

definition MPPC_MATCH_TABLE :: "u32 list" where
  "MPPC_MATCH_TABLE = [
     0x00000000, 0x009CCF93, 0x01399F26, 0x01D66EB9, 0x02733E4C, 0x03100DDF, 0x03ACDD72, 0x0449AD05, 0x04E67C98, 0x05834C2B,
     0x06201BBE, 0x06BCEB51, 0x0759BAE4, 0x07F68A77, 0x08935A0A, 0x0930299D, 0x09CCF930, 0x0A69C8C3, 0x0B069856, 0x0BA367E9,
     0x0C40377C, 0x0CDD070F, 0x0D79D6A2, 0x0E16A635, 0x0EB375C8, 0x0F50455B, 0x0FED14EE, 0x1089E481, 0x1126B414, 0x11C383A7,
     0x1260533A, 0x12FD22CD, 0x1399F260, 0x1436C1F3, 0x14D39186, 0x15706119, 0x160D30AC, 0x16AA003F, 0x1746CFD2, 0x17E39F65,
     0x18806EF8, 0x191D3E8B, 0x19BA0E1E, 0x1A56DDB1, 0x1AF3AD44, 0x1B907CD7, 0x1C2D4C6A, 0x1CCA1BFD, 0x1D66EB90, 0x1E03BB23,
     0x1EA08AB6, 0x1F3D5A49, 0x1FDA29DC, 0x2076F96F, 0x2113C902, 0x21B09895, 0x224D6828, 0x22EA37BB, 0x2387074E, 0x2423D6E1,
     0x24C0A674, 0x255D7607, 0x25FA459A, 0x2697152D, 0x2733E4C0, 0x27D0B453, 0x286D83E6, 0x290A5379, 0x29A7230C, 0x2A43F29F,
     0x2AE0C232, 0x2B7D91C5, 0x2C1A6158, 0x2CB730EB, 0x2D54007E, 0x2DF0D011, 0x2E8D9FA4, 0x2F2A6F37, 0x2FC73ECA, 0x30640E5D,
     0x3100DDF0, 0x319DAD83, 0x323A7D16, 0x32D74CA9, 0x33741C3C, 0x3410EBCF, 0x34ADBB62, 0x354A8AF5, 0x35E75A88, 0x36842A1B,
     0x3720F9AE, 0x37BDC941, 0x385A98D4, 0x38F76867, 0x399437FA, 0x3A31078D, 0x3ACDD720, 0x3B6AA6B3, 0x3C077646, 0x3CA445D9,
     0x3D41156C, 0x3DDDE4FF, 0x3E7AB492, 0x3F178425, 0x3FB453B8, 0x4051234B, 0x40EDF2DE, 0x418AC271, 0x42279204, 0x42C46197,
     0x4361312A, 0x43FE00BD, 0x449AD050, 0x45379FE3, 0x45D46F76, 0x46713F09, 0x470E0E9C, 0x47AADE2F, 0x4847ADC2, 0x48E47D55,
     0x49814CE8, 0x4A1E1C7B, 0x4ABAEC0E, 0x4B57BBA1, 0x4BF48B34, 0x4C915AC7, 0x4D2E2A5A, 0x4DCAF9ED, 0x4E67C980, 0x4F049913,
     0x4FA168A6, 0x503E3839, 0x50DB07CC, 0x5177D75F, 0x5214A6F2, 0x52B17685, 0x534E4618, 0x53EB15AB, 0x5487E53E, 0x5524B4D1,
     0x55C18464, 0x565E53F7, 0x56FB238A, 0x5797F31D, 0x5834C2B0, 0x58D19243, 0x596E61D6, 0x5A0B3169, 0x5AA800FC, 0x5B44D08F,
     0x5BE1A022, 0x5C7E6FB5, 0x5D1B3F48, 0x5DB80EDB, 0x5E54DE6E, 0x5EF1AE01, 0x5F8E7D94, 0x602B4D27, 0x60C81CBA, 0x6164EC4D,
     0x6201BBE0, 0x629E8B73, 0x633B5B06, 0x63D82A99, 0x6474FA2C, 0x6511C9BF, 0x65AE9952, 0x664B68E5, 0x66E83878, 0x6785080B,
     0x6821D79E, 0x68BEA731, 0x695B76C4, 0x69F84657, 0x6A9515EA, 0x6B31E57D, 0x6BCEB510, 0x6C6B84A3, 0x6D085436, 0x6DA523C9,
     0x6E41F35C, 0x6EDEC2EF, 0x6F7B9282, 0x70186215, 0x70B531A8, 0x7152013B, 0x71EED0CE, 0x728BA061, 0x73286FF4, 0x73C53F87,
     0x74620F1A, 0x74FEDEAD, 0x759BAE40, 0x76387DD3, 0x76D54D66, 0x77721CF9, 0x780EEC8C, 0x78ABBC1F, 0x79488BB2, 0x79E55B45,
     0x7A822AD8, 0x7B1EFA6B, 0x7BBBC9FE, 0x7C589991, 0x7CF56924, 0x7D9238B7, 0x7E2F084A, 0x7ECBD7DD, 0x7F68A770, 0x80057703,
     0x80A24696, 0x813F1629, 0x81DBE5BC, 0x8278B54F, 0x831584E2, 0x83B25475, 0x844F2408, 0x84EBF39B, 0x8588C32E, 0x862592C1,
     0x86C26254, 0x875F31E7, 0x87FC017A, 0x8898D10D, 0x8935A0A0, 0x89D27033, 0x8A6F3FC6, 0x8B0C0F59, 0x8BA8DEEC, 0x8C45AE7F,
     0x8CE27E12, 0x8D7F4DA5, 0x8E1C1D38, 0x8EB8ECCB, 0x8F55BC5E, 0x8FF28BF1, 0x908F5B84, 0x912C2B17, 0x91C8FAAA, 0x9265CA3D,
     0x930299D0, 0x939F6963, 0x943C38F6, 0x94D90889, 0x9575D81C, 0x9612A7AF, 0x96AF7742, 0x974C46D5, 0x97E91668, 0x9885E5FB,
     0x9922B58E, 0x99BF8521, 0x9A5C54B4, 0x9AF92447, 0x9B95F3DA, 0x9C32C36D]"

definition MPPC_MATCH_INDEX :: "u8 \<Rightarrow> u8 \<Rightarrow> u8 \<Rightarrow> nat" where
  "MPPC_MATCH_INDEX sym1 sym2 sym3 =
     unat (drop_bit 12 ((push_bit 16 (MPPC_MATCH_TABLE ! unat sym3) + push_bit 8 (MPPC_MATCH_TABLE ! unat sym2) +
                         MPPC_MATCH_TABLE ! unat sym1) AND 0x07FFF000))"

definition mppc_set_compression_level :: "mppc_context \<Rightarrow> u32 \<Rightarrow> mppc_context" where
  "mppc_set_compression_level mppc CompressionLevel =
     (if CompressionLevel < 1 then mppc\<lparr>mp_CompressionLevel := 0, mp_HistoryBufferSize := 8192\<rparr>
      else mppc\<lparr>mp_CompressionLevel := 1, mp_HistoryBufferSize := 65536\<rparr>)"

definition mppc_context_reset :: "mppc_context \<Rightarrow> bool \<Rightarrow> mppc_context" where
  "mppc_context_reset mppc flush =
     (let mppc = mppc\<lparr>mp_HistoryBuffer := replicate 65536 0, mp_MatchBuffer := replicate 32768 0\<rparr> in
      if flush then mppc\<lparr>mp_HistoryOffset := mp_HistoryBufferSize mppc + 1, mp_HistoryPtr := 0\<rparr>
      else mppc\<lparr>mp_HistoryOffset := 0, mp_HistoryPtr := 0\<rparr>)"

definition mppc_context_new :: "unit alloc \<Rightarrow> unit alloc \<Rightarrow> u32 \<Rightarrow> bool \<Rightarrow> mppc_context option" where
  "mppc_context_new al al_bs CompressionLevel Compressor =
     (if al = None then None
      else case BitStream_New al_bs of
        None \<Rightarrow> None
      | Some bs \<Rightarrow>
          let mppc = \<lparr>mp_bs = bs, mp_Compressor = Compressor, mp_HistoryPtr = 0, mp_HistoryOffset = 0,
                mp_HistoryBufferSize = if CompressionLevel < 1 then 8192 else 65536,
                mp_HistoryBuffer = replicate 65536 0, mp_MatchBuffer = replicate 32768 0,
                mp_CompressionLevel = if CompressionLevel < 1 then 0 else 1\<rparr>
          in Some (mppc_context_reset mppc False))"

section \<open>Decompression\<close>

text \<open>The distance and the length of a match at the front of the accumulator, with the number of bits, or the error.\<close>

definition read_copy_offset :: "u32 \<Rightarrow> u32 \<Rightarrow> int + u32 \<times> u32" where
  "read_copy_offset CompressionLevel accumulator =
     (if CompressionLevel \<noteq> 0 then
        (if accumulator AND 0xF8000000 = 0xF8000000 then Inr (drop_bit 21 accumulator AND 0x3F, 11)
         else if accumulator AND 0xF8000000 = 0xF0000000 then Inr ((drop_bit 19 accumulator AND 0xFF) + 64, 13)
         else if accumulator AND 0xF0000000 = 0xE0000000 then Inr ((drop_bit 17 accumulator AND 0x7FF) + 320, 15)
         else if accumulator AND 0xE0000000 = 0xC0000000 then Inr ((drop_bit 13 accumulator AND 0xFFFF) + 2368, 19)
         else Inl (- 1001))
      else
        (if accumulator AND 0xF0000000 = 0xF0000000 then Inr (drop_bit 22 accumulator AND 0x3F, 10)
         else if accumulator AND 0xF0000000 = 0xE0000000 then Inr ((drop_bit 20 accumulator AND 0xFF) + 64, 12)
         else if accumulator AND 0xE0000000 = 0xC0000000 then Inr ((drop_bit 16 accumulator AND 0x1FFF) + 320, 16)
         else Inl (- 1002)))"

definition read_match_length :: "u32 \<Rightarrow> u32 \<Rightarrow> int + u32 \<times> u32" where
  "read_match_length CompressionLevel accumulator =
     (if accumulator AND 0x80000000 = 0 then Inr (3, 1)
      else if accumulator AND 0xC0000000 = 0x80000000 then Inr ((drop_bit 28 accumulator AND 0x0003) + 0x0004, 4)
      else if accumulator AND 0xE0000000 = 0xC0000000 then Inr ((drop_bit 26 accumulator AND 0x0007) + 0x0008, 6)
      else if accumulator AND 0xF0000000 = 0xE0000000 then Inr ((drop_bit 24 accumulator AND 0x000F) + 0x0010, 8)
      else if accumulator AND 0xF8000000 = 0xF0000000 then Inr ((drop_bit 22 accumulator AND 0x001F) + 0x0020, 10)
      else if accumulator AND 0xFC000000 = 0xF8000000 then Inr ((drop_bit 20 accumulator AND 0x003F) + 0x0040, 12)
      else if accumulator AND 0xFE000000 = 0xFC000000 then Inr ((drop_bit 18 accumulator AND 0x007F) + 0x0080, 14)
      else if accumulator AND 0xFF000000 = 0xFE000000 then Inr ((drop_bit 16 accumulator AND 0x00FF) + 0x0100, 16)
      else if accumulator AND 0xFF800000 = 0xFF000000 then Inr ((drop_bit 14 accumulator AND 0x01FF) + 0x0200, 18)
      else if accumulator AND 0xFFC00000 = 0xFF800000 then Inr ((drop_bit 12 accumulator AND 0x03FF) + 0x0400, 20)
      else if accumulator AND 0xFFE00000 = 0xFFC00000 then Inr ((drop_bit 10 accumulator AND 0x07FF) + 0x0800, 22)
      else if accumulator AND 0xFFF00000 = 0xFFE00000 then Inr ((drop_bit 8 accumulator AND 0x0FFF) + 0x1000, 24)
      else if accumulator AND 0xFFF80000 = 0xFFF00000 \<and> CompressionLevel \<noteq> 0 then Inr ((drop_bit 6 accumulator AND 0x1FFF) + 0x2000, 26)
      else if accumulator AND 0xFFFC0000 = 0xFFF80000 \<and> CompressionLevel \<noteq> 0 then Inr ((drop_bit 4 accumulator AND 0x3FFF) + 0x4000, 28)
      else if accumulator AND 0xFFFE0000 = 0xFFFC0000 \<and> CompressionLevel \<noteq> 0 then Inr ((drop_bit 2 accumulator AND 0x7FFF) + 0x8000, 30)
      else Inl (- 1003))"

primrec copy_match :: "nat \<Rightarrow> nat \<Rightarrow> nat \<Rightarrow> u8 list \<Rightarrow> u8 list option" where
  "copy_match 0 src dst history = Some history"
| "copy_match (Suc n) src dst history =
     (if src < length history \<and> dst < length history
      then copy_match n (Suc src) (Suc dst) (history[dst := history ! src]) else None)"

text \<open>
  The loop of \<^verbatim>\<open>mppc_decompress\<close> over the bit stream, the history and the position in it. It returns the status; 
  \<open>bufferEnd\<close> is the index that \<^verbatim>\<open>HistoryBufferEnd\<close> points to.
\<close>

lemma unat_field: "unat ((x AND m) + c) = unat (x AND m) + unat c" if "unat m + unat c < 2 ^ 32" for x m c :: u32
proof -
  have "unat (x AND m) \<le> unat m" using word_and_le1 [of x m] by (simp add: word_le_nat_alt)
  with that show ?thesis by (simp add: unat_add_lem [THEN iffD1])
qed

lemma match_length_pos: "read_match_length level acc = Inr (n, b) \<Longrightarrow> 3 \<le> unat n"
  by (auto simp: read_match_length_def unat_field split: if_split_asm)

function decompress_loop ::
  "u32 \<Rightarrow> nat \<Rightarrow> wBitStream \<Rightarrow> u8 list \<Rightarrow> nat \<Rightarrow> (int, wBitStream \<times> u8 list \<times> nat) res" where
  "decompress_loop CompressionLevel bufferEnd bs history ptr =
     (if bs_length bs - bs_position bs < 8 then Ok 1 (bs, history, ptr)
      else if bufferEnd < ptr then Ok (- 1004) (bs, history, ptr)
      else let accumulator = bs_accumulator bs in
        if accumulator AND 0x80000000 = 0 then
          (if length history \<le> ptr then Fault
           else case BitStream_Shift bs 8 of
             Ok _ bs \<Rightarrow> decompress_loop CompressionLevel bufferEnd bs
               (history[ptr := ucast (drop_bit 24 (accumulator AND 0x7F000000))]) (Suc ptr)
           | _ \<Rightarrow> Fault)
        else if accumulator AND 0xC0000000 = 0x80000000 then
          (if length history \<le> ptr then Fault
           else case BitStream_Shift bs 9 of
             Ok _ bs \<Rightarrow> decompress_loop CompressionLevel bufferEnd bs
               (history[ptr := ucast (drop_bit 23 (accumulator AND 0x3F800000) + 0x80)]) (Suc ptr)
           | _ \<Rightarrow> Fault)
        else case read_copy_offset CompressionLevel accumulator of
          Inl e \<Rightarrow> Ok e (bs, history, ptr)
        | Inr (CopyOffset, nbits) \<Rightarrow>
            (case BitStream_Shift bs nbits of
               Ok _ bs \<Rightarrow>
                 (case read_match_length CompressionLevel (bs_accumulator bs) of
                    Inl e \<Rightarrow> Ok e (bs, history, ptr)
                  | Inr (LengthOfMatch, nbits) \<Rightarrow>
                      (case BitStream_Shift bs nbits of
                         Ok _ bs \<Rightarrow>
                           if bufferEnd < ptr + unat LengthOfMatch - 1 then Ok (- 1005) (bs, history, ptr)
                           else
                             (case copy_match (unat LengthOfMatch)
                                     (unat ((of_nat ptr - CopyOffset) AND (if CompressionLevel \<noteq> 0 then 0xFFFF else 0x1FFF))) ptr history of
                                None \<Rightarrow> Fault
                              | Some history \<Rightarrow> decompress_loop CompressionLevel bufferEnd bs history (ptr + unat LengthOfMatch))
                       | _ \<Rightarrow> Fault))
             | _ \<Rightarrow> Fault))"
  by pat_completeness auto
termination
  by (relation "measure (\<lambda>(_, bufferEnd, _, _, ptr). Suc bufferEnd - ptr)") (auto dest: match_length_pos)

declare decompress_loop.simps [simp del]

text \<open>What the flags of a packet do to the position and the history.\<close>

definition apply_flags :: "mppc_context \<Rightarrow> u32 \<Rightarrow> mppc_context" where
  "apply_flags mppc flags =
     (let mppc = (if flags AND PACKET_AT_FRONT \<noteq> 0 then mppc\<lparr>mp_HistoryOffset := 0, mp_HistoryPtr := 0\<rparr> else mppc)
      in if flags AND PACKET_FLUSHED \<noteq> 0
         then mppc\<lparr>mp_HistoryOffset := 0, mp_HistoryPtr := 0,
                mp_HistoryBuffer := blit (mp_HistoryBuffer mppc) 0 (replicate (unat (mp_HistoryBufferSize mppc)) 0)\<rparr>
         else mppc)"

text \<open>The result is the status and the bytes at \<^verbatim>\<open>*ppDstData\<close>, if these are set.\<close>

definition mppc_decompress :: "mppc_context \<Rightarrow> u8 list \<Rightarrow> u32 \<Rightarrow> (int \<times> u8 list option, mppc_context) res" where
  "mppc_decompress mppc pSrcData flags =
     (case BitStream_Fetch (BitStream_Attach (mp_bs mppc) pSrcData (of_nat (length pSrcData))) of
        Ok _ bs \<Rightarrow>
          let mppc = apply_flags (mppc\<lparr>mp_bs := bs\<rparr>) flags
          in if flags AND PACKET_COMPRESSED = 0 then Ok (1, Some pSrcData) mppc
             else (case decompress_loop (mp_CompressionLevel mppc) (unat (mp_HistoryBufferSize mppc - 1)) bs
                          (mp_HistoryBuffer mppc) (mp_HistoryPtr mppc) of
               Ok status (bs, history, ptr) \<Rightarrow>
                 if status = 1
                 then Ok (1, Some (take (ptr - mp_HistoryPtr mppc) (drop (mp_HistoryPtr mppc) history)))
                        (mppc\<lparr>mp_bs := bs, mp_HistoryBuffer := history, mp_HistoryPtr := ptr\<rparr>)
                 else Ok (status, None) (mppc\<lparr>mp_bs := bs, mp_HistoryBuffer := history\<rparr>)
             | _ \<Rightarrow> Fault)
      | _ \<Rightarrow> Fault)"

section \<open>Compression\<close>

text \<open>
  The packet under work is the block \<open>src\<close>, with the index \<open>i\<close> for \<^verbatim>\<open>pSrcPtr\<close> and \<open>ptr\<close> for \<^verbatim>\<open>HistoryPtr\<close>. \<open>Fail\<close> is the early
  return that resets the context and sends the packet as it is.
\<close>

type_synonym mppc_state = "mppc_context \<times> nat \<times> nat"

definition write_code :: "mppc_context \<Rightarrow> u32 \<times> u32 \<Rightarrow> (unit, mppc_context) res" where
  "write_code mppc code =
     (case BitStream_Write_Bits (mp_bs mppc) (fst code) (snd code) of
        Ok _ bs \<Rightarrow> Ok () (mppc\<lparr>mp_bs := bs\<rparr>) | _ \<Rightarrow> Fault)"

definition literal_code :: "u8 \<Rightarrow> u32 \<times> u32" where
  "literal_code symbol = (if symbol < 0x80 then (ucast symbol, 8) else (0x100 OR (ucast symbol AND 0x7F), 9))"

definition offset_code :: "u32 \<Rightarrow> u32 \<Rightarrow> (u32 \<times> u32) option" where
  "offset_code CompressionLevel CopyOffset =
     (if CompressionLevel \<noteq> 0 then
        (if CopyOffset < 64 then Some (0x07C0 OR (CopyOffset AND 0x003F), 11)
         else if CopyOffset \<ge> 64 \<and> CopyOffset < 320 then Some (0x1E00 OR ((CopyOffset - 64) AND 0x00FF), 13)
         else if CopyOffset \<ge> 320 \<and> CopyOffset < 2368 then Some (0x7000 OR ((CopyOffset - 320) AND 0x07FF), 15)
         else Some (0x060000 OR ((CopyOffset - 2368) AND 0xFFFF), 19))
      else
        (if CopyOffset < 64 then Some (0x03C0 OR (CopyOffset AND 0x003F), 10)
         else if CopyOffset \<ge> 64 \<and> CopyOffset < 320 then Some (0x0E00 OR ((CopyOffset - 64) AND 0x00FF), 12)
         else if CopyOffset \<ge> 320 \<and> CopyOffset < 8192 then Some (0xC000 OR ((CopyOffset - 320) AND 0x1FFF), 16)
         else None))"

definition length_code :: "u32 \<Rightarrow> u32 \<Rightarrow> (u32 \<times> u32) option" where
  "length_code CompressionLevel LengthOfMatch =
     (if LengthOfMatch = 3 then Some (0, 1)
      else if LengthOfMatch \<ge> 4 \<and> LengthOfMatch < 8 then Some (0x0008 OR (LengthOfMatch AND 0x0003), 4)
      else if LengthOfMatch \<ge> 8 \<and> LengthOfMatch < 16 then Some (0x0030 OR (LengthOfMatch AND 0x0007), 6)
      else if LengthOfMatch \<ge> 16 \<and> LengthOfMatch < 32 then Some (0x00E0 OR (LengthOfMatch AND 0x000F), 8)
      else if LengthOfMatch \<ge> 32 \<and> LengthOfMatch < 64 then Some (0x03C0 OR (LengthOfMatch AND 0x001F), 10)
      else if LengthOfMatch \<ge> 64 \<and> LengthOfMatch < 128 then Some (0x0F80 OR (LengthOfMatch AND 0x003F), 12)
      else if LengthOfMatch \<ge> 128 \<and> LengthOfMatch < 256 then Some (0x3F00 OR (LengthOfMatch AND 0x007F), 14)
      else if LengthOfMatch \<ge> 256 \<and> LengthOfMatch < 512 then Some (0xFE00 OR (LengthOfMatch AND 0x00FF), 16)
      else if LengthOfMatch \<ge> 512 \<and> LengthOfMatch < 1024 then Some (0x3FC00 OR (LengthOfMatch AND 0x01FF), 18)
      else if LengthOfMatch \<ge> 1024 \<and> LengthOfMatch < 2048 then Some (0xFF800 OR (LengthOfMatch AND 0x03FF), 20)
      else if LengthOfMatch \<ge> 2048 \<and> LengthOfMatch < 4096 then Some (0x3FF000 OR (LengthOfMatch AND 0x07FF), 22)
      else if LengthOfMatch \<ge> 4096 \<and> LengthOfMatch < 8192 then Some (0xFFE000 OR (LengthOfMatch AND 0x0FFF), 24)
      else if LengthOfMatch \<ge> 8192 \<and> LengthOfMatch < 16384 \<and> CompressionLevel \<noteq> 0 then Some (0x3FFC000 OR (LengthOfMatch AND 0x1FFF), 26)
      else if LengthOfMatch \<ge> 16384 \<and> LengthOfMatch < 32768 \<and> CompressionLevel \<noteq> 0 then Some (0xFFF8000 OR (LengthOfMatch AND 0x3FFF), 28)
      else if LengthOfMatch \<ge> 32768 \<and> LengthOfMatch < 65536 \<and> CompressionLevel \<noteq> 0 then Some (0x3FFF0000 OR (LengthOfMatch AND 0x7FFF), 30)
      else None)"

definition room_left :: "mppc_context \<Rightarrow> u32 \<Rightarrow> u32 \<Rightarrow> bool" where
  "room_left mppc DstSize n \<longleftrightarrow> \<not> bs_position (mp_bs mppc) div 8 + n > DstSize - 1"

definition write_literal :: "u32 \<Rightarrow> u8 \<Rightarrow> mppc_context \<Rightarrow> (unit, mppc_context) res" where
  "write_literal DstSize symbol mppc =
     (if \<not> room_left mppc DstSize 2 then Fail (mppc_context_reset mppc True) else write_code mppc (literal_code symbol))"

definition write_optional :: "mppc_context \<Rightarrow> (u32 \<times> u32) option \<Rightarrow> (unit, mppc_context) res" where
  "write_optional mppc code = (case code of None \<Rightarrow> Ok () mppc | Some c \<Rightarrow> write_code mppc c)"

definition write_match :: "u32 \<Rightarrow> u32 \<Rightarrow> u32 \<Rightarrow> mppc_context \<Rightarrow> (unit, mppc_context) res" where
  "write_match DstSize CopyOffset LengthOfMatch mppc =
     (if \<not> room_left mppc DstSize 7 then Fail (mppc_context_reset mppc True)
      else and_then (write_optional mppc (offset_code (mp_CompressionLevel mppc) CopyOffset)) (\<lambda>_ mppc.
           write_optional mppc (length_code (mp_CompressionLevel mppc) LengthOfMatch)))"

text \<open>Whether the position \<open>m\<close> of the table starts a match; the comparisons end at the first difference.\<close>

definition match_found :: "u8 \<Rightarrow> u8 list \<Rightarrow> nat \<Rightarrow> nat \<Rightarrow> nat \<Rightarrow> u8 \<Rightarrow> u8 \<Rightarrow> u8 \<Rightarrow> bool option" where
  "match_found below history limit ptr m sym1 sym2 sym3 =
     (if length history < m then None
      else if sym1 \<noteq> (if m = 0 then below else history ! (m - 1)) then Some False
      else if length history \<le> m then None
      else if sym2 \<noteq> history ! m then Some False
      else if length history \<le> m + 1 then None
      else if sym3 \<noteq> history ! (m + 1) then Some False
      else Some (\<not> (m + 1 > limit \<or> m = 0 \<or> m = ptr - 1 \<or> m = ptr)))"

function extend_match ::
  "u8 list \<Rightarrow> nat \<Rightarrow> nat \<Rightarrow> nat \<Rightarrow> nat \<Rightarrow> u8 list \<Rightarrow> u32 \<Rightarrow> (nat \<times> nat \<times> u8 list \<times> u32) option" where
  "extend_match src limit i m ptr history len =
     (if length src \<le> i \<or> length history \<le> m then None
      else if src ! i = history ! m \<and> i < length src - 1 \<and> m \<le> limit then
        (if length history \<le> ptr then None
         else extend_match src limit (Suc i) (Suc m) (Suc ptr) (history[ptr := src ! i]) (len + 1))
      else Some (i, ptr, history, len))"
  by pat_completeness auto
termination
  by (relation "measure (\<lambda>(src, _, i, _). length src - i)") auto

declare extend_match.simps [simp del]

lemma extend_match_grows: "extend_match src limit i m ptr history len = Some (i', r) \<Longrightarrow> i \<le> i'"
  by (induction src limit i m ptr history len rule: extend_match.induct)
    (subst (asm) extend_match.simps, auto split: if_split_asm)

text \<open>The position behind the current symbol goes into the table, and the earlier one comes out of it.\<close>

definition note_symbol :: "mppc_context \<Rightarrow> nat \<Rightarrow> u8 \<Rightarrow> u8 \<Rightarrow> u8 \<Rightarrow> mppc_context \<times> nat" where
  "note_symbol mppc ptr sym1 sym2 sym3 =
     (let matchIndex = MPPC_MATCH_INDEX sym1 sym2 sym3;
          m = unat (mp_MatchBuffer mppc ! matchIndex);
          mppc = (if m \<noteq> ptr - 1 then mppc\<lparr>mp_MatchBuffer := (mp_MatchBuffer mppc)[matchIndex := of_nat ptr]\<rparr> else mppc);
          mppc = (if mp_HistoryPtr mppc < ptr then mppc\<lparr>mp_HistoryPtr := ptr\<rparr> else mppc)
      in (mppc, m))"

definition compress_step :: "u8 \<Rightarrow> u8 list \<Rightarrow> u32 \<Rightarrow> mppc_state \<Rightarrow> (unit, mppc_state) res" where
  "compress_step below src DstSize s =
     (case s of (mppc, i, ptr) \<Rightarrow>
        let sym1 = src ! i; sym2 = src ! (i + 1); sym3 = src ! (i + 2) in
        if length (mp_HistoryBuffer mppc) \<le> ptr then Fault
        else
          let mppc = mppc\<lparr>mp_HistoryBuffer := (mp_HistoryBuffer mppc)[ptr := sym1]\<rparr>;
              ptr = ptr + 1; i = i + 1;
              (mppc, m) = note_symbol mppc ptr sym1 sym2 sym3
          in case match_found below (mp_HistoryBuffer mppc) (mp_HistoryPtr mppc) ptr m sym1 sym2 sym3 of
               None \<Rightarrow> Fault
             | Some False \<Rightarrow>
                 (case write_literal DstSize sym1 mppc of
                    Ok _ mppc \<Rightarrow> Ok () (mppc, i, ptr) | Fail mppc \<Rightarrow> Fail (mppc, i, ptr) | Fault \<Rightarrow> Fault)
             | Some True \<Rightarrow>
                 let CopyOffset = (mp_HistoryBufferSize mppc - 1) AND word_of_int (int ptr - int m) in
                 if length (mp_HistoryBuffer mppc) \<le> ptr + 1 then Fault
                 else
                   (case extend_match src (mp_HistoryPtr mppc) (i + 2) (m + 2) (ptr + 2)
                           ((mp_HistoryBuffer mppc)[ptr := sym2, ptr + 1 := sym3]) 3 of
                      None \<Rightarrow> Fault
                    | Some (i, ptr, history, LengthOfMatch) \<Rightarrow>
                        (case write_match DstSize CopyOffset LengthOfMatch (mppc\<lparr>mp_HistoryBuffer := history\<rparr>) of
                           Ok _ mppc \<Rightarrow> Ok () (mppc, i, ptr) | Fail mppc \<Rightarrow> Fail (mppc, i, ptr) | Fault \<Rightarrow> Fault)))"

lemma compress_step_grows:
  "compress_step below src DstSize (mppc, i, ptr) = Ok () (mppc', i', ptr') \<Longrightarrow> i < i'"
  unfolding compress_step_def Let_def
  by (auto split: if_split_asm option.split_asm bool.split_asm res.split_asm prod.split_asm dest: extend_match_grows)

lemma and_then_cong [fundef_cong]:
  "r = r' \<Longrightarrow> (\<And>a s. r' = Ok a s \<Longrightarrow> f a s = f' a s) \<Longrightarrow> and_then r f = and_then r' f'"
  by (cases r') auto

function compress_loop :: "u8 \<Rightarrow> u8 list \<Rightarrow> u32 \<Rightarrow> mppc_state \<Rightarrow> (unit, mppc_state) res" where
  "compress_loop below src DstSize (mppc, i, ptr) =
     (if i + 3 < length src
      then and_then (compress_step below src DstSize (mppc, i, ptr)) (\<lambda>_ s. compress_loop below src DstSize s)
      else Ok () (mppc, i, ptr))"
  by pat_completeness auto
termination
  by (relation "measure (\<lambda>(_, src, _, _, i, _). length src - i)") (auto dest!: compress_step_grows)

text \<open>The last symbols are written as literals.\<close>

function compress_tail :: "u8 list \<Rightarrow> u32 \<Rightarrow> mppc_state \<Rightarrow> (unit, mppc_state) res" where
  "compress_tail src DstSize (mppc, i, ptr) =
     (if i < length src then
        (case write_literal DstSize (src ! i) mppc of
           Ok _ mppc \<Rightarrow>
             if length (mp_HistoryBuffer mppc) \<le> ptr then Fault
             else compress_tail src DstSize (mppc\<lparr>mp_HistoryBuffer := (mp_HistoryBuffer mppc)[ptr := src ! i]\<rparr>, i + 1, ptr + 1)
         | Fail mppc \<Rightarrow> Fail (mppc, i, ptr)
         | Fault \<Rightarrow> Fault)
      else Ok () (mppc, i, ptr))"
  by pat_completeness auto
termination
  by (relation "measure (\<lambda>(src, _, _, i, _). length src - i)") auto

declare compress_loop.simps [simp del] compress_tail.simps [simp del]

text \<open>
  \<open>dst\<close> is the block at \<^verbatim>\<open>*ppDstData\<close>, of \<^verbatim>\<open>*pDstSize\<close> bytes; the bit stream gets as much of it as \<^verbatim>\<open>DstSize\<close> says. The result is the
  status, the bytes at \<^verbatim>\<open>*ppDstData\<close> afterwards and the flags.
\<close>

definition mppc_compress ::
  "u8 \<Rightarrow> mppc_context \<Rightarrow> u8 list \<Rightarrow> u8 list option \<Rightarrow> (int \<times> u8 list option \<times> u32, mppc_context) res" where
  "mppc_compress below mppc src dst =
     (let SrcSize = of_nat (length src);
          keep = (mp_HistoryOffset mppc + SrcSize < mp_HistoryBufferSize mppc - 3 \<and> mp_HistoryOffset mppc \<noteq> 0);
          PacketAtFront = (\<not> keep);
          PacketFlushed = (\<not> keep \<and> mp_HistoryOffset mppc = mp_HistoryBufferSize mppc + 1);
          HistoryOffset = (if keep then mp_HistoryOffset mppc else 0)
      in case dst of
           None \<Rightarrow> Ok (- 1, None, 0) mppc
         | Some pDstData \<Rightarrow>
             let DstSize = (if of_nat (length pDstData) > SrcSize then SrcSize else of_nat (length pDstData));
                 bs = BitStream_Attach (mp_bs mppc) (take (unat DstSize) pDstData) DstSize;
                 level = mp_CompressionLevel mppc
             in case and_then (compress_loop below src DstSize (mppc\<lparr>mp_bs := bs\<rparr>, 0, unat HistoryOffset)) (\<lambda>_ s.
                       compress_tail src DstSize s) of
                  Fault \<Rightarrow> Fault
                | Fail (mppc, _) \<Rightarrow> Ok (1, Some src, PACKET_FLUSHED OR level) mppc
                | Ok _ (mppc, _, ptr) \<Rightarrow>
                    (case BitStream_Flush (mp_bs mppc) of
                       Ok _ bs \<Rightarrow>
                         let flags = PACKET_COMPRESSED OR level OR (if PacketAtFront then PACKET_AT_FRONT else 0) OR
                               (if PacketFlushed then PACKET_FLUSHED else 0)
                         in Ok (1, Some (take (unat ((bs_position bs + 7) div 8)) (bs_buffer bs)), flags)
                              (mppc\<lparr>mp_bs := bs, mp_HistoryPtr := ptr, mp_HistoryOffset := of_nat ptr\<rparr>)
                     | _ \<Rightarrow> Fault))"

end
