(* ===== verification/Mppc_Codes.thy ===== *)
theory Mppc_Codes
  imports Codec_Mppc
begin

text \<open>
  The prefix code of MPPC: what the decompressor makes of a code that the compressor wrote. Both sides are
  brought into arithmetic: a code is the leading digits of the accumulator, a test of its leading bits is an interval.
\<close>

section \<open>Fields of a word\<close>

lemma unat_and_mask: "unat ((x :: u32) AND m) = unat x mod 2 ^ k" if "m = mask k"
  unfolding that take_bit_eq_mask [symmetric] by (simp only: unsigned_take_bit_eq) (simp only: take_bit_eq_mod)

lemma unat_or_field: "unat ((b :: u32) OR (x AND m)) = unat b + unat x mod 2 ^ k" if "b AND m = 0" "m = mask k"
proof -
  have "b AND (x AND m) = 0" using that(1) by (metis and.left_commute and_zero_eq)
  then have or: "b OR (x AND m) = b + (x AND m)" by (simp add: disjunctive_add_eq_or)
  have "b \<le> b OR (x AND m)" by (rule le_word_or2)
  then show ?thesis unfolding or unat_plus_simple unat_and_mask [OF that(2), symmetric] .
qed

lemma unat_less32: "unat (x :: u32) < 2 ^ 32"
  using unsigned_less [of x] by simp

lemma unat_drop: "unat (drop_bit k (x :: u32)) = unat x div 2 ^ k"
  by (simp add: unsigned_drop_bit_eq flip: drop_bit_eq_div) (simp add: take_bit_nat_eq_self unat_less32 [simplified])

lemma top_test:
  assumes "M = NOT (mask k)" "C = push_bit k c" "unat c < 2 ^ (32 - k)" "k \<le> 32"
  shows "(x :: u32) AND M = C \<longleftrightarrow> unat c * 2 ^ k \<le> unat x \<and> unat x < unat c * 2 ^ k + 2 ^ k"
proof -
  have "x AND M = push_bit k (drop_bit k x)" unfolding assms(1) by (rule bit_word_eqI) (auto simp: bit_simps)
  moreover have "drop_bit k (push_bit k y) = y" if "unat y < 2 ^ (32 - k)" for y :: u32
  proof (rule bit_word_eqI)
    fix i
    have "\<not> bit y i" if "32 - k \<le> i"
      using \<open>unat y < _\<close> that by (meson bit_less_exp less_le_trans one_le_numeral power_increasing)
    then show "bit (drop_bit k (push_bit k y)) i = bit y i" by (cases "32 - k \<le> i") (auto simp: bit_simps)
  qed
  moreover have "unat (drop_bit k x) < 2 ^ (32 - k)"
    using unat_less32 [of x] assms(4) unfolding unat_drop by (simp add: less_mult_imp_div_less flip: power_add)
  ultimately have "x AND M = C \<longleftrightarrow> drop_bit k x = c" using assms(2,3) by metis
  also have "\<dots> \<longleftrightarrow> unat x div 2 ^ k = unat c" by (simp only: unat_drop [symmetric] word_unat_eq_iff)
  also have "\<dots> \<longleftrightarrow> unat c * 2 ^ k \<le> unat x \<and> unat x < unat c * 2 ^ k + 2 ^ k"
  proof
    assume e: "unat x div 2 ^ k = unat c"
    show "unat c * 2 ^ k \<le> unat x \<and> unat x < unat c * 2 ^ k + 2 ^ k"
      using div_times_less_eq_dividend [of "unat x" "2 ^ k"] dividend_less_div_times [of "2 ^ k" "unat x"] unfolding e by simp
  qed (auto intro!: div_nat_eqI simp: ac_simps)
  finally show ?thesis .
qed

lemma top_tests:
  fixes x :: u32
  shows "x AND 0x80000000 = 0 \<longleftrightarrow> unat x < 0x80000000"
    "x AND 0xC0000000 = 0x80000000 \<longleftrightarrow> 0x80000000 \<le> unat x \<and> unat x < 0xC0000000"
    "x AND 0xE0000000 = 0xC0000000 \<longleftrightarrow> 0xC0000000 \<le> unat x \<and> unat x < 0xE0000000"
    "x AND 0xF0000000 = 0xE0000000 \<longleftrightarrow> 0xE0000000 \<le> unat x \<and> unat x < 0xF0000000"
    "x AND 0xF0000000 = 0xF0000000 \<longleftrightarrow> 0xF0000000 \<le> unat x \<and> unat x < 0x100000000"
    "x AND 0xF8000000 = 0xF0000000 \<longleftrightarrow> 0xF0000000 \<le> unat x \<and> unat x < 0xF8000000"
    "x AND 0xF8000000 = 0xF8000000 \<longleftrightarrow> 0xF8000000 \<le> unat x \<and> unat x < 0x100000000"
    "x AND 0xFC000000 = 0xF8000000 \<longleftrightarrow> 0xF8000000 \<le> unat x \<and> unat x < 0xFC000000"
    "x AND 0xFE000000 = 0xFC000000 \<longleftrightarrow> 0xFC000000 \<le> unat x \<and> unat x < 0xFE000000"
    "x AND 0xFF000000 = 0xFE000000 \<longleftrightarrow> 0xFE000000 \<le> unat x \<and> unat x < 0xFF000000"
    "x AND 0xFF800000 = 0xFF000000 \<longleftrightarrow> 0xFF000000 \<le> unat x \<and> unat x < 0xFF800000"
    "x AND 0xFFC00000 = 0xFF800000 \<longleftrightarrow> 0xFF800000 \<le> unat x \<and> unat x < 0xFFC00000"
    "x AND 0xFFE00000 = 0xFFC00000 \<longleftrightarrow> 0xFFC00000 \<le> unat x \<and> unat x < 0xFFE00000"
    "x AND 0xFFF00000 = 0xFFE00000 \<longleftrightarrow> 0xFFE00000 \<le> unat x \<and> unat x < 0xFFF00000"
    "x AND 0xFFF80000 = 0xFFF00000 \<longleftrightarrow> 0xFFF00000 \<le> unat x \<and> unat x < 0xFFF80000"
    "x AND 0xFFFC0000 = 0xFFF80000 \<longleftrightarrow> 0xFFF80000 \<le> unat x \<and> unat x < 0xFFFC0000"
    "x AND 0xFFFE0000 = 0xFFFC0000 \<longleftrightarrow> 0xFFFC0000 \<le> unat x \<and> unat x < 0xFFFE0000"
proof -
  show "x AND 0x80000000 = 0 \<longleftrightarrow> unat x < 0x80000000" by (subst top_test [of "0x80000000" 31 "0" 0]) (simp_all add: mask_numeral)
  show "x AND 0xC0000000 = 0x80000000 \<longleftrightarrow> 0x80000000 \<le> unat x \<and> unat x < 0xC0000000" by (subst top_test [of "0xC0000000" 30 "0x80000000" 2]) (simp_all add: mask_numeral)
  show "x AND 0xE0000000 = 0xC0000000 \<longleftrightarrow> 0xC0000000 \<le> unat x \<and> unat x < 0xE0000000" by (subst top_test [of "0xE0000000" 29 "0xC0000000" 6]) (simp_all add: mask_numeral)
  show "x AND 0xF0000000 = 0xE0000000 \<longleftrightarrow> 0xE0000000 \<le> unat x \<and> unat x < 0xF0000000" by (subst top_test [of "0xF0000000" 28 "0xE0000000" 14]) (simp_all add: mask_numeral)
  show "x AND 0xF0000000 = 0xF0000000 \<longleftrightarrow> 0xF0000000 \<le> unat x \<and> unat x < 0x100000000" by (subst top_test [of "0xF0000000" 28 "0xF0000000" 15]) (simp_all add: mask_numeral)
  show "x AND 0xF8000000 = 0xF0000000 \<longleftrightarrow> 0xF0000000 \<le> unat x \<and> unat x < 0xF8000000" by (subst top_test [of "0xF8000000" 27 "0xF0000000" 30]) (simp_all add: mask_numeral)
  show "x AND 0xF8000000 = 0xF8000000 \<longleftrightarrow> 0xF8000000 \<le> unat x \<and> unat x < 0x100000000" by (subst top_test [of "0xF8000000" 27 "0xF8000000" 31]) (simp_all add: mask_numeral)
  show "x AND 0xFC000000 = 0xF8000000 \<longleftrightarrow> 0xF8000000 \<le> unat x \<and> unat x < 0xFC000000" by (subst top_test [of "0xFC000000" 26 "0xF8000000" 62]) (simp_all add: mask_numeral)
  show "x AND 0xFE000000 = 0xFC000000 \<longleftrightarrow> 0xFC000000 \<le> unat x \<and> unat x < 0xFE000000" by (subst top_test [of "0xFE000000" 25 "0xFC000000" 126]) (simp_all add: mask_numeral)
  show "x AND 0xFF000000 = 0xFE000000 \<longleftrightarrow> 0xFE000000 \<le> unat x \<and> unat x < 0xFF000000" by (subst top_test [of "0xFF000000" 24 "0xFE000000" 254]) (simp_all add: mask_numeral)
  show "x AND 0xFF800000 = 0xFF000000 \<longleftrightarrow> 0xFF000000 \<le> unat x \<and> unat x < 0xFF800000" by (subst top_test [of "0xFF800000" 23 "0xFF000000" 510]) (simp_all add: mask_numeral)
  show "x AND 0xFFC00000 = 0xFF800000 \<longleftrightarrow> 0xFF800000 \<le> unat x \<and> unat x < 0xFFC00000" by (subst top_test [of "0xFFC00000" 22 "0xFF800000" 1022]) (simp_all add: mask_numeral)
  show "x AND 0xFFE00000 = 0xFFC00000 \<longleftrightarrow> 0xFFC00000 \<le> unat x \<and> unat x < 0xFFE00000" by (subst top_test [of "0xFFE00000" 21 "0xFFC00000" 2046]) (simp_all add: mask_numeral)
  show "x AND 0xFFF00000 = 0xFFE00000 \<longleftrightarrow> 0xFFE00000 \<le> unat x \<and> unat x < 0xFFF00000" by (subst top_test [of "0xFFF00000" 20 "0xFFE00000" 4094]) (simp_all add: mask_numeral)
  show "x AND 0xFFF80000 = 0xFFF00000 \<longleftrightarrow> 0xFFF00000 \<le> unat x \<and> unat x < 0xFFF80000" by (subst top_test [of "0xFFF80000" 19 "0xFFF00000" 8190]) (simp_all add: mask_numeral)
  show "x AND 0xFFFC0000 = 0xFFF80000 \<longleftrightarrow> 0xFFF80000 \<le> unat x \<and> unat x < 0xFFFC0000" by (subst top_test [of "0xFFFC0000" 18 "0xFFF80000" 16382]) (simp_all add: mask_numeral)
  show "x AND 0xFFFE0000 = 0xFFFC0000 \<longleftrightarrow> 0xFFFC0000 \<le> unat x \<and> unat x < 0xFFFE0000" by (subst top_test [of "0xFFFE0000" 17 "0xFFFC0000" 32766]) (simp_all add: mask_numeral)
qed

text \<open>The leading bits of the accumulator are a code: \<open>b\<close> with \<open>k\<close> digits \<open>y\<close> behind it.\<close>

lemma code_ahead:
  assumes "drop_bit s (acc :: u32) = v" "unat v = b + y" "y < 2 ^ k" "b mod 2 ^ k = 0"
  shows "b * 2 ^ s \<le> unat acc" "unat acc < (b + 2 ^ k) * 2 ^ s" "unat (drop_bit s acc) mod 2 ^ k = y"
proof -
  define r where "r = unat acc mod 2 ^ s"
  have r: "r < 2 ^ s" and a: "unat acc = (b + y) * 2 ^ s + r"
    using div_mult_mod_eq [of "unat acc" "2 ^ s"] assms(1,2) unat_drop [of s acc] by (simp_all add: r_def)
  show "b * 2 ^ s \<le> unat acc" unfolding a by (simp add: algebra_simps)
  have "(b + y) * 2 ^ s + r < (b + y) * 2 ^ s + 2 ^ s" using r by simp
  also have "\<dots> = (b + Suc y) * 2 ^ s" by (simp add: algebra_simps)
  also have "\<dots> \<le> (b + 2 ^ k) * 2 ^ s" using assms(3) by (intro mult_le_mono1) simp
  finally show "unat acc < (b + 2 ^ k) * 2 ^ s" unfolding a .
  have "(b + y) mod 2 ^ k = y" using assms(3,4) by (metis mod_add_left_eq add_0 mod_less)
  then show "unat (drop_bit s acc) mod 2 ^ k = y" using assms(1,2) by simp
qed

section \<open>Codes\<close>

lemma or_fields:
  fixes x :: u32
  shows "unat (0x07C0 OR (x AND 0x003F)) = 0x07C0 + unat x mod 64" "unat (0x1E00 OR (x AND 0x00FF)) = 0x1E00 + unat x mod 256"
    "unat (0x7000 OR (x AND 0x07FF)) = 0x7000 + unat x mod 2048" "unat (0x060000 OR (x AND 0xFFFF)) = 0x060000 + unat x mod 65536"
    "unat (0x03C0 OR (x AND 0x003F)) = 0x03C0 + unat x mod 64" "unat (0x0E00 OR (x AND 0x00FF)) = 0x0E00 + unat x mod 256"
    "unat (0xC000 OR (x AND 0x1FFF)) = 0xC000 + unat x mod 8192"
    "unat (0x0008 OR (x AND 0x0003)) = 0x0008 + unat x mod 4" "unat (0x0030 OR (x AND 0x0007)) = 0x0030 + unat x mod 8"
    "unat (0x00E0 OR (x AND 0x000F)) = 0x00E0 + unat x mod 16" "unat (0x03C0 OR (x AND 0x001F)) = 0x03C0 + unat x mod 32"
    "unat (0x0F80 OR (x AND 0x003F)) = 0x0F80 + unat x mod 64" "unat (0x3F00 OR (x AND 0x007F)) = 0x3F00 + unat x mod 128"
    "unat (0xFE00 OR (x AND 0x00FF)) = 0xFE00 + unat x mod 256" "unat (0x3FC00 OR (x AND 0x01FF)) = 0x3FC00 + unat x mod 512"
    "unat (0xFF800 OR (x AND 0x03FF)) = 0xFF800 + unat x mod 1024" "unat (0x3FF000 OR (x AND 0x07FF)) = 0x3FF000 + unat x mod 2048"
    "unat (0xFFE000 OR (x AND 0x0FFF)) = 0xFFE000 + unat x mod 4096" "unat (0x3FFC000 OR (x AND 0x1FFF)) = 0x3FFC000 + unat x mod 8192"
    "unat (0xFFF8000 OR (x AND 0x3FFF)) = 0xFFF8000 + unat x mod 16384" "unat (0x3FFF0000 OR (x AND 0x7FFF)) = 0x3FFF0000 + unat x mod 32768"
    "unat (0x100 OR (x AND 0x7F)) = 0x100 + unat x mod 128"
proof -
  show "unat (0x07C0 OR (x AND 0x003F)) = 0x07C0 + unat x mod 64" by (subst unat_or_field [where k = 6]) (simp_all add: mask_numeral)
  show "unat (0x1E00 OR (x AND 0x00FF)) = 0x1E00 + unat x mod 256" by (subst unat_or_field [where k = 8]) (simp_all add: mask_numeral)
  show "unat (0x7000 OR (x AND 0x07FF)) = 0x7000 + unat x mod 2048" by (subst unat_or_field [where k = 11]) (simp_all add: mask_numeral)
  show "unat (0x060000 OR (x AND 0xFFFF)) = 0x060000 + unat x mod 65536" by (subst unat_or_field [where k = 16]) (simp_all add: mask_numeral)
  show "unat (0x03C0 OR (x AND 0x003F)) = 0x03C0 + unat x mod 64" by (subst unat_or_field [where k = 6]) (simp_all add: mask_numeral)
  show "unat (0x0E00 OR (x AND 0x00FF)) = 0x0E00 + unat x mod 256" by (subst unat_or_field [where k = 8]) (simp_all add: mask_numeral)
  show "unat (0xC000 OR (x AND 0x1FFF)) = 0xC000 + unat x mod 8192" by (subst unat_or_field [where k = 13]) (simp_all add: mask_numeral)
  show "unat (0x0008 OR (x AND 0x0003)) = 0x0008 + unat x mod 4" by (subst unat_or_field [where k = 2]) (simp_all add: mask_numeral)
  show "unat (0x0030 OR (x AND 0x0007)) = 0x0030 + unat x mod 8" by (subst unat_or_field [where k = 3]) (simp_all add: mask_numeral)
  show "unat (0x00E0 OR (x AND 0x000F)) = 0x00E0 + unat x mod 16" by (subst unat_or_field [where k = 4]) (simp_all add: mask_numeral)
  show "unat (0x03C0 OR (x AND 0x001F)) = 0x03C0 + unat x mod 32" by (subst unat_or_field [where k = 5]) (simp_all add: mask_numeral)
  show "unat (0x0F80 OR (x AND 0x003F)) = 0x0F80 + unat x mod 64" by (subst unat_or_field [where k = 6]) (simp_all add: mask_numeral)
  show "unat (0x3F00 OR (x AND 0x007F)) = 0x3F00 + unat x mod 128" by (subst unat_or_field [where k = 7]) (simp_all add: mask_numeral)
  show "unat (0xFE00 OR (x AND 0x00FF)) = 0xFE00 + unat x mod 256" by (subst unat_or_field [where k = 8]) (simp_all add: mask_numeral)
  show "unat (0x3FC00 OR (x AND 0x01FF)) = 0x3FC00 + unat x mod 512" by (subst unat_or_field [where k = 9]) (simp_all add: mask_numeral)
  show "unat (0xFF800 OR (x AND 0x03FF)) = 0xFF800 + unat x mod 1024" by (subst unat_or_field [where k = 10]) (simp_all add: mask_numeral)
  show "unat (0x3FF000 OR (x AND 0x07FF)) = 0x3FF000 + unat x mod 2048" by (subst unat_or_field [where k = 11]) (simp_all add: mask_numeral)
  show "unat (0xFFE000 OR (x AND 0x0FFF)) = 0xFFE000 + unat x mod 4096" by (subst unat_or_field [where k = 12]) (simp_all add: mask_numeral)
  show "unat (0x3FFC000 OR (x AND 0x1FFF)) = 0x3FFC000 + unat x mod 8192" by (subst unat_or_field [where k = 13]) (simp_all add: mask_numeral)
  show "unat (0xFFF8000 OR (x AND 0x3FFF)) = 0xFFF8000 + unat x mod 16384" by (subst unat_or_field [where k = 14]) (simp_all add: mask_numeral)
  show "unat (0x3FFF0000 OR (x AND 0x7FFF)) = 0x3FFF0000 + unat x mod 32768" by (subst unat_or_field [where k = 15]) (simp_all add: mask_numeral)
  show "unat (0x100 OR (x AND 0x7F)) = 0x100 + unat x mod 128" by (subst unat_or_field [where k = 7]) (simp_all add: mask_numeral)
qed

lemma and_fields:
  fixes x :: u32
  shows "unat (x AND 0x0003) = unat x mod 4" "unat (x AND 0x0007) = unat x mod 8" "unat (x AND 0x000F) = unat x mod 16"
    "unat (x AND 0x001F) = unat x mod 32" "unat (x AND 0x003F) = unat x mod 64" "unat (x AND 0x007F) = unat x mod 128"
    "unat (x AND 0x00FF) = unat x mod 256" "unat (x AND 0x01FF) = unat x mod 512" "unat (x AND 0x03FF) = unat x mod 1024"
    "unat (x AND 0x07FF) = unat x mod 2048" "unat (x AND 0x0FFF) = unat x mod 4096" "unat (x AND 0x1FFF) = unat x mod 8192"
    "unat (x AND 0x3FFF) = unat x mod 16384" "unat (x AND 0x7FFF) = unat x mod 32768" "unat (x AND 0xFFFF) = unat x mod 65536"
proof -
  show "unat (x AND 0x0003) = unat x mod 4" by (subst unat_and_mask [where k = 2]) (simp_all add: mask_numeral)
  show "unat (x AND 0x0007) = unat x mod 8" by (subst unat_and_mask [where k = 3]) (simp_all add: mask_numeral)
  show "unat (x AND 0x000F) = unat x mod 16" by (subst unat_and_mask [where k = 4]) (simp_all add: mask_numeral)
  show "unat (x AND 0x001F) = unat x mod 32" by (subst unat_and_mask [where k = 5]) (simp_all add: mask_numeral)
  show "unat (x AND 0x003F) = unat x mod 64" by (subst unat_and_mask [where k = 6]) (simp_all add: mask_numeral)
  show "unat (x AND 0x007F) = unat x mod 128" by (subst unat_and_mask [where k = 7]) (simp_all add: mask_numeral)
  show "unat (x AND 0x00FF) = unat x mod 256" by (subst unat_and_mask [where k = 8]) (simp_all add: mask_numeral)
  show "unat (x AND 0x01FF) = unat x mod 512" by (subst unat_and_mask [where k = 9]) (simp_all add: mask_numeral)
  show "unat (x AND 0x03FF) = unat x mod 1024" by (subst unat_and_mask [where k = 10]) (simp_all add: mask_numeral)
  show "unat (x AND 0x07FF) = unat x mod 2048" by (subst unat_and_mask [where k = 11]) (simp_all add: mask_numeral)
  show "unat (x AND 0x0FFF) = unat x mod 4096" by (subst unat_and_mask [where k = 12]) (simp_all add: mask_numeral)
  show "unat (x AND 0x1FFF) = unat x mod 8192" by (subst unat_and_mask [where k = 13]) (simp_all add: mask_numeral)
  show "unat (x AND 0x3FFF) = unat x mod 16384" by (subst unat_and_mask [where k = 14]) (simp_all add: mask_numeral)
  show "unat (x AND 0x7FFF) = unat x mod 32768" by (subst unat_and_mask [where k = 15]) (simp_all add: mask_numeral)
  show "unat (x AND 0xFFFF) = unat x mod 65536" by (subst unat_and_mask [where k = 16]) (simp_all add: mask_numeral)
qed

lemma mod_between: "m \<le> x \<Longrightarrow> x < 2 * m \<Longrightarrow> x mod m = x - m" for x m :: nat
  by (simp add: le_mod_geq)

lemma unat_sub: "c \<le> x \<Longrightarrow> unat (x - c) = unat x - unat c" for x c :: u32
  by (simp add: unat_sub_if' word_le_nat_alt)

lemma row_read:
  assumes "drop_bit s (acc :: u32) = v" "unat v = b + (unat x - unat a)" "unat a \<le> unat x" "unat x < unat a + 2 ^ k"
    "b mod 2 ^ k = 0" "m = mask k" "unat a + 2 ^ k \<le> 2 ^ 32"
  shows "(drop_bit s acc AND m) + a = x" "b * 2 ^ s \<le> unat acc" "unat acc < (b + 2 ^ k) * 2 ^ s"
proof -
  note c = code_ahead [OF assms(1,2) _ assms(5)]
  have y: "unat x - unat a < 2 ^ k" using assms(3,4) by linarith
  have "unat m < 2 ^ k" using unat_and_mask [OF assms(6), of m] mod_less_divisor [of "2 ^ k" "unat m"] by simp
  then have "unat m + unat a < 2 ^ 32" using assms(7) by linarith
  then have "unat ((drop_bit s acc AND m) + a) = unat x"
    using c(3) [OF y] assms(3) unfolding unat_field [OF \<open>unat m + unat a < 2 ^ 32\<close>] unat_and_mask [OF assms(6)] by simp
  then show "(drop_bit s acc AND m) + a = x" by (simp only: word_unat_eq_iff)
  show "b * 2 ^ s \<le> unat acc" "unat acc < (b + 2 ^ k) * 2 ^ s" using c(1,2) [OF y] by simp_all
qed

text \<open>A distance below the size of the history is read as it was written.\<close>

lemma offset_code_read:
  assumes c: "offset_code level off = Some (v, n)" and o: "unat off < 65536" and d: "drop_bit (32 - unat n) acc = v"
  shows "read_copy_offset level acc = Inr (off, n)"
proof -
  consider
    (1) "level \<noteq> 0" "n = 11" "v = 0x7C0 OR (off AND 0x3F)" "0 \<le> unat off" "unat off < 64"
    | (2) "level \<noteq> 0" "n = 13" "v = 0x1E00 OR ((off - 64) AND 0xFF)" "64 \<le> unat off" "unat off < 320"
    | (3) "level \<noteq> 0" "n = 15" "v = 0x7000 OR ((off - 320) AND 0x7FF)" "320 \<le> unat off" "unat off < 2368"
    | (4) "level \<noteq> 0" "n = 19" "v = 0x60000 OR ((off - 2368) AND 0xFFFF)" "2368 \<le> unat off" "unat off < 65536"
    | (5) "level = 0" "n = 10" "v = 0x3C0 OR (off AND 0x3F)" "0 \<le> unat off" "unat off < 64"
    | (6) "level = 0" "n = 12" "v = 0xE00 OR ((off - 64) AND 0xFF)" "64 \<le> unat off" "unat off < 320"
    | (7) "level = 0" "n = 16" "v = 0xC000 OR ((off - 320) AND 0x1FFF)" "320 \<le> unat off" "unat off < 8192"
    using c o by (auto simp: offset_code_def word_less_nat_alt word_le_nat_alt split: if_split_asm)
  then show ?thesis
  proof cases
    case 1
    then have "unat v = 0x7C0 + (unat off - unat (0 :: u32))" by (simp add: or_fields unat_sub word_le_nat_alt)
    from row_read [OF d this, of 6 "0x3F"] 1 show ?thesis by (simp add: read_copy_offset_def top_tests mask_numeral)
  next
    case 2
    then have "unat v = 0x1E00 + (unat off - unat (64 :: u32))" by (simp add: or_fields unat_sub word_le_nat_alt)
    from row_read [OF d this, of 8 "0xFF"] 2 show ?thesis by (simp add: read_copy_offset_def top_tests mask_numeral)
  next
    case 3
    then have "unat v = 0x7000 + (unat off - unat (320 :: u32))" by (simp add: or_fields unat_sub word_le_nat_alt)
    from row_read [OF d this, of 11 "0x7FF"] 3 show ?thesis by (simp add: read_copy_offset_def top_tests mask_numeral)
  next
    case 4
    then have "unat v = 0x60000 + (unat off - unat (2368 :: u32))" by (simp add: or_fields unat_sub word_le_nat_alt)
    from row_read [OF d this, of 16 "0xFFFF"] 4 show ?thesis by (simp add: read_copy_offset_def top_tests mask_numeral)
  next
    case 5
    then have "unat v = 0x3C0 + (unat off - unat (0 :: u32))" by (simp add: or_fields unat_sub word_le_nat_alt)
    from row_read [OF d this, of 6 "0x3F"] 5 show ?thesis by (simp add: read_copy_offset_def top_tests mask_numeral)
  next
    case 6
    then have "unat v = 0xE00 + (unat off - unat (64 :: u32))" by (simp add: or_fields unat_sub word_le_nat_alt)
    from row_read [OF d this, of 8 "0xFF"] 6 show ?thesis by (simp add: read_copy_offset_def top_tests mask_numeral)
  next
    case 7
    then have "unat v = 0xC000 + (unat off - unat (320 :: u32))" by (simp add: or_fields unat_sub word_le_nat_alt)
    from row_read [OF d this, of 13 "0x1FFF"] 7 show ?thesis by (simp add: read_copy_offset_def top_tests mask_numeral)
  qed
qed

text \<open>So is a length.\<close>

lemma length_code_read:
  assumes c: "length_code level len = Some (v, n)" and d: "drop_bit (32 - unat n) acc = v"
  shows "read_match_length level acc = Inr (len, n)"
proof -
  consider
    (1) "n = 1" "v = 0" "len = 3"
    | (2) "n = 4" "v = 0x8 OR (len AND 0x3)" "4 \<le> unat len" "unat len < 8"
    | (3) "n = 6" "v = 0x30 OR (len AND 0x7)" "8 \<le> unat len" "unat len < 16"
    | (4) "n = 8" "v = 0xE0 OR (len AND 0xF)" "16 \<le> unat len" "unat len < 32"
    | (5) "n = 10" "v = 0x3C0 OR (len AND 0x1F)" "32 \<le> unat len" "unat len < 64"
    | (6) "n = 12" "v = 0xF80 OR (len AND 0x3F)" "64 \<le> unat len" "unat len < 128"
    | (7) "n = 14" "v = 0x3F00 OR (len AND 0x7F)" "128 \<le> unat len" "unat len < 256"
    | (8) "n = 16" "v = 0xFE00 OR (len AND 0xFF)" "256 \<le> unat len" "unat len < 512"
    | (9) "n = 18" "v = 0x3FC00 OR (len AND 0x1FF)" "512 \<le> unat len" "unat len < 1024"
    | (10) "n = 20" "v = 0xFF800 OR (len AND 0x3FF)" "1024 \<le> unat len" "unat len < 2048"
    | (11) "n = 22" "v = 0x3FF000 OR (len AND 0x7FF)" "2048 \<le> unat len" "unat len < 4096"
    | (12) "n = 24" "v = 0xFFE000 OR (len AND 0xFFF)" "4096 \<le> unat len" "unat len < 8192"
    | (13) "n = 26" "v = 0x3FFC000 OR (len AND 0x1FFF)" "8192 \<le> unat len" "unat len < 16384" "level \<noteq> 0"
    | (14) "n = 28" "v = 0xFFF8000 OR (len AND 0x3FFF)" "16384 \<le> unat len" "unat len < 32768" "level \<noteq> 0"
    | (15) "n = 30" "v = 0x3FFF0000 OR (len AND 0x7FFF)" "32768 \<le> unat len" "unat len < 65536" "level \<noteq> 0"
    using c by (auto simp: length_code_def word_less_nat_alt word_le_nat_alt split: if_split_asm)
  then show ?thesis
  proof cases
    case 1
    then have "unat acc < 0x80000000" using d unat_drop [of 31 acc] by (simp add: div_eq_0_iff)
    with 1 show ?thesis by (simp add: read_match_length_def top_tests)
  next
    case 2
    then have "unat v = 0x8 + (unat len - unat (4 :: u32))" by (simp add: or_fields mod_between)
    from row_read [OF d this, of 2 "0x3"] 2 show ?thesis by (simp add: read_match_length_def top_tests mask_numeral)
  next
    case 3
    then have "unat v = 0x30 + (unat len - unat (8 :: u32))" by (simp add: or_fields mod_between)
    from row_read [OF d this, of 3 "0x7"] 3 show ?thesis by (simp add: read_match_length_def top_tests mask_numeral)
  next
    case 4
    then have "unat v = 0xE0 + (unat len - unat (16 :: u32))" by (simp add: or_fields mod_between)
    from row_read [OF d this, of 4 "0xF"] 4 show ?thesis by (simp add: read_match_length_def top_tests mask_numeral)
  next
    case 5
    then have "unat v = 0x3C0 + (unat len - unat (32 :: u32))" by (simp add: or_fields mod_between)
    from row_read [OF d this, of 5 "0x1F"] 5 show ?thesis by (simp add: read_match_length_def top_tests mask_numeral)
  next
    case 6
    then have "unat v = 0xF80 + (unat len - unat (64 :: u32))" by (simp add: or_fields mod_between)
    from row_read [OF d this, of 6 "0x3F"] 6 show ?thesis by (simp add: read_match_length_def top_tests mask_numeral)
  next
    case 7
    then have "unat v = 0x3F00 + (unat len - unat (128 :: u32))" by (simp add: or_fields mod_between)
    from row_read [OF d this, of 7 "0x7F"] 7 show ?thesis by (simp add: read_match_length_def top_tests mask_numeral)
  next
    case 8
    then have "unat v = 0xFE00 + (unat len - unat (256 :: u32))" by (simp add: or_fields mod_between)
    from row_read [OF d this, of 8 "0xFF"] 8 show ?thesis by (simp add: read_match_length_def top_tests mask_numeral)
  next
    case 9
    then have "unat v = 0x3FC00 + (unat len - unat (512 :: u32))" by (simp add: or_fields mod_between)
    from row_read [OF d this, of 9 "0x1FF"] 9 show ?thesis by (simp add: read_match_length_def top_tests mask_numeral)
  next
    case 10
    then have "unat v = 0xFF800 + (unat len - unat (1024 :: u32))" by (simp add: or_fields mod_between)
    from row_read [OF d this, of 10 "0x3FF"] 10 show ?thesis by (simp add: read_match_length_def top_tests mask_numeral)
  next
    case 11
    then have "unat v = 0x3FF000 + (unat len - unat (2048 :: u32))" by (simp add: or_fields mod_between)
    from row_read [OF d this, of 11 "0x7FF"] 11 show ?thesis by (simp add: read_match_length_def top_tests mask_numeral)
  next
    case 12
    then have "unat v = 0xFFE000 + (unat len - unat (4096 :: u32))" by (simp add: or_fields mod_between)
    from row_read [OF d this, of 12 "0xFFF"] 12 show ?thesis by (simp add: read_match_length_def top_tests mask_numeral)
  next
    case 13
    then have "unat v = 0x3FFC000 + (unat len - unat (8192 :: u32))" by (simp add: or_fields mod_between)
    from row_read [OF d this, of 13 "0x1FFF"] 13 show ?thesis by (simp add: read_match_length_def top_tests mask_numeral)
  next
    case 14
    then have "unat v = 0xFFF8000 + (unat len - unat (16384 :: u32))" by (simp add: or_fields mod_between)
    from row_read [OF d this, of 14 "0x3FFF"] 14 show ?thesis by (simp add: read_match_length_def top_tests mask_numeral)
  next
    case 15
    then have "unat v = 0x3FFF0000 + (unat len - unat (32768 :: u32))" by (simp add: or_fields mod_between)
    from row_read [OF d this, of 15 "0x7FFF"] 15 show ?thesis by (simp add: read_match_length_def top_tests mask_numeral)
  qed
qed

lemma unat_less8: "unat (b :: u8) < 256"
  using unsigned_less [of b] by simp

lemma unat_ucast_u8: "unat (ucast (b :: u8) :: u32) = unat b"
  using unat_less8 [of b] by (simp add: unsigned_ucast_eq take_bit_nat_eq_self)

lemma unat_narrow: "unat (ucast (w :: u32) :: u8) = unat w mod 256"
  by (simp add: unsigned_ucast_eq take_bit_eq_mod)

text \<open>A literal, in the two forms that the loop of the decompressor takes apart.\<close>

lemma literal_code_read:
  assumes c: "literal_code b = (v, n)" and d: "drop_bit (32 - unat n) acc = v"
  shows "n = 8 \<and> acc AND 0x80000000 = 0 \<and> ucast (drop_bit 24 (acc AND 0x7F000000)) = b \<or>
    n = 9 \<and> acc AND 0x80000000 \<noteq> 0 \<and> acc AND 0xC0000000 = 0x80000000 \<and> ucast (drop_bit 23 (acc AND 0x3F800000) + 0x80) = b"
proof (cases "b < 0x80")
  case True
  then have n: "n = 8" and v: "unat v = 0 + unat b" and b: "unat b < 2 ^ 7"
    using c by (auto simp: literal_code_def unat_ucast_u8 word_less_nat_alt)
  note a = code_ahead [OF d v b, simplified n, simplified]
  have "ucast (drop_bit 24 (acc AND 0x7F000000)) = b"
    using a(3) b by (simp add: word_unat_eq_iff unat_narrow and_fields)
  then show ?thesis using n a(2) by (simp add: top_tests)
next
  case False
  then have n: "n = 9" and v: "unat v = 0x100 + (unat b - 128)" and b: "128 \<le> unat b" "unat b - 128 < 2 ^ 7"
    using c unat_less8 [of b] by (auto simp: literal_code_def or_fields unat_ucast_u8 word_less_nat_alt mod_between)
  note a = code_ahead [OF d v b(2), simplified n, simplified]
  have "ucast (drop_bit 23 (acc AND 0x3F800000) + 0x80) = b"
    using a(3) b by (simp add: word_unat_eq_iff unat_narrow unat_field and_fields)
  then show ?thesis using n a(1,2) by (simp add: top_tests)
qed

text \<open>Every code has at most 30 bits, and the number fits them.\<close>

lemma code_chain: "(if P then Some a else x) = Some c \<Longrightarrow> code_ok a \<Longrightarrow> (x = Some c \<Longrightarrow> code_ok c) \<Longrightarrow> code_ok c"
  by (simp split: if_split_asm)

lemma code_ok_codes:
  "code_ok (literal_code b)" "offset_code level off = Some c \<Longrightarrow> code_ok c" "length_code level len = Some c \<Longrightarrow> code_ok c"
proof -
  show "code_ok (literal_code b)"
    by (auto simp: literal_code_def code_ok_def word_less_nat_alt unat_ucast_u8 or_fields)
  show "code_ok c" if "offset_code level off = Some c"
  proof (cases "level = 0")
    case True
    from that show ?thesis unfolding offset_code_def using True
      by simp ((erule code_chain, simp add: code_ok_def or_fields)+, simp)
  next
    case False
    from that show ?thesis unfolding offset_code_def using False
      by simp ((erule code_chain, simp add: code_ok_def or_fields)+, auto simp: code_ok_def or_fields)
  qed
  show "code_ok c" if "length_code level len = Some c"
    using that unfolding length_code_def
    by - ((erule code_chain, simp add: code_ok_def or_fields)+, simp)
qed

end
