(* ===== verification/Packet_Codec.thy ===== *)
theory Packet_Codec
  imports Rdp_Prelude
begin

text \<open>
  The interface of a compressor with a history at either end of a connection. A codec keeps the two ends in step: what one end sends in a state
  that fits the state of the other end arrives there as it was, and the new states fit again.
\<close>

text \<open>
  Packets that go from one end to the other, in order. The result is the size on the wire and the bytes at the other end of each packet.
\<close>

primrec exchange ::
  "('c \<Rightarrow> 'p \<Rightarrow> (('w \<times> 'c) option)) \<Rightarrow> ('d \<Rightarrow> 'w \<Rightarrow> (u8 list \<times> 'd) option) \<Rightarrow> ('w \<Rightarrow> nat) \<Rightarrow> 'p list \<Rightarrow> 'c \<Rightarrow> 'd \<Rightarrow> (nat \<times> u8 list) list option" where
  "exchange send recv wire [] c d = Some []"
| "exchange send recv wire (p # ps) c d =
     (case send c p of
        None \<Rightarrow> None
      | Some (w, c') \<Rightarrow>
          (case recv d w of
             None \<Rightarrow> None
           | Some (data, d') \<Rightarrow> map_option ((#) (wire w, data)) (exchange send recv wire ps c' d')))"

locale packet_codec =
  fixes send :: "'c \<Rightarrow> 'p \<Rightarrow> ('w \<times> 'c) option"
    and recv :: "'d \<Rightarrow> 'w \<Rightarrow> (u8 list \<times> 'd) option"
    and wire :: "'w \<Rightarrow> nat"
    and in_step :: "'c \<Rightarrow> 'd \<Rightarrow> bool"
    and fits :: "'p \<Rightarrow> bool"
    and payload :: "'p \<Rightarrow> u8 list"
  assumes sent_arrives: "in_step c d \<Longrightarrow> fits p \<Longrightarrow>
    \<exists>w c' d'. send c p = Some (w, c') \<and> wire w \<le> length (payload p) \<and> recv d w = Some (payload p, d') \<and> in_step c' d'"
begin

lemma exchange_recovers:
  "in_step c d \<Longrightarrow> \<forall>p \<in> set ps. fits p \<Longrightarrow>
    \<exists>r. exchange send recv wire ps c d = Some r \<and> map snd r = map payload ps \<and> (\<forall>(n, data) \<in> set r. n \<le> length data)"
proof (induction ps arbitrary: c d)
  case (Cons p ps)
  then obtain w c' d' where w: "send c p = Some (w, c')" "wire w \<le> length (payload p)" "recv d w = Some (payload p, d')" "in_step c' d'"
    using sent_arrives [of c d p] by auto
  from Cons.IH [OF w(4)] Cons.prems(2) obtain r where
    "exchange send recv wire ps c' d' = Some r" "map snd r = map payload ps" "\<forall>(n, data) \<in> set r. n \<le> length data" by auto
  with w show ?case by auto
qed simp

end

end
