(* ===== verification/Mppc_Roundtrip.thy ===== *)
theory Mppc_Roundtrip
  imports Mppc_Codes Packet_Codec
begin

text \<open>
  Compressor and decompressor against each other. A packet is a list of tokens; the compressor writes the bits of tokens
  that reproduce the packet when they are played on the history, and the decompressor plays them. Two contexts
  that have seen the same packets hold the same history.
\<close>

section \<open>Tokens\<close>

text \<open>
  What a packet says: literals and copies from the history. \<open>play\<close> is the effect of a token on the
  history and the position in it.
\<close>

datatype mppc_token = Literal u8 | Copy u32 u32

definition token_codes :: "u32 \<Rightarrow> mppc_token \<Rightarrow> (u32 \<times> u32) list" where
  "token_codes level tok = (case tok of Literal b \<Rightarrow> [literal_code b]
     | Copy off len \<Rightarrow> [the (offset_code level off), the (length_code level len)])"

definition token_ok :: "u32 \<Rightarrow> mppc_token \<Rightarrow> bool" where
  "token_ok level tok = (case tok of Literal b \<Rightarrow> True
     | Copy off len \<Rightarrow> unat off < 65536 \<and> offset_code level off \<noteq> None \<and> length_code level len \<noteq> None)"

abbreviation token_bits :: "u32 \<Rightarrow> mppc_token list \<Rightarrow> bool list" where
  "token_bits level toks \<equiv> code_bits (concat (map (token_codes level) toks))"

definition copy_source :: "u32 \<Rightarrow> nat \<Rightarrow> u32 \<Rightarrow> nat" where
  "copy_source level ptr off = unat ((of_nat ptr - off) AND (if level \<noteq> 0 then 0xFFFF else 0x1FFF))"

definition play :: "u32 \<Rightarrow> mppc_token \<Rightarrow> u8 list \<times> nat \<Rightarrow> (u8 list \<times> nat) option" where
  "play level tok s = (case s of (history, ptr) \<Rightarrow> case tok of
       Literal b \<Rightarrow> if ptr < length history then Some (history[ptr := b], Suc ptr) else None
     | Copy off len \<Rightarrow> map_option (\<lambda>h. (h, ptr + unat len)) (copy_match (unat len) (copy_source level ptr off) ptr history))"

primrec play_all :: "u32 \<Rightarrow> mppc_token list \<Rightarrow> u8 list \<times> nat \<Rightarrow> (u8 list \<times> nat) option" where
  "play_all level [] s = Some s"
| "play_all level (tok # toks) s = Option.bind (play level tok s) (play_all level toks)"

lemma play_all_append: "play_all level (xs @ ys) s = Option.bind (play_all level xs s) (play_all level ys)"
  by (induction xs arbitrary: s) (auto split: option.split bind_split)

lemma copy_match_length: "copy_match n src dst h = Some h' \<Longrightarrow> length h' = length h"
  by (induction n arbitrary: src dst h) (auto split: if_split_asm)

lemma length_code_pos: "length_code level len = Some c \<Longrightarrow> 3 \<le> unat len"
  by (auto simp: length_code_def word_le_nat_alt split: if_split_asm)

lemma play_moves:
  assumes "play level tok (h, ptr) = Some (h', ptr')" "token_ok level tok"
  shows "ptr < ptr'" "length h' = length h"
  using assms by (auto simp: play_def token_ok_def split: mppc_token.split_asm if_split_asm dest: copy_match_length length_code_pos)

lemma play_all_moves:
  "play_all level toks (h, ptr) = Some (h', ptr') \<Longrightarrow> \<forall>tok \<in> set toks. token_ok level tok \<Longrightarrow> ptr \<le> ptr' \<and> length h' = length h"
proof (induction toks arbitrary: h ptr)
  case (Cons tok toks)
  then obtain h1 p1 where "play level tok (h, ptr) = Some (h1, p1)" "play_all level toks (h1, p1) = Some (h', ptr')"
    by (auto simp: bind_eq_Some_conv)
  with Cons.IH Cons.prems(2) play_moves [of level tok h ptr h1 p1] show ?case by fastforce
qed simp

lemma token_codes_ok: "token_ok level tok \<Longrightarrow> c \<in> set (token_codes level tok) \<Longrightarrow> code_ok c"
  by (auto simp: token_ok_def token_codes_def code_ok_codes split: mppc_token.split_asm)

lemma offset_code_bits: "offset_code level off = Some (v, n) \<Longrightarrow> 8 \<le> unat n \<and> unat n \<le> 19"
  by (auto simp: offset_code_def split: if_split_asm)

lemma token_bits_length:
  assumes "token_ok level tok"
  shows "8 \<le> length (token_bits level [tok])"
proof (cases tok)
  case (Literal b)
  then show ?thesis by (simp add: token_codes_def literal_code_def)
next
  case (Copy off len)
  with assms obtain v n where "offset_code level off = Some (v, n)" by (auto simp: token_ok_def)
  with Copy offset_code_bits [of level off v n] show ?thesis by (simp add: token_codes_def trans_le_add1)
qed

section \<open>What the decompressor makes of tokens\<close>

lemma not_literal: "read_copy_offset level acc = Inr r \<Longrightarrow> acc AND 0x80000000 \<noteq> 0 \<and> acc AND 0xC0000000 \<noteq> 0x80000000"
  by (auto simp: read_copy_offset_def top_tests split: if_split_asm)

lemma reader_takes_code:
  assumes r: "reader_at bs bytes q" and c: "code_ok (v, n)" and q: "q < 2 ^ 31"
    and b: "\<And>j. j < unat n \<Longrightarrow> bit_of bytes (q + j) = bits_msb v (unat n) ! j"
  obtains bs' where "drop_bit (32 - unat n) (bs_accumulator bs) = v" "BitStream_Shift bs n = Ok () bs'" "reader_at bs' bytes (q + unat n)"
proof -
  obtain k where k: "n = of_nat k" "0 < k" "k \<le> 30" "unat n = k" "unat v < 2 ^ k" using c by (rule code_ok_word)
  have "drop_bit (32 - k) (bs_accumulator bs) = v"
    using k b by (intro reader_sees [OF r]) simp_all
  moreover obtain bs' where "BitStream_Shift bs n = Ok () bs'" "reader_at bs' bytes (q + k)"
    using reader_shift [OF r, of k] k q by auto
  ultimately show thesis using that k(4) by blast
qed

lemma bytes_left:
  assumes "reader_at bs bytes q" "q + k \<le> 8 * length bytes" 
  shows "bs_length bs - bs_position bs = of_nat (8 * length bytes - q)"
    "bs_length bs - bs_position bs < 8 \<longleftrightarrow> 8 * length bytes - q < 8"
proof -
  have l: "length bytes < 2 ^ 29" and b: "bs_length bs = of_nat (8 * length bytes)" "bs_position bs = of_nat q"
    using assms(1) unfolding reader_at_def by blast+
  show e: "bs_length bs - bs_position bs = of_nat (8 * length bytes - q)"
    unfolding b using assms(2) by (intro of_nat_diff [symmetric]) simp
  show "bs_length bs - bs_position bs < 8 \<longleftrightarrow> 8 * length bytes - q < 8"
    unfolding e using of_nat_less32 [of "8 * length bytes - q" 8] l by simp
qed

lemma decompress_literal:
  assumes r: "reader_at bs bytes q" and l: "length bytes < 2 ^ 27" and q: "q + 8 \<le> 8 * length bytes" and p: "ptr \<le> bufEnd" "ptr < length h"
    and b: "\<And>j. j < length (token_bits level [Literal b]) \<Longrightarrow> bit_of bytes (q + j) = token_bits level [Literal b] ! j"
  shows "\<exists>bs'. reader_at bs' bytes (q + length (token_bits level [Literal b])) \<and>
    decompress_loop level bufEnd bs h ptr = decompress_loop level bufEnd bs' (h[ptr := b]) (Suc ptr)"
proof -
  obtain v n where c: "literal_code b = (v, n)" by force
  have tb: "token_bits level [Literal b] = bits_msb v (unat n)" using c by (simp add: token_codes_def)
  have q31: "q < 2 ^ 31" using l q by simp
  obtain bs' where s: "drop_bit (32 - unat n) (bs_accumulator bs) = v" "BitStream_Shift bs n = Ok () bs'" "reader_at bs' bytes (q + unat n)"
    using code_ok_codes(1) [of b] b c tb by (auto intro: reader_takes_code [OF r _ q31, of v n])
  have left: "\<not> bs_length bs - bs_position bs < 8" using bytes_left(2) [OF r q] q by simp
  show ?thesis
    using literal_code_read [OF c s(1)] left p s tb
    by (intro exI [of _ bs']) (auto simp: decompress_loop.simps [of _ _ bs h ptr] Let_def)
qed

lemma decompress_copy:
  assumes r: "reader_at bs bytes q" and l: "length bytes < 2 ^ 27" and q: "q + length (token_bits level [Copy off len]) \<le> 8 * length bytes" and ok: "token_ok level (Copy off len)"
    and p: "ptr + unat len \<le> Suc bufEnd"
    and b: "\<And>j. j < length (token_bits level [Copy off len]) \<Longrightarrow> bit_of bytes (q + j) = token_bits level [Copy off len] ! j"
    and h: "copy_match (unat len) (copy_source level ptr off) ptr h = Some h'"
  shows "\<exists>bs'. reader_at bs' bytes (q + length (token_bits level [Copy off len])) \<and>
    decompress_loop level bufEnd bs h ptr = decompress_loop level bufEnd bs' h' (ptr + unat len)"
proof -
  obtain v n w k where c: "offset_code level off = Some (v, n)" "length_code level len = Some (w, k)" "unat off < 65536"
    using ok by (auto simp: token_ok_def)
  have tb: "token_bits level [Copy off len] = bits_msb v (unat n) @ bits_msb w (unat k)" using c by (simp add: token_codes_def)
  have q31: "q < 2 ^ 31" "q + unat n < 2 ^ 31" using l q tb by simp_all
  have b1: "bit_of bytes (q + j) = bits_msb v (unat n) ! j" if "j < unat n" for j using b [of j] that tb by (simp add: nth_append)
  have b2: "bit_of bytes (q + unat n + j) = bits_msb w (unat k) ! j" if "j < unat k" for j
    using b [of "unat n + j"] that tb by (simp add: nth_append add.assoc)
  obtain bs1 where s1: "drop_bit (32 - unat n) (bs_accumulator bs) = v" "BitStream_Shift bs n = Ok () bs1" "reader_at bs1 bytes (q + unat n)"
    by (rule reader_takes_code [OF r code_ok_codes(2) [OF c(1)] q31(1) b1])
  obtain bs2 where s2: "drop_bit (32 - unat k) (bs_accumulator bs1) = w" "BitStream_Shift bs1 k = Ok () bs2" "reader_at bs2 bytes (q + unat n + unat k)"
    by (rule reader_takes_code [OF s1(3) code_ok_codes(3) [OF c(2)] q31(2) b2])
  note ro = offset_code_read [OF c(1,3) s1(1)] and rl = length_code_read [OF c(2) s2(1)]
  have left: "\<not> bs_length bs - bs_position bs < 8"
    using bytes_left(2) [OF r q] q token_bits_length [OF ok] by linarith
  have pos: "\<not> bufEnd < ptr" "\<not> bufEnd < ptr + unat len - 1" using p length_code_pos [OF c(2)] by linarith+
  have "decompress_loop level bufEnd bs h ptr = decompress_loop level bufEnd bs2 h' (ptr + unat len)"
    using left pos not_literal [OF ro] ro rl s1(2) s2(2) h
    by (subst decompress_loop.simps) (simp add: Let_def copy_source_def)
  with s2(3) tb show ?thesis by (auto simp: add.assoc)
qed

text \<open>The loop plays the tokens whose bits lie ahead, up to the padding of the last byte.\<close>

lemma decompress_tokens:
  assumes "reader_at bs bytes q" "length bytes < 2 ^ 27" "\<forall>tok \<in> set toks. token_ok level tok"
    "\<And>j. j < length (token_bits level toks) \<Longrightarrow> bit_of bytes (q + j) = token_bits level toks ! j"
    "q + length (token_bits level toks) \<le> 8 * length bytes" "8 * length bytes < q + length (token_bits level toks) + 8"
    "play_all level toks (h, ptr) = Some (h', ptr')" "ptr' \<le> Suc bufEnd" "bufEnd < length h"
  shows "\<exists>bs'. decompress_loop level bufEnd bs h ptr = Ok 1 (bs', h', ptr')"
  using assms
proof (induction toks arbitrary: bs q h ptr)
  case Nil
  then have "bs_length bs - bs_position bs < 8" using bytes_left(2) [of bs bytes q 0] by simp
  with Nil show ?case by (simp add: decompress_loop.simps)
next
  case (Cons tok toks)
  let ?k = "length (token_bits level [tok])"
  have split: "token_bits level (tok # toks) = token_bits level [tok] @ token_bits level toks" by simp
  obtain h1 p1 where p: "play level tok (h, ptr) = Some (h1, p1)" "play_all level toks (h1, p1) = Some (h', ptr')"
    using Cons.prems(7) by (auto simp: bind_eq_Some_conv)
  have ok: "token_ok level tok" "\<forall>t \<in> set toks. token_ok level t" using Cons.prems(3) by simp_all
  have p1: "p1 \<le> ptr'" "length h1 = length h" "ptr < p1" using play_moves [OF p(1) ok(1)] play_all_moves [OF p(2) ok(2)] by simp_all
  have k: "8 \<le> ?k" using ok(1) by (rule token_bits_length)
  have b1: "bit_of bytes (q + j) = token_bits level [tok] ! j" if "j < ?k" for j
    using Cons.prems(4) [of j] that unfolding split by (simp add: nth_append del: length_concat)
  have b2: "bit_of bytes (q + ?k + j) = token_bits level toks ! j" if "j < length (token_bits level toks)" for j
    using Cons.prems(4) [of "?k + j"] that unfolding split by (simp add: nth_append add.assoc del: length_concat)
  have "\<exists>bs'. reader_at bs' bytes (q + ?k) \<and> decompress_loop level bufEnd bs h ptr = decompress_loop level bufEnd bs' h1 p1"
  proof (cases tok)
    case (Literal b)
    then show ?thesis
      using decompress_literal [of bs bytes q ptr bufEnd h level b] Cons.prems(1,2,5,8,9) p(1) p1 b1 k unfolding split
      by (auto simp: play_def split: if_split_asm simp del: length_concat)
  next
    case (Copy off len)
    then show ?thesis
      using decompress_copy [of bs bytes q level off len ptr bufEnd h h1] Cons.prems(1,2,5,8,9) p(1) p1 b1 ok(1) unfolding split
      by (auto simp: play_def simp del: length_concat)
  qed
  then obtain bs' where bs': "reader_at bs' bytes (q + ?k)" "decompress_loop level bufEnd bs h ptr = decompress_loop level bufEnd bs' h1 p1"
    by blast
  have "\<exists>bs''. decompress_loop level bufEnd bs' h1 p1 = Ok 1 (bs'', h', ptr')"
    using bs'(1) Cons.prems(2) ok(2) b2 _ _ p(2) Cons.prems(8)
  proof (rule Cons.IH)
    show "q + ?k + length (token_bits level toks) \<le> 8 * length bytes" "8 * length bytes < q + ?k + length (token_bits level toks) + 8"
      using Cons.prems(5,6) unfolding split by (simp_all del: length_concat)
    show "bufEnd < length h1" using Cons.prems(9) p1(2) by simp
  qed
  with bs'(2) show ?case by simp
qed

section \<open>What the compressor writes\<close>

definition history_size :: "u32 \<Rightarrow> nat" where
  "history_size level = (if level \<noteq> 0 then 65536 else 8192)"

text \<open>A context between two packets, and while a packet is compressed.\<close>

definition mppc_ok :: "u32 \<Rightarrow> mppc_context \<Rightarrow> bool" where
  "mppc_ok level mppc \<longleftrightarrow>
     (level = 0 \<or> level = 1) \<and> mp_CompressionLevel mppc = level \<and> mp_HistoryBufferSize mppc = of_nat (history_size level) \<and>
     length (mp_HistoryBuffer mppc) = 65536 \<and> length (mp_MatchBuffer mppc) = 32768 \<and>
     (\<forall>e \<in> set (mp_MatchBuffer mppc). unat e + 2 \<le> history_size level) \<and> mp_HistoryPtr mppc + 2 \<le> history_size level"

lemma history_size_le: "history_size level \<le> 65536"
  by (simp add: history_size_def)

lemma extend_match_copies:
  "i < length src \<Longrightarrow> m \<le> Suc limit \<Longrightarrow> Suc limit < length h \<Longrightarrow> ptr + (length src - i) \<le> length h \<Longrightarrow>
   \<exists>n h'. extend_match src limit i m ptr h len = Some (i + n, ptr + n, h', len + of_nat n) \<and> i + n < length src \<and>
     copy_match n m ptr h = Some h' \<and> (\<forall>k<ptr. h' ! k = h ! k) \<and> (\<forall>k<n. h' ! (ptr + k) = src ! (i + k))"
proof (induction src limit i m ptr h len rule: extend_match.induct)
  case (1 src limit i m ptr h len)
  show ?case
  proof (cases "src ! i = h ! m \<and> i < length src - 1 \<and> m \<le> limit")
    case True
    let ?h = "h[ptr := src ! i]"
    have in_range: "\<not> (length src \<le> i \<or> length h \<le> m)" "\<not> length h \<le> ptr" using "1.prems" True by auto
    obtain n h' where n: "extend_match src limit (Suc i) (Suc m) (Suc ptr) ?h (len + 1) = Some (Suc i + n, Suc ptr + n, h', len + 1 + of_nat n)"
      "Suc i + n < length src" "copy_match n (Suc m) (Suc ptr) ?h = Some h'" "\<forall>k<Suc ptr. h' ! k = ?h ! k" "\<forall>k<n. h' ! (Suc ptr + k) = src ! (Suc i + k)"
    proof -
      have pre: "Suc i < length src" "Suc m \<le> Suc limit" "Suc limit < length ?h" "Suc ptr + (length src - Suc i) \<le> length ?h"
        using "1.prems" True by auto
      show thesis using "1.IH" [OF in_range(1) True in_range(2) pre] that by blast
    qed
    have "extend_match src limit i m ptr h len = Some (i + Suc n, ptr + Suc n, h', len + of_nat (Suc n))"
      using n(1) True in_range by (subst extend_match.simps) (simp add: ac_simps)
    moreover have "copy_match (Suc n) m ptr h = Some h'" using n(3) True in_range by simp
    moreover have "\<forall>k<ptr. h' ! k = h ! k" using n(4) by simp
    moreover have "h' ! (ptr + k) = src ! (i + k)" if "k < Suc n" for k
      using that n(4,5) in_range by (cases k) auto
    ultimately show ?thesis using n(2) by (intro exI [of _ "Suc n"] exI [of _ h']) auto
  next
    case False
    then have "extend_match src limit i m ptr h len = Some (i, ptr, h, len)"
      using "1.prems" by (subst extend_match.simps) auto
    then show ?thesis using "1.prems"(1) by (intro exI [of _ 0] exI [of _ h]) simp
  qed
qed

text \<open>A match that is found, and the bytes it is extended by, are a copy.\<close>

lemma found_copies:
  assumes "match_found below (h[p := s1]) limit (p + 1) m s1 s2 s3 = Some True" "p + 2 < length h"
    and c: "copy_match n (m + 2) (p + 3) (h[p := s1, p + 1 := s2, p + 2 := s3]) = Some h'"
  shows "copy_match (n + 3) (m - 1) p h = Some h'" "0 < m" "m + 1 \<le> limit"
proof -
  have f: "m + 1 < length h" "h[p := s1] ! (m - 1) = s1" "h[p := s1] ! m = s2" "h[p := s1] ! (m + 1) = s3" "m \<noteq> 0" "m \<noteq> p" "m \<noteq> p + 1" "m + 1 \<le> limit"
    using assms(1) by (auto simp: match_found_def split: if_split_asm)
  then show "0 < m" "m + 1 \<le> limit" by simp_all
  obtain k where k: "m = Suc k" using f(5) by (cases m) auto
  have e1: "h[p := h ! k] = h[p := s1]" using f(2,7) k by (metis nth_list_update_neq diff_Suc_1 Suc_eq_plus1)
  have e2: "h[p := s1, Suc p := h[p := s1] ! Suc k] = h[p := s1, Suc p := s2]" using f(3) k by simp
  have e3: "h[p := s1, Suc p := s2] ! Suc (Suc k) = s3" using f(4,6) k by simp
  show "copy_match (n + 3) (m - 1) p h = Some h'"
    using c f(1) assms(2) by (simp add: k numeral_2_eq_2 numeral_3_eq_3 e1 e2 e3)
qed

text \<open>The distance that is written leads back to the match.\<close>

lemma take_bit_sub: "take_bit w (a - take_bit w b) = take_bit w (a - b)" if "w \<le> 32" for a b :: u32
proof -
  have "uint (take_bit w (a - c)) = take_bit w (uint a - uint c)" for c
  proof -
    have "uint (a - c) = take_bit 32 (uint a - uint c)" by (simp add: uint_word_ariths take_bit_eq_mod)
    then show ?thesis using that by (simp add: unsigned_take_bit_eq min_def)
  qed
  then have "uint (take_bit w (a - take_bit w b)) = uint (take_bit w (a - b))"
    using take_bit_diff [of w "uint a" "take_bit w (uint b)"] take_bit_diff [of w "uint a" "uint b"] by (simp add: unsigned_take_bit_eq)
  then show ?thesis by (simp only: word_uint_eq_iff)
qed

lemma copy_source_match:
  fixes p k :: nat
  assumes "k < history_size level"
  defines "off \<equiv> (of_nat (history_size level) - 1) AND (of_nat p - of_nat k) :: u32"
  shows "copy_source level p off = k" "unat off < 65536" "offset_code level off \<noteq> None"
proof -
  obtain w where w: "history_size level = 2 ^ w" "of_nat (history_size level) - 1 = (mask w :: u32)" "w \<le> 16"
      "(if level \<noteq> 0 then 0xFFFF else 0x1FFF) = (mask w :: u32)"
    by (cases "level = 0") (auto simp: history_size_def mask_numeral intro: that [of 16] that [of 13])
  have off: "off = take_bit w (of_nat p - of_nat k)" unfolding off_def w(2) by (simp add: take_bit_eq_mask and.commute [of "mask w"])
  have "unat off < 2 ^ w" unfolding off unsigned_take_bit_eq by simp
  then show "unat off < 65536" using w(3) power_increasing [of w 16 "2::nat"] by simp
  show "offset_code level off \<noteq> None"
    using \<open>unat off < 2 ^ w\<close> w(1) by (auto simp: offset_code_def history_size_def word_less_nat_alt word_le_nat_alt)
  have "(of_nat p - off) AND mask w = take_bit w (of_nat p - take_bit w (of_nat p - of_nat k))"
    unfolding off by (simp add: take_bit_eq_mask)
  also have "\<dots> = take_bit w (of_nat p - (of_nat p - of_nat k))"
    using w(3) by (intro take_bit_sub) simp
  finally have "(of_nat p - off) AND mask w = take_bit w (of_nat k)" by simp
  moreover have "unat (take_bit w (of_nat k) :: u32) = k"
    using assms(1) w(1) history_size_le [of level] unat_less [of k] unfolding unsigned_take_bit_eq by (simp add: take_bit_nat_eq_self)
  ultimately show "copy_source level p off = k" unfolding copy_source_def w(4) by simp
qed

lemma length_code_exists:
  assumes "3 \<le> n" "n < history_size level"
  shows "length_code level (of_nat n) \<noteq> None" "unat (of_nat n :: u32) = n"
proof -
  show n: "unat (of_nat n :: u32) = n" using assms history_size_le [of level] unat_less [of n] by simp
  show "length_code level (of_nat n) \<noteq> None"
  proof -
    have "(of_nat n :: u32) = 3 \<longleftrightarrow> n = 3" using n by (simp add: word_unat_eq_iff)
    then show ?thesis
      using assms by (auto simp: length_code_def word_less_nat_alt word_le_nat_alt n history_size_def split: if_split_asm)
  qed
qed

lemma room_left_nat:
  assumes "writer_at (mp_bs mppc) cap ws" "length ws \<le> 8 * cap" "0 < cap" "cap < 2 ^ 27" "k < 16"
  shows "room_left mppc (of_nat cap) (of_nat k) \<longleftrightarrow> length ws div 8 + k + 1 \<le> cap"
proof -
  have l: "length ws < 2 ^ 31" "length ws div 8 \<le> cap" using assms(2,4) by simp_all
  have "of_nat (length ws) div 8 = (of_nat (length ws div 8) :: u32)"
    using unat_less [of "length ws"] unat_less [of "length ws div 8"] l assms(4) by (simp add: word_unat_eq_iff unat_div)
  then have "of_nat (length ws) div 8 + of_nat k = (of_nat (length ws div 8 + k) :: u32)" by simp
  moreover have "of_nat cap - 1 = (of_nat (cap - 1) :: u32)" using assms(3) by (simp add: of_nat_diff)
  moreover have "(of_nat (cap - 1) :: u32) < of_nat (length ws div 8 + k) \<longleftrightarrow> cap - 1 < length ws div 8 + k"
    using l assms(4,5) by (intro of_nat_less32) simp_all
  moreover have "bs_position (mp_bs mppc) = of_nat (length ws)" using assms(1) by (simp add: writer_at_def)
  ultimately show ?thesis using assms(3) unfolding room_left_def by (simp only: not_less) arith
qed

lemma write_code_bits:
  assumes "writer_at (mp_bs mppc) cap ws" "length ws < 2 ^ 31" "code_ok c"
  shows "\<exists>bs. write_code mppc c = Ok () (mppc\<lparr>mp_bs := bs\<rparr>) \<and> writer_at bs cap (ws @ code_bits [c])"
proof -
  obtain v n where c: "c = (v, n)" by force
  with assms(3) obtain k where k: "n = of_nat k" "0 < k" "k \<le> 30" "unat n = k" "unat v < 2 ^ k" by (auto elim: code_ok_word)
  from writer_write [OF assms(1,2) k(2,3,5)] c k(1,4) show ?thesis by (auto simp: write_code_def)
qed

text \<open>A token is written where the room suffices; otherwise the context is reset.\<close>

abbreviation token_written :: "u32 \<Rightarrow> nat \<Rightarrow> bool list \<Rightarrow> mppc_token \<Rightarrow> mppc_context \<Rightarrow> (unit, mppc_context) res \<Rightarrow> bool" where
  "token_written level cap ws tok mppc r \<equiv>
     wp r (\<lambda>_ m. \<exists>bs. m = mppc\<lparr>mp_bs := bs\<rparr> \<and> writer_at bs cap (ws @ token_bits level [tok]) \<and>
                 length (ws @ token_bits level [tok]) \<le> 8 * cap)
          (\<lambda>m. m = mppc_context_reset mppc True)"

lemma room_fits: "length (ws :: bool list) div 8 + k + 1 \<le> cap \<Longrightarrow> n \<le> 8 * k \<Longrightarrow> length ws + n \<le> 8 * cap"
  using mult_div_mod_eq [of 8 "length ws"] mod_less_divisor [of 8 "length ws"] by linarith

lemma write_literal_written:
  assumes w: "writer_at (mp_bs mppc) cap ws" "length ws \<le> 8 * cap" "0 < cap" "cap < 2 ^ 27"
  shows "token_written level cap ws (Literal b) mppc (write_literal (of_nat cap) b mppc)"
proof (cases "room_left mppc (of_nat cap) 2")
  case True
  then have "length ws div 8 + 2 + 1 \<le> cap" using room_left_nat [OF w, of 2] by simp
  moreover have "length (token_bits level [Literal b]) \<le> 8 * 2" by (simp add: token_codes_def literal_code_def)
  ultimately have l: "length (ws @ token_bits level [Literal b]) \<le> 8 * cap" using room_fits by (simp del: length_concat)
  have "length ws < 2 ^ 31" using w(2,4) by simp
  from write_code_bits [OF w(1) this code_ok_codes(1), of b] l True show ?thesis
    by (auto simp: write_literal_def token_codes_def simp del: length_concat)
qed (simp add: write_literal_def)

lemma write_match_written:
  assumes w: "writer_at (mp_bs mppc) cap ws" "length ws \<le> 8 * cap" "0 < cap" "cap < 2 ^ 27"
    and ok: "token_ok level (Copy off len)" "mp_CompressionLevel mppc = level"
  shows "token_written level cap ws (Copy off len) mppc (write_match (of_nat cap) off len mppc)"
proof (cases "room_left mppc (of_nat cap) 7")
  case True
  obtain v n c where c: "offset_code level off = Some (v, n)" "length_code level len = Some c"
    using ok(1) by (auto simp: token_ok_def)
  have tb: "token_bits level [Copy off len] = code_bits [(v, n)] @ code_bits [c]" using c by (simp add: token_codes_def)
  have "length ws div 8 + 7 + 1 \<le> cap" using True room_left_nat [OF w, of 7] by simp
  moreover have "unat n \<le> 19" "unat (snd c) \<le> 30"
    using offset_code_bits [OF c(1)] code_ok_codes(3) [OF c(2)] by (auto simp: code_ok_def word_le_nat_alt)
  then have "length (token_bits level [Copy off len]) \<le> 8 * 7" unfolding tb by simp
  ultimately have l: "length (ws @ token_bits level [Copy off len]) \<le> 8 * cap" using room_fits by (simp del: length_concat)
  have l31: "length ws < 2 ^ 31" "length (ws @ code_bits [(v, n)]) < 2 ^ 31" using w(4) l unfolding tb by simp_all
  obtain bs where bs: "write_code mppc (v, n) = Ok () (mppc\<lparr>mp_bs := bs\<rparr>)" "writer_at bs cap (ws @ code_bits [(v, n)])"
    using write_code_bits [OF w(1) l31(1) code_ok_codes(2) [OF c(1)]] by blast
  have "writer_at (mp_bs (mppc\<lparr>mp_bs := bs\<rparr>)) cap (ws @ code_bits [(v, n)])" using bs(2) by simp
  from write_code_bits [OF this l31(2) code_ok_codes(3) [OF c(2)]]
  obtain bs' where "write_code (mppc\<lparr>mp_bs := bs\<rparr>) c = Ok () (mppc\<lparr>mp_bs := bs'\<rparr>)" "writer_at bs' cap (ws @ token_bits level [Copy off len])"
    unfolding tb by auto
  with True bs(1) c ok(2) l show ?thesis by (auto simp: write_match_def write_optional_def simp del: length_concat)
qed (simp add: write_match_def)

text \<open>The state of the compressor in the middle of a packet, with the tokens written so far.\<close>

definition tracks :: "u32 \<Rightarrow> u8 list \<Rightarrow> nat \<Rightarrow> u8 list \<Rightarrow> nat \<Rightarrow> mppc_token list \<Rightarrow> mppc_state \<Rightarrow> bool" where
  "tracks level h0 p0 src cap toks s \<longleftrightarrow>
     (case s of (mppc, i, ptr) \<Rightarrow>
        mppc_ok level mppc \<and> (\<forall>tok \<in> set toks. token_ok level tok) \<and>
        writer_at (mp_bs mppc) cap (token_bits level toks) \<and> length (token_bits level toks) \<le> 8 * cap \<and>
        play_all level toks (h0, p0) = Some (mp_HistoryBuffer mppc, ptr) \<and> ptr = p0 + i \<and> i \<le> length src \<and>
        (\<forall>k<i. mp_HistoryBuffer mppc ! (p0 + k) = src ! k))"

definition flushed :: "u32 \<Rightarrow> mppc_state \<Rightarrow> bool" where
  "flushed level s \<longleftrightarrow> (\<exists>m. mppc_ok level m \<and> fst s = mppc_context_reset m True)"

lemma tracks_token:
  assumes t: "tracks level h0 p0 src cap toks (mppc, i, ptr)" and tok: "token_ok level tok"
    and p: "play level tok (mp_HistoryBuffer mppc, ptr) = Some (mp_HistoryBuffer mppc', ptr + n)"
    and m: "mppc_ok level mppc'" "writer_at (mp_bs mppc') cap (token_bits level toks @ token_bits level [tok])"
      "length (token_bits level toks @ token_bits level [tok]) \<le> 8 * cap"
    and i: "i + n \<le> length src" "\<And>k. k < n \<Longrightarrow> mp_HistoryBuffer mppc' ! (ptr + k) = src ! (i + k)"
      "\<And>k. k < ptr \<Longrightarrow> mp_HistoryBuffer mppc' ! k = mp_HistoryBuffer mppc ! k"
  shows "tracks level h0 p0 src cap (toks @ [tok]) (mppc', i + n, ptr + n)"
proof -
  have ptr: "ptr = p0 + i" and k: "\<And>k. k < i \<Longrightarrow> mp_HistoryBuffer mppc ! (p0 + k) = src ! k"
    using t by (simp_all add: tracks_def)
  have "mp_HistoryBuffer mppc' ! (p0 + k) = src ! k" if "k < i + n" for k
  proof (cases "k < i")
    case True
    then show ?thesis using i(3) [of "p0 + k"] k [of k] ptr by simp
  next
    case False
    then show ?thesis using i(2) [of "k - i"] that ptr by simp
  qed
  with assms show ?thesis by (simp add: tracks_def play_all_append del: length_concat)
qed

lemma match_index_bound: "MPPC_MATCH_INDEX a b c < 32768"
proof -
  have "unat (x AND 0x07FFF000) \<le> 0x07FFF000" for x :: u32 using word_and_le1 [of x "0x07FFF000"] by (simp add: word_le_nat_alt)
  then have "unat (x AND 0x07FFF000) div 4096 < 32768" for x :: u32
    using div_le_mono [of "unat (x AND 0x07FFF000)" "0x07FFF000" 4096] by (simp add: order.strict_trans1 del: unsigned_and_eq)
  then show ?thesis unfolding MPPC_MATCH_INDEX_def unat_drop by simp
qed

lemma note_symbol_ok:
  assumes ok: "mppc_ok level mppc" and p: "ptr + 2 \<le> history_size level" and n: "note_symbol mppc ptr a b c = (mppc', m)"
  shows "mppc_ok level mppc'" "mp_bs mppc' = mp_bs mppc" "mp_HistoryBuffer mppc' = mp_HistoryBuffer mppc" "m + 2 \<le> history_size level"
proof -
  let ?i = "MPPC_MATCH_INDEX a b c"
  have i: "?i < length (mp_MatchBuffer mppc)" using ok match_index_bound [of a b c] by (simp add: mppc_ok_def)
  have "m = unat (mp_MatchBuffer mppc ! ?i)" using n by (auto simp: note_symbol_def Let_def)
  then show "m + 2 \<le> history_size level" using ok i by (simp add: mppc_ok_def)
  have u: "unat (of_nat ptr :: u16) = ptr" using p history_size_le [of level] by (simp add: unsigned_of_nat take_bit_nat_eq_self)
  show "mppc_ok level mppc'" "mp_bs mppc' = mp_bs mppc" "mp_HistoryBuffer mppc' = mp_HistoryBuffer mppc"
    using n ok p u by (auto simp: note_symbol_def Let_def mppc_ok_def split: if_split_asm dest!: set_update_subset_insert [THEN subsetD])
qed

lemma written_tracks:
  assumes t: "tracks level h0 p0 src cap toks (mppc, i, ptr)" and tok: "token_ok level tok"
    and r: "token_written level cap (token_bits level toks) tok mppc' r" and m: "mppc_ok level mppc'"
    and p: "play level tok (mp_HistoryBuffer mppc, ptr) = Some (mp_HistoryBuffer mppc', ptr + n)" "i' = i + n" "ptr' = ptr + n"
    and i: "i + n \<le> length src" "\<And>k. k < n \<Longrightarrow> mp_HistoryBuffer mppc' ! (ptr + k) = src ! (i + k)"
      "\<And>k. k < ptr \<Longrightarrow> mp_HistoryBuffer mppc' ! k = mp_HistoryBuffer mppc ! k"
  shows "wp (case r of Ok _ m \<Rightarrow> Ok () (m, i', ptr') | Fail m \<Rightarrow> Fail (m, i', ptr') | Fault \<Rightarrow> Fault)
    (\<lambda>_ s. \<exists>toks. tracks level h0 p0 src cap toks s) (flushed level)"
proof (cases r)
  case (Ok u m')
  then obtain bs where bs: "m' = mppc'\<lparr>mp_bs := bs\<rparr>" "writer_at bs cap (token_bits level toks @ token_bits level [tok])"
    "length (token_bits level toks @ token_bits level [tok]) \<le> 8 * cap" using r by (auto simp del: length_concat)
  have "tracks level h0 p0 src cap (toks @ [tok]) (m', i + n, ptr + n)"
    using bs m p(1) i by (intro tracks_token [OF t tok]) (simp_all add: mppc_ok_def del: length_concat)
  with Ok p(2,3) show ?thesis by auto
next
  case (Fail m')
  with r m show ?thesis by (auto simp: flushed_def)
next
  case Fault
  with r show ?thesis by simp
qed

text \<open>A match, extended as far as it goes, adds a copy.\<close>

lemma match_tracks:
  assumes t: "tracks level h0 p0 src cap toks (mppc, i, ptr)" and i: "i + 3 < length src"
    and p0: "p0 + length src + 2 \<le> history_size level" and cap: "0 < cap" "cap < 2 ^ 27"
    and m2: "mppc_ok level mppc2" "mp_bs mppc2 = mp_bs mppc" "m + 2 \<le> history_size level"
  defines "h \<equiv> mp_HistoryBuffer mppc" and "s1 \<equiv> src ! i" and "s2 \<equiv> src ! (i + 1)" and "s3 \<equiv> src ! (i + 2)"
  assumes found: "match_found below (h[ptr := s1]) (mp_HistoryPtr mppc2) (ptr + 1) m s1 s2 s3 = Some True"
  shows "wp (case extend_match src (mp_HistoryPtr mppc2) (i + 3) (m + 2) (ptr + 3) (h[ptr := s1, ptr + 1 := s2, ptr + 2 := s3]) 3 of
        None \<Rightarrow> Fault
      | Some (i, ptr', history, LengthOfMatch) \<Rightarrow>
          (case write_match (of_nat cap) ((mp_HistoryBufferSize mppc2 - 1) AND (1 + of_nat ptr - of_nat m)) LengthOfMatch (mppc2\<lparr>mp_HistoryBuffer := history\<rparr>) of
             Ok _ m \<Rightarrow> Ok () (m, i, ptr') | Fail m \<Rightarrow> Fail (m, i, ptr') | Fault \<Rightarrow> Fault))
      (\<lambda>_ s. \<exists>toks. tracks level h0 p0 src cap toks s) (flushed level)"
proof -
  have ptr: "ptr = p0 + i" and len: "length h = 65536"
    and w: "writer_at (mp_bs mppc) cap (token_bits level toks)" "length (token_bits level toks) \<le> 8 * cap"
    using t by (simp_all add: tracks_def mppc_ok_def h_def)
  have r: "ptr + 4 < history_size level" using ptr i p0 by linarith
  note hs = history_size_le [of level] and w2 = w [folded m2(2)] cap
  have limit: "mp_HistoryPtr mppc2 + 2 \<le> history_size level" using m2(1) by (simp add: mppc_ok_def)
  let ?h3 = "h[ptr := s1, ptr + 1 := s2, ptr + 2 := s3]"
  have lim: "m + 1 \<le> mp_HistoryPtr mppc2" using found by (auto simp: match_found_def split: if_split_asm)
  obtain n h' where e: "extend_match src (mp_HistoryPtr mppc2) (i + 3) (m + 2) (ptr + 3) ?h3 3 = Some (i + 3 + n, ptr + 3 + n, h', 3 + of_nat n)"
    "i + 3 + n < length src" "copy_match n (m + 2) (ptr + 3) ?h3 = Some h'" "\<forall>k<ptr + 3. h' ! k = ?h3 ! k" "\<forall>k<n. h' ! (ptr + 3 + k) = src ! (i + 3 + k)"
    using extend_match_copies [of "i + 3" src "m + 2" "mp_HistoryPtr mppc2" ?h3 "ptr + 3" 3] i lim limit len hs p0 ptr by auto
  have c: "copy_match (n + 3) (m - 1) ptr h = Some h'" "0 < m" using found_copies [OF found _ e(3)] r hs len by simp_all
  define off :: u32 where "off = (of_nat (history_size level) - 1) AND (of_nat ptr - of_nat (m - 1))"
  have off: "(mp_HistoryBufferSize mppc2 - 1) AND (1 + of_nat ptr - of_nat m) = off"
  proof -
    have "1 + of_nat ptr - of_nat m = of_nat ptr - (of_nat (m - 1) :: u32)" using c(2) by (cases m) simp_all
    then show ?thesis using m2(1) by (simp only: off_def mppc_ok_def)
  qed
  note src = copy_source_match [of "m - 1" level ptr, folded off_def]
  have k: "length_code level (of_nat (n + 3)) \<noteq> None" "unat (of_nat (n + 3) :: u32) = n + 3"
    using e(2) p0 length_code_exists [of "n + 3" level] by simp_all
  have lm: "3 + of_nat n = (of_nat (n + 3) :: u32)" by simp
  have tok: "token_ok level (Copy off (of_nat (n + 3)))" using src m2(3) k by (simp add: token_ok_def del: of_nat_add)
  have m3: "mppc_ok level (mppc2\<lparr>mp_HistoryBuffer := h'\<rparr>)" using m2(1) copy_match_length [OF c(1)] len by (simp add: mppc_ok_def)
  have hk: "h' ! (ptr + k) = src ! (i + k)" if "k < n + 3" for k
  proof (cases "k < 3")
    case True
    then have "?h3 ! (ptr + k) = src ! (i + k)" unfolding s1_def s2_def s3_def using r hs len by (auto simp: less_Suc_eq numeral_3_eq_3 nth_list_update)
    with True e(4) show ?thesis by simp
  next
    case False
    with e(5) that show ?thesis by (metis add.assoc le_add_diff_inverse less_diff_conv2 not_less)
  qed
  show ?thesis
    unfolding e(1) off lm option.case prod.case
  proof (rule written_tracks [OF t tok write_match_written [OF _ w2(2-4) tok] m3])
    show "play level (Copy off (of_nat (n + 3))) (mp_HistoryBuffer mppc, ptr) = Some (mp_HistoryBuffer (mppc2\<lparr>mp_HistoryBuffer := h'\<rparr>), ptr + (n + 3))"
      using c(1) src(1) m2(3) k(2) by (simp add: play_def h_def [symmetric] del: of_nat_add)
    show "mp_HistoryBuffer (mppc2\<lparr>mp_HistoryBuffer := h'\<rparr>) ! (ptr + k) = src ! (i + k)" if "k < n + 3" for k using hk that by simp
  qed (use w2(1) m2(1) e(2,4) in \<open>auto simp: mppc_ok_def h_def\<close>)
qed

lemma compress_step_tracks:
  assumes t: "tracks level h0 p0 src cap toks (mppc, i, ptr)" and i: "i + 3 < length src"
    and p0: "p0 + length src + 2 \<le> history_size level" and cap: "0 < cap" "cap < 2 ^ 27"
  shows "wp (compress_step below src (of_nat cap) (mppc, i, ptr)) (\<lambda>_ s. \<exists>toks. tracks level h0 p0 src cap toks s) (flushed level)"
proof -
  let ?h = "mp_HistoryBuffer mppc" and ?s1 = "src ! i" and ?s2 = "src ! (i + 1)" and ?s3 = "src ! (i + 2)"
  have ok: "mppc_ok level mppc" and ptr: "ptr = p0 + i" and len: "length ?h = 65536"
    and w: "writer_at (mp_bs mppc) cap (token_bits level toks)" "length (token_bits level toks) \<le> 8 * cap"
    using t by (simp_all add: tracks_def mppc_ok_def)
  have r: "ptr + 4 < history_size level" using ptr i p0 by linarith
  note hs = history_size_le [of level]
  obtain mppc2 m where n: "note_symbol (mppc\<lparr>mp_HistoryBuffer := ?h[ptr := ?s1]\<rparr>) (ptr + 1) ?s1 ?s2 ?s3 = (mppc2, m)" by force
  have "mppc_ok level (mppc\<lparr>mp_HistoryBuffer := ?h[ptr := ?s1]\<rparr>)" using ok by (simp add: mppc_ok_def)
  from note_symbol_ok [OF this _ n] r have m2: "mppc_ok level mppc2" "mp_bs mppc2 = mp_bs mppc" "mp_HistoryBuffer mppc2 = ?h[ptr := ?s1]"
    "m + 2 \<le> history_size level" by simp_all
  note w2 = w [folded m2(2)] cap
  have lit: "wp (case write_literal (of_nat cap) ?s1 mppc2 of Ok _ m \<Rightarrow> Ok () (m, Suc i, Suc ptr) | Fail m \<Rightarrow> Fail (m, Suc i, Suc ptr) | Fault \<Rightarrow> Fault)
      (\<lambda>_ s. \<exists>toks. tracks level h0 p0 src cap toks s) (flushed level)"
    using len r hs i by (intro written_tracks [OF t _ write_literal_written [OF w2] m2(1), where n = 1])
      (auto simp: token_ok_def play_def m2(3) nth_list_update)
  note cpy = match_tracks [OF t i p0 cap m2(1,2,4), where below = below]
  obtain b where b: "match_found below (?h[ptr := ?s1]) (mp_HistoryPtr mppc2) (ptr + 1) m ?s1 ?s2 ?s3 = Some b"
    using m2(4) hs len by (cases "match_found below (?h[ptr := ?s1]) (mp_HistoryPtr mppc2) (ptr + 1) m ?s1 ?s2 ?s3") (auto simp: match_found_def split: if_split_asm)
  have rng: "\<not> length ?h \<le> ptr" "\<not> length ?h \<le> ptr + 2" using r hs len by simp_all
  show ?thesis
  proof (cases b)
    case True
    with b cpy n m2(3) rng show ?thesis by (simp add: compress_step_def Let_def numeral_3_eq_3 numeral_2_eq_2)
  next
    case False
    with b lit n m2(3) rng show ?thesis by (simp add: compress_step_def Let_def)
  qed
qed

lemma compress_loop_tracks:
  assumes cap: "0 < cap" "cap < 2 ^ 27"
  shows "tracks level h0 p0 src cap toks s \<Longrightarrow> p0 + length src + 2 \<le> history_size level \<Longrightarrow> DstSize = of_nat cap \<Longrightarrow>
    wp (compress_loop below src DstSize s) (\<lambda>_ s. \<exists>toks. tracks level h0 p0 src cap toks s) (flushed level)"
proof (induction below src DstSize s arbitrary: toks rule: compress_loop.induct)
  case (1 below src DstSize mppc i ptr)
  show ?case
  proof (cases "i + 3 < length src")
    case True
    note step = compress_step_tracks [OF "1.prems"(1) True "1.prems"(2) cap, of below, folded "1.prems"(3)]
    have "wp (compress_step below src DstSize (mppc, i, ptr))
        (\<lambda>_ s. wp (compress_loop below src DstSize s) (\<lambda>_ s. \<exists>toks. tracks level h0 p0 src cap toks s) (flushed level)) (flushed level)"
    proof (cases "compress_step below src DstSize (mppc, i, ptr)")
      case (Ok u s)
      with step "1.IH" [OF True Ok _ "1.prems"(2,3)] show ?thesis by auto
    qed (use step in simp_all)
    with True show ?thesis by (simp add: compress_loop.simps)
  next
    case False
    with "1.prems" show ?thesis by (auto simp: compress_loop.simps)
  qed
qed

lemma compress_tail_tracks:
  assumes cap: "0 < cap" "cap < 2 ^ 27"
  shows "tracks level h0 p0 src cap toks s \<Longrightarrow> p0 + length src + 2 \<le> history_size level \<Longrightarrow> DstSize = of_nat cap \<Longrightarrow>
    wp (compress_tail src DstSize s) (\<lambda>_ s. \<exists>toks. tracks level h0 p0 src cap toks s \<and> fst (snd s) = length src) (flushed level)"
proof (induction src DstSize s arbitrary: toks rule: compress_tail.induct)
  case (1 src DstSize mppc i ptr)
  show ?case
  proof (cases "i < length src")
    case True
    have t: "mppc_ok level mppc" "ptr = p0 + i" "length (mp_HistoryBuffer mppc) = 65536"
      "writer_at (mp_bs mppc) cap (token_bits level toks)" "length (token_bits level toks) \<le> 8 * cap"
      using "1.prems"(1) by (simp_all add: tracks_def mppc_ok_def)
    have r: "ptr < 65536" using t(2) True "1.prems"(2) history_size_le [of level] by simp
    note lit = write_literal_written [OF t(4,5) cap, where level = level and b = "src ! i", folded "1.prems"(3)]
    show ?thesis
    proof (cases "write_literal DstSize (src ! i) mppc")
      case (Ok u m)
      then obtain bs where bs: "m = mppc\<lparr>mp_bs := bs\<rparr>" "writer_at bs cap (token_bits level toks @ token_bits level [Literal (src ! i)])"
        "length (token_bits level toks @ token_bits level [Literal (src ! i)]) \<le> 8 * cap" using lit by (auto simp del: length_concat)
      have "tracks level h0 p0 src cap (toks @ [Literal (src ! i)]) (m\<lparr>mp_HistoryBuffer := (mp_HistoryBuffer m)[ptr := src ! i]\<rparr>, i + 1, ptr + 1)"
        using bs t r True by (intro tracks_token [OF "1.prems"(1)]) (auto simp: token_ok_def play_def mppc_ok_def nth_list_update simp del: length_concat)
      with "1.IH" [OF True Ok _ _ "1.prems"(2,3)] Ok True r t(3) bs(1) show ?thesis by (simp add: compress_tail.simps [of src DstSize mppc])
    next
      case (Fail m)
      with lit t(1) True show ?thesis by (auto simp: compress_tail.simps [of src DstSize mppc] flushed_def)
    qed (use lit in simp)
  next
    case False
    with "1.prems" show ?thesis by (auto simp: compress_tail.simps tracks_def)
  qed
qed

lemma copy_match_outside:
  "copy_match n src dst h = Some h' \<Longrightarrow> k < dst \<or> dst + n \<le> k \<Longrightarrow> h' ! k = h ! k"
  by (induction n arbitrary: src dst h) (auto split: if_split_asm simp: nth_list_update)

lemma play_all_outside:
  "play_all level toks (h, ptr) = Some (h', ptr') \<Longrightarrow> \<forall>tok \<in> set toks. token_ok level tok \<Longrightarrow> k < ptr \<or> ptr' \<le> k \<Longrightarrow> h' ! k = h ! k"
proof (induction toks arbitrary: h ptr)
  case (Cons tok toks)
  then obtain h1 p1 where p: "play level tok (h, ptr) = Some (h1, p1)" "play_all level toks (h1, p1) = Some (h', ptr')"
    by (auto simp: bind_eq_Some_conv)
  have m: "ptr < p1" "p1 \<le> ptr'" using play_moves(1) [OF p(1)] play_all_moves [OF p(2)] Cons.prems(2) by simp_all
  then have "k < ptr \<or> p1 \<le> k" using Cons.prems(3) by linarith
  then have "h1 ! k = h ! k" using p(1)
    by (auto simp: play_def nth_list_update split: mppc_token.split_asm if_split_asm dest: copy_match_outside)
  with Cons.IH [OF p(2)] Cons.prems(2,3) m show ?case by auto
qed simp

section \<open>Two contexts that have seen the same packets\<close>

definition synced :: "u32 \<Rightarrow> mppc_context \<Rightarrow> mppc_context \<Rightarrow> bool" where
  "synced level c d \<longleftrightarrow>
     mppc_ok level c \<and> mp_CompressionLevel d = level \<and> mp_HistoryBufferSize d = of_nat (history_size level) \<and>
     mp_HistoryBuffer d = mp_HistoryBuffer c \<and> (\<forall>k < 65536. history_size level \<le> k \<longrightarrow> mp_HistoryBuffer c ! k = 0) \<and>
     (if mp_HistoryOffset c = of_nat (history_size level) + 1 then mp_HistoryBuffer c = replicate 65536 0
      else unat (mp_HistoryOffset c) + 2 \<le> history_size level \<and>
        (mp_HistoryOffset c \<noteq> 0 \<longrightarrow> mp_HistoryPtr d = unat (mp_HistoryOffset c)))"

lemma reset_ok: "mppc_ok level m \<Longrightarrow> mppc_ok level (mppc_context_reset m True)"
  by (auto simp: mppc_ok_def mppc_context_reset_def Let_def history_size_def)

text \<open>The packet that is sent as it is.\<close>

lemma flushed_synced:
  assumes s: "synced level c d" and m: "mppc_ok level m" and src: "length src < 2 ^ 29"
  shows "\<exists>d'. mppc_decompress d src (PACKET_FLUSHED OR level) = Ok (1, Some src) d' \<and> synced level (mppc_context_reset m True) d'"
proof -
  obtain bs where bs: "BitStream_Fetch (BitStream_Attach (mp_bs d) src (of_nat (length src))) = Ok () bs" "reader_at bs src 0"
    using reader_attached [OF src] by blast
  have l: "level = 0 \<or> level = 1" using m by (simp add: mppc_ok_def)
  have u: "unat (of_nat (history_size level) :: u32) = history_size level" by (simp add: history_size_def)
  have d: "mp_CompressionLevel d = level" "mp_HistoryBufferSize d = of_nat (history_size level)" "length (mp_HistoryBuffer d) = 65536"
    "\<And>k. k < 65536 \<Longrightarrow> history_size level \<le> k \<Longrightarrow> mp_HistoryBuffer d ! k = 0"
    using s by (auto simp: synced_def mppc_ok_def)
  have z: "blit (mp_HistoryBuffer d) 0 (replicate (history_size level) 0) = replicate 65536 0"
    using d(3,4) history_size_le [of level] by (intro nth_equalityI) (simp_all add: nth_blit)
  have "mppc_decompress d src (PACKET_FLUSHED OR level) = Ok (1, Some src) (d\<lparr>mp_bs := bs, mp_HistoryOffset := 0, mp_HistoryPtr := 0, mp_HistoryBuffer := replicate 65536 0\<rparr>)"
    using l bs(1) d(2) u z by (auto simp: mppc_decompress_def apply_flags_def Let_def)
  moreover have "synced level (mppc_context_reset m True) (d\<lparr>mp_bs := bs, mp_HistoryOffset := 0, mp_HistoryPtr := 0, mp_HistoryBuffer := replicate 65536 0\<rparr>)"
    using reset_ok [OF m] d(1,2) m by (simp add: synced_def mppc_context_reset_def Let_def mppc_ok_def)
  ultimately show ?thesis by blast
qed

text \<open>The start of a packet, on both sides.\<close>

lemma decompress_started:
  assumes "length out < 2 ^ 29" and l: "level = 0 \<or> level = 1" and s: "synced level c d"
    and fl: "flags = PACKET_COMPRESSED OR level OR (if front then PACKET_AT_FRONT else 0) OR (if flush then PACKET_FLUSHED else 0)"
    and fr: "front \<longleftrightarrow> \<not> keep" "flush \<longleftrightarrow> \<not> keep \<and> mp_HistoryOffset c = of_nat (history_size level) + 1"
      "keep \<Longrightarrow> mp_HistoryOffset c \<noteq> 0 \<and> mp_HistoryOffset c \<noteq> of_nat (history_size level) + 1"
  obtains bs d' where "reader_at bs out 0" "mp_HistoryPtr d' = (if keep then unat (mp_HistoryOffset c) else 0)"
    "mp_HistoryBuffer d' = mp_HistoryBuffer c" "mp_CompressionLevel d' = level" "mp_HistoryBufferSize d' = of_nat (history_size level)"
    "mppc_decompress d out flags =
       (case decompress_loop level (history_size level - 1) bs (mp_HistoryBuffer c) (mp_HistoryPtr d') of
          Ok status (bs, history, ptr) \<Rightarrow>
            if status = 1 then Ok (1, Some (take (ptr - mp_HistoryPtr d') (drop (mp_HistoryPtr d') history)))
                 (d'\<lparr>mp_bs := bs, mp_HistoryBuffer := history, mp_HistoryPtr := ptr\<rparr>)
            else Ok (status, None) (d'\<lparr>mp_bs := bs, mp_HistoryBuffer := history\<rparr>)
        | _ \<Rightarrow> Fault)"
proof -
  obtain bs where bs: "BitStream_Fetch (BitStream_Attach (mp_bs d) out (of_nat (length out))) = Ok () bs" "reader_at bs out 0"
    using reader_attached [OF assms(1)] by blast
  define d' where "d' = d\<lparr>mp_bs := bs, mp_HistoryOffset := (if keep then mp_HistoryOffset d else 0),
     mp_HistoryPtr := (if keep then unat (mp_HistoryOffset c) else 0)\<rparr>"
  have z: "flags AND PACKET_COMPRESSED \<noteq> 0" "flags AND PACKET_AT_FRONT \<noteq> 0 \<longleftrightarrow> front" "flags AND PACKET_FLUSHED \<noteq> 0 \<longleftrightarrow> flush"
    using l unfolding fl by (cases front; cases flush; auto)+
  have d: "mp_CompressionLevel d = level" "mp_HistoryBufferSize d = of_nat (history_size level)" "mp_HistoryBuffer d = mp_HistoryBuffer c"
    "keep \<Longrightarrow> mp_HistoryPtr d = unat (mp_HistoryOffset c)" using s fr(3) by (auto simp: synced_def)
  have h: "mp_HistoryBuffer c = replicate 65536 0" if flush using s that fr(2) by (simp add: synced_def)
  have u: "unat (of_nat (history_size level) :: u32) = history_size level" "unat (of_nat (history_size level) - 1 :: u32) = history_size level - 1"
    by (auto simp: history_size_def)
  show thesis
  proof (rule that [of bs d'])
    show "mppc_decompress d out flags =
       (case decompress_loop level (history_size level - 1) bs (mp_HistoryBuffer c) (mp_HistoryPtr d') of
          Ok status (bs, history, ptr) \<Rightarrow>
            if status = 1 then Ok (1, Some (take (ptr - mp_HistoryPtr d') (drop (mp_HistoryPtr d') history)))
                 (d'\<lparr>mp_bs := bs, mp_HistoryBuffer := history, mp_HistoryPtr := ptr\<rparr>)
            else Ok (status, None) (d'\<lparr>mp_bs := bs, mp_HistoryBuffer := history\<rparr>)
        | _ \<Rightarrow> Fault)"
    proof -
      let ?st = "apply_flags (d\<lparr>mp_bs := bs\<rparr>) flags"
      have "blit (replicate 65536 0) 0 (replicate (history_size level) 0) = (replicate 65536 0 :: u8 list)"
        using history_size_le [of level] by (simp add: blit_def flip: replicate_add)
      then have "?st = d'"
        using z(2,3) fr d h u(1) unfolding apply_flags_def d'_def Let_def by (cases d) (cases keep; cases flush; simp)
      moreover have "mp_CompressionLevel d' = level" "unat (mp_HistoryBufferSize d' - 1) = history_size level - 1" "mp_HistoryBuffer d' = mp_HistoryBuffer c"
        using d u(2) by (simp_all add: d'_def)
      ultimately show ?thesis using z(1) bs(1) unfolding mppc_decompress_def Let_def by (simp split: res.split)
    qed
  qed (use bs(2) d in \<open>simp_all add: d'_def\<close>)
qed

text \<open>The bytes that the compressor hands out hold the bits it wrote and fewer than eight more.\<close>

lemma bits_handed_out:
  assumes w: "writer_at bs cap ws" and l: "length ws \<le> 8 * cap" and cap: "cap < 2 ^ 27"
  obtains bs' out where "BitStream_Flush bs = Ok () bs'" "out = take (unat ((bs_position bs' + 7) div 8)) (bs_buffer bs')" "length out \<le> cap"
    "length ws \<le> 8 * length out" "8 * length out < length ws + 8" "\<And>j. j < length ws \<Longrightarrow> bit_of out j = ws ! j"
proof -
  define n where "n = (length ws + 7) div 8"
  have l31: "length ws < 2 ^ 31" "length ws + 7 < 2 ^ 32" using l cap by simp_all
  have n: "n \<le> cap" "length ws \<le> 8 * n" "8 * n < length ws + 8" using l unfolding n_def by linarith+
  have "bs_position bs + 7 = of_nat (length ws + 7)" using w by (simp add: writer_at_def)
  then have pos: "unat ((bs_position bs + 7) div 8) = n"
    using unat_less [OF l31(2)] by (simp add: unat_div n_def del: of_nat_add)
  obtain buf where buf: "BitStream_Flush bs = Ok () (bs\<lparr>bs_buffer := buf\<rparr>)" "length buf = cap"
    "\<And>k. k < length ws \<Longrightarrow> k < 8 * cap \<Longrightarrow> bit_of buf k = ws ! k"
    using writer_end [OF w l31(1)] by blast
  have "bit_of (take n buf) j = ws ! j" if "j < length ws" for j
    using that n buf(2) l by (simp add: bit_of_take buf(3))
  with buf(1,2) n pos show thesis by (intro that [of "bs\<lparr>bs_buffer := buf\<rparr>" "take n buf"]) simp_all
qed

text \<open>A packet that was compressed to its end is reproduced, and both sides hold the new history.\<close>

lemma tracked_packet:
  assumes s: "synced level c d" and tr: "tracks level (mp_HistoryBuffer c) p0 src cap toks (m, length src, ptr)"
    and p0: "p0 = (if keep then unat (mp_HistoryOffset c) else 0)" "p0 + length src + 2 \<le> history_size level"
      "keep \<Longrightarrow> mp_HistoryOffset c \<noteq> 0 \<and> mp_HistoryOffset c \<noteq> of_nat (history_size level) + 1"
    and cap: "cap < 2 ^ 27"
    and fl: "flags = PACKET_COMPRESSED OR level OR (if \<not> keep then PACKET_AT_FRONT else 0) OR
      (if \<not> keep \<and> mp_HistoryOffset c = of_nat (history_size level) + 1 then PACKET_FLUSHED else 0)"
  shows "\<exists>bs out d'. BitStream_Flush (mp_bs m) = Ok () bs \<and> out = take (unat ((bs_position bs + 7) div 8)) (bs_buffer bs) \<and> length out \<le> cap \<and>
    mppc_decompress d out flags = Ok (1, Some src) d' \<and> synced level (m\<lparr>mp_bs := bs, mp_HistoryPtr := ptr, mp_HistoryOffset := of_nat ptr\<rparr>) d'"
proof -
  let ?hs = "history_size level"
  note hs = history_size_le [of level]
  have t: "mppc_ok level m" "\<forall>tok \<in> set toks. token_ok level tok" "writer_at (mp_bs m) cap (token_bits level toks)"
      "length (token_bits level toks) \<le> 8 * cap" "play_all level toks (mp_HistoryBuffer c, p0) = Some (mp_HistoryBuffer m, ptr)" "ptr = p0 + length src"
      "\<forall>k < length src. mp_HistoryBuffer m ! (p0 + k) = src ! k" using tr by (simp_all add: tracks_def)
  have c: "level = 0 \<or> level = 1" "length (mp_HistoryBuffer c) = 65536" "\<forall>k<65536. ?hs \<le> k \<longrightarrow> mp_HistoryBuffer c ! k = 0"
    using s by (auto simp: synced_def mppc_ok_def)
  obtain wbs out where out: "BitStream_Flush (mp_bs m) = Ok () wbs" "out = take (unat ((bs_position wbs + 7) div 8)) (bs_buffer wbs)" "length out \<le> cap"
    "length (token_bits level toks) \<le> 8 * length out" "8 * length out < length (token_bits level toks) + 8"
    "\<And>j. j < length (token_bits level toks) \<Longrightarrow> bit_of out j = token_bits level toks ! j"
    using bits_handed_out [OF t(3,4) cap] by blast
  have l27: "length out < 2 ^ 27" "length out < 2 ^ 29" using out(3) cap by simp_all
  obtain bs d' where d': "reader_at bs out 0" "mp_HistoryPtr d' = (if keep then unat (mp_HistoryOffset c) else 0)"
    "mp_HistoryBuffer d' = mp_HistoryBuffer c" "mp_CompressionLevel d' = level" "mp_HistoryBufferSize d' = of_nat ?hs"
    "mppc_decompress d out flags =
       (case decompress_loop level (?hs - 1) bs (mp_HistoryBuffer c) (mp_HistoryPtr d') of
          Ok status (bs, history, ptr) \<Rightarrow>
            if status = 1 then Ok (1, Some (take (ptr - mp_HistoryPtr d') (drop (mp_HistoryPtr d') history)))
                 (d'\<lparr>mp_bs := bs, mp_HistoryBuffer := history, mp_HistoryPtr := ptr\<rparr>)
            else Ok (status, None) (d'\<lparr>mp_bs := bs, mp_HistoryBuffer := history\<rparr>)
        | _ \<Rightarrow> Fault)"
    by (rule decompress_started [OF l27(2) c(1) s fl refl refl p0(3)])
  note d2 = d'(2) [folded p0(1)]
  have e: "ptr \<le> Suc (?hs - 1)" "?hs - 1 < length (mp_HistoryBuffer c)" using t(6) p0(2) hs c(2) by simp_all
  have "\<exists>bs'. decompress_loop level (?hs - 1) bs (mp_HistoryBuffer c) p0 = Ok 1 (bs', mp_HistoryBuffer m, ptr)"
    by (rule decompress_tokens [OF d'(1) l27(1) t(2) _ _ _ t(5) e]) (use out(4-6) in \<open>simp_all only: add_0\<close>)
  then obtain bs' where loop: "decompress_loop level (?hs - 1) bs (mp_HistoryBuffer c) p0 = Ok 1 (bs', mp_HistoryBuffer m, ptr)" ..
  have len: "length (mp_HistoryBuffer m) = 65536" using t(1) by (simp add: mppc_ok_def)
  have "take (length src) (drop p0 (mp_HistoryBuffer m)) = src"
    using t(7) len p0(2) hs by (intro nth_equalityI) auto
  then have dec: "mppc_decompress d out flags = Ok (1, Some src) (d'\<lparr>mp_bs := bs', mp_HistoryBuffer := mp_HistoryBuffer m, mp_HistoryPtr := ptr\<rparr>)"
    unfolding d'(6) d2 loop using t(6) by simp
  have "synced level (m\<lparr>mp_bs := wbs, mp_HistoryPtr := ptr, mp_HistoryOffset := of_nat ptr\<rparr>)
      (d'\<lparr>mp_bs := bs', mp_HistoryBuffer := mp_HistoryBuffer m, mp_HistoryPtr := ptr\<rparr>)"
  proof -
    have u: "unat (of_nat ptr :: u32) = ptr" "unat (of_nat ?hs + 1 :: u32) = ?hs + 1" "ptr + 2 \<le> ?hs"
      using t(6) p0(2) hs unat_less [of ptr] by (simp_all add: history_size_def)
    then have "(of_nat ptr :: u32) \<noteq> of_nat ?hs + 1" by (metis add_le_same_cancel1 add.assoc one_add_one not_numeral_le_zero trans_le_add1 add_leD1 nat_1_add_1)
    moreover have "mp_HistoryBuffer m ! k = 0" if "k < 65536" "?hs \<le> k" for k
      using play_all_outside [OF t(5,2), of k] c(3) that u(3) by simp
    ultimately show ?thesis
      using t(1) u(1,3) d'(4,5) by (simp add: synced_def mppc_ok_def)
  qed
  with dec out(1-3) show ?thesis by blast
qed

lemma compress_decompress:
  assumes s: "synced level c d" and src: "src \<noteq> []" "length src + 2 \<le> history_size level" and dst: "dst \<noteq> []" "length dst < 2 ^ 27"
  shows "\<exists>out flags c' d'. mppc_compress below c src (Some dst) = Ok (1, Some out, flags) c' \<and> length out \<le> length src \<and>
    mppc_decompress d out flags = Ok (1, Some src) d' \<and> synced level c' d'"
proof -
  let ?hs = "history_size level" and ?off = "mp_HistoryOffset c"
  note hs = history_size_le [of level]
  have ok: "mppc_ok level c" and l: "level = 0 \<or> level = 1" and lev: "mp_CompressionLevel c = level" "mp_HistoryBufferSize c = of_nat ?hs"
    and len: "length (mp_HistoryBuffer c) = 65536"
    using s by (auto simp: synced_def mppc_ok_def)
  define keep where "keep \<longleftrightarrow> ?off + of_nat (length src) < of_nat ?hs - 3 \<and> ?off \<noteq> 0"
  have keep: "?off \<noteq> of_nat ?hs + 1 \<and> ?off \<noteq> 0 \<and> unat ?off + length src + 3 < ?hs" if keep
  proof -
    have "unat ?off \<le> ?hs + 1" "?off \<noteq> of_nat ?hs + 1 \<Longrightarrow> unat ?off + 2 \<le> ?hs" using s hs by (auto simp: synced_def history_size_def split: if_split_asm)
    moreover have "unat (of_nat (length src) :: u32) = length src" using src(2) hs unat_less [of "length src"] by simp
    moreover have "unat (of_nat ?hs - 3 :: u32) = ?hs - 3" by (auto simp: history_size_def)
    ultimately have "unat ?off + length src < ?hs - 3"
      using that src(2) hs unat_add_lem [of ?off "of_nat (length src)"] by (simp add: keep_def word_less_nat_alt)
    moreover from this have "?off \<noteq> of_nat ?hs + 1" by (auto simp: history_size_def)
    ultimately show ?thesis using that by (simp add: keep_def)
  qed
  define p0 where "p0 = (if keep then unat ?off else 0)"
  have p0: "p0 + length src + 2 \<le> ?hs" using keep src(2) by (cases keep) (simp_all add: p0_def)
  define cap where "cap = min (length dst) (length src)"
  have cap: "0 < cap" "cap < 2 ^ 27" "cap \<le> length dst" "cap \<le> length src" using src(1) dst by (auto simp: cap_def)
  have dsz: "(if of_nat (length dst) > (of_nat (length src) :: u32) then of_nat (length src) else of_nat (length dst)) = (of_nat cap :: u32)"
    using of_nat_less32 [of "length src" "length dst"] src(2) hs dst(2) by (simp add: cap_def min_def)
  let ?bs = "BitStream_Attach (mp_bs c) (take cap dst) (of_nat cap)"
  have "writer_at ?bs cap []" using writer_attached [of "take cap dst" "mp_bs c"] cap by simp
  then have t0: "tracks level (mp_HistoryBuffer c) p0 src cap [] (c\<lparr>mp_bs := ?bs\<rparr>, 0, p0)"
    using ok by (simp add: tracks_def mppc_ok_def)
  define r where "r = and_then (compress_loop below src (of_nat cap) (c\<lparr>mp_bs := ?bs\<rparr>, 0, p0)) (\<lambda>_ s. compress_tail src (of_nat cap) s)"
  have w: "wp r (\<lambda>_ s. \<exists>toks. tracks level (mp_HistoryBuffer c) p0 src cap toks s \<and> fst (snd s) = length src) (flushed level)"
    unfolding r_def wp_and_then
    by (rule wp_mono [OF compress_loop_tracks [OF cap(1,2) t0 p0 refl]])
      (use compress_tail_tracks [OF cap(1,2) _ p0 refl] in blast)+
  have ucap: "unat (of_nat cap :: u32) = cap" using cap(2) unat_less [of cap] by simp
  have run: "mppc_compress below c src (Some dst) = (case r of
                  Fault \<Rightarrow> Fault
                | Fail (mppc, _) \<Rightarrow> Ok (1, Some src, PACKET_FLUSHED OR level) mppc
                | Ok _ (mppc, _, ptr) \<Rightarrow>
                    (case BitStream_Flush (mp_bs mppc) of
                       Ok _ bs \<Rightarrow>
                         let flags = PACKET_COMPRESSED OR level OR (if \<not> keep then PACKET_AT_FRONT else 0) OR
                               (if \<not> keep \<and> ?off = of_nat ?hs + 1 then PACKET_FLUSHED else 0)
                         in Ok (1, Some (take (unat ((bs_position bs + 7) div 8)) (bs_buffer bs)), flags)
                              (mppc\<lparr>mp_bs := bs, mp_HistoryPtr := ptr, mp_HistoryOffset := of_nat ptr\<rparr>)
                     | _ \<Rightarrow> Fault))"
  proof -
    have "unat (if keep then ?off else 0) = p0" by (simp add: p0_def)
    then show ?thesis
      unfolding mppc_compress_def Let_def lev keep_def [symmetric] option.case dsz ucap r_def by simp
  qed
  show ?thesis
  proof (cases r)
    case (Fail s')
    with w obtain m where m: "mppc_ok level m" "fst s' = mppc_context_reset m True" by (auto simp: flushed_def)
    have "length src < 2 ^ 29" using src(2) hs by simp
    from flushed_synced [OF s m(1) this] obtain d' where
      "mppc_decompress d src (PACKET_FLUSHED OR level) = Ok (1, Some src) d'" "synced level (mppc_context_reset m True) d'" by blast
    with run Fail m(2) show ?thesis by (cases s') auto
  next
    case (Ok u s')
    with w obtain m ptr toks where tr: "s' = (m, length src, ptr)" "tracks level (mp_HistoryBuffer c) p0 src cap toks (m, length src, ptr)"
      by (cases s') auto
    have k: "keep \<Longrightarrow> ?off \<noteq> 0 \<and> ?off \<noteq> of_nat ?hs + 1" using keep by blast
    from tracked_packet [OF s tr(2) p0_def p0 k cap(2) refl] run Ok tr(1) cap(4) show ?thesis
      by (auto simp: Let_def intro: order.trans)
  qed (use w in simp)
qed

lemma fresh_synced:
  assumes "mppc_context_new al al_bs level a = Some c" "mppc_context_new bl bl_bs level b = Some d"
  shows "synced (if level < 1 then 0 else 1) c d"
  using assms by (auto simp: mppc_context_new_def mppc_context_reset_def Let_def synced_def mppc_ok_def history_size_def split: if_split_asm option.split_asm)

text \<open>
  The two ends as a codec. A packet comes with the byte in front of the history and the output block it is compressed into; the bytes and the flags that
  come out are decompressed.
\<close>

definition mppc_send :: "mppc_context \<Rightarrow> u8 \<times> u8 list \<times> u8 list \<Rightarrow> ((u8 list \<times> u32) \<times> mppc_context) option" where
  "mppc_send c p =
     (case mppc_compress (fst p) c (snd (snd p)) (Some (fst (snd p))) of
        Ok (status, Some out, flags) c' \<Rightarrow> if status < 0 then None else Some ((out, flags), c') | _ \<Rightarrow> None)"

definition mppc_recv :: "mppc_context \<Rightarrow> u8 list \<times> u32 \<Rightarrow> (u8 list \<times> mppc_context) option" where
  "mppc_recv d w =
     (case mppc_decompress d (fst w) (snd w) of
        Ok (status, Some data) d' \<Rightarrow> if status < 0 then None else Some (data, d') | _ \<Rightarrow> None)"

abbreviation mppc_exchange :: "(u8 \<times> u8 list \<times> u8 list) list \<Rightarrow> mppc_context \<Rightarrow> mppc_context \<Rightarrow> (nat \<times> u8 list) list option" where
  "mppc_exchange \<equiv> exchange mppc_send mppc_recv (\<lambda>w. length (fst w))"

definition mppc_fits :: "u32 \<Rightarrow> u8 \<times> u8 list \<times> u8 list \<Rightarrow> bool" where
  "mppc_fits level p \<longleftrightarrow>
     snd (snd p) \<noteq> [] \<and> length (snd (snd p)) + 2 \<le> history_size level \<and> fst (snd p) \<noteq> [] \<and> length (fst (snd p)) < 2 ^ 27"

interpretation mppc: packet_codec mppc_send mppc_recv "\<lambda>w. length (fst w)" "synced level" "mppc_fits level" "\<lambda>p. snd (snd p)" for level
proof unfold_locales
  fix c d p
  assume "synced level c d" "mppc_fits level p"
  then obtain out flags c' d' where "mppc_compress (fst p) c (snd (snd p)) (Some (fst (snd p))) = Ok (1, Some out, flags) c'" "length out \<le> length (snd (snd p))"
      "mppc_decompress d out flags = Ok (1, Some (snd (snd p))) d'" "synced level c' d'"
    using compress_decompress [of level c d "snd (snd p)" "fst (snd p)" "fst p"] by (auto simp: mppc_fits_def)
  then show "\<exists>w c' d'. mppc_send c p = Some (w, c') \<and> length (fst w) \<le> length (snd (snd p)) \<and> mppc_recv d w = Some (snd (snd p), d') \<and> synced level c' d'"
    by (simp add: mppc_send_def mppc_recv_def)
qed

section \<open>Properties of MPPC\<close>



end
