(* ===== verification/Mppc_Safety.thy ===== *)
theory Mppc_Safety
  imports Mppc_Codes
begin

text \<open>
  The decompressor of MPPC on packets from anywhere. With the history of 8K no packet makes it leave its buffers, whatever its bits say;
  with the history of 64K a copy that begins near the end of the history runs over it.
\<close>

section \<open>Packets from anywhere\<close>

definition reader_safe :: "wBitStream \<Rightarrow> bool" where
  "reader_safe bs \<longleftrightarrow> bs_capacity bs = of_nat (length (bs_buffer bs)) \<and> length (bs_buffer bs) < 2 ^ 32 \<and> unat (bs_offset bs) < 32"

lemma bs_word_safe:
  assumes "reader_safe bs" "bs_pointer bs + k + 4 < 2 ^ 32"
  shows "\<exists>w. bs_word bs k = Some w"
proof -
  have "\<exists>b. bs_load bs j = Some b" if "bs_pointer bs + j < 2 ^ 32" for j
    using assms(1) that of_nat_less32 [of "bs_pointer bs + j" "length (bs_buffer bs)"]
    by (auto simp: bs_load_def bs_guard_def reader_safe_def)
  from this [of k] this [of "k + 1"] this [of "k + 2"] this [of "k + 3"] assms(2) show ?thesis by (auto simp: bs_word_def)
qed

lemma fetch_safe:
  assumes "length src < 2 ^ 32"
  shows "\<exists>bs'. BitStream_Fetch (BitStream_Attach bs src (of_nat (length src))) = Ok () bs' \<and> reader_safe bs' \<and> bs_pointer bs' = 0"
proof -
  let ?bs = "BitStream_Attach bs src (of_nat (length src))"
  have s: "reader_safe ?bs" "bs_pointer ?bs = 0" using assms by (simp_all add: reader_safe_def BitStream_Attach_def)
  obtain w where w: "bs_word ?bs 0 = Some w" using bs_word_safe [OF s(1), of 0] s(2) by auto
  have s2: "reader_safe (?bs\<lparr>bs_accumulator := w\<rparr>)" "bs_pointer (?bs\<lparr>bs_accumulator := w\<rparr>) = 0" using s by (simp_all add: reader_safe_def)
  obtain w' where "bs_word (?bs\<lparr>bs_accumulator := w\<rparr>) 4 = Some w'" using bs_word_safe [OF s2(1), of 4] s2(2) by auto
  with w s show ?thesis by (simp add: BitStream_Fetch_def BitStream_Prefetch_def reader_safe_def)
qed

lemma shift_safe:
  assumes s: "reader_safe bs" and p: "bs_pointer bs + 12 < 2 ^ 32" and n: "unat nbits < 32"
  shows "\<exists>bs'. BitStream_Shift bs nbits = Ok () bs' \<and> reader_safe bs' \<and> bs_pointer bs' \<le> bs_pointer bs + 4"
proof -
  have o: "unat (bs_offset bs + nbits) = unat (bs_offset bs) + unat nbits"
    using s n by (intro unat_add_lem [THEN iffD1]) (simp add: reader_safe_def)
  have l: "nbits < 32" using n by (simp add: word_less_nat_alt)
  show ?thesis
  proof (cases "bs_offset bs + nbits < 32")
    case True
    then show ?thesis using s l o by (auto simp: BitStream_Shift_def Let_def reader_safe_def word_less_nat_alt)
  next
    case False
    define b2 where "b2 = bs\<lparr>bs_accumulator := push_bit (unat nbits) (bs_accumulator bs) OR (drop_bit (32 - unat nbits) (bs_prefetch bs) AND push_bit (unat nbits) 1 - 1),
      bs_prefetch := push_bit (unat nbits) (bs_prefetch bs), bs_position := bs_position bs + nbits, bs_mask := push_bit (unat nbits) 1 - 1,
      bs_offset := bs_offset bs + nbits - 32, bs_pointer := bs_pointer bs + 4\<rparr>"
    have "unat (bs_offset bs + nbits - 32) = unat (bs_offset bs) + unat nbits - 32"
      using False o by (subst unat_sub) (simp_all add: not_less)
    moreover from this have "unat (bs_offset bs + nbits - 32) < 32" using s n unfolding reader_safe_def by linarith
    ultimately have k: "unat (bs_offset b2) < 32" "reader_safe b2" "bs_pointer b2 = bs_pointer bs + 4" using s by (simp_all add: b2_def reader_safe_def)
    have nz: "nbits \<noteq> 0" using False s by (auto simp: reader_safe_def word_less_nat_alt)
    obtain w where w: "bs_word b2 4 = Some w" using bs_word_safe [OF k(2), of 4] k(3) p by auto
    show ?thesis using False l w k nz by (cases bs) (auto simp: BitStream_Shift_def BitStream_Prefetch_def Let_def b2_def reader_safe_def)
  qed
qed

lemma offset_bits: "read_copy_offset level acc = Inr (off, n) \<Longrightarrow> unat n < 32"
  by (auto simp: read_copy_offset_def split: if_split_asm)

lemma length_bits: "read_match_length level acc = Inr (len, n) \<Longrightarrow> unat n < 32"
  by (auto simp: read_match_length_def split: if_split_asm)

lemma copy_match_inside:
  "src + n \<le> length h \<Longrightarrow> dst + n \<le> length h \<Longrightarrow> \<exists>h'. copy_match n src dst h = Some h' \<and> length h' = length h"
proof (induction n arbitrary: src dst h)
  case (Suc n)
  from Suc.IH [of "Suc src" "h[dst := h ! src]" "Suc dst"] Suc.prems show ?case by simp
qed simp

text \<open>
  A state of the loop in which every access is safe. The reader moves by at most eight bytes while the position in the history
  moves by at least one, so that the offset of the reader never wraps.
\<close>

definition loop_safe :: "wBitStream \<Rightarrow> u8 list \<Rightarrow> nat \<Rightarrow> bool" where
  "loop_safe bs h ptr \<longleftrightarrow> reader_safe bs \<and> length h = 65536 \<and> ptr \<le> 65536 \<and> bs_pointer bs \<le> 8 * ptr"

lemma copy_step_safe:
  assumes s: "loop_safe bs h ptr" and c: "\<not> bs_length bs - bs_position bs < 8" "ptr \<le> 8191"
    and cpy: "bs_accumulator bs AND 0x80000000 \<noteq> 0" "bs_accumulator bs AND 0xC0000000 \<noteq> 0x80000000"
  shows "(\<exists>status bs'. decompress_loop 0 8191 bs h ptr = Ok status (bs', h, ptr)) \<or>
    (\<exists>bs' h' ptr'. decompress_loop 0 8191 bs h ptr = decompress_loop 0 8191 bs' h' ptr' \<and> loop_safe bs' h' ptr' \<and> ptr < ptr' \<and> ptr' \<le> 8192)"
proof (cases "read_copy_offset 0 (bs_accumulator bs)")
  case (Inl e)
  then show ?thesis using cpy c by (subst decompress_loop.simps) auto
next
  case (Inr r)
  then obtain off n1 where o: "read_copy_offset 0 (bs_accumulator bs) = Inr (off, n1)" by (cases r) auto
  have p: "reader_safe bs" "bs_pointer bs + 16 < 2 ^ 32" "bs_pointer bs \<le> 8 * ptr" "length h = 65536" using s by (simp_all add: loop_safe_def)
  obtain bs1 where b1: "BitStream_Shift bs n1 = Ok () bs1" "reader_safe bs1" "bs_pointer bs1 \<le> bs_pointer bs + 4"
    using shift_safe [OF p(1) _ offset_bits [OF o]] p(2) by auto
  show ?thesis
  proof (cases "read_match_length 0 (bs_accumulator bs1)")
    case (Inl e)
    then show ?thesis using cpy c o b1 by (subst decompress_loop.simps) auto
  next
    case (Inr r2)
    then obtain len n2 where l: "read_match_length 0 (bs_accumulator bs1) = Inr (len, n2)" by (cases r2) auto
    obtain bs2 where b2: "BitStream_Shift bs1 n2 = Ok () bs2" "reader_safe bs2" "bs_pointer bs2 \<le> bs_pointer bs1 + 4"
      using shift_safe [OF b1(2) _ length_bits [OF l]] p(2) b1(3) by auto
    note len = match_length_pos [OF l]
    show ?thesis
    proof (cases "8191 < ptr + unat len - 1")
      case True
      then show ?thesis using cpy c o l b1(1) b2(1) by (subst decompress_loop.simps) auto
    next
      case False
      let ?i = "unat ((of_nat ptr - off) AND 0x1FFF)"
      have "?i \<le> 8191" using word_and_le1 [of "of_nat ptr - off" "0x1FFF"] by (simp add: word_le_nat_alt)
      moreover have e: "ptr + unat len \<le> 8192" using False len by linarith
      ultimately have "?i + unat len \<le> length h" "ptr + unat len \<le> length h" using p(4) by linarith+
      from copy_match_inside [OF this] obtain h' where h': "copy_match (unat len) ?i ptr h = Some h'" "length h' = 65536" using p(4) by auto
      have "decompress_loop 0 8191 bs h ptr = decompress_loop 0 8191 bs2 h' (ptr + unat len)"
        using cpy c o l b1(1) b2(1) h'(1) False by (subst decompress_loop.simps) simp
      moreover have "loop_safe bs2 h' (ptr + unat len)" using b1(3) b2(2,3) p(3) h'(2) e len by (simp add: loop_safe_def)
      moreover have "ptr < ptr + unat len" using len by simp
      ultimately show ?thesis using e by blast
    qed
  qed
qed

lemma step_safe:
  assumes s: "loop_safe bs h ptr"
  shows "(\<exists>status bs'. decompress_loop 0 8191 bs h ptr = Ok status (bs', h, ptr)) \<or>
    (\<exists>bs' h' ptr'. decompress_loop 0 8191 bs h ptr = decompress_loop 0 8191 bs' h' ptr' \<and> loop_safe bs' h' ptr' \<and> ptr < ptr' \<and> ptr' \<le> 8192)"
proof (cases "bs_length bs - bs_position bs < 8 \<or> 8191 < ptr")
  case True
  then show ?thesis by (subst decompress_loop.simps) auto
next
  case False
  let ?acc = "bs_accumulator bs"
  have c: "\<not> bs_length bs - bs_position bs < 8" "ptr \<le> 8191" "\<not> length h \<le> ptr" using False s by (auto simp: loop_safe_def)
  have lit: "\<exists>bs'. BitStream_Shift bs n = Ok () bs' \<and> loop_safe bs' (h[ptr := b]) (Suc ptr)" if "unat n < 32" for n b
    using shift_safe [OF _ _ that, of bs] s c(2) by (fastforce simp: loop_safe_def)
  consider (lit7) "?acc AND 0x80000000 = 0" | (lit8) "?acc AND 0x80000000 \<noteq> 0" "?acc AND 0xC0000000 = 0x80000000"
    | (cpy) "?acc AND 0x80000000 \<noteq> 0" "?acc AND 0xC0000000 \<noteq> 0x80000000" by blast
  then show ?thesis
  proof cases
    case lit7
    define b :: u8 where "b = ucast (drop_bit 24 (?acc AND 0x7F000000))"
    obtain bs' where b': "BitStream_Shift bs 8 = Ok () bs'" "loop_safe bs' (h[ptr := b]) (Suc ptr)" using lit [of 8 b] by auto
    then have "decompress_loop 0 8191 bs h ptr = decompress_loop 0 8191 bs' (h[ptr := b]) (Suc ptr)"
      using c lit7 by (subst decompress_loop.simps) (simp add: b_def)
    moreover have "ptr < Suc ptr" "Suc ptr \<le> 8192" using c(2) by simp_all
    ultimately show ?thesis using b'(2) by blast
  next
    case lit8
    define b :: u8 where "b = ucast (drop_bit 23 (?acc AND 0x3F800000) + 0x80)"
    obtain bs' where b': "BitStream_Shift bs 9 = Ok () bs'" "loop_safe bs' (h[ptr := b]) (Suc ptr)" using lit [of 9 b] by auto
    then have "decompress_loop 0 8191 bs h ptr = decompress_loop 0 8191 bs' (h[ptr := b]) (Suc ptr)"
      using c lit8 by (subst decompress_loop.simps) (simp add: b_def)
    moreover have "ptr < Suc ptr" "Suc ptr \<le> 8192" using c(2) by simp_all
    ultimately show ?thesis using b'(2) by blast
  next
    case cpy
    then show ?thesis by (rule copy_step_safe [OF s c(1,2)])
  qed
qed

lemma decompress_loop_safe:
  "loop_safe bs h ptr \<Longrightarrow> \<exists>status bs' h' ptr'. decompress_loop 0 8191 bs h ptr = Ok status (bs', h', ptr') \<and> length h' = 65536 \<and> ptr \<le> ptr' \<and> ptr' \<le> max ptr 8192"
proof (induction "8192 - ptr" arbitrary: bs h ptr rule: less_induct)
  case less
  from step_safe [OF less.prems] show ?case
  proof
    assume "\<exists>bs' h' ptr'. decompress_loop 0 8191 bs h ptr = decompress_loop 0 8191 bs' h' ptr' \<and> loop_safe bs' h' ptr' \<and> ptr < ptr' \<and> ptr' \<le> 8192"
    then obtain bs' h' ptr' where n: "decompress_loop 0 8191 bs h ptr = decompress_loop 0 8191 bs' h' ptr'" "loop_safe bs' h' ptr'" "ptr < ptr'" "ptr' \<le> 8192" by blast
    from less.hyps [OF _ n(2)] n(3,4) have "\<exists>status bs'' h'' p''. decompress_loop 0 8191 bs' h' ptr' = Ok status (bs'', h'', p'') \<and> length h'' = 65536 \<and> ptr' \<le> p'' \<and> p'' \<le> max ptr' 8192" by simp
    with n show ?thesis by fastforce
  qed (use less.prems in \<open>auto simp: loop_safe_def\<close>)
qed

definition receiver_ok :: "mppc_context \<Rightarrow> bool" where
  "receiver_ok d \<longleftrightarrow> length (mp_HistoryBuffer d) = 65536 \<and> mp_HistoryPtr d \<le> 65536 \<and> unat (mp_HistoryBufferSize d) \<le> 65536"

lemma receiver_ok_new: "mppc_context_new al al_bs level compressor = Some d \<Longrightarrow> receiver_ok d"
  by (auto simp: mppc_context_new_def mppc_context_reset_def receiver_ok_def Let_def split: if_split_asm option.split_asm)

lemma receiver_ok_flags: "receiver_ok d \<Longrightarrow> receiver_ok (apply_flags d flags)"
  by (auto simp: receiver_ok_def apply_flags_def Let_def length_blit)

lemma apply_flags_level [simp]:
  "mp_CompressionLevel (apply_flags d flags) = mp_CompressionLevel d" "mp_HistoryBufferSize (apply_flags d flags) = mp_HistoryBufferSize d"
  "mp_bs (apply_flags d flags) = mp_bs d"
  by (simp_all add: apply_flags_def Let_def)

lemma decompress_unfolded:
  assumes "BitStream_Fetch (BitStream_Attach (mp_bs d) packet (of_nat (length packet))) = Ok () bs" "e = apply_flags (d\<lparr>mp_bs := bs\<rparr>) flags"
    "flags AND PACKET_COMPRESSED \<noteq> 0"
  shows "mppc_decompress d packet flags =
    (case decompress_loop (mp_CompressionLevel e) (unat (mp_HistoryBufferSize e - 1)) bs (mp_HistoryBuffer e) (mp_HistoryPtr e) of
       Ok status (bs, history, ptr) \<Rightarrow>
         if status = 1 then Ok (1, Some (take (ptr - mp_HistoryPtr e) (drop (mp_HistoryPtr e) history))) (e\<lparr>mp_bs := bs, mp_HistoryBuffer := history, mp_HistoryPtr := ptr\<rparr>)
         else Ok (status, None) (e\<lparr>mp_bs := bs, mp_HistoryBuffer := history\<rparr>)
     | _ \<Rightarrow> Fault)"
  using assms(1,3) unfolding assms(2) mppc_decompress_def Let_def by simp

section \<open>Properties of the decompressor\<close>

text \<open>
  C8. With the history of 8K, no packet whatsoever makes the decompressor read or write outside its history or outside the packet: it
  returns, with an error for a code that does not exist or a copy that does not fit, and the context can take the
  next packet.
\<close>

theorem mppc_decompress_8k_safe:
  assumes "receiver_ok d" "length packet < 2 ^ 32"
  shows "\<exists>status out d'. mppc_decompress (mppc_set_compression_level d 0) packet flags = Ok (status, out) d' \<and> receiver_ok d'"
proof -
  let ?d = "mppc_set_compression_level d 0"
  obtain bs where bs: "BitStream_Fetch (BitStream_Attach (mp_bs ?d) packet (of_nat (length packet))) = Ok () bs" "reader_safe bs" "bs_pointer bs = 0"
    using fetch_safe [OF assms(2)] by blast
  define e where "e = apply_flags (?d\<lparr>mp_bs := bs\<rparr>) flags"
  have ok: "receiver_ok e" unfolding e_def using assms(1) by (intro receiver_ok_flags) (simp add: receiver_ok_def mppc_set_compression_level_def)
  have l: "mp_CompressionLevel e = 0" "mp_HistoryBufferSize e = 8192" by (simp_all add: e_def mppc_set_compression_level_def)
  obtain status bs' h' ptr' where loop: "decompress_loop 0 8191 bs (mp_HistoryBuffer e) (mp_HistoryPtr e) = Ok status (bs', h', ptr')"
    "length h' = 65536" "ptr' \<le> max (mp_HistoryPtr e) 8192"
    using decompress_loop_safe [of bs "mp_HistoryBuffer e" "mp_HistoryPtr e"] bs(2,3) ok by (auto simp: loop_safe_def receiver_ok_def)
  have p: "ptr' \<le> 65536" using loop(3) ok by (auto simp: receiver_ok_def)
  show ?thesis
  proof (cases "flags AND PACKET_COMPRESSED = 0")
    case True
    then show ?thesis using bs(1) ok by (simp add: mppc_decompress_def e_def)
  next
    case False
    show ?thesis using decompress_unfolded [OF bs(1) e_def False] l loop(1,2) ok p by (simp add: receiver_ok_def)
  qed
qed

theorem mppc_decompress_8k_safe_witness:
  "\<exists>status out d'. mppc_decompress (mppc_set_compression_level (the (mppc_context_new (Some (\<lambda>_. ())) (Some (\<lambda>_. ())) 0 False)) 0)
     (replicate 3000 0xFF) PACKET_COMPRESSED = Ok (status, out) d' \<and> receiver_ok d'"
proof -
  have "receiver_ok (the (mppc_context_new (Some (\<lambda>_. ())) (Some (\<lambda>_. ())) 0 False))"
    by (rule receiver_ok_new [of "Some (\<lambda>_. ())" "Some (\<lambda>_. ())" 0 False]) (simp add: mppc_context_new_def BitStream_New_def Let_def)
  from mppc_decompress_8k_safe [OF this, of "replicate 3000 0xFF"] show ?thesis by simp
qed

text \<open>
  C9. With the history of 64K, the index at which a copy begins is reduced to the size of the history, and the copy is not
  bounded there: the two bytes F8 20, a copy of three bytes from a distance of one, at the front of the history, make the decompressor
  read behind \<open>HistoryBuffer\<close>.
\<close>

theorem mppc_decompress_64k_overread:
  assumes "receiver_ok d"
  shows "mppc_decompress (mppc_set_compression_level d 1) [0xF8, 0x20] (PACKET_COMPRESSED OR PACKET_AT_FRONT OR 1) = Fault"
proof -
  let ?d = "mppc_set_compression_level d 1"
  let ?fl = "PACKET_COMPRESSED OR PACKET_AT_FRONT OR 1"
  let ?b0 = "BitStream_Attach (mp_bs ?d) [0xF8, 0x20] (of_nat (length [0xF8, 0x20 :: u8]))"
  define bs where "bs = ?b0\<lparr>bs_accumulator := 0xF8200000, bs_prefetch := 0\<rparr>"
  have bs: "BitStream_Fetch ?b0 = Ok () bs"
    by (simp add: BitStream_Fetch_def BitStream_Prefetch_def bs_word_def bs_load_def bs_guard_def BitStream_Attach_def bs_def)
  define e where "e = apply_flags (?d\<lparr>mp_bs := bs\<rparr>) ?fl"
  have e: "mp_CompressionLevel e = 1" "mp_HistoryBufferSize e = 65536" "mp_HistoryPtr e = 0" "length (mp_HistoryBuffer e) = 65536"
    using assms by (simp_all add: e_def mppc_set_compression_level_def apply_flags_def receiver_ok_def)
  have f: "bs_length bs - bs_position bs = 16" "bs_accumulator bs = 0xF8200000" "bs_offset bs = 0" "bs_prefetch bs = 0"
    by (simp_all add: bs_def BitStream_Attach_def)
  have o: "read_copy_offset 1 0xF8200000 = Inr (1, 11)" by (simp add: read_copy_offset_def)
  obtain bs1 where b1: "BitStream_Shift bs 11 = Ok () bs1" "bs_accumulator bs1 = 0" "bs_offset bs1 = 11"
    using f by (simp add: BitStream_Shift_def Let_def)
  obtain bs2 where b2: "BitStream_Shift bs1 1 = Ok () bs2"
    using b1(3) by (simp add: BitStream_Shift_def Let_def)
  have m: "read_match_length 1 0 = Inr (3, 1)" by (simp add: read_match_length_def)
  have "copy_match 3 65535 0 (mp_HistoryBuffer e) = None" using e(4) by (simp add: numeral_3_eq_3)
  then have "decompress_loop 1 65535 bs (mp_HistoryBuffer e) 0 = Fault"
    using f(1,2) o b1(1,2) b2 m e(4) by (subst decompress_loop.simps) simp
  then show ?thesis
    using decompress_unfolded [OF bs e_def] e by simp
qed

theorem mppc_decompress_64k_overread_witness:
  "mppc_decompress (mppc_set_compression_level (the (mppc_context_new (Some (\<lambda>_. ())) (Some (\<lambda>_. ())) 1 False)) 1)
     [0xF8, 0x20] (PACKET_COMPRESSED OR PACKET_AT_FRONT OR 1) = Fault"
  by (rule mppc_decompress_64k_overread, rule receiver_ok_new [of "Some (\<lambda>_. ())" "Some (\<lambda>_. ())" 1 False])
    (simp add: mppc_context_new_def BitStream_New_def Let_def)

end
