(* ===== verification/Core_Bulk.thy ===== *)
theory Core_Bulk
  imports Mppc_Roundtrip Mppc_Safety
begin

text \<open>
  The choice of the bulk compressor in \<^verbatim>\<open>libfreerdp/core/bulk.c\<close>, with the byte counts of \<^verbatim>\<open>core/metrics.c\<close>: small and large
  packets go out as they are, the others through the compressor of the negotiated level; the receiver goes by
  the flags of the packet. The compressors NCRUSH and XCRUSH of the levels RDP6 and RDP6.1 are arguments, and so is the quotient of two
  doubles, which only the statistics use.
\<close>

section \<open>Definitions\<close>

record 'r rdpMetrics =
  me_TotalCompressedBytes :: u64
  me_TotalUncompressedBytes :: u64
  me_TotalCompressionRatio :: 'r

definition metrics_write_bytes :: "(u64 \<Rightarrow> u64 \<Rightarrow> 'r :: zero) \<Rightarrow> 'r rdpMetrics \<Rightarrow> u32 \<Rightarrow> u32 \<Rightarrow> 'r \<times> 'r rdpMetrics" where
  "metrics_write_bytes ratio metrics UncompressedBytes CompressedBytes =
     (let metrics = metrics\<lparr>me_TotalUncompressedBytes := me_TotalUncompressedBytes metrics + ucast UncompressedBytes,
            me_TotalCompressedBytes := me_TotalCompressedBytes metrics + ucast CompressedBytes\<rparr>;
          CompressionRatio = (if UncompressedBytes \<noteq> 0 then ratio (ucast CompressedBytes) (ucast UncompressedBytes) else 0)
      in (CompressionRatio,
          if me_TotalUncompressedBytes metrics \<noteq> 0
          then metrics\<lparr>me_TotalCompressionRatio := ratio (me_TotalCompressedBytes metrics) (me_TotalUncompressedBytes metrics)\<rparr>
          else metrics))"

definition metrics_new :: "unit alloc \<Rightarrow> 'r :: zero rdpMetrics option" where
  "metrics_new al =
     map_option (\<lambda>_. \<lparr>me_TotalCompressedBytes = 0, me_TotalUncompressedBytes = 0, me_TotalCompressionRatio = 0\<rparr>) al"

text \<open>
  The context pointers are \<open>None\<close> where \<^verbatim>\<open>bulk_new\<close> got no memory for them. \<open>bk_settings_CompressionLevel\<close> and \<open>bk_metrics\<close> stand for what
  \<^verbatim>\<open>bulk->context\<close> points to.
\<close>

record ('n, 'x, 'r) rdpBulk =
  bk_settings_CompressionLevel :: u32
  bk_metrics :: "'r rdpMetrics"
  bk_CompressionLevel :: u32
  bk_CompressionMaxSize :: u32
  bk_mppcSend :: "mppc_context option"
  bk_mppcRecv :: "mppc_context option"
  bk_ncrushRecv :: "'n option"
  bk_ncrushSend :: "'n option"
  bk_xcrushRecv :: "'x option"
  bk_xcrushSend :: "'x option"
  bk_OutputBuffer :: "u8 list"

text \<open>
  A decompressor takes its context, the packet and the flags, and gives the status and the bytes at \<^verbatim>\<open>*ppDstData\<close>. A compressor takes its context,
  the packet, the output block and the flags, and gives the status, the bytes at \<^verbatim>\<open>*ppDstData\<close>, the flags and the output
  block.
\<close>

record ('n, 'x) bulk_codecs =
  ncrush_decompress :: "'n option \<Rightarrow> u8 list \<Rightarrow> u32 \<Rightarrow> (int \<times> u8 list option, 'n option) res"
  xcrush_decompress :: "'x option \<Rightarrow> u8 list \<Rightarrow> u32 \<Rightarrow> (int \<times> u8 list option, 'x option) res"
  ncrush_compress :: "'n option \<Rightarrow> u8 list \<Rightarrow> u8 list \<Rightarrow> u32 \<Rightarrow> (int \<times> u8 list option \<times> u32 \<times> u8 list, 'n option) res"
  xcrush_compress :: "'x option \<Rightarrow> u8 list \<Rightarrow> u8 list \<Rightarrow> u32 \<Rightarrow> (int \<times> u8 list option \<times> u32 \<times> u8 list, 'x option) res"
  ncrush_context_reset :: "'n option \<Rightarrow> 'n option"
  xcrush_context_reset :: "'x option \<Rightarrow> 'x option"

abbreviation (input) PACKET_COMPR_TYPE_8K :: u32 where "PACKET_COMPR_TYPE_8K \<equiv> 0"
abbreviation (input) PACKET_COMPR_TYPE_64K :: u32 where "PACKET_COMPR_TYPE_64K \<equiv> 1"
abbreviation (input) PACKET_COMPR_TYPE_RDP6 :: u32 where "PACKET_COMPR_TYPE_RDP6 \<equiv> 2"
abbreviation (input) PACKET_COMPR_TYPE_RDP61 :: u32 where "PACKET_COMPR_TYPE_RDP61 \<equiv> 3"
abbreviation (input) BULK_COMPRESSION_FLAGS_MASK :: u32 where "BULK_COMPRESSION_FLAGS_MASK \<equiv> 0xE0"
abbreviation (input) BULK_COMPRESSION_TYPE_MASK :: u32 where "BULK_COMPRESSION_TYPE_MASK \<equiv> 0x0F"

definition bulk_compression_level :: "('n, 'x, 'r) rdpBulk \<Rightarrow> ('n, 'x, 'r) rdpBulk" where
  "bulk_compression_level bulk =
     bulk\<lparr>bk_CompressionLevel := if bk_settings_CompressionLevel bulk \<ge> PACKET_COMPR_TYPE_RDP61 then PACKET_COMPR_TYPE_RDP61
            else bk_settings_CompressionLevel bulk\<rparr>"

definition bulk_compression_max_size :: "('n, 'x, 'r) rdpBulk \<Rightarrow> u32 \<times> ('n, 'x, 'r) rdpBulk" where
  "bulk_compression_max_size bulk =
     (let bulk = bulk_compression_level bulk;
          bulk = bulk\<lparr>bk_CompressionMaxSize := if bk_CompressionLevel bulk < PACKET_COMPR_TYPE_64K then 8192 else 65536\<rparr>
      in (bk_CompressionMaxSize bulk, bulk))"

text \<open>The two calls of MPPC; the first thing either does is to set the level of the context, which dereferences it.\<close>

definition bulk_mppc_decompress :: "('n, 'x, 'r) rdpBulk \<Rightarrow> u32 \<Rightarrow> u8 list \<Rightarrow> u32 \<Rightarrow> (int \<times> u8 list option, ('n, 'x, 'r) rdpBulk) res" where
  "bulk_mppc_decompress bulk level src flags =
     (case bk_mppcRecv bulk of
        None \<Rightarrow> Fault
      | Some mppc \<Rightarrow>
          (case mppc_decompress (mppc_set_compression_level mppc level) src flags of
             Ok r mppc \<Rightarrow> Ok r (bulk\<lparr>bk_mppcRecv := Some mppc\<rparr>) | _ \<Rightarrow> Fault))"

definition bulk_mppc_compress :: "u8 \<Rightarrow> ('n, 'x, 'r) rdpBulk \<Rightarrow> u8 list \<Rightarrow> (int \<times> u8 list option \<times> u32, ('n, 'x, 'r) rdpBulk) res" where
  "bulk_mppc_compress below bulk src =
     (case bk_mppcSend bulk of
        None \<Rightarrow> Fault
      | Some mppc \<Rightarrow>
          (case mppc_compress below (mppc_set_compression_level mppc (bk_CompressionLevel bulk)) src (Some (bk_OutputBuffer bulk)) of
             Ok r mppc \<Rightarrow>
               Ok r (bulk\<lparr>bk_mppcSend := Some mppc, bk_OutputBuffer := blit (bk_OutputBuffer bulk) 0 (bs_buffer (mp_bs mppc))\<rparr>)
           | _ \<Rightarrow> Fault))"

text \<open>The counts read \<^verbatim>\<open>*pDstSize\<close>, which has to be set by then.\<close>

definition bulk_decompress ::
  "('n, 'x) bulk_codecs \<Rightarrow> (u64 \<Rightarrow> u64 \<Rightarrow> 'r :: zero) \<Rightarrow> ('n, 'x, 'r) rdpBulk \<Rightarrow> u8 list \<Rightarrow> u32 \<Rightarrow> (int \<times> u8 list option, ('n, 'x, 'r) rdpBulk) res" where
  "bulk_decompress codecs ratio bulk src flags =
     (let bulk = snd (bulk_compression_max_size bulk); ctype = flags AND BULK_COMPRESSION_TYPE_MASK in
      and_then
        (if flags AND BULK_COMPRESSION_FLAGS_MASK \<noteq> 0 then
           (if ctype = PACKET_COMPR_TYPE_8K then bulk_mppc_decompress bulk 0 src flags
            else if ctype = PACKET_COMPR_TYPE_64K then bulk_mppc_decompress bulk 1 src flags
            else if ctype = PACKET_COMPR_TYPE_RDP6 then
              (case ncrush_decompress codecs (bk_ncrushRecv bulk) src flags of
                 Ok r c \<Rightarrow> Ok r (bulk\<lparr>bk_ncrushRecv := c\<rparr>) | _ \<Rightarrow> Fault)
            else if ctype = PACKET_COMPR_TYPE_RDP61 then
              (case xcrush_decompress codecs (bk_xcrushRecv bulk) src flags of
                 Ok r c \<Rightarrow> Ok r (bulk\<lparr>bk_xcrushRecv := c\<rparr>) | _ \<Rightarrow> Fault)
            else Ok (- 1, None) bulk)
         else Ok (0, Some src) bulk)
        (\<lambda>(status, out) bulk.
           if status \<ge> 0 then
             (case out of
                None \<Rightarrow> Fault
              | Some dst \<Rightarrow>
                  Ok (status, out) (bulk\<lparr>bk_metrics := snd (metrics_write_bytes ratio (bk_metrics bulk) (of_nat (length dst)) (of_nat (length src)))\<rparr>))
           else Ok (status, out) bulk))"

definition bulk_compress ::
  "('n, 'x) bulk_codecs \<Rightarrow> (u64 \<Rightarrow> u64 \<Rightarrow> 'r :: zero) \<Rightarrow> u8 \<Rightarrow> ('n, 'x, 'r) rdpBulk \<Rightarrow> u8 list \<Rightarrow> u32 \<Rightarrow>
     (int \<times> u8 list option \<times> u32, ('n, 'x, 'r) rdpBulk) res" where
  "bulk_compress codecs ratio below bulk src flags =
     (let SrcSize = of_nat (length src) :: u32 in
      if SrcSize \<le> 50 \<or> SrcSize \<ge> 16384 then Ok (0, Some src, flags) bulk
      else
        let bulk = snd (bulk_compression_max_size (bulk_compression_level bulk)) in
        and_then
          (if bk_CompressionLevel bulk = PACKET_COMPR_TYPE_8K \<or> bk_CompressionLevel bulk = PACKET_COMPR_TYPE_64K
           then bulk_mppc_compress below bulk src
           else if bk_CompressionLevel bulk = PACKET_COMPR_TYPE_RDP6 then
             (case ncrush_compress codecs (bk_ncrushSend bulk) src (bk_OutputBuffer bulk) flags of
                Ok (status, dst, flags, out) c \<Rightarrow> Ok (status, dst, flags) (bulk\<lparr>bk_ncrushSend := c, bk_OutputBuffer := out\<rparr>) | _ \<Rightarrow> Fault)
           else if bk_CompressionLevel bulk = PACKET_COMPR_TYPE_RDP61 then
             (case xcrush_compress codecs (bk_xcrushSend bulk) src (bk_OutputBuffer bulk) flags of
                Ok (status, dst, flags, out) c \<Rightarrow> Ok (status, dst, flags) (bulk\<lparr>bk_xcrushSend := c, bk_OutputBuffer := out\<rparr>) | _ \<Rightarrow> Fault)
           else Ok (- 1, Some (bk_OutputBuffer bulk), flags) bulk)
          (\<lambda>(status, dst, flags) bulk.
             if status \<ge> 0 then
               (case dst of
                  None \<Rightarrow> Fault
                | Some data \<Rightarrow>
                    Ok (status, dst, flags) (bulk\<lparr>bk_metrics := snd (metrics_write_bytes ratio (bk_metrics bulk) (of_nat (length src)) (of_nat (length data)))\<rparr>))
             else Ok (status, dst, flags) bulk))"

definition bulk_reset :: "('n, 'x) bulk_codecs \<Rightarrow> ('n, 'x, 'r) rdpBulk \<Rightarrow> (unit, ('n, 'x, 'r) rdpBulk) res" where
  "bulk_reset codecs bulk =
     (case (bk_mppcSend bulk, bk_mppcRecv bulk) of
        (Some s, Some r) \<Rightarrow>
          Ok () (bulk\<lparr>bk_mppcSend := Some (mppc_context_reset s False), bk_mppcRecv := Some (mppc_context_reset r False),
            bk_ncrushRecv := ncrush_context_reset codecs (bk_ncrushRecv bulk), bk_ncrushSend := ncrush_context_reset codecs (bk_ncrushSend bulk),
            bk_xcrushRecv := xcrush_context_reset codecs (bk_xcrushRecv bulk), bk_xcrushSend := xcrush_context_reset codecs (bk_xcrushSend bulk)\<rparr>)
      | _ \<Rightarrow> Fault)"

text \<open>The allocator answers for the object and for the two contexts of MPPC in turn; \<open>n\<close> and \<open>x\<close> give the other contexts.\<close>

definition bulk_new ::
  "unit alloc \<Rightarrow> (bool \<Rightarrow> unit alloc \<times> unit alloc) \<Rightarrow> (bool \<Rightarrow> 'n option) \<Rightarrow> (bool \<Rightarrow> 'x option) \<Rightarrow> u32 \<Rightarrow> 'r rdpMetrics \<Rightarrow>
     ('n, 'x, 'r) rdpBulk option" where
  "bulk_new al al_mppc ncrush_context_new xcrush_context_new CompressionLevel metrics =
     (if al = None then None
      else Some \<lparr>bk_settings_CompressionLevel = CompressionLevel, bk_metrics = metrics, bk_CompressionLevel = CompressionLevel,
        bk_CompressionMaxSize = 0, bk_mppcSend = mppc_context_new (fst (al_mppc True)) (snd (al_mppc True)) 1 True,
        bk_mppcRecv = mppc_context_new (fst (al_mppc False)) (snd (al_mppc False)) 1 False,
        bk_ncrushRecv = ncrush_context_new False, bk_ncrushSend = ncrush_context_new True,
        bk_xcrushRecv = xcrush_context_new False, bk_xcrushSend = xcrush_context_new True,
        bk_OutputBuffer = replicate 65536 0\<rparr>)"

section \<open>The output block keeps its size\<close>

abbreviation out_size :: "mppc_context \<Rightarrow> nat" where "out_size mppc \<equiv> length (bs_buffer (mp_bs mppc))"

lemma store_size: "bs_store k v bs = Ok () bs' \<Longrightarrow> length (bs_buffer bs') = length (bs_buffer bs)"
  by (auto simp: bs_store_def split: if_split_asm)

lemma flush_size: "BitStream_Flush bs = Ok () bs' \<Longrightarrow> length (bs_buffer bs') = length (bs_buffer bs)"
  by (auto simp: BitStream_Flush_def Let_def and_then_Ok_iff dest!: store_size)

lemma write_bits_size: "BitStream_Write_Bits bs b n = Ok () bs' \<Longrightarrow> length (bs_buffer bs') = length (bs_buffer bs)"
  by (auto simp: BitStream_Write_Bits_def Let_def and_then_Ok_iff split: if_split_asm dest!: flush_size)

lemma write_code_size: "write_code mppc c = Ok () mppc' \<Longrightarrow> out_size mppc' = out_size mppc"
  by (auto simp: write_code_def split: res.split_asm dest!: write_bits_size)

primrec outcome :: "('s \<Rightarrow> bool) \<Rightarrow> ('a, 's) res \<Rightarrow> bool" where
  "outcome P (Ok a s) = P s"
| "outcome P (Fail s) = P s"
| "outcome P Fault = True"

lemma outcome_and_then: "outcome P r \<Longrightarrow> (\<And>a s. r = Ok a s \<Longrightarrow> P s \<Longrightarrow> outcome P (f a s)) \<Longrightarrow> outcome P (and_then r f)"
  by (cases r) simp_all

lemma reset_size [simp]: "mp_bs (mppc_context_reset mppc flush) = mp_bs mppc"
  by (simp add: mppc_context_reset_def Let_def)

lemma write_literal_size: "outcome (\<lambda>m. out_size m = out_size mppc) (write_literal sz b mppc)"
  by (auto simp: write_literal_def write_code_def split: res.split dest!: write_bits_size)

lemma write_optional_size: "outcome (\<lambda>m. out_size m = out_size mppc) (write_optional mppc c)"
  by (auto simp: write_optional_def write_code_def split: res.split option.split dest!: write_bits_size)

lemma write_match_size: "outcome (\<lambda>m. out_size m = out_size mppc) (write_match sz off len mppc)"
  unfolding write_match_def using write_optional_size by (auto intro!: outcome_and_then) metis

lemma note_symbol_size: "note_symbol mppc ptr a b c = (mppc', m) \<Longrightarrow> mp_bs mppc' = mp_bs mppc"
  by (auto simp: note_symbol_def Let_def)

lemma compress_step_size: "outcome (\<lambda>s. out_size (fst s) = out_size mppc) (compress_step below src sz (mppc, i, ptr))"
proof -
  let ?m = "mppc\<lparr>mp_HistoryBuffer := (mp_HistoryBuffer mppc)[ptr := src ! i]\<rparr>"
  obtain m' k where n: "note_symbol ?m (ptr + 1) (src ! i) (src ! (i + 1)) (src ! (i + 2)) = (m', k)" by force
  have s: "mp_bs m' = mp_bs mppc" using note_symbol_size [OF n] by simp
  have wrap: "outcome (\<lambda>s. out_size (fst s) = n) (case r of Ok _ m \<Rightarrow> Ok () (m, i, ptr) | Fail m \<Rightarrow> Fail (m, i, ptr) | Fault \<Rightarrow> Fault)"
    if "outcome (\<lambda>m. out_size m = n) r" for n r i ptr using that by (cases r) simp_all
  note lit = wrap [OF write_literal_size [of m', unfolded s]]
  have cpy: "outcome (\<lambda>m. out_size m = out_size mppc) (write_match sz off len (m'\<lparr>mp_HistoryBuffer := h\<rparr>))" for off len h
    using write_match_size [of "m'\<lparr>mp_HistoryBuffer := h\<rparr>" sz off len] s by simp
  show ?thesis using n lit wrap [OF cpy] unfolding compress_step_def Let_def by (auto split: option.split bool.split simp del: One_nat_def)
qed

lemma compress_loop_size: "outcome (\<lambda>s'. out_size (fst s') = out_size (fst s)) (compress_loop below src sz s)"
proof (induction below src sz s rule: compress_loop.induct)
  case (1 below src sz mppc i ptr)
  show ?case
  proof (cases "i + 3 < length src")
    case True
    have "outcome (\<lambda>s'. out_size (fst s') = out_size mppc) (and_then (compress_step below src sz (mppc, i, ptr)) (\<lambda>_ s. compress_loop below src sz s))"
      by (rule outcome_and_then [OF compress_step_size]) (use "1.IH" [OF True] in simp)
    with True show ?thesis by (simp add: compress_loop.simps)
  qed (simp add: compress_loop.simps)
qed

lemma compress_tail_size: "outcome (\<lambda>s'. out_size (fst s') = out_size (fst s)) (compress_tail src sz s)"
proof (induction src sz s rule: compress_tail.induct)
  case (1 src sz mppc i ptr)
  show ?case
  proof (cases "i < length src")
    case True
    note st = write_literal_size [of mppc sz "src ! i"]
    show ?thesis using True st "1.IH" [OF True] by (cases "write_literal sz (src ! i) mppc") (auto simp: compress_tail.simps [of src sz mppc])
  qed (simp add: compress_tail.simps)
qed

lemma mppc_compress_size:
  assumes "mppc_compress below c src (Some dst) = Ok r c'"
  shows "out_size c' \<le> length dst"
proof -
  define sz :: u32 where "sz = (if of_nat (length dst) > (of_nat (length src) :: u32) then of_nat (length src) else of_nat (length dst))"
  define s where "s = (c\<lparr>mp_bs := BitStream_Attach (mp_bs c) (take (unat sz) dst) sz\<rparr>, 0 :: nat,
    unat (if mp_HistoryOffset c + of_nat (length src) < mp_HistoryBufferSize c - 3 \<and> mp_HistoryOffset c \<noteq> 0 then mp_HistoryOffset c else 0))"
  define q where "q = and_then (compress_loop below src sz s) (\<lambda>_ s. compress_tail src sz s)"
  have z: "out_size (fst s) \<le> length dst" by (simp add: s_def BitStream_Attach_def)
  have "outcome (\<lambda>s'. out_size (fst s') = out_size (fst s)) q" unfolding q_def
    by (rule outcome_and_then [OF compress_loop_size]) (metis compress_tail_size)
  then show ?thesis
    using assms z unfolding mppc_compress_def Let_def option.case sz_def [symmetric] s_def [symmetric] q_def [symmetric]
    by (cases q) (auto split: res.split_asm prod.split_asm dest!: flush_size)
qed

lemma mppc_compress_flags:
  assumes "mppc_compress below c src dst = Ok (1, out, flags) c'" "mp_CompressionLevel c = 0 \<or> mp_CompressionLevel c = 1"
  shows "flags AND BULK_COMPRESSION_FLAGS_MASK \<noteq> 0" "flags AND BULK_COMPRESSION_TYPE_MASK = mp_CompressionLevel c"
  using assms by (auto simp: mppc_compress_def Let_def split: option.split_asm res.split_asm if_split_asm)

section \<open>Two ends of a connection\<close>

definition bulk_synced :: "u32 \<Rightarrow> ('n, 'x, 'r) rdpBulk \<Rightarrow> ('n, 'x, 'r) rdpBulk \<Rightarrow> bool" where
  "bulk_synced level s r \<longleftrightarrow>
     (level = 0 \<or> level = 1) \<and> bk_settings_CompressionLevel s = level \<and> length (bk_OutputBuffer s) = 65536 \<and>
     (\<exists>c d. bk_mppcSend s = Some c \<and> bk_mppcRecv r = Some d \<and> synced level (mppc_set_compression_level c level) (mppc_set_compression_level d level))"

lemma set_level_same:
  assumes "synced level c d"
  shows "mppc_set_compression_level c level = c" "mppc_set_compression_level d level = d"
  using assms by (cases c, cases d, auto simp: synced_def mppc_ok_def mppc_set_compression_level_def history_size_def)+

text \<open>The two ends as a codec; the caller starts with no flags set, as \<^verbatim>\<open>fastpath_send_update_pdu\<close> does.\<close>

definition bulk_send ::
  "('n, 'x) bulk_codecs \<Rightarrow> (u64 \<Rightarrow> u64 \<Rightarrow> 'r :: zero) \<Rightarrow> ('n, 'x, 'r) rdpBulk \<Rightarrow> u8 \<times> u8 list \<Rightarrow> ((u8 list \<times> u32) \<times> ('n, 'x, 'r) rdpBulk) option" where
  "bulk_send codecs ratio s p =
     (case bulk_compress codecs ratio (fst p) s (snd p) 0 of
        Ok (status, Some out, flags) s' \<Rightarrow> if status < 0 then None else Some ((out, flags), s') | _ \<Rightarrow> None)"

definition bulk_recv ::
  "('n, 'x) bulk_codecs \<Rightarrow> (u64 \<Rightarrow> u64 \<Rightarrow> 'r :: zero) \<Rightarrow> ('n, 'x, 'r) rdpBulk \<Rightarrow> u8 list \<times> u32 \<Rightarrow> (u8 list \<times> ('n, 'x, 'r) rdpBulk) option" where
  "bulk_recv codecs ratio r w =
     (case bulk_decompress codecs ratio r (fst w) (snd w) of
        Ok (status, Some data) r' \<Rightarrow> if status < 0 then None else Some (data, r') | _ \<Rightarrow> None)"

abbreviation bulk_exchange where
  "bulk_exchange codecs ratio \<equiv> exchange (bulk_send codecs ratio) (bulk_recv codecs ratio) (\<lambda>w. length (fst w))"

definition bulk_fits :: "u32 \<Rightarrow> u8 \<times> u8 list \<Rightarrow> bool" where
  "bulk_fits level p \<longleftrightarrow> length (snd p) < 2 ^ 32 \<and> (level = 0 \<longrightarrow> length (snd p) < 8191 \<or> 16384 \<le> length (snd p))"

lemma bulk_packet:
  assumes s: "bulk_synced level s r" and n: "length packet < 2 ^ 32" "level = 0 \<Longrightarrow> length packet < 8191 \<or> 16384 \<le> length packet"
  shows "\<exists>st out flags s' st' r'. bulk_compress codecs ratio below s packet 0 = Ok (st, Some out, flags) s' \<and> 0 \<le> st \<and> length out \<le> length packet \<and>
    bulk_decompress codecs ratio r out flags = Ok (st', Some packet) r' \<and> 0 \<le> st' \<and> bulk_synced level s' r'"
proof (cases "length packet \<le> 50 \<or> 16384 \<le> length packet")
  case True
  then have "bulk_compress codecs ratio below s packet 0 = Ok (0, Some packet, 0) s"
    using unat_less [OF n(1)] by (auto simp: bulk_compress_def word_le_nat_alt)
  moreover obtain r' where "bulk_decompress codecs ratio r packet 0 = Ok (0, Some packet) r'" "bk_mppcRecv r' = bk_mppcRecv r"
    by (simp add: bulk_decompress_def bulk_compression_max_size_def bulk_compression_level_def Let_def)
  ultimately show ?thesis using s by (fastforce simp: bulk_synced_def)
next
  case False
  then have p: "packet \<noteq> []" "length packet + 2 \<le> history_size level" using n(2) by (auto simp: history_size_def)
  from s obtain c d where l: "level = 0 \<or> level = 1" "bk_settings_CompressionLevel s = level" "length (bk_OutputBuffer s) = 65536"
    "bk_mppcSend s = Some c" "bk_mppcRecv r = Some d" "synced level (mppc_set_compression_level c level) (mppc_set_compression_level d level)"
    by (auto simp: bulk_synced_def)
  obtain out flags c' d' where m: "mppc_compress below (mppc_set_compression_level c level) packet (Some (bk_OutputBuffer s)) = Ok (1, Some out, flags) c'"
      "length out \<le> length packet" "mppc_decompress (mppc_set_compression_level d level) out flags = Ok (1, Some packet) d'" "synced level c' d'"
    using compress_decompress [OF l(6) p, of "bk_OutputBuffer s" below] l(3) by force
  have "mp_CompressionLevel (mppc_set_compression_level c level) = level" using l(1) by (auto simp: mppc_set_compression_level_def)
  then have fl: "flags AND BULK_COMPRESSION_FLAGS_MASK \<noteq> 0" "flags AND BULK_COMPRESSION_TYPE_MASK = level"
    using mppc_compress_flags [OF m(1)] l(1) by auto
  have big: "\<not> (of_nat (length packet) \<le> (50 :: u32) \<or> of_nat (length packet) \<ge> (16384 :: u32))"
    using False unat_less [OF n(1)] by (auto simp: word_le_nat_alt)
  define s1 where "s1 = snd (bulk_compression_max_size (bulk_compression_level s))"
  have s1: "bk_CompressionLevel s1 = level" "bk_mppcSend s1 = Some c" "bk_OutputBuffer s1 = bk_OutputBuffer s" "bk_settings_CompressionLevel s1 = level"
    using l by (auto simp: s1_def bulk_compression_max_size_def bulk_compression_level_def Let_def word_le_nat_alt)
  define s2 where "s2 = s1\<lparr>bk_mppcSend := Some c', bk_OutputBuffer := blit (bk_OutputBuffer s) 0 (bs_buffer (mp_bs c'))\<rparr>"
  have "bulk_mppc_compress below s1 packet = Ok (1, Some out, flags) s2" using s1 m(1) by (simp add: bulk_mppc_compress_def s2_def)
  then have "bulk_compress codecs ratio below s packet 0 = Ok (1, Some out, flags)
      (s2\<lparr>bk_metrics := snd (metrics_write_bytes ratio (bk_metrics s2) (of_nat (length packet)) (of_nat (length out)))\<rparr>)"
    using big s1(1) l(1) unfolding bulk_compress_def Let_def s1_def [symmetric] by simp
  then obtain s' where s': "bulk_compress codecs ratio below s packet 0 = Ok (1, Some out, flags) s'" "bk_mppcSend s' = Some c'"
      "bk_settings_CompressionLevel s' = level" "length (bk_OutputBuffer s') = 65536"
    using s1(4) l(3) mppc_compress_size [OF m(1)] by (simp add: s2_def)
  obtain r' where r': "bulk_decompress codecs ratio r out flags = Ok (1, Some packet) r'" "bk_mppcRecv r' = Some d'"
    using fl l(1,5) m(3) by (auto simp: bulk_decompress_def bulk_mppc_decompress_def bulk_compression_max_size_def bulk_compression_level_def Let_def)
  have "bulk_synced level s' r'" using s' r' l(1) m(4) set_level_same [OF m(4)] by (simp add: bulk_synced_def)
  moreover have "(0 :: int) \<le> 1" by simp
  ultimately show ?thesis using s'(1) r'(1) m(2) by blast
qed

interpretation bulk: packet_codec "bulk_send codecs ratio" "bulk_recv codecs ratio" "\<lambda>w. length (fst w)" "bulk_synced level" "bulk_fits level" snd
  for codecs :: "('n, 'x) bulk_codecs" and ratio :: "u64 \<Rightarrow> u64 \<Rightarrow> 'r :: zero" and level
proof unfold_locales
  fix s r :: "('n, 'x, 'r) rdpBulk" and p
  assume "bulk_synced level s r" "bulk_fits level p"
  then obtain st out flags s' st' r' where "bulk_compress codecs ratio (fst p) s (snd p) 0 = Ok (st, Some out, flags) s'" "0 \<le> st"
      "length out \<le> length (snd p)" "bulk_decompress codecs ratio r out flags = Ok (st', Some (snd p)) r'" "0 \<le> st'" "bulk_synced level s' r'"
    using bulk_packet [of level s r "snd p" codecs ratio "fst p"] by (auto simp: bulk_fits_def)
  then show "\<exists>w c' d'. bulk_send codecs ratio s p = Some (w, c') \<and> length (fst w) \<le> length (snd p) \<and> bulk_recv codecs ratio r w = Some (snd p, d') \<and> bulk_synced level c' d'"
    by (simp add: bulk_send_def bulk_recv_def)
qed

lemma bulk_new_synced:
  assumes "bulk_new al al_mppc n x level ms = Some s" "bulk_new bl bl_mppc n' x' level' mr = Some r" "level = 0 \<or> level = 1"
    "fst (al_mppc True) \<noteq> None" "snd (al_mppc True) \<noteq> None" "fst (bl_mppc False) \<noteq> None" "snd (bl_mppc False) \<noteq> None"
  shows "bulk_synced level s r"
  using assms by (auto simp: bulk_new_def bulk_synced_def mppc_context_new_def BitStream_New_def mppc_context_reset_def mppc_set_compression_level_def
    Let_def synced_def mppc_ok_def history_size_def split: if_split_asm)

text \<open>Codecs that take no packet.\<close>

definition refusing_codecs :: "(unit, unit) bulk_codecs" where
  "refusing_codecs = \<lparr>ncrush_decompress = \<lambda>c _ _. Ok (- 1, None) c, xcrush_decompress = \<lambda>c _ _. Ok (- 1, None) c,
     ncrush_compress = \<lambda>c _ out flags. Ok (- 1, None, flags, out) c, xcrush_compress = \<lambda>c _ out flags. Ok (- 1, None, flags, out) c,
     ncrush_context_reset = id, xcrush_context_reset = id\<rparr>"

section \<open>Properties of the bulk compression\<close>



end
