(* ===== verification/Codec_Region.thy ===== *)
theory Codec_Region
  imports Rdp_Prelude
begin

text \<open>
  Regions of the screen, \<^verbatim>\<open>libfreerdp/codec/region.c\<close>: lists of rectangles sorted into bands, with a rectangle around all of them. The
  operations on lists of rectangles are shown to be union, intersection and emptiness test of the sets of points they cover.
  A pointer into an array of rectangles is the list from there to the end; the array under construction is a list with the number of
  rectangles it was allocated for, and writing behind it is \<open>None\<close> (a \<open>Fault\<close> of the caller). Which blocks are released is not modelled.
\<close>

section \<open>Rectangles\<close>

record RECTANGLE_16 =
  rc_left :: u16
  rc_top :: u16
  rc_right :: u16
  rc_bottom :: u16

text \<open>
  \<open>rd_rects\<close> has \<^verbatim>\<open>nbRects\<close> elements. The shared constant \<^verbatim>\<open>empty_region\<close> is the one with size 0.
\<close>

record REGION16_DATA =
  rd_size :: nat
  rd_rects :: "RECTANGLE_16 list"

record REGION16 =
  rg_extents :: RECTANGLE_16
  rg_data :: "REGION16_DATA option"

definition zero_rect :: RECTANGLE_16 where
  "zero_rect = \<lparr>rc_left = 0, rc_top = 0, rc_right = 0, rc_bottom = 0\<rparr>"

definition empty_region :: REGION16_DATA where
  "empty_region = \<lparr>rd_size = 0, rd_rects = []\<rparr>"

definition region16_init :: REGION16 where
  "region16_init = \<lparr>rg_extents = zero_rect, rg_data = Some empty_region\<rparr>"

definition region16_n_rects :: "REGION16 \<Rightarrow> nat option" where
  "region16_n_rects region = map_option (\<lambda>data. length (rd_rects data)) (rg_data region)"

definition region16_rects :: "REGION16 \<Rightarrow> RECTANGLE_16 list option" where
  "region16_rects region = map_option rd_rects (rg_data region)"

definition rectangle_is_empty :: "RECTANGLE_16 \<Rightarrow> bool" where
  "rectangle_is_empty rect \<longleftrightarrow> rc_left rect = rc_right rect \<or> rc_top rect = rc_bottom rect"

definition region16_is_empty :: "REGION16 \<Rightarrow> bool option" where
  "region16_is_empty region = map_option (\<lambda>data. rd_rects data = []) (rg_data region)"

definition rectangles_equal :: "RECTANGLE_16 \<Rightarrow> RECTANGLE_16 \<Rightarrow> bool" where
  "rectangles_equal r1 r2 \<longleftrightarrow> rc_left r1 = rc_left r2 \<and> rc_top r1 = rc_top r2 \<and> rc_right r1 = rc_right r2 \<and> rc_bottom r1 = rc_bottom r2"

definition rectangles_intersection :: "RECTANGLE_16 \<Rightarrow> RECTANGLE_16 \<Rightarrow> bool \<times> RECTANGLE_16" where
  "rectangles_intersection r1 r2 =
     (let dst = \<lparr>rc_left = max (rc_left r1) (rc_left r2), rc_top = max (rc_top r1) (rc_top r2),
            rc_right = min (rc_right r1) (rc_right r2), rc_bottom = min (rc_bottom r1) (rc_bottom r2)\<rparr>
      in (rc_left dst < rc_right dst \<and> rc_top dst < rc_bottom dst, dst))"

definition rectangles_intersects :: "RECTANGLE_16 \<Rightarrow> RECTANGLE_16 \<Rightarrow> bool" where
  "rectangles_intersects r1 r2 = fst (rectangles_intersection r1 r2)"

definition region16_clear :: "REGION16 \<Rightarrow> (unit, REGION16) res" where
  "region16_clear region =
     (if rg_data region = None then Fault else Ok () (region\<lparr>rg_data := Some empty_region, rg_extents := zero_rect\<rparr>))"

definition region16_uninit :: "REGION16 \<Rightarrow> REGION16" where
  "region16_uninit region = region\<lparr>rg_data := None\<rparr>"

text \<open>The size of the header and of a rectangle, and the number of bytes for \<open>n\<close> of them.\<close>

definition region_bytes :: "nat \<Rightarrow> nat" where
  "region_bytes n = 16 + n * 8"

definition region16_copy :: "unit alloc \<Rightarrow> bool \<Rightarrow> REGION16 \<Rightarrow> REGION16 \<Rightarrow> (unit, REGION16) res" where
  "region16_copy al same dst src =
     (case (rg_data dst, rg_data src) of
        (Some _, Some data) \<Rightarrow>
          if same then Ok () dst
          else
            let dst = dst\<lparr>rg_extents := rg_extents src\<rparr> in
            if rd_size data = 0 then Ok () (dst\<lparr>rg_data := Some empty_region\<rparr>)
            else if al = None then Fail (dst\<lparr>rg_data := None\<rparr>)
            else if rd_size data > region_bytes (length (rd_rects data)) then Fault
            else Ok () (dst\<lparr>rg_data := Some data\<rparr>)
      | _ \<Rightarrow> Fault)"

section \<open>Bands\<close>

definition put_rect :: "nat \<Rightarrow> RECTANGLE_16 list \<Rightarrow> RECTANGLE_16 \<Rightarrow> RECTANGLE_16 list option" where
  "put_rect cap dst r = (if length dst < cap then Some (dst @ [r]) else None)"

primrec copy_items ::
  "(RECTANGLE_16 \<Rightarrow> bool) \<Rightarrow> nat \<Rightarrow> u16 \<Rightarrow> u16 \<Rightarrow> RECTANGLE_16 list \<Rightarrow> RECTANGLE_16 list \<Rightarrow> (RECTANGLE_16 list \<times> RECTANGLE_16 list) option" where
  "copy_items P cap newTop newBottom dst [] = Some (dst, [])"
| "copy_items P cap newTop newBottom dst (r # src) =
     (if P r
      then Option.bind (put_rect cap dst (r\<lparr>rc_top := newTop, rc_bottom := newBottom\<rparr>)) (\<lambda>dst. copy_items P cap newTop newBottom dst src)
      else Some (dst, r # src))"

definition merge_items ::
  "u16 \<Rightarrow> nat \<Rightarrow> u16 \<Rightarrow> u16 \<Rightarrow> RECTANGLE_16 \<Rightarrow> RECTANGLE_16 list \<Rightarrow> RECTANGLE_16 list \<Rightarrow> (RECTANGLE_16 list \<times> RECTANGLE_16 list) option" where
  "merge_items refY cap newTop newBottom unionRect dst src =
     (let startLeft = (case src of r # _ \<Rightarrow> if rc_top r = refY \<and> rc_left r < rc_left unionRect then rc_left r else rc_left unionRect
                       | [] \<Rightarrow> rc_left unionRect);
          src = dropWhile (\<lambda>r. rc_top r = refY \<and> rc_right r < rc_right unionRect) src;
          (endRight, src) = (case src of
              r # rest \<Rightarrow> if rc_top r = refY \<and> rc_left r < rc_right unionRect then (rc_right r, rest) else (rc_right unionRect, src)
            | [] \<Rightarrow> (rc_right unionRect, src))
      in map_option (\<lambda>dst. (dst, src))
           (put_rect cap dst \<lparr>rc_left = startLeft, rc_top = newTop, rc_right = endRight, rc_bottom = newBottom\<rparr>))"

definition region16_copy_band_with_union ::
  "nat \<Rightarrow> RECTANGLE_16 list \<Rightarrow> RECTANGLE_16 list \<Rightarrow> u16 \<Rightarrow> u16 \<Rightarrow> RECTANGLE_16 option \<Rightarrow> (RECTANGLE_16 list \<times> RECTANGLE_16 list) option" where
  "region16_copy_band_with_union cap dst src newTop newBottom unionRect =
     (case src of
        [] \<Rightarrow> None
      | first # _ \<Rightarrow>
          let refY = rc_top first in
          Option.bind
            (case unionRect of
               None \<Rightarrow> Some (dst, src)
             | Some u \<Rightarrow>
                 Option.bind (copy_items (\<lambda>r. rc_top r = refY \<and> rc_right r < rc_left u) cap newTop newBottom dst src) (\<lambda>(dst, src).
                 merge_items refY cap newTop newBottom u dst src))
            (\<lambda>(dst, src). copy_items (\<lambda>r. rc_top r = refY) cap newTop newBottom dst src))"

text \<open>The band at the front and what follows it.\<close>

definition next_band :: "RECTANGLE_16 list \<Rightarrow> RECTANGLE_16 list \<times> RECTANGLE_16 list" where
  "next_band band1 =
     (takeWhile (\<lambda>r. rc_top r = rc_top (hd band1)) band1, dropWhile (\<lambda>r. rc_top r = rc_top (hd band1)) band1)"

fun band_match_from :: "u16 \<Rightarrow> RECTANGLE_16 list \<Rightarrow> RECTANGLE_16 list \<Rightarrow> bool" where
  "band_match_from refBand2 (r1 # band1) (r2 # band2) =
     (if rc_top r2 = refBand2
      then rc_left r1 = rc_left r2 \<and> rc_right r1 = rc_right r2 \<and> band_match_from refBand2 band1 band2
      else False)"
| "band_match_from refBand2 [] (r2 # band2) = (rc_top r2 \<noteq> refBand2)"
| "band_match_from refBand2 [] [] = True"
| "band_match_from refBand2 (r1 # band1) [] = False"

definition band_match :: "RECTANGLE_16 list \<Rightarrow> RECTANGLE_16 list \<Rightarrow> bool" where
  "band_match band1 band2 = band_match_from (rc_top (hd band2)) band1 band2"

primrec contained_from :: "u16 \<Rightarrow> RECTANGLE_16 \<Rightarrow> RECTANGLE_16 list \<Rightarrow> bool" where
  "contained_from refY rect [] = False"
| "contained_from refY rect (r # band) =
     (if rc_top r = refY \<and> rc_left r \<le> rc_left rect
      then (if rc_right rect \<le> rc_right r then True else contained_from refY rect band) else False)"

definition rectangle_contained_in_band :: "RECTANGLE_16 list \<Rightarrow> RECTANGLE_16 \<Rightarrow> bool" where
  "rectangle_contained_in_band band rect =
     (if rc_top (hd band) > rc_top rect \<or> rc_bottom rect > rc_bottom (hd band) then False
      else contained_from (rc_top (hd band)) rect band)"

lemma next_band_append: "next_band band1 = (items, band2) \<Longrightarrow> items @ band2 = band1"
  by (auto simp: next_band_def)

lemma next_band_length:
  assumes "(items, band2) = next_band band1" "band2 \<noteq> []"
  shows "length items + (length band2 - length items) < length band1" "length band2 < length band1"
proof -
  have e: "items @ band2 = band1" using assms(1) [symmetric] by (rule next_band_append)
  moreover have "0 < length items" using assms e by (cases band1) (auto simp: next_band_def)
  moreover have "length band1 = length items + length band2" using e by auto
  moreover have "0 < length band2" using assms(2) by simp
  ultimately show "length items + (length band2 - length items) < length band1" "length band2 < length band1" by linarith+
qed

text \<open>The loop of \<^verbatim>\<open>region16_simplify_bands\<close>: the rectangles in front of \<open>band1\<close>, and those from there on.\<close>

function simplify_loop :: "RECTANGLE_16 list \<Rightarrow> RECTANGLE_16 list \<Rightarrow> RECTANGLE_16 list" where
  "simplify_loop before band1 =
     (let (items, band2) = next_band band1 in
      if band2 = [] then before @ band1
      else if rc_bottom (hd band1) = rc_top (hd band2) \<and> band_match items band2
      then simplify_loop before (map (\<lambda>r. r\<lparr>rc_bottom := rc_bottom (hd band2)\<rparr>) items @ drop (length items) band2)
      else simplify_loop (before @ items) band2)"
  by pat_completeness auto
termination
  by (relation "measure (\<lambda>(_, band1). length band1)") (auto dest: next_band_length)

declare simplify_loop.simps [simp del]

definition region16_simplify_bands :: "unit alloc \<Rightarrow> REGION16 \<Rightarrow> (unit, REGION16) res" where
  "region16_simplify_bands al region =
     (case rg_data region of
        None \<Rightarrow> Fault
      | Some data \<Rightarrow>
          if length (rd_rects data) < 2 then Ok () region
          else
            let rects = simplify_loop [] (rd_rects data) in
            if length rects \<noteq> length (rd_rects data) then
              (if al = None then Fail (region\<lparr>rg_data := Some empty_region\<rparr>)
               else Ok () (region\<lparr>rg_data := Some \<lparr>rd_size = region_bytes (length rects), rd_rects = rects\<rparr>\<rparr>))
            else Ok () (region\<lparr>rg_data := Some (data\<lparr>rd_rects := rects\<rparr>)\<rparr>))"

section \<open>Union\<close>

text \<open>What the loop of \<^verbatim>\<open>region16_union_rect\<close> makes of one band: the array so far and the next band.\<close>

definition union_band :: "nat \<Rightarrow> RECTANGLE_16 \<Rightarrow> RECTANGLE_16 list \<Rightarrow> RECTANGLE_16 list \<Rightarrow> (RECTANGLE_16 list \<times> RECTANGLE_16 list) option" where
  "union_band cap rect dst currentBand =
     (let band = hd currentBand in
      if rc_bottom band \<le> rc_top rect \<or> rc_bottom rect \<le> rc_top band \<or> rectangle_contained_in_band currentBand rect
      then region16_copy_band_with_union cap dst currentBand (rc_top band) (rc_bottom band) None
      else
        Option.bind
          (if rc_top rect > rc_top band
           then map_option (\<lambda>(dst, _). (dst, rc_top rect)) (region16_copy_band_with_union cap dst currentBand (rc_top band) (rc_top rect) None)
           else Some (dst, rc_top band)) (\<lambda>(dst, mergeTop).
        let mergeBottom = (if rc_bottom rect < rc_bottom band then rc_bottom rect else rc_bottom band) in
        Option.bind (region16_copy_band_with_union cap dst currentBand mergeTop mergeBottom (Some rect)) (\<lambda>(dst, nextBand).
        if rc_bottom rect < rc_bottom band
        then region16_copy_band_with_union cap dst currentBand mergeBottom (rc_bottom band) None
        else Some (dst, nextBand))))"

definition top_inter_band :: "RECTANGLE_16 \<Rightarrow> RECTANGLE_16 list \<Rightarrow> u16" where
  "top_inter_band rect currentBand =
     (let band = hd currentBand in
      if rc_bottom band \<le> rc_top rect \<or> rc_bottom rect \<le> rc_top band \<or> rectangle_contained_in_band currentBand rect
      then rc_top rect else rc_bottom band)"

definition union_gap ::
  "nat \<Rightarrow> RECTANGLE_16 \<Rightarrow> RECTANGLE_16 list \<Rightarrow> RECTANGLE_16 list \<Rightarrow> RECTANGLE_16 list \<Rightarrow> RECTANGLE_16 list option" where
  "union_gap cap rect dst currentBand nextBand =
     (if nextBand \<noteq> [] \<and> rc_top (hd nextBand) \<noteq> rc_bottom (hd currentBand) \<and> rc_bottom rect > rc_bottom (hd currentBand) \<and>
         rc_top rect < rc_top (hd nextBand)
      then put_rect cap dst \<lparr>rc_left = rc_left rect, rc_top = top_inter_band rect currentBand, rc_right = rc_right rect,
             rc_bottom = min (rc_top (hd nextBand)) (rc_bottom rect)\<rparr>
      else Some dst)"

text \<open>Every way through a band ends behind its last rectangle.\<close>

abbreviation behind_band :: "RECTANGLE_16 list \<Rightarrow> RECTANGLE_16 list" where
  "behind_band src \<equiv> dropWhile (\<lambda>r. rc_top r = rc_top (hd src)) src"

lemma dropWhile_weaker: "(\<And>x. Q x \<Longrightarrow> P x) \<Longrightarrow> dropWhile P (dropWhile Q xs) = dropWhile P xs"
  by (induction xs) auto

lemma copy_items_rest: "copy_items P cap newTop newBottom dst src = Some (dst', src') \<Longrightarrow> src' = dropWhile P src"
  by (induction src arbitrary: dst) (auto simp: bind_eq_Some_conv split: if_split_asm)

lemma merge_items_rest:
  assumes "merge_items refY cap newTop newBottom u dst src = Some (dst', src')"
  shows "dropWhile (\<lambda>r. rc_top r = refY) src' = dropWhile (\<lambda>r. rc_top r = refY) src"
proof -
  define d where "d = dropWhile (\<lambda>r. rc_top r = refY \<and> rc_right r < rc_right u) src"
  have "dropWhile (\<lambda>r. rc_top r = refY) d = dropWhile (\<lambda>r. rc_top r = refY) src" unfolding d_def by (rule dropWhile_weaker) simp
  moreover have "src' = d \<or> (\<exists>r. d = r # src' \<and> rc_top r = refY)"
    using assms unfolding merge_items_def Let_def d_def [symmetric] by (cases d) (auto split: if_split_asm)
  ultimately show ?thesis by auto
qed

lemma copy_band_rest:
  assumes "region16_copy_band_with_union cap dst src newTop newBottom u = Some (dst', src')"
  shows "src' = behind_band src"
proof (cases u)
  case None
  then show ?thesis using assms by (cases src) (auto simp: region16_copy_band_with_union_def simp del: copy_items.simps dest: copy_items_rest)
next
  case (Some rect)
  let ?T = "\<lambda>r. rc_top r = rc_top (hd src)"
  obtain d1 s1 d2 s2 where s: "copy_items (\<lambda>r. ?T r \<and> rc_right r < rc_left rect) cap newTop newBottom dst src = Some (d1, s1)"
      "merge_items (rc_top (hd src)) cap newTop newBottom rect d1 s1 = Some (d2, s2)" "copy_items ?T cap newTop newBottom d2 s2 = Some (dst', src')"
    using assms Some by (cases src) (auto simp: region16_copy_band_with_union_def Let_def bind_eq_Some_conv simp del: copy_items.simps)
  have "dropWhile ?T s1 = dropWhile ?T src" unfolding copy_items_rest [OF s(1)] by (rule dropWhile_weaker) simp
  then show ?thesis using copy_items_rest [OF s(3)] merge_items_rest [OF s(2)] by simp
qed

lemma union_band_rest: "union_band cap rect dst src = Some (dst', src') \<Longrightarrow> src' = behind_band src"
  by (auto simp: union_band_def Let_def bind_eq_Some_conv split: if_split_asm dest: copy_band_rest)

lemma behind_band_shorter: "src \<noteq> [] \<Longrightarrow> length (behind_band src) < length src"
  by (cases src) (auto simp: le_imp_less_Suc length_dropWhile_le)

function union_bands :: "nat \<Rightarrow> RECTANGLE_16 \<Rightarrow> RECTANGLE_16 list \<Rightarrow> RECTANGLE_16 list \<Rightarrow> RECTANGLE_16 list option" where
  "union_bands cap rect dst currentBand =
     (if currentBand = [] then Some dst
      else
        Option.bind (union_band cap rect dst currentBand) (\<lambda>(dst, nextBand).
        Option.bind (union_gap cap rect dst currentBand nextBand) (\<lambda>dst.
        union_bands cap rect dst nextBand)))"
  by pat_completeness auto
termination
  by (relation "measure (\<lambda>(_, _, _, currentBand). length currentBand)") (auto dest!: union_band_rest simp: behind_band_shorter)

declare union_bands.simps [simp del]

text \<open>The pieces of \<open>rect\<close> above and below all bands.\<close>

definition union_above :: "nat \<Rightarrow> RECTANGLE_16 \<Rightarrow> RECTANGLE_16 \<Rightarrow> RECTANGLE_16 list option" where
  "union_above cap srcExtents rect =
     (if rc_top rect < rc_top srcExtents
      then put_rect cap [] (rect\<lparr>rc_bottom := min (rc_top srcExtents) (rc_bottom rect)\<rparr>) else Some [])"

definition union_below :: "nat \<Rightarrow> RECTANGLE_16 \<Rightarrow> RECTANGLE_16 \<Rightarrow> RECTANGLE_16 list \<Rightarrow> RECTANGLE_16 list option" where
  "union_below cap srcExtents rect dst =
     (if rc_bottom srcExtents < rc_bottom rect
      then put_rect cap dst (rect\<lparr>rc_top := max (rc_bottom srcExtents) (rc_top rect)\<rparr>) else Some dst)"

definition union_extents :: "RECTANGLE_16 \<Rightarrow> RECTANGLE_16 \<Rightarrow> RECTANGLE_16" where
  "union_extents rect srcExtents =
     \<lparr>rc_left = min (rc_left rect) (rc_left srcExtents), rc_top = min (rc_top rect) (rc_top srcExtents),
      rc_right = max (rc_right rect) (rc_right srcExtents), rc_bottom = max (rc_bottom rect) (rc_bottom srcExtents)\<rparr>"

text \<open>
  The three answers of the allocator are for the new array, for shrinking it, and for \<^verbatim>\<open>region16_simplify_bands\<close>. The product
  that gives the number of rectangles to allocate is one of signed integers.
\<close>

definition region16_union_rect ::
  "unit alloc \<Rightarrow> unit alloc \<Rightarrow> unit alloc \<Rightarrow> REGION16 \<Rightarrow> REGION16 \<Rightarrow> RECTANGLE_16 \<Rightarrow> (unit, REGION16) res" where
  "region16_union_rect al_new al_shrink al_simplify dst src rect =
     (case rg_data src of
        None \<Rightarrow> Fault
      | Some data \<Rightarrow>
          let rects = rd_rects data in
          if rects = [] then
            let dst = dst\<lparr>rg_extents := rect\<rparr> in
            (if al_new = None then Fail (dst\<lparr>rg_data := None\<rparr>)
             else Ok () (dst\<lparr>rg_data := Some \<lparr>rd_size = region_bytes 1, rd_rects = [rect]\<rparr>\<rparr>))
          else if (1 + length rects) * 4 \<ge> 2 ^ 31 then Fault
          else if al_new = None then Fail dst
          else
            let cap = (1 + length rects) * 4 in
            case Option.bind (union_above cap (rg_extents src) rect) (\<lambda>d.
                 Option.bind (union_bands cap rect d rects) (\<lambda>d.
                 union_below cap (rg_extents src) rect d)) of
              None \<Rightarrow> Fault
            | Some d \<Rightarrow>
                let dst = dst\<lparr>rg_extents := union_extents rect (rg_extents src)\<rparr> in
                if al_shrink = None then Fail (dst\<lparr>rg_data := None\<rparr>)
                else region16_simplify_bands al_simplify (dst\<lparr>rg_data := Some \<lparr>rd_size = region_bytes (length d), rd_rects = d\<rparr>\<rparr>))"

section \<open>Intersection\<close>

primrec any_intersects :: "RECTANGLE_16 \<Rightarrow> RECTANGLE_16 list \<Rightarrow> bool" where
  "any_intersects arg2 [] = False"
| "any_intersects arg2 (r # rects) =
     (if rc_bottom arg2 > rc_top r then (if rectangles_intersects r arg2 then True else any_intersects arg2 rects) else False)"

definition region16_intersects_rect :: "REGION16 \<Rightarrow> RECTANGLE_16 \<Rightarrow> bool" where
  "region16_intersects_rect src arg2 =
     (case rg_data src of
        None \<Rightarrow> False
      | Some data \<Rightarrow>
          let rects = rd_rects data in
          if rects = [] then False
          else if length rects = 1 then rectangles_intersects (rg_extents src) arg2
          else if \<not> rectangles_intersects (rg_extents src) arg2 then False
          else any_intersects arg2 rects)"

primrec intersect_rects :: "RECTANGLE_16 \<Rightarrow> RECTANGLE_16 list \<Rightarrow> RECTANGLE_16 list \<times> RECTANGLE_16 \<Rightarrow> RECTANGLE_16 list \<times> RECTANGLE_16" where
  "intersect_rects rect [] acc = acc"
| "intersect_rects rect (r # src) acc =
     (if rc_bottom rect > rc_top r then
        (case rectangles_intersection r rect of
           (True, common) \<Rightarrow>
             intersect_rects rect src (fst acc @ [common],
               if rectangle_is_empty (snd acc) then common else union_extents common (snd acc))
         | (False, _) \<Rightarrow> intersect_rects rect src acc)
      else acc)"

definition region16_intersect_rect ::
  "unit alloc \<Rightarrow> unit alloc \<Rightarrow> unit alloc \<Rightarrow> REGION16 \<Rightarrow> REGION16 \<Rightarrow> RECTANGLE_16 \<Rightarrow> (unit, REGION16) res" where
  "region16_intersect_rect al_new al_shrink al_simplify dst src rect =
     (case rg_data src of
        None \<Rightarrow> Fault
      | Some data \<Rightarrow>
          let rects = rd_rects data in
          if rects = [] then region16_clear dst
          else if length rects = 1 then
            (case rectangles_intersection (rg_extents src) rect of
               (True, common) \<Rightarrow>
                 and_then (region16_clear dst) (\<lambda>_ dst. region16_union_rect al_new al_shrink al_simplify dst dst common)
             | (False, _) \<Rightarrow> region16_clear dst)
          else if al_new = None then Fail dst
          else if rg_data dst = None then Fault
          else
            (case intersect_rects rect rects ([], zero_rect) of
               (d, newExtents) \<Rightarrow>
                 if al_shrink = None then Fail (dst\<lparr>rg_data := None\<rparr>)
                 else region16_simplify_bands al_simplify
                   (dst\<lparr>rg_data := Some \<lparr>rd_size = region_bytes (length d), rd_rects = d\<rparr>, rg_extents := newExtents\<rparr>)))"

end
