(* ===== verification/Region_Points.thy ===== *)
theory Region_Points
  imports Codec_Region
begin

text \<open>
  The regions of \<^verbatim>\<open>region.c\<close> as sets of points. A rectangle covers the points from its left and top edge up to, without, its right and
  bottom edge. \<open>banded\<close> is the order of the array: a rectangle is followed by one on its right in the same band or by one below. All operations keep
  that order, so that no point is covered twice, and compute the union and the intersection of the points.
\<close>

section \<open>Rows\<close>

text \<open>A row is a band seen from above: intervals from left to right.\<close>

abbreviation span :: "RECTANGLE_16 \<Rightarrow> u16 set" where "span r \<equiv> {rc_left r..<rc_right r}"

definition spans :: "RECTANGLE_16 list \<Rightarrow> u16 set" where
  "spans rs = (\<Union>r \<in> set rs. span r)"

lemma spans_simps [simp]: "spans [] = {}" "spans (r # rs) = span r \<union> spans rs" "spans (rs @ ss) = spans rs \<union> spans ss"
  by (auto simp: spans_def)

definition row :: "RECTANGLE_16 list \<Rightarrow> bool" where
  "row rs \<longleftrightarrow> (\<forall>r \<in> set rs. rc_left r < rc_right r) \<and> sorted_wrt (\<lambda>r s. rc_right r \<le> rc_left s) rs"

lemma row_simps [simp]:
  "row []" "row (r # rs) \<longleftrightarrow> rc_left r < rc_right r \<and> (\<forall>s \<in> set rs. rc_right r \<le> rc_left s) \<and> row rs"
  "row (rs @ ss) \<longleftrightarrow> row rs \<and> row ss \<and> (\<forall>r \<in> set rs. \<forall>s \<in> set ss. rc_right r \<le> rc_left s)"
  by (auto simp: row_def sorted_wrt_append)

text \<open>The row that \<^verbatim>\<open>region16_copy_band_with_union\<close> makes of a row and the rectangle \<open>u\<close>.\<close>

definition start_left :: "RECTANGLE_16 list \<Rightarrow> RECTANGLE_16 \<Rightarrow> u16" where
  "start_left b u = (case b of r # _ \<Rightarrow> if rc_left r < rc_left u then rc_left r else rc_left u | [] \<Rightarrow> rc_left u)"

definition end_right :: "RECTANGLE_16 list \<Rightarrow> RECTANGLE_16 \<Rightarrow> u16 \<times> RECTANGLE_16 list" where
  "end_right b u = (case dropWhile (\<lambda>r. rc_right r < rc_right u) b of
     r # rest \<Rightarrow> if rc_left r < rc_right u then (rc_right r, rest) else (rc_right u, r # rest)
   | [] \<Rightarrow> (rc_right u, []))"

definition merged :: "RECTANGLE_16 list \<Rightarrow> RECTANGLE_16 \<Rightarrow> RECTANGLE_16 list" where
  "merged b u =
     (let b1 = dropWhile (\<lambda>r. rc_right r < rc_left u) b in
      takeWhile (\<lambda>r. rc_right r < rc_left u) b @ u\<lparr>rc_left := start_left b1 u, rc_right := fst (end_right b1 u)\<rparr> # snd (end_right b1 u))"

lemma end_right_span:
  assumes b: "row b" "\<forall>r \<in> set b. s \<le> rc_left r" and s: "s \<le> rc_left u" "{s..<rc_left u} \<subseteq> spans b" and u: "rc_left u < rc_right u"
    and e: "end_right b u = (E, rest)"
  shows "{s..<E} \<union> spans rest = spans b \<union> span u" "s < E" "row rest" "\<forall>r \<in> set rest. E \<le> rc_left r" "length rest \<le> length b" "rc_right u \<le> E"
proof -
  define t where "t = takeWhile (\<lambda>r. rc_right r < rc_right u) b"
  define d where "d = dropWhile (\<lambda>r. rc_right r < rc_right u) b"
  have bd: "b = t @ d" by (simp add: t_def d_def)
  have t: "\<forall>r \<in> set t. rc_right r < rc_right u" by (auto simp: t_def dest: set_takeWhileD)
  have d: "d = [] \<or> \<not> rc_right (hd d) < rc_right u" using hd_dropWhile [of "\<lambda>r. rc_right r < rc_right u" b] by (auto simp: d_def)
  have rows: "row t" "row d" using b(1) by (simp_all add: bd)
  have E: "rc_right u \<le> E \<and> spans d \<union> {s..<rc_right u} = {s..<E} \<union> spans rest \<and> row rest \<and> (\<forall>r \<in> set rest. E \<le> rc_left r) \<and> length rest \<le> length d"
  proof (cases d)
    case Nil
    then have "E = rc_right u" "rest = []" using e by (simp_all add: end_right_def d_def [symmetric])
    with Nil show ?thesis by simp
  next
    case (Cons r rs)
    have r: "rc_right u \<le> rc_right r" "rc_left r < rc_right r" "\<forall>x \<in> set rs. rc_right r \<le> rc_left x" "row rs" "s \<le> rc_left r"
      using d rows(2) b(2) Cons by (auto simp: bd)
    show ?thesis
    proof (cases "rc_left r < rc_right u")
      case True
      then have "E = rc_right r" "rest = rs" using e Cons by (simp_all add: end_right_def d_def [symmetric])
      with True r Cons show ?thesis by auto
    next
      case False
      then have "E = rc_right u" "rest = r # rs" using e Cons by (simp_all add: end_right_def d_def [symmetric])
      with False r Cons show ?thesis by (auto intro: order.trans less_imp_le)
    qed
  qed
  have "span r \<subseteq> {s..<rc_right u}" if "r \<in> set t" for r
    using t b(2) that unfolding bd by (intro ivl_subset [THEN iffD2]) (auto intro: less_imp_le)
  then have "spans t \<subseteq> {s..<rc_right u}" unfolding spans_def by (rule UN_least)
  moreover have "{s..<rc_right u} = {s..<rc_left u} \<union> span u" using s(1) u by auto
  ultimately show "{s..<E} \<union> spans rest = spans b \<union> span u" using E s(2) by (auto simp: bd)
  show "s < E" "row rest" "\<forall>r \<in> set rest. E \<le> rc_left r" "length rest \<le> length b" "rc_right u \<le> E" using E s(1) u by (auto simp: bd)
qed


lemma merged_row:
  assumes b: "row b" and u: "rc_left u < rc_right u"
  shows "row (merged b u)" "spans (merged b u) = spans b \<union> span u" "length (merged b u) \<le> length b + 1"
proof -
  define t where "t = takeWhile (\<lambda>r. rc_right r < rc_left u) b"
  define d where "d = dropWhile (\<lambda>r. rc_right r < rc_left u) b"
  have bd: "b = t @ d" by (simp add: t_def d_def)
  have t: "\<forall>r \<in> set t. rc_right r < rc_left u" by (auto simp: t_def dest: set_takeWhileD)
  have d: "d = [] \<or> \<not> rc_right (hd d) < rc_left u" using hd_dropWhile [of "\<lambda>r. rc_right r < rc_left u" b] by (auto simp: d_def)
  have rows: "row t" "row d" "\<forall>r \<in> set t. \<forall>s \<in> set d. rc_right r \<le> rc_left s" using b by (simp_all add: bd)
  obtain E rest where e: "end_right d u = (E, rest)" by force
  let ?s = "start_left d u"
  have s: "\<forall>r \<in> set d. ?s \<le> rc_left r" "?s \<le> rc_left u" "{?s..<rc_left u} \<subseteq> spans d"
    using d rows(2) by (cases d; auto simp: start_left_def; order)+
  have sm: "\<forall>r \<in> set t. rc_right r \<le> ?s" using t rows(3) by (cases d) (auto simp: start_left_def intro: less_imp_le)
  note sp = end_right_span [OF rows(2) s u e]
  have m: "merged b u = t @ u\<lparr>rc_left := ?s, rc_right := E\<rparr> # rest" using e by (simp add: merged_def t_def d_def Let_def)
  have "\<forall>r \<in> set t. \<forall>x \<in> set rest. rc_right r \<le> rc_left x" using sm sp(2,4) by (meson less_imp_le order.trans)
  then show "row (merged b u)" unfolding m using rows(1) sm sp(2-4) by auto
  show "spans (merged b u) = spans b \<union> span u" unfolding m using sp(1) by (simp add: bd Un_assoc)
  show "length (merged b u) \<le> length b + 1" unfolding m using sp(5) by (simp add: bd)
qed

section \<open>The copies of a band\<close>

abbreviation moved :: "u16 \<Rightarrow> u16 \<Rightarrow> RECTANGLE_16 list \<Rightarrow> RECTANGLE_16 list" where
  "moved t b rs \<equiv> map (\<lambda>r. r\<lparr>rc_top := t, rc_bottom := b\<rparr>) rs"

lemma copy_items_all:
  "\<forall>r \<in> set b. P r \<Longrightarrow> rest = [] \<or> \<not> P (hd rest) \<Longrightarrow> length dst + length b \<le> cap \<Longrightarrow>
    copy_items P cap nt nb dst (b @ rest) = Some (dst @ moved nt nb b, rest)"
proof (induction b arbitrary: dst)
  case Nil
  then show ?case by (cases rest) auto
qed (auto simp: put_rect_def)

lemma copy_items_before:
  assumes "\<forall>r \<in> set b. rc_top r = y" "rest = [] \<or> rc_top (hd rest) \<noteq> y" "length dst + length b \<le> cap"
  shows "copy_items (\<lambda>r. rc_top r = y \<and> Q r) cap nt nb dst (b @ rest) = Some (dst @ moved nt nb (takeWhile Q b), dropWhile Q b @ rest)"
proof -
  have "length dst + length (takeWhile Q b) \<le> cap" using assms(3) length_takeWhile_le [of Q b] by linarith
  moreover have "\<forall>r \<in> set (takeWhile Q b). rc_top r = y \<and> Q r" using assms(1) by (auto dest: set_takeWhileD)
  moreover have "d @ rest = [] \<or> \<not> (rc_top (hd (d @ rest)) = y \<and> Q (hd (d @ rest)))" if "d = dropWhile Q b" for d
    using assms(2) hd_dropWhile [of Q b, folded that] by (cases d) auto
  note this [OF refl]
  ultimately have "copy_items (\<lambda>r. rc_top r = y \<and> Q r) cap nt nb dst (takeWhile Q b @ (dropWhile Q b @ rest)) =
      Some (dst @ moved nt nb (takeWhile Q b), dropWhile Q b @ rest)" by (intro copy_items_all)
  moreover have "takeWhile Q b @ dropWhile Q b @ rest = b @ rest" by (simp flip: append_assoc)
  ultimately show ?thesis by (simp only:)
qed

lemma dropWhile_band:
  "\<forall>r \<in> set b. rc_top r = y \<Longrightarrow> rest = [] \<or> rc_top (hd rest) \<noteq> y \<Longrightarrow>
    dropWhile (\<lambda>r. rc_top r = y \<and> Q r) (b @ rest) = dropWhile Q b @ rest"
  by (induction b) (cases rest, auto)

lemma merge_items_band:
  assumes b: "\<forall>r \<in> set b. rc_top r = y" "rest = [] \<or> rc_top (hd rest) \<noteq> y" and cap: "length dst < cap"
  shows "merge_items y cap nt nb u dst (b @ rest) =
    Some (dst @ [\<lparr>rc_left = start_left b u, rc_top = nt, rc_right = fst (end_right b u), rc_bottom = nb\<rparr>], snd (end_right b u) @ rest)"
proof -
  define d where "d = dropWhile (\<lambda>r. rc_right r < rc_right u) b"
  have s: "(case b @ rest of [] \<Rightarrow> rc_left u | r # _ \<Rightarrow> if rc_top r = y \<and> rc_left r < rc_left u then rc_left r else rc_left u) = start_left b u"
    using b by (cases b; cases rest) (auto simp: start_left_def)
  have d: "dropWhile (\<lambda>r. rc_top r = y \<and> rc_right r < rc_right u) (b @ rest) = d @ rest" unfolding d_def by (rule dropWhile_band [OF b])
  have top: "r \<in> set d \<Longrightarrow> rc_top r = y" for r using b(1) by (auto simp: d_def dest: set_dropWhileD)
  have e: "(case d @ rest of [] \<Rightarrow> (rc_right u, d @ rest)
      | r # rs \<Rightarrow> if rc_top r = y \<and> rc_left r < rc_right u then (rc_right r, rs) else (rc_right u, d @ rest)) =
      (fst (end_right b u), snd (end_right b u) @ rest)"
    using b(2) top by (cases d; cases rest) (auto simp: end_right_def d_def [symmetric])
  show ?thesis unfolding merge_items_def s d Let_def e using cap by (simp add: put_rect_def)
qed

lemma copy_band:
  assumes "b \<noteq> []" "\<forall>r \<in> set b. rc_top r = rc_top (hd b)" "rest = [] \<or> rc_top (hd rest) \<noteq> rc_top (hd b)" "length dst + length b \<le> cap"
  shows "region16_copy_band_with_union cap dst (b @ rest) nt nb None = Some (dst @ moved nt nb b, rest)"
  using assms copy_items_all [OF assms(2) _ assms(4), of rest nt nb] by (cases b) (simp_all add: region16_copy_band_with_union_def Let_def del: copy_items.simps)

lemma moved_merged: "moved nt nb (merged b u) =
    moved nt nb (takeWhile (\<lambda>r. rc_right r < rc_left u) b) @
    \<lparr>rc_left = start_left (dropWhile (\<lambda>r. rc_right r < rc_left u) b) u, rc_top = nt,
      rc_right = fst (end_right (dropWhile (\<lambda>r. rc_right r < rc_left u) b) u), rc_bottom = nb\<rparr> #
    moved nt nb (snd (end_right (dropWhile (\<lambda>r. rc_right r < rc_left u) b) u))"
  by (cases u) (simp add: merged_def Let_def)

lemma copy_band_union:
  assumes b: "b \<noteq> []" "\<forall>r \<in> set b. rc_top r = rc_top (hd b)" "rest = [] \<or> rc_top (hd rest) \<noteq> rc_top (hd b)" and cap: "length dst + length b + 1 \<le> cap"
  shows "region16_copy_band_with_union cap dst (b @ rest) nt nb (Some u) = Some (dst @ moved nt nb (merged b u), rest)"
proof -
  let ?t = "takeWhile (\<lambda>r. rc_right r < rc_left u) b"
  define d where "d = dropWhile (\<lambda>r. rc_right r < rc_left u) b"
  have len: "length ?t + length d = length b" unfolding d_def by (simp flip: length_append)
  have top: "\<forall>r \<in> set d. rc_top r = rc_top (hd b)" using b(2) by (auto simp: d_def dest: set_dropWhileD)
  define e where "e = snd (end_right d u)"
  define k where "k = dropWhile (\<lambda>r. rc_right r < rc_right u) d"
  have "set k \<subseteq> set d" "length k \<le> length d" unfolding k_def by (auto simp: length_dropWhile_le dest: set_dropWhileD)
  then have e: "set e \<subseteq> set d" "length e \<le> length d" by (cases k; auto simp: e_def end_right_def k_def [symmetric])+
  let ?d1 = "dst @ moved nt nb ?t"
  let ?d2 = "?d1 @ [\<lparr>rc_left = start_left d u, rc_top = nt, rc_right = fst (end_right d u), rc_bottom = nb\<rparr>]"
  have 1: "copy_items (\<lambda>r. rc_top r = rc_top (hd b) \<and> rc_right r < rc_left u) cap nt nb dst (b @ rest) = Some (?d1, d @ rest)"
    unfolding d_def using cap by (intro copy_items_before [OF b(2,3)]) simp
  have 2: "merge_items (rc_top (hd b)) cap nt nb u ?d1 (d @ rest) = Some (?d2, e @ rest)"
    unfolding e_def using cap len by (intro merge_items_band [OF top b(3)]) simp
  have 3: "copy_items (\<lambda>r. rc_top r = rc_top (hd b)) cap nt nb ?d2 (e @ rest) = Some (?d2 @ moved nt nb e, rest)"
    using e top b(3) cap len by (intro copy_items_all) auto
  have "hd (b @ rest) = hd b" using b(1) by simp
  then show ?thesis
    using b(1) 1 2 3 unfolding moved_merged d_def [symmetric] e_def [symmetric]
    by (cases b) (simp_all add: region16_copy_band_with_union_def Let_def del: copy_items.simps takeWhile.simps dropWhile.simps)
qed

section \<open>Points and bands\<close>

definition points :: "RECTANGLE_16 \<Rightarrow> (u16 \<times> u16) set" where
  "points r = span r \<times> {rc_top r..<rc_bottom r}"

definition covered :: "RECTANGLE_16 list \<Rightarrow> (u16 \<times> u16) set" where
  "covered rs = (\<Union>r \<in> set rs. points r)"

lemma covered_simps [simp]: "covered [] = {}" "covered (r # rs) = points r \<union> covered rs" "covered (rs @ ss) = covered rs \<union> covered ss"
  by (auto simp: covered_def)

definition rect_ok :: "RECTANGLE_16 \<Rightarrow> bool" where
  "rect_ok r \<longleftrightarrow> rc_left r < rc_right r \<and> rc_top r < rc_bottom r"

definition follows :: "RECTANGLE_16 \<Rightarrow> RECTANGLE_16 \<Rightarrow> bool" where
  "follows r s \<longleftrightarrow> (rc_top r = rc_top s \<and> rc_bottom r = rc_bottom s \<and> rc_right r \<le> rc_left s) \<or> rc_bottom r \<le> rc_top s"

definition banded :: "RECTANGLE_16 list \<Rightarrow> bool" where
  "banded rs \<longleftrightarrow> (\<forall>r \<in> set rs. rect_ok r) \<and> sorted_wrt follows rs"

lemma banded_simps [simp]:
  "banded []" "banded (r # rs) \<longleftrightarrow> rect_ok r \<and> (\<forall>s \<in> set rs. follows r s) \<and> banded rs"
  "banded (rs @ ss) \<longleftrightarrow> banded rs \<and> banded ss \<and> (\<forall>r \<in> set rs. \<forall>s \<in> set ss. follows r s)"
  by (auto simp: banded_def sorted_wrt_append)

text \<open>All rectangles between two heights.\<close>

definition between :: "u16 \<Rightarrow> u16 \<Rightarrow> RECTANGLE_16 list \<Rightarrow> bool" where
  "between t b rs \<longleftrightarrow> (\<forall>r \<in> set rs. t \<le> rc_top r \<and> rc_bottom r \<le> b)"

lemma between_simps [simp]: "between t b []" "between t b (r # rs) \<longleftrightarrow> t \<le> rc_top r \<and> rc_bottom r \<le> b \<and> between t b rs"
  "between t b (rs @ ss) \<longleftrightarrow> between t b rs \<and> between t b ss"
  by (auto simp: between_def)

lemma between_wider: "between t b rs \<Longrightarrow> t' \<le> t \<Longrightarrow> b \<le> b' \<Longrightarrow> between t' b' rs"
  by (auto simp: between_def)

lemma banded_append: "banded rs \<Longrightarrow> banded ss \<Longrightarrow> between t m rs \<Longrightarrow> between m b ss \<Longrightarrow> banded (rs @ ss)"
  by (auto simp: between_def follows_def intro: order.trans)

lemma banded_row: "row b \<Longrightarrow> t < bo \<Longrightarrow> banded (moved t bo b)"
  by (induction b) (auto simp: rect_ok_def follows_def)

lemma moved_facts: "covered (moved t bo b) = spans b \<times> {t..<bo}" "between t bo (moved t bo b)"
  by (auto simp: covered_def points_def spans_def between_def)

definition is_band :: "u16 \<Rightarrow> u16 \<Rightarrow> RECTANGLE_16 list \<Rightarrow> bool" where
  "is_band t bo b \<longleftrightarrow> b \<noteq> [] \<and> t < bo \<and> row b \<and> (\<forall>r \<in> set b. rc_top r = t \<and> rc_bottom r = bo)"

lemma band_covered: "is_band t bo b \<Longrightarrow> covered b = spans b \<times> {t..<bo}"
  by (auto simp: is_band_def covered_def points_def spans_def)

lemma follows_top: "follows r s \<Longrightarrow> rect_ok r \<Longrightarrow> rc_top r \<le> rc_top s"
  by (auto simp: follows_def rect_ok_def)

text \<open>A region begins with a band, and the rest lies below it.\<close>

lemma first_band:
  assumes "banded rs" "rs \<noteq> []"
  obtains b rest where "rs = b @ rest" "is_band (rc_top (hd rs)) (rc_bottom (hd rs)) b" "banded rest" "\<forall>s \<in> set rest. rc_bottom (hd rs) \<le> rc_top s"
    "rest = [] \<or> rc_top (hd rest) \<noteq> rc_top (hd rs)" "rest = behind_band rs" "hd b = hd rs"
proof -
  let ?T = "\<lambda>s. rc_top s = rc_top (hd rs)"
  define b where "b = takeWhile ?T rs"
  define rest where "rest = dropWhile ?T rs"
  have split: "rs = b @ rest" by (simp add: b_def rest_def)
  have b: "b \<noteq> []" "\<And>s. s \<in> set b \<Longrightarrow> rc_top s = rc_top (hd rs)" using assms(2) by (cases rs; auto simp: b_def dest: set_takeWhileD)+
  have h: "hd rs = hd b" using b(1) split by (cases b) auto
  have parts: "banded b" "banded rest" "\<And>r s. r \<in> set b \<Longrightarrow> s \<in> set rest \<Longrightarrow> follows r s" using assms(1) unfolding split by auto
  have hb: "hd b \<in> set b" "rect_ok (hd b)" using b(1) parts(1) by (cases b; simp)+
  have bot: "rc_bottom s = rc_bottom (hd rs)" if "s \<in> set b" for s
  proof -
    have "s = hd b \<or> follows (hd b) s" using that b(1) parts(1) by (cases b) auto
    then show ?thesis using b(2) [OF that] hb(2) unfolding h by (auto simp: follows_def rect_ok_def)
  qed
  have rows: "row c" if "banded c" "\<forall>s \<in> set c. rc_top s = t \<and> rc_bottom s = bo" for c t bo
    using that by (induction c) (auto simp: rect_ok_def follows_def)
  have lt: "rc_top (hd rs) < rc_bottom (hd rs)" using hb(2) by (simp add: rect_ok_def h)
  have row: "row b" by (rule rows [of b "rc_top (hd rs)" "rc_bottom (hd rs)", OF parts(1)]) (intro ballI conjI b(2) bot)
  have band: "is_band (rc_top (hd rs)) (rc_bottom (hd rs)) b" unfolding is_band_def by (intro conjI ballI b bot row lt)
  have top: "rest = [] \<or> rc_top (hd rest) \<noteq> rc_top (hd rs)" using hd_dropWhile [of ?T rs] by (auto simp: rest_def)
  have low: "rc_bottom (hd rs) \<le> rc_top s" if "s \<in> set rest" for s
  proof -
    obtain f fs where f: "rest = f # fs" using \<open>s \<in> set rest\<close> by (cases rest) auto
    then have "follows (hd b) f" "rc_top f \<noteq> rc_top (hd b)" using parts(3) hb(1) top h by auto
    then have "rc_bottom (hd rs) \<le> rc_top f" unfolding h by (auto simp: follows_def)
    also have "rc_top f \<le> rc_top s" using that parts(2) f follows_top by auto
    finally show ?thesis .
  qed
  show thesis by (rule that [OF split band parts(2) _ top rest_def h [symmetric]]) (use low in blast)
qed

section \<open>Union\<close>

lemma contained_from_span:
  "contained_from y rect (b @ rest) \<Longrightarrow> rest = [] \<or> rc_top (hd rest) \<noteq> y \<Longrightarrow> span rect \<subseteq> spans b"
proof (induction b)
  case Nil
  then show ?case by (cases rest) auto
next
  case (Cons r b)
  then show ?case by (fastforce split: if_split_asm)
qed

text \<open>A band and the part of the rectangle at its height.\<close>

definition strip :: "RECTANGLE_16 \<Rightarrow> u16 \<Rightarrow> u16 \<Rightarrow> (u16 \<times> u16) set" where
  "strip rect t b = points rect \<inter> UNIV \<times> {t..<b}"

lemma union_band_spec:
  assumes b: "is_band t bo b" and rest: "rest = [] \<or> rc_top (hd rest) \<noteq> t" and rect: "rect_ok rect" and cap: "length dst + 3 * length b + 1 \<le> cap"
  shows "\<exists>E. union_band cap rect dst (b @ rest) = Some (dst @ E, rest) \<and> banded E \<and> between t bo E \<and> covered E = covered b \<union> strip rect t bo \<and>
    length E \<le> 3 * length b + 1 \<and> (bo \<le> rc_bottom rect \<longrightarrow> length E \<le> 2 * length b + 1)"
proof -
  have hd: "hd (b @ rest) = hd b" "rc_top (hd b) = t" "rc_bottom (hd b) = bo" and b': "b \<noteq> []" "t < bo" "row b" "\<forall>r \<in> set b. rc_top r = rc_top (hd b)"
    using b by (auto simp: is_band_def)
  note cov = band_covered [OF b]
  note rest' = rest [folded hd(2)]
  show ?thesis
  proof (cases "bo \<le> rc_top rect \<or> rc_bottom rect \<le> t \<or> rectangle_contained_in_band (b @ rest) rect")
    case True
    have "union_band cap rect dst (b @ rest) = Some (dst @ moved t bo b, rest)"
      using True cap unfolding union_band_def Let_def hd by (simp add: copy_band [OF b'(1,4) rest'])
    moreover have "strip rect t bo \<subseteq> covered b"
    proof (cases "rectangle_contained_in_band (b @ rest) rect")
      case True
      then have "span rect \<subseteq> spans b" using rest by (auto simp: rectangle_contained_in_band_def hd b'(1) split: if_split_asm dest: contained_from_span)
      then show ?thesis unfolding cov strip_def points_def by auto
    next
      case False
      then have "{rc_top rect..<rc_bottom rect} \<inter> {t..<bo} = {}" using True by auto
      then show ?thesis unfolding strip_def points_def by blast
    qed
    ultimately show ?thesis using banded_row [OF b'(3,2)] moved_facts [where t = t and bo = bo and b = b] cov b'(1) by (intro exI [of _ "moved t bo b"]) auto
  next
    case False
    let ?u = "rc_top rect" and ?v = "rc_bottom rect"
    define mt where "mt = max t ?u"
    define mb where "mb = min bo ?v"
    have m: "mt < mb" "t \<le> mt" "mb \<le> bo" using False rect b'(2) by (auto simp: mt_def mb_def rect_ok_def)
    define T where "T = (if t < ?u then moved t ?u b else [])"
    define M where "M = moved mt mb (merged b rect)"
    define B where "B = (if ?v < bo then moved mb bo b else [])"
    have u: "rc_left rect < rc_right rect" using rect by (simp add: rect_ok_def)
    note mr = merged_row [OF b'(3) u]
    have len: "length (dst @ T) + length b + 1 \<le> cap" "length (dst @ T @ M) + (if ?v < bo then length b else 0) \<le> cap"
      using cap mr(3) by (simp_all add: T_def M_def)
    have 1: "(if t < ?u then map_option (\<lambda>(dst, _). (dst, ?u)) (region16_copy_band_with_union cap dst (b @ rest) t ?u None) else Some (dst, t)) = Some (dst @ T, mt)"
      using copy_band [OF b'(1,4) rest', of dst cap t ?u] cap by (auto simp: T_def mt_def max_def)
    have 2: "region16_copy_band_with_union cap (dst @ T) (b @ rest) mt mb (Some rect) = Some ((dst @ T) @ M, rest)"
      unfolding M_def by (rule copy_band_union [OF b'(1,4) rest' len(1)])
    have 3: "(if ?v < bo then region16_copy_band_with_union cap ((dst @ T) @ M) (b @ rest) mb bo None else Some ((dst @ T) @ M, rest)) = Some (dst @ (T @ M @ B), rest)"
      using copy_band [OF b'(1,4) rest', of "dst @ T @ M" cap mb bo] len(2) by (cases "?v < bo") (simp_all add: B_def)
    have mb: "(if ?v < bo then ?v else bo) = mb" by (auto simp: mb_def min_def)
    have run: "union_band cap rect dst (b @ rest) = Some (dst @ (T @ M @ B), rest)"
      using False unfolding union_band_def Let_def hd mb by (simp add: 1 2 3 del: append_assoc)
    have cT: "covered T = spans b \<times> {t..<mt}" "between t mt T" "banded T"
      using banded_row [OF b'(3), of t ?u] by (auto simp: T_def mt_def moved_facts max_def)
    have cM: "covered M = (spans b \<union> span rect) \<times> {mt..<mb}" "between mt mb M" "banded M"
      using banded_row [OF mr(1) m(1)] by (simp_all add: M_def moved_facts mr(2))
    have cB: "covered B = spans b \<times> {mb..<bo}" "between mb bo B" "banded B"
      using banded_row [OF b'(3), of mb bo] by (auto simp: B_def mb_def moved_facts min_def)
    have "banded (M @ B)" "between mt bo (M @ B)" using banded_append [OF cM(3) cB(3) cM(2) cB(2)] cM(2) cB(2) m
      by (auto intro: between_wider)
    then have "banded (T @ M @ B)" "between t bo (T @ M @ B)" using banded_append [OF cT(3) _ cT(2)] cT(2) m
      by (auto intro: between_wider)
    moreover have "strip rect t bo = span rect \<times> {mt..<mb}" by (auto simp: strip_def points_def mt_def mb_def)
    then have "covered (T @ M @ B) = covered b \<union> strip rect t bo" using m by (auto simp: cov cT(1) cM(1) cB(1))
    moreover have "length (T @ M @ B) \<le> 3 * length b + 1" "bo \<le> ?v \<longrightarrow> length (T @ M @ B) \<le> 2 * length b + 1"
      using mr(3) by (auto simp: T_def M_def B_def)
    ultimately show ?thesis using run by blast
  qed
qed

lemma union_gap_spec:
  assumes b: "is_band t bo b" and rest: "banded rest" "\<forall>s \<in> set rest. bo \<le> rc_top s" and rect: "rect_ok rect" and cap: "bo < rc_bottom rect \<Longrightarrow> length dst < cap"
    and lim: "lim = (if rest = [] then bo else rc_top (hd rest))"
  shows "\<exists>G. union_gap cap rect dst (b @ rest) rest = Some (dst @ G) \<and> banded G \<and> between bo lim G \<and> covered G = strip rect bo lim \<and>
    length G \<le> (if bo < rc_bottom rect then 1 else 0)"
proof -
  let ?u = "rc_top rect" and ?v = "rc_bottom rect"
  have hd: "hd (b @ rest) = hd b" "rc_top (hd b) = t" "rc_bottom (hd b) = bo" "t < bo" using b by (auto simp: is_band_def)
  have lim': "bo \<le> lim" using rest(2) lim by (cases rest) auto
  show ?thesis
  proof (cases "rest \<noteq> [] \<and> rc_top (hd rest) \<noteq> bo \<and> bo < ?v \<and> ?u < rc_top (hd rest)")
    case True
    let ?g = "\<lparr>rc_left = rc_left rect, rc_top = max bo ?u, rc_right = rc_right rect, rc_bottom = min lim ?v\<rparr>"
    have "\<not> rectangle_contained_in_band (b @ rest) rect" using True by (auto simp: rectangle_contained_in_band_def hd)
    moreover have "\<not> ?v \<le> t" using True hd(4) by auto
    ultimately have "top_inter_band rect (b @ rest) = max bo ?u" by (auto simp: top_inter_band_def hd max_def)
    then have "union_gap cap rect dst (b @ rest) rest = Some (dst @ [?g])" using True cap lim by (simp add: union_gap_def hd put_rect_def)
    moreover have "max bo ?u < min lim ?v" using True rect lim lim' by (auto simp: rect_ok_def)
    moreover have "covered [?g] = strip rect bo lim" by (auto simp: strip_def points_def)
    ultimately show ?thesis using True rect by (intro exI [of _ "[?g]"]) (auto simp: rect_ok_def)
  next
    case False
    then have "union_gap cap rect dst (b @ rest) rest = Some dst" by (auto simp: union_gap_def hd)
    moreover have "strip rect bo lim = {}" using False lim by (auto simp: strip_def points_def split: if_split_asm)
    ultimately show ?thesis by (intro exI [of _ "[]"]) simp
  qed
qed

lemma banded_last: "banded rs \<Longrightarrow> r \<in> set rs \<Longrightarrow> rc_bottom r \<le> rc_bottom (last rs)"
proof (induction rs)
  case (Cons a rs)
  show ?case
  proof (cases "rs = []")
    case False
    then have l: "last rs \<in> set rs" "follows a (last rs)" "rect_ok (last rs)" using Cons.prems(1) by (auto simp: banded_def)
    then have "rc_bottom a \<le> rc_bottom (last rs)" by (auto simp: follows_def rect_ok_def)
    with Cons False show ?thesis by auto
  qed (use Cons.prems in simp)
qed simp

lemma strip_append: "t \<le> m \<Longrightarrow> m \<le> b \<Longrightarrow> strip rect t m \<union> strip rect m b = strip rect t b"
  by (auto simp: strip_def)

lemma union_bands_spec:
  "banded src \<Longrightarrow> src \<noteq> [] \<Longrightarrow> rect_ok rect \<Longrightarrow> length dst + 4 * length src \<le> cap \<Longrightarrow>
    \<exists>E. union_bands cap rect dst src = Some (dst @ E) \<and> banded E \<and> between (rc_top (hd src)) (rc_bottom (last src)) E \<and>
      covered E = covered src \<union> strip rect (rc_top (hd src)) (rc_bottom (last src)) \<and> length E \<le> 4 * length src"
proof (induction "length src" arbitrary: src dst rule: less_induct)
  case less
  define t where "t = rc_top (hd src)"
  define bo where "bo = rc_bottom (hd src)"
  obtain b rest where s: "src = b @ rest" "is_band t bo b" "banded rest" "\<forall>s \<in> set rest. bo \<le> rc_top s" "rest = [] \<or> rc_top (hd rest) \<noteq> t"
    using first_band [OF less.prems(1,2)] unfolding t_def bo_def by metis
  have b: "0 < length b" "t < bo" "\<forall>r \<in> set b. rc_bottom r = bo" using s(2) by (auto simp: is_band_def)
  have len: "length src = length b + length rest" using s(1) by simp
  have cap1: "length dst + 3 * length b + 1 \<le> cap" using less.prems(4) b(1) len by linarith
  from union_band_spec [OF s(2,5) less.prems(3) cap1] obtain E1 where E1: "union_band cap rect dst src = Some (dst @ E1, rest)" "banded E1" "between t bo E1"
      "covered E1 = covered b \<union> strip rect t bo" "length E1 \<le> 3 * length b + 1" "bo \<le> rc_bottom rect \<longrightarrow> length E1 \<le> 2 * length b + 1" unfolding s(1) by blast
  define lim where "lim = (if rest = [] then bo else rc_top (hd rest))"
  have cap2: "length (dst @ E1) < cap" if "bo < rc_bottom rect"
  proof -
    have "length E1 \<le> 2 * length b + 1" using E1(6) that by simp
    then show ?thesis using less.prems(4) b(1) len unfolding length_append by linarith
  qed
  from union_gap_spec [OF s(2-4) less.prems(3) cap2 lim_def] obtain G where G: "union_gap cap rect (dst @ E1) src rest = Some ((dst @ E1) @ G)" "banded G"
      "between bo lim G" "covered G = strip rect bo lim" "length G \<le> (if bo < rc_bottom rect then 1 else 0)" unfolding s(1) by blast
  have len1: "length E1 + length G \<le> 4 * length b" 
  proof (cases "bo < rc_bottom rect")
    case True
    then have "length E1 \<le> 2 * length b + 1" "length G \<le> 1" using E1(6) G(5) by simp_all
    with b(1) show ?thesis by linarith
  qed (use E1(5) G(5) b(1) in \<open>simp del: length_greater_0_conv\<close>)
  have lim: "bo \<le> lim" using s(4) by (cases rest) (auto simp: lim_def)
  have EG: "banded (E1 @ G)" "between t lim (E1 @ G)" using banded_append [OF E1(2) G(2) E1(3) G(3)] E1(3) G(3) lim b(2) by (auto intro: between_wider)
  have covEG: "covered (E1 @ G) = covered b \<union> strip rect t lim" 
    using strip_append [OF less_imp_le [OF b(2)] lim, of rect] E1(4) G(4) by (simp add: Un_assoc)
  have run: "union_bands cap rect dst src = union_bands cap rect (dst @ E1 @ G) rest"
    using less.prems(2) E1(1) G(1) by (subst union_bands.simps) simp
  show ?case
  proof (cases "rest = []")
    case True
    then have "rc_bottom (last src) = lim" using b(1,3) s(1) by (simp add: lim_def)
    with True run EG covEG len1 s(1) show ?thesis unfolding t_def [symmetric] by (intro exI [of _ "E1 @ G"]) (simp add: union_bands.simps)
  next
    case False
    have hdl: "lim = rc_top (hd rest)" "last src = last rest" using False s(1) by (simp_all add: lim_def)
    have "length (dst @ E1 @ G) + 4 * length rest \<le> cap" using len1 less.prems(4) len by simp
    from less.hyps [OF _ s(3) False less.prems(3) this] b(1) len obtain E2 where E2: "union_bands cap rect (dst @ E1 @ G) rest = Some ((dst @ E1 @ G) @ E2)" "banded E2"
        "between lim (rc_bottom (last rest)) E2" "covered E2 = covered rest \<union> strip rect lim (rc_bottom (last rest))" "length E2 \<le> 4 * length rest"
      unfolding hdl(1) by auto
    have "rect_ok (hd rest)" "rc_bottom (hd rest) \<le> rc_bottom (last rest)" using s(3) False banded_last [OF s(3)] by (auto simp: banded_def)
    then have top: "lim \<le> rc_bottom (last rest)" "t \<le> lim" using lim b(2) by (auto simp: hdl(1) rect_ok_def)
    have "banded ((E1 @ G) @ E2)" by (rule banded_append [OF EG(1) E2(2) EG(2) E2(3)])
    moreover have "between t (rc_bottom (last rest)) ((E1 @ G) @ E2)" using EG(2) E2(3) top by (auto intro: between_wider)
    moreover have "covered ((E1 @ G) @ E2) = covered src \<union> strip rect t (rc_bottom (last rest))"
      using strip_append [OF top(2,1), of rect] unfolding covered_simps(3) [of "E1 @ G" E2] covEG E2(4) s(1) covered_simps(3) [of b rest] by blast
    ultimately show ?thesis using run E2(1,5) len1 len unfolding t_def [symmetric] hdl(2) by (intro exI [of _ "(E1 @ G) @ E2"]) simp
  qed
qed

section \<open>Merging bands\<close>

lemma band_match_from_same:
  "band_match_from y b1 (b2 @ rest) \<Longrightarrow> \<forall>r \<in> set b2. rc_top r = y \<Longrightarrow> rest = [] \<or> rc_top (hd rest) \<noteq> y \<Longrightarrow> length b1 = length b2 \<and> spans b1 = spans b2"
proof (induction b1 arbitrary: b2)
  case Nil
  then show ?case by (cases b2; cases rest) auto
next
  case (Cons r b1)
  show ?case
  proof (cases b2)
    case Nil
    with Cons.prems show ?thesis by (cases rest) (auto split: if_split_asm)
  next
    case (Cons r2 b2')
    with Cons.prems Cons.IH [of b2'] show ?thesis by (auto split: if_split_asm)
  qed
qed

lemma next_band_first:
  assumes "is_band t bo b" "rest = [] \<or> rc_top (hd rest) \<noteq> t"
  shows "next_band (b @ rest) = (b, rest)"
proof -
  have "rc_top (hd (b @ rest)) = t" "\<forall>r \<in> set b. rc_top r = t" using assms(1) by (auto simp: is_band_def)
  then show ?thesis using assms(2) unfolding next_band_def by (cases rest) (auto simp: takeWhile_append dropWhile_append)
qed

text \<open>Two bands that touch and match are one band.\<close>

lemma match_merges:
  assumes b1: "is_band t bo b1" and b2: "is_band bo bo2 b2" "rest2 = [] \<or> rc_top (hd rest2) \<noteq> bo" and m: "band_match b1 (b2 @ rest2)"
  shows "map (\<lambda>r. r\<lparr>rc_bottom := bo2\<rparr>) b1 @ drop (length b1) (b2 @ rest2) = moved t bo2 b1 @ rest2"
    "covered (moved t bo2 b1) = covered b1 \<union> covered b2" "is_band t bo2 (moved t bo2 b1)"
proof -
  have "rc_top (hd (b2 @ rest2)) = bo" "\<forall>r \<in> set b2. rc_top r = bo" using b2(1) by (auto simp: is_band_def)
  then have s: "length b1 = length b2" "spans b1 = spans b2" using band_match_from_same [of bo b1 b2 rest2] m b2(2) by (auto simp: band_match_def)
  have "map (\<lambda>r. r\<lparr>rc_bottom := bo2\<rparr>) b1 = moved t bo2 b1" using b1 by (auto simp: is_band_def)
  then show "map (\<lambda>r. r\<lparr>rc_bottom := bo2\<rparr>) b1 @ drop (length b1) (b2 @ rest2) = moved t bo2 b1 @ rest2" by (simp add: s(1))
  have l: "t < bo" "bo < bo2" using b1 b2(1) by (auto simp: is_band_def)
  then have "{t..<bo2} = {t..<bo} \<union> {bo..<bo2}" by auto
  then show "covered (moved t bo2 b1) = covered b1 \<union> covered b2"
    using band_covered [OF b1] band_covered [OF b2(1)] s(2) by (auto simp: moved_facts)
  have "row (moved t bo2 b)" if "row b" for b using that by (induction b) auto
  then show "is_band t bo2 (moved t bo2 b1)" using b1 l by (auto simp: is_band_def)
qed

lemma band_banded: "is_band t bo b \<Longrightarrow> banded b" "is_band t bo b \<Longrightarrow> between t bo b"
proof -
  assume b: "is_band t bo b"
  then have "moved t bo b = b" by (intro map_idI) (simp add: is_band_def)
  then show "banded b" "between t bo b" using banded_row [of b t bo] moved_facts [where t = t and bo = bo and b = b] b by (auto simp: is_band_def)
qed

lemma simplify_loop_match:
  "next_band cur = (b, rest) \<Longrightarrow> rest \<noteq> [] \<Longrightarrow> rc_bottom (hd cur) = rc_top (hd rest) \<Longrightarrow> band_match b rest \<Longrightarrow>
    simplify_loop before cur = simplify_loop before (map (\<lambda>r. r\<lparr>rc_bottom := rc_bottom (hd rest)\<rparr>) b @ drop (length b) rest)"
  by (subst simplify_loop.simps) simp

lemma simplify_loop_other:
  "next_band cur = (b, rest) \<Longrightarrow> rest \<noteq> [] \<Longrightarrow> \<not> (rc_bottom (hd cur) = rc_top (hd rest) \<and> band_match b rest) \<Longrightarrow>
    simplify_loop before cur = simplify_loop (before @ b) rest"
  by (subst simplify_loop.simps) auto

lemma simplify_loop_spec:
  "banded before \<Longrightarrow> banded cur \<Longrightarrow> (\<And>r. cur \<noteq> [] \<Longrightarrow> r \<in> set before \<Longrightarrow> rc_bottom r \<le> rc_top (hd cur)) \<Longrightarrow>
    banded (simplify_loop before cur) \<and> covered (simplify_loop before cur) = covered before \<union> covered cur \<and>
    length (simplify_loop before cur) \<le> length before + length cur"
proof (induction "length cur" arbitrary: before cur rule: less_induct)
  case less
  have low: "between 0 (rc_top (hd cur)) before" if "cur \<noteq> []" using less.prems(3) that by (simp add: between_def)
  show ?case
  proof (cases "cur = []")
    case True
    moreover have "simplify_loop before [] = before" by (subst simplify_loop.simps) (simp add: next_band_def)
    ultimately show ?thesis using less.prems(1) by simp
  next
    case False
    define t where "t = rc_top (hd cur)"
    define bo where "bo = rc_bottom (hd cur)"
    obtain b rest where s: "cur = b @ rest" "is_band t bo b" "banded rest" "\<forall>s \<in> set rest. bo \<le> rc_top s" "rest = [] \<or> rc_top (hd rest) \<noteq> t" "hd b = hd cur"
      using first_band [OF less.prems(2) False] unfolding t_def bo_def by metis
    note nb = next_band_first [OF s(2,5)]
    have b: "b \<noteq> []" "t < bo" using s(2) by (auto simp: is_band_def)
    have tl: "between 0 t before" using low [OF False] by (simp add: t_def)
    show ?thesis
    proof (cases "rest = []")
      case True
      have "simplify_loop before cur = before @ cur" using nb True unfolding s(1) by (subst simplify_loop.simps) simp
      moreover have "banded (before @ cur)" using banded_append [OF less.prems(1) less.prems(2) tl] band_banded(2) [OF s(2)] s(1) True by auto
      ultimately show ?thesis by simp
    next
      case rne: False
      show ?thesis
      proof (cases "bo = rc_top (hd rest) \<and> band_match b rest")
        case True
        obtain b2 rest2 where s2: "rest = b2 @ rest2" "is_band bo (rc_bottom (hd rest)) b2" "banded rest2" "\<forall>s \<in> set rest2. rc_bottom (hd rest) \<le> rc_top s"
            "rest2 = [] \<or> rc_top (hd rest2) \<noteq> bo"
          using first_band [OF s(3) rne] True by metis
        define bo2 where "bo2 = rc_bottom (hd rest)"
        note mm = match_merges [OF s(2) s2(2,5), folded bo2_def, OF conjunct2 [OF True, unfolded s2(1)]]
        let ?cur = "moved t bo2 b @ rest2"
        have run: "simplify_loop before cur = simplify_loop before ?cur"
          using simplify_loop_match [OF nb [folded s(1)] rne _ conjunct2 [OF True]] True
          unfolding bo_def bo2_def [symmetric] mm(1) [folded s2(1)] by simp
        have len: "length ?cur < length cur" using s2(1,2) by (simp add: s(1) is_band_def)
        have "between bo2 (- 1) rest2" using s2(4) by (auto simp: between_def bo2_def)
        then have "banded ?cur" by (rule banded_append [OF band_banded(1) [OF mm(3)] s2(3) band_banded(2) [OF mm(3)]])
        moreover have "hd ?cur \<in> set (moved t bo2 b)" using b(1) by (cases b) auto
        then have "rc_top (hd ?cur) = t" by auto
        ultimately have ih: "banded (simplify_loop before ?cur) \<and> covered (simplify_loop before ?cur) = covered before \<union> covered ?cur \<and>
            length (simplify_loop before ?cur) \<le> length before + length ?cur"
          using tl by (intro less.hyps [OF len less.prems(1)]) (auto simp: between_def)
        then show ?thesis using run len mm(2) by (auto simp: s(1) s2(1))
      next
        case False
        have run: "simplify_loop before cur = simplify_loop (before @ b) rest"
          by (rule simplify_loop_other [OF nb [folded s(1)] rne False [unfolded bo_def]])
        have "banded (before @ b)" using banded_append [OF less.prems(1) band_banded(1) [OF s(2)] tl band_banded(2) [OF s(2)]] .
        moreover have "rc_bottom r \<le> rc_top (hd rest)" if "r \<in> set (before @ b)" for r
        proof -
          have "rc_bottom r \<le> bo" using that tl b(2) band_banded(2) [OF s(2)] by (auto simp: between_def)
          also have "bo \<le> rc_top (hd rest)" using s(4) rne by simp
          finally show ?thesis .
        qed
        moreover have "length rest < length cur" using b(1) by (simp add: s(1))
        ultimately have "banded (simplify_loop (before @ b) rest) \<and> covered (simplify_loop (before @ b) rest) = covered (before @ b) \<union> covered rest \<and>
            length (simplify_loop (before @ b) rest) \<le> length (before @ b) + length rest"
          using less.hyps [of rest "before @ b"] s(3) by blast
        then show ?thesis using run by (auto simp: s(1))
      qed
    qed
  qed
qed

section \<open>Extents\<close>

text \<open>The smallest rectangle around a set of points: every edge is reached.\<close>

definition tight :: "RECTANGLE_16 \<Rightarrow> (u16 \<times> u16) set \<Rightarrow> bool" where
  "tight ext A \<longleftrightarrow> A \<subseteq> points ext \<and> rc_left ext \<in> fst ` A \<and> rc_right ext - 1 \<in> fst ` A \<and> rc_top ext \<in> snd ` A \<and> rc_bottom ext - 1 \<in> snd ` A"

lemma word_before: "(a :: u16) < b \<Longrightarrow> a \<le> b - 1" "(a :: u16) < b \<Longrightarrow> b - 1 < b" "(a :: u16) < b \<Longrightarrow> b - 1 < c \<longleftrightarrow> b \<le> c"
  by unat_arith+

lemma points_edges: "rect_ok r \<Longrightarrow> {rc_left r, rc_right r - 1} \<subseteq> fst ` points r \<and> {rc_top r, rc_bottom r - 1} \<subseteq> snd ` points r"
  by (auto simp: points_def rect_ok_def word_before)

lemma points_inside:
  assumes "points r \<subseteq> points e" "rect_ok r"
  shows "rc_left e \<le> rc_left r" "rc_right r \<le> rc_right e" "rc_top e \<le> rc_top r" "rc_bottom r \<le> rc_bottom e"
proof -
  have o: "rc_left r < rc_right r" "rc_top r < rc_bottom r" using assms(2) by (simp_all add: rect_ok_def)
  have "(rc_left r, rc_top r) \<in> points r" "(rc_right r - 1, rc_bottom r - 1) \<in> points r" using o by (simp_all add: points_def word_before)
  then have "(rc_left r, rc_top r) \<in> points e" "(rc_right r - 1, rc_bottom r - 1) \<in> points e" using assms(1) by blast+
  then show "rc_left e \<le> rc_left r" "rc_right r \<le> rc_right e" "rc_top e \<le> rc_top r" "rc_bottom r \<le> rc_bottom e"
    using word_before(3) [OF o(1)] word_before(3) [OF o(2)] by (simp_all add: points_def)
qed

lemma tight_rect: "rect_ok r \<Longrightarrow> tight r (points r)"
  using points_edges [of r] by (auto simp: tight_def)

lemma tight_union: "tight a A \<Longrightarrow> tight b B \<Longrightarrow> tight (union_extents a b) (A \<union> B)"
proof -
  let ?e = "union_extents a b"
  assume "tight a A" "tight b B"
  then have a: "A \<subseteq> points a" "rc_left a \<in> fst ` A" "rc_right a - 1 \<in> fst ` A" "rc_top a \<in> snd ` A" "rc_bottom a - 1 \<in> snd ` A"
    and b: "B \<subseteq> points b" "rc_left b \<in> fst ` B" "rc_right b - 1 \<in> fst ` B" "rc_top b \<in> snd ` B" "rc_bottom b - 1 \<in> snd ` B"
    unfolding tight_def by blast+
  have "points a \<union> points b \<subseteq> points ?e" by (auto simp: points_def union_extents_def min_le_iff_disj less_max_iff_disj)
  then have "A \<union> B \<subseteq> points ?e" using a(1) b(1) by blast
  moreover have "rc_left ?e = rc_left a \<or> rc_left ?e = rc_left b" "rc_right ?e = rc_right a \<or> rc_right ?e = rc_right b"
    "rc_top ?e = rc_top a \<or> rc_top ?e = rc_top b" "rc_bottom ?e = rc_bottom a \<or> rc_bottom ?e = rc_bottom b"
    by (auto simp: union_extents_def min_def max_def)
  then have "rc_left ?e \<in> fst ` A \<union> fst ` B" "rc_right ?e - 1 \<in> fst ` A \<union> fst ` B" "rc_top ?e \<in> snd ` A \<union> snd ` B" "rc_bottom ?e - 1 \<in> snd ` A \<union> snd ` B"
    using a(2-5) b(2-5) by (metis UnI1 UnI2)+
  ultimately show ?thesis unfolding tight_def image_Un by blast
qed

lemma tight_not_empty: "tight e A \<Longrightarrow> \<not> rectangle_is_empty e"
  by (auto simp: tight_def rectangle_is_empty_def points_def)

lemma tight_heights:
  assumes "banded rs" "rs \<noteq> []" "tight ext (covered rs)"
  shows "rc_top ext = rc_top (hd rs)" "rc_bottom ext = rc_bottom (last rs)"
proof -
  have ok: "rect_ok (hd rs)" "hd rs \<in> set rs" "rect_ok (last rs)" "last rs \<in> set rs" using assms(1,2) by (auto simp: banded_def)
  have sub: "points r \<subseteq> points ext" if "r \<in> set rs" for r using assms(3) that unfolding tight_def covered_def by blast
  have in1: "rc_top ext \<le> rc_top (hd rs)" by (rule points_inside(3) [OF sub [OF ok(2)] ok(1)])
  have in2: "rc_bottom (last rs) \<le> rc_bottom ext" by (rule points_inside(4) [OF sub [OF ok(4)] ok(3)])
  have y: "\<exists>r \<in> set rs. rc_top r \<le> y \<and> y < rc_bottom r" if "y \<in> snd ` covered rs" for y using that by (auto simp: covered_def points_def)
  have ys: "rc_top ext \<in> snd ` covered rs" "rc_bottom ext - 1 \<in> snd ` covered rs" using assms(3) unfolding tight_def by blast+
  obtain r where r: "r \<in> set rs" "rc_top r \<le> rc_top ext" "rc_top ext < rc_bottom r" using y [OF ys(1)] by blast
  have "rc_top (hd rs) \<le> rc_top r" using assms(1) r(1) follows_top by (cases rs) auto
  then show "rc_top ext = rc_top (hd rs)" using r(2) in1 by order
  obtain s where s: "s \<in> set rs" "rc_bottom ext - 1 < rc_bottom s" using y [OF ys(2)] by blast
  have "rc_top ext < rc_bottom ext" using points_inside(4) [OF sub [OF r(1)]] assms(1) r(1,3) by (auto simp: banded_def)
  then have "rc_bottom ext \<le> rc_bottom s" using word_before(3) s(2) by blast
  then show "rc_bottom ext = rc_bottom (last rs)" using banded_last [OF assms(1) s(1)] in2 by order
qed

lemma tight_single:
  assumes "tight ext (points r)" "rect_ok r"
  shows "ext = r"
proof -
  have sub: "points r \<subseteq> points ext" and e: "rc_left ext \<in> fst ` points r" "rc_right ext - 1 \<in> fst ` points r" "rc_top ext \<in> snd ` points r" "rc_bottom ext - 1 \<in> snd ` points r"
    using assms(1) unfolding tight_def by blast+
  note i = points_inside [OF sub assms(2)]
  have o: "rc_left r < rc_right r" "rc_top r < rc_bottom r" using assms(2) by (simp_all add: rect_ok_def)
  then have p: "rc_left ext < rc_right ext" "rc_top ext < rc_bottom ext" using i by order+
  have "rc_left r \<le> rc_left ext" "rc_right ext - 1 < rc_right r" "rc_top r \<le> rc_top ext" "rc_bottom ext - 1 < rc_bottom r"
    using e o unfolding points_def by simp_all
  then have "rc_left r \<le> rc_left ext" "rc_right ext \<le> rc_right r" "rc_top r \<le> rc_top ext" "rc_bottom ext \<le> rc_bottom r"
    using word_before(3) p by blast+
  with i show ?thesis by (cases ext; cases r) auto
qed

section \<open>Regions\<close>

definition region_ok :: "REGION16 \<Rightarrow> bool" where
  "region_ok R \<longleftrightarrow> (case rg_data R of None \<Rightarrow> False
     | Some data \<Rightarrow> banded (rd_rects data) \<and> (rd_rects data \<noteq> [] \<longrightarrow> tight (rg_extents R) (covered (rd_rects data))))"

definition region_points :: "REGION16 \<Rightarrow> (u16 \<times> u16) set" where
  "region_points R = (case rg_data R of None \<Rightarrow> {} | Some data \<Rightarrow> covered (rd_rects data))"

lemma simplify_bands_spec:
  assumes "rg_data R = Some data" "banded (rd_rects data)" "al \<noteq> None"
  shows "\<exists>R'. region16_simplify_bands al R = Ok () R' \<and> rg_extents R' = rg_extents R \<and> region_points R' = covered (rd_rects data) \<and>
    (\<exists>data'. rg_data R' = Some data' \<and> banded (rd_rects data'))"
  using assms simplify_loop_spec [of "[]" "rd_rects data"] by (auto simp: region16_simplify_bands_def Let_def region_points_def)

lemma covered_nonempty: "banded rs \<Longrightarrow> rs \<noteq> [] \<Longrightarrow> covered rs \<noteq> {}"
  by (cases rs) (auto simp: rect_ok_def points_def)

lemma simplified_region:
  assumes "rg_data R = Some data" "banded (rd_rects data)" "al \<noteq> None" "rd_rects data \<noteq> [] \<Longrightarrow> tight (rg_extents R) (covered (rd_rects data))"
  shows "\<exists>R'. region16_simplify_bands al R = Ok () R' \<and> region_ok R' \<and> region_points R' = covered (rd_rects data)"
proof -
  obtain R' data' where R': "region16_simplify_bands al R = Ok () R'" "rg_extents R' = rg_extents R" "region_points R' = covered (rd_rects data)"
    "rg_data R' = Some data'" "banded (rd_rects data')" using simplify_bands_spec [OF assms(1-3)] by blast
  have c: "covered (rd_rects data') = covered (rd_rects data)" using R'(3,4) by (simp add: region_points_def)
  have "rd_rects data \<noteq> []" if "rd_rects data' \<noteq> []" using covered_nonempty [OF R'(5) that] c by auto
  then have "region_ok R'" using R'(2,4,5) c assms(4) by (auto simp: region_ok_def)
  with R'(1,3) show ?thesis by blast
qed

lemma union_rects_spec:
  assumes b: "banded rs" "rs \<noteq> []" and t: "tight ext (covered rs)" and r: "rect_ok rect" and cap: "cap = (1 + length rs) * 4"
  shows "\<exists>d. Option.bind (union_above cap ext rect) (\<lambda>d. Option.bind (union_bands cap rect d rs) (\<lambda>d. union_below cap ext rect d)) = Some d \<and>
    banded d \<and> covered d = covered rs \<union> points rect"
proof -
  define t0 where "t0 = rc_top (hd rs)"
  define b0 where "b0 = rc_bottom (last rs)"
  have e: "rc_top ext = t0" "rc_bottom ext = b0" using tight_heights [OF b t] by (simp_all add: t0_def b0_def)
  have lt: "t0 < b0" using b banded_last [OF b(1), of "hd rs"] unfolding t0_def b0_def by (cases rs) (auto simp: rect_ok_def)
  define A where "A = (if rc_top rect < t0 then [rect\<lparr>rc_bottom := min t0 (rc_bottom rect)\<rparr>] else [])"
  define B where "B = (if b0 < rc_bottom rect then [rect\<lparr>rc_top := max b0 (rc_top rect)\<rparr>] else [])"
  have A: "union_above cap ext rect = Some A" "banded A" "between 0 t0 A" "covered A = strip rect 0 t0" "length A \<le> 1"
    using r cap by (auto simp: union_above_def A_def e put_rect_def rect_ok_def between_def strip_def points_def min_def)
  have "length A + 4 * length rs \<le> cap" using A(5) cap by simp
  from union_bands_spec [OF b r this] obtain E where E: "union_bands cap rect A rs = Some (A @ E)" "banded E" "between t0 b0 E"
      "covered E = covered rs \<union> strip rect t0 b0" "length E \<le> 4 * length rs" unfolding t0_def b0_def by blast
  have B: "union_below cap ext rect (A @ E) = Some ((A @ E) @ B)" "banded B" "between b0 (- 1) B" "covered B = points rect \<inter> UNIV \<times> {b0..}"
    using r cap A(5) E(5) by (auto simp: union_below_def B_def e put_rect_def rect_ok_def between_def points_def max_def)
  have AE: "banded (A @ E)" "between 0 b0 (A @ E)" using banded_append [OF A(2) E(2) A(3) E(3)] A(3) E(3) lt by (auto intro: between_wider)
  have "banded ((A @ E) @ B)" by (rule banded_append [OF AE(1) B(2) AE(2) B(3)])
  moreover have "covered ((A @ E) @ B) = covered rs \<union> points rect"
  proof -
    have "strip rect 0 t0 \<union> strip rect t0 b0 \<union> points rect \<inter> UNIV \<times> {b0..} = points rect" using lt by (auto simp: strip_def)
    then show ?thesis unfolding covered_simps(3) A(4) E(4) B(4) by blast
  qed
  ultimately show ?thesis using A(1) E(1) B(1) by auto
qed

lemma union_rect_spec:
  assumes s: "region_ok src" and r: "rect_ok rect" and al: "al1 \<noteq> None" "al2 \<noteq> None" "al3 \<noteq> None"
    and n: "\<And>data. rg_data src = Some data \<Longrightarrow> length (rd_rects data) + 1 < 2 ^ 29"
  shows "\<exists>R. region16_union_rect al1 al2 al3 dst src rect = Ok () R \<and> region_ok R \<and> region_points R = region_points src \<union> points rect"
proof -
  obtain data where d: "rg_data src = Some data" "banded (rd_rects data)" "rd_rects data \<noteq> [] \<Longrightarrow> tight (rg_extents src) (covered (rd_rects data))"
    using s by (auto simp: region_ok_def split: option.split_asm)
  show ?thesis
  proof (cases "rd_rects data = []")
    case True
    then show ?thesis using d(1) al(1) r tight_rect [OF r] by (auto simp: region16_union_rect_def Let_def region_ok_def region_points_def)
  next
    case False
    define cap where "cap = (1 + length (rd_rects data)) * 4"
    obtain rs where rs: "Option.bind (union_above cap (rg_extents src) rect) (\<lambda>d. Option.bind (union_bands cap rect d (rd_rects data)) (\<lambda>d. union_below cap (rg_extents src) rect d)) = Some rs"
        "banded rs" "covered rs = covered (rd_rects data) \<union> points rect"
      using union_rects_spec [OF d(2) False d(3) [OF False] r cap_def] by blast
    define R where "R = dst\<lparr>rg_extents := union_extents rect (rg_extents src), rg_data := Some \<lparr>rd_size = region_bytes (length rs), rd_rects = rs\<rparr>\<rparr>"
    have "tight (union_extents rect (rg_extents src)) (points rect \<union> covered (rd_rects data))" by (rule tight_union [OF tight_rect [OF r] d(3) [OF False]])
    then have "\<exists>R'. region16_simplify_bands al3 R = Ok () R' \<and> region_ok R' \<and> region_points R' = covered rs"
      using simplified_region [of R "\<lparr>rd_size = region_bytes (length rs), rd_rects = rs\<rparr>" al3] rs(2,3) al(3) by (simp add: R_def Un_commute)
    moreover have "region16_union_rect al1 al2 al3 dst src rect = region16_simplify_bands al3 R"
      using d(1) False n [OF d(1)] al rs(1) unfolding region16_union_rect_def Let_def R_def cap_def by auto
    ultimately show ?thesis using d(1) rs(3) by (simp add: region_points_def)
  qed
qed

lemma intersection_points: "rectangles_intersects r s \<longleftrightarrow> points r \<inter> points s \<noteq> {}"
  "points (snd (rectangles_intersection r s)) = points r \<inter> points s"
proof -
  show p: "points (snd (rectangles_intersection r s)) = points r \<inter> points s" by (auto simp: rectangles_intersection_def Let_def points_def)
  have "rectangles_intersects r s \<longleftrightarrow> rect_ok (snd (rectangles_intersection r s))" by (simp add: rectangles_intersects_def rectangles_intersection_def rect_ok_def Let_def)
  also have "\<dots> \<longleftrightarrow> points (snd (rectangles_intersection r s)) \<noteq> {}" by (auto simp: points_def rect_ok_def)
  finally show "rectangles_intersects r s \<longleftrightarrow> points r \<inter> points s \<noteq> {}" unfolding p .
qed

lemma intersection_ok: "rectangles_intersection r s = (True, c) \<Longrightarrow> rect_ok c"
  by (auto simp: rectangles_intersection_def rect_ok_def Let_def)

text \<open>The rectangles that \<^verbatim>\<open>region16_intersect_rect\<close> collects, and the rectangle around them.\<close>

definition commons :: "RECTANGLE_16 \<Rightarrow> RECTANGLE_16 list \<Rightarrow> RECTANGLE_16 list" where
  "commons rect src = map (\<lambda>r. snd (rectangles_intersection r rect)) (filter (\<lambda>r. rectangles_intersects r rect) src)"

definition widen :: "RECTANGLE_16 \<Rightarrow> RECTANGLE_16 \<Rightarrow> RECTANGLE_16" where
  "widen e c = (if rectangle_is_empty e then c else union_extents c e)"

lemma behind_rect: "banded (r # src) \<Longrightarrow> \<not> rc_top r < rc_bottom rect \<Longrightarrow> s \<in> set (r # src) \<Longrightarrow> \<not> rectangles_intersects s rect"
  using follows_top [of r s] by (auto simp: rectangles_intersects_def rectangles_intersection_def Let_def)

lemma intersect_rects_commons:
  "banded src \<Longrightarrow> intersect_rects rect src (d, e) = (d @ commons rect src, foldl widen e (commons rect src))"
proof (induction src arbitrary: d e)
  case (Cons r src)
  show ?case
  proof (cases "rc_top r < rc_bottom rect")
    case True
    with Cons show ?thesis
      by (cases "rectangles_intersection r rect") (auto simp: commons_def rectangles_intersects_def widen_def split: bool.split)
  next
    case False
    then have "commons rect (r # src) = []" using behind_rect [OF Cons.prems False] by (auto simp: commons_def filter_empty_conv simp del: filter.simps)
    with False show ?thesis by simp
  qed
qed (simp add: commons_def)

lemma commons_points: "covered (commons rect src) = covered src \<inter> points rect"
  unfolding commons_def covered_def using intersection_points(1) by (fastforce simp: intersection_points(2))

lemma follows_intersection: "follows r s \<Longrightarrow> follows (snd (rectangles_intersection r rect)) (snd (rectangles_intersection s rect))"
  by (auto simp: follows_def rectangles_intersection_def Let_def min_le_iff_disj le_max_iff_disj)

lemma commons_banded: "banded src \<Longrightarrow> banded (commons rect src)"
proof (induction src)
  case (Cons r src)
  have ok: "rect_ok (snd (rectangles_intersection r rect))" if "rectangles_intersects r rect"
    using that intersection_ok [of r rect] by (cases "rectangles_intersection r rect") (simp add: rectangles_intersects_def)
  have "commons rect (r # src) = (if rectangles_intersects r rect then [snd (rectangles_intersection r rect)] else []) @ commons rect src"
    by (simp add: commons_def)
  moreover have "follows (snd (rectangles_intersection r rect)) c" if "c \<in> set (commons rect src)" for c
    using that Cons.prems follows_intersection by (auto simp: commons_def)
  ultimately show ?case using Cons ok by auto
qed (simp add: commons_def)

lemma widen_tight: "\<forall>c \<in> set cs. rect_ok c \<Longrightarrow> tight e A \<Longrightarrow> tight (foldl widen e cs) (A \<union> covered cs)"
proof (induction cs arbitrary: e A)
  case (Cons c cs)
  have "tight (widen e c) (points c \<union> A)" using tight_union [OF tight_rect Cons.prems(2), of c] tight_not_empty [OF Cons.prems(2)] Cons.prems(1) by (simp add: widen_def)
  from Cons.IH [OF _ this] Cons.prems(1) show ?case by (simp add: Un_ac)
qed simp

lemma commons_extents:
  assumes "banded cs" "cs \<noteq> []"
  shows "tight (foldl widen zero_rect cs) (covered cs)"
proof (cases cs)
  case (Cons c cs')
  have "widen zero_rect c = c" by (simp add: widen_def zero_rect_def rectangle_is_empty_def)
  moreover have "rect_ok c" "\<forall>x \<in> set cs'. rect_ok x" using assms(1) Cons by (auto simp: banded_def)
  ultimately show ?thesis using widen_tight [of cs' c "points c"] tight_rect [of c] by (simp add: Cons)
qed (use assms(2) in simp)

lemma intersect_rect_spec:
  assumes s: "region_ok src" and d: "rg_data dst \<noteq> None" and al: "al1 \<noteq> None" "al2 \<noteq> None" "al3 \<noteq> None"
  shows "\<exists>R. region16_intersect_rect al1 al2 al3 dst src rect = Ok () R \<and> region_ok R \<and> region_points R = region_points src \<inter> points rect"
proof -
  obtain data where data: "rg_data src = Some data" "banded (rd_rects data)" "rd_rects data \<noteq> [] \<Longrightarrow> tight (rg_extents src) (covered (rd_rects data))"
    using s by (auto simp: region_ok_def split: option.split_asm)
  define D where "D = dst\<lparr>rg_data := Some empty_region, rg_extents := zero_rect\<rparr>"
  have clear: "region16_clear dst = Ok () D" using d by (simp add: region16_clear_def D_def)
  have D: "region_ok D" "region_points D = {}" by (simp_all add: D_def region_ok_def region_points_def empty_region_def)
  consider "rd_rects data = []" | r where "rd_rects data = [r]" | "rd_rects data \<noteq> []" "length (rd_rects data) \<noteq> 1" by (cases "rd_rects data"; cases "tl (rd_rects data)") auto
  then show ?thesis
  proof cases
    case 1
    then show ?thesis using data(1) clear D by (simp add: region16_intersect_rect_def region_points_def)
  next
    case (2 r)
    then have r: "rect_ok r" "rg_extents src = r" using data(2,3) tight_single by auto
    have pts: "region_points src = points r" using data(1) 2 by (simp add: region_points_def)
    obtain b c where c: "rectangles_intersection r rect = (b, c)" by force
    have cp: "points c = points r \<inter> points rect" "b \<longleftrightarrow> points r \<inter> points rect \<noteq> {}" using intersection_points [of r rect] c by (simp_all add: rectangles_intersects_def)
    show ?thesis
    proof (cases b)
      case True
      have "rect_ok c" using intersection_ok [of r rect c] c True by simp
      moreover have "\<And>data. rg_data D = Some data \<Longrightarrow> length (rd_rects data) + 1 < 2 ^ 29" by (auto simp: D_def empty_region_def)
      ultimately obtain R where "region16_union_rect al1 al2 al3 D D c = Ok () R" "region_ok R" "region_points R = region_points D \<union> points c"
        using union_rect_spec [OF D(1) _ al, of c D] by blast
      then show ?thesis using True c cp(1) clear D(2) data(1) 2 r(2) pts by (simp add: region16_intersect_rect_def)
    next
      case False
      then show ?thesis using c cp(2) clear D data(1) 2 r(2) pts by (simp add: region16_intersect_rect_def)
    qed
  next
    case 3
    let ?cs = "commons rect (rd_rects data)"
    define R where "R = dst\<lparr>rg_data := Some \<lparr>rd_size = region_bytes (length ?cs), rd_rects = ?cs\<rparr>, rg_extents := foldl widen zero_rect ?cs\<rparr>"
    note cb = commons_banded [OF data(2), of rect]
    have "\<exists>R'. region16_simplify_bands al3 R = Ok () R' \<and> region_ok R' \<and> region_points R' = covered ?cs"
      using simplified_region [of R "\<lparr>rd_size = region_bytes (length ?cs), rd_rects = ?cs\<rparr>" al3] cb commons_extents [OF cb] al(3) by (simp add: R_def)
    moreover have "region16_intersect_rect al1 al2 al3 dst src rect = region16_simplify_bands al3 R"
      using data(1) 3 al d intersect_rects_commons [OF data(2), of rect "[]" zero_rect] by (auto simp: region16_intersect_rect_def R_def)
    ultimately show ?thesis using data(1) commons_points [of rect "rd_rects data"] by (simp add: region_points_def)
  qed
qed

lemma any_intersects_points: "banded rs \<Longrightarrow> any_intersects rect rs \<longleftrightarrow> covered rs \<inter> points rect \<noteq> {}"
proof (induction rs)
  case (Cons r rs)
  show ?case
  proof (cases "rc_top r < rc_bottom rect")
    case True
    with Cons intersection_points(1) [of r rect] show ?thesis by auto
  next
    case False
    have "points s \<inter> points rect = {}" if "s \<in> set (r # rs)" for s using behind_rect [OF Cons.prems False that] intersection_points(1) by blast
    then have "covered (r # rs) \<inter> points rect = {}" unfolding covered_def by blast
    with False show ?thesis by simp
  qed
qed simp

lemma banded_disjoint: "banded rs \<Longrightarrow> sorted_wrt (\<lambda>r s. points r \<inter> points s = {}) rs"
proof -
  assume "banded rs"
  moreover have "points r \<inter> points s = {}" if "follows r s" for r s using that by (auto simp: follows_def points_def)
  ultimately show ?thesis unfolding banded_def by (blast intro: sorted_wrt_mono_rel [of rs follows])
qed

lemma tight_bounds: "tight e A \<Longrightarrow> A \<inter> B \<noteq> {} \<Longrightarrow> points e \<inter> B \<noteq> {}"
  by (auto simp: tight_def)

section \<open>Properties of regions\<close>





text \<open>
  C4. The test for an intersection answers whether a point of the region lies in the rectangle, although it looks at the extents first and
  leaves the array at the first rectangle below.
\<close>

theorem region16_intersects_exact:
  assumes "region_ok src"
  shows "region16_intersects_rect src rect \<longleftrightarrow> region_points src \<inter> points rect \<noteq> {}"
proof -
  obtain data where data: "rg_data src = Some data" "banded (rd_rects data)" "rd_rects data \<noteq> [] \<Longrightarrow> tight (rg_extents src) (covered (rd_rects data))"
    using assms by (auto simp: region_ok_def split: option.split_asm)
  have one: "rd_rects data = [rg_extents src]" if "length (rd_rects data) = 1"
    using that data(2,3) tight_single by (cases "rd_rects data") auto
  show ?thesis
    using data tight_bounds [OF data(3), of "points rect"] any_intersects_points [OF data(2), of rect] one
    by (cases "length (rd_rects data) = 1") (auto simp: region16_intersects_rect_def region_points_def Let_def intersection_points(1))
qed

theorem region16_intersects_exact_witness:
  "\<not> region16_intersects_rect region16_init zero_rect"
  using region16_intersects_exact [of region16_init zero_rect]
  by (simp add: region_ok_def region_points_def region16_init_def empty_region_def)


lemma simplify_any:
  assumes d: "rg_data R = Some data" "banded (rd_rects data)" and t: "rd_rects data \<noteq> [] \<Longrightarrow> tight (rg_extents R) (covered (rd_rects data))"
  shows "wp (region16_simplify_bands al R) (\<lambda>_ R'. region_ok R') region_ok"
proof (cases "al = None")
  case True
  let ?rs = "simplify_loop [] (rd_rects data)"
  have rs: "banded ?rs" "covered ?rs = covered (rd_rects data)" using simplify_loop_spec [of "[]" "rd_rects data"] d(2) by simp_all
  have "rd_rects data \<noteq> []" if "?rs \<noteq> []" using covered_nonempty [OF rs(1) that] rs(2) by auto
  then show ?thesis using True d t rs by (auto simp: region16_simplify_bands_def region_ok_def empty_region_def Let_def)
next
  case False
  then show ?thesis using simplified_region [OF d False t] by auto
qed

lemma union_rect_any:
  assumes s: "region_ok src" "region_ok dst" and r: "rect_ok rect" and n: "\<And>data. rg_data src = Some data \<Longrightarrow> length (rd_rects data) + 1 < 2 ^ 29"
  shows "wp (region16_union_rect al1 al2 al3 dst src rect) (\<lambda>_ R. region_ok R) (\<lambda>R. region_ok R \<or> rg_data R = None)"
proof -
  obtain data where d: "rg_data src = Some data" "banded (rd_rects data)" "rd_rects data \<noteq> [] \<Longrightarrow> tight (rg_extents src) (covered (rd_rects data))"
    using s by (auto simp: region_ok_def split: option.split_asm)
  show ?thesis
  proof (cases "rd_rects data = []")
    case True
    then show ?thesis using d(1) r tight_rect [OF r] by (simp add: region16_union_rect_def region_ok_def Let_def)
  next
    case False
    obtain rs where rs: "Option.bind (union_above ((1 + length (rd_rects data)) * 4) (rg_extents src) rect) (\<lambda>d. Option.bind (union_bands ((1 + length (rd_rects data)) * 4) rect d (rd_rects data))
          (\<lambda>d. union_below ((1 + length (rd_rects data)) * 4) (rg_extents src) rect d)) = Some rs"
        "banded rs" "covered rs = covered (rd_rects data) \<union> points rect"
      using union_rects_spec [OF d(2) False d(3) [OF False] r refl] by blast
    define R where "R = dst\<lparr>rg_extents := union_extents rect (rg_extents src), rg_data := Some \<lparr>rd_size = region_bytes (length rs), rd_rects = rs\<rparr>\<rparr>"
    have "tight (union_extents rect (rg_extents src)) (covered rs)" using tight_union [OF tight_rect [OF r] d(3) [OF False]] rs(3) by (simp add: Un_commute)
    then have "wp (region16_simplify_bands al3 R) (\<lambda>_ R'. region_ok R') region_ok" 
      using rs(2) by (intro simplify_any [where data = "\<lparr>rd_size = region_bytes (length rs), rd_rects = rs\<rparr>"]) (simp_all add: R_def)
    then have "wp (region16_simplify_bands al3 R) (\<lambda>_ R'. region_ok R') (\<lambda>R. region_ok R \<or> rg_data R = None)" by (rule wp_mono) simp_all
    then show ?thesis using d(1) False n [OF d(1)] rs(1) s(2) unfolding region16_union_rect_def Let_def R_def by auto
  qed
qed

lemma clear_ok: "region_ok R \<Longrightarrow> \<exists>R'. region16_clear R = Ok () R' \<and> region_ok R' \<and> rg_data R' = Some empty_region"
  by (auto simp: region_ok_def region16_clear_def empty_region_def split: option.split_asm)

lemma intersect_rect_any:
  assumes s: "region_ok src" "region_ok dst"
  shows "wp (region16_intersect_rect al1 al2 al3 dst src rect) (\<lambda>_ R. region_ok R) (\<lambda>R. region_ok R \<or> rg_data R = None)"
proof -
  obtain data where d: "rg_data src = Some data" "banded (rd_rects data)" using s by (auto simp: region_ok_def split: option.split_asm)
  obtain D where D: "region16_clear dst = Ok () D" "region_ok D" "rg_data D = Some empty_region" using clear_ok [OF s(2)] by blast
  have dst: "rg_data dst \<noteq> None" using s(2) by (auto simp: region_ok_def split: option.split_asm)
  obtain b c where c: "rectangles_intersection (rg_extents src) rect = (b, c)" by force
  let ?cs = "commons rect (rd_rects data)"
  define R where "R = dst\<lparr>rg_data := Some \<lparr>rd_size = region_bytes (length ?cs), rd_rects = ?cs\<rparr>, rg_extents := foldl widen zero_rect ?cs\<rparr>"
  note cb = commons_banded [OF d(2), of rect]
  have "wp (region16_simplify_bands al3 R) (\<lambda>_ R'. region_ok R') region_ok" 
    using cb commons_extents [OF cb] by (intro simplify_any [where data = "\<lparr>rd_size = region_bytes (length ?cs), rd_rects = ?cs\<rparr>"]) (simp_all add: R_def)
  then have many: "wp (region16_simplify_bands al3 R) (\<lambda>_ R'. region_ok R') (\<lambda>R. region_ok R \<or> rg_data R = None)" by (rule wp_mono) simp_all
  have one: "wp (region16_union_rect al1 al2 al3 D D c) (\<lambda>_ R. region_ok R) (\<lambda>R. region_ok R \<or> rg_data R = None)" if b
    using that D(2,3) intersection_ok [of "rg_extents src" rect c] c by (intro union_rect_any) (auto simp: empty_region_def)
  show ?thesis
    using d(1) D one many c s(2) dst intersect_rects_commons [OF d(2), of rect "[]" zero_rect]
    by (auto simp: region16_intersect_rect_def Let_def R_def split: bool.split)
qed



end
