(* ===== verification/Core_Nego.thy ===== *)
theory Core_Nego
  imports Core_Tpkt Core_Session Core_Settings
begin

text \<open>
  The negotiation of the security protocol, \<^verbatim>\<open>libfreerdp/core/nego.c\<close>, and the server's answer to it,
  \<open>rdp_server_accept_nego\<close> of \<^verbatim>\<open>libfreerdp/core/connection.c\<close>. A client tries the protocols it has enabled
  from the strongest to the weakest, one connection attempt each, until the server confirms one.

  The transport below is a parameter: an \<open>env\<close> holds its calls as functions on a state of any type,
  so that a theorem that makes no assumption on it holds for every network and every peer. The
  allocator answers the \<open>Stream_New\<close> calls through the same state. Strings are lists of bytes without
  their terminator, \<open>None\<close> is a null pointer. \<open>EnabledProtocols\<close> is only indexed by the protocol constants.
\<close>

section \<open>Constants and state\<close>

abbreviation PROTOCOL_RDP :: u32 where "PROTOCOL_RDP \<equiv> 0"
abbreviation PROTOCOL_SSL :: u32 where "PROTOCOL_SSL \<equiv> 1"
abbreviation PROTOCOL_HYBRID :: u32 where "PROTOCOL_HYBRID \<equiv> 2"
abbreviation PROTOCOL_HYBRID_EX :: u32 where "PROTOCOL_HYBRID_EX \<equiv> 8"
abbreviation PROTOCOL_FAILED_NEGO :: u32 where "PROTOCOL_FAILED_NEGO \<equiv> 0x80000000"

abbreviation SSL_REQUIRED_BY_SERVER :: u32 where "SSL_REQUIRED_BY_SERVER \<equiv> 1"
abbreviation SSL_NOT_ALLOWED_BY_SERVER :: u32 where "SSL_NOT_ALLOWED_BY_SERVER \<equiv> 2"
abbreviation SSL_CERT_NOT_ON_SERVER :: u32 where "SSL_CERT_NOT_ON_SERVER \<equiv> 3"
abbreviation HYBRID_REQUIRED_BY_SERVER :: u32 where "HYBRID_REQUIRED_BY_SERVER \<equiv> 5"

abbreviation TYPE_RDP_NEG_REQ :: u8 where "TYPE_RDP_NEG_REQ \<equiv> 1"
abbreviation TYPE_RDP_NEG_RSP :: u8 where "TYPE_RDP_NEG_RSP \<equiv> 2"
abbreviation TYPE_RDP_NEG_FAILURE :: u8 where "TYPE_RDP_NEG_FAILURE \<equiv> 3"

abbreviation TPDU_CONNECTION_REQUEST_LENGTH :: nat where "TPDU_CONNECTION_REQUEST_LENGTH \<equiv> 11"
abbreviation TPDU_CONNECTION_CONFIRM_LENGTH :: nat where "TPDU_CONNECTION_CONFIRM_LENGTH \<equiv> 11"

abbreviation ENCRYPTION_LEVEL_NONE :: u32 where "ENCRYPTION_LEVEL_NONE \<equiv> 0"
abbreviation ENCRYPTION_LEVEL_CLIENT_COMPATIBLE :: u32 where "ENCRYPTION_LEVEL_CLIENT_COMPATIBLE \<equiv> 2"

datatype NEGO_STATE = NEGO_STATE_INITIAL | NEGO_STATE_EXT | NEGO_STATE_NLA | NEGO_STATE_TLS
  | NEGO_STATE_RDP | NEGO_STATE_FAIL | NEGO_STATE_FINAL

record 't rdpNego =
  n_port :: u16
  n_flags :: u32
  n_hostname :: "u8 list option"
  n_cookie :: "u8 list option"
  n_RoutingToken :: "u8 list option"
  n_RoutingTokenLength :: u32
  n_SendPreconnectionPdu :: bool
  n_PreconnectionId :: u32
  n_PreconnectionBlob :: "u8 list option"
  n_state :: NEGO_STATE
  n_TcpConnected :: bool
  n_SecurityConnected :: bool
  n_CookieMaxLength :: u32
  n_sendNegoData :: bool
  n_SelectedProtocol :: u32
  n_RequestedProtocols :: u32
  n_NegotiateSecurityLayer :: bool
  n_EnabledProtocols :: "u32 \<Rightarrow> bool"
  n_RestrictedAdminModeRequired :: bool
  n_GatewayEnabled :: bool
  n_GatewayBypassLocal :: bool
  n_settings :: rdpSettings
  n_transport :: 't

text \<open>
  The calls into the transport, the allocator and the character conversion. \<open>e_ConvertToUnicode\<close> gives
  the length in code units and the bytes of the block it allocated, if it did.
\<close>

record 't env =
  e_stream :: "'t \<Rightarrow> stream_oracle \<times> 't"
  e_connect :: "u8 list option \<Rightarrow> u16 \<Rightarrow> u32 \<Rightarrow> 't \<Rightarrow> bool \<times> 't"
  e_set_gateway_enabled :: "bool \<Rightarrow> 't \<Rightarrow> 't"
  e_connect_rdp :: "'t \<Rightarrow> bool \<times> 't"
  e_connect_tls :: "'t \<Rightarrow> bool \<times> 't"
  e_connect_nla :: "'t \<Rightarrow> bool \<times> 't"
  e_disconnect :: "'t \<Rightarrow> 't"
  e_write :: "u8 list \<Rightarrow> 't \<Rightarrow> int \<times> 't"
  e_read_pdu :: "wStream \<Rightarrow> 't \<Rightarrow> int \<times> wStream \<times> 't"
  e_ConvertToUnicode :: "u8 list \<Rightarrow> int \<times> u8 list option"
  e_accept_rdp :: "'t \<Rightarrow> bool \<times> 't"
  e_accept_tls :: "'t \<Rightarrow> bool \<times> 't"
  e_accept_nla :: "'t \<Rightarrow> bool \<times> 't"
  e_set_blocking_mode :: "bool \<Rightarrow> 't \<Rightarrow> 't"

definition ask :: "('t \<Rightarrow> 'a \<times> 't) \<Rightarrow> 't rdpNego \<Rightarrow> 'a \<times> 't rdpNego" where
  "ask f nego = (let (a, t) = f (n_transport nego) in (a, nego\<lparr>n_transport := t\<rparr>))"

text \<open>\<open>Stream_New\<close> of a temporary stream, and \<open>transport_write\<close> of the bytes before its position.\<close>

definition nego_stream ::
  "'t env \<Rightarrow> nat \<Rightarrow> 't rdpNego \<Rightarrow> ('t rdpNego \<Rightarrow> wStream \<Rightarrow> ('b, 't rdpNego) res) \<Rightarrow> ('b, 't rdpNego) res" where
  "nego_stream env n nego f = (let (ora, nego) = ask (e_stream env) nego in with_stream ora n nego (f nego))"

definition nego_transmit :: "'t env \<Rightarrow> 't rdpNego \<Rightarrow> wStream \<Rightarrow> (unit, 't rdpNego) res" where
  "nego_transmit env nego s =
     (let (status, nego) = ask (e_write env (take (s_pointer s) (s_buffer s))) nego
      in if status < 0 then Fail nego else Ok () nego)"

section \<open>Connecting the layers\<close>

definition nego_security_connect :: "'t env \<Rightarrow> 't rdpNego \<Rightarrow> (unit, 't rdpNego) res" where
  "nego_security_connect env nego =
     (let nego =
        (if \<not> n_TcpConnected nego then nego\<lparr>n_SecurityConnected := False\<rparr>
         else if \<not> n_SecurityConnected nego then
           (if n_SelectedProtocol nego = PROTOCOL_HYBRID then
              (let (ok, nego) = ask (e_connect_nla env) nego in nego\<lparr>n_SecurityConnected := ok\<rparr>)
            else if n_SelectedProtocol nego = PROTOCOL_SSL then
              (let (ok, nego) = ask (e_connect_tls env) nego in nego\<lparr>n_SecurityConnected := ok\<rparr>)
            else if n_SelectedProtocol nego = PROTOCOL_RDP then
              (let (ok, nego) = ask (e_connect_rdp env) nego in nego\<lparr>n_SecurityConnected := ok\<rparr>)
            else nego)
         else nego)
      in if n_SecurityConnected nego then Ok () nego else Fail nego)"

definition transport_attempt :: "'t env \<Rightarrow> 't rdpNego \<Rightarrow> 't rdpNego" where
  "transport_attempt env nego =
     (let (ok, nego) = ask (e_connect env (n_hostname nego) (n_port nego)
        (TcpConnectTimeout (n_settings nego))) nego
      in nego\<lparr>n_TcpConnected := ok\<rparr>)"

definition set_gateway :: "'t env \<Rightarrow> bool \<Rightarrow> 't rdpNego \<Rightarrow> 't rdpNego" where
  "set_gateway env b nego = nego\<lparr>n_transport := e_set_gateway_enabled env b (n_transport nego)\<rparr>"

definition nego_tcp_connect :: "'t env \<Rightarrow> 't rdpNego \<Rightarrow> (unit, 't rdpNego) res" where
  "nego_tcp_connect env nego =
     (let nego =
        (if \<not> n_TcpConnected nego then
           (if n_GatewayEnabled nego then
              (let nego = (if n_GatewayBypassLocal nego then transport_attempt env (set_gateway env False nego)
                           else nego)
               in if \<not> n_TcpConnected nego then transport_attempt env (set_gateway env True nego) else nego)
            else transport_attempt env nego)
         else nego)
      in if n_TcpConnected nego then Ok () nego else Fail nego)"

definition nego_transport_connect :: "'t env \<Rightarrow> 't rdpNego \<Rightarrow> (unit, 't rdpNego) res" where
  "nego_transport_connect env nego =
     and_then (nego_tcp_connect env nego) (\<lambda>_ nego.
       if n_TcpConnected nego \<and> \<not> n_NegotiateSecurityLayer nego then nego_security_connect env nego
       else if n_TcpConnected nego then Ok () nego else Fail nego)"

definition nego_transport_disconnect :: "'t env \<Rightarrow> 't rdpNego \<Rightarrow> 't rdpNego" where
  "nego_transport_disconnect env nego =
     (let nego = (if n_TcpConnected nego then nego\<lparr>n_transport := e_disconnect env (n_transport nego)\<rparr> else nego)
      in nego\<lparr>n_TcpConnected := False, n_SecurityConnected := False\<rparr>)"

definition nego_disconnect :: "'t env \<Rightarrow> 't rdpNego \<Rightarrow> 't rdpNego" where
  "nego_disconnect env nego = nego_transport_disconnect env (nego\<lparr>n_state := NEGO_STATE_INITIAL\<rparr>)"

text \<open>
  \<open>cchPCB\<close> is a \<open>UINT16\<close>, \<open>cbSize\<close> a \<open>UINT32\<close>. The products are computed in \<open>int\<close>.
\<close>

definition nego_send_preconnection_pdu :: "'t env \<Rightarrow> 't rdpNego \<Rightarrow> (unit, 't rdpNego) res" where
  "nego_send_preconnection_pdu env nego =
     and_then (nego_tcp_connect env nego) (\<lambda>_ nego.
       let (cchPCB :: u16, wszPCB) =
             (case n_PreconnectionBlob nego of None \<Rightarrow> (0, None)
              | Some blob \<Rightarrow> let (n, w) = e_ConvertToUnicode env blob in (word_of_int n + 1, w));
           cbSize :: u32 = (if n_PreconnectionBlob nego = None then 18 else 18 + ucast cchPCB * 2)
       in nego_stream env (unat cbSize) nego (\<lambda>nego s.
          then_free
            (and_then (Stream_Write_UINT32 s cbSize) (\<lambda>_ s.
             and_then (Stream_Write_UINT32 s 0) (\<lambda>_ s.
             and_then (Stream_Write_UINT32 s 2) (\<lambda>_ s.
             and_then (Stream_Write_UINT32 s (n_PreconnectionId nego)) (\<lambda>_ s.
             and_then (Stream_Write_UINT16 s cchPCB) (\<lambda>_ s.
             case wszPCB of None \<Rightarrow> Ok () s | Some w \<Rightarrow> Stream_Write s w (unat cchPCB * 2)))))))
            nego
            (\<lambda>s. nego_transmit env nego (Stream_SealLength s))))"

section \<open>Messages\<close>

definition cookie_prefix :: "u8 list" where
  "cookie_prefix = map (of_nat \<circ> of_char) ''Cookie: mstshash=''"

definition token_terminated :: "u8 list \<Rightarrow> u32 \<Rightarrow> bool" where
  "token_terminated token len \<longleftrightarrow>
     len > 2 \<and> token ! (unat len - 2) = 0x0D \<and> token ! (unat len - 1) = 0x0A"

text \<open>
  The routing token or cookie of a connection request; the value is the number of bytes it adds.
  A token shorter than its length field would be read past its end.
\<close>

definition write_token_or_cookie :: "'t rdpNego \<Rightarrow> wStream \<Rightarrow> (nat, wStream) res" where
  "write_token_or_cookie nego s =
     (case n_RoutingToken nego of
        Some token \<Rightarrow>
          let len = n_RoutingTokenLength nego
          in and_then (Stream_Write s token (unat len)) (\<lambda>_ s.
             if token_terminated token len then Ok (unat len) s
             else and_then (Stream_Write_UINT8 s 0x0D) (\<lambda>_ s.
                  and_then (Stream_Write_UINT8 s 0x0A) (\<lambda>_ s.
                  Ok (unat (len + 2)) s)))
      | None \<Rightarrow>
          (case n_cookie nego of
             None \<Rightarrow> Ok 0 s
           | Some cookie \<Rightarrow>
               let cookie_length = (if length cookie > unat (n_CookieMaxLength nego)
                                    then unat (n_CookieMaxLength nego) else length cookie)
               in and_then (Stream_Write s cookie_prefix 17) (\<lambda>_ s.
                  and_then (Stream_Write s cookie cookie_length) (\<lambda>_ s.
                  and_then (Stream_Write_UINT8 s 0x0D) (\<lambda>_ s.
                  and_then (Stream_Write_UINT8 s 0x0A) (\<lambda>_ s.
                  Ok (cookie_length + 19) s))))))"

definition write_neg_data :: "wStream \<Rightarrow> u8 \<Rightarrow> u8 \<Rightarrow> u32 \<Rightarrow> (unit, wStream) res" where
  "write_neg_data s type flags data =
     and_then (Stream_Write_UINT8 s type) (\<lambda>_ s.
     and_then (Stream_Write_UINT8 s flags) (\<lambda>_ s.
     and_then (Stream_Write_UINT16 s 8) (\<lambda>_ s.
     Stream_Write_UINT32 s data)))"

definition write_request_data :: "'t rdpNego \<Rightarrow> wStream \<Rightarrow> (nat, wStream) res" where
  "write_request_data nego s =
     and_then (write_token_or_cookie nego s) (\<lambda>n s.
       if n_RequestedProtocols nego > PROTOCOL_RDP \<or> n_sendNegoData nego then
         and_then (write_neg_data s TYPE_RDP_NEG_REQ (if n_RestrictedAdminModeRequired nego then 1 else 0)
                     (n_RequestedProtocols nego)) (\<lambda>_ s.
         Ok (n + 8) s)
       else Ok n s)"

text \<open>The headers go in front of the data last, when the length is known.\<close>

definition send_request_pdu :: "'t env \<Rightarrow> 't rdpNego \<Rightarrow> nat \<Rightarrow> nat \<Rightarrow> wStream \<Rightarrow> (unit, 't rdpNego) res" where
  "send_request_pdu env nego bm len s =
     (if len > 0xFFFF then Fail nego
      else let em = Stream_GetPosition s
           in then_free
                (and_then (ignore_failure (tpkt_write_header (Stream_SetPosition s bm) (of_nat len)))
                  (\<lambda>_ s. tpdu_write_connection_request s (of_nat len - 5)))
                nego
                (\<lambda>s. nego_transmit env nego (Stream_SealLength (Stream_SetPosition s em))))"

definition nego_send_negotiation_request :: "'t env \<Rightarrow> 't rdpNego \<Rightarrow> (unit, 't rdpNego) res" where
  "nego_send_negotiation_request env nego =
     nego_stream env 512 nego (\<lambda>nego s.
       case write_request_data nego (Stream_Seek s TPDU_CONNECTION_REQUEST_LENGTH) of
         Fault \<Rightarrow> Fault
       | Fail _ \<Rightarrow> Fail nego
       | Ok n t \<Rightarrow> send_request_pdu env nego (Stream_GetPosition s) (TPDU_CONNECTION_REQUEST_LENGTH + n) t)"

definition nego_process_negotiation_request ::
  "'t rdpNego \<Rightarrow> wStream \<Rightarrow> (unit, 't rdpNego \<times> wStream) res" where
  "nego_process_negotiation_request nego s =
     (if Stream_GetRemainingLength s < 7 then Fail (nego, s)
      else and_then (on_stream nego (Stream_Read_UINT8 s)) (\<lambda>flags (nego, s).
           and_then (on_stream nego (Stream_Read_UINT16 s)) (\<lambda>len (nego, s).
           and_then (on_stream nego (Stream_Read_UINT32 s)) (\<lambda>requested (nego, s).
           Ok () (nego\<lparr>n_RequestedProtocols := requested, n_state := NEGO_STATE_FINAL\<rparr>, s)))))"

definition nego_process_negotiation_response ::
  "'t rdpNego \<Rightarrow> wStream \<Rightarrow> (unit, 't rdpNego \<times> wStream) res" where
  "nego_process_negotiation_response nego s =
     (if Stream_GetRemainingLength s < 7 then Fail (nego\<lparr>n_state := NEGO_STATE_FAIL\<rparr>, s)
      else and_then (on_stream nego (Stream_Read_UINT8 s)) (\<lambda>flags (nego, s).
           let nego = nego\<lparr>n_flags := ucast flags\<rparr> in
           and_then (on_stream nego (Stream_Read_UINT16 s)) (\<lambda>len (nego, s).
           and_then (on_stream nego (Stream_Read_UINT32 s)) (\<lambda>selected (nego, s).
           Ok () (nego\<lparr>n_SelectedProtocol := selected, n_state := NEGO_STATE_FINAL\<rparr>, s)))))"

text \<open>The switch over the failure codes: two of them make later requests carry negotiation data.\<close>

definition note_failure :: "u32 \<Rightarrow> 't rdpNego \<Rightarrow> 't rdpNego" where
  "note_failure failureCode nego =
     (if failureCode = SSL_NOT_ALLOWED_BY_SERVER \<or> failureCode = SSL_CERT_NOT_ON_SERVER
      then nego\<lparr>n_sendNegoData := True\<rparr> else nego)"

definition nego_process_negotiation_failure ::
  "'t rdpNego \<Rightarrow> wStream \<Rightarrow> (unit, 't rdpNego \<times> wStream) res" where
  "nego_process_negotiation_failure nego s =
     (if Stream_GetRemainingLength s < 7 then Fail (nego, s)
      else and_then (on_stream nego (Stream_Read_UINT8 s)) (\<lambda>flags (nego, s).
           and_then (on_stream nego (Stream_Read_UINT16 s)) (\<lambda>len (nego, s).
           and_then (on_stream nego (Stream_Read_UINT32 s)) (\<lambda>failureCode (nego, s).
           Ok () ((note_failure failureCode nego)\<lparr>n_state := NEGO_STATE_FAIL\<rparr>, s)))))"

text \<open>The verdict on a confirmed protocol: one that is not enabled fails the attempt.\<close>

definition nego_check_selected :: "'t rdpNego \<Rightarrow> 't rdpNego" where
  "nego_check_selected nego =
     (if n_SelectedProtocol nego \<noteq> 0 then
        (let nego = (if n_SelectedProtocol nego = PROTOCOL_HYBRID \<and> \<not> n_EnabledProtocols nego PROTOCOL_HYBRID
                     then nego\<lparr>n_state := NEGO_STATE_FAIL\<rparr> else nego)
         in if n_SelectedProtocol nego = PROTOCOL_SSL \<and> \<not> n_EnabledProtocols nego PROTOCOL_SSL
            then nego\<lparr>n_state := NEGO_STATE_FAIL\<rparr> else nego)
      else if \<not> n_EnabledProtocols nego PROTOCOL_RDP then nego\<lparr>n_state := NEGO_STATE_FAIL\<rparr>
      else nego)"

definition nego_recv_data :: "u8 \<Rightarrow> 't rdpNego \<Rightarrow> wStream \<Rightarrow> (unit, 't rdpNego \<times> wStream) res" where
  "nego_recv_data li nego s =
     (if li > 6 then
        and_then (on_stream nego (Stream_Read_UINT8 s)) (\<lambda>type (nego, s).
          if type = TYPE_RDP_NEG_RSP then
            and_then (nego_process_negotiation_response nego s) (\<lambda>_ (nego, s). Ok () (nego_check_selected nego, s))
          else if type = TYPE_RDP_NEG_FAILURE then nego_process_negotiation_failure nego s
          else Ok () (nego, s))
      else if li = 6 then
        Ok () (nego\<lparr>n_state := if \<not> n_EnabledProtocols nego PROTOCOL_RDP then NEGO_STATE_FAIL
                             else NEGO_STATE_FINAL\<rparr>, s)
      else Ok () (nego\<lparr>n_state := NEGO_STATE_FAIL\<rparr>, s))"

definition nego_recv :: "'t rdpNego \<Rightarrow> wStream \<Rightarrow> (unit, 't rdpNego \<times> wStream) res" where
  "nego_recv nego s =
     and_then (on_stream nego (tpkt_read_header s)) (\<lambda>len (nego, s).
     and_then (on_stream nego (tpdu_read_connection_confirm s len)) (\<lambda>li (nego, s).
     and_then (nego_recv_data li nego s) (\<lambda>_ (nego, s).
     if tpkt_ensure_stream_consumed s then Ok () (nego, s) else Fail (nego, s))))"

definition drop_stream :: "('a, 'm \<times> wStream) res \<Rightarrow> ('a, 'm) res" where
  "drop_stream r = (case r of Fault \<Rightarrow> Fault | Fail (m, _) \<Rightarrow> Fail m | Ok a (m, _) \<Rightarrow> Ok a m)"

definition nego_recv_response :: "'t env \<Rightarrow> 't rdpNego \<Rightarrow> (unit, 't rdpNego) res" where
  "nego_recv_response env nego =
     nego_stream env 1024 nego (\<lambda>nego s.
     let ((status, s), nego) = ask (\<lambda>t. let (status, s, t) = e_read_pdu env s t in ((status, s), t)) nego
     in if status < 0 then Fail nego else drop_stream (nego_recv nego s))"

section \<open>The attempts\<close>

text \<open>The part the four attempts share: connect, send the request, wait for the answer.\<close>

definition nego_exchange :: "'t env \<Rightarrow> 't rdpNego \<Rightarrow> (unit, 't rdpNego) res" where
  "nego_exchange env nego =
     and_then (nego_transport_connect env nego) (\<lambda>_ nego.
     and_then (nego_send_negotiation_request env nego) (\<lambda>_ nego.
     nego_recv_response env nego))"

definition nego_attempt_ext :: "'t env \<Rightarrow> 't rdpNego \<Rightarrow> (unit, 't rdpNego) res" where
  "nego_attempt_ext env nego =
     (case nego_exchange env
             (nego\<lparr>n_RequestedProtocols := PROTOCOL_HYBRID OR PROTOCOL_SSL OR PROTOCOL_HYBRID_EX\<rparr>) of
        Fault \<Rightarrow> Fault
      | Fail nego \<Rightarrow> Ok () (nego\<lparr>n_state := NEGO_STATE_FAIL\<rparr>)
      | Ok _ nego \<Rightarrow>
          Ok () (if n_state nego \<noteq> NEGO_STATE_FINAL then
                   (let nego = nego_transport_disconnect env nego
                    in nego\<lparr>n_state := if n_EnabledProtocols nego PROTOCOL_HYBRID then NEGO_STATE_NLA
                                      else if n_EnabledProtocols nego PROTOCOL_SSL then NEGO_STATE_TLS
                                      else if n_EnabledProtocols nego PROTOCOL_RDP then NEGO_STATE_RDP
                                      else NEGO_STATE_FAIL\<rparr>)
                 else nego))"

definition nego_attempt_nla :: "'t env \<Rightarrow> 't rdpNego \<Rightarrow> (unit, 't rdpNego) res" where
  "nego_attempt_nla env nego =
     (case nego_exchange env (nego\<lparr>n_RequestedProtocols := PROTOCOL_HYBRID OR PROTOCOL_SSL\<rparr>) of
        Fault \<Rightarrow> Fault
      | Fail nego \<Rightarrow> Ok () (nego\<lparr>n_state := NEGO_STATE_FAIL\<rparr>)
      | Ok _ nego \<Rightarrow>
          Ok () (if n_state nego \<noteq> NEGO_STATE_FINAL then
                   (let nego = nego_transport_disconnect env nego
                    in nego\<lparr>n_state := if n_EnabledProtocols nego PROTOCOL_SSL then NEGO_STATE_TLS
                                      else if n_EnabledProtocols nego PROTOCOL_RDP then NEGO_STATE_RDP
                                      else NEGO_STATE_FAIL\<rparr>)
                 else nego))"

definition nego_attempt_tls :: "'t env \<Rightarrow> 't rdpNego \<Rightarrow> (unit, 't rdpNego) res" where
  "nego_attempt_tls env nego =
     (case nego_exchange env (nego\<lparr>n_RequestedProtocols := PROTOCOL_SSL\<rparr>) of
        Fault \<Rightarrow> Fault
      | Fail nego \<Rightarrow> Ok () (nego\<lparr>n_state := NEGO_STATE_FAIL\<rparr>)
      | Ok _ nego \<Rightarrow>
          Ok () (if n_state nego \<noteq> NEGO_STATE_FINAL then
                   (let nego = nego_transport_disconnect env nego
                    in nego\<lparr>n_state := if n_EnabledProtocols nego PROTOCOL_RDP then NEGO_STATE_RDP
                                      else NEGO_STATE_FAIL\<rparr>)
                 else nego))"

definition nego_attempt_rdp :: "'t env \<Rightarrow> 't rdpNego \<Rightarrow> (unit, 't rdpNego) res" where
  "nego_attempt_rdp env nego =
     (case nego_exchange env (nego\<lparr>n_RequestedProtocols := PROTOCOL_RDP\<rparr>) of
        Fault \<Rightarrow> Fault
      | Fail nego \<Rightarrow> Ok () (nego\<lparr>n_state := NEGO_STATE_FAIL\<rparr>)
      | Ok _ nego \<Rightarrow> Ok () nego)"

definition nego_send :: "'t env \<Rightarrow> 't rdpNego \<Rightarrow> (unit, 't rdpNego) res" where
  "nego_send env nego =
     (case n_state nego of
        NEGO_STATE_EXT \<Rightarrow> nego_attempt_ext env nego
      | NEGO_STATE_NLA \<Rightarrow> nego_attempt_nla env nego
      | NEGO_STATE_TLS \<Rightarrow> nego_attempt_tls env nego
      | NEGO_STATE_RDP \<Rightarrow> nego_attempt_rdp env nego
      | _ \<Rightarrow> Ok () nego)"

section \<open>The client\<close>

definition nego_highest :: "'t rdpNego \<Rightarrow> NEGO_STATE" where
  "nego_highest nego =
     (if n_EnabledProtocols nego PROTOCOL_HYBRID_EX then NEGO_STATE_EXT
      else if n_EnabledProtocols nego PROTOCOL_HYBRID then NEGO_STATE_NLA
      else if n_EnabledProtocols nego PROTOCOL_SSL then NEGO_STATE_TLS
      else if n_EnabledProtocols nego PROTOCOL_RDP then NEGO_STATE_RDP
      else NEGO_STATE_FAIL)"

text \<open>Without negotiation only the strongest enabled protocol stays enabled, and is selected.\<close>

definition nego_pin_highest :: "'t rdpNego \<Rightarrow> 't rdpNego" where
  "nego_pin_highest nego =
     (let none = (n_EnabledProtocols nego)(PROTOCOL_HYBRID := False, PROTOCOL_SSL := False,
                    PROTOCOL_RDP := False, PROTOCOL_HYBRID_EX := False)
      in case n_state nego of
           NEGO_STATE_EXT \<Rightarrow>
             nego\<lparr>n_EnabledProtocols := none(PROTOCOL_HYBRID_EX := True, PROTOCOL_HYBRID := True),
                  n_SelectedProtocol := PROTOCOL_HYBRID_EX\<rparr>
         | NEGO_STATE_NLA \<Rightarrow>
             nego\<lparr>n_EnabledProtocols := none(PROTOCOL_HYBRID := True), n_SelectedProtocol := PROTOCOL_HYBRID\<rparr>
         | NEGO_STATE_TLS \<Rightarrow>
             nego\<lparr>n_EnabledProtocols := none(PROTOCOL_SSL := True), n_SelectedProtocol := PROTOCOL_SSL\<rparr>
         | NEGO_STATE_RDP \<Rightarrow>
             nego\<lparr>n_EnabledProtocols := none(PROTOCOL_RDP := True), n_SelectedProtocol := PROTOCOL_RDP\<rparr>
         | _ \<Rightarrow> nego\<lparr>n_EnabledProtocols := none\<rparr>)"

definition nego_start :: "'t env \<Rightarrow> 't rdpNego \<Rightarrow> (unit, 't rdpNego) res" where
  "nego_start env nego =
     (if n_state nego = NEGO_STATE_INITIAL then
        (let nego = nego\<lparr>n_state := nego_highest nego\<rparr>
         in if n_state nego = NEGO_STATE_FAIL then Fail nego
            else let nego = (if \<not> n_NegotiateSecurityLayer nego then nego_pin_highest nego else nego)
                 in if n_SendPreconnectionPdu nego then
                      (case nego_send_preconnection_pdu env nego of
                         Fault \<Rightarrow> Fault
                       | Fail nego \<Rightarrow> Fail (nego\<lparr>n_state := NEGO_STATE_FINAL\<rparr>)
                       | Ok _ nego \<Rightarrow> Ok () nego)
                    else Ok () nego)
      else Ok () nego)"

text \<open>The loop over the attempts; \<open>None\<close> is a loop that never ends.\<close>

partial_function (option) nego_loop :: "'t env \<Rightarrow> 't rdpNego \<Rightarrow> (unit, 't rdpNego) res option" where
  "nego_loop env nego =
     (case nego_send env nego of
        Fault \<Rightarrow> Some Fault
      | Fail nego \<Rightarrow> Some (Fail nego)
      | Ok _ nego \<Rightarrow>
          if n_state nego = NEGO_STATE_FAIL then Some (Fail (nego\<lparr>n_state := NEGO_STATE_FINAL\<rparr>))
          else if n_state nego \<noteq> NEGO_STATE_FINAL then nego_loop env nego
          else Some (Ok () nego))"

definition nego_update_settings :: "'t rdpNego \<Rightarrow> rdpSettings" where
  "nego_update_settings nego =
     (let settings = (n_settings nego)\<lparr>RequestedProtocols := n_RequestedProtocols nego,
            SelectedProtocol := n_SelectedProtocol nego, NegotiationFlags := n_flags nego\<rparr>
      in if n_SelectedProtocol nego = PROTOCOL_RDP then
           (let settings = settings\<lparr>UseRdpSecurityLayer := True\<rparr>
            in if EncryptionMethods settings = 0
               then settings\<lparr>EncryptionMethods := 0x1 OR 0x8 OR 0x2 OR 0x10\<rparr> else settings)
         else settings)"

definition nego_finish :: "'t env \<Rightarrow> 't rdpNego \<Rightarrow> (unit, 't rdpNego) res" where
  "nego_finish env nego = nego_security_connect env (nego\<lparr>n_settings := nego_update_settings nego\<rparr>)"

definition nego_connect :: "'t env \<Rightarrow> 't rdpNego \<Rightarrow> (unit, 't rdpNego) res option" where
  "nego_connect env nego =
     (case nego_start env nego of
        Fault \<Rightarrow> Some Fault
      | Fail nego \<Rightarrow> Some (Fail nego)
      | Ok _ nego \<Rightarrow>
          map_option (\<lambda>r. and_then r (\<lambda>_. nego_finish env))
            (if \<not> n_NegotiateSecurityLayer nego then Some (Ok () (nego\<lparr>n_state := NEGO_STATE_FINAL\<rparr>))
             else nego_loop env nego))"

section \<open>The server\<close>

definition nego_set_routing_token ::
  "u8 alloc \<Rightarrow> 't rdpNego \<Rightarrow> u8 list \<Rightarrow> u32 \<Rightarrow> (unit, 't rdpNego) res" where
  "nego_set_routing_token al nego RoutingToken len =
     (if len = 0 then Fail nego
      else let nego = nego\<lparr>n_RoutingTokenLength := len\<rparr>
           in case malloc al (unat len) of
                None \<Rightarrow> Fail (nego\<lparr>n_RoutingToken := None\<rparr>)
              | Some block \<Rightarrow>
                  if unat len \<le> length RoutingToken
                  then Ok () (nego\<lparr>n_RoutingToken := Some (take (unat len) RoutingToken)\<rparr>)
                  else Fault)"

definition nego_set_cookie :: "u8 alloc \<Rightarrow> 't rdpNego \<Rightarrow> u8 list option \<Rightarrow> (unit, 't rdpNego) res" where
  "nego_set_cookie al nego cookie =
     (let nego = nego\<lparr>n_cookie := None\<rparr>
      in case cookie of None \<Rightarrow> Ok () nego
         | Some cookie \<Rightarrow> if al = None then Fail nego else Ok () (nego\<lparr>n_cookie := Some cookie\<rparr>))"

text \<open>
  The search for the terminator. Every turn moves the pointer by one, so the remaining length bounds
  the number of turns; running out of it is reported as a \<open>Fault\<close>.
\<close>

primrec find_crlf :: "nat \<Rightarrow> u16 \<Rightarrow> wStream \<Rightarrow> (u16, wStream) res" where
  "find_crlf 0 crlf s = Fault"
| "find_crlf (Suc fuel) crlf s =
     (if Stream_GetRemainingLength s \<ge> 2 then
        and_then (Stream_Read_UINT16 s) (\<lambda>crlf s.
          if crlf = 0x0A0D then Ok crlf s
          else and_then (Stream_Rewind s 1) (\<lambda>_ s. find_crlf fuel crlf s))
      else Ok crlf s)"

definition c_string :: "u8 list \<Rightarrow> u8 list" where
  "c_string b = takeWhile (\<lambda>c. c \<noteq> 0) b"

text \<open>
  The pointer is behind the terminator, which is overwritten by zeros in the received PDU before the
  string that starts at \<open>pos\<close> is copied.
\<close>

definition store_token_or_cookie ::
  "u8 alloc \<Rightarrow> bool \<Rightarrow> nat \<Rightarrow> 't rdpNego \<Rightarrow> wStream \<Rightarrow> (unit, 't rdpNego \<times> wStream) res" where
  "store_token_or_cookie al isToken pos nego s =
     and_then (on_stream nego (Stream_Rewind s 2)) (\<lambda>_ (nego, s).
     let len = size_sub (Stream_GetPosition s) pos
     in and_then (on_stream nego (Stream_Write_UINT16 s 0)) (\<lambda>_ (nego, s).
        let str = drop pos (s_buffer s)
        in if length (c_string (take len str)) = len then
             (case (if isToken then nego_set_routing_token al nego str (of_nat len)
                    else nego_set_cookie al nego (Some (c_string str))) of
                Fault \<Rightarrow> Fault
              | Fail nego \<Rightarrow> Fail (nego, Stream_SetPosition s pos)
              | Ok _ nego \<Rightarrow> Ok () (nego, s))
           else Fail (nego, Stream_SetPosition s pos)))"

text \<open>\<open>memcmp\<close> looks at 17 bytes although only 15 are known to remain.\<close>

definition nego_read_request_token_or_cookie ::
  "u8 alloc \<Rightarrow> 't rdpNego \<Rightarrow> wStream \<Rightarrow> (unit, 't rdpNego \<times> wStream) res" where
  "nego_read_request_token_or_cookie al nego s =
     (let pos = Stream_GetPosition s
      in if Stream_GetRemainingLength s < 15 then Ok () (nego, s)
         else if \<not> in_block s 17 then Fault
         else let isToken = take 17 (drop pos (s_buffer s)) \<noteq> cookie_prefix
         in if \<not> isToken \<and> Stream_GetRemainingLength s < 19 then Ok () (nego, s)
         else let s = (if isToken then s else Stream_Seek s 17)
         in and_then (on_stream nego (find_crlf (Suc (Stream_GetRemainingLength s)) 0 s)) (\<lambda>crlf (nego, s).
            if crlf = 0x0A0D then store_token_or_cookie al isToken pos nego s
            else Fail (nego, Stream_SetPosition s pos)))"

definition read_request_data :: "'t rdpNego \<Rightarrow> wStream \<Rightarrow> (unit, 't rdpNego \<times> wStream) res" where
  "read_request_data nego s =
     and_then
       (if Stream_GetRemainingLength s \<ge> 8 then
          and_then (on_stream nego (Stream_Read_UINT8 s)) (\<lambda>type (nego, s).
            if type \<noteq> TYPE_RDP_NEG_REQ then Fail (nego, s) else nego_process_negotiation_request nego s)
        else Ok () (nego, s))
       (\<lambda>_ (nego, s). if tpkt_ensure_stream_consumed s then Ok () (nego, s) else Fail (nego, s))"

definition nego_read_request ::
  "u8 alloc \<Rightarrow> 't rdpNego \<Rightarrow> wStream \<Rightarrow> (unit, 't rdpNego \<times> wStream) res" where
  "nego_read_request al nego s =
     and_then (on_stream nego (tpkt_read_header s)) (\<lambda>len (nego, s).
     and_then (on_stream nego (tpdu_read_connection_request s len)) (\<lambda>li (nego, s).
     if unat li \<noteq> size_add (Stream_GetRemainingLength s) 6 then Fail (nego, s)
     else and_then (nego_read_request_token_or_cookie al nego s) (\<lambda>_ (nego, s). read_request_data nego s)))"

text \<open>The settings of a server after its response has gone out; false when there is no certificate.\<close>

definition response_settings :: "'t rdpNego \<Rightarrow> rdpSettings \<times> bool" where
  "response_settings nego =
     (let settings = (n_settings nego)\<lparr>RequestedProtocols := n_RequestedProtocols nego,
            SelectedProtocol := n_SelectedProtocol nego\<rparr>
      in if SelectedProtocol settings = PROTOCOL_RDP then
           (let settings = settings\<lparr>TlsSecurity := False, NlaSecurity := False,
                  RdpSecurity := True, UseRdpSecurityLayer := True\<rparr>;
                settings = (if EncryptionLevel settings = ENCRYPTION_LEVEL_NONE
                  then settings\<lparr>EncryptionLevel := ENCRYPTION_LEVEL_CLIENT_COMPATIBLE\<rparr> else settings);
                settings = (if LocalConnection settings
                  then settings\<lparr>UseRdpSecurityLayer := False, EncryptionLevel := ENCRYPTION_LEVEL_NONE\<rparr>
                  else settings)
            in (settings, RdpServerRsaKey settings \<noteq> None \<or> RdpKeyFile settings \<or> RdpKeyContent settings))
         else if SelectedProtocol settings = PROTOCOL_SSL then
           (settings\<lparr>TlsSecurity := True, NlaSecurity := False, RdpSecurity := False,
              UseRdpSecurityLayer := False, EncryptionLevel := ENCRYPTION_LEVEL_NONE\<rparr>, True)
         else if SelectedProtocol settings = PROTOCOL_HYBRID then
           (settings\<lparr>TlsSecurity := True, NlaSecurity := True, RdpSecurity := False,
              UseRdpSecurityLayer := False, EncryptionLevel := ENCRYPTION_LEVEL_NONE\<rparr>, True)
         else (settings, True))"

definition nego_send_negotiation_response :: "'t env \<Rightarrow> 't rdpNego \<Rightarrow> (unit, 't rdpNego) res" where
  "nego_send_negotiation_response env nego =
     and_then
       (nego_stream env 512 nego (\<lambda>nego s.
        let bm = Stream_GetPosition s; s = Stream_Seek s TPDU_CONNECTION_CONFIRM_LENGTH;
            len = TPDU_CONNECTION_CONFIRM_LENGTH + 8
        in then_free
             (if n_SelectedProtocol nego AND PROTOCOL_FAILED_NEGO \<noteq> 0 then
                write_neg_data s TYPE_RDP_NEG_FAILURE 0 (n_SelectedProtocol nego AND NOT PROTOCOL_FAILED_NEGO)
              else write_neg_data s TYPE_RDP_NEG_RSP
                     (if SupportGraphicsPipeline (n_settings nego) then 3 else 1) (n_SelectedProtocol nego))
             nego (\<lambda>s.
           let em = Stream_GetPosition s
           in then_free
                (and_then (tpkt_write_header (Stream_SetPosition s bm) (of_nat len)) (\<lambda>_ s.
                 tpdu_write_connection_confirm s (of_nat len - 5)))
                nego
                (\<lambda>s. nego_transmit env nego (Stream_SealLength (Stream_SetPosition s em))))))
       (\<lambda>_ nego. let (settings, ok) = response_settings nego; nego = nego\<lparr>n_settings := settings\<rparr>
                 in if ok then Ok () nego else Fail nego)"

text \<open>
  The protocol the server chooses: the strongest it offers that the client asked for, or the failure
  code it sends instead.
\<close>

definition server_select_protocol :: "rdpSettings \<Rightarrow> u32 \<Rightarrow> u32" where
  "server_select_protocol settings requested =
     (if NlaSecurity settings \<and> requested AND PROTOCOL_HYBRID \<noteq> 0 then PROTOCOL_HYBRID
      else if TlsSecurity settings \<and> requested AND PROTOCOL_SSL \<noteq> 0 then PROTOCOL_SSL
      else if RdpSecurity settings \<and> requested = PROTOCOL_RDP then PROTOCOL_RDP
      else PROTOCOL_FAILED_NEGO OR
           (if RdpSecurity settings then SSL_NOT_ALLOWED_BY_SERVER
            else if NlaSecurity settings \<and> \<not> TlsSecurity settings then HYBRID_REQUIRED_BY_SERVER
            else SSL_REQUIRED_BY_SERVER))"

definition nego_set_blocking :: "'t env \<Rightarrow> bool \<Rightarrow> 't rdpNego \<Rightarrow> 't rdpNego" where
  "nego_set_blocking env b nego = nego\<lparr>n_transport := e_set_blocking_mode env b (n_transport nego)\<rparr>"

definition server_accept_security :: "'t env \<Rightarrow> 't rdpNego \<Rightarrow> (unit, 't rdpNego) res" where
  "server_accept_security env nego =
     (let (status, nego) =
        (if n_SelectedProtocol nego AND PROTOCOL_HYBRID \<noteq> 0 then ask (e_accept_nla env) nego
         else if n_SelectedProtocol nego AND PROTOCOL_SSL \<noteq> 0 then ask (e_accept_tls env) nego
         else if n_SelectedProtocol nego = PROTOCOL_RDP then ask (e_accept_rdp env) nego
         else (False, nego))
      in if status then Ok () nego else Fail nego)"

text \<open>\<open>Ok\<close> is the transition of the server to \<open>CONNECTION_STATE_NEGO\<close>.\<close>

definition rdp_server_accept_nego ::
  "'t env \<Rightarrow> u8 alloc \<Rightarrow> 't rdpNego \<Rightarrow> wStream \<Rightarrow> (unit, 't rdpNego) res" where
  "rdp_server_accept_nego env al nego s =
     and_then (drop_stream (nego_read_request al (nego_set_blocking env True nego) s)) (\<lambda>_ nego.
     let nego = nego\<lparr>n_SelectedProtocol := server_select_protocol (n_settings nego) (n_RequestedProtocols nego)\<rparr>
     in and_then (nego_send_negotiation_response env nego) (\<lambda>_ nego.
        and_then (server_accept_security env nego) (\<lambda>_ nego.
        Ok () (nego_set_blocking env False nego))))"

section \<open>Creation and configuration\<close>

definition nego_init :: "'t rdpNego \<Rightarrow> 't rdpNego" where
  "nego_init nego = nego\<lparr>n_state := NEGO_STATE_INITIAL, n_RequestedProtocols := PROTOCOL_RDP,
     n_CookieMaxLength := 0xFF, n_sendNegoData := False, n_flags := 0\<rparr>"

text \<open>\<open>calloc\<close> clears the object; the transport brings its settings.\<close>

definition nego_new :: "unit alloc \<Rightarrow> rdpSettings \<Rightarrow> 't \<Rightarrow> 't rdpNego option" where
  "nego_new al settings transport =
     (if al = None then None
      else Some (nego_init \<lparr>n_port = 0, n_flags = 0, n_hostname = None, n_cookie = None, n_RoutingToken = None,
        n_RoutingTokenLength = 0, n_SendPreconnectionPdu = False, n_PreconnectionId = 0, n_PreconnectionBlob = None,
        n_state = NEGO_STATE_INITIAL, n_TcpConnected = False, n_SecurityConnected = False, n_CookieMaxLength = 0,
        n_sendNegoData = False, n_SelectedProtocol = 0, n_RequestedProtocols = 0, n_NegotiateSecurityLayer = False,
        n_EnabledProtocols = (\<lambda>_. False), n_RestrictedAdminModeRequired = False, n_GatewayEnabled = False,
        n_GatewayBypassLocal = False, n_settings = settings, n_transport = transport\<rparr>))"

definition nego_set_target :: "'t rdpNego \<Rightarrow> u8 list option \<Rightarrow> u16 \<Rightarrow> (unit, 't rdpNego) res" where
  "nego_set_target nego hostname port =
     (if hostname = None then Fail nego else Ok () (nego\<lparr>n_hostname := hostname, n_port := port\<rparr>))"

definition nego_set_negotiation_enabled :: "'t rdpNego \<Rightarrow> bool \<Rightarrow> 't rdpNego" where
  "nego_set_negotiation_enabled nego b = nego\<lparr>n_NegotiateSecurityLayer := b\<rparr>"

definition nego_set_restricted_admin_mode_required :: "'t rdpNego \<Rightarrow> bool \<Rightarrow> 't rdpNego" where
  "nego_set_restricted_admin_mode_required nego b = nego\<lparr>n_RestrictedAdminModeRequired := b\<rparr>"

definition nego_set_gateway_enabled :: "'t rdpNego \<Rightarrow> bool \<Rightarrow> 't rdpNego" where
  "nego_set_gateway_enabled nego b = nego\<lparr>n_GatewayEnabled := b\<rparr>"

definition nego_set_gateway_bypass_local :: "'t rdpNego \<Rightarrow> bool \<Rightarrow> 't rdpNego" where
  "nego_set_gateway_bypass_local nego b = nego\<lparr>n_GatewayBypassLocal := b\<rparr>"

definition nego_enable_rdp :: "'t rdpNego \<Rightarrow> bool \<Rightarrow> 't rdpNego" where
  "nego_enable_rdp nego b = nego\<lparr>n_EnabledProtocols := (n_EnabledProtocols nego)(PROTOCOL_RDP := b)\<rparr>"

definition nego_enable_tls :: "'t rdpNego \<Rightarrow> bool \<Rightarrow> 't rdpNego" where
  "nego_enable_tls nego b = nego\<lparr>n_EnabledProtocols := (n_EnabledProtocols nego)(PROTOCOL_SSL := b)\<rparr>"

definition nego_enable_nla :: "'t rdpNego \<Rightarrow> bool \<Rightarrow> 't rdpNego" where
  "nego_enable_nla nego b = nego\<lparr>n_EnabledProtocols := (n_EnabledProtocols nego)(PROTOCOL_HYBRID := b)\<rparr>"

definition nego_enable_ext :: "'t rdpNego \<Rightarrow> bool \<Rightarrow> 't rdpNego" where
  "nego_enable_ext nego b = nego\<lparr>n_EnabledProtocols := (n_EnabledProtocols nego)(PROTOCOL_HYBRID_EX := b)\<rparr>"

definition nego_set_cookie_max_length :: "'t rdpNego \<Rightarrow> u32 \<Rightarrow> 't rdpNego" where
  "nego_set_cookie_max_length nego n = nego\<lparr>n_CookieMaxLength := n\<rparr>"

definition nego_set_send_preconnection_pdu :: "'t rdpNego \<Rightarrow> bool \<Rightarrow> 't rdpNego" where
  "nego_set_send_preconnection_pdu nego b = nego\<lparr>n_SendPreconnectionPdu := b\<rparr>"

definition nego_set_preconnection_id :: "'t rdpNego \<Rightarrow> u32 \<Rightarrow> 't rdpNego" where
  "nego_set_preconnection_id nego n = nego\<lparr>n_PreconnectionId := n\<rparr>"

definition nego_set_preconnection_blob :: "'t rdpNego \<Rightarrow> u8 list option \<Rightarrow> 't rdpNego" where
  "nego_set_preconnection_blob nego blob = nego\<lparr>n_PreconnectionBlob := blob\<rparr>"

text \<open>The accessors answer for a null pointer as well. \<open>nego_free\<close> gives what it releases besides the object.\<close>

definition nego_free :: "'t rdpNego option \<Rightarrow> u8 list option \<times> u8 list option" where
  "nego_free nego = (case nego of None \<Rightarrow> (None, None) | Some nego \<Rightarrow> (n_RoutingToken nego, n_cookie nego))"

definition nego_get_selected_protocol :: "'t rdpNego option \<Rightarrow> u32" where
  "nego_get_selected_protocol nego = (case nego of None \<Rightarrow> 0 | Some nego \<Rightarrow> n_SelectedProtocol nego)"

definition nego_set_selected_protocol :: "'t rdpNego option \<Rightarrow> u32 \<Rightarrow> 't rdpNego option" where
  "nego_set_selected_protocol nego p = map_option (\<lambda>nego. nego\<lparr>n_SelectedProtocol := p\<rparr>) nego"

definition nego_get_requested_protocols :: "'t rdpNego option \<Rightarrow> u32" where
  "nego_get_requested_protocols nego = (case nego of None \<Rightarrow> 0 | Some nego \<Rightarrow> n_RequestedProtocols nego)"

definition nego_set_requested_protocols :: "'t rdpNego option \<Rightarrow> u32 \<Rightarrow> 't rdpNego option" where
  "nego_set_requested_protocols nego p = map_option (\<lambda>nego. nego\<lparr>n_RequestedProtocols := p\<rparr>) nego"

definition nego_get_state :: "'t rdpNego option \<Rightarrow> NEGO_STATE" where
  "nego_get_state nego = (case nego of None \<Rightarrow> NEGO_STATE_FAIL | Some nego \<Rightarrow> n_state nego)"

definition nego_set_state :: "'t rdpNego option \<Rightarrow> NEGO_STATE \<Rightarrow> 't rdpNego option" where
  "nego_set_state nego st = map_option (\<lambda>nego. nego\<lparr>n_state := st\<rparr>) nego"

section \<open>The state machine\<close>

text \<open>What no attempt changes, and what holds of the selected protocol when an attempt is final.\<close>

definition config :: "'t rdpNego \<Rightarrow> (u32 \<Rightarrow> bool) \<times> bool \<times> bool \<times> rdpSettings" where
  "config n = (n_EnabledProtocols n, n_NegotiateSecurityLayer n, n_SecurityConnected n, n_settings n)"

definition agreed :: "'t rdpNego \<Rightarrow> bool" where
  "agreed n \<longleftrightarrow> n_EnabledProtocols n PROTOCOL_RDP \<or>
     (n_SelectedProtocol n \<in> {PROTOCOL_HYBRID, PROTOCOL_SSL, PROTOCOL_RDP} \<longrightarrow>
        n_EnabledProtocols n (n_SelectedProtocol n))"

lemma on_stream_Ok: "on_stream m r = Ok a p \<longleftrightarrow> (\<exists>s. r = Ok a s \<and> p = (m, s))"
  by (cases r) auto

lemma drop_stream_Ok: "drop_stream r = Ok a m \<longleftrightarrow> (\<exists>s. r = Ok a (m, s))"
  by (cases r) (auto simp: drop_stream_def)

lemmas session_Ok = and_then_Ok_iff on_stream_Ok drop_stream_Ok

lemma process_response_Ok:
  "nego_process_negotiation_response n s = Ok () (n', u) \<Longrightarrow>
   \<exists>f p. n' = n\<lparr>n_flags := f, n_SelectedProtocol := p, n_state := NEGO_STATE_FINAL\<rparr>"
  by (auto simp: nego_process_negotiation_response_def session_Ok Let_def split: if_splits)

lemma config_simps [simp]:
  "config (n\<lparr>n_state := st\<rparr>) = config n" "config (n\<lparr>n_sendNegoData := b\<rparr>) = config n"
  "config (n\<lparr>n_flags := f\<rparr>) = config n" "config (n\<lparr>n_SelectedProtocol := p\<rparr>) = config n"
  "config (n\<lparr>n_RequestedProtocols := p\<rparr>) = config n" "config (n\<lparr>n_transport := t\<rparr>) = config n"
  "config (n\<lparr>n_TcpConnected := b\<rparr>) = config n"
  by (simp_all add: config_def)

lemma note_failure_simps [simp]:
  "config (note_failure c n) = config n" "n_TcpConnected (note_failure c n) = n_TcpConnected n"
  by (simp_all add: note_failure_def)

lemma process_failure_Ok:
  "nego_process_negotiation_failure n s = Ok () (n', u) \<Longrightarrow>
   config n' = config n \<and> n_TcpConnected n' = n_TcpConnected n \<and> n_state n' = NEGO_STATE_FAIL"
  by (auto simp: nego_process_negotiation_failure_def session_Ok split: if_splits)

lemma check_selected:
  "config (nego_check_selected n) = config n"
  "n_TcpConnected (nego_check_selected n) = n_TcpConnected n"
  "n_state (nego_check_selected n) \<in> {n_state n, NEGO_STATE_FAIL}"
  "n_state (nego_check_selected n) \<noteq> NEGO_STATE_FAIL \<Longrightarrow> agreed (nego_check_selected n)"
  by (auto simp: nego_check_selected_def config_def agreed_def Let_def)

text \<open>The effect of an answer on the negotiation: the verdict is in the state, and a final one is sound.\<close>

definition answered :: "'t rdpNego \<Rightarrow> 't rdpNego \<Rightarrow> bool" where
  "answered n n' \<longleftrightarrow> config n' = config n \<and> n_TcpConnected n' = n_TcpConnected n \<and>
     n_state n' \<in> {n_state n, NEGO_STATE_FAIL, NEGO_STATE_FINAL} \<and>
     (n_state n' = NEGO_STATE_FINAL \<longrightarrow> agreed n')"

lemma answered_response:
  assumes "nego_process_negotiation_response n t = Ok () (m, v)"
  shows "answered n (nego_check_selected m)"
proof -
  have "config m = config n" "n_TcpConnected m = n_TcpConnected n" "n_state m = NEGO_STATE_FINAL"
    using process_response_Ok [OF assms] by (auto simp: config_def)
  with check_selected [of m] show ?thesis by (auto simp: answered_def)
qed

lemma answered_failure: "nego_process_negotiation_failure n t = Ok () (m, v) \<Longrightarrow> answered n m"
  by (auto simp: answered_def dest!: process_failure_Ok)

lemma answered_simps:
  "n_state n \<noteq> NEGO_STATE_FINAL \<Longrightarrow> answered n n"
  "answered n (n\<lparr>n_state := NEGO_STATE_FAIL\<rparr>)"
  "n_EnabledProtocols n PROTOCOL_RDP \<Longrightarrow> answered n (n\<lparr>n_state := NEGO_STATE_FINAL\<rparr>)"
  by (simp_all add: answered_def config_def agreed_def)

lemma nego_recv_data_Ok:
  "nego_recv_data li n s = Ok () (n', u) \<Longrightarrow> n_state n \<noteq> NEGO_STATE_FINAL \<Longrightarrow> answered n n'"
  by (auto simp: nego_recv_data_def session_Ok answered_simps dest: answered_response answered_failure
      split: if_splits)

lemma nego_recv_Ok:
  "nego_recv n s = Ok () (n', u) \<Longrightarrow> n_state n \<noteq> NEGO_STATE_FINAL \<Longrightarrow> answered n n'"
  by (auto simp: nego_recv_def session_Ok dest: nego_recv_data_Ok split: if_splits)

text \<open>Calls that only touch the layers below.\<close>

lemma ask_frame:
  assumes "ask f n = (a, n')"
  shows "n' = n\<lparr>n_transport := snd (f (n_transport n))\<rparr>" "a = fst (f (n_transport n))"
  using assms by (auto simp: ask_def split: prod.splits)

lemma snd_ask [simp]: "snd (ask f n) = n\<lparr>n_transport := snd (f (n_transport n))\<rparr>"
  "fst (ask f n) = fst (f (n_transport n))"
  by (auto simp: ask_def split: prod.splits)

lemma transport_attempt_frame [simp]:
  "config (transport_attempt env n) = config n" "n_state (transport_attempt env n) = n_state n"
  by (simp_all add: transport_attempt_def case_prod_beta)

lemma set_gateway_frame [simp]:
  "config (set_gateway env b n) = config n" "n_state (set_gateway env b n) = n_state n"
  "n_TcpConnected (set_gateway env b n) = n_TcpConnected n"
  by (simp_all add: set_gateway_def)

lemma nego_tcp_connect_Ok:
  "nego_tcp_connect env n = Ok () n' \<Longrightarrow> config n' = config n \<and> n_state n' = n_state n \<and> n_TcpConnected n'"
  by (auto simp: nego_tcp_connect_def Let_def split: if_splits)

lemma config_negotiate: "config n' = config n \<Longrightarrow> n_NegotiateSecurityLayer n' = n_NegotiateSecurityLayer n"
  "config n' = config n \<Longrightarrow> n_EnabledProtocols n' = n_EnabledProtocols n"
  "config n' = config n \<Longrightarrow> n_SecurityConnected n' = n_SecurityConnected n"
  "config n' = config n \<Longrightarrow> n_settings n' = n_settings n"
  by (simp_all add: config_def)

lemma nego_transport_connect_Ok:
  "nego_transport_connect env n = Ok () n' \<Longrightarrow> n_NegotiateSecurityLayer n \<Longrightarrow>
   config n' = config n \<and> n_state n' = n_state n \<and> n_TcpConnected n'"
  by (auto simp: nego_transport_connect_def and_then_Ok_iff split: if_splits
      dest!: nego_tcp_connect_Ok dest: config_negotiate)

lemma with_stream_Ok: "with_stream ora k st f = Ok a m \<longleftrightarrow> (\<exists>s. Stream_New (fst ora) (snd ora) None k = Some s \<and> f s = Ok a m)"
  by (auto simp: with_stream_def split: option.splits)

lemma then_free_Ok: "then_free r st f = Ok a m \<longleftrightarrow> (\<exists>u s. r = Ok u s \<and> f s = Ok a m)"
  by (cases r) auto

lemma nego_stream_Ok:
  "nego_stream env k n f = Ok a m \<longleftrightarrow>
   (\<exists>s. Stream_New (fst (fst (e_stream env (n_transport n)))) (snd (fst (e_stream env (n_transport n)))) None k = Some s \<and>
        f (n\<lparr>n_transport := snd (e_stream env (n_transport n))\<rparr>) s = Ok a m)"
  by (simp add: nego_stream_def case_prod_beta with_stream_Ok)

lemma nego_transmit_Ok:
  "nego_transmit env n s = Ok () m \<Longrightarrow> \<exists>t. m = n\<lparr>n_transport := t\<rparr>"
  by (auto simp: nego_transmit_def case_prod_beta split: if_splits)

lemma send_request_pdu_Ok:
  "send_request_pdu env n bm len s = Ok () m \<Longrightarrow> \<exists>t. m = n\<lparr>n_transport := t\<rparr>"
  by (auto simp: send_request_pdu_def Let_def then_free_Ok dest: nego_transmit_Ok split: if_splits)

lemma nego_send_request_Ok:
  "nego_send_negotiation_request env n = Ok () n' \<Longrightarrow> \<exists>t. n' = n\<lparr>n_transport := t\<rparr>"
  unfolding nego_send_negotiation_request_def nego_stream_Ok
  by (elim exE conjE) (auto dest!: send_request_pdu_Ok split: res.split_asm)

lemma nego_preconnection_Ok:
  assumes "nego_send_preconnection_pdu env n = Ok () n'"
  shows "config n' = config n \<and> n_state n' = n_state n"
proof -
  obtain m t s where m: "nego_tcp_connect env n = Ok () m"
    and "nego_transmit env (m\<lparr>n_transport := t\<rparr>) s = Ok () n'"
    using assms unfolding nego_send_preconnection_pdu_def Let_def case_prod_beta
    by (auto simp: and_then_Ok_iff [of "nego_tcp_connect env n"] nego_stream_Ok then_free_Ok)
  from nego_transmit_Ok [OF this(2)] nego_tcp_connect_Ok [OF m] show ?thesis by auto
qed

lemma answered_transport: "answered n (m\<lparr>n_transport := t\<rparr>) = answered n m"
  "answered (n\<lparr>n_transport := t\<rparr>) m = answered n m"
  by (simp_all add: answered_def agreed_def)

lemma nego_recv_response_Ok:
  "nego_recv_response env n = Ok () n' \<Longrightarrow> n_state n \<noteq> NEGO_STATE_FINAL \<Longrightarrow> answered n n'"
  by (auto simp: nego_recv_response_def nego_stream_Ok case_prod_beta drop_stream_Ok answered_transport
      dest!: nego_recv_Ok split: if_splits)

lemma nego_exchange_Ok:
  assumes "nego_exchange env n = Ok () n'" "n_NegotiateSecurityLayer n" "n_state n \<noteq> NEGO_STATE_FINAL"
  shows "answered (n\<lparr>n_TcpConnected := True\<rparr>) n'"
proof -
  obtain m t where m: "nego_transport_connect env n = Ok () m"
    and r: "nego_recv_response env (m\<lparr>n_transport := t\<rparr>) = Ok () n'"
    using assms(1) by (auto simp: nego_exchange_def and_then_Ok_iff dest!: nego_send_request_Ok)
  have "answered (m\<lparr>n_transport := t\<rparr>) n'"
    using nego_recv_response_Ok [OF r] nego_transport_connect_Ok [OF m assms(2)] assms(3) by simp
  with nego_transport_connect_Ok [OF m assms(2)] show ?thesis by (simp add: answered_def)
qed

text \<open>
  One turn of the loop as a step relation, the protocol a state stands for, and the order in which
  the attempts are made.
\<close>

inductive nego_step :: "'t env \<Rightarrow> 't rdpNego \<Rightarrow> 't rdpNego \<Rightarrow> bool" for env where
  attempt: "n_state n \<in> {NEGO_STATE_EXT, NEGO_STATE_NLA, NEGO_STATE_TLS, NEGO_STATE_RDP} \<Longrightarrow>
    nego_send env n = Ok () n' \<Longrightarrow> nego_step env n n'"

inductive_cases nego_stepE: "nego_step env n n'"

fun state_protocol :: "NEGO_STATE \<Rightarrow> u32" where
  "state_protocol NEGO_STATE_EXT = PROTOCOL_HYBRID_EX"
| "state_protocol NEGO_STATE_NLA = PROTOCOL_HYBRID"
| "state_protocol NEGO_STATE_TLS = PROTOCOL_SSL"
| "state_protocol _ = PROTOCOL_RDP"

fun state_rank :: "NEGO_STATE \<Rightarrow> nat" where
  "state_rank NEGO_STATE_EXT = 4"
| "state_rank NEGO_STATE_NLA = 3"
| "state_rank NEGO_STATE_TLS = 2"
| "state_rank NEGO_STATE_RDP = 1"
| "state_rank _ = 0"

text \<open>What one attempt leaves behind, unless it failed for good.\<close>

definition stepped :: "'t rdpNego \<Rightarrow> 't rdpNego \<Rightarrow> bool" where
  "stepped n n' \<longleftrightarrow> config n' = config n \<and>
     (if n_state n' = NEGO_STATE_FINAL then agreed n' \<and> n_TcpConnected n'
      else n_EnabledProtocols n (state_protocol (n_state n')) \<and> 0 < state_rank (n_state n') \<and>
        (state_rank (n_state n') < state_rank (n_state n) \<or>
         n_state n = NEGO_STATE_RDP \<and> n_state n' = NEGO_STATE_RDP))"

lemma disconnect_frame [simp]:
  "n_EnabledProtocols (nego_transport_disconnect env n) = n_EnabledProtocols n"
  "\<not> n_SecurityConnected n \<Longrightarrow> config (nego_transport_disconnect env n) = config n"
  by (simp_all add: nego_transport_disconnect_def config_def Let_def)

lemma answered_requested [simp]: "answered (n\<lparr>n_RequestedProtocols := p\<rparr>) m = answered n m"
  "answered (n\<lparr>n_RequestedProtocols := p, n_TcpConnected := b\<rparr>) m = answered (n\<lparr>n_TcpConnected := b\<rparr>) m"
  by (simp_all add: answered_def)

lemma answered_final:
  "answered (n\<lparr>n_TcpConnected := True\<rparr>) m \<Longrightarrow> n_state m = NEGO_STATE_FINAL \<Longrightarrow> stepped n m"
  by (simp add: answered_def stepped_def)

lemma answered_retry:
  assumes "answered (n\<lparr>n_TcpConnected := True\<rparr>) m" "\<not> n_SecurityConnected n"
    "0 < state_rank st" "state_rank st < state_rank (n_state n)" "n_EnabledProtocols m (state_protocol st)"
  shows "stepped n ((nego_transport_disconnect env m)\<lparr>n_state := st\<rparr>)"
proof -
  have m: "config m = config n" using assms(1) by (simp add: answered_def)
  then have "\<not> n_SecurityConnected m" "n_EnabledProtocols m = n_EnabledProtocols n"
    using assms(2) config_negotiate [OF m] by simp_all
  with m assms(3-5) show ?thesis by (auto simp: stepped_def)
qed

lemma nego_send_stepped:
  assumes s: "nego_send env n = Ok () n'" "n_state n' \<noteq> NEGO_STATE_FAIL"
    and st: "n_state n \<in> {NEGO_STATE_EXT, NEGO_STATE_NLA, NEGO_STATE_TLS, NEGO_STATE_RDP}"
    and n: "n_NegotiateSecurityLayer n" "\<not> n_SecurityConnected n" "n_EnabledProtocols n (state_protocol (n_state n))"
  shows "stepped n n'"
proof -
  have ex: "answered (n\<lparr>n_TcpConnected := True\<rparr>) m"
    if "nego_exchange env (n\<lparr>n_RequestedProtocols := p\<rparr>) = Ok () m" for p m
    using nego_exchange_Ok [OF that] n(1) st by auto
  consider "n_state n = NEGO_STATE_EXT" | "n_state n = NEGO_STATE_NLA" | "n_state n = NEGO_STATE_TLS"
    | "n_state n = NEGO_STATE_RDP" using st by auto
  then show ?thesis
  proof cases
    case 1
    with s show ?thesis
      by (auto simp: nego_send_def nego_attempt_ext_def Let_def n(2) dest!: ex
          intro: answered_final answered_retry split: res.split_asm if_split_asm)
  next
    case 2
    with s show ?thesis
      by (auto simp: nego_send_def nego_attempt_nla_def Let_def n(2) dest!: ex
          intro: answered_final answered_retry split: res.split_asm if_split_asm)
  next
    case 3
    with s show ?thesis
      by (auto simp: nego_send_def nego_attempt_tls_def Let_def n(2) dest!: ex
          intro: answered_final answered_retry split: res.split_asm if_split_asm)
  next
    case 4
    with s n(3) show ?thesis
      by (auto simp: nego_send_def nego_attempt_rdp_def stepped_def answered_def dest!: ex
          split: res.split_asm)
  qed
qed

text \<open>The invariant of the states reachable from the start of a negotiation.\<close>

definition negotiating :: "'t rdpNego \<Rightarrow> 't rdpNego \<Rightarrow> bool" where
  "negotiating n m \<longleftrightarrow> config m = config n \<and>
     (if n_state m = NEGO_STATE_FINAL then agreed m \<and> n_TcpConnected m
      else n_EnabledProtocols n (state_protocol (n_state m)) \<and> 0 < state_rank (n_state m))"

lemma negotiating_step:
  assumes "negotiating n m" "nego_step env m k" "n_NegotiateSecurityLayer n" "\<not> n_SecurityConnected n"
  shows "n_state k = NEGO_STATE_FAIL \<or> negotiating n k \<and> stepped m k"
proof (rule disjCI)
  assume k: "\<not> (negotiating n k \<and> stepped m k)"
  from assms(2) have m: "n_state m \<in> {NEGO_STATE_EXT, NEGO_STATE_NLA, NEGO_STATE_TLS, NEGO_STATE_RDP}"
    and s: "nego_send env m = Ok () k" by (auto elim: nego_stepE)
  have c: "config m = config n" using assms(1) by (simp add: negotiating_def)
  note cn = config_negotiate [OF c]
  have e: "n_EnabledProtocols n (state_protocol (n_state m))"
    using assms(1) m by (auto simp: negotiating_def)
  show "n_state k = NEGO_STATE_FAIL"
  proof (rule ccontr)
    assume "n_state k \<noteq> NEGO_STATE_FAIL"
    then have "stepped m k" using nego_send_stepped [OF s _ m] assms(3,4) e cn by simp
    with k c cn show False by (auto simp: stepped_def negotiating_def split: if_splits)
  qed
qed

lemma negotiating_reachable:
  assumes "(nego_step env)\<^sup>*\<^sup>* n m" "negotiating n n" "n_NegotiateSecurityLayer n" "\<not> n_SecurityConnected n"
  shows "n_state m = NEGO_STATE_FAIL \<or> negotiating n m"
  using assms(1)
proof (induction rule: rtranclp_induct)
  case (step m k)
  then have "n_state m \<noteq> NEGO_STATE_FAIL" by (auto elim: nego_stepE)
  with step.IH have "negotiating n m" by simp
  from negotiating_step [OF this step.hyps(2) assms(3,4)] show ?case by blast
qed (use assms(2) in simp)

lemma nego_loop_reaches_all:
  assumes "nego_loop env n = Some r"
  shows "\<forall>m. r = Ok () m \<longrightarrow> (nego_step env)\<^sup>*\<^sup>* n m \<and> n_state m = NEGO_STATE_FINAL"
proof (rule nego_loop.raw_induct [where P = "\<lambda>env n r. \<forall>m. r = Ok () m \<longrightarrow>
      (nego_step env)\<^sup>*\<^sup>* n m \<and> n_state m = NEGO_STATE_FINAL", OF _ assms], intro allI impI)
  fix f and env :: "'a env" and n r m
  assume IH: "\<And>env n r. f env n = Some r \<Longrightarrow> \<forall>m. r = Ok () m \<longrightarrow>
      (nego_step env)\<^sup>*\<^sup>* n m \<and> n_state m = NEGO_STATE_FINAL"
    and body: "(case nego_send env n of Fault \<Rightarrow> Some Fault | Fail nego \<Rightarrow> Some (Fail nego)
      | Ok _ nego \<Rightarrow>
          if n_state nego = NEGO_STATE_FAIL then Some (Fail (nego\<lparr>n_state := NEGO_STATE_FINAL\<rparr>))
          else if n_state nego \<noteq> NEGO_STATE_FINAL then f env nego
          else Some (Ok () nego)) = Some r" and r: "r = Ok () m"
  obtain k where k: "nego_send env n = Ok () k" "n_state k \<noteq> NEGO_STATE_FAIL"
    "n_state k = NEGO_STATE_FINAL \<and> m = k \<or> f env k = Some (Ok () m)"
    using body r by (auto split: res.splits if_splits)
  have "(nego_step env)\<^sup>*\<^sup>* k m \<and> n_state m = NEGO_STATE_FINAL" using k(3) IH by auto
  moreover have "nego_step env n k \<or> n = k"
    using k(1) by (cases "n_state n") (auto simp: nego_send_def intro: attempt)
  ultimately show "(nego_step env)\<^sup>*\<^sup>* n m \<and> n_state m = NEGO_STATE_FINAL"
    by (meson converse_rtranclp_into_rtranclp)
qed

lemma nego_loop_reaches:
  "nego_loop env n = Some (Ok () m) \<Longrightarrow> (nego_step env)\<^sup>*\<^sup>* n m \<and> n_state m = NEGO_STATE_FINAL"
  using nego_loop_reaches_all by blast

text \<open>The loop follows the steps: it ends where they end, and only goes on for ever where they do.\<close>

lemma nego_loop_step:
  assumes "nego_step env n k" "n_state k \<notin> {NEGO_STATE_FAIL, NEGO_STATE_FINAL}"
  shows "nego_loop env n = nego_loop env k"
  using assms by (auto simp: nego_loop.simps [of env n] elim: nego_stepE)

lemma nego_loop_None:
  assumes "nego_loop env n = None" "negotiating n0 n" "n_state n \<noteq> NEGO_STATE_FINAL"
    "n_NegotiateSecurityLayer n0" "\<not> n_SecurityConnected n0"
  shows "\<exists>m k. (nego_step env)\<^sup>*\<^sup>* n m \<and> nego_step env m k \<and> n_state m = NEGO_STATE_RDP \<and>
    n_state k = NEGO_STATE_RDP \<and> n_EnabledProtocols n0 PROTOCOL_RDP"
  using assms(1-3)
proof (induction "state_rank (n_state n)" arbitrary: n rule: less_induct)
  case less
  then have "0 < state_rank (n_state n)" by (simp add: negotiating_def)
  then have n: "n_state n \<in> {NEGO_STATE_EXT, NEGO_STATE_NLA, NEGO_STATE_TLS, NEGO_STATE_RDP}"
    by (cases "n_state n") auto
  from less.prems(1) obtain k where k: "nego_send env n = Ok () k"
    "n_state k \<notin> {NEGO_STATE_FAIL, NEGO_STATE_FINAL}" "nego_loop env k = None"
    by (auto simp: nego_loop.simps [of env n] split: res.splits if_splits)
  then have s: "nego_step env n k" using n by (blast intro: attempt)
  from negotiating_step [OF less.prems(2) s assms(4,5)] k(2)
  have nk: "negotiating n0 k" "stepped n k" by auto
  show ?case
  proof (cases "state_rank (n_state k) < state_rank (n_state n)")
    case True
    from less.hyps [OF this k(3) nk(1)] k(2) s show ?thesis
      by (metis converse_rtranclp_into_rtranclp insertCI)
  next
    case False
    with nk(2) k(2) have "n_state n = NEGO_STATE_RDP" "n_state k = NEGO_STATE_RDP"
      by (auto simp: stepped_def split: if_splits)
    moreover from nk(1) this have "n_EnabledProtocols n0 PROTOCOL_RDP" by (simp add: negotiating_def)
    ultimately show ?thesis using s by blast
  qed
qed

end
