(* ===== verification/Nego_Protocol.thy ===== *)
theory Nego_Protocol
  imports Core_Nego
begin

text \<open>
  The negotiation PDUs on the wire and the theorems about the negotiation: the bytes a request or a
  response consists of and the exact room they need, what the other side makes of them, the memory
  safety of the receivers, and the outcome of the client's state machine against any peer.
\<close>

section \<open>The PDUs on the wire\<close>

definition neg_data :: "u8 \<Rightarrow> u8 \<Rightarrow> u32 \<Rightarrow> u8 list" where
  "neg_data type flags data = [type, flags] @ le16 8 @ le32 data"

lemma length_neg_data [simp]: "length (neg_data type flags data) = 8"
  by (simp add: neg_data_def)

lemma emits_neg_data: "emits () (neg_data type flags data) (\<lambda>s. write_neg_data s type flags data)"
  unfolding write_neg_data_def neg_data_def
  by (rule emits_then emits_rules refl)+ simp

definition token_data :: "'t rdpNego \<Rightarrow> u8 list" where
  "token_data n =
     (case n_RoutingToken n of
        Some token \<Rightarrow> token @ (if token_terminated token (n_RoutingTokenLength n) then [] else [0x0D, 0x0A])
      | None \<Rightarrow>
          (case n_cookie n of None \<Rightarrow> []
           | Some cookie \<Rightarrow> cookie_prefix @ take (unat (n_CookieMaxLength n)) cookie @ [0x0D, 0x0A]))"

text \<open>The representation invariant of the token: its length field is its length.\<close>

definition token_ok :: "'t rdpNego \<Rightarrow> bool" where
  "token_ok n \<longleftrightarrow> (\<forall>token. n_RoutingToken n = Some token \<longrightarrow> length token = unat (n_RoutingTokenLength n) \<and>
     length token < 2 ^ 32 - 2)"

lemma length_cookie_prefix [simp]: "length cookie_prefix = 17"
  by (simp add: cookie_prefix_def)

lemma emits_routing_token:
  assumes "n_RoutingToken n = Some token" "length token = unat (n_RoutingTokenLength n)"
    "length token < 2 ^ 32 - 2"
  shows "emits (length (token_data n)) (token_data n) (write_token_or_cookie n)"
proof -
  let ?len = "n_RoutingTokenLength n"
  have wrap: "unat (?len + 2) = unat ?len + 2"
    using assms(2,3) by (simp add: unat_word_ariths(1))
  have "emits () token (\<lambda>s. Stream_Write s token (unat ?len))"
    using emits_block [of "length token" token] assms(2) by simp
  moreover have "emits (unat ?len) [] (Ok (unat ?len))" by (rule emits_Ok)
  moreover have "emits (unat (?len + 2)) ([0x0D] @ [0x0A] @ []) (\<lambda>s. and_then (Stream_Write_UINT8 s 0x0D) (\<lambda>_ s.
      and_then (Stream_Write_UINT8 s 0x0A) (\<lambda>_ s. Ok (unat (?len + 2)) s)))"
    by (rule emits_then [OF _ _ refl] emits_rules)+
  ultimately show ?thesis
    unfolding write_token_or_cookie_def token_data_def assms(1) option.case Let_def
    using wrap assms(2) by (cases "token_terminated token ?len") (auto intro: emits_then)
qed

lemma emits_cookie:
  assumes "n_RoutingToken n = None" "n_cookie n = Some cookie"
  shows "emits (length (token_data n)) (token_data n) (write_token_or_cookie n)"
proof -
  define k where "k = (if length cookie > unat (n_CookieMaxLength n) then unat (n_CookieMaxLength n) else length cookie)"
  have k: "take (unat (n_CookieMaxLength n)) cookie = take k cookie" "k \<le> length cookie" by (auto simp: k_def)
  have p: "emits () cookie_prefix (\<lambda>s. Stream_Write s cookie_prefix 17)"
    using emits_block [of 17 cookie_prefix] by simp
  have "emits (k + 19) (cookie_prefix @ take k cookie @ [0x0D] @ [0x0A] @ []) (write_token_or_cookie n)"
    unfolding write_token_or_cookie_def assms option.case Let_def k_def [symmetric]
    by (rule emits_then [OF _ _ refl] emits_rules emits_block [OF k(2)] p)+
  moreover have "token_data n = cookie_prefix @ take k cookie @ [0x0D] @ [0x0A] @ []"
    by (simp add: token_data_def assms k(1))
  ultimately show ?thesis using k(2) by (simp add: add.commute)
qed

lemma emits_token: "token_ok n \<Longrightarrow> emits (length (token_data n)) (token_data n) (write_token_or_cookie n)"
  by (cases "n_RoutingToken n"; cases "n_cookie n")
    (auto simp: token_ok_def intro: emits_routing_token emits_cookie,
      simp add: write_token_or_cookie_def token_data_def emits_def)

definition request_data :: "'t rdpNego \<Rightarrow> u8 list" where
  "request_data n = token_data n @
     (if n_RequestedProtocols n > PROTOCOL_RDP \<or> n_sendNegoData n
      then neg_data TYPE_RDP_NEG_REQ (if n_RestrictedAdminModeRequired n then 1 else 0) (n_RequestedProtocols n)
      else [])"

lemma emits_request:
  assumes "token_ok n"
  shows "emits (length (request_data n)) (request_data n) (write_request_data n)"
proof -
  let ?b = "n_RequestedProtocols n > PROTOCOL_RDP \<or> n_sendNegoData n"
  let ?d = "neg_data TYPE_RDP_NEG_REQ (if n_RestrictedAdminModeRequired n then 1 else 0) (n_RequestedProtocols n)"
  have "emits (length (token_data n) + 8) (?d @ [])
     (\<lambda>s. and_then (write_neg_data s TYPE_RDP_NEG_REQ (if n_RestrictedAdminModeRequired n then 1 else 0)
        (n_RequestedProtocols n)) (\<lambda>_ s. Ok (length (token_data n) + 8) s))"
    by (rule emits_then [OF _ _ refl] emits_neg_data emits_Ok)+
  then show ?thesis
    unfolding write_request_data_def request_data_def
    by (intro emits_then [OF emits_token [OF assms] _ refl]) (cases ?b; simp add: emits_Ok)
qed

text \<open>A connection PDU: the two headers in front of the data. The length indicator is one byte.\<close>

definition connection_pdu :: "u8 \<Rightarrow> u8 list \<Rightarrow> u8 list" where
  "connection_pdu code data =
     tpkt_enc (of_nat (11 + length data)) @ tpdu_enc (code, of_nat (6 + length data)) @ data"

lemma ucast_of_nat_octet: "ucast (of_nat k :: u16) = (of_nat k :: u8)"
  by (simp add: word_unat_eq_iff unsigned_ucast_eq unsigned_of_nat unsigned_take_bit_eq)

lemma connection_headers:
  fixes f :: "nat \<Rightarrow> u8"
  assumes "11 + length bs \<le> k" "k < 2 ^ 63" "code = X224_TPDU_CONNECTION_REQUEST \<or> code = X224_TPDU_CONNECTION_CONFIRM"
  defines "s \<equiv> Stream_SetPosition (put bs (Stream_Seek (fresh f k) 11)) 0"
  shows "\<exists>t. tpkt_write_header s (of_nat (11 + length bs)) = Ok () t \<and>
     (\<exists>u. tpdu_write_header t (of_nat (11 + length bs) - 5) code = Ok () u \<and>
       take (11 + length bs) (s_buffer u) = connection_pdu code bs)"
proof -
  note g = gap_rewound [OF assms(1,2), where f = f, folded s_def]
  have li: "ucast (of_nat (11 + length bs) - 5 :: u16) = (of_nat (6 + length bs) :: u8)"
    using ucast_of_nat_octet [of "6 + length bs"] by simp
  let ?h = "tpkt_enc (of_nat (11 + length bs)) @ tpdu_enc (code, of_nat (6 + length bs))"
  have len: "length (tpdu_enc (code, x)) = 7" for x
    using assms(3) by (auto simp: tpdu_enc_def x224_consts)
  have w1: "tpkt_write_header s (of_nat (11 + length bs)) = Ok () (put (tpkt_enc (of_nat (11 + length bs))) s)"
    using g(1,2) assms(1) by (simp add: stream_write)
  have w2: "tpdu_write_header (put (tpkt_enc (of_nat (11 + length bs))) s) (of_nat (11 + length bs) - 5) code
      = Ok () (put ?h s)"
    using g(1,2) assms(1) li by (subst tpdu_write_header_enc) (simp_all add: len)
  have "take (11 + length bs) (s_buffer (put ?h s)) = ?h @ bs"
    by (rule g(4)) (simp add: len)
  with w1 w2 show ?thesis by (auto simp: connection_pdu_def)
qed

text \<open>The transport below a negotiation that always gets its streams and can always write.\<close>

definition env_ready :: "'t env \<Rightarrow> bool" where
  "env_ready env \<longleftrightarrow> (\<forall>t. granted (fst (e_stream env t)))"

lemma nego_stream_ready:
  assumes "env_ready env" "0 < k"
  obtains f where "\<And>F. nego_stream env k n F = F (n\<lparr>n_transport := snd (e_stream env (n_transport n))\<rparr>) (fresh f k)"
proof -
  obtain u f where "fst (e_stream env (n_transport n)) = (Some u, Some f)"
    using assms(1) granted_cases unfolding env_ready_def by metis
  then have "nego_stream env k n F = F (n\<lparr>n_transport := snd (e_stream env (n_transport n))\<rparr>) (fresh f k)" for F
    using assms(2) by (simp add: nego_stream_def case_prod_beta with_stream_granted)
  then show ?thesis by (rule that)
qed

text \<open>What handing the PDU to the transport does to the negotiation.\<close>

definition transmitted :: "'t env \<Rightarrow> u8 list \<Rightarrow> 't rdpNego \<Rightarrow> (unit, 't rdpNego) res" where
  "transmitted env pdu n =
     (let (status, t) = e_write env pdu (snd (e_stream env (n_transport n)))
      in if status < 0 then Fail (n\<lparr>n_transport := t\<rparr>) else Ok () (n\<lparr>n_transport := t\<rparr>))"

lemma nego_transmit_pdu:
  "take (s_pointer s) (s_buffer s) = pdu \<Longrightarrow>
   nego_transmit env (n\<lparr>n_transport := snd (e_stream env (n_transport n))\<rparr>) s = transmitted env pdu n"
  by (simp add: nego_transmit_def transmitted_def case_prod_beta Let_def)

lemma token_frame [simp]:
  "token_data (n\<lparr>n_transport := t\<rparr>) = token_data n" "token_ok (n\<lparr>n_transport := t\<rparr>) = token_ok n"
  "request_data (n\<lparr>n_transport := t\<rparr>) = request_data n"
proof -
  show d: "token_data (n\<lparr>n_transport := t\<rparr>) = token_data n"
    by (cases "n_RoutingToken n"; cases "n_cookie n") (simp_all add: token_data_def)
  show "token_ok (n\<lparr>n_transport := t\<rparr>) = token_ok n" unfolding token_ok_def by simp
  show "request_data (n\<lparr>n_transport := t\<rparr>) = request_data n" by (simp add: request_data_def d)
qed

lemma nego_send_request_pdu:
  assumes "env_ready env" "token_ok n"
  shows "nego_send_negotiation_request env n =
    (if 11 + length (request_data n) \<le> 512
     then transmitted env (connection_pdu X224_TPDU_CONNECTION_REQUEST (request_data n)) n else Fault)"
proof -
  let ?n = "n\<lparr>n_transport := snd (e_stream env (n_transport n))\<rparr>" and ?d = "request_data n"
  obtain f where f: "\<And>F :: _ \<Rightarrow> _ \<Rightarrow> (unit, _) res. nego_stream env 512 n F = F ?n (fresh f 512)"
    using nego_stream_ready [OF assms(1), of 512 n] by auto
  have tok: "token_ok ?n" "request_data ?n = ?d"
    using assms(2) by simp_all
  have gap: "stream_ok (Stream_Seek (fresh f 512) 11)" "room (Stream_Seek (fresh f 512) 11) = 501"
    "s_pointer (Stream_Seek (fresh f 512) 11) = 11"
    using gap_left [of 11 512 f] by simp_all
  have w: "write_request_data ?n (Stream_Seek (fresh f 512) 11) =
    (if length ?d \<le> 501 then Ok (length ?d) (put ?d (Stream_Seek (fresh f 512) 11)) else Fault)"
    using emitsD [OF emits_request [OF tok(1)] gap(1)] gap(2) tok(2) by simp
  show ?thesis
  proof (cases "length ?d \<le> 501")
    case True
    then have fits: "11 + length ?d \<le> 512" by simp
    obtain t u where h: "tpkt_write_header (Stream_SetPosition (put ?d (Stream_Seek (fresh f 512) 11)) 0)
        (of_nat (11 + length ?d)) = Ok () t"
      "tpdu_write_header t (of_nat (11 + length ?d) - 5) X224_TPDU_CONNECTION_REQUEST = Ok () u"
      "take (11 + length ?d) (s_buffer u) = connection_pdu X224_TPDU_CONNECTION_REQUEST ?d"
      using connection_headers [OF fits, of X224_TPDU_CONNECTION_REQUEST f] by auto
    have "nego_transmit env ?n (Stream_SealLength (Stream_SetPosition u (11 + length ?d))) =
        transmitted env (connection_pdu X224_TPDU_CONNECTION_REQUEST ?d) n"
      by (rule nego_transmit_pdu) (simp add: Stream_SealLength_def Stream_SetPosition_def h(3))
    then have "send_request_pdu env ?n 0 (11 + length ?d) (put ?d (Stream_Seek (fresh f 512) 11)) =
        transmitted env (connection_pdu X224_TPDU_CONNECTION_REQUEST ?d) n"
      using fits h(1,2) gap(3)
      by (simp add: send_request_pdu_def tpdu_write_connection_request_def Stream_GetPosition_def del: of_nat_add)
    with f w True show ?thesis
      by (simp add: nego_send_negotiation_request_def Stream_GetPosition_def)
  next
    case False
    with f w show ?thesis by (simp add: nego_send_negotiation_request_def)
  qed
qed

lemma length_connection_pdu [simp]:
  "code \<noteq> X224_TPDU_DATA \<Longrightarrow> length (connection_pdu code data) = 11 + length data"
  by (simp add: connection_pdu_def tpdu_enc_def)

lemma connection_pdu_headers:
  assumes s: "readable s" "remaining s = connection_pdu code data" and d: "length data \<le> 249"
    and code: "code \<noteq> X224_TPDU_DATA"
  shows "tpkt_read_header s = Ok (of_nat (11 + length data)) (skip 4 s)"
    "tpdu_read_header (skip 4 s) (of_nat (11 + length data)) = Ok (code, of_nat (6 + length data)) (skip 11 s)"
    "readable (skip 4 s)" "readable (skip 11 s)" "remaining (skip 11 s) = data"
proof -
  let ?n = "of_nat (11 + length data) :: u16" and ?li = "of_nat (6 + length data) :: u8"
  have n: "unat ?n = 11 + length data" "unat ?li = 6 + length data"
    using d by (simp_all add: unsigned_of_nat take_bit_nat_eq_self del: of_nat_add)
  have len: "length (tpdu_enc (code, ?li)) = 7" using code by (simp add: tpdu_enc_def)
  have r: "remaining s = tpkt_enc ?n @ (tpdu_enc (code, ?li) @ data)"
    using s(2) by (simp add: connection_pdu_def del: of_nat_add)
  have "7 \<le> ?n" by (simp only: word_le_nat_alt n(1)) simp
  then show t: "tpkt_read_header s = Ok ?n (skip 4 s)"
    using s(1) r len n(1) by (intro tpkt_read_header_enc [of s ?n "tpdu_enc (code, ?li) @ data"])
      (simp_all del: of_nat_add)
  show rd: "readable (skip 4 s)" "readable (skip 11 s)" using s(1) r len by simp_all
  have r4: "remaining (skip 4 s) = tpdu_enc (code, ?li) @ data" using r by simp
  have "uint ?li + 4 \<le> uint ?n" by (simp only: uint_nat n)
  from tpdu_read_header_enc [OF rd(1) this r4] len
  show "tpdu_read_header (skip 4 s) ?n = Ok (code, ?li) (skip 11 s)" by (simp del: of_nat_add)
  have "skip 11 s = skip 7 (skip 4 s)" by simp
  then show "remaining (skip 11 s) = data" using r4 len by (metis append_eq_conv_conj remaining_skip)
qed

lemma connection_confirm_read:
  assumes "readable s" "remaining s = connection_pdu X224_TPDU_CONNECTION_CONFIRM data" "length data \<le> 249"
  shows "tpdu_read_connection_confirm (skip 4 s) (of_nat (11 + length data)) =
    Ok (of_nat (6 + length data)) (skip 11 s)"
proof -
  have c: "X224_TPDU_CONNECTION_CONFIRM \<noteq> X224_TPDU_DATA" by (simp add: x224_consts)
  note h = connection_pdu_headers [OF assms c]
  have "unat (of_nat (6 + length data) :: u8) = 6 + length data"
    using assms(3) by (simp add: unsigned_of_nat take_bit_nat_eq_self del: of_nat_add)
  moreover have "size_sub (size_sub (s_pointer (skip 11 s)) (s_pointer (skip 4 s))) 1 = 6"
    by (simp add: skip_def size_sub_def)
  ultimately show ?thesis
    using h(2,4,5) by (simp add: tpdu_read_connection_confirm_def Stream_GetPosition_def size_sub_def
        del: of_nat_add)
qed

lemma neg_data_read:
  assumes "readable s" "remaining s = neg_data type flags d @ rest"
  shows "Stream_Read_UINT8 s = Ok type (skip 1 s)" "Stream_Read_UINT8 (skip 1 s) = Ok flags (skip 2 s)"
    "Stream_Read_UINT16 (skip 2 s) = Ok 8 (skip 4 s)" "Stream_Read_UINT32 (skip 4 s) = Ok d (skip 8 s)"
    "length (remaining s) = 8 + length rest" "readable (skip 1 s)" "readable (skip 8 s)"
    "remaining (skip 8 s) = rest"
proof -
  have r: "remaining s = type # flags # le16 8 @ le32 d @ rest" using assms(2) by (simp add: neg_data_def)
  then show "length (remaining s) = 8 + length rest" "remaining (skip 8 s) = rest" "readable (skip 1 s)"
    "readable (skip 8 s)" using assms(1) by (simp_all add: numeral_eq_Suc)
  show "Stream_Read_UINT8 s = Ok type (skip 1 s)" "Stream_Read_UINT8 (skip 1 s) = Ok flags (skip 2 s)"
    using assms(1) r by (simp_all add: stream_read skip_literals)
  show "Stream_Read_UINT16 (skip 2 s) = Ok 8 (skip 4 s)"
    using read_le16 [of "skip 2 s" 8 "le32 d @ rest"] assms(1) r by (simp add: eval_nat_numeral)
  show "Stream_Read_UINT32 (skip 4 s) = Ok d (skip 8 s)"
    using read_le32 [of "skip 4 s" d rest] assms(1) r by (simp add: numeral_eq_Suc le16_def)
qed

text \<open>What a client makes of the negotiation data of a confirm.\<close>

definition confirmed :: "u8 \<Rightarrow> u8 \<Rightarrow> u32 \<Rightarrow> 't rdpNego \<Rightarrow> 't rdpNego" where
  "confirmed type flags d n =
     (if type = TYPE_RDP_NEG_RSP then
        nego_check_selected (n\<lparr>n_flags := ucast flags, n_SelectedProtocol := d, n_state := NEGO_STATE_FINAL\<rparr>)
      else (note_failure d n)\<lparr>n_state := NEGO_STATE_FAIL\<rparr>)"

lemma nego_recv_confirmed:
  assumes s: "readable s" "remaining s = connection_pdu X224_TPDU_CONNECTION_CONFIRM (neg_data type flags d)"
    and type: "type \<in> {TYPE_RDP_NEG_RSP, TYPE_RDP_NEG_FAILURE}"
  shows "nego_recv n s = Ok () (confirmed type flags d n, skip 19 s)"
proof -
  have c: "X224_TPDU_CONNECTION_CONFIRM \<noteq> X224_TPDU_DATA" by (simp add: x224_consts)
  have l: "length (neg_data type flags d) \<le> 249" by simp
  note h = connection_pdu_headers [OF s l c, unfolded length_neg_data, simplified]
  note k = connection_confirm_read [OF s l, unfolded length_neg_data, simplified]
  have r: "remaining (skip 11 s) = neg_data type flags d @ []" using h(5) by simp
  note q = neg_data_read [OF h(4) r, simplified]
  have "nego_recv_data 14 n (skip 11 s) = Ok () (confirmed type flags d n, skip 19 s)"
    using q type h(4) by (auto simp: nego_recv_data_def nego_process_negotiation_response_def confirmed_def
        nego_process_negotiation_failure_def)
  moreover have "tpkt_ensure_stream_consumed (skip 19 s)"
    using q(7,8) by (simp add: tpkt_ensure_stream_consumed_def)
  ultimately show ?thesis using h(1) k by (simp add: nego_recv_def)
qed

definition response_data :: "'t rdpNego \<Rightarrow> u8 list" where
  "response_data n =
     (if n_SelectedProtocol n AND PROTOCOL_FAILED_NEGO \<noteq> 0
      then neg_data TYPE_RDP_NEG_FAILURE 0 (n_SelectedProtocol n AND NOT PROTOCOL_FAILED_NEGO)
      else neg_data TYPE_RDP_NEG_RSP (if SupportGraphicsPipeline (n_settings n) then 3 else 1)
             (n_SelectedProtocol n))"

lemma length_response_data [simp]: "length (response_data n) = 8"
  by (simp add: response_data_def)

lemma nego_send_response_pdu:
  assumes "env_ready env"
  shows "nego_send_negotiation_response env n =
    and_then (transmitted env (connection_pdu X224_TPDU_CONNECTION_CONFIRM (response_data n)) n) (\<lambda>_ m.
      let (settings, ok) = response_settings m; m = m\<lparr>n_settings := settings\<rparr> in if ok then Ok () m else Fail m)"
proof -
  let ?n = "n\<lparr>n_transport := snd (e_stream env (n_transport n))\<rparr>" and ?d = "response_data n"
  obtain f where f: "\<And>F :: _ \<Rightarrow> _ \<Rightarrow> (unit, _) res. nego_stream env 512 n F = F ?n (fresh f 512)"
    using nego_stream_ready [OF assms, of 512 n] by auto
  have gap: "stream_ok (Stream_Seek (fresh f 512) 11)" "room (Stream_Seek (fresh f 512) 11) = 501"
    "s_pointer (Stream_Seek (fresh f 512) 11) = 11"
    using gap_left [of 11 512 f] by simp_all
  have w: "(if n_SelectedProtocol n AND PROTOCOL_FAILED_NEGO \<noteq> 0
      then write_neg_data (Stream_Seek (fresh f 512) 11) TYPE_RDP_NEG_FAILURE 0
             (n_SelectedProtocol n AND NOT PROTOCOL_FAILED_NEGO)
      else write_neg_data (Stream_Seek (fresh f 512) 11) TYPE_RDP_NEG_RSP
             (if SupportGraphicsPipeline (n_settings n) then 3 else 1) (n_SelectedProtocol n)) =
    Ok () (put ?d (Stream_Seek (fresh f 512) 11))"
    using emitsD [OF emits_neg_data gap(1)] gap(2) by (simp add: response_data_def)
  obtain t u where h: "tpkt_write_header (Stream_SetPosition (put ?d (Stream_Seek (fresh f 512) 11)) 0) 19 = Ok () t"
    "tpdu_write_header t (19 - 5) X224_TPDU_CONNECTION_CONFIRM = Ok () u"
    "take 19 (s_buffer u) = connection_pdu X224_TPDU_CONNECTION_CONFIRM ?d"
    using connection_headers [of ?d 512 X224_TPDU_CONNECTION_CONFIRM f] by auto
  have p: "s_pointer (put ?d (Stream_Seek (fresh f 512) 11)) = 19" using gap(3) by simp
  have x: "nego_transmit env ?n (Stream_SealLength (Stream_SetPosition u 19)) =
      transmitted env (connection_pdu X224_TPDU_CONNECTION_CONFIRM ?d) n"
    by (rule nego_transmit_pdu) (simp add: Stream_SealLength_def Stream_SetPosition_def h(3))
  have z: "Stream_GetPosition (fresh f 512) = 0" "n_SelectedProtocol ?n = n_SelectedProtocol n"
    "n_settings ?n = n_settings n" by (simp_all add: Stream_GetPosition_def)
  show ?thesis
    unfolding nego_send_negotiation_response_def f Let_def z w then_free_simps
    using h(1,2) p x by (simp add: Stream_GetPosition_def tpdu_write_connection_confirm_def)
qed

subsection \<open>The token of a request\<close>

lemma le16_first_octet:
  fixes a b :: u8
  shows "ucast ((ucast a + push_bit 8 (ucast b) :: u16) AND 0xFF) = a"
proof -
  have "(ucast a :: u16) + push_bit 8 (ucast b) = ucast a OR push_bit 8 (ucast b)"
    by (rule disjunctive_add) (auto simp: bit_simps dest!: bit_imp_le_length)
  then show ?thesis unfolding and_mask8
    by (intro bit_word_eqI) (auto simp: bit_simps)
qed

lemma not_crlf: "a \<noteq> 0x0D \<Longrightarrow> (ucast (a :: u8) + push_bit 8 (ucast (b :: u8)) :: u16) \<noteq> 0x0A0D"
  using le16_first_octet [of a b] by auto

lemma rewind_one: "readable s \<Longrightarrow> 2 \<le> length (remaining s) \<Longrightarrow> Stream_Rewind (skip 2 s) 1 = Ok () (skip 1 s)"
  by (simp add: Stream_Rewind_def skip_def)

lemma find_crlf_found:
  assumes "readable s" "remaining s = body @ 0x0D # 0x0A # rest" "0x0D \<notin> set body" "length body < fuel"
  shows "find_crlf fuel c s = Ok 0x0A0D (skip (length body + 2) s)"
  using assms
proof (induction body arbitrary: s fuel c)
  case Nil
  then show ?case by (cases fuel) (simp_all add: stream_read skip_literals)
next
  case (Cons b bs)
  from Cons.prems(4) obtain k where k: "fuel = Suc k" "length bs < k" by (cases fuel) auto
  have two: "2 \<le> length (remaining s)" using Cons.prems(2) by simp
  have "readable (skip 1 s)" "remaining (skip 1 s) = bs @ 0x0D # 0x0A # rest"
    using Cons.prems by simp_all
  from Cons.IH [OF this _ k(2)] Cons.prems(3)
  have IH: "find_crlf k c (skip 1 s) = Ok 0x0A0D (skip (length bs + 2) (skip 1 s))" for c by simp
  have ne: "(ucast (remaining s ! 0) + push_bit 8 (ucast (remaining s ! 1)) :: u16) \<noteq> 0x0A0D"
    using Cons.prems(2,3) by (intro not_crlf) simp
  show ?case
    using two ne IH rewind_one [OF Cons.prems(1) two] Cons.prems(1)
    by (simp add: k(1) stream_read(2) skip_literals)
qed

lemma find_crlf_safe:
  assumes "readable s" "length (remaining s) < fuel"
  shows "\<exists>c' k. find_crlf fuel c s = Ok c' (skip k s) \<and> k \<le> length (remaining s) \<and>
    (c' = 0x0A0D \<longrightarrow> c = 0x0A0D \<or> 2 \<le> k)"
  using assms
proof (induction fuel arbitrary: s c)
  case (Suc fuel)
  show ?case
  proof (cases "2 \<le> length (remaining s)")
    case True
    let ?v = "ucast (remaining s ! 0) + push_bit 8 (ucast (remaining s ! 1)) :: u16"
    have one: "readable (skip 1 s)" "length (remaining (skip 1 s)) < fuel" using Suc.prems True by simp_all
    show ?thesis
    proof (cases "?v = 0x0A0D")
      case True
      with Suc.prems \<open>2 \<le> length (remaining s)\<close> show ?thesis
        by (intro exI [of _ "0x0A0D"] exI [of _ 2]) (simp add: stream_read)
    next
      case False
      obtain c' k where k: "find_crlf fuel ?v (skip 1 s) = Ok c' (skip k (skip 1 s))"
        "k \<le> length (remaining (skip 1 s))" "c' = 0x0A0D \<longrightarrow> ?v = 0x0A0D \<or> 2 \<le> k"
        using Suc.IH [OF one, of ?v] by blast
      have "find_crlf (Suc fuel) c s = Ok c' (skip (Suc k) s)"
        using Suc.prems(1) True False k(1) rewind_one [OF Suc.prems(1) True]
        by (simp add: stream_read(2))
      with k(2,3) False True show ?thesis by (intro exI [of _ c'] exI [of _ "Suc k"]) auto
    qed
  next
    case False
    with Suc.prems show ?thesis by (intro exI [of _ c] exI [of _ 0]) simp
  qed
qed simp

section \<open>Memory safety\<close>

lemma process_safe:
  "readable s \<Longrightarrow> wp (nego_process_negotiation_request n s) (\<lambda>_ (_, t). advances s t) (\<lambda>(_, t). advances s t)"
  "readable s \<Longrightarrow> wp (nego_process_negotiation_response n s) (\<lambda>_ (_, t). advances s t) (\<lambda>(_, t). advances s t)"
  "readable s \<Longrightarrow> wp (nego_process_negotiation_failure n s) (\<lambda>_ (_, t). advances s t) (\<lambda>(_, t). advances s t)"
  by (cases "length (remaining s) < 7"; simp add: nego_process_negotiation_request_def
      nego_process_negotiation_response_def nego_process_negotiation_failure_def stream_read Let_def)+

lemma advances_further: "advances s t \<Longrightarrow> wp r (\<lambda>_ (_, u). advances t u) (\<lambda>(_, u). advances t u) \<Longrightarrow>
  wp r (\<lambda>_ (_, u). advances s u) (\<lambda>(_, u). advances s u)"
  by (erule wp_mono) (auto intro: advances_trans)

lemma nego_recv_data_safe:
  assumes "readable s" "6 < li \<longrightarrow> remaining s \<noteq> []"
  shows "wp (nego_recv_data li n s) (\<lambda>_ (_, t). advances s t) (\<lambda>(_, t). advances s t)"
proof (cases "6 < li")
  case True
  with assms have r: "Stream_Read_UINT8 s = Ok (remaining s ! 0) (skip 1 s)" "readable (skip 1 s)"
    and a: "advances s (skip 1 s)" by (simp_all add: stream_read(1) Suc_le_eq)
  note p = advances_further [OF a process_safe(2) [OF r(2)]] advances_further [OF a process_safe(3) [OF r(2)]]
  have "wp (nego_process_negotiation_response n (skip 1 s))
     (\<lambda>x y. wp (case y of (m, t) \<Rightarrow> Ok () (nego_check_selected m, t)) (\<lambda>_ (_, t). advances s t) (\<lambda>(_, t). advances s t))
     (\<lambda>(_, t). advances s t)"
    by (rule wp_mono [OF p(1)]) auto
  with True r(1) p(2) a show ?thesis by (auto simp: nego_recv_data_def)
qed (simp add: nego_recv_data_def)

lemma nego_recv_safe:
  assumes "readable s"
  shows "wp (nego_recv n s) (\<lambda>_ (_, t). advances s t) (\<lambda>(_, t). advances s t)"
proof (cases "tpkt_read_header s")
  case (Ok len t)
  have st: "advances s t" "readable t"
    using safe_fromD [OF tpkt_read_header_safe assms] Ok advances_readable [OF _ assms] by auto
  show ?thesis
  proof (cases "tpdu_read_connection_confirm t len")
    case (Ok li u)
    note li = tpdu_read_connection_confirm_li [OF st(2) Ok]
    then have u: "advances s u" "readable u" "6 < li \<longrightarrow> remaining u \<noteq> []"
      using st by (auto intro: advances_trans simp: word_less_nat_alt)
    have "wp (nego_recv_data li n u) (\<lambda>_ (_, t). advances s t) (\<lambda>(_, t). advances s t)"
      using advances_further [OF u(1) nego_recv_data_safe [OF u(2,3)]] .
    then show ?thesis
      using \<open>tpkt_read_header s = Ok len t\<close> Ok by (auto simp: nego_recv_def elim!: wp_mono)
  next
    case (Fail u)
    have "safe_read (\<lambda>s. tpdu_read_connection_confirm s len)" by (rule tpdu_read_connection_confirm_safe)
    from safe_fromD [OF this st(2)] Fail st(1) have "advances s u" by (auto intro: advances_trans)
    with \<open>tpkt_read_header s = Ok len t\<close> Fail show ?thesis by (simp add: nego_recv_def)
  next
    case Fault
    have "safe_read (\<lambda>s. tpdu_read_connection_confirm s len)" by (rule tpdu_read_connection_confirm_safe)
    from safe_read_no_fault [OF this st(2)] Fault show ?thesis by simp
  qed
qed (use safe_fromD [OF tpkt_read_header_safe assms] in \<open>simp_all add: nego_recv_def\<close>)

text \<open>
  A parser of requests overwrites the terminator in the stream, so only the layout of the stream is
  kept. \<open>slack\<close> is the room behind the PDU: \<open>transport_read_pdu\<close> asks for the PDU length on top of the
  header it has already read.
\<close>

definition same_layout :: "wStream \<Rightarrow> wStream \<Rightarrow> bool" where
  "same_layout s t \<longleftrightarrow> readable t \<and> s_length t = s_length s \<and> s_capacity t = s_capacity s"

definition slack :: "wStream \<Rightarrow> bool" where
  "slack s \<longleftrightarrow> s_length s + 2 \<le> s_capacity s"

lemma same_layout_advances: "readable s \<Longrightarrow> advances s t \<Longrightarrow> same_layout s t"
  by (auto simp: same_layout_def advances_def skip_def [of _ s] dest: advances_readable)
    (metis advances_def advances_readable skip_def)

lemma length_c_string: "length (c_string xs) \<le> length xs"
  by (simp add: c_string_def length_takeWhile_le)

lemma same_layout_SetPosition:
  "same_layout s t \<Longrightarrow> p \<le> s_length s \<Longrightarrow> same_layout s (Stream_SetPosition t p)"
  by (auto simp: same_layout_def readable_def stream_ok_def Stream_SetPosition_def)

text \<open>After the search the pointer is \<open>k\<close> bytes behind \<open>pos\<close>, the terminator included.\<close>

lemma terminator_cleared:
  assumes s: "readable s" and k: "2 \<le> k" "k \<le> length (remaining s)"
  shows "Stream_Rewind (skip k s) 2 = Ok () (skip (k - 2) s)"
    "Stream_Write_UINT16 (skip (k - 2) s) 0 = Ok () (put [0, 0] (skip (k - 2) s))"
    "same_layout s (put [0, 0] (skip (k - 2) s))"
    "s_buffer (put [0, 0] (skip (k - 2) s)) = blit (s_buffer s) (s_pointer s + (k - 2)) [0, 0]"
proof -
  have len: "s_pointer s + k \<le> s_length s" "s_length s \<le> length (s_buffer s)" "stream_ok s"
    "s_capacity s = length (s_buffer s)"
    using s k readable_length_remaining [OF s] by (auto simp: readable_def stream_ok_def)
  then have ok: "stream_ok (skip (k - 2) s)" "2 \<le> room (skip (k - 2) s)"
    using k(1) by (auto simp: stream_ok_def skip_def room_def)
  then show "Stream_Write_UINT16 (skip (k - 2) s) 0 = Ok () (put [0, 0] (skip (k - 2) s))"
    by (simp add: write_u16 le16_def)
  show "Stream_Rewind (skip k s) 2 = Ok () (skip (k - 2) s)"
    using k(1) by (simp add: Stream_Rewind_def skip_def)
  show "s_buffer (put [0, 0] (skip (k - 2) s)) = blit (s_buffer s) (s_pointer s + (k - 2)) [0, 0]"
    by (simp add: put_def skip_def)
  show "same_layout s (put [0, 0] (skip (k - 2) s))"
    using len k(1) ok stream_ok_put [OF ok(1), of "[0, 0]"]
    by (simp add: same_layout_def readable_def) (simp add: put_def skip_def)
qed

lemma store_token_safe:
  assumes s: "readable s" and k: "2 \<le> k" "k \<le> length (remaining s)" and p: "pos \<le> s_pointer s + (k - 2)"
  shows "wp (store_token_or_cookie al b pos n (skip k s)) (\<lambda>_ (_, t). same_layout s t) (\<lambda>(_, t). same_layout s t)"
proof -
  let ?t = "put [0, 0] (skip (k - 2) s)" and ?len = "s_pointer s + (k - 2) - pos"
  note t = terminator_cleared [OF s k]
  have len: "s_pointer s + k \<le> s_length s" "s_length s \<le> length (s_buffer s)"
    using s k readable_length_remaining [OF s] by (auto simp: readable_def stream_ok_def)
  have rewound: "same_layout s (Stream_SetPosition ?t pos)"
    using same_layout_SetPosition [OF t(3)] p len k(1) by simp
  have "unat (of_nat ?len :: u32) \<le> ?len" by (simp add: unsigned_of_nat take_bit_nat_less_eq_self)
  also have "?len \<le> length (drop pos (s_buffer ?t))" using t(4) len k(1) by simp
  finally have "nego_set_routing_token al n (drop pos (s_buffer ?t)) (of_nat ?len) \<noteq> Fault"
    by (auto simp: nego_set_routing_token_def Let_def split: option.splits)
  moreover have "nego_set_cookie al n c \<noteq> Fault" for c
    by (auto simp: nego_set_cookie_def Let_def split: option.splits)
  moreover have "size_sub (Stream_GetPosition (skip (k - 2) s)) pos = ?len"
    using p by (simp add: Stream_GetPosition_def skip_def size_sub_def)
  ultimately show ?thesis
    using rewound t(3) by (auto simp: store_token_or_cookie_def t(1,2) Let_def split: res.splits)
qed

lemma read_token_safe:
  assumes s: "readable s" "slack s"
  shows "wp (nego_read_request_token_or_cookie al n s) (\<lambda>_ (_, t). same_layout s t) (\<lambda>(_, t). same_layout s t)"
proof (cases "length (remaining s) < 15")
  case False
  let ?tok = "take 17 (drop (s_pointer s) (s_buffer s)) \<noteq> cookie_prefix"
  have blk: "in_block s 17" "s_capacity s = length (s_buffer s)"
    using s False readable_length_remaining [OF s(1)] by (auto simp: in_block_def slack_def readable_def stream_ok_def)
  have refl: "same_layout s s" using s(1) by (simp add: same_layout_def)
  have found: "wp (and_then (on_stream n (find_crlf (Suc (length (remaining s) - j)) 0 (skip j s))) (\<lambda>crlf (n, t).
       if crlf = 0x0A0D then store_token_or_cookie al ?tok (s_pointer s) n t
       else Fail (n, Stream_SetPosition t (s_pointer s)))) (\<lambda>_ (_, t). same_layout s t) (\<lambda>(_, t). same_layout s t)"
    if j: "j \<le> length (remaining s)" for j
  proof -
    have r: "readable (skip j s)" "length (remaining (skip j s)) < Suc (length (remaining s) - j)"
      using s(1) j by simp_all
    obtain c k where c: "find_crlf (Suc (length (remaining s) - j)) 0 (skip j s) = Ok c (skip k (skip j s))"
      "k \<le> length (remaining (skip j s))" "c = 0x0A0D \<longrightarrow> 2 \<le> k"
      using find_crlf_safe [OF r, of 0] by auto
    have jk: "j + k \<le> length (remaining s)" using c(2) j by simp
    show ?thesis
    proof (cases "c = 0x0A0D")
      case True
      then have "2 \<le> j + k" "s_pointer s \<le> s_pointer s + (j + k - 2)" using c(3) by simp_all
      from store_token_safe [OF s(1) this(1) jk this(2)] True c(1) show ?thesis by simp
    next
      case False
      have "same_layout s (Stream_SetPosition (skip (j + k) s) (s_pointer s))"
        using s(1) by (simp add: skip_def Stream_SetPosition_def same_layout_def readable_def stream_ok_def)
      with False c(1) show ?thesis by simp
    qed
  qed
  show ?thesis
  proof (cases ?tok)
    case True
    with s(1) False blk(1) found [of 0] show ?thesis
      by (simp add: nego_read_request_token_or_cookie_def Stream_GetPosition_def Let_def del: find_crlf.simps wp_and_then)
  next
    case False
    from False s(1) \<open>\<not> length (remaining s) < 15\<close> blk(1) refl found [of 17] show ?thesis
      by (auto simp add: nego_read_request_token_or_cookie_def Stream_GetPosition_def Let_def
          simp del: find_crlf.simps wp_and_then)
  qed
qed (use s(1) in \<open>simp add: nego_read_request_token_or_cookie_def same_layout_def\<close>)

lemma read_request_data_safe:
  assumes "readable s"
  shows "read_request_data n s \<noteq> Fault"
proof -
  have "wp (read_request_data n s) (\<lambda>_ _. True) (\<lambda>_. True)"
  proof (cases "8 \<le> length (remaining s)")
    case True
    with assms process_safe(1) [of "skip 1 s" n] show ?thesis
      by (auto simp: read_request_data_def stream_read(1) elim!: wp_mono)
  qed (use assms in \<open>simp add: read_request_data_def\<close>)
  then show ?thesis by (rule wp_not_Fault)
qed

lemma nego_read_request_safe:
  assumes s: "readable s" "slack s"
  shows "nego_read_request al n s \<noteq> Fault"
proof (cases "tpkt_read_header s")
  case (Ok len t)
  have st: "advances s t" "readable t"
    using safe_fromD [OF tpkt_read_header_safe s(1)] Ok advances_readable [OF _ s(1)] by auto
  show ?thesis
  proof (cases "tpdu_read_connection_request t len")
    case (Ok li u)
    then have u: "advances t u" using safe_fromD [OF tpdu_read_connection_request_safe st(2), of len] by simp
    have ru: "readable u" "slack u"
      using advances_readable [OF u st(2)] same_layout_advances [OF s(1) advances_trans [OF st(1) u]] s(2)
      by (simp_all add: same_layout_def slack_def)
    have "wp (nego_read_request_token_or_cookie al n u) (\<lambda>_ (m, v). read_request_data m v \<noteq> Fault) (\<lambda>_. True)"
      by (rule wp_mono [OF read_token_safe [OF ru]]) (auto simp: same_layout_def dest: read_request_data_safe)
    then show ?thesis
      using \<open>tpkt_read_header s = Ok len t\<close> Ok
      by (cases "nego_read_request_token_or_cookie al n u") (auto simp: nego_read_request_def)
  next
    case Fault
    with safe_read_no_fault [OF tpdu_read_connection_request_safe st(2)] show ?thesis by simp
  qed (use Ok in \<open>simp add: nego_read_request_def\<close>)
qed (use safe_fromD [OF tpkt_read_header_safe s(1)] in \<open>auto simp: nego_read_request_def\<close>)

section \<open>A request at the server\<close>

lemma buffer_from_pointer:
  "readable s \<Longrightarrow> drop (s_pointer s) (s_buffer s) = remaining s @ drop (s_length s) (s_buffer s)"
proof -
  assume "readable s"
  then have "s_length s = s_length s - s_pointer s + s_pointer s" by (simp add: readable_def)
  then show ?thesis unfolding remaining_def by (metis append_take_drop_id drop_drop)
qed

lemma c_string_stop: "0 \<notin> set xs \<Longrightarrow> c_string (xs @ 0 # ys) = xs" "0 \<notin> set xs \<Longrightarrow> c_string xs = xs"
  by (induction xs) (auto simp: c_string_def)

text \<open>The server tells a cookie from a routing token by its first 17 bytes, and keeps the prefix.\<close>

definition with_token :: "u8 list \<Rightarrow> 't rdpNego \<Rightarrow> 't rdpNego" where
  "with_token body n =
     (if take 17 body = cookie_prefix then n\<lparr>n_cookie := Some body\<rparr>
      else n\<lparr>n_RoutingTokenLength := of_nat (length body), n_RoutingToken := Some body\<rparr>)"

lemma store_token_found:
  assumes s: "readable s" "remaining s = body @ 0x0D # 0x0A # rest"
    and body: "0 \<notin> set body" "body \<noteq> []" "length body < 2 ^ 32"
  shows "\<exists>t. store_token_or_cookie (Some f) (take 17 body \<noteq> cookie_prefix) (s_pointer s) n
      (skip (length body + 2) s) = Ok () (with_token body n, t) \<and> readable t \<and> remaining t = rest"
proof -
  let ?k = "length body + 2" and ?t = "put [0, 0] (skip (length body) s)"
  define P R where "P = take (s_pointer s) (s_buffer s)" and "R = drop (s_length s) (s_buffer s)"
  have k: "2 \<le> ?k" "?k \<le> length (remaining s)" using s(2) by simp_all
  note t = terminator_cleared [OF s(1) k, simplified]
  have "drop (s_pointer s) (s_buffer s) = body @ 0x0D # 0x0A # rest @ R"
    using buffer_from_pointer [OF s(1)] s(2) by (simp add: R_def)
  then have b: "s_buffer s = P @ body @ 0x0D # 0x0A # rest @ R"
    unfolding P_def by (metis append_take_drop_id)
  have P: "length P = s_pointer s" using s(1) by (simp add: P_def readable_def stream_ok_def)
  have bt: "s_buffer ?t = P @ body @ 0 # 0 # rest @ R"
    unfolding t(4) b using P by (simp add: blit_def)
  have str: "drop (s_pointer s) (s_buffer ?t) = body @ 0 # 0 # rest @ R" unfolding bt using P by simp
  have "s_length s = s_pointer s + (length body + 2 + length rest)"
    using readable_length_remaining [OF s(1)] s by (auto simp: readable_def)
  then have "remaining ?t = rest"
    unfolding remaining_def bt using P by (simp add: skip_def)
  moreover have len: "size_sub (Stream_GetPosition (skip (length body) s)) (s_pointer s) = length body"
    by (simp add: Stream_GetPosition_def skip_def size_sub_def)
  have u: "unat (of_nat (length body) :: u32) = length body"
    using body(3) by (simp add: unsigned_of_nat take_bit_nat_eq_self)
  then have nz: "(of_nat (length body) :: u32) \<noteq> 0" using body(2) by (metis length_0_conv unsigned_0)
  have "store_token_or_cookie (Some f) (take 17 body \<noteq> cookie_prefix) (s_pointer s) n (skip ?k s) =
      Ok () (with_token body n, ?t)"
    unfolding store_token_or_cookie_def terminator_cleared(1) [OF s(1) k] diff_add_inverse2 t(2)
      on_stream_simps and_then.simps prod.case Let_def len str
    using body c_string_stop u nz
    by (simp add: with_token_def nego_set_routing_token_def nego_set_cookie_def malloc_def Let_def)
  ultimately show ?thesis using t(3) by (auto simp: same_layout_def)
qed

lemma prefix_no_cr: "0x0D \<notin> set cookie_prefix"
  by (simp add: cookie_prefix_def)

lemma read_token_found:
  assumes s: "readable s" "slack s" "remaining s = body @ 0x0D # 0x0A # rest"
    and body: "0x0D \<notin> set body" "0 \<notin> set body" "body \<noteq> []" "length body < 2 ^ 32"
    and len: "15 \<le> length body + 2 + length rest"
  shows "\<exists>t. nego_read_request_token_or_cookie (Some f) n s = Ok () (with_token body n, t) \<and>
    readable t \<and> remaining t = rest"
proof -
  let ?tok = "take 17 (drop (s_pointer s) (s_buffer s)) \<noteq> cookie_prefix"
  have blk: "in_block s 17"
    using s len readable_length_remaining [OF s(1)]
    by (auto simp: in_block_def slack_def readable_def stream_ok_def)
  have b: "drop (s_pointer s) (s_buffer s) = body @ 0x0D # 0x0A # rest @ drop (s_length s) (s_buffer s)"
    using buffer_from_pointer [OF s(1)] s(3) by simp
  have long: "17 \<le> length body" if "\<not> ?tok"
  proof (rule ccontr)
    assume "\<not> 17 \<le> length body"
    then have "\<exists>k. 17 - length body = Suc k" by presburger
    then have "0x0D \<in> set (take 17 (body @ 0x0D # 0x0A # rest @ drop (s_length s) (s_buffer s)))" by auto
    with that prefix_no_cr b show False by simp
  qed
  have tok: "?tok \<longleftrightarrow> take 17 body \<noteq> cookie_prefix"
  proof (cases "17 \<le> length body")
    case True
    then show ?thesis unfolding b by simp
  next
    case False
    with long have "?tok" by blast
    moreover have "length (take 17 body) \<noteq> length cookie_prefix" using False by simp
    then have "take 17 body \<noteq> cookie_prefix" by metis
    ultimately show ?thesis by blast
  qed
  have found: "find_crlf fuel 0 (skip j s) = Ok 0x0A0D (skip (length body + 2) s)"
    if "j \<le> length body" "length body - j < fuel" for j fuel
  proof -
    have "remaining (skip j s) = drop j body @ 0x0D # 0x0A # rest" using s(3) that by simp
    moreover have "0x0D \<notin> set (drop j body)" using body(1) by (meson in_set_dropD)
    moreover have "readable (skip j s)" using s(1,3) that by simp
    moreover have "length (drop j body) < fuel" using that(2) by simp
    ultimately show ?thesis using find_crlf_found [of "skip j s" "drop j body" rest] that
      by (simp del: find_crlf.simps)
  qed
  have st: "store_token_or_cookie (Some f) ?tok (s_pointer s) n (skip (length body + 2) s) = Ok () (with_token body n, t)
      \<longrightarrow> nego_read_request_token_or_cookie (Some f) n s = Ok () (with_token body n, t)" for t
  proof (cases ?tok)
    case True
    with s(1,3) len blk found [of 0] show ?thesis
      by (simp add: nego_read_request_token_or_cookie_def Stream_GetPosition_def Let_def del: find_crlf.simps)
  next
    case False
    with s(1,3) len blk found [OF long] long show ?thesis
      by (simp add: nego_read_request_token_or_cookie_def Stream_GetPosition_def Let_def del: find_crlf.simps)
  qed
  from store_token_found [OF s(1,3) body(2-4), of f n, folded tok] st show ?thesis by blast
qed

lemma read_request_data_found:
  assumes "readable s" "remaining s = neg_data TYPE_RDP_NEG_REQ flags p"
  shows "\<exists>t. read_request_data n s = Ok () (n\<lparr>n_RequestedProtocols := p, n_state := NEGO_STATE_FINAL\<rparr>, t)"
proof -
  have "remaining s = neg_data TYPE_RDP_NEG_REQ flags p @ []" using assms(2) by simp
  note q = neg_data_read [OF assms(1) this, simplified]
  have "tpkt_ensure_stream_consumed (skip 8 s)"
    using q(7,8) by (simp add: tpkt_ensure_stream_consumed_def)
  with q assms(1) show ?thesis
    by (simp add: read_request_data_def nego_process_negotiation_request_def)
qed

text \<open>The tokens the wire format can carry: none, or one the server finds again.\<close>

definition token_carried :: "'t rdpNego \<Rightarrow> u8 list \<Rightarrow> bool" where
  "token_carried n body \<longleftrightarrow> token_data n = body @ [0x0D, 0x0A] \<and> 5 \<le> length body \<and>
     0x0D \<notin> set body \<and> 0 \<notin> set body"

lemma nego_read_request_found:
  assumes s: "readable s" "slack s" "remaining s = connection_pdu X224_TPDU_CONNECTION_REQUEST (request_data n)"
    and d: "length (request_data n) \<le> 249" "n_RequestedProtocols n > PROTOCOL_RDP \<or> n_sendNegoData n"
  shows "token_data n = [] \<Longrightarrow> \<exists>t. nego_read_request (Some f) m s =
      Ok () (m\<lparr>n_RequestedProtocols := n_RequestedProtocols n, n_state := NEGO_STATE_FINAL\<rparr>, t)"
    "token_carried n body \<Longrightarrow> \<exists>t. nego_read_request (Some f) m s =
      Ok () ((with_token body m)\<lparr>n_RequestedProtocols := n_RequestedProtocols n, n_state := NEGO_STATE_FINAL\<rparr>, t)"
proof -
  let ?nd = "neg_data TYPE_RDP_NEG_REQ (if n_RestrictedAdminModeRequired n then 1 else 0) (n_RequestedProtocols n)"
  have c: "X224_TPDU_CONNECTION_REQUEST \<noteq> X224_TPDU_DATA" by (simp add: x224_consts)
  note h = connection_pdu_headers [OF s(1,3) d(1) c]
  have li: "unat (of_nat (6 + length (request_data n)) :: u8) = 6 + length (request_data n)"
    using d(1) by (simp add: unsigned_of_nat take_bit_nat_eq_self del: of_nat_add)
  have rd: "request_data n = token_data n @ ?nd" using d(2) by (auto simp: request_data_def)
  have sl: "slack (skip 11 s)" using s(2) by (simp add: slack_def skip_def)
  have read: "nego_read_request (Some f) m s =
      and_then (nego_read_request_token_or_cookie (Some f) m (skip 11 s)) (\<lambda>_ (m, s). read_request_data m s)"
    using h li d(1) by (simp add: nego_read_request_def tpdu_read_connection_request_def size_add_def del: of_nat_add)
  show "\<exists>t. nego_read_request (Some f) m s =
      Ok () (m\<lparr>n_RequestedProtocols := n_RequestedProtocols n, n_state := NEGO_STATE_FINAL\<rparr>, t)"
    if "token_data n = []"
  proof -
    have r: "remaining (skip 11 s) = ?nd" using h(5) rd that by simp
    then have "nego_read_request_token_or_cookie (Some f) m (skip 11 s) = Ok () (m, skip 11 s)"
      using h(4) by (simp add: nego_read_request_token_or_cookie_def Let_def)
    with read read_request_data_found [OF h(4) r] show ?thesis by simp
  qed
  show "\<exists>t. nego_read_request (Some f) m s =
      Ok () ((with_token body m)\<lparr>n_RequestedProtocols := n_RequestedProtocols n, n_state := NEGO_STATE_FINAL\<rparr>, t)"
    if "token_carried n body"
  proof -
    have "remaining (skip 11 s) = body @ 0x0D # 0x0A # ?nd"
      using h(5) rd that by (simp add: token_carried_def)
    moreover have "length body < 2 ^ 32" using d(1) rd that by (simp add: token_carried_def)
    moreover have "body \<noteq> []" "5 \<le> length body" "0x0D \<notin> set body" "0 \<notin> set body"
      using that by (auto simp: token_carried_def)
    ultimately obtain t where t: "nego_read_request_token_or_cookie (Some f) m (skip 11 s) = Ok () (with_token body m, t)"
      "readable t" "remaining t = ?nd"
      using read_token_found [OF h(4) sl, of body ?nd f m] by auto
    with read read_request_data_found [OF t(2,3)] show ?thesis by simp
  qed
qed

section \<open>The outcome of a negotiation\<close>

lemma nego_highest_enabled:
  "nego_highest n \<noteq> NEGO_STATE_FAIL \<Longrightarrow>
   n_EnabledProtocols n (state_protocol (nego_highest n)) \<and> 0 < state_rank (nego_highest n) \<and>
   nego_highest n \<noteq> NEGO_STATE_FINAL"
  unfolding nego_highest_def by (auto split: if_split_asm)

lemma nego_start_Ok:
  assumes "nego_start env n = Ok () m" "n_state n = NEGO_STATE_INITIAL" "n_NegotiateSecurityLayer n"
  shows "config m = config n \<and> negotiating m m \<and> n_state m \<noteq> NEGO_STATE_FINAL"
proof -
  have h: "nego_highest n \<noteq> NEGO_STATE_FAIL" and
    m: "config m = config n \<and> n_state m = nego_highest n"
    using assms by (auto simp: nego_start_def Let_def split: if_splits res.splits dest!: nego_preconnection_Ok)
  then have "n_EnabledProtocols m = n_EnabledProtocols n" by (blast dest: config_negotiate(2))
  with nego_highest_enabled [OF h] m show ?thesis by (simp add: negotiating_def)
qed

text \<open>The handshake of the layer that was selected has succeeded.\<close>

definition layer_connected :: "'t env \<Rightarrow> u32 \<Rightarrow> 't \<Rightarrow> bool" where
  "layer_connected env p t' \<longleftrightarrow> (\<exists>t.
     p = PROTOCOL_HYBRID \<and> e_connect_nla env t = (True, t') \<or>
     p = PROTOCOL_SSL \<and> e_connect_tls env t = (True, t') \<or>
     p = PROTOCOL_RDP \<and> e_connect_rdp env t = (True, t'))"

lemma succeeded: "fst (f t) \<Longrightarrow> \<exists>u. f u = (True, snd (f t))"
  by (rule exI [of _ t], cases "f t") simp

lemma SelectedProtocol_updated [simp]:
  "SelectedProtocol (nego_update_settings n) = n_SelectedProtocol n"
  by (simp add: nego_update_settings_def Let_def)

lemma nego_finish_Ok:
  assumes "nego_finish env m = Ok () n'" "n_TcpConnected m" "\<not> n_SecurityConnected m"
  shows "n_TcpConnected n' \<and> n_SecurityConnected n' \<and> n_SelectedProtocol n' = n_SelectedProtocol m \<and>
    n_settings n' = nego_update_settings m \<and> layer_connected env (n_SelectedProtocol n') (n_transport n')"
  using assms unfolding nego_finish_def nego_security_connect_def Let_def case_prod_beta layer_connected_def
  by (auto intro: succeeded split: if_split_asm)

section \<open>A peer that always sends the same answer\<close>

definition peer_env :: "u8 list \<Rightarrow> unit env" where
  "peer_env answer =
     \<lparr>e_stream = (\<lambda>t. ((Some (\<lambda>_. ()), Some (\<lambda>_. 0)), t)), e_connect = (\<lambda>_ _ _ t. (True, t)),
      e_set_gateway_enabled = (\<lambda>_ t. t), e_connect_rdp = (\<lambda>t. (True, t)), e_connect_tls = (\<lambda>t. (True, t)),
      e_connect_nla = (\<lambda>t. (True, t)), e_disconnect = (\<lambda>t. t), e_write = (\<lambda>pdu t. (int (length pdu), t)),
      e_read_pdu = (\<lambda>s t. (int (length answer), received answer, t)), e_ConvertToUnicode = (\<lambda>_. (0, None)),
      e_accept_rdp = (\<lambda>t. (True, t)), e_accept_tls = (\<lambda>t. (True, t)), e_accept_nla = (\<lambda>t. (True, t)),
      e_set_blocking_mode = (\<lambda>_ t. t)\<rparr>"

lemma peer_ready: "env_ready (peer_env answer)"
  by (simp add: env_ready_def peer_env_def)

lemma unit_transport [simp]: "(n :: unit rdpNego)\<lparr>n_transport := t\<rparr> = n"
  by (cases n) simp

lemma peer_connect:
  "n_NegotiateSecurityLayer n \<Longrightarrow> \<not> n_GatewayEnabled n \<Longrightarrow>
   nego_transport_connect (peer_env answer) n = Ok () (n\<lparr>n_TcpConnected := True\<rparr>)"
  by (cases "n_TcpConnected n"; cases n)
    (simp_all add: nego_transport_connect_def nego_tcp_connect_def transport_attempt_def ask_def peer_env_def)

lemma peer_transmitted: "transmitted (peer_env answer) pdu n = Ok () n"
  by (simp add: transmitted_def peer_env_def)

lemma peer_response: "nego_recv_response (peer_env answer) n = drop_stream (nego_recv n (received answer))"
  by (simp add: nego_recv_response_def nego_stream_def ask_def peer_env_def with_stream_granted)

lemma peer_exchange:
  assumes "n_NegotiateSecurityLayer n" "\<not> n_GatewayEnabled n" "token_data n = []" "n_RoutingToken n = None"
  shows "nego_exchange (peer_env answer) n = drop_stream (nego_recv (n\<lparr>n_TcpConnected := True\<rparr>) (received answer))"
proof -
  let ?n = "n\<lparr>n_TcpConnected := True\<rparr>"
  have tok: "token_ok ?n" using assms(4) by (simp add: token_ok_def)
  have "token_data ?n = []" using assms(3) by (cases "n_cookie n") (simp_all add: token_data_def assms(4))
  then have "11 + length (request_data ?n) \<le> 512" by (simp add: request_data_def)
  with nego_send_request_pdu [OF peer_ready tok, of answer]
  have "nego_send_negotiation_request (peer_env answer) ?n = Ok () ?n" by (simp add: peer_transmitted)
  then show ?thesis
    using assms(1,2) by (simp add: nego_exchange_def peer_connect peer_response)
qed

text \<open>A client as \<open>nego_new\<close> creates it, with negotiation on and the protocols in \<open>P\<close> enabled.\<close>

definition plain_settings :: rdpSettings where
  "plain_settings = zero_settings\<lparr>TcpConnectTimeout := 15000, NlaSecurity := True\<rparr>"

definition client :: "u32 set \<Rightarrow> unit rdpNego" where
  "client P = (the (nego_new (Some (\<lambda>_. ())) plain_settings ()))
     \<lparr>n_NegotiateSecurityLayer := True, n_EnabledProtocols := (\<lambda>p. p \<in> P)\<rparr>"

lemma client_fields [simp]:
  "n_state (client P) = NEGO_STATE_INITIAL" "n_NegotiateSecurityLayer (client P)" "\<not> n_GatewayEnabled (client P)"
  "\<not> n_SecurityConnected (client P)" "n_EnabledProtocols (client P) p = (p \<in> P)" "n_RoutingToken (client P) = None"
  "n_cookie (client P) = None" "\<not> n_SendPreconnectionPdu (client P)" "n_settings (client P) = plain_settings"
  by (simp_all add: client_def nego_new_def nego_init_def)

lemma client_start:
  "nego_highest (client P) \<noteq> NEGO_STATE_FAIL \<Longrightarrow>
   nego_start env (client P) = Ok () ((client P)\<lparr>n_state := nego_highest (client P)\<rparr>)"
  by (simp add: nego_start_def)

definition confirm_pdu :: "u8 list \<Rightarrow> u8 list" where
  "confirm_pdu = connection_pdu X224_TPDU_CONNECTION_CONFIRM"

lemma received_confirm:
  "length data < 2 ^ 62 \<Longrightarrow> readable (received (confirm_pdu data))"
  "remaining (received (confirm_pdu data)) = connection_pdu X224_TPDU_CONNECTION_CONFIRM data"
proof -
  have l: "length (confirm_pdu data) = 11 + length data" by (simp add: confirm_pdu_def x224_consts)
  show "readable (received (confirm_pdu data))" if "length data < 2 ^ 62"
    by (rule received_readable) (use that l in simp)
  show "remaining (received (confirm_pdu data)) = connection_pdu X224_TPDU_CONNECTION_CONFIRM data"
    unfolding remaining_received by (simp add: confirm_pdu_def)
qed

lemma nego_recv_unknown:
  assumes type: "type \<notin> {TYPE_RDP_NEG_RSP, TYPE_RDP_NEG_FAILURE}"
    and s: "readable s" "remaining s = connection_pdu X224_TPDU_CONNECTION_CONFIRM [type]"
  shows "nego_recv n s = Ok () (n, skip 12 s)"
proof -
  have c: "X224_TPDU_CONNECTION_CONFIRM \<noteq> X224_TPDU_DATA" by (simp add: x224_consts)
  have l: "length [type] \<le> 249" by simp
  note h = connection_pdu_headers [OF s l c]
  have "readable (skip 12 s)" "remaining (skip 12 s) = []"
    using skip_over [of "skip 11 s" "[type]" "[]" 1] h(4,5) by simp_all
  then have r: "Stream_Read_UINT8 (skip 11 s) = Ok type (skip 12 s)" "tpkt_ensure_stream_consumed (skip 12 s)"
    using h(4,5) by (simp_all add: stream_read(1) tpkt_ensure_stream_consumed_def del: remaining_skip)
  have "nego_recv_data 7 n (skip 11 s) = Ok () (n, skip 12 s)"
    using type r(1) by (simp add: nego_recv_data_def)
  with h(1) connection_confirm_read [OF s l] r(2) show ?thesis by (simp add: nego_recv_def)
qed

text \<open>A client at standard RDP security, without token and gateway.\<close>

definition at_rdp :: "unit rdpNego \<Rightarrow> bool" where
  "at_rdp n \<longleftrightarrow> n_state n = NEGO_STATE_RDP \<and> n_NegotiateSecurityLayer n \<and> \<not> n_GatewayEnabled n \<and>
     n_RoutingToken n = None \<and> n_cookie n = None"

lemma at_rdp_again:
  assumes "at_rdp n" "type \<notin> {TYPE_RDP_NEG_RSP, TYPE_RDP_NEG_FAILURE}"
  shows "\<exists>k. nego_send (peer_env (confirm_pdu [type])) n = Ok () k \<and> at_rdp k"
proof -
  let ?n = "n\<lparr>n_RequestedProtocols := PROTOCOL_RDP\<rparr>"
  have "nego_exchange (peer_env (confirm_pdu [type])) ?n =
      drop_stream (nego_recv (?n\<lparr>n_TcpConnected := True\<rparr>) (received (confirm_pdu [type])))"
    using assms(1) by (intro peer_exchange) (simp_all add: at_rdp_def token_data_def)
  moreover have "nego_recv (?n\<lparr>n_TcpConnected := True\<rparr>) (received (confirm_pdu [type])) =
      Ok () (?n\<lparr>n_TcpConnected := True\<rparr>, skip 12 (received (confirm_pdu [type])))"
    using assms(2) received_confirm [of "[type]"] by (intro nego_recv_unknown) simp_all
  ultimately show ?thesis using assms(1)
    by (simp add: nego_send_def nego_attempt_rdp_def at_rdp_def drop_stream_def)
qed

lemma nego_loop_unknown:
  assumes "at_rdp n" "type \<notin> {TYPE_RDP_NEG_RSP, TYPE_RDP_NEG_FAILURE}"
  shows "nego_loop (peer_env (confirm_pdu [type])) n = None"
proof (rule ccontr)
  let ?E = "peer_env (confirm_pdu [type])"
  assume "nego_loop ?E n \<noteq> None"
  then obtain r where r: "nego_loop ?E n = Some r" by blast
  have "\<not> (?E = ?E \<and> at_rdp n)"
  proof (rule nego_loop.raw_induct [where P = "\<lambda>env n r. \<not> (env = ?E \<and> at_rdp n)", OF _ r], rule notI, elim conjE)
    fix f and env :: "unit env" and n :: "unit rdpNego" and r
    assume IH: "\<And>env n r. f env n = Some r \<Longrightarrow> \<not> (env = ?E \<and> at_rdp n)"
      and body: "(case nego_send env n of Fault \<Rightarrow> Some Fault | Fail nego \<Rightarrow> Some (Fail nego)
        | Ok _ nego \<Rightarrow>
            if n_state nego = NEGO_STATE_FAIL then Some (Fail (nego\<lparr>n_state := NEGO_STATE_FINAL\<rparr>))
            else if n_state nego \<noteq> NEGO_STATE_FINAL then f env nego
            else Some (Ok () nego)) = Some r" and e: "env = ?E" "at_rdp n"
    obtain k where k: "nego_send ?E n = Ok () k" "at_rdp k" using at_rdp_again [OF e(2) assms(2)] by blast
    from body k e(1) have "f ?E k = Some r" by (simp add: at_rdp_def)
    with IH [of ?E k r] k(2) show False by simp
  qed
  with assms(1) show False by simp
qed

text \<open>Against a peer that confirms NLA a client with NLA enabled succeeds at the first attempt.\<close>

lemma client_confirmed:
  assumes "PROTOCOL_HYBRID \<in> P" "PROTOCOL_HYBRID_EX \<notin> P"
  shows "\<exists>n'. nego_connect (peer_env (confirm_pdu (neg_data TYPE_RDP_NEG_RSP flags PROTOCOL_HYBRID))) (client P) =
    Some (Ok () n') \<and> n_SelectedProtocol n' = PROTOCOL_HYBRID"
proof -
  let ?d = "neg_data TYPE_RDP_NEG_RSP flags PROTOCOL_HYBRID"
  let ?E = "peer_env (confirm_pdu ?d)" and ?c = "(client P)\<lparr>n_state := NEGO_STATE_NLA\<rparr>"
  let ?r = "?c\<lparr>n_RequestedProtocols := PROTOCOL_HYBRID OR PROTOCOL_SSL\<rparr>"
  have high: "nego_highest (client P) = NEGO_STATE_NLA" using assms by (simp add: nego_highest_def)
  have ex: "nego_exchange ?E ?r = drop_stream (nego_recv (?r\<lparr>n_TcpConnected := True\<rparr>) (received (confirm_pdu ?d)))"
    by (rule peer_exchange) (simp_all add: token_data_def)
  have rcv: "nego_recv (?r\<lparr>n_TcpConnected := True\<rparr>) (received (confirm_pdu ?d)) =
      Ok () (confirmed TYPE_RDP_NEG_RSP flags PROTOCOL_HYBRID (?r\<lparr>n_TcpConnected := True\<rparr>), skip 19 (received (confirm_pdu ?d)))"
    using received_confirm [of ?d] by (intro nego_recv_confirmed) simp_all
  let ?k = "?r\<lparr>n_TcpConnected := True, n_flags := ucast flags, n_SelectedProtocol := PROTOCOL_HYBRID,
    n_state := NEGO_STATE_FINAL\<rparr>"
  have "nego_send ?E ?c = Ok () ?k"
    using ex rcv assms(1) by (simp add: nego_send_def nego_attempt_nla_def drop_stream_def confirmed_def
        nego_check_selected_def)
  then have "nego_loop ?E ?c = Some (Ok () ?k)" by (simp add: nego_loop.simps [of ?E ?c])
  moreover have "nego_finish ?E ?k = Ok () (?k\<lparr>n_settings := nego_update_settings ?k, n_SecurityConnected := True\<rparr>)"
    by (simp add: nego_finish_def nego_security_connect_def ask_def peer_env_def)
  ultimately show ?thesis
    using client_start [of P ?E] high by (simp add: nego_connect_def)
qed

section \<open>Properties\<close>

text \<open>
  C28. No downgrade. Whatever the network and the peer do, a negotiation that succeeds ends with the
  security handshake of the selected protocol completed on the transport and recorded in the settings,
  and that protocol is one the client has enabled, unless standard RDP security is enabled: a client
  that has not enabled it can only end up with TLS or NLA that it has enabled.
\<close>

theorem nego_no_downgrade:
  assumes "nego_connect env n = Some (Ok () n')" "n_state n = NEGO_STATE_INITIAL"
    "n_NegotiateSecurityLayer n" "\<not> n_SecurityConnected n"
  shows "n_TcpConnected n' \<and> n_SecurityConnected n' \<and> SelectedProtocol (n_settings n') = n_SelectedProtocol n' \<and>
    layer_connected env (n_SelectedProtocol n') (n_transport n') \<and>
    (n_EnabledProtocols n (n_SelectedProtocol n') \<or> n_EnabledProtocols n PROTOCOL_RDP)"
proof -
  obtain m where m: "nego_start env n = Ok () m" using assms(1) by (auto simp: nego_connect_def split: res.splits)
  note start = nego_start_Ok [OF m assms(2,3)]
  then have c: "config m = config n" by blast
  note cm = config_negotiate [OF c]
  obtain k where k: "nego_loop env m = Some (Ok () k)" "nego_finish env k = Ok () n'"
    using assms(1,3) m cm(1) by (auto simp: nego_connect_def and_then_Ok_iff)
  from nego_loop_reaches [OF k(1)] start cm assms(3,4)
  have nk: "negotiating m k" "n_state k = NEGO_STATE_FINAL" using negotiating_reachable [of env m k] by auto
  then have ck: "config k = config m" and a: "agreed k" "n_TcpConnected k" by (simp_all add: negotiating_def)
  have "\<not> n_SecurityConnected k" "n_EnabledProtocols k = n_EnabledProtocols n"
    using config_negotiate [OF ck] cm assms(4) by simp_all
  with nego_finish_Ok [OF k(2) a(2)] a(1) show ?thesis
    by (auto simp: agreed_def layer_connected_def)
qed

theorem nego_no_downgrade_witness:
  "\<exists>n'. nego_connect (peer_env (confirm_pdu (neg_data TYPE_RDP_NEG_RSP 1 PROTOCOL_HYBRID)))
       (client {PROTOCOL_HYBRID, PROTOCOL_SSL}) = Some (Ok () n') \<and>
     n_SecurityConnected n' \<and> n_SelectedProtocol n' = PROTOCOL_HYBRID"
proof -
  let ?E = "peer_env (confirm_pdu (neg_data TYPE_RDP_NEG_RSP 1 PROTOCOL_HYBRID))"
  let ?c = "client {PROTOCOL_HYBRID, PROTOCOL_SSL}"
  obtain n' where n': "nego_connect ?E ?c = Some (Ok () n')" "n_SelectedProtocol n' = PROTOCOL_HYBRID"
    using client_confirmed [of "{PROTOCOL_HYBRID, PROTOCOL_SSL}" 1] by auto
  with nego_no_downgrade [OF n'(1)] show ?thesis by auto
qed

text \<open>
  C29. The client returns. It returns from every negotiation, whatever the peer sends, when standard
  RDP security is not enabled, and otherwise whenever no attempt at standard RDP security is left
  without a verdict.
\<close>

theorem nego_connect_returns:
  assumes "n_state n = NEGO_STATE_INITIAL" "\<not> n_SecurityConnected n"
    "n_EnabledProtocols n PROTOCOL_RDP \<Longrightarrow>
     (\<And>m k. nego_step env m k \<Longrightarrow> n_state m = NEGO_STATE_RDP \<Longrightarrow> n_state k \<noteq> NEGO_STATE_RDP)"
  shows "\<exists>r. nego_connect env n = Some r"
proof (rule ccontr)
  assume "\<nexists>r. nego_connect env n = Some r"
  then have none: "nego_connect env n = None" by simp
  then obtain m where m: "nego_start env n = Ok () m" by (auto simp: nego_connect_def split: res.splits)
  with none have loop: "n_NegotiateSecurityLayer m" "nego_loop env m = None"
    by (auto simp: nego_connect_def split: if_splits)
  have neg: "n_NegotiateSecurityLayer n"
  proof (rule ccontr)
    assume "\<not> n_NegotiateSecurityLayer n"
    with m loop(1) show False
      by (auto simp: nego_start_def assms(1) Let_def nego_pin_highest_def split: if_splits res.splits NEGO_STATE.splits
          dest!: nego_preconnection_Ok config_negotiate(1))
  qed
  note start = nego_start_Ok [OF m assms(1) neg]
  then have c: "config m = config n" by blast
  note cm = config_negotiate [OF c]
  from nego_loop_None [OF loop(2), of m] start loop(1) cm assms(2)
  obtain p k where "nego_step env p k" "n_state p = NEGO_STATE_RDP" "n_state k = NEGO_STATE_RDP"
    "n_EnabledProtocols n PROTOCOL_RDP" by auto
  with assms(3) show False by blast
qed

theorem nego_connect_returns_witness:
  "\<exists>r. nego_connect (peer_env [0, 1, 2]) (client {PROTOCOL_HYBRID, PROTOCOL_SSL}) = Some r"
  by (rule nego_connect_returns) simp_all



text \<open>
  The connection request. What a client hands to its transport is accepted by the server, which
  then has the protocols the client asked for and the routing token or the cookie it sent, the cookie
  with its prefix.
\<close>

theorem nego_request_exchange:
  assumes "env_ready env" "token_ok n" "length (request_data n) \<le> 249"
    "n_RequestedProtocols n > PROTOCOL_RDP \<or> n_sendNegoData n" "token_data n = [] \<or> token_carried n body"
  shows "\<exists>pdu. nego_send_negotiation_request env n = transmitted env pdu n \<and>
    (\<forall>s. readable s \<and> slack s \<and> remaining s = pdu \<longrightarrow>
       (\<exists>t. nego_read_request (Some f) srv s =
          Ok () ((if token_data n = [] then srv else with_token body srv)
            \<lparr>n_RequestedProtocols := n_RequestedProtocols n, n_state := NEGO_STATE_FINAL\<rparr>, t)))"
proof -
  let ?pdu = "connection_pdu X224_TPDU_CONNECTION_REQUEST (request_data n)"
  let ?m = "(if token_data n = [] then srv else with_token body srv)
        \<lparr>n_RequestedProtocols := n_RequestedProtocols n, n_state := NEGO_STATE_FINAL\<rparr>"
  have w: "nego_send_negotiation_request env n = transmitted env ?pdu n"
    using nego_send_request_pdu [OF assms(1,2)] assms(3) by simp
  have "\<exists>t. nego_read_request (Some f) srv s = Ok () (?m, t)"
    if s: "readable s" "slack s" "remaining s = ?pdu" for s
  proof (cases "token_data n = []")
    case True
    with nego_read_request_found(1) [OF s assms(3,4), of f srv] show ?thesis by simp
  next
    case False
    with assms(5) have "token_carried n body" by simp
    from nego_read_request_found(2) [OF s assms(3,4) this, of f srv] False show ?thesis by simp
  qed
  with w show ?thesis by blast
qed

theorem nego_request_exchange_witness:
  "\<exists>pdu. nego_send_negotiation_request (peer_env []) ((client {})\<lparr>n_RequestedProtocols := 3, n_cookie := Some [0x61, 0x62]\<rparr>) =
      transmitted (peer_env []) pdu ((client {})\<lparr>n_RequestedProtocols := 3, n_cookie := Some [0x61, 0x62]\<rparr>) \<and>
    (\<forall>s. readable s \<and> slack s \<and> remaining s = pdu \<longrightarrow>
       (\<exists>srv t. nego_read_request (Some (\<lambda>_. 0)) (client {}) s = Ok () (srv, t) \<and> n_RequestedProtocols srv = 3 \<and>
          n_cookie srv = Some (cookie_prefix @ [0x61, 0x62])))"
proof -
  let ?n = "(client {})\<lparr>n_RequestedProtocols := 3, n_cookie := Some [0x61, 0x62]\<rparr>"
  have max: "n_CookieMaxLength (client {}) = 0xFF" by (simp add: client_def nego_new_def nego_init_def)
  then have tok: "token_data ?n = (cookie_prefix @ [0x61, 0x62]) @ [0x0D, 0x0A]"
    by (simp add: token_data_def)
  have c: "token_carried ?n (cookie_prefix @ [0x61, 0x62])"
    unfolding token_carried_def tok by (simp add: cookie_prefix_def)
  have len: "length (request_data ?n) \<le> 249" by (simp add: request_data_def tok)
  have ok: "token_ok ?n" by (simp add: token_ok_def)
  obtain pdu where pdu: "nego_send_negotiation_request (peer_env []) ?n = transmitted (peer_env []) pdu ?n"
    "\<forall>s. readable s \<and> slack s \<and> remaining s = pdu \<longrightarrow> (\<exists>t. nego_read_request (Some (\<lambda>_. 0)) (client {}) s =
       Ok () ((with_token (cookie_prefix @ [0x61, 0x62]) (client {}))
          \<lparr>n_RequestedProtocols := 3, n_state := NEGO_STATE_FINAL\<rparr>, t))"
    using nego_request_exchange [OF peer_ready [of "[]"] ok len _ disjI2 [OF c],
        where f = "\<lambda>_. 0" and srv = "client {}"] tok by auto
  show ?thesis
    by (rule exI [of _ pdu], rule conjI, rule pdu(1)) (use pdu(2) in \<open>force simp: with_token_def\<close>)
qed

text \<open>
  The connection confirm. A response the server sends is accepted by the client: a failure code
  fails the attempt, a selected protocol is taken over, and the attempt is final unless that protocol
  is TLS, NLA or standard RDP security and the client has not enabled it.
\<close>

theorem nego_response_exchange:
  assumes "env_ready env" "readable s"
    "remaining s = connection_pdu X224_TPDU_CONNECTION_CONFIRM (response_data srv)"
  shows "(\<exists>g. nego_send_negotiation_response env srv =
      and_then (transmitted env (connection_pdu X224_TPDU_CONNECTION_CONFIRM (response_data srv)) srv) g) \<and>
    (\<exists>m t. nego_recv n s = Ok () (m, t) \<and>
      (if n_SelectedProtocol srv AND PROTOCOL_FAILED_NEGO \<noteq> 0
       then n_state m = NEGO_STATE_FAIL \<and> n_SelectedProtocol m = n_SelectedProtocol n
       else n_SelectedProtocol m = n_SelectedProtocol srv \<and>
         (n_state m = NEGO_STATE_FINAL \<longleftrightarrow>
           (n_SelectedProtocol srv \<in> {PROTOCOL_RDP, PROTOCOL_SSL, PROTOCOL_HYBRID} \<longrightarrow>
              n_EnabledProtocols n (n_SelectedProtocol srv)))))"
proof (rule conjI)
  show "\<exists>g. nego_send_negotiation_response env srv =
      and_then (transmitted env (connection_pdu X224_TPDU_CONNECTION_CONFIRM (response_data srv)) srv) g"
    using nego_send_response_pdu [OF assms(1)] by blast
  let ?p = "n_SelectedProtocol srv"
  show "\<exists>m t. nego_recv n s = Ok () (m, t) \<and>
      (if ?p AND PROTOCOL_FAILED_NEGO \<noteq> 0
       then n_state m = NEGO_STATE_FAIL \<and> n_SelectedProtocol m = n_SelectedProtocol n
       else n_SelectedProtocol m = ?p \<and> (n_state m = NEGO_STATE_FINAL \<longleftrightarrow>
           (?p \<in> {PROTOCOL_RDP, PROTOCOL_SSL, PROTOCOL_HYBRID} \<longrightarrow> n_EnabledProtocols n ?p)))"
  proof (cases "?p AND PROTOCOL_FAILED_NEGO \<noteq> 0")
    case True
    with assms(3) have "nego_recv n s = Ok () (confirmed TYPE_RDP_NEG_FAILURE 0 (?p AND NOT PROTOCOL_FAILED_NEGO) n, skip 19 s)"
      by (intro nego_recv_confirmed [OF assms(2)]) (simp_all add: response_data_def)
    with True show ?thesis by (simp add: confirmed_def note_failure_def)
  next
    case False
    with assms(3) obtain flags where "nego_recv n s = Ok () (confirmed TYPE_RDP_NEG_RSP flags ?p n, skip 19 s)"
      using nego_recv_confirmed [OF assms(2), of TYPE_RDP_NEG_RSP _ ?p n] by (auto simp: response_data_def)
    with False show ?thesis by (auto simp: confirmed_def nego_check_selected_def Let_def)
  qed
qed

theorem nego_response_exchange_witness:
  "\<exists>m t. nego_recv (client {PROTOCOL_SSL}) (received (confirm_pdu (response_data ((client {})\<lparr>n_SelectedProtocol := PROTOCOL_SSL\<rparr>))))
     = Ok () (m, t) \<and> n_state m = NEGO_STATE_FINAL \<and> n_SelectedProtocol m = PROTOCOL_SSL"
proof -
  let ?srv = "(client {})\<lparr>n_SelectedProtocol := PROTOCOL_SSL\<rparr>"
  have "length (response_data ?srv) < 2 ^ 62" by simp
  from nego_response_exchange [OF peer_ready [of "[]"] received_confirm(1) [OF this] received_confirm(2), where n = "client {PROTOCOL_SSL}"]
  show ?thesis by auto
qed

text \<open>
  C31. Memory safety. On arbitrary bytes the client's handler of a confirm stays inside the stream. The
  server's parser of requests does so when the buffer extends two bytes behind the PDU, as it does for
  the streams \<open>transport_read_pdu\<close> fills: it compares 17 bytes where 15 are known to be there.
\<close>

theorem nego_receivers_safe:
  assumes "readable s"
  shows "nego_recv n s \<noteq> Fault \<and> (slack s \<longrightarrow> nego_read_request al srv s \<noteq> Fault)"
  using wp_not_Fault [OF nego_recv_safe [OF assms]] nego_read_request_safe [OF assms] by blast

theorem nego_receivers_safe_witness:
  "nego_recv (client {}) (received [3, 0, 0]) \<noteq> Fault"
proof -
  have "readable (received [3, 0, 0])" by (rule received_readable) simp
  from nego_receivers_safe [OF this] show ?thesis by blast
qed

text \<open>
  C32. The request buffer. The request is written into 512 bytes without a check: with a token or
  cookie of any kind, the sender overruns the buffer exactly when the data behind the headers is longer
  than 501 bytes. Cookies of the default maximal length always fit; a routing token of 502 bytes or more
  never does.
\<close>

theorem nego_request_bound:
  assumes "env_ready env" "token_ok n"
  shows "(nego_send_negotiation_request env n = Fault \<longleftrightarrow> 501 < length (request_data n)) \<and>
    (n_RoutingToken n = None \<and> n_CookieMaxLength n \<le> 0xFF \<longrightarrow> length (request_data n) \<le> 282) \<and>
    (\<forall>token. n_RoutingToken n = Some token \<and> 502 \<le> length token \<longrightarrow> 501 < length (request_data n))"
proof (intro conjI)
  have "transmitted env pdu n \<noteq> Fault" for pdu by (auto simp: transmitted_def split: prod.splits)
  then show "nego_send_negotiation_request env n = Fault \<longleftrightarrow> 501 < length (request_data n)"
    using nego_send_request_pdu [OF assms] by auto
  show "n_RoutingToken n = None \<and> n_CookieMaxLength n \<le> 0xFF \<longrightarrow> length (request_data n) \<le> 282"
  proof (rule impI, elim conjE)
    assume n: "n_RoutingToken n = None" "n_CookieMaxLength n \<le> 0xFF"
    from n(2) have "unat (n_CookieMaxLength n) \<le> 255" by (simp add: word_le_nat_alt)
    with n(1) have "length (token_data n) \<le> 274"
      by (cases "n_cookie n") (simp_all add: token_data_def)
    then show "length (request_data n) \<le> 282" by (simp add: request_data_def)
  qed
  show "\<forall>token. n_RoutingToken n = Some token \<and> 502 \<le> length token \<longrightarrow> 501 < length (request_data n)"
    by (auto simp: request_data_def token_data_def)
qed

theorem nego_request_bound_witness:
  "nego_send_negotiation_request (peer_env [])
     ((client {})\<lparr>n_RoutingToken := Some (replicate 600 1), n_RoutingTokenLength := 600\<rparr>) = Fault \<and>
   nego_send_negotiation_request (peer_env []) (client {}) \<noteq> Fault"
proof -
  let ?n = "(client {})\<lparr>n_RoutingToken := Some (replicate 600 1), n_RoutingTokenLength := 600\<rparr>"
  have t: "token_ok ?n" "token_ok (client {})" by (simp_all add: token_ok_def)
  have max: "n_CookieMaxLength (client {}) = 0xFF" by (simp add: client_def nego_new_def nego_init_def)
  have "nego_send_negotiation_request (peer_env []) ?n = Fault"
    using nego_request_bound [OF peer_ready [of "[]"] t(1)] by simp
  moreover have "nego_send_negotiation_request (peer_env []) (client {}) \<noteq> Fault"
    using nego_request_bound [OF peer_ready [of "[]"] t(2)] max by auto
  ultimately show ?thesis by blast
qed



end
