(* ===== verification/Coll_Base.thy ===== *)
theory Coll_Base
  imports Rdp_Prelude
begin

text \<open>
  What the collections of \<^verbatim>\<open>winpr/libwinpr/utils/collections\<close> share. An object is a \<open>void*\<close>, kept as
  the address it is, with \<open>NULL\<close> as 0. The lock of a synchronized collection makes each operation
  atomic and is not represented further. The interfaces the collections provide are the locales below;
  each is interpreted in the theory of the collection that implements it.
\<close>

type_synonym ptr = nat

abbreviation (input) NULL :: ptr where "NULL \<equiv> 0"

section \<open>Circular indices\<close>

lemma wrap_index: "(h :: nat) < n \<Longrightarrow> i \<le> n \<Longrightarrow> (h + i) mod n = (if h + i < n then h + i else h + i - n)"
  by (auto simp: mod_if)

lemma wrap_distinct:
  assumes "(h :: nat) < n" "i < n" "j < n" "(h + i) mod n = (h + j) mod n" shows "i = j"
  using assms by (auto simp: wrap_index split: if_splits)

lemma wrap_Suc: "((h + 1) mod n + i) mod n = ((h :: nat) + Suc i) mod n"
  by (metis Suc_eq_plus1 add.commute add_Suc_right mod_add_left_eq add.assoc)

section \<open>First in, first out\<close>

locale fifo =
  fixes inv :: "'s \<Rightarrow> bool"
    and contents :: "'s \<Rightarrow> 'a list"
    and enq :: "'s \<Rightarrow> 'a \<Rightarrow> (unit, 's) res"
    and deq :: "'s \<Rightarrow> ('a, 's) res"
  assumes enq_Ok: "inv s \<Longrightarrow> enq s x = Ok () t \<Longrightarrow> inv t \<and> contents t = contents s @ [x]"
    and enq_Fail: "inv s \<Longrightarrow> enq s x = Fail t \<Longrightarrow> inv t \<and> contents t = contents s"
    and deq_Cons: "inv s \<Longrightarrow> contents s = x # xs \<Longrightarrow> \<exists>t. deq s = Ok x t \<and> inv t \<and> contents t = xs"
begin

primrec enq_all :: "'s \<Rightarrow> 'a list \<Rightarrow> (unit, 's) res" where
  "enq_all s [] = Ok () s"
| "enq_all s (x # xs) = and_then (enq s x) (\<lambda>_ s. enq_all s xs)"

primrec deq_all :: "'s \<Rightarrow> nat \<Rightarrow> ('a list, 's) res" where
  "deq_all s 0 = Ok [] s"
| "deq_all s (Suc n) = and_then (deq s) (\<lambda>x s. and_then (deq_all s n) (\<lambda>xs s. Ok (x # xs) s))"

lemma enq_all_contents:
  "inv s \<Longrightarrow> enq_all s xs = Ok () t \<Longrightarrow> inv t \<and> contents t = contents s @ xs"
proof (induction xs arbitrary: s)
  case (Cons x xs)
  then obtain u where u: "enq s x = Ok () u" "enq_all u xs = Ok () t" by (auto simp: and_then_Ok_iff)
  with enq_Ok [OF Cons.prems(1)] Cons.IH show ?case by fastforce
qed simp

lemma deq_all_contents:
  "inv s \<Longrightarrow> contents s = xs @ ys \<Longrightarrow>
   \<exists>t. deq_all s (length xs) = Ok xs t \<and> inv t \<and> contents t = ys"
proof (induction xs arbitrary: s)
  case (Cons x xs)
  then obtain u where "deq s = Ok x u" "inv u" "contents u = xs @ ys"
    using deq_Cons [of s x "xs @ ys"] by auto
  moreover from Cons.IH [OF this(2,3)] obtain t where "deq_all u (length xs) = Ok xs t" "inv t" "contents t = ys"
    by blast
  ultimately show ?case by auto
qed simp

text \<open>Whatever was in the queue before comes out first, then what was put in, in its order.\<close>

lemma order_preserved:
  assumes "inv s" "enq_all s xs = Ok () t"
  shows "\<exists>u. deq_all t (length (contents s) + length xs) = Ok (contents s @ xs) u \<and> contents u = []"
  using enq_all_contents [OF assms] deq_all_contents [of t "contents s @ xs" "[]"] by auto

end

section \<open>Last in, first out\<close>

locale lifo =
  fixes inv :: "'s \<Rightarrow> bool"
    and contents :: "'s \<Rightarrow> 'a list"
    and push :: "'s \<Rightarrow> 'a \<Rightarrow> (unit, 's) res"
    and pop :: "'s \<Rightarrow> ('a, 's) res"
  assumes push_Ok: "inv s \<Longrightarrow> push s x = Ok () t \<Longrightarrow> inv t \<and> contents t = x # contents s"
    and pop_Cons: "inv s \<Longrightarrow> contents s = x # xs \<Longrightarrow> \<exists>t. pop s = Ok x t \<and> inv t \<and> contents t = xs"
begin

primrec push_all :: "'s \<Rightarrow> 'a list \<Rightarrow> (unit, 's) res" where
  "push_all s [] = Ok () s"
| "push_all s (x # xs) = and_then (push s x) (\<lambda>_ s. push_all s xs)"

primrec pop_all :: "'s \<Rightarrow> nat \<Rightarrow> ('a list, 's) res" where
  "pop_all s 0 = Ok [] s"
| "pop_all s (Suc n) = and_then (pop s) (\<lambda>x s. and_then (pop_all s n) (\<lambda>xs s. Ok (x # xs) s))"

lemma push_all_contents:
  "inv s \<Longrightarrow> push_all s xs = Ok () t \<Longrightarrow> inv t \<and> contents t = rev xs @ contents s"
proof (induction xs arbitrary: s)
  case (Cons x xs)
  then obtain u where u: "push s x = Ok () u" "push_all u xs = Ok () t" by (auto simp: and_then_Ok_iff)
  with push_Ok [OF Cons.prems(1)] Cons.IH show ?case by fastforce
qed simp

lemma pop_all_contents:
  "inv s \<Longrightarrow> contents s = xs @ ys \<Longrightarrow>
   \<exists>t. pop_all s (length xs) = Ok xs t \<and> inv t \<and> contents t = ys"
proof (induction xs arbitrary: s)
  case (Cons x xs)
  then obtain u where "pop s = Ok x u" "inv u" "contents u = xs @ ys"
    using pop_Cons [of s x "xs @ ys"] by auto
  moreover from Cons.IH [OF this(2,3)] obtain t where "pop_all u (length xs) = Ok xs t" "inv t" "contents t = ys"
    by blast
  ultimately show ?case by auto
qed simp

text \<open>What was pushed comes back in reverse, and what lay below is untouched.\<close>

lemma order_reversed:
  assumes "inv s" "push_all s xs = Ok () t"
  shows "\<exists>u. pop_all t (length xs) = Ok (rev xs) u \<and> contents u = contents s"
  using push_all_contents [OF assms] pop_all_contents [of t "rev xs" "contents s"] by auto

end

section \<open>Random access\<close>

locale random_access =
  fixes inv :: "'s \<Rightarrow> bool"
    and contents :: "'s \<Rightarrow> 'a list"
    and add :: "'s \<Rightarrow> 'a \<Rightarrow> ('r, 's) res"
    and get :: "'s \<Rightarrow> int \<Rightarrow> ('a, 's) res"
    and remove_at :: "'s \<Rightarrow> int \<Rightarrow> ('f, 's) res"
  assumes add_Ok: "inv s \<Longrightarrow> add s x = Ok r t \<Longrightarrow> inv t \<and> contents t = contents s @ [x]"
    and get_in: "inv s \<Longrightarrow> i < length (contents s) \<Longrightarrow> get s (int i) = Ok (contents s ! i) s"
    and remove_in: "inv s \<Longrightarrow> i < length (contents s) \<Longrightarrow>
      \<exists>f t. remove_at s (int i) = Ok f t \<and> inv t \<and> contents t = take i (contents s) @ drop (Suc i) (contents s)"
begin

primrec add_all :: "'s \<Rightarrow> 'a list \<Rightarrow> (unit, 's) res" where
  "add_all s [] = Ok () s"
| "add_all s (x # xs) = and_then (case add s x of Fault \<Rightarrow> Fault | Fail s \<Rightarrow> Fail s | Ok _ s \<Rightarrow> Ok () s)
     (\<lambda>_ s. add_all s xs)"

lemma add_all_contents:
  "inv s \<Longrightarrow> add_all s xs = Ok () t \<Longrightarrow> inv t \<and> contents t = contents s @ xs"
proof (induction xs arbitrary: s)
  case (Cons x xs)
  then obtain r u where u: "add s x = Ok r u" "add_all u xs = Ok () t"
    by (auto simp: and_then_Ok_iff split: res.splits)
  with add_Ok [OF Cons.prems(1)] Cons.IH show ?case by fastforce
qed simp

lemma add_all_get:
  assumes "inv s" "add_all s xs = Ok () t" "i < length xs"
  shows "get t (int (length (contents s) + i)) = Ok (xs ! i) t"
  using add_all_contents [OF assms(1,2)] get_in [of t "length (contents s) + i"] assms(3)
  by (simp add: nth_append)

text \<open>Removing an index moves every later element down by one.\<close>

lemma remove_then_get:
  assumes "inv s" "i \<le> j" "Suc j < length (contents s)" "remove_at s (int i) = Ok f t"
  shows "get t (int j) = Ok (contents s ! Suc j) t"
proof -
  have t: "inv t" "contents t = take i (contents s) @ drop (Suc i) (contents s)"
    using remove_in [OF assms(1), of i] assms(2-4) by auto
  then show ?thesis using get_in [OF t(1), of j] assms(2,3) by (simp add: nth_append min_def)
qed

end

section \<open>Dictionaries\<close>

text \<open>
  What a dictionary released to the free callbacks of its keys and its values.
\<close>

datatype freed = Freed_Key ptr | Freed_Value ptr

text \<open>
  A dictionary relates keys up to the equality \<open>same\<close> of its clients. The first locale asks for what every
  dictionary of the library does: an absent key can be put, and a key can be deleted. The second adds
  that putting a present key replaces its value.
\<close>

locale dictionary =
  fixes inv :: "'s \<Rightarrow> bool"
    and same :: "'k \<Rightarrow> 'k \<Rightarrow> bool"
    and find :: "'s \<Rightarrow> 'k \<Rightarrow> 'v option"
    and put :: "'s \<Rightarrow> 'k \<Rightarrow> 'v \<Rightarrow> ('r, 's) res"
    and del :: "'s \<Rightarrow> 'k \<Rightarrow> ('d, 's) res"
  assumes put_new: "inv s \<Longrightarrow> find s k = None \<Longrightarrow> put s k v = Ok r t \<Longrightarrow>
      inv t \<and> find t k' = (if same k' k then Some v else find s k')"
    and del_Ok: "inv s \<Longrightarrow> del s k = Ok d t \<Longrightarrow>
      inv t \<and> find t k' = (if same k' k then None else find s k')"
    and find_same: "inv s \<Longrightarrow> same k k' \<Longrightarrow> find s k = find s k'"
    and equivalence: "inv s \<Longrightarrow> equivp same"
begin

lemma put_del:
  assumes "inv s" "find s k = None" "put s k v = Ok r t" "del t k = Ok d u"
  shows "find u = find s"
proof
  fix k' show "find u k' = find s k'"
    using put_new [OF assms(1-3), of k'] del_Ok [of t k d u k'] put_new [OF assms(1-3)] assms(2,4)
      find_same [OF assms(1), of k' k] by auto
qed

primrec put_all :: "'s \<Rightarrow> ('k \<times> 'v) list \<Rightarrow> (unit, 's) res" where
  "put_all s [] = Ok () s"
| "put_all s (kv # kvs) =
     and_then (case put s (fst kv) (snd kv) of Fault \<Rightarrow> Fault | Fail s \<Rightarrow> Fail s | Ok _ s \<Rightarrow> Ok () s)
       (\<lambda>_ s. put_all s kvs)"

primrec apart :: "('k \<times> 'v) list \<Rightarrow> bool" where
  "apart [] \<longleftrightarrow> True"
| "apart (kv # kvs) \<longleftrightarrow> (\<forall>kv' \<in> set kvs. \<not> same (fst kv') (fst kv)) \<and> apart kvs"

lemma put_all_find:
  "inv s \<Longrightarrow> apart kvs \<Longrightarrow> \<forall>kv \<in> set kvs. find s (fst kv) = None \<Longrightarrow> put_all s kvs = Ok () t \<Longrightarrow>
   inv t \<and> find t k =
     (case List.find (\<lambda>kv. same k (fst kv)) kvs of None \<Rightarrow> find s k | Some kv \<Rightarrow> Some (snd kv))"
proof (induction kvs arbitrary: s)
  case (Cons kv kvs)
  then obtain r u where u: "put s (fst kv) (snd kv) = Ok r u" "put_all u kvs = Ok () t"
    by (auto simp: and_then_Ok_iff split: res.splits)
  note put = put_new [OF Cons.prems(1) _ u(1)]
  have iu: "inv u" "\<And>k'. find u k' = (if same k' (fst kv) then Some (snd kv) else find s k')"
    using put Cons.prems(3) by auto
  have "\<forall>kv' \<in> set kvs. find u (fst kv') = None" using Cons.prems(2,3) iu(2) by auto
  with Cons.IH [OF iu(1) _ this u(2)] Cons.prems(2) have
    t: "inv t" "find t k = (case List.find (\<lambda>kv. same k (fst kv)) kvs of None \<Rightarrow> find u k | Some kv \<Rightarrow> Some (snd kv))"
    by simp_all
  show ?case
  proof (cases "same k (fst kv)")
    case True
    then have "\<not> same k (fst kv')" if "kv' \<in> set kvs" for kv'
      using that Cons.prems(2) equivalence [OF Cons.prems(1)] by (auto dest: equivp_symp equivp_transp)
    then have "List.find (\<lambda>kv. same k (fst kv)) kvs = None" by (auto simp: find_None_iff)
    with True t iu(2) show ?thesis by simp
  next
    case False
    then show ?thesis using t iu(2) [of k] by (simp cong: option.case_cong)
  qed
qed simp

end

locale replacing_dictionary = dictionary +
  assumes put_any: "inv s \<Longrightarrow> put s k v = Ok r t \<Longrightarrow>
      inv t \<and> find t k' = (if same k' k then Some v else find s k')"
begin

lemma last_put_wins:
  assumes "inv s" "put s k v = Ok r t" "put t k v' = Ok r' u"
  shows "find u k = Some v' \<and> (\<forall>k'. \<not> same k' k \<longrightarrow> find u k' = find s k')"
proof -
  have "inv t" using put_any [OF assms(1,2)] by blast
  then show ?thesis using put_any [OF assms(1,2)] put_any [OF _ assms(3)] equivalence [OF assms(1)]
    by (simp add: equivp_reflp)
qed

end

end
