(* ===== verification/Coll_Queue.thy ===== *)
theory Coll_Queue
  imports Coll_Base
begin

text \<open>
  The circular queue of \<^verbatim>\<open>winpr/libwinpr/utils/collections/Queue.c\<close>. The \<open>int\<close> members are never negative
  and kept as \<open>nat\<close>; where a product may leave the range of \<open>int\<close> the model faults. The event is its
  signalled state. Operations that release objects return the list of objects handed to \<open>fnObjectFree\<close>.
\<close>

section \<open>The operations\<close>

record wQueue =
  q_capacity :: nat
  q_growthFactor :: nat
  q_synchronized :: bool
  q_head :: nat
  q_tail :: nat
  q_size :: nat
  q_array :: "ptr list"
  q_event :: bool
  q_fnObjectFree :: bool
  q_fnObjectEquals :: "ptr \<Rightarrow> ptr \<Rightarrow> bool"

definition Queue_Count :: "wQueue \<Rightarrow> nat" where
  "Queue_Count queue = q_size queue"

definition Queue_Event :: "wQueue \<Rightarrow> bool" where
  "Queue_Event queue = q_event queue"

text \<open>The loop of \<open>Queue_Clear\<close>: \<open>None\<close> when it does not end. The result is the array and the freed objects.\<close>

partial_function (option) clear_loop ::
  "bool \<Rightarrow> nat \<Rightarrow> nat \<Rightarrow> nat \<Rightarrow> ptr list \<Rightarrow> ptr list \<Rightarrow> (ptr list, ptr list) res option" where
  "clear_loop fnFree capacity tail index array freed =
     (if index = tail then Some (Ok freed array)
      else if index < length array \<and> capacity \<noteq> 0
      then clear_loop fnFree capacity tail ((index + 1) mod capacity) (array[index := NULL])
             (if fnFree then freed @ [array ! index] else freed)
      else Some Fault)"

definition Queue_Clear :: "wQueue \<Rightarrow> (ptr list, wQueue) res option" where
  "Queue_Clear queue =
     map_option (\<lambda>r. case r of
         Ok freed array \<Rightarrow> Ok freed (queue\<lparr>q_array := array, q_size := 0, q_head := 0, q_tail := 0\<rparr>)
       | _ \<Rightarrow> Fault)
       (clear_loop (q_fnObjectFree queue) (q_capacity queue) (q_tail queue) (q_head queue)
          (q_array queue) [])"

definition Queue_Contains :: "wQueue \<Rightarrow> ptr \<Rightarrow> (bool, wQueue) res" where
  "Queue_Contains queue obj =
     (if q_tail queue \<le> length (q_array queue)
      then Ok (list_ex (\<lambda>x. q_fnObjectEquals queue x obj) (take (q_tail queue) (q_array queue))) queue
      else Fault)"

definition Queue_Grow :: "ptr alloc \<Rightarrow> wQueue \<Rightarrow> (unit, wQueue) res" where
  "Queue_Grow al queue =
     (let old_capacity = q_capacity queue; new_capacity = q_capacity queue * q_growthFactor queue
      in if int new_capacity > INT_MAX then Fault
         else case realloc al (q_array queue) new_capacity of
                None \<Rightarrow> Fail queue
              | Some newArray \<Rightarrow>
                  let array = blit newArray old_capacity (replicate (new_capacity - old_capacity) NULL);
                      queue = queue\<lparr>q_capacity := new_capacity, q_array := array\<rparr>
                  in if q_tail queue \<le> q_head queue
                     then (if old_capacity + q_tail queue \<le> new_capacity
                           then Ok () (queue\<lparr>q_array := blit array old_capacity (take (q_tail queue) array),
                                             q_tail := q_tail queue + old_capacity\<rparr>)
                           else Fault)
                     else Ok () queue)"

definition Queue_Enqueue :: "ptr alloc \<Rightarrow> wQueue \<Rightarrow> ptr \<Rightarrow> (unit, wQueue) res" where
  "Queue_Enqueue al queue obj =
     and_then (if q_size queue = q_capacity queue then Queue_Grow al queue else Ok () queue) (\<lambda>_ queue.
       if q_tail queue < length (q_array queue) \<and> q_capacity queue \<noteq> 0
       then Ok () (queue\<lparr>q_array := (q_array queue)[q_tail queue := obj],
                         q_tail := (q_tail queue + 1) mod q_capacity queue,
                         q_size := q_size queue + 1, q_event := True\<rparr>)
       else Fault)"

definition Queue_Dequeue :: "wQueue \<Rightarrow> (ptr, wQueue) res" where
  "Queue_Dequeue queue =
     and_then
       (if q_size queue > 0 then
          (if q_head queue < length (q_array queue) \<and> q_capacity queue \<noteq> 0
           then Ok (q_array queue ! q_head queue)
                  (queue\<lparr>q_array := (q_array queue)[q_head queue := NULL],
                         q_head := (q_head queue + 1) mod q_capacity queue,
                         q_size := q_size queue - 1\<rparr>)
           else Fault)
        else Ok NULL queue)
       (\<lambda>obj queue. Ok obj (if q_size queue < 1 then queue\<lparr>q_event := False\<rparr> else queue))"

definition Queue_Peek :: "wQueue \<Rightarrow> (ptr, wQueue) res" where
  "Queue_Peek queue =
     (if q_size queue > 0 then
        (if q_head queue < length (q_array queue) then Ok (q_array queue ! q_head queue) queue else Fault)
      else Ok NULL queue)"

definition default_queue_equals :: "ptr \<Rightarrow> ptr \<Rightarrow> bool" where
  "default_queue_equals obj1 obj2 = (obj1 = obj2)"

text \<open>
  \<open>Queue_New\<close> with the answers of its allocations: the object, the array, the event and the lock.
\<close>

definition Queue_New ::
  "unit alloc \<Rightarrow> unit alloc \<Rightarrow> bool \<Rightarrow> bool \<Rightarrow> bool \<Rightarrow> int \<Rightarrow> int \<Rightarrow> wQueue option" where
  "Queue_New al_queue al_array event_ok lock_ok synchronized capacity growthFactor =
     (if al_queue = None then None
      else
        let cap = (if capacity > 0 then nat capacity else 32);
            growth = (if growthFactor > 0 then nat growthFactor else 2)
        in if al_array = None then None
           else if \<not> event_ok then None
           else if \<not> lock_ok then None
           else Some \<lparr>q_capacity = cap, q_growthFactor = growth, q_synchronized = synchronized,
                      q_head = 0, q_tail = 0, q_size = 0, q_array = replicate cap NULL, q_event = False,
                      q_fnObjectFree = False, q_fnObjectEquals = default_queue_equals\<rparr>)"

text \<open>\<open>Queue_Free\<close> clears the queue before it releases it; the freed objects remain visible.\<close>

definition Queue_Free :: "wQueue option \<Rightarrow> ptr list option" where
  "Queue_Free queue =
     (case queue of None \<Rightarrow> Some []
      | Some queue \<Rightarrow>
          (case Queue_Clear queue of Some (Ok freed _) \<Rightarrow> Some freed | _ \<Rightarrow> None))"

section \<open>The queue as a list\<close>

definition queue_contents :: "wQueue \<Rightarrow> ptr list" where
  "queue_contents q = map (\<lambda>i. q_array q ! ((q_head q + i) mod q_capacity q)) [0..<q_size q]"

definition queue_ok :: "wQueue \<Rightarrow> bool" where
  "queue_ok q \<longleftrightarrow> 0 < q_capacity q \<and> length (q_array q) = q_capacity q \<and> q_head q < q_capacity q \<and>
     q_size q \<le> q_capacity q \<and> q_tail q = (q_head q + q_size q) mod q_capacity q \<and> 2 \<le> q_growthFactor q"

lemma length_queue_contents [simp]: "length (queue_contents q) = q_size q"
  by (simp add: queue_contents_def)

lemma nth_queue_contents:
  "i < q_size q \<Longrightarrow> queue_contents q ! i = q_array q ! ((q_head q + i) mod q_capacity q)"
  by (simp add: queue_contents_def)

lemma Queue_Dequeue_Cons:
  assumes q: "queue_ok q" and c: "queue_contents q = x # xs"
  shows "\<exists>t. Queue_Dequeue q = Ok x t \<and> queue_ok t \<and> queue_contents t = xs"
proof -
  have size: "0 < q_size q" "q_size q = Suc (length xs)" using c length_queue_contents [of q] by auto
  let ?t = "q\<lparr>q_array := (q_array q)[q_head q := NULL], q_head := (q_head q + 1) mod q_capacity q,
             q_size := q_size q - 1\<rparr>"
  let ?u = "if q_size ?t < 1 then ?t\<lparr>q_event := False\<rparr> else ?t"
  have "queue_contents q ! 0 = x" using c by simp
  then have x: "q_array q ! q_head q = x" using size(1) q by (simp add: nth_queue_contents queue_ok_def)
  have d: "Queue_Dequeue q = Ok x ?u" using q size(1) x by (simp add: Queue_Dequeue_def queue_ok_def)
  have "((q_head q + 1) mod q_capacity q + (q_size q - 1)) mod q_capacity q =
      (q_head q + q_size q) mod q_capacity q"
    using wrap_Suc [of "q_head q" "q_capacity q" "q_size q - 1"] size(1) by simp
  then have "queue_ok ?t" using q size(1) by (auto simp: queue_ok_def)
  then have ok: "queue_ok ?u" by (simp add: queue_ok_def)
  have "queue_contents ?t = xs"
  proof (rule nth_equalityI)
    show "length (queue_contents ?t) = length xs" using size by simp
    fix i assume "i < length (queue_contents ?t)"
    then have i: "Suc i < q_size q" by simp
    then have ne: "(q_head q + Suc i) mod q_capacity q \<noteq> q_head q"
      using q wrap_distinct [of "q_head q" "q_capacity q" "Suc i" 0] by (auto simp: queue_ok_def)
    have "queue_contents ?t ! i = q_array q ! ((q_head q + Suc i) mod q_capacity q)"
      using i ne by (simp add: nth_queue_contents wrap_Suc [simplified])
    also have "\<dots> = queue_contents q ! Suc i" using i by (simp add: nth_queue_contents)
    finally show "queue_contents ?t ! i = xs ! i" using c by simp
  qed
  moreover have "queue_contents (r\<lparr>q_event := e\<rparr>) = queue_contents r" for r e by (simp add: queue_contents_def)
  ultimately have "queue_contents ?u = xs" by presburger
  with d ok show ?thesis by blast
qed

lemma Queue_Dequeue_Nil:
  "queue_contents q = [] \<Longrightarrow> Queue_Dequeue q = Ok NULL (q\<lparr>q_event := False\<rparr>)"
  using length_queue_contents [of q] by (simp add: Queue_Dequeue_def)

lemma Queue_Peek_contents:
  "queue_ok q \<Longrightarrow> Queue_Peek q = Ok (case queue_contents q of [] \<Rightarrow> NULL | x # _ \<Rightarrow> x) q"
  by (cases "q_size q") (auto simp: Queue_Peek_def queue_ok_def queue_contents_def upt_rec)

lemma Queue_put:
  fixes x :: ptr
  assumes q: "queue_ok q" and room: "q_size q < q_capacity q"
  defines "t \<equiv> q\<lparr>q_array := (q_array q)[q_tail q := x], q_tail := (q_tail q + 1) mod q_capacity q,
                 q_size := q_size q + 1, q_event := True\<rparr>"
  shows "queue_ok t" "queue_contents t = queue_contents q @ [x]"
proof -
  show "queue_ok t" using q room by (simp add: t_def queue_ok_def mod_simps)
  have tail: "q_tail q = (q_head q + q_size q) mod q_capacity q" using q by (simp add: queue_ok_def)
  show "queue_contents t = queue_contents q @ [x]"
  proof (rule nth_equalityI)
    show "length (queue_contents t) = length (queue_contents q @ [x])" by (simp add: t_def)
    fix i assume "i < length (queue_contents t)"
    then have i: "i \<le> q_size q" by (simp add: t_def)
    show "queue_contents t ! i = (queue_contents q @ [x]) ! i"
    proof (cases "i = q_size q")
      case True
      then show ?thesis using q tail by (simp add: t_def nth_queue_contents queue_ok_def nth_append)
    next
      case False
      then have "(q_head q + i) mod q_capacity q \<noteq> q_tail q"
        using q i room tail wrap_distinct [of "q_head q" "q_capacity q" i "q_size q"]
        by (auto simp: queue_ok_def)
      with False i show ?thesis by (simp add: t_def nth_queue_contents nth_append)
    qed
  qed
qed

lemma Queue_Grow_full:
  assumes q: "queue_ok q" and full: "q_size q = q_capacity q"
    and grow: "Queue_Grow al q = Ok () t"
  shows "queue_ok t" "queue_contents t = queue_contents q" "q_size t < q_capacity t"
proof -
  let ?old = "q_capacity q"
  define new where "new = q_capacity q * q_growthFactor q"
  have tail: "q_tail q = q_head q" using q full by (simp add: queue_ok_def)
  have new: "2 * ?old \<le> new" using q by (simp add: new_def queue_ok_def mult.commute)
  from grow tail obtain a where a: "realloc al (q_array q) new = Some a" and
    t: "t = (let array = blit a ?old (replicate (new - ?old) NULL)
             in q\<lparr>q_capacity := new, q_array := blit array ?old (take (q_tail q) array),
                  q_tail := q_tail q + ?old\<rparr>)"
    by (auto simp: Queue_Grow_def Let_def new_def split: if_splits option.splits)
  let ?b = "blit a ?old (replicate (new - ?old) NULL)"
  let ?c = "blit ?b ?old (take (q_tail q) ?b)"
  have len: "length a = new" using realloc_length [OF a] .
  have b: "length ?b = new" "\<And>i. i < ?old \<Longrightarrow> ?b ! i = q_array q ! i"
    using len new a q by (auto simp: nth_blit realloc_nth queue_ok_def)
  have h: "q_head q < ?old" using q by (simp add: queue_ok_def)
  have c: "length ?c = new" using b(1) new h tail by simp
  have elem: "?c ! (q_head q + i) = queue_contents q ! i" if "i < ?old" for i
  proof (cases "q_head q + i < ?old")
    case True
    with that full b h tail new show ?thesis
      by (simp add: nth_blit nth_queue_contents)
  next
    case False
    with that full b h tail new show ?thesis
      by (simp add: nth_blit nth_queue_contents wrap_index)
  qed
  show "queue_ok t" using q full new c h tail by (simp add: t Let_def queue_ok_def)
  show "q_size t < q_capacity t" using full new h by (simp add: t Let_def)
  show "queue_contents t = queue_contents q"
    using full elem new h by (intro nth_equalityI) (simp_all add: t Let_def nth_queue_contents)
qed

lemma Queue_Grow_Fail: "Queue_Grow al q = Fail t \<Longrightarrow> t = q"
  by (auto simp: Queue_Grow_def Let_def split: if_splits option.splits)

lemma Queue_Enqueue_Ok:
  assumes q: "queue_ok q" and e: "Queue_Enqueue al q x = Ok () t"
  shows "queue_ok t \<and> queue_contents t = queue_contents q @ [x] \<and> q_event t"
proof -
  obtain r where r: "(if q_size q = q_capacity q then Queue_Grow al q else Ok () q) = Ok () r"
    and t: "t = r\<lparr>q_array := (q_array r)[q_tail r := x], q_tail := (q_tail r + 1) mod q_capacity r,
                 q_size := q_size r + 1, q_event := True\<rparr>"
    using e by (auto simp: Queue_Enqueue_def and_then_Ok_iff split: if_splits)
  have "queue_ok r" "queue_contents r = queue_contents q" "q_size r < q_capacity r"
    using r q Queue_Grow_full [OF q] by (auto simp: queue_ok_def split: if_splits)
  with Queue_put [of r x] show ?thesis by (simp add: t)
qed

lemma Queue_Enqueue_Fail:
  "Queue_Enqueue al q x = Fail t \<Longrightarrow> t = q"
  by (cases "Queue_Grow al q") (auto simp: Queue_Enqueue_def dest: Queue_Grow_Fail split: if_splits)

text \<open>The only way to leave the defined behaviour of C is to outgrow the range of \<open>int\<close>.\<close>

lemma Queue_Enqueue_defined:
  assumes q: "queue_ok q" and small: "int (q_capacity q * q_growthFactor q) \<le> INT_MAX"
  shows "Queue_Enqueue (Some f) q x \<noteq> Fault" "Queue_Enqueue None q x \<noteq> Fault"
    "\<exists>t. Queue_Enqueue (Some f) q x = Ok () t"
proof -
  have tail: "q_tail q = q_head q" "q_tail q < q_capacity q" if "q_size q = q_capacity q"
    using q that by (auto simp: queue_ok_def)
  have sm: "q_capacity q * q_growthFactor q \<le> 2147483647" using small by linarith
  have grown: "\<exists>r. Queue_Grow (Some f) q = Ok () r" if "q_size q = q_capacity q"
  proof -
    have "q_capacity q + q_tail q \<le> q_capacity q * q_growthFactor q"
    proof -
      have "q_capacity q + q_tail q \<le> q_capacity q * 2" using tail [OF that] by simp
      also have "\<dots> \<le> q_capacity q * q_growthFactor q" using q by (simp add: queue_ok_def)
      finally show ?thesis .
    qed
    with sm tail [OF that] show ?thesis by (simp add: Queue_Grow_def Let_def realloc_def)
  qed
  have ok: "q_tail r < length (q_array r) \<and> q_capacity r \<noteq> 0" if "queue_ok r" for r
    using that by (auto simp: queue_ok_def)
  show ex: "\<exists>t. Queue_Enqueue (Some f) q x = Ok () t"
  proof (cases "q_size q = q_capacity q")
    case True
    with grown obtain r where r: "Queue_Grow (Some f) q = Ok () r" by blast
    from ok [OF Queue_Grow_full(1) [OF q True r]] True r show ?thesis by (simp add: Queue_Enqueue_def)
  next
    case False
    with ok [OF q] show ?thesis by (simp add: Queue_Enqueue_def)
  qed
  then show "Queue_Enqueue (Some f) q x \<noteq> Fault" by auto
  show "Queue_Enqueue None q x \<noteq> Fault"
    using sm ok [OF q] by (auto simp: Queue_Enqueue_def Queue_Grow_def Let_def realloc_def)
qed

interpretation queue: fifo queue_ok queue_contents "Queue_Enqueue al" Queue_Dequeue for al
  using Queue_Enqueue_Ok Queue_Enqueue_Fail Queue_Dequeue_Cons by unfold_locales blast+

lemma clear_loop_run:
  assumes "h < n" "k < n" "j \<le> k" "length arr = n"
  shows "\<exists>arr'. clear_loop f n ((h + k) mod n) ((h + j) mod n) arr freed =
      Some (Ok (freed @ (if f then map (\<lambda>i. arr ! ((h + i) mod n)) [j..<k] else [])) arr') \<and> length arr' = n"
  using assms(3,4)
proof (induction "k - j" arbitrary: j arr freed)
  case 0
  then show ?case by (simp add: clear_loop.simps)
next
  case (Suc d)
  then have jk: "j < k" by simp
  let ?i = "(h + j) mod n" and ?arr = "arr[(h + j) mod n := NULL]"
  let ?fr = "if f then freed @ [arr ! ?i] else freed"
  have ne: "?i \<noteq> (h + k) mod n" using wrap_distinct [OF assms(1), of j k] assms(2) jk by auto
  have step: "clear_loop f n ((h + k) mod n) ?i arr freed =
      clear_loop f n ((h + k) mod n) ((h + Suc j) mod n) ?arr ?fr"
    using ne Suc.prems assms(1) by (subst clear_loop.simps) (simp add: mod_Suc_eq)
  have later: "map (\<lambda>i. ?arr ! ((h + i) mod n)) [Suc j..<k] = map (\<lambda>i. arr ! ((h + i) mod n)) [Suc j..<k]"
    using wrap_distinct [OF assms(1), of _ j] assms(2) jk
    by (intro map_cong refl) (metis (no_types, lifting) atLeastLessThan_iff set_upt Suc_n_not_le_n nth_list_update_neq order.strict_trans)
  have "d = k - Suc j" "Suc j \<le> k" "length ?arr = n" using Suc jk by auto
  from Suc.hyps(1) [OF this, of ?fr] later jk show ?case
    unfolding step by (auto simp: upt_conv_Cons)
qed

lemma Queue_Clear_not_full:
  assumes q: "queue_ok q" and room: "q_size q < q_capacity q"
  shows "\<exists>t. Queue_Clear q = Some (Ok (if q_fnObjectFree q then queue_contents q else []) t) \<and>
    queue_ok t \<and> queue_contents t = []"
proof -
  have "q_tail q = (q_head q + q_size q) mod q_capacity q" "q_head q = (q_head q + 0) mod q_capacity q"
    using q by (simp_all add: queue_ok_def)
  with clear_loop_run [of "q_head q" "q_capacity q" "q_size q" 0 "q_array q" "q_fnObjectFree q" "[]"] q room
  obtain arr where "clear_loop (q_fnObjectFree q) (q_capacity q) (q_tail q) (q_head q) (q_array q) [] =
      Some (Ok (if q_fnObjectFree q then queue_contents q else []) arr)" "length arr = q_capacity q"
    by (auto simp: queue_ok_def queue_contents_def)
  with q show ?thesis by (simp add: Queue_Clear_def queue_ok_def queue_contents_def)
qed

lemma Queue_Clear_full:
  assumes "queue_ok q" "q_size q = q_capacity q"
  shows "Queue_Clear q = Some (Ok [] (q\<lparr>q_size := 0, q_head := 0, q_tail := 0\<rparr>))"
  using assms by (simp add: Queue_Clear_def queue_ok_def clear_loop.simps)

section \<open>Properties\<close>

text \<open>
  C34. \<open>wQueue\<close> implements a list: enqueueing appends at the end, a failed enqueue changes nothing,
  dequeueing removes the first element or returns \<open>NULL\<close> when there is none, peeking looks at it, the
  growth of the circular array included. As long as the capacity stays in the range of \<open>int\<close> an enqueue
  is free of undefined behaviour and succeeds whenever memory is granted.
\<close>

theorem Queue_refines_list:
  assumes "queue_ok q"
  shows "(Queue_Enqueue al q x = Ok () t \<longrightarrow> queue_ok t \<and> queue_contents t = queue_contents q @ [x]) \<and>
    (Queue_Enqueue al q x = Fail t \<longrightarrow> t = q) \<and>
    (int (q_capacity q * q_growthFactor q) \<le> INT_MAX \<longrightarrow> (\<exists>t. Queue_Enqueue (Some f) q x = Ok () t)) \<and>
    (\<exists>t. Queue_Dequeue q = Ok (case queue_contents q of [] \<Rightarrow> NULL | y # _ \<Rightarrow> y) t \<and> queue_ok t \<and>
       queue_contents t = tl (queue_contents q)) \<and>
    Queue_Peek q = Ok (case queue_contents q of [] \<Rightarrow> NULL | y # _ \<Rightarrow> y) q \<and>
    Queue_Count q = length (queue_contents q)"
proof (intro conjI impI)
  show "\<exists>t. Queue_Dequeue q = Ok (case queue_contents q of [] \<Rightarrow> NULL | y # _ \<Rightarrow> y) t \<and> queue_ok t \<and>
       queue_contents t = tl (queue_contents q)"
  proof (cases "queue_contents q")
    case Nil
    then have "queue_ok (q\<lparr>q_event := False\<rparr>)" "queue_contents (q\<lparr>q_event := False\<rparr>) = []"
      using assms by (simp_all add: queue_ok_def queue_contents_def)
    with Nil Queue_Dequeue_Nil [OF Nil] show ?thesis by simp
  next
    case (Cons y ys)
    with Queue_Dequeue_Cons [OF assms Cons] show ?thesis by simp
  qed
  show "\<exists>t. Queue_Enqueue (Some f) q x = Ok () t" if "int (q_capacity q * q_growthFactor q) \<le> INT_MAX"
    using Queue_Enqueue_defined(3) [OF assms that] .
qed (use assms in \<open>auto simp: Queue_Peek_contents Queue_Count_def dest: Queue_Enqueue_Ok Queue_Enqueue_Fail\<close>)

theorem Queue_refines_list_witness:
  "\<exists>q t. Queue_New (Some (\<lambda>_. ())) (Some (\<lambda>_. ())) True True False 2 (- 1) = Some q \<and>
     Queue_Enqueue (Some (\<lambda>_. 0)) q 42 = Ok () t \<and> queue_contents t = [42]"
proof -
  obtain q where q: "Queue_New (Some (\<lambda>_. ())) (Some (\<lambda>_. ())) True True False 2 (- 1) = Some q"
    "queue_ok q" "queue_contents q = []" "int (q_capacity q * q_growthFactor q) \<le> INT_MAX"
    by (simp add: Queue_New_def Let_def queue_ok_def queue_contents_def)
  from q(4) Queue_refines_list [OF q(2), of None 42 q "\<lambda>_. 0"] obtain t
    where t: "Queue_Enqueue (Some (\<lambda>_. 0)) q 42 = Ok () t" by blast
  with Queue_refines_list [OF q(2), of "Some (\<lambda>_. 0)" 42 t "\<lambda>_. 0"] q(1,3) show ?thesis by auto
qed

text \<open>
  First in, first out over whole runs: after any successful sequence of enqueues the dequeues return
  what was in the queue before, then the new elements, each in order.
\<close>

theorem Queue_order:
  assumes "queue_ok q" "queue.enq_all al q xs = Ok () t"
  shows "\<exists>u. queue.deq_all t (q_size q + length xs) = Ok (queue_contents q @ xs) u \<and> queue_contents u = []"
  using queue.order_preserved [OF assms] by simp

theorem Queue_order_witness:
  "\<exists>q t u. Queue_New (Some (\<lambda>_. ())) (Some (\<lambda>_. ())) True True False 1 2 = Some q \<and>
     queue.enq_all (Some (\<lambda>_. 0)) q [11, 12, 13] = Ok () t \<and> queue.deq_all t 3 = Ok [11, 12, 13] u"
proof -
  obtain q t where q: "Queue_New (Some (\<lambda>_. ())) (Some (\<lambda>_. ())) True True False 1 2 = Some q"
    "queue_ok q" "queue_contents q = []" "q_size q = 0" "queue.enq_all (Some (\<lambda>_. 0)) q [11, 12, 13] = Ok () t"
    by (simp add: Queue_New_def Let_def queue_ok_def queue_contents_def Queue_Enqueue_def Queue_Grow_def
        realloc_def blit_def)
  with Queue_order [OF q(2,5)] show ?thesis by (auto simp: numeral_3_eq_3)
qed

text \<open>
  Clearing a queue that is not full ends, hands every element in order to the free callback when
  there is one, and leaves the queue empty. A full queue is emptied without freeing anything: head and
  tail coincide, so that the loop does not run.
\<close>

theorem Queue_Clear_frees:
  assumes "queue_ok q" "q_fnObjectFree q"
  shows "\<exists>freed t. Queue_Clear q = Some (Ok freed t) \<and> queue_ok t \<and> queue_contents t = [] \<and>
    freed = (if q_size q < q_capacity q then queue_contents q else [])"
proof (cases "q_size q < q_capacity q")
  case True
  with Queue_Clear_not_full [OF assms(1) True] assms(2) show ?thesis by auto
next
  case False
  then have full: "q_size q = q_capacity q" using assms(1) by (simp add: queue_ok_def)
  have "queue_ok (q\<lparr>q_size := 0, q_head := 0, q_tail := 0\<rparr>)"
    "queue_contents (q\<lparr>q_size := 0, q_head := 0, q_tail := 0\<rparr>) = []"
    using assms(1) by (simp_all add: queue_ok_def queue_contents_def)
  with False Queue_Clear_full [OF assms(1) full] show ?thesis by auto
qed

theorem Queue_Clear_frees_witness:
  "\<exists>q t. queue_ok q \<and> queue_contents q = [5, 6] \<and> Queue_Clear q = Some (Ok [] t) \<and> queue_contents t = []"
proof -
  let ?q = "\<lparr>q_capacity = 2, q_growthFactor = 2, q_synchronized = False, q_head = 0, q_tail = 0, q_size = 2,
    q_array = [5, 6], q_event = True, q_fnObjectFree = True, q_fnObjectEquals = default_queue_equals\<rparr>"
  have "queue_ok ?q" "queue_contents ?q = [5, 6]"
    by (simp_all add: queue_ok_def queue_contents_def upt_rec)
  with Queue_Clear_frees [of ?q] show ?thesis by auto
qed

text \<open>
  \<open>Queue_Contains\<close> finds the elements of a queue that neither wraps around nor is full at
  position 0: it looks at the slots below the tail. In a queue that wraps around it misses the
  elements from the head to the end of the array.
\<close>

theorem Queue_Contains_unwrapped:
  assumes "queue_ok q" "q_fnObjectEquals q = default_queue_equals" "q_head q = 0" "q_size q < q_capacity q"
  shows "Queue_Contains q x = Ok (x \<in> set (queue_contents q)) q \<and>
    (\<exists>w. queue_ok w \<and> q_fnObjectEquals w = default_queue_equals \<and> 7 \<in> set (queue_contents w) \<and>
       Queue_Contains w 7 = Ok False w)"
proof
  have "queue_contents q = take (q_tail q) (q_array q)"
    using assms by (intro nth_equalityI) (auto simp: queue_ok_def nth_queue_contents)
  then show "Queue_Contains q x = Ok (x \<in> set (queue_contents q)) q"
    using assms by (auto simp: Queue_Contains_def queue_ok_def default_queue_equals_def list_ex_iff)
  let ?w = "\<lparr>q_capacity = 2, q_growthFactor = 2, q_synchronized = False, q_head = 1, q_tail = 1, q_size = 2,
    q_array = [8, 7], q_event = True, q_fnObjectFree = False, q_fnObjectEquals = default_queue_equals\<rparr>"
  have "queue_ok ?w \<and> q_fnObjectEquals ?w = default_queue_equals \<and> 7 \<in> set (queue_contents ?w) \<and>
       Queue_Contains ?w 7 = Ok False ?w"
    by (simp add: queue_ok_def queue_contents_def Queue_Contains_def default_queue_equals_def upt_rec)
  then show "\<exists>w. queue_ok w \<and> q_fnObjectEquals w = default_queue_equals \<and> 7 \<in> set (queue_contents w) \<and>
       Queue_Contains w 7 = Ok False w" by blast
qed

theorem Queue_Contains_unwrapped_witness:
  "\<exists>q. Queue_New (Some (\<lambda>_. ())) (Some (\<lambda>_. ())) True True False 4 2 = Some q \<and>
     Queue_Contains q 9 = Ok False q"
proof -
  obtain q where q: "Queue_New (Some (\<lambda>_. ())) (Some (\<lambda>_. ())) True True False 4 2 = Some q" "queue_ok q"
    "q_fnObjectEquals q = default_queue_equals" "q_head q = 0" "q_size q < q_capacity q" "queue_contents q = []"
    by (simp add: Queue_New_def Let_def queue_ok_def queue_contents_def)
  with Queue_Contains_unwrapped [OF q(2-5), of 9] show ?thesis by simp
qed

end
