(* ===== verification/Coll_Stack.thy ===== *)
theory Coll_Stack
  imports Coll_Base
begin

text \<open>
  The stack of \<^verbatim>\<open>winpr/libwinpr/utils/collections/Stack.c\<close>. The depth to which the calling thread holds the
  lock is part of the state here, because one path of \<open>Stack_Push\<close> returns with the lock held.
\<close>

section \<open>The operations\<close>

record wStack =
  st_size :: nat
  st_capacity :: nat
  st_array :: "ptr list"
  st_lock :: nat
  st_synchronized :: bool
  st_fnObjectFree :: bool
  st_fnObjectEquals :: "ptr \<Rightarrow> ptr \<Rightarrow> bool"

definition Stack_Enter :: "wStack \<Rightarrow> wStack" where
  "Stack_Enter stack = (if st_synchronized stack then stack\<lparr>st_lock := st_lock stack + 1\<rparr> else stack)"

definition Stack_Leave :: "wStack \<Rightarrow> wStack" where
  "Stack_Leave stack = (if st_synchronized stack then stack\<lparr>st_lock := st_lock stack - 1\<rparr> else stack)"

definition Stack_Count :: "wStack \<Rightarrow> (nat, wStack) res" where
  "Stack_Count stack =
     (let stack = Stack_Enter stack; ret = st_size stack in Ok ret (Stack_Leave stack))"

definition Stack_IsSynchronized :: "wStack \<Rightarrow> bool" where
  "Stack_IsSynchronized stack = st_synchronized stack"

text \<open>The result is the list of objects handed to \<open>fnObjectFree\<close>.\<close>

definition Stack_Clear :: "wStack \<Rightarrow> (ptr list, wStack) res" where
  "Stack_Clear stack =
     (let stack = Stack_Enter stack
      in if st_size stack \<le> length (st_array stack)
         then Ok (if st_fnObjectFree stack then take (st_size stack) (st_array stack) else [])
                (Stack_Leave (stack\<lparr>st_array := blit (st_array stack) 0 (replicate (st_size stack) NULL),
                                    st_size := 0\<rparr>))
         else Fault)"

definition Stack_Contains :: "wStack \<Rightarrow> ptr \<Rightarrow> (bool, wStack) res" where
  "Stack_Contains stack obj =
     (let stack = Stack_Enter stack
      in if st_size stack \<le> length (st_array stack)
         then Ok (list_ex (\<lambda>x. st_fnObjectEquals stack x obj) (take (st_size stack) (st_array stack)))
                (Stack_Leave stack)
         else Fault)"

text \<open>
  \<open>Stack_Push\<close> returns nothing; \<open>Fail\<close> marks the path on which the reallocation failed and the function
  returns without pushing, and without leaving the critical section.
\<close>

definition Stack_Push :: "ptr alloc \<Rightarrow> wStack \<Rightarrow> ptr \<Rightarrow> (unit, wStack) res" where
  "Stack_Push al stack obj =
     (let stack = Stack_Enter stack in
      and_then
        (if st_size stack + 1 \<ge> st_capacity stack then
           (let new_cap = st_capacity stack * 2
            in if int new_cap > INT_MAX then Fault
               else case realloc al (st_array stack) new_cap of
                      None \<Rightarrow> Fail stack
                    | Some new_arr \<Rightarrow> Ok () (stack\<lparr>st_array := new_arr, st_capacity := new_cap\<rparr>))
         else Ok () stack)
        (\<lambda>_ stack.
           if st_size stack < length (st_array stack)
           then Ok () (Stack_Leave (stack\<lparr>st_array := (st_array stack)[st_size stack := obj],
                                          st_size := st_size stack + 1\<rparr>))
           else Fault))"

definition Stack_Pop :: "wStack \<Rightarrow> (ptr, wStack) res" where
  "Stack_Pop stack =
     (let stack = Stack_Enter stack
      in if st_size stack > 0 then
           (if st_size stack - 1 < length (st_array stack)
            then Ok (st_array stack ! (st_size stack - 1))
                   (Stack_Leave (stack\<lparr>st_size := st_size stack - 1\<rparr>))
            else Fault)
         else Ok NULL (Stack_Leave stack))"

definition Stack_Peek :: "wStack \<Rightarrow> (ptr, wStack) res" where
  "Stack_Peek stack =
     (let stack = Stack_Enter stack
      in if st_size stack > 0 then
           (if st_size stack - 1 < length (st_array stack)
            then Ok (st_array stack ! (st_size stack - 1)) (Stack_Leave stack)
            else Fault)
         else Ok NULL (Stack_Leave stack))"

definition default_stack_equals :: "ptr \<Rightarrow> ptr \<Rightarrow> bool" where
  "default_stack_equals obj1 obj2 = (obj1 = obj2)"

definition Stack_New :: "unit alloc \<Rightarrow> unit alloc \<Rightarrow> bool \<Rightarrow> bool \<Rightarrow> wStack option" where
  "Stack_New al_stack al_array lock_ok synchronized =
     (if al_stack = None then None
      else if al_array = None then None
      else if synchronized \<and> \<not> lock_ok then None
      else Some \<lparr>st_size = 0, st_capacity = 32, st_array = replicate 32 NULL, st_lock = 0,
                 st_synchronized = synchronized, st_fnObjectFree = False,
                 st_fnObjectEquals = default_stack_equals\<rparr>)"

section \<open>The stack as a list\<close>

definition stack_contents :: "wStack \<Rightarrow> ptr list" where
  "stack_contents s = rev (take (st_size s) (st_array s))"

definition stack_ok :: "wStack \<Rightarrow> bool" where
  "stack_ok s \<longleftrightarrow> length (st_array s) = st_capacity s \<and> st_size s < st_capacity s \<and> 2 \<le> st_capacity s"

lemma Stack_lock_simps [simp]:
  "stack_contents (Stack_Enter s) = stack_contents s" "stack_contents (Stack_Leave s) = stack_contents s"
  "stack_ok (Stack_Enter s) = stack_ok s" "stack_ok (Stack_Leave s) = stack_ok s"
  "st_size (Stack_Enter s) = st_size s" "st_array (Stack_Enter s) = st_array s"
  "st_capacity (Stack_Enter s) = st_capacity s" "st_fnObjectFree (Stack_Enter s) = st_fnObjectFree s"
  "st_fnObjectEquals (Stack_Enter s) = st_fnObjectEquals s"
  by (simp_all add: Stack_Enter_def Stack_Leave_def stack_contents_def stack_ok_def)

lemma Stack_lock_depth [simp]: "Stack_Leave (Stack_Enter s) = s"
  by (simp add: Stack_Enter_def Stack_Leave_def)

lemma Stack_lock_balance:
  "st_lock (Stack_Leave (Stack_Enter s\<lparr>st_array := a, st_size := n\<rparr>)) = st_lock s"
  "st_lock (Stack_Leave (Stack_Enter s\<lparr>st_size := n\<rparr>)) = st_lock s"
  "st_lock (Stack_Leave (Stack_Enter s\<lparr>st_capacity := c, st_array := a, st_size := n\<rparr>)) = st_lock s"
  by (simp_all add: Stack_Enter_def Stack_Leave_def)

lemma stack_contents_push:
  assumes "st_size s < length (st_array s)"
  shows "stack_contents (s\<lparr>st_array := (st_array s)[st_size s := x], st_size := st_size s + 1\<rparr>) =
    x # stack_contents s"
  using assms by (simp add: stack_contents_def take_Suc_conv_app_nth)

lemma Stack_Push_Ok:
  assumes s: "stack_ok s" and p: "Stack_Push al s x = Ok () t"
  shows "stack_ok t \<and> stack_contents t = x # stack_contents s \<and> st_lock t = st_lock s"
proof (cases "st_size s + 1 \<ge> st_capacity s")
  case False
  with s p have t: "t = Stack_Leave (Stack_Enter s\<lparr>st_array := (st_array s)[st_size s := x], st_size := st_size s + 1\<rparr>)"
    by (simp add: Stack_Push_def Let_def stack_ok_def)
  have "st_size (Stack_Enter s) < length (st_array (Stack_Enter s))" using s by (simp add: stack_ok_def)
  from stack_contents_push [OF this, of x] False s show ?thesis
    unfolding t by (simp add: Stack_lock_balance) (simp add: stack_ok_def)
next
  case True
  with p obtain a where a: "realloc al (st_array s) (st_capacity s * 2) = Some a"
    and t: "t = Stack_Leave (Stack_Enter s\<lparr>st_capacity := st_capacity s * 2, st_array := a[st_size s := x],
      st_size := st_size s + 1\<rparr>)"
    by (auto simp: Stack_Push_def Let_def split: if_splits option.splits)
  have len: "length a = st_capacity s * 2" using realloc_length [OF a] .
  have "take (st_size s) a = take (st_size s) (st_array s)"
    using s realloc_take [OF a] by (simp add: stack_ok_def)
  with s len show ?thesis
    unfolding t by (simp add: Stack_lock_balance) (simp add: stack_ok_def stack_contents_def take_Suc_conv_app_nth)
qed

lemma Stack_Pop_Cons:
  assumes s: "stack_ok s" and c: "stack_contents s = x # xs"
  shows "\<exists>t. Stack_Pop s = Ok x t \<and> stack_ok t \<and> stack_contents t = xs"
proof -
  obtain n where n: "st_size s = Suc n" "n < length (st_array s)"
    using s c by (cases "st_size s") (auto simp: stack_contents_def stack_ok_def)
  with c have "st_array s ! n = x" "rev (take n (st_array s)) = xs"
    by (simp_all add: stack_contents_def take_Suc_conv_app_nth)
  with s n show ?thesis by (simp add: Stack_Pop_def Let_def) (simp add: stack_ok_def stack_contents_def)
qed

interpretation stack: lifo stack_ok stack_contents "Stack_Push al" Stack_Pop for al
  using Stack_Push_Ok Stack_Pop_Cons by unfold_locales blast+

section \<open>Properties\<close>

text \<open>
  \<open>wStack\<close> is last in, first out: after a successful sequence of pushes the pops return the elements in
  reverse, what lay below is as before, and no slot outside the array is touched however often it grows.
\<close>

theorem Stack_order:
  assumes "stack_ok s" "stack.push_all al s xs = Ok () t"
  shows "\<exists>u. stack.pop_all t (length xs) = Ok (rev xs) u \<and> stack_contents u = stack_contents s"
  using stack.order_reversed [OF assms] .

theorem Stack_order_witness:
  "\<exists>s t u. Stack_New (Some (\<lambda>_. ())) (Some (\<lambda>_. ())) True True = Some s \<and>
     stack.push_all None s [3, 4] = Ok () t \<and> stack.pop_all t 2 = Ok [4, 3] u"
proof -
  obtain s t where s: "Stack_New (Some (\<lambda>_. ())) (Some (\<lambda>_. ())) True True = Some s" "stack_ok s"
    "stack.push_all None s [3, 4] = Ok () t"
    by (simp add: Stack_New_def stack_ok_def Stack_Push_def Stack_Enter_def Stack_Leave_def)
  with Stack_order [OF s(2,3)] show ?thesis by (auto simp: numeral_2_eq_2)
qed

text \<open>
  A push that cannot grow the array leaves the elements alone but returns with the lock of a
  synchronized stack held; every other outcome of a push gives the lock back.
\<close>

theorem Stack_Push_lock:
  assumes "stack_ok s" "st_synchronized s"
  shows "(Stack_Push al s x = Ok () t \<longrightarrow> st_lock t = st_lock s) \<and>
    (Stack_Push al s x = Fail t \<longrightarrow> st_lock t = st_lock s + 1 \<and> stack_contents t = stack_contents s) \<and>
    (st_size s + 1 = st_capacity s \<longrightarrow> int (st_capacity s * 2) \<le> INT_MAX \<longrightarrow> (\<exists>t. Stack_Push None s x = Fail t))"
proof (intro conjI impI)
  show "st_lock t = st_lock s" if "Stack_Push al s x = Ok () t" using Stack_Push_Ok [OF assms(1) that] by simp
  show "st_lock t = st_lock s + 1" "stack_contents t = stack_contents s" if "Stack_Push al s x = Fail t"
  proof -
    have "t = Stack_Enter s" using that by (auto simp: Stack_Push_def Let_def split: if_splits option.splits)
    then show "st_lock t = st_lock s + 1" "stack_contents t = stack_contents s"
      using assms(2) by (simp_all, simp add: Stack_Enter_def)
  qed
  show "\<exists>t. Stack_Push None s x = Fail t" if "st_size s + 1 = st_capacity s" "int (st_capacity s * 2) \<le> INT_MAX"
  proof -
    have "st_capacity s * 2 \<le> 2147483647" using that(2) by linarith
    with that(1) show ?thesis by (simp add: Stack_Push_def Let_def realloc_def)
  qed
qed

theorem Stack_Push_lock_witness:
  "\<exists>s t. stack_ok s \<and> st_lock s = 0 \<and> Stack_Push None s 7 = Fail t \<and> st_lock t = 1"
proof -
  let ?s = "\<lparr>st_size = 1, st_capacity = 2, st_array = [5, 0], st_lock = 0, st_synchronized = True,
    st_fnObjectFree = False, st_fnObjectEquals = default_stack_equals\<rparr>"
  have s: "stack_ok ?s" "st_synchronized ?s" by (simp_all add: stack_ok_def)
  then obtain t where "Stack_Push None ?s 7 = Fail t" using Stack_Push_lock [OF s, of None 7 ?s] by auto
  with Stack_Push_lock [OF s, of None 7 t] s show ?thesis by (intro exI [of _ ?s] exI [of _ t]) simp
qed

end
