(* ===== verification/Coll_ArrayList.thy ===== *)
theory Coll_ArrayList
  imports Coll_Base
begin

text \<open>
  The growable array of \<^verbatim>\<open>winpr/libwinpr/utils/collections/ArrayList.c\<close>. Index arguments are \<open>int\<close> and may be
  negative; the members \<open>size\<close> and \<open>capacity\<close> never are. The operations that release objects return
  the objects handed to \<open>fnObjectFree\<close>, in order.
\<close>

section \<open>The operations\<close>

record wArrayList =
  ar_capacity :: nat
  ar_growthFactor :: nat
  ar_synchronized :: bool
  ar_size :: nat
  ar_array :: "ptr list"
  ar_fnObjectFree :: bool
  ar_fnObjectEquals :: "ptr \<Rightarrow> ptr \<Rightarrow> bool"

definition ArrayList_Capacity :: "wArrayList \<Rightarrow> nat" where
  "ArrayList_Capacity arrayList = ar_capacity arrayList"

definition ArrayList_Count :: "wArrayList \<Rightarrow> nat" where
  "ArrayList_Count arrayList = ar_size arrayList"

definition ArrayList_Items :: "wArrayList \<Rightarrow> nat \<times> ptr list" where
  "ArrayList_Items arrayList = (ar_size arrayList, ar_array arrayList)"

definition ArrayList_IsFixedSized :: "wArrayList \<Rightarrow> bool" where
  "ArrayList_IsFixedSized arrayList = False"

definition ArrayList_IsReadOnly :: "wArrayList \<Rightarrow> bool" where
  "ArrayList_IsReadOnly arrayList = False"

definition ArrayList_IsSynchronized :: "wArrayList \<Rightarrow> bool" where
  "ArrayList_IsSynchronized arrayList = ar_synchronized arrayList"

definition ArrayList_GetItem :: "wArrayList \<Rightarrow> int \<Rightarrow> (ptr, wArrayList) res" where
  "ArrayList_GetItem arrayList index =
     (if index \<ge> 0 \<and> index < int (ar_size arrayList) then
        (if nat index < length (ar_array arrayList) then Ok (ar_array arrayList ! nat index) arrayList
         else Fault)
      else Ok NULL arrayList)"

definition ArrayList_SetItem :: "wArrayList \<Rightarrow> int \<Rightarrow> ptr \<Rightarrow> (unit, wArrayList) res" where
  "ArrayList_SetItem arrayList index obj =
     (if index \<ge> 0 \<and> index < int (ar_size arrayList) then
        (if nat index < length (ar_array arrayList)
         then Ok () (arrayList\<lparr>ar_array := (ar_array arrayList)[nat index := obj]\<rparr>)
         else Fault)
      else Ok () arrayList)"

text \<open>The growth step \<open>ArrayList_Shift\<close> and \<open>ArrayList_Add\<close> share.\<close>

definition ArrayList_Grow :: "ptr alloc \<Rightarrow> wArrayList \<Rightarrow> nat \<Rightarrow> (unit, wArrayList) res" where
  "ArrayList_Grow al arrayList count =
     (if int (ar_size arrayList + count) > INT_MAX then Fault
      else if ar_size arrayList + count > ar_capacity arrayList then
        (let newCapacity = ar_capacity arrayList * ar_growthFactor arrayList
         in if int newCapacity > INT_MAX then Fault
            else case realloc al (ar_array arrayList) newCapacity of
                   None \<Rightarrow> Fail arrayList
                 | Some newArray \<Rightarrow> Ok () (arrayList\<lparr>ar_array := newArray, ar_capacity := newCapacity\<rparr>))
      else Ok () arrayList)"

text \<open>\<open>MoveMemory\<close> of \<open>n\<close> pointers inside the array: \<open>Fault\<close> unless both ranges lie in it.\<close>

definition move_items :: "wArrayList \<Rightarrow> int \<Rightarrow> int \<Rightarrow> int \<Rightarrow> (unit, wArrayList) res" where
  "move_items arrayList dst src n =
     (let array = ar_array arrayList
      in if n \<ge> 0 \<and> dst \<ge> 0 \<and> src \<ge> 0 \<and> dst + n \<le> int (length array) \<and> src + n \<le> int (length array)
         then Ok () (arrayList\<lparr>ar_array := blit array (nat dst) (take (nat n) (drop (nat src) array))\<rparr>)
         else Fault)"

text \<open>
  \<open>ArrayList_Shift\<close> is only called with a count of 1 or \<open>-1\<close> and an index below the size; a size below
  zero is not represented.
\<close>

definition ArrayList_Shift :: "ptr alloc \<Rightarrow> wArrayList \<Rightarrow> int \<Rightarrow> int \<Rightarrow> (unit, wArrayList) res" where
  "ArrayList_Shift al arrayList index count =
     (if count > 0 then
        and_then (ArrayList_Grow al arrayList (nat count)) (\<lambda>_ arrayList.
        and_then (move_items arrayList (index + count) index (int (ar_size arrayList) - index)) (\<lambda>_ arrayList.
          Ok () (arrayList\<lparr>ar_size := ar_size arrayList + nat count\<rparr>)))
      else if count < 0 then
        (let chunk = int (ar_size arrayList) - index + count
         in and_then (if chunk > 0 then move_items arrayList index (index - count) chunk else Ok () arrayList)
              (\<lambda>_ arrayList.
                 if int (ar_size arrayList) + count < 0 then Fault
                 else Ok () (arrayList\<lparr>ar_size := nat (int (ar_size arrayList) + count)\<rparr>)))
      else Ok () arrayList)"

definition ArrayList_Clear :: "wArrayList \<Rightarrow> (ptr list, wArrayList) res" where
  "ArrayList_Clear arrayList =
     (let n = ar_size arrayList; array = ar_array arrayList
      in if n \<le> length array
         then Ok (if ar_fnObjectFree arrayList then take n array else [])
                (arrayList\<lparr>ar_array := blit array 0 (replicate n NULL), ar_size := 0\<rparr>)
         else Fault)"

text \<open>
  The search loops: \<open>n\<close> elements upwards from \<open>index\<close>, or downwards to \<open>index\<close>. The result is the
  index where the loop broke off, or \<open>-1\<close>.
\<close>

fun find_up :: "(ptr \<Rightarrow> bool) \<Rightarrow> wArrayList \<Rightarrow> nat \<Rightarrow> nat \<Rightarrow> (int, wArrayList) res" where
  "find_up p arrayList index 0 = Ok (- 1) arrayList"
| "find_up p arrayList index (Suc n) =
     (if index < length (ar_array arrayList) then
        (if p (ar_array arrayList ! index) then Ok (int index) arrayList
         else find_up p arrayList (index + 1) n)
      else Fault)"

fun find_down :: "(ptr \<Rightarrow> bool) \<Rightarrow> wArrayList \<Rightarrow> nat \<Rightarrow> nat \<Rightarrow> (int, wArrayList) res" where
  "find_down p arrayList index 0 = Ok (- 1) arrayList"
| "find_down p arrayList index (Suc n) =
     (if index + n < length (ar_array arrayList) then
        (if p (ar_array arrayList ! (index + n)) then Ok (int (index + n)) arrayList
         else find_down p arrayList index n)
      else Fault)"

definition ArrayList_Contains :: "wArrayList \<Rightarrow> ptr \<Rightarrow> (bool, wArrayList) res" where
  "ArrayList_Contains arrayList obj =
     and_then (find_up (\<lambda>x. ar_fnObjectEquals arrayList x obj) arrayList 0 (ar_size arrayList))
       (\<lambda>index arrayList. Ok (index \<noteq> - 1) arrayList)"

text \<open>The value is the one \<open>ArrayList_Add\<close> returns; \<open>Fail\<close> stands for \<open>-1\<close>.\<close>

definition ArrayList_Add :: "ptr alloc \<Rightarrow> wArrayList \<Rightarrow> ptr \<Rightarrow> (int, wArrayList) res" where
  "ArrayList_Add al arrayList obj =
     and_then (ArrayList_Grow al arrayList 1) (\<lambda>_ arrayList.
       if ar_size arrayList < length (ar_array arrayList)
       then Ok (int (ar_size arrayList) + 1)
              (arrayList\<lparr>ar_array := (ar_array arrayList)[ar_size arrayList := obj],
                         ar_size := ar_size arrayList + 1\<rparr>)
       else Fault)"

definition ArrayList_Insert :: "ptr alloc \<Rightarrow> wArrayList \<Rightarrow> int \<Rightarrow> ptr \<Rightarrow> (unit, wArrayList) res" where
  "ArrayList_Insert al arrayList index obj =
     (if index \<ge> 0 \<and> index < int (ar_size arrayList) then
        and_then (ArrayList_Shift al arrayList index 1) (\<lambda>_ arrayList.
          if nat index < length (ar_array arrayList)
          then Ok () (arrayList\<lparr>ar_array := (ar_array arrayList)[nat index := obj]\<rparr>)
          else Fault)
      else Ok () arrayList)"

definition ArrayList_Remove :: "wArrayList \<Rightarrow> ptr \<Rightarrow> (ptr list, wArrayList) res" where
  "ArrayList_Remove arrayList obj =
     and_then (find_up (\<lambda>x. ar_fnObjectEquals arrayList x obj) arrayList 0 (ar_size arrayList))
       (\<lambda>index arrayList.
          if index \<noteq> - 1 then
            and_then (ArrayList_Shift None arrayList index (- 1)) (\<lambda>_ arrayList'.
              Ok (if ar_fnObjectFree arrayList then [ar_array arrayList ! nat index] else []) arrayList')
          else Ok [] arrayList)"

definition ArrayList_RemoveAt :: "wArrayList \<Rightarrow> int \<Rightarrow> (ptr list, wArrayList) res" where
  "ArrayList_RemoveAt arrayList index =
     (if index \<ge> 0 \<and> index < int (ar_size arrayList) then
        (if ar_fnObjectFree arrayList \<and> nat index \<ge> length (ar_array arrayList) then Fault
         else and_then (ArrayList_Shift None arrayList index (- 1)) (\<lambda>_ arrayList'.
                Ok (if ar_fnObjectFree arrayList then [ar_array arrayList ! nat index] else []) arrayList'))
      else Ok [] arrayList)"

definition ArrayList_IndexOf :: "wArrayList \<Rightarrow> ptr \<Rightarrow> int \<Rightarrow> int \<Rightarrow> (int, wArrayList) res" where
  "ArrayList_IndexOf arrayList obj startIndex count =
     (let startIndex = (if startIndex < 0 then 0 else startIndex);
          count = (if count < 0 then int (ar_size arrayList) else count)
      in if startIndex + count > INT_MAX then Fault
         else find_up (\<lambda>x. ar_fnObjectEquals arrayList x obj) arrayList (nat startIndex) (nat count))"

definition ArrayList_LastIndexOf :: "wArrayList \<Rightarrow> ptr \<Rightarrow> int \<Rightarrow> int \<Rightarrow> (int, wArrayList) res" where
  "ArrayList_LastIndexOf arrayList obj startIndex count =
     (let startIndex = (if startIndex < 0 then 0 else startIndex);
          count = (if count < 0 then int (ar_size arrayList) else count)
      in if startIndex + count > INT_MAX then Fault
         else find_down (\<lambda>x. ar_fnObjectEquals arrayList x obj) arrayList (nat startIndex) (nat count))"

definition ArrayList_DefaultCompare :: "ptr \<Rightarrow> ptr \<Rightarrow> bool" where
  "ArrayList_DefaultCompare objA objB = (objA = objB)"

definition ArrayList_New :: "unit alloc \<Rightarrow> unit alloc \<Rightarrow> bool \<Rightarrow> wArrayList option" where
  "ArrayList_New al_list al_array synchronized =
     (if al_list = None then None
      else if al_array = None then None
      else Some \<lparr>ar_capacity = 32, ar_growthFactor = 2, ar_synchronized = synchronized, ar_size = 0,
                 ar_array = replicate 32 NULL, ar_fnObjectFree = False,
                 ar_fnObjectEquals = ArrayList_DefaultCompare\<rparr>)"

definition ArrayList_Free :: "wArrayList option \<Rightarrow> ptr list option" where
  "ArrayList_Free arrayList =
     (case arrayList of None \<Rightarrow> Some []
      | Some arrayList \<Rightarrow> (case ArrayList_Clear arrayList of Ok freed _ \<Rightarrow> Some freed | _ \<Rightarrow> None))"

section \<open>The array list as a list\<close>

definition array_contents :: "wArrayList \<Rightarrow> ptr list" where
  "array_contents l = take (ar_size l) (ar_array l)"

definition array_ok :: "wArrayList \<Rightarrow> bool" where
  "array_ok l \<longleftrightarrow> length (ar_array l) = ar_capacity l \<and> ar_size l \<le> ar_capacity l \<and> 0 < ar_capacity l \<and>
     int (ar_capacity l) \<le> INT_MAX \<and> 2 \<le> ar_growthFactor l"

lemma length_array_contents [simp]: "array_ok l \<Longrightarrow> length (array_contents l) = ar_size l"
  by (simp add: array_ok_def array_contents_def)

text \<open>What every operation keeps: the configuration, and the contents unless said otherwise.\<close>

definition array_cfg :: "wArrayList \<Rightarrow> bool \<times> bool \<times> (ptr \<Rightarrow> ptr \<Rightarrow> bool)" where
  "array_cfg l = (ar_synchronized l, ar_fnObjectFree l, ar_fnObjectEquals l)"

lemma ArrayList_Grow_Ok:
  assumes ok: "array_ok l" and g: "ArrayList_Grow al l 1 = Ok u t"
  shows "array_ok t" "ar_size t = ar_size l" "array_contents t = array_contents l" "ar_size t < ar_capacity t"
    "array_cfg t = array_cfg l"
proof -
  let ?n = "ar_capacity l * ar_growthFactor l"
  have "ar_capacity l * 2 \<le> ?n" using ok by (simp add: array_ok_def)
  then have n: "ar_capacity l < ?n" using ok by (simp add: array_ok_def)
  have "t = l \<and> ar_size l < ar_capacity l \<or>
    (\<exists>a. realloc al (ar_array l) ?n = Some a \<and> int ?n \<le> INT_MAX \<and> t = l\<lparr>ar_array := a, ar_capacity := ?n\<rparr>)"
    using g ok unfolding ArrayList_Grow_def Let_def array_ok_def
    by (auto simp del: of_nat_mult split: if_splits option.splits)
  then have "array_ok t \<and> ar_size t = ar_size l \<and> array_contents t = array_contents l \<and> ar_size t < ar_capacity t \<and>
    array_cfg t = array_cfg l"
  proof (elim disjE exE conjE)
    fix a assume a: "realloc al (ar_array l) ?n = Some a" "int ?n \<le> INT_MAX" "t = l\<lparr>ar_array := a, ar_capacity := ?n\<rparr>"
    have lt: "ar_size l \<le> ?n" "ar_size l < ?n" "ar_size l \<le> length (ar_array l)" using n ok unfolding array_ok_def by linarith+
    note realloc_take [OF a(1) lt(1,3)] realloc_length [OF a(1)]
    then show ?thesis using a ok
      by (simp add: lt array_ok_def array_contents_def array_cfg_def del: of_nat_mult)
  qed (use ok in simp)
  then show "array_ok t" "ar_size t = ar_size l" "array_contents t = array_contents l" "ar_size t < ar_capacity t"
    "array_cfg t = array_cfg l" by blast+
qed

lemma ArrayList_Grow_total:
  assumes "array_ok l" "int (ar_capacity l * ar_growthFactor l) \<le> INT_MAX"
  shows "ArrayList_Grow al l 1 = Fail t \<Longrightarrow> t = l" "ArrayList_Grow al l 1 \<noteq> Fault" "al \<noteq> None \<or> ar_size l < ar_capacity l \<Longrightarrow> \<exists>t. ArrayList_Grow al l 1 = Ok () t"
proof -
  have "ar_capacity l * 2 \<le> ar_capacity l * ar_growthFactor l" using assms(1) by (simp add: array_ok_def)
  then have "int (ar_size l + 1) \<le> INT_MAX" using assms unfolding array_ok_def by linarith
  then show "ArrayList_Grow al l 1 = Fail t \<Longrightarrow> t = l" "ArrayList_Grow al l 1 \<noteq> Fault" "al \<noteq> None \<or> ar_size l < ar_capacity l \<Longrightarrow> \<exists>t. ArrayList_Grow al l 1 = Ok () t"
    using assms unfolding ArrayList_Grow_def Let_def realloc_def
    by (auto simp del: of_nat_mult split: option.splits if_splits)
qed

lemma array_contents_add:
  assumes "array_ok l" "ar_size l < ar_capacity l"
  shows "array_contents (l\<lparr>ar_array := (ar_array l)[ar_size l := x], ar_size := ar_size l + 1\<rparr>) = array_contents l @ [x]"
  using assms by (simp add: array_contents_def array_ok_def take_Suc_conv_app_nth)

lemma ArrayList_Add_Ok:
  assumes ok: "array_ok l" and a: "ArrayList_Add al l x = Ok r t"
  shows "array_ok t \<and> array_contents t = array_contents l @ [x] \<and> r = int (length (array_contents l)) + 1"
proof -
  from a obtain u where g: "ArrayList_Grow al l 1 = Ok () u"
    and t: "t = u\<lparr>ar_array := (ar_array u)[ar_size u := x], ar_size := ar_size u + 1\<rparr>" "r = int (ar_size u) + 1"
    by (auto simp: ArrayList_Add_def and_then_Ok_iff split: if_splits)
  note u = ArrayList_Grow_Ok [OF ok g]
  show ?thesis using array_contents_add [OF u(1,4), of x] u ok unfolding t by (simp add: array_ok_def)
qed

lemma ArrayList_GetItem_in:
  "array_ok l \<Longrightarrow> i < length (array_contents l) \<Longrightarrow> ArrayList_GetItem l (int i) = Ok (array_contents l ! i) l"
  by (simp add: ArrayList_GetItem_def) (simp add: array_ok_def array_contents_def)

lemma move_items_down:
  assumes len: "m \<le> length (ar_array l)" and i: "Suc i \<le> m"
  shows "\<exists>b. move_items l (int i) (int i + 1) (int m - int i - 1) = Ok () (l\<lparr>ar_array := b\<rparr>) \<and>
    length b = length (ar_array l) \<and>
    take (m - 1) b = take i (take m (ar_array l)) @ drop (Suc i) (take m (ar_array l))"
proof -
  let ?a = "ar_array l"
  let ?c = "take (m - Suc i) (drop (Suc i) ?a)"
  have n: "nat (int m - int i - 1) = m - Suc i" "nat (int i + 1) = Suc i" by simp_all
  have lc: "length ?c = m - Suc i" using len i by simp
  have "take (m - 1) (blit ?a i ?c) = take i ?a @ ?c"
    using take_blit_full [of i ?a "m - 1" ?c] lc len i by simp
  moreover have "?c = drop (Suc i) (take m ?a)" by (simp add: drop_take)
  ultimately have "take (m - 1) (blit ?a i ?c) = take i (take m ?a) @ drop (Suc i) (take m ?a)"
    using i by simp
  moreover have "length (blit ?a i ?c) = length ?a" using lc len i by simp
  moreover have "move_items l (int i) (int i + 1) (int m - int i - 1) = Ok () (l\<lparr>ar_array := blit ?a i ?c\<rparr>)"
    using len i by (simp add: move_items_def Let_def n)
  ultimately show ?thesis by blast
qed

lemma shift_down:
  assumes ok: "array_ok l" and i: "i < ar_size l"
  shows "\<exists>t. ArrayList_Shift al l (int i) (- 1) = Ok () t \<and> array_ok t \<and> array_cfg t = array_cfg l \<and>
    array_contents t = take i (array_contents l) @ drop (Suc i) (array_contents l)"
proof (cases "Suc i < ar_size l")
  case True
  from move_items_down [of "ar_size l" l i] ok i obtain b where
    b: "move_items l (int i) (int i + 1) (int (ar_size l) - int i - 1) = Ok () (l\<lparr>ar_array := b\<rparr>)"
    "length b = length (ar_array l)"
    "take (ar_size l - 1) b = take i (array_contents l) @ drop (Suc i) (array_contents l)"
    by (auto simp: array_ok_def array_contents_def)
  have c: "int (ar_size l) - int i + - 1 > 0" "int i - - 1 = int i + 1" "int (ar_size l) - int i + - 1 = int (ar_size l) - int i - 1"
    "\<not> int (ar_size l) + - 1 < 0" "nat (int (ar_size l) + - 1) = ar_size l - 1" using True by simp_all
  have "ArrayList_Shift al l (int i) (- 1) = Ok () (l\<lparr>ar_array := b, ar_size := ar_size l - 1\<rparr>)"
    unfolding ArrayList_Shift_def Let_def using c b(1) by simp
  then show ?thesis using b ok by (auto simp: array_ok_def array_contents_def array_cfg_def)
next
  case False
  then have e: "ar_size l = Suc i" using i by simp
  then show ?thesis using ok
    by (simp add: ArrayList_Shift_def array_ok_def array_contents_def array_cfg_def)
qed

lemma ArrayList_RemoveAt_in:
  assumes ok: "array_ok l" and i: "i < length (array_contents l)"
  shows "\<exists>t. ArrayList_RemoveAt l (int i) = Ok (if ar_fnObjectFree l then [array_contents l ! i] else []) t \<and>
    array_ok t \<and> array_contents t = take i (array_contents l) @ drop (Suc i) (array_contents l)"
proof -
  have i': "i < ar_size l" using i ok by simp
  from shift_down [OF ok this, of None] obtain t where "ArrayList_Shift None l (int i) (- 1) = Ok () t"
    "array_ok t" "array_contents t = take i (array_contents l) @ drop (Suc i) (array_contents l)" by blast
  moreover have "array_contents l ! i = ar_array l ! i" "i < length (ar_array l)"
    using i' ok by (simp_all add: array_contents_def array_ok_def)
  ultimately show ?thesis using i' by (simp add: ArrayList_RemoveAt_def)
qed

interpretation array_list: random_access array_ok array_contents "ArrayList_Add al" ArrayList_GetItem ArrayList_RemoveAt for al
proof unfold_locales
  fix s :: wArrayList and x r t assume "array_ok s" "ArrayList_Add al s x = Ok r t"
  then show "array_ok t \<and> array_contents t = array_contents s @ [x]" using ArrayList_Add_Ok by blast
next
  fix s :: wArrayList and i assume "array_ok s" "i < length (array_contents s)"
  then show "ArrayList_GetItem s (int i) = Ok (array_contents s ! i) s"
    "\<exists>f t. ArrayList_RemoveAt s (int i) = Ok f t \<and> array_ok t \<and>
       array_contents t = take i (array_contents s) @ drop (Suc i) (array_contents s)"
    using ArrayList_GetItem_in ArrayList_RemoveAt_in by blast+
qed

lemma ArrayList_Add_total:
  assumes "array_ok l" "int (ar_capacity l * ar_growthFactor l) \<le> INT_MAX"
  shows "ArrayList_Add al l x = Fail t \<Longrightarrow> t = l" "ArrayList_Add al l x \<noteq> Fault"
    "al \<noteq> None \<or> ar_size l < ar_capacity l \<Longrightarrow> \<exists>r t. ArrayList_Add al l x = Ok r t"
proof -
  have u: "ar_size u < length (ar_array u)" if "ArrayList_Grow al l 1 = Ok () u" for u
    using ArrayList_Grow_Ok [OF assms(1) that] by (simp add: array_ok_def)
  show "ArrayList_Add al l x = Fail t \<Longrightarrow> t = l" "ArrayList_Add al l x \<noteq> Fault"
    "al \<noteq> None \<or> ar_size l < ar_capacity l \<Longrightarrow> \<exists>r t. ArrayList_Add al l x = Ok r t"
    using ArrayList_Grow_total [OF assms, of al] u unfolding ArrayList_Add_def
    by (cases "ArrayList_Grow al l 1"; auto)+
qed

lemma move_items_up:
  assumes len: "m < length (ar_array l)" and i: "i \<le> m"
  shows "\<exists>b. move_items l (int i + 1) (int i) (int m - int i) = Ok () (l\<lparr>ar_array := b\<rparr>) \<and>
    length b = length (ar_array l) \<and> take i b = take i (ar_array l) \<and>
    take (m - i) (drop (Suc i) b) = drop i (take m (ar_array l))"
proof -
  let ?a = "ar_array l"
  let ?c = "take (m - i) (drop i ?a)"
  have n: "nat (int m - int i) = m - i" "nat (int i + 1) = Suc i" by simp_all
  have lc: "length ?c = m - i" using len i by simp
  have "drop (Suc i) (blit ?a (Suc i) ?c) = ?c @ drop (Suc i + length ?c) ?a"
    using len i by (intro drop_blit_start) simp
  then have "take (m - i) (drop (Suc i) (blit ?a (Suc i) ?c)) = ?c" using lc by simp
  moreover have "?c = drop i (take m ?a)" by (simp add: drop_take)
  moreover have "length (blit ?a (Suc i) ?c) = length ?a" using lc len i by simp
  moreover have "take i (blit ?a (Suc i) ?c) = take i ?a" using len i by (intro take_blit) simp_all
  moreover have "move_items l (int i + 1) (int i) (int m - int i) = Ok () (l\<lparr>ar_array := blit ?a (Suc i) ?c\<rparr>)"
    using len i by (simp add: move_items_def Let_def n)
  ultimately show ?thesis by metis
qed

lemma insert_contents:
  assumes "length b = n" "i \<le> m" "m < n" "take i b = take i a" "take (m - i) (drop (Suc i) b) = drop i (take m a)"
  shows "take (Suc m) (b[i := x]) = take i (take m a) @ x # drop i (take m a)"
proof -
  have "take (Suc m) (b[i := x]) = take i b @ x # take (m - i) (drop (Suc i) b)"
    using assms(1-3) by (simp add: upd_conv_take_nth_drop take_Cons' Suc_diff_le)
  then show ?thesis using assms by simp
qed

lemma ArrayList_Insert_in:
  assumes ok: "array_ok l" and i: "i < length (array_contents l)"
  shows "wp (ArrayList_Grow al l 1) (\<lambda>_ _. \<exists>t. ArrayList_Insert al l (int i) x = Ok () t \<and> array_ok t \<and>
        array_contents t = take i (array_contents l) @ x # drop i (array_contents l))
      (\<lambda>t. ArrayList_Insert al l (int i) x = Fail t) \<or> ArrayList_Grow al l 1 = Fault"
proof (cases "ArrayList_Grow al l 1")
  case (Ok a u)
  note u = ArrayList_Grow_Ok [OF ok Ok]
  have i': "i < ar_size l" using i ok by simp
  have m: "i \<le> ar_size u" "ar_size u < length (ar_array u)" "i < length (ar_array u)"
    using u(1,2,4) i' by (simp_all add: array_ok_def)
  from move_items_up [OF m(2,1)] obtain b where
    b: "move_items u (int i + 1) (int i) (int (ar_size u) - int i) = Ok () (u\<lparr>ar_array := b\<rparr>)"
      "length b = length (ar_array u)" "take i b = take i (ar_array u)"
      "take (ar_size u - i) (drop (Suc i) b) = drop i (take (ar_size u) (ar_array u))" by blast
  let ?t = "u\<lparr>ar_array := b[i := x], ar_size := Suc (ar_size u)\<rparr>"
  have "array_contents ?t = take i (array_contents u) @ x # drop i (array_contents u)"
    using insert_contents [OF refl m(1) _ b(3,4)] b(2) m(2) by (simp add: array_contents_def)
  moreover have "array_ok ?t" using u(1,4) b(2) by (simp add: array_ok_def)
  moreover have "ArrayList_Insert al l (int i) x = Ok () ?t"
    using Ok i' b(1,2) m(3) by (simp add: ArrayList_Insert_def ArrayList_Shift_def)
  ultimately show ?thesis using Ok u(3) by simp
next
  case (Fail u)
  then show ?thesis using i ok by (simp add: ArrayList_Insert_def ArrayList_Shift_def)
qed simp

text \<open>
  \<open>first_at P i k r\<close>: \<open>r\<close> is the least index of \<open>i \<le> r < k\<close> that satisfies \<open>P\<close>, or \<open>-1\<close> when there is none;
  \<open>last_at\<close> is the same for the greatest.
\<close>

definition first_at :: "(nat \<Rightarrow> bool) \<Rightarrow> nat \<Rightarrow> nat \<Rightarrow> int \<Rightarrow> bool" where
  "first_at P i k r \<longleftrightarrow>
     (if r = - 1 then \<forall>j. i \<le> j \<and> j < k \<longrightarrow> \<not> P j
      else \<exists>j. r = int j \<and> i \<le> j \<and> j < k \<and> P j \<and> (\<forall>j'. i \<le> j' \<and> j' < j \<longrightarrow> \<not> P j'))"

definition last_at :: "(nat \<Rightarrow> bool) \<Rightarrow> nat \<Rightarrow> nat \<Rightarrow> int \<Rightarrow> bool" where
  "last_at P i k r \<longleftrightarrow>
     (if r = - 1 then \<forall>j. i \<le> j \<and> j < k \<longrightarrow> \<not> P j
      else \<exists>j. r = int j \<and> i \<le> j \<and> j < k \<and> P j \<and> (\<forall>j'. j < j' \<and> j' < k \<longrightarrow> \<not> P j'))"

lemma first_at_step: "\<not> P i \<Longrightarrow> first_at P (Suc i) k r \<Longrightarrow> first_at P i k r"
  unfolding first_at_def by (auto split: if_splits) (metis Suc_leI le_eq_less_or_eq)+

lemma last_at_step: "\<not> P k \<Longrightarrow> last_at P i k r \<Longrightarrow> last_at P i (Suc k) r"
  unfolding last_at_def by (auto split: if_splits elim: less_SucE) (metis less_antisym)

lemma find_up_first:
  "i + n \<le> length (ar_array l) \<Longrightarrow>
   \<exists>r. find_up p l i n = Ok r l \<and> first_at (\<lambda>j. p (ar_array l ! j)) i (i + n) r"
proof (induction n arbitrary: i)
  case (Suc n)
  from Suc.IH [of "Suc i"] Suc.prems obtain r where
    r: "find_up p l (Suc i) n = Ok r l" "first_at (\<lambda>j. p (ar_array l ! j)) (Suc i) (i + Suc n) r" by auto
  show ?case
  proof (cases "p (ar_array l ! i)")
    case True
    then show ?thesis using Suc.prems by (auto simp: first_at_def)
  next
    case False
    then show ?thesis using Suc.prems r first_at_step [of "\<lambda>j. p (ar_array l ! j)" i] by simp
  qed
qed (auto simp: first_at_def)

lemma find_down_last:
  "i + n \<le> length (ar_array l) \<Longrightarrow>
   \<exists>r. find_down p l i n = Ok r l \<and> last_at (\<lambda>j. p (ar_array l ! j)) i (i + n) r"
proof (induction n)
  case (Suc n)
  then obtain r where
    r: "find_down p l i n = Ok r l" "last_at (\<lambda>j. p (ar_array l ! j)) i (i + n) r" by auto
  show ?case
  proof (cases "p (ar_array l ! (i + n))")
    case True
    then show ?thesis using Suc.prems by (auto simp: last_at_def intro!: exI [of _ "i + n"])
  next
    case False
    then show ?thesis using Suc.prems r last_at_step [of "\<lambda>j. p (ar_array l ! j)" "i + n"] by simp
  qed
qed (auto simp: last_at_def)

lemma at_contents:
  assumes "array_ok l" "k \<le> length (array_contents l)"
  shows "first_at (\<lambda>j. p (ar_array l ! j)) i k r = first_at (\<lambda>j. p (array_contents l ! j)) i k r"
    "last_at (\<lambda>j. p (ar_array l ! j)) i k r = last_at (\<lambda>j. p (array_contents l ! j)) i k r"
proof -
  have "array_contents l ! j = ar_array l ! j" if "j < k" for j
    using that assms by (simp add: array_contents_def)
  then show "first_at (\<lambda>j. p (ar_array l ! j)) i k r = first_at (\<lambda>j. p (array_contents l ! j)) i k r"
    "last_at (\<lambda>j. p (ar_array l ! j)) i k r = last_at (\<lambda>j. p (array_contents l ! j)) i k r"
    unfolding first_at_def last_at_def by (auto 0 4)
qed

lemma ArrayList_Remove_cases:
  assumes ok: "array_ok l"
  shows "\<exists>r. first_at (\<lambda>j. ar_fnObjectEquals l (array_contents l ! j) x) 0 (length (array_contents l)) r \<and>
    (if r = - 1 then ArrayList_Remove l x = Ok [] l
     else ArrayList_Remove l x = ArrayList_RemoveAt l r \<and> 0 \<le> r \<and> nat r < length (array_contents l))"
proof -
  have len: "ar_size l \<le> length (ar_array l)" using ok by (simp add: array_ok_def)
  from find_up_first [of 0 "ar_size l" l "\<lambda>y. ar_fnObjectEquals l y x"] len obtain r where
    r: "find_up (\<lambda>y. ar_fnObjectEquals l y x) l 0 (ar_size l) = Ok r l"
    "first_at (\<lambda>j. ar_fnObjectEquals l (ar_array l ! j) x) 0 (ar_size l) r" by auto
  have f: "first_at (\<lambda>j. ar_fnObjectEquals l (array_contents l ! j) x) 0 (length (array_contents l)) r"
    using r(2) at_contents(1) [OF ok, of "ar_size l" "\<lambda>y. ar_fnObjectEquals l y x" 0 r] ok by simp
  have "0 \<le> r \<and> nat r < ar_size l" if "r \<noteq> - 1" using r(2) that by (auto simp: first_at_def)
  then show ?thesis using f r(1) len ok
    by (auto simp: ArrayList_Remove_def ArrayList_RemoveAt_def intro!: exI [of _ r])
qed

lemma remove1_first:
  assumes "j < length c" "\<forall>j' < j. c ! j' \<noteq> c ! j" shows "remove1 (c ! j) c = take j c @ drop (Suc j) c"
proof -
  have "c ! j \<notin> set (take j c)" using assms by (auto simp: in_set_conv_nth)
  then have "remove1 (c ! j) (take j c @ c ! j # drop (Suc j) c) = take j c @ drop (Suc j) c"
    by (simp add: remove1_append)
  then show ?thesis using id_take_nth_drop [OF assms(1)] by simp
qed

lemma ArrayList_Remove_first:
  assumes ok: "array_ok l" and eq: "ar_fnObjectEquals l = ArrayList_DefaultCompare"
  shows "\<exists>t. ArrayList_Remove l x = Ok (if ar_fnObjectFree l \<and> x \<in> set (array_contents l) then [x] else []) t \<and>
    array_ok t \<and> array_contents t = remove1 x (array_contents l)"
proof -
  let ?c = "array_contents l"
  from ArrayList_Remove_cases [OF ok, of x] eq obtain r where r: "first_at (\<lambda>j. ?c ! j = x) 0 (length ?c) r"
    "if r = - 1 then ArrayList_Remove l x = Ok [] l
     else ArrayList_Remove l x = ArrayList_RemoveAt l r \<and> 0 \<le> r \<and> nat r < length ?c"
    by (auto simp: ArrayList_DefaultCompare_def)
  show ?thesis
  proof (cases "r = - 1")
    case True
    then have "x \<notin> set ?c" using r(1) by (auto simp: first_at_def in_set_conv_nth)
    then show ?thesis using True r(2) ok by (simp add: remove1_idem)
  next
    case False
    then obtain j where j: "r = int j" "j < length ?c" "?c ! j = x" "\<forall>j' < j. ?c ! j' \<noteq> x"
      using r(1) by (auto simp: first_at_def)
    then have "x \<in> set ?c" "remove1 x ?c = take j ?c @ drop (Suc j) ?c" using remove1_first [of j ?c] by auto
    then show ?thesis using ArrayList_RemoveAt_in [OF ok j(2)] False r(2) j(1,3) by auto
  qed
qed

lemma find_up_outside:
  "\<lbrakk>i \<le> length (ar_array l); length (ar_array l) < i + n; \<forall>y \<in> set (ar_array l). \<not> p y\<rbrakk> \<Longrightarrow> find_up p l i n = Fault"
  by (induction n arbitrary: i) auto

lemma IndexOf_range:
  assumes ok: "array_ok l" and n: "i + n \<le> length (array_contents l)"
  shows "\<exists>r. ArrayList_IndexOf l x (int i) (int n) = Ok r l \<and>
      first_at (\<lambda>j. ar_fnObjectEquals l (array_contents l ! j) x) i (i + n) r"
    "\<exists>r. ArrayList_LastIndexOf l x (int i) (int n) = Ok r l \<and>
      last_at (\<lambda>j. ar_fnObjectEquals l (array_contents l ! j) x) i (i + n) r"
proof -
  have "i + n \<le> length (ar_array l)" "int i + int n \<le> INT_MAX" using ok n by (simp_all, simp_all add: array_ok_def)
  then show "\<exists>r. ArrayList_IndexOf l x (int i) (int n) = Ok r l \<and>
      first_at (\<lambda>j. ar_fnObjectEquals l (array_contents l ! j) x) i (i + n) r"
    "\<exists>r. ArrayList_LastIndexOf l x (int i) (int n) = Ok r l \<and>
      last_at (\<lambda>j. ar_fnObjectEquals l (array_contents l ! j) x) i (i + n) r"
    using find_up_first [of i n l "\<lambda>y. ar_fnObjectEquals l y x"] find_down_last [of i n l "\<lambda>y. ar_fnObjectEquals l y x"]
      at_contents [OF ok n, of "\<lambda>y. ar_fnObjectEquals l y x"]
    by (auto simp: ArrayList_IndexOf_def ArrayList_LastIndexOf_def Let_def)
qed

lemma ArrayList_Contains_iff:
  assumes ok: "array_ok l"
  shows "ArrayList_Contains l x = Ok (\<exists>y \<in> set (array_contents l). ar_fnObjectEquals l y x) l"
proof -
  have n: "0 + ar_size l \<le> length (array_contents l)" using ok by simp
  obtain r where r: "find_up (\<lambda>y. ar_fnObjectEquals l y x) l 0 (ar_size l) = Ok r l"
    "first_at (\<lambda>j. ar_fnObjectEquals l (array_contents l ! j) x) 0 (ar_size l) r"
    using find_up_first [of 0 "ar_size l" l "\<lambda>y. ar_fnObjectEquals l y x"]
      at_contents(1) [OF ok n, of "\<lambda>y. ar_fnObjectEquals l y x" 0] ok by (auto simp: array_ok_def)
  then have "r \<noteq> - 1 \<longleftrightarrow> (\<exists>y \<in> set (array_contents l). ar_fnObjectEquals l y x)"
    using ok by (auto simp: first_at_def in_set_conv_nth split: if_splits) (metis in_set_conv_nth length_array_contents)
  then show ?thesis using r(1) by (simp add: ArrayList_Contains_def)
qed

section \<open>Properties\<close>

text \<open>
  C35. \<open>wArrayList\<close> implements a list. Adding appends and returns the new number of elements; inserting at an
  index below the size moves the rest up; removing an index or the first equal object moves the rest
  down, and hands exactly the removed object to the free callback; setting replaces one element;
  clearing leaves the empty list and frees every element in order. The invariant is kept by all of them.
\<close>

theorem ArrayList_refines_list:
  assumes ok: "array_ok l"
  defines "c \<equiv> array_contents l"
  shows "(ArrayList_Add al l x = Ok r t \<longrightarrow> array_ok t \<and> array_contents t = c @ [x] \<and> r = int (length c) + 1) \<and>
    (i < length c \<longrightarrow> ArrayList_Insert al l (int i) x = Ok () t \<longrightarrow>
       array_ok t \<and> array_contents t = take i c @ x # drop i c) \<and>
    (i < length c \<longrightarrow> (\<exists>t. ArrayList_RemoveAt l (int i) = Ok (if ar_fnObjectFree l then [c ! i] else []) t \<and>
       array_ok t \<and> array_contents t = take i c @ drop (Suc i) c)) \<and>
    (ar_fnObjectEquals l = ArrayList_DefaultCompare \<longrightarrow>
       (\<exists>t. ArrayList_Remove l x = Ok (if ar_fnObjectFree l \<and> x \<in> set c then [x] else []) t \<and>
          array_ok t \<and> array_contents t = remove1 x c)) \<and>
    (i < length c \<longrightarrow> ArrayList_GetItem l (int i) = Ok (c ! i) l \<and>
       (\<exists>t. ArrayList_SetItem l (int i) x = Ok () t \<and> array_ok t \<and> array_contents t = c[i := x])) \<and>
    (\<exists>t. ArrayList_Clear l = Ok (if ar_fnObjectFree l then c else []) t \<and> array_ok t \<and> array_contents t = [])"
proof (intro conjI impI)
  show "array_ok t" "array_contents t = c @ [x]" "r = int (length c) + 1" if "ArrayList_Add al l x = Ok r t"
    using ArrayList_Add_Ok [OF ok that] by (simp_all add: c_def)
  show "array_ok t" "array_contents t = take i c @ x # drop i c"
    if "i < length c" "ArrayList_Insert al l (int i) x = Ok () t"
    using ArrayList_Insert_in [OF ok, of i al x] that ok
    by (cases "ArrayList_Grow al l 1"; auto simp: c_def ArrayList_Insert_def ArrayList_Shift_def)+
  show "\<exists>t. ArrayList_RemoveAt l (int i) = Ok (if ar_fnObjectFree l then [c ! i] else []) t \<and>
       array_ok t \<and> array_contents t = take i c @ drop (Suc i) c" if "i < length c"
    using ArrayList_RemoveAt_in [OF ok] that unfolding c_def by blast
  show "ArrayList_GetItem l (int i) = Ok (c ! i) l" if "i < length c"
    using ArrayList_GetItem_in [OF ok] that by (simp add: c_def)
  show "\<exists>t. ArrayList_SetItem l (int i) x = Ok () t \<and> array_ok t \<and> array_contents t = c[i := x]" if "i < length c"
    using ok that by (auto simp: ArrayList_SetItem_def c_def) (auto simp: array_ok_def array_contents_def take_update_swap)
  show "\<exists>t. ArrayList_Clear l = Ok (if ar_fnObjectFree l then c else []) t \<and> array_ok t \<and> array_contents t = []"
    using ok by (simp add: ArrayList_Clear_def Let_def c_def array_ok_def array_contents_def)
  show "\<exists>t. ArrayList_Remove l x = Ok (if ar_fnObjectFree l \<and> x \<in> set c then [x] else []) t \<and>
          array_ok t \<and> array_contents t = remove1 x c" if "ar_fnObjectEquals l = ArrayList_DefaultCompare"
    using ArrayList_Remove_first [OF ok that] unfolding c_def .
qed

theorem ArrayList_refines_list_witness:
  "\<exists>l t u. array_ok l \<and> ArrayList_Add None l 7 = Ok 3 t \<and> array_contents t = [5, 6, 7] \<and>
     ArrayList_RemoveAt l 0 = Ok [] u \<and> array_contents u = [6]"
proof -
  let ?l = "\<lparr>ar_capacity = 3, ar_growthFactor = 2, ar_synchronized = False, ar_size = 2, ar_array = [5, 6, 9],
    ar_fnObjectFree = False, ar_fnObjectEquals = ArrayList_DefaultCompare\<rparr>"
  have l: "array_ok ?l" "array_contents ?l = [5, 6]" by (simp_all add: array_ok_def array_contents_def)
  obtain t where "ArrayList_Add None ?l 7 = Ok 3 t" by (simp add: ArrayList_Add_def ArrayList_Grow_def)
  moreover from ArrayList_refines_list [OF l(1), of None 7 3 t 0] this have "array_contents t = [5, 6, 7]"
    by (simp add: l)
  moreover from ArrayList_refines_list [OF l(1), of None 7 3 ?l 0] obtain u where
    "ArrayList_RemoveAt ?l 0 = Ok [] u" "array_contents u = [6]" by (auto simp: l)
  ultimately show ?thesis using l by blast
qed

text \<open>
  Growth of an array list. As long as the next capacity stays in the range of \<open>int\<close>, adding never faults,
  succeeds when memory is granted or a slot is free, and leaves the list as it is when it fails. After
  any successful sequence of additions each new element is found at its index.
\<close>

theorem ArrayList_growth:
  assumes ok: "array_ok l"
  shows "(int (ar_capacity l * ar_growthFactor l) \<le> INT_MAX \<longrightarrow>
      ArrayList_Add al l x \<noteq> Fault \<and>
      (al \<noteq> None \<or> ar_size l < ar_capacity l \<longrightarrow> (\<exists>r t. ArrayList_Add al l x = Ok r t)) \<and>
      (\<forall>t. ArrayList_Add al l x = Fail t \<longrightarrow> t = l)) \<and>
    (array_list.add_all al l xs = Ok () t \<longrightarrow> i < length xs \<longrightarrow>
      ArrayList_GetItem t (int (length (array_contents l) + i)) = Ok (xs ! i) t)"
  using ArrayList_Add_total [OF ok] array_list.add_all_get [OF ok] by blast

theorem ArrayList_growth_witness:
  "\<exists>l t u. ArrayList_New (Some (\<lambda>_. ())) (Some (\<lambda>_. ())) True = Some l \<and> ArrayList_Add None l 4 = Ok 1 t \<and>
     array_list.add_all None l [4, 5] = Ok () u \<and> ArrayList_GetItem u 1 = Ok 5 u"
proof -
  obtain l where l: "ArrayList_New (Some (\<lambda>_. ())) (Some (\<lambda>_. ())) True = Some l" "array_ok l" "ar_size l = 0"
    "ar_capacity l = 32" "ar_growthFactor l = 2" "length (ar_array l) = 32"
    by (simp add: ArrayList_New_def array_ok_def)
  then obtain t u where tu: "ArrayList_Add None l 4 = Ok 1 t" "array_list.add_all None l [4, 5] = Ok () u"
    by (simp add: ArrayList_Add_def ArrayList_Grow_def)
  have "length (array_contents l) = 0" using l by simp
  with ArrayList_growth [OF l(2), of None 4 "[4, 5]" u 1] tu(2) have "ArrayList_GetItem u 1 = Ok 5 u" by simp
  with l tu show ?thesis by blast
qed

text \<open>
  The searches. Inside the list, \<open>ArrayList_IndexOf\<close> returns the first and \<open>ArrayList_LastIndexOf\<close> the last
  index of the given range whose element equals the object, or \<open>-1\<close>, and \<open>ArrayList_Contains\<close> decides
  membership. With a positive start index and the default count the range runs past the last element:
  on a full list that does not hold the object the search reads outside the array.
\<close>

theorem ArrayList_search:
  assumes ok: "array_ok l" and eq: "ar_fnObjectEquals l = ArrayList_DefaultCompare"
  defines "c \<equiv> array_contents l"
  shows "(i + n \<le> length c \<longrightarrow> (\<exists>r. ArrayList_IndexOf l x (int i) (int n) = Ok r l \<and> first_at (\<lambda>j. c ! j = x) i (i + n) r)) \<and>
    (i + n \<le> length c \<longrightarrow> (\<exists>r. ArrayList_LastIndexOf l x (int i) (int n) = Ok r l \<and> last_at (\<lambda>j. c ! j = x) i (i + n) r)) \<and>
    ArrayList_Contains l x = Ok (x \<in> set c) l \<and>
    (ar_size l = ar_capacity l \<and> x \<notin> set c \<and> 0 < i \<and> i < length c \<and> int (i + length c) \<le> INT_MAX \<longrightarrow>
       ArrayList_IndexOf l x (int i) (- 1) = Fault)"
proof (intro conjI impI)
  show "\<exists>r. ArrayList_IndexOf l x (int i) (int n) = Ok r l \<and> first_at (\<lambda>j. c ! j = x) i (i + n) r"
    "\<exists>r. ArrayList_LastIndexOf l x (int i) (int n) = Ok r l \<and> last_at (\<lambda>j. c ! j = x) i (i + n) r" if "i + n \<le> length c"
    using IndexOf_range [OF ok that [unfolded c_def], of x] eq by (simp_all add: c_def ArrayList_DefaultCompare_def)
  show "ArrayList_Contains l x = Ok (x \<in> set c) l"
    using ArrayList_Contains_iff [OF ok, of x] eq by (auto simp: c_def ArrayList_DefaultCompare_def)
  assume a: "ar_size l = ar_capacity l \<and> x \<notin> set c \<and> 0 < i \<and> i < length c \<and> int (i + length c) \<le> INT_MAX"
  then have "c = ar_array l" using ok by (simp add: c_def array_contents_def array_ok_def)
  with a have "find_up (\<lambda>y. y = x) l i (length c) = Fault" by (intro find_up_outside) auto
  then show "ArrayList_IndexOf l x (int i) (- 1) = Fault"
    using a eq ok by (simp add: ArrayList_IndexOf_def Let_def ArrayList_DefaultCompare_def c_def)
qed

theorem ArrayList_search_witness:
  "\<exists>l. array_contents l = [5, 6, 5] \<and> ArrayList_IndexOf l 5 1 2 = Ok 2 l \<and> ArrayList_Contains l 6 = Ok True l \<and>
     ArrayList_IndexOf l 8 1 (- 1) = Fault"
proof -
  let ?l = "\<lparr>ar_capacity = 3, ar_growthFactor = 2, ar_synchronized = False, ar_size = 3, ar_array = [5, 6, 5],
    ar_fnObjectFree = False, ar_fnObjectEquals = ArrayList_DefaultCompare\<rparr>"
  have l: "array_ok ?l" "array_contents ?l = [5, 6, 5]" "ar_fnObjectEquals ?l = ArrayList_DefaultCompare"
    by (simp_all add: array_ok_def array_contents_def)
  have r: "first_at (\<lambda>j. [5, 6, 5 :: nat] ! j = 5) (Suc 0) (Suc (Suc (Suc 0))) r \<Longrightarrow> r = 2" for r
    by (auto simp: first_at_def less_Suc_eq split: if_splits)
  show ?thesis
    using ArrayList_search [OF l(1,3), of 1 2 5] ArrayList_search [OF l(1,3), of 0 0 6]
      ArrayList_search [OF l(1,3), of 1 0 8] l r by (intro exI [of _ ?l]) auto
qed

end
