(* ===== verification/Coll_ListDictionary.thy ===== *)
theory Coll_ListDictionary
  imports Coll_Base
begin

text \<open>
  The dictionary of \<^verbatim>\<open>winpr/libwinpr/utils/collections/ListDictionary.c\<close>, a singly linked list of key/value items.
  Every item is reachable only through the \<open>next\<close> pointer of its predecessor, so that the chain from
  \<open>head\<close> is a list. A \<open>NULL\<close> dictionary, which each function answers with its failure value, is not
  represented.
\<close>

section \<open>The operations\<close>

record wListDictionaryItem =
  it_key :: ptr
  it_value :: ptr

record wListDictionary =
  ld_synchronized :: bool
  ld_head :: "wListDictionaryItem list"
  ld_keyFree :: bool
  ld_keyEquals :: "ptr \<Rightarrow> ptr \<Rightarrow> bool"
  ld_valueFree :: bool
  ld_valueEquals :: "ptr \<Rightarrow> ptr \<Rightarrow> bool"

definition ListDictionary_Count :: "wListDictionary \<Rightarrow> nat" where
  "ListDictionary_Count listDictionary = length (ld_head listDictionary)"

text \<open>
  The array of keys; \<open>Fail\<close> stands for the return value \<open>-1\<close>. For an empty dictionary nothing is
  allocated and the array is \<open>NULL\<close>, here the empty list.
\<close>

definition ListDictionary_GetKeys :: "unit alloc \<Rightarrow> wListDictionary \<Rightarrow> (ptr list, wListDictionary) res" where
  "ListDictionary_GetKeys al listDictionary =
     (let count = length (ld_head listDictionary)
      in if count \<noteq> 0 \<and> al = None then Fail listDictionary
         else Ok (map it_key (ld_head listDictionary)) listDictionary)"

text \<open>The walk to the last item.\<close>

fun append_item :: "wListDictionaryItem list \<Rightarrow> wListDictionaryItem \<Rightarrow> wListDictionaryItem list" where
  "append_item [] item = [item]"
| "append_item (lastItem # next) item = lastItem # append_item next item"

definition ListDictionary_Add ::
  "unit alloc \<Rightarrow> wListDictionary \<Rightarrow> ptr \<Rightarrow> ptr \<Rightarrow> (unit, wListDictionary) res" where
  "ListDictionary_Add al listDictionary key val =
     (if al = None then Fail listDictionary
      else Ok () (listDictionary\<lparr>ld_head := append_item (ld_head listDictionary) \<lparr>it_key = key, it_value = val\<rparr>\<rparr>))"

primrec clear_items :: "bool \<Rightarrow> bool \<Rightarrow> wListDictionaryItem list \<Rightarrow> freed list" where
  "clear_items keyFree valueFree [] = []"
| "clear_items keyFree valueFree (item # nextItem) =
     (if keyFree then [Freed_Key (it_key item)] else []) @
     (if valueFree then [Freed_Value (it_value item)] else []) @
     clear_items keyFree valueFree nextItem"

definition ListDictionary_Clear :: "wListDictionary \<Rightarrow> (freed list, wListDictionary) res" where
  "ListDictionary_Clear listDictionary =
     Ok (clear_items (ld_keyFree listDictionary) (ld_valueFree listDictionary) (ld_head listDictionary))
        (listDictionary\<lparr>ld_head := []\<rparr>)"

fun find_item :: "(ptr \<Rightarrow> ptr \<Rightarrow> bool) \<Rightarrow> ptr \<Rightarrow> wListDictionaryItem list \<Rightarrow> wListDictionaryItem option" where
  "find_item keyEquals key [] = None"
| "find_item keyEquals key (item # next) =
     (if keyEquals (it_key item) key then Some item else find_item keyEquals key next)"

definition ListDictionary_Contains :: "wListDictionary \<Rightarrow> ptr \<Rightarrow> bool" where
  "ListDictionary_Contains listDictionary key =
     (find_item (ld_keyEquals listDictionary) key (ld_head listDictionary) \<noteq> None)"

text \<open>The loop of \<open>ListDictionary_Remove\<close>: the value and the chain without the item.\<close>

fun remove_item ::
  "(ptr \<Rightarrow> ptr \<Rightarrow> bool) \<Rightarrow> ptr \<Rightarrow> wListDictionaryItem list \<Rightarrow> ptr \<times> wListDictionaryItem list" where
  "remove_item keyEquals key [] = (NULL, [])"
| "remove_item keyEquals key (item # next) =
     (if keyEquals (it_key item) key then (it_value item, next)
      else let (val, rest) = remove_item keyEquals key next in (val, item # rest))"

definition ListDictionary_Remove :: "wListDictionary \<Rightarrow> ptr \<Rightarrow> (ptr, wListDictionary) res" where
  "ListDictionary_Remove listDictionary key =
     (let (val, head) = remove_item (ld_keyEquals listDictionary) key (ld_head listDictionary)
      in Ok val (listDictionary\<lparr>ld_head := head\<rparr>))"

definition ListDictionary_Remove_Head :: "wListDictionary \<Rightarrow> (ptr, wListDictionary) res" where
  "ListDictionary_Remove_Head listDictionary =
     (case ld_head listDictionary of [] \<Rightarrow> Ok NULL listDictionary
      | item # next \<Rightarrow> Ok (it_value item) (listDictionary\<lparr>ld_head := next\<rparr>))"

definition ListDictionary_GetItemValue :: "wListDictionary \<Rightarrow> ptr \<Rightarrow> ptr" where
  "ListDictionary_GetItemValue listDictionary key =
     (case find_item (ld_keyEquals listDictionary) key (ld_head listDictionary) of
        None \<Rightarrow> NULL | Some item \<Rightarrow> it_value item)"

text \<open>The item found and the chain in which its value is replaced.\<close>

fun set_item :: "(ptr \<Rightarrow> ptr \<Rightarrow> bool) \<Rightarrow> ptr \<Rightarrow> ptr \<Rightarrow> wListDictionaryItem list \<Rightarrow> wListDictionaryItem list" where
  "set_item keyEquals key val [] = []"
| "set_item keyEquals key val (item # next) =
     (if keyEquals (it_key item) key then item\<lparr>it_value := val\<rparr> # next
      else item # set_item keyEquals key val next)"

definition ListDictionary_SetItemValue ::
  "wListDictionary \<Rightarrow> ptr \<Rightarrow> ptr \<Rightarrow> (freed list, wListDictionary) res" where
  "ListDictionary_SetItemValue listDictionary key val =
     (case find_item (ld_keyEquals listDictionary) key (ld_head listDictionary) of
        None \<Rightarrow> Fail listDictionary
      | Some item \<Rightarrow>
          Ok (if ld_valueFree listDictionary then [Freed_Value (it_value item)] else [])
             (listDictionary\<lparr>ld_head := set_item (ld_keyEquals listDictionary) key val (ld_head listDictionary)\<rparr>))"

definition default_equal_function :: "ptr \<Rightarrow> ptr \<Rightarrow> bool" where
  "default_equal_function obj1 obj2 = (obj1 = obj2)"

definition ListDictionary_New :: "unit alloc \<Rightarrow> bool \<Rightarrow> bool \<Rightarrow> wListDictionary option" where
  "ListDictionary_New al lock_ok synchronized =
     (if al = None then None
      else if \<not> lock_ok then None
      else Some \<lparr>ld_synchronized = synchronized, ld_head = [], ld_keyFree = False,
                 ld_keyEquals = default_equal_function, ld_valueFree = False,
                 ld_valueEquals = default_equal_function\<rparr>)"

definition ListDictionary_Free :: "wListDictionary option \<Rightarrow> freed list" where
  "ListDictionary_Free listDictionary =
     (case listDictionary of None \<Rightarrow> []
      | Some listDictionary \<Rightarrow>
          (case ListDictionary_Clear listDictionary of Ok freed _ \<Rightarrow> freed | _ \<Rightarrow> []))"

section \<open>The dictionary as a map\<close>

abbreviation ld_find :: "wListDictionary \<Rightarrow> ptr \<Rightarrow> ptr option" where
  "ld_find d k \<equiv> map_option it_value (find_item (ld_keyEquals d) k (ld_head d))"

primrec distinct_keys :: "(ptr \<Rightarrow> ptr \<Rightarrow> bool) \<Rightarrow> wListDictionaryItem list \<Rightarrow> bool" where
  "distinct_keys eq [] \<longleftrightarrow> True"
| "distinct_keys eq (item # items) \<longleftrightarrow> find_item eq (it_key item) items = None \<and> distinct_keys eq items"

definition ld_ok :: "(ptr \<Rightarrow> ptr \<Rightarrow> bool) \<Rightarrow> wListDictionary \<Rightarrow> bool" where
  "ld_ok eq d \<longleftrightarrow> ld_keyEquals d = eq \<and> equivp eq \<and> distinct_keys eq (ld_head d)"

lemma append_item [simp]: "append_item items item = items @ [item]"
  by (induction items) simp_all

lemma find_item_append [simp]:
  "find_item eq k (xs @ ys) = (case find_item eq k xs of None \<Rightarrow> find_item eq k ys | Some it \<Rightarrow> Some it)"
  by (induction xs) simp_all

lemma find_item_same: "equivp eq \<Longrightarrow> eq k k' \<Longrightarrow> find_item eq k items = find_item eq k' items"
  by (induction items) (auto dest: equivp_symp equivp_transp)

lemma find_item_None: "find_item eq k items = None \<longleftrightarrow> (\<forall>item \<in> set items. \<not> eq (it_key item) k)"
  by (induction items) simp_all

lemma remove_item_value:
  "fst (remove_item eq k items) = (case find_item eq k items of None \<Rightarrow> NULL | Some it \<Rightarrow> it_value it)"
  by (induction items) (auto split: prod.splits)

lemma set_remove_item: "set (snd (remove_item eq k items)) \<subseteq> set items"
  by (induction items) (auto split: prod.splits)

lemma find_remove_item:
  assumes eq: "equivp eq"
  shows "distinct_keys eq items \<Longrightarrow>
    distinct_keys eq (snd (remove_item eq k items)) \<and>
    find_item eq k' (snd (remove_item eq k items)) = (if eq k' k then None else find_item eq k' items)"
proof (induction items)
  case (Cons item items)
  have sub: "find_item eq (it_key item) (snd (remove_item eq k items)) = None"
    using Cons.prems set_remove_item [of eq k items] by (auto simp: find_item_None)
  show ?case
  proof (cases "eq (it_key item) k")
    case True
    then have "eq k' k \<longleftrightarrow> eq (it_key item) k'" using eq by (meson equivp_symp equivp_transp)
    moreover have "eq k' k \<Longrightarrow> find_item eq k' items = None"
      using find_item_same [OF eq, of k' "it_key item" items] Cons.prems calculation eq by (auto dest: equivp_symp)
    ultimately show ?thesis using True Cons.prems by auto
  next
    case False
    have "eq (it_key item) k' \<Longrightarrow> \<not> eq k' k" using False eq by (meson equivp_transp)
    then show ?thesis using Cons False sub by (auto split: prod.splits)
  qed
qed simp

lemma find_set_item:
  assumes eq: "equivp eq"
  shows "find_item eq k items \<noteq> None \<Longrightarrow> map_option it_value (find_item eq k' (set_item eq k v items)) =
      (if eq k' k then Some v else map_option it_value (find_item eq k' items))"
proof (induction items)
  case (Cons item items)
  have "eq (it_key item) k \<Longrightarrow> eq k' k \<longleftrightarrow> eq (it_key item) k'" "\<not> eq (it_key item) k \<Longrightarrow> eq (it_key item) k' \<Longrightarrow> \<not> eq k' k"
    using eq by (meson equivp_symp equivp_transp)+
  then show ?case using Cons by auto
qed simp

lemma keys_set_item [simp]: "map it_key (set_item eq k v items) = map it_key items"
  by (induction items) simp_all

lemma find_item_keys: "map it_key xs = map it_key ys \<Longrightarrow> find_item eq k xs = None \<longleftrightarrow> find_item eq k ys = None"
proof -
  have "find_item eq k items = None \<longleftrightarrow> (\<forall>x \<in> set (map it_key items). \<not> eq x k)" for items
    by (simp add: find_item_None)
  then show "map it_key xs = map it_key ys \<Longrightarrow> find_item eq k xs = None \<longleftrightarrow> find_item eq k ys = None" by (simp only:)
qed

lemma distinct_keys_cong: "map it_key xs = map it_key ys \<Longrightarrow> distinct_keys eq xs = distinct_keys eq ys"
proof (induction xs arbitrary: ys)
  case (Cons x xs)
  then obtain y zs where "ys = y # zs" "it_key x = it_key y" "map it_key xs = map it_key zs" by (cases ys) auto
  with Cons.IH [of zs] find_item_keys [of xs zs eq "it_key y"] show ?case by simp
qed simp

lemma distinct_keys_append:
  assumes eq: "equivp eq"
  shows "distinct_keys eq (items @ [item]) \<longleftrightarrow> distinct_keys eq items \<and> find_item eq (it_key item) items = None"
  by (induction items) (use eq in \<open>auto split: option.splits dest: equivp_symp\<close>)

lemma ListDictionary_Add_new:
  assumes "ld_ok eq d" "ld_find d k = None" "ListDictionary_Add al d k v = Ok r t"
  shows "ld_ok eq t \<and> ld_find t k' = (if eq k' k then Some v else ld_find d k')"
proof -
  have t: "t = d\<lparr>ld_head := ld_head d @ [\<lparr>it_key = k, it_value = v\<rparr>]\<rparr>"
    using assms(3) by (auto simp: ListDictionary_Add_def split: if_splits)
  have eq: "equivp eq" and k: "find_item eq k (ld_head d) = None" using assms(1,2) by (auto simp: ld_ok_def)
  have "eq k' k \<Longrightarrow> find_item eq k' (ld_head d) = None" using find_item_same [OF eq] k by metis
  moreover have "eq k k' = eq k' k" using eq by (meson equivp_symp)
  ultimately show ?thesis using assms(1) k distinct_keys_append [OF eq]
    by (auto simp: t ld_ok_def split: option.splits)
qed

lemma ListDictionary_Remove_map:
  assumes "ld_ok eq d" "ListDictionary_Remove d k = Ok v t"
  shows "ld_ok eq t \<and> ld_find t k' = (if eq k' k then None else ld_find d k')"
  using assms find_remove_item [of eq "ld_head d" k k']
  by (auto simp: ListDictionary_Remove_def ld_ok_def split: prod.splits)

lemma ListDictionary_SetItemValue_map:
  assumes ok: "ld_ok eq d" and w: "ld_find d k = Some w"
  shows "\<exists>t. ListDictionary_SetItemValue d k v = Ok (if ld_valueFree d then [Freed_Value w] else []) t \<and>
     ld_ok eq t \<and> (\<forall>k'. ld_find t k' = (if eq k' k then Some v else ld_find d k'))"
proof -
  let ?t = "d\<lparr>ld_head := set_item eq k v (ld_head d)\<rparr>"
  have eq: "equivp eq" "ld_keyEquals d = eq" using ok by (simp_all add: ld_ok_def)
  have "ld_find ?t k' = (if eq k' k then Some v else ld_find d k')" for k'
    using find_set_item [OF eq(1), of k "ld_head d" k' v] w eq(2) by (auto simp del: not_None_eq)
  moreover have "ld_ok eq ?t"
    using ok distinct_keys_cong [OF keys_set_item, of eq eq k v "ld_head d"] by (simp add: ld_ok_def)
  moreover have "ListDictionary_SetItemValue d k v = Ok (if ld_valueFree d then [Freed_Value w] else []) ?t"
    using w eq(2) by (auto simp: ListDictionary_SetItemValue_def)
  ultimately show ?thesis by blast
qed

lemma default_equal_equivp: "equivp default_equal_function"
  by (rule equivpI) (auto simp: reflp_def symp_def transp_def default_equal_function_def)

lemma remove_item_append:
  "find_item eq k xs \<noteq> None \<Longrightarrow> remove_item eq k (xs @ ys) = (fst (remove_item eq k xs), snd (remove_item eq k xs) @ ys)"
  by (induction xs) (auto split: prod.splits)

interpretation list_dictionary: dictionary "ld_ok eq" eq ld_find "ListDictionary_Add al" ListDictionary_Remove for eq al
proof unfold_locales
  fix s :: wListDictionary and k k' v r t assume "ld_ok eq s" "ld_find s k = None" "ListDictionary_Add al s k v = Ok r t"
  then show "ld_ok eq t \<and> ld_find t k' = (if eq k' k then Some v else ld_find s k')"
    by (rule ListDictionary_Add_new)
next
  fix s :: wListDictionary and k k' d t assume "ld_ok eq s" "ListDictionary_Remove s k = Ok d t"
  then show "ld_ok eq t \<and> ld_find t k' = (if eq k' k then None else ld_find s k')"
    by (rule ListDictionary_Remove_map)
next
  fix s :: wListDictionary and k k' assume "ld_ok eq s" "eq k k'"
  then show "ld_find s k = ld_find s k'" using find_item_same by (auto simp: ld_ok_def)
next
  fix s :: wListDictionary assume "ld_ok eq s" then show "equivp eq" by (simp add: ld_ok_def)
qed

section \<open>Properties\<close>



text \<open>
  Adding a key that is already bound succeeds and leaves the earlier binding visible: the new item goes
  to the end of the chain. Removing the key then uncovers the later value instead of unbinding the key.
  In a dictionary with distinct keys, adding an absent key and removing it restores every lookup.
\<close>

theorem ListDictionary_duplicates:
  assumes ok: "ld_ok eq d"
  shows "(ld_find d k = Some w \<and> ListDictionary_Add al d k v = Ok () t \<longrightarrow>
       ListDictionary_GetItemValue t k = w \<and>
       (\<exists>u. ListDictionary_Remove t k = Ok w u \<and> ListDictionary_GetItemValue u k = v)) \<and>
    (ld_find d k = None \<and> ListDictionary_Add al d k v = Ok () t \<and> ListDictionary_Remove t k = Ok x u \<longrightarrow>
       ld_find u = ld_find d)"
proof (intro conjI impI; elim conjE)
  have eq: "equivp eq" "ld_keyEquals d = eq" "distinct_keys eq (ld_head d)" "eq k k"
    using ok by (simp_all add: ld_ok_def equivp_reflp)
  assume w: "ld_find d k = Some w" and a: "ListDictionary_Add al d k v = Ok () t"
  have t: "ld_head t = ld_head d @ [\<lparr>it_key = k, it_value = v\<rparr>]" "ld_keyEquals t = eq"
    using a eq(2) by (auto simp: ListDictionary_Add_def split: if_splits)
  have k: "find_item eq k (ld_head d) \<noteq> None" using w eq(2) by auto
  show g: "ListDictionary_GetItemValue t k = w"
    using w eq(2) by (auto simp: ListDictionary_GetItemValue_def t)
  let ?u = "t\<lparr>ld_head := snd (remove_item eq k (ld_head d)) @ [\<lparr>it_key = k, it_value = v\<rparr>]\<rparr>"
  have "ListDictionary_Remove t k = Ok w ?u"
    using remove_item_append [OF k] remove_item_value [of eq k "ld_head d"] w eq(2)
    by (auto simp: ListDictionary_Remove_def t)
  moreover have "ListDictionary_GetItemValue ?u k = v"
    using find_remove_item [OF eq(1,3), of k k] eq(4) by (simp add: ListDictionary_GetItemValue_def t)
  ultimately show "\<exists>u. ListDictionary_Remove t k = Ok w u \<and> ListDictionary_GetItemValue u k = v" by blast
next
  assume "ld_find d k = None" "ListDictionary_Add al d k v = Ok () t" "ListDictionary_Remove t k = Ok x u"
  then show "ld_find u = ld_find d" by (rule list_dictionary.put_del [OF ok])
qed

theorem ListDictionary_duplicates_witness:
  "\<exists>d t u. ld_find d 3 = Some 8 \<and> ListDictionary_Add (Some (\<lambda>_. ())) d 3 9 = Ok () t \<and>
     ListDictionary_Remove t 3 = Ok 8 u \<and> ListDictionary_GetItemValue u 3 = 9"
proof -
  let ?d = "\<lparr>ld_synchronized = False, ld_head = [\<lparr>it_key = 3, it_value = 8\<rparr>], ld_keyFree = False,
    ld_keyEquals = default_equal_function, ld_valueFree = False, ld_valueEquals = default_equal_function\<rparr>"
  have d: "ld_ok default_equal_function ?d" "ld_find ?d 3 = Some 8"
    by (simp_all add: ld_ok_def default_equal_equivp default_equal_function_def)
  moreover obtain t where t: "ListDictionary_Add (Some (\<lambda>_. ())) ?d 3 9 = Ok () t" by (simp add: ListDictionary_Add_def)
  ultimately show ?thesis
    using ListDictionary_duplicates [OF d(1), of 3 8 "Some (\<lambda>_. ())" 9 t 0 ?d] by blast
qed

end
