(* ===== verification/Coll_HashTable.thy ===== *)
theory Coll_HashTable
  imports Coll_Base Complex_Main "HOL-Library.Signed_Division" "HOL-Library.Multiset"
begin

text \<open>
  The hash table of \<^verbatim>\<open>winpr/libwinpr/utils/collections/HashTable.c\<close>: an array of buckets, each a chain of key/value
  pairs reachable only through the bucket. The \<open>float\<close> members are rationals, and the division of two
  \<open>float\<close> values, which rounds, is the parameter \<open>fdiv\<close>; no property depends on how it rounds. A hash
  function answers \<open>None\<close> where the C function has no defined result (a string hash of \<open>NULL\<close>). Cloning
  functions answer the address of the copy, \<open>NULL\<close> when they fail.
\<close>

section \<open>Hash and comparison functions\<close>

definition HashTable_PointerCompare :: "ptr \<Rightarrow> ptr \<Rightarrow> bool" where
  "HashTable_PointerCompare pointer1 pointer2 = (pointer1 = pointer2)"

definition HashTable_PointerHash :: "ptr \<Rightarrow> u32 option" where
  "HashTable_PointerHash pointer = Some (drop_bit 4 (of_nat pointer))"

text \<open>\<open>str p\<close> is the string at the address \<open>p\<close>, without its terminating zero.\<close>

definition HashTable_StringCompare :: "(ptr \<Rightarrow> u8 list) \<Rightarrow> ptr \<Rightarrow> ptr \<Rightarrow> bool" where
  "HashTable_StringCompare str string1 string2 =
     (if string1 = NULL \<or> string2 = NULL then string1 = string2 else str string1 = str string2)"

primrec djb2_loop :: "u8 list \<Rightarrow> u32 \<Rightarrow> u32" where
  "djb2_loop [] hash = hash"
| "djb2_loop (c # str) hash = djb2_loop str (hash * 33 + ucast c)"

definition HashTable_StringHash :: "(ptr \<Rightarrow> u8 list) \<Rightarrow> ptr \<Rightarrow> u32 option" where
  "HashTable_StringHash str key = (if key = NULL then None else Some (djb2_loop (str key) 5381))"

section \<open>The table\<close>

record wKeyValuePair =
  kv_key :: ptr
  kv_value :: ptr

record wHashTable =
  ht_synchronized :: bool
  ht_numOfBuckets :: nat
  ht_numOfElements :: int
  ht_idealRatio :: rat
  ht_lowerRehashThreshold :: rat
  ht_upperRehashThreshold :: rat
  ht_bucketArray :: "wKeyValuePair list list"
  ht_hash :: "ptr \<Rightarrow> u32 option"
  ht_keyCompare :: "ptr \<Rightarrow> ptr \<Rightarrow> bool"
  ht_valueCompare :: "ptr \<Rightarrow> ptr \<Rightarrow> bool"
  ht_keyClone :: "(ptr \<Rightarrow> ptr) option"
  ht_valueClone :: "(ptr \<Rightarrow> ptr) option"
  ht_keyFree :: bool
  ht_valueFree :: bool

section \<open>The number of buckets\<close>

function prime_loop :: "int \<Rightarrow> int \<Rightarrow> bool" where
  "prime_loop oddNumber i =
     (if i < 51 then
        (if oddNumber = i then True
         else if oddNumber smod i = 0 then False
         else prime_loop oddNumber (i + 2))
      else True)"
  by auto
termination by (relation "measure (\<lambda>(_, i). nat (51 - i))") auto

declare prime_loop.simps [simp del]

definition HashTable_IsProbablePrime :: "int \<Rightarrow> bool" where
  "HashTable_IsProbablePrime oddNumber = prime_loop oddNumber 3"

text \<open>
  The search for the next probable prime. Going past the largest \<open>int\<close> is an overflow, \<open>None\<close>.
\<close>

function ideal_loop :: "int \<Rightarrow> int option" where
  "ideal_loop idealNumOfBuckets =
     (if idealNumOfBuckets > INT_MAX then None
      else if \<not> HashTable_IsProbablePrime idealNumOfBuckets then ideal_loop (idealNumOfBuckets + 2)
      else Some idealNumOfBuckets)"
  by auto
termination by (relation "measure (\<lambda>n. nat (INT_MAX + 1 - n))") auto

declare ideal_loop.simps [simp del]

text \<open>The conversion of a \<open>float\<close> to \<open>int\<close> drops the fraction, and is undefined out of range.\<close>

definition float_to_int :: "rat \<Rightarrow> int option" where
  "float_to_int r =
     (let n = (if r < 0 then - \<lfloor>- r\<rfloor> else \<lfloor>r\<rfloor>)
      in if - INT_MAX - 1 \<le> n \<and> n \<le> INT_MAX then Some n else None)"

definition HashTable_CalculateIdealNumOfBuckets :: "wHashTable \<Rightarrow> int option" where
  "HashTable_CalculateIdealNumOfBuckets table =
     (case float_to_int (ht_idealRatio table) of None \<Rightarrow> None
      | Some ratio \<Rightarrow>
          if ratio = 0 then None
          else
            let idealNumOfBuckets = ht_numOfElements table sdiv ratio
            in ideal_loop (if idealNumOfBuckets < 5 then 5 else or idealNumOfBuckets 1))"

section \<open>The operations\<close>

text \<open>The bucket of a key in a table of \<open>n\<close> buckets.\<close>

definition bucket_of :: "(ptr \<Rightarrow> u32 option) \<Rightarrow> nat \<Rightarrow> ptr \<Rightarrow> nat option" where
  "bucket_of hash n key = (case hash key of None \<Rightarrow> None | Some h \<Rightarrow> if n = 0 then None else Some (unat h mod n))"

text \<open>Each pair is unlinked and put in front of its new chain.\<close>

primrec rehash_pairs ::
  "(ptr \<Rightarrow> u32 option) \<Rightarrow> nat \<Rightarrow> wKeyValuePair list \<Rightarrow> wKeyValuePair list list \<Rightarrow> wKeyValuePair list list option" where
  "rehash_pairs hash n [] newBucketArray = Some newBucketArray"
| "rehash_pairs hash n (pair # nextPair) newBucketArray =
     (case bucket_of hash n (kv_key pair) of None \<Rightarrow> None
      | Some h \<Rightarrow> rehash_pairs hash n nextPair (newBucketArray[h := pair # newBucketArray ! h]))"

definition HashTable_Rehash :: "unit alloc \<Rightarrow> wHashTable \<Rightarrow> nat \<Rightarrow> (unit, wHashTable) res" where
  "HashTable_Rehash al table numOfBuckets =
     (case (if numOfBuckets = 0 then HashTable_CalculateIdealNumOfBuckets table else Some (int numOfBuckets)) of
        None \<Rightarrow> Fault
      | Some n \<Rightarrow>
          let numOfBuckets = nat n
          in if numOfBuckets = ht_numOfBuckets table then Ok () table
             else if al = None then Ok () table
             else if length (ht_bucketArray table) < ht_numOfBuckets table then Fault
             else case rehash_pairs (ht_hash table) numOfBuckets
                         (concat (take (ht_numOfBuckets table) (ht_bucketArray table))) (replicate numOfBuckets []) of
                    None \<Rightarrow> Fault
                  | Some newBucketArray \<Rightarrow>
                      Ok () (table\<lparr>ht_bucketArray := newBucketArray, ht_numOfBuckets := numOfBuckets\<rparr>))"

primrec find_pair :: "(ptr \<Rightarrow> ptr \<Rightarrow> bool) \<Rightarrow> ptr \<Rightarrow> wKeyValuePair list \<Rightarrow> wKeyValuePair option" where
  "find_pair keyCompare key [] = None"
| "find_pair keyCompare key (pair # next) =
     (if \<not> keyCompare key (kv_key pair) then find_pair keyCompare key next else Some pair)"

text \<open>The chain a key belongs to: its index and its pairs.\<close>

definition chain_of :: "wHashTable \<Rightarrow> ptr \<Rightarrow> (nat \<times> wKeyValuePair list) option" where
  "chain_of table key =
     (case bucket_of (ht_hash table) (ht_numOfBuckets table) key of None \<Rightarrow> None
      | Some h \<Rightarrow> if h < length (ht_bucketArray table) then Some (h, ht_bucketArray table ! h) else None)"

definition HashTable_Get :: "wHashTable \<Rightarrow> ptr \<Rightarrow> (wKeyValuePair option, wHashTable) res" where
  "HashTable_Get table key =
     (case chain_of table key of None \<Rightarrow> Fault
      | Some (hashValue, chain) \<Rightarrow> Ok (find_pair (ht_keyCompare table) key chain) table)"

definition HashTable_Count :: "wHashTable \<Rightarrow> int" where
  "HashTable_Count table = ht_numOfElements table"

text \<open>A change of the first pair of a chain that has the key.\<close>

primrec update_pair ::
  "(ptr \<Rightarrow> ptr \<Rightarrow> bool) \<Rightarrow> ptr \<Rightarrow> (wKeyValuePair \<Rightarrow> wKeyValuePair) \<Rightarrow> wKeyValuePair list \<Rightarrow> wKeyValuePair list" where
  "update_pair keyCompare key f [] = []"
| "update_pair keyCompare key f (pair # next) =
     (if \<not> keyCompare key (kv_key pair) then pair # update_pair keyCompare key f next else f pair # next)"

primrec unlink_pair :: "(ptr \<Rightarrow> ptr \<Rightarrow> bool) \<Rightarrow> ptr \<Rightarrow> wKeyValuePair list \<Rightarrow> wKeyValuePair list" where
  "unlink_pair keyCompare key [] = []"
| "unlink_pair keyCompare key (pair # next) =
     (if \<not> keyCompare key (kv_key pair) then pair # unlink_pair keyCompare key next else next)"

definition clone :: "(ptr \<Rightarrow> ptr) option \<Rightarrow> ptr \<Rightarrow> ptr" where
  "clone f p = (case f of None \<Rightarrow> p | Some f \<Rightarrow> f p)"

text \<open>
  \<open>HashTable_Add\<close>; \<open>Fail\<close> stands for the return value \<open>-1\<close>. The last part is the insertion of a new pair
  with the rehash it may trigger.
\<close>

definition HashTable_Insert ::
  "(int \<Rightarrow> int \<Rightarrow> rat) \<Rightarrow> unit alloc \<Rightarrow> unit alloc \<Rightarrow> wHashTable \<Rightarrow> nat \<Rightarrow> ptr \<Rightarrow> ptr \<Rightarrow> (freed list, wHashTable) res" where
  "HashTable_Insert fdiv al_pair al_buckets table hashValue key val =
     (if al_pair = None then Fail table
      else if ht_numOfElements table \<ge> INT_MAX then Fault
      else
        let newPair = \<lparr>kv_key = key, kv_value = val\<rparr>;
            table = table\<lparr>ht_bucketArray :=
                            (ht_bucketArray table)[hashValue := newPair # ht_bucketArray table ! hashValue],
                          ht_numOfElements := ht_numOfElements table + 1\<rparr>
        in and_then
             (if ht_upperRehashThreshold table > ht_idealRatio table \<and>
                 fdiv (ht_numOfElements table) (int (ht_numOfBuckets table)) > ht_upperRehashThreshold table
              then HashTable_Rehash al_buckets table 0 else Ok () table)
             (\<lambda>_ table. Ok [] table))"

definition HashTable_Add ::
  "(int \<Rightarrow> int \<Rightarrow> rat) \<Rightarrow> unit alloc \<Rightarrow> unit alloc \<Rightarrow> wHashTable \<Rightarrow> ptr \<Rightarrow> ptr \<Rightarrow> (freed list, wHashTable) res" where
  "HashTable_Add fdiv al_pair al_buckets table key val =
     (if key = NULL \<or> val = NULL then Fail table
      else if ht_keyClone table \<noteq> None \<and> clone (ht_keyClone table) key = NULL then Fail table
      else if ht_valueClone table \<noteq> None \<and> clone (ht_valueClone table) val = NULL then Fail table
      else
        let key = clone (ht_keyClone table) key; val = clone (ht_valueClone table) val
        in case chain_of table key of None \<Rightarrow> Fault
           | Some (hashValue, chain) \<Rightarrow>
               (case find_pair (ht_keyCompare table) key chain of
                  Some pair \<Rightarrow>
                    Ok ((if kv_key pair \<noteq> key \<and> ht_keyFree table then [Freed_Key (kv_key pair)] else []) @
                        (if kv_value pair \<noteq> val \<and> ht_valueFree table then [Freed_Value (kv_value pair)] else []))
                       (table\<lparr>ht_bucketArray := (ht_bucketArray table)[hashValue :=
                          update_pair (ht_keyCompare table) key (\<lambda>_. \<lparr>kv_key = key, kv_value = val\<rparr>) chain]\<rparr>)
                | None \<Rightarrow> HashTable_Insert fdiv al_pair al_buckets table hashValue key val))"

definition free_pair :: "wHashTable \<Rightarrow> wKeyValuePair \<Rightarrow> freed list" where
  "free_pair table pair =
     (if ht_keyFree table then [Freed_Key (kv_key pair)] else []) @
     (if ht_valueFree table then [Freed_Value (kv_value pair)] else [])"

definition HashTable_Remove ::
  "(int \<Rightarrow> int \<Rightarrow> rat) \<Rightarrow> unit alloc \<Rightarrow> wHashTable \<Rightarrow> ptr \<Rightarrow> (freed list, wHashTable) res" where
  "HashTable_Remove fdiv al table key =
     (case chain_of table key of None \<Rightarrow> Fault
      | Some (hashValue, chain) \<Rightarrow>
          (case find_pair (ht_keyCompare table) key chain of
             None \<Rightarrow> Fail table
           | Some pair \<Rightarrow>
               let freed = free_pair table pair;
                   table = table\<lparr>ht_bucketArray := (ht_bucketArray table)[hashValue :=
                                   unlink_pair (ht_keyCompare table) key chain],
                                 ht_numOfElements := ht_numOfElements table - 1\<rparr>
               in and_then
                    (if ht_lowerRehashThreshold table > 0 \<and>
                        fdiv (ht_numOfElements table) (int (ht_numOfBuckets table)) < ht_lowerRehashThreshold table
                     then HashTable_Rehash al table 0 else Ok () table)
                    (\<lambda>_ table. Ok freed table)))"

text \<open>A pair that was not found has the value \<open>NULL\<close>.\<close>

definition HashTable_GetItemValue :: "wHashTable \<Rightarrow> ptr \<Rightarrow> ptr option" where
  "HashTable_GetItemValue table key =
     (case HashTable_Get table key of
        Ok pair _ \<Rightarrow> Some (case pair of None \<Rightarrow> NULL | Some pair \<Rightarrow> kv_value pair)
      | _ \<Rightarrow> None)"

definition HashTable_SetItemValue :: "wHashTable \<Rightarrow> ptr \<Rightarrow> ptr \<Rightarrow> (freed list, wHashTable) res" where
  "HashTable_SetItemValue table key val =
     (if ht_valueClone table \<noteq> None \<and> val \<noteq> NULL \<and> clone (ht_valueClone table) val = NULL then Fail table
      else
        let val = (if val \<noteq> NULL then clone (ht_valueClone table) val else val)
        in case chain_of table key of None \<Rightarrow> Fault
           | Some (hashValue, chain) \<Rightarrow>
               (case find_pair (ht_keyCompare table) key chain of
                  None \<Rightarrow> Fail table
                | Some pair \<Rightarrow>
                    Ok (if ht_valueClone table \<noteq> None \<and> ht_valueFree table then [Freed_Value (kv_value pair)] else [])
                       (table\<lparr>ht_bucketArray := (ht_bucketArray table)[hashValue :=
                          update_pair (ht_keyCompare table) key (\<lambda>pair. pair\<lparr>kv_value := val\<rparr>) chain]\<rparr>)))"

definition HashTable_Clear :: "unit alloc \<Rightarrow> wHashTable \<Rightarrow> (freed list, wHashTable) res" where
  "HashTable_Clear al table =
     (if length (ht_bucketArray table) < ht_numOfBuckets table then Fault
      else
        let freed = concat (map (free_pair table) (concat (take (ht_numOfBuckets table) (ht_bucketArray table))));
            table = table\<lparr>ht_bucketArray := blit (ht_bucketArray table) 0 (replicate (ht_numOfBuckets table) []),
                          ht_numOfElements := 0\<rparr>
        in and_then (HashTable_Rehash al table 5) (\<lambda>_ table. Ok freed table))"

text \<open>
  The array of keys has one slot for each counted element, cleared by \<open>calloc\<close>; \<open>Fail\<close> stands for \<open>-1\<close>.
\<close>

definition HashTable_GetKeys :: "unit alloc \<Rightarrow> wHashTable \<Rightarrow> (ptr list, wHashTable) res" where
  "HashTable_GetKeys al table =
     (let count = ht_numOfElements table
      in if count < 1 then Ok [] table
         else if al = None then Fail table
         else if length (ht_bucketArray table) < ht_numOfBuckets table then Fault
         else
           let keys = map kv_key (concat (take (ht_numOfBuckets table) (ht_bucketArray table)))
           in if int (length keys) \<le> count then Ok (keys @ replicate (nat count - length keys) NULL) table
              else Fault)"

definition HashTable_Contains :: "wHashTable \<Rightarrow> ptr \<Rightarrow> (bool, wHashTable) res" where
  "HashTable_Contains table key =
     (case HashTable_Get table key of Ok pair table \<Rightarrow> Ok (pair \<noteq> None) table | _ \<Rightarrow> Fault)"

definition HashTable_ContainsKey :: "wHashTable \<Rightarrow> ptr \<Rightarrow> (bool, wHashTable) res" where
  "HashTable_ContainsKey table key =
     (case HashTable_Get table key of Ok pair table \<Rightarrow> Ok (pair \<noteq> None) table | _ \<Rightarrow> Fault)"

definition HashTable_ContainsValue :: "wHashTable \<Rightarrow> ptr \<Rightarrow> (bool, wHashTable) res" where
  "HashTable_ContainsValue table val =
     (if length (ht_bucketArray table) < ht_numOfBuckets table then Fault
      else Ok (list_ex (list_ex (\<lambda>pair. ht_valueCompare table val (kv_value pair)))
                 (take (ht_numOfBuckets table) (ht_bucketArray table))) table)"

definition HashTable_New :: "unit alloc \<Rightarrow> unit alloc \<Rightarrow> bool \<Rightarrow> wHashTable option" where
  "HashTable_New al_table al_buckets synchronized =
     (if al_table = None then None
      else if al_buckets = None then None
      else Some \<lparr>ht_synchronized = synchronized, ht_numOfBuckets = 64, ht_numOfElements = 0, ht_idealRatio = 3,
                 ht_lowerRehashThreshold = 0, ht_upperRehashThreshold = 15, ht_bucketArray = replicate 64 [],
                 ht_hash = HashTable_PointerHash, ht_keyCompare = HashTable_PointerCompare,
                 ht_valueCompare = HashTable_PointerCompare, ht_keyClone = None, ht_valueClone = None,
                 ht_keyFree = False, ht_valueFree = False\<rparr>)"

definition HashTable_Free :: "wHashTable option \<Rightarrow> freed list option" where
  "HashTable_Free table =
     (case table of None \<Rightarrow> Some []
      | Some table \<Rightarrow>
          if length (ht_bucketArray table) < ht_numOfBuckets table then None
          else Some (concat (map (free_pair table) (concat (take (ht_numOfBuckets table) (ht_bucketArray table))))))"

section \<open>The search for the number of buckets\<close>

text \<open>
  The loop looks at odd numbers only and the largest \<open>int\<close>, which is odd, passes the test: it ends before
  it overflows.
\<close>

lemma INT_MAX_probable: "HashTable_IsProbablePrime INT_MAX"
  unfolding HashTable_IsProbablePrime_def by (simp add: prime_loop.simps signed_modulo_int_def sgn_if)

lemma ideal_loop_total:
  "odd n \<Longrightarrow> n \<le> INT_MAX \<Longrightarrow>
   \<exists>m. ideal_loop n = Some m \<and> n \<le> m \<and> m \<le> INT_MAX \<and> odd m \<and> HashTable_IsProbablePrime m"
proof (induction n rule: ideal_loop.induct)
  case (1 n)
  show ?case
  proof (cases "HashTable_IsProbablePrime n")
    case True
    then show ?thesis using "1.prems" by (simp add: ideal_loop.simps [of n])
  next
    case False
    then have "n \<noteq> INT_MAX" using INT_MAX_probable by blast
    with "1.prems" have "n + 2 \<le> INT_MAX" by presburger
    with "1.IH" False "1.prems" obtain m where "ideal_loop (n + 2) = Some m" "n + 2 \<le> m" "m \<le> INT_MAX" "odd m"
      "HashTable_IsProbablePrime m" by auto
    then show ?thesis using False "1.prems" by (intro exI [of _ m]) (simp add: ideal_loop.simps [of n])
  qed
qed

section \<open>Chains\<close>

lemma mset_concat_update:
  assumes "h < length xs"
  shows "mset (concat (xs[h := c])) + mset (xs ! h) = mset (concat xs) + mset c"
proof -
  have "concat xs = concat (take h xs) @ xs ! h @ concat (drop (Suc h) xs)"
    using id_take_nth_drop [OF assms] by (metis concat.simps(2) concat_append)
  then show ?thesis using assms by (simp add: upd_conv_take_nth_drop)
qed

lemma find_pair_None: "find_pair cmp k ps = None \<longleftrightarrow> (\<forall>p \<in> set ps. \<not> cmp k (kv_key p))"
  by (induction ps) auto

lemma find_pair_Some:
  "find_pair cmp k ps = Some p \<Longrightarrow> \<exists>xs ys. ps = xs @ p # ys \<and> cmp k (kv_key p) \<and>
     update_pair cmp k f ps = xs @ f p # ys \<and> unlink_pair cmp k ps = xs @ ys"
proof (induction ps)
  case (Cons q ps)
  show ?case
  proof (cases "cmp k (kv_key q)")
    case True
    then show ?thesis using Cons.prems by (intro exI [of _ "[]"] exI [of _ ps]) auto
  next
    case False
    with Cons obtain xs ys where "ps = xs @ p # ys \<and> cmp k (kv_key p) \<and>
     update_pair cmp k f ps = xs @ f p # ys \<and> unlink_pair cmp k ps = xs @ ys" by auto
    with False show ?thesis by (intro exI [of _ "q # xs"] exI [of _ ys]) auto
  qed
qed simp

lemma update_pair_mset:
  assumes "find_pair cmp k ps = Some p" shows "mset (update_pair cmp k f ps) + {#p#} = mset ps + {#f p#}"
  using find_pair_Some [OF assms, of f] by auto

lemma unlink_pair_mset:
  assumes "find_pair cmp k ps = Some p" shows "mset (unlink_pair cmp k ps) + {#p#} = mset ps"
  using find_pair_Some [OF assms, of id] by auto

section \<open>Pairs with different keys\<close>

definition keys_apart :: "(ptr \<Rightarrow> ptr \<Rightarrow> bool) \<Rightarrow> wKeyValuePair multiset \<Rightarrow> bool" where
  "keys_apart cmp M \<longleftrightarrow> (\<forall>k. size (filter_mset (\<lambda>p. cmp k (kv_key p)) M) \<le> 1)"

lemma keys_apart_unique:
  assumes "keys_apart cmp M" "p \<in># M" "q \<in># M" "cmp k (kv_key p)" "cmp k (kv_key q)"
  shows "p = q"
proof (rule ccontr)
  assume "p \<noteq> q"
  from assms(2) obtain N where N: "M = add_mset p N" by (meson multi_member_split)
  with assms(3) \<open>p \<noteq> q\<close> have "q \<in># N" by auto
  then have "q \<in># filter_mset (\<lambda>p. cmp k (kv_key p)) N" using assms(5) by simp
  then have "0 < size (filter_mset (\<lambda>p. cmp k (kv_key p)) N)" by (metis nonempty_has_size empty_not_add_mset multi_member_split)
  then have "1 < size (filter_mset (\<lambda>p. cmp k (kv_key p)) M)" using N assms(4) by simp
  then show False using assms(1) unfolding keys_apart_def by (metis leD)
qed

lemma find_pair_apart:
  assumes "keys_apart cmp (mset ps)"
  shows "find_pair cmp k ps = Some p \<longleftrightarrow> p \<in> set ps \<and> cmp k (kv_key p)"
proof
  assume "find_pair cmp k ps = Some p"
  from find_pair_Some [OF this, of id] show "p \<in> set ps \<and> cmp k (kv_key p)" by auto
next
  assume p: "p \<in> set ps \<and> cmp k (kv_key p)"
  then obtain q where q: "find_pair cmp k ps = Some q" by (cases "find_pair cmp k ps") (auto simp: find_pair_None)
  from find_pair_Some [OF q, of id] have "q \<in> set ps \<and> cmp k (kv_key q)" by auto
  with p keys_apart_unique [OF assms, of p q k] q show "find_pair cmp k ps = Some p" by simp
qed

lemma find_pair_perm:
  assumes "keys_apart cmp (mset ps)" "mset ps = mset qs" shows "find_pair cmp k ps = find_pair cmp k qs"
proof -
  have "find_pair cmp k ps = Some p \<longleftrightarrow> find_pair cmp k qs = Some p" for p
    using find_pair_apart [OF assms(1), of k p] find_pair_apart [of cmp qs k p] assms(1,2) mset_eq_setD [OF assms(2)] by simp
  then show ?thesis by (metis option.exhaust)
qed

lemma keys_apart_remove: "keys_apart cmp (add_mset p M) \<Longrightarrow> keys_apart cmp M"
  unfolding keys_apart_def by (metis (no_types, lifting) Suc_leD filter_mset_add_mset size_add_mset)

lemma keys_apart_add:
  assumes eq: "equivp cmp" and M: "keys_apart cmp M" and p: "\<forall>q \<in># M. \<not> cmp (kv_key p) (kv_key q)"
  shows "keys_apart cmp (add_mset p M)"
  unfolding keys_apart_def
proof
  fix k
  show "size (filter_mset (\<lambda>p. cmp k (kv_key p)) (add_mset p M)) \<le> 1"
  proof (cases "cmp k (kv_key p)")
    case True
    then have "filter_mset (\<lambda>p. cmp k (kv_key p)) M = {#}"
      using p eq by (auto simp: filter_mset_eq_conv) (meson equivp_symp equivp_transp)
    then show ?thesis using True by simp
  next
    case False
    then show ?thesis using M by (simp add: keys_apart_def)
  qed
qed

lemma keys_apart_add_iff:
  assumes eq: "equivp cmp"
  shows "keys_apart cmp (add_mset p M) \<longleftrightarrow> keys_apart cmp M \<and> (\<forall>q \<in># M. \<not> cmp (kv_key p) (kv_key q))"
proof (intro iffI conjI ballI notI)
  fix q assume M: "keys_apart cmp (add_mset p M)" and q: "q \<in># M" "cmp (kv_key p) (kv_key q)"
  from q(1) obtain N where N: "M = add_mset q N" by (meson multi_member_split)
  have "cmp (kv_key p) (kv_key p)" using eq by (meson equivp_reflp)
  then have "\<not> size (filter_mset (\<lambda>s. cmp (kv_key p) (kv_key s)) (add_mset p M)) \<le> 1" using N q(2) by simp
  then show False using M unfolding keys_apart_def by blast
qed (use eq in \<open>auto intro: keys_apart_add dest: keys_apart_remove\<close>)

lemma keys_apart_mono: "N \<subseteq># M \<Longrightarrow> keys_apart cmp M \<Longrightarrow> keys_apart cmp N"
  unfolding keys_apart_def by (meson le_trans multiset_filter_mono size_mset_mono)

lemma find_delete:
  assumes eq: "equivp cmp" and M: "mset ps = add_mset p (mset qs)" "keys_apart cmp (mset ps)" and k: "cmp k (kv_key p)"
  shows "find_pair cmp k' qs = (if cmp k' k then None else find_pair cmp k' ps)"
proof -
  have apart: "keys_apart cmp (mset qs)" "\<forall>q \<in> set qs. \<not> cmp (kv_key p) (kv_key q)"
    using M by (simp_all add: keys_apart_add_iff [OF eq])
  have set: "set ps = insert p (set qs)" using M(1) by (metis set_mset_add_mset_insert set_mset_mset)
  show ?thesis
  proof (cases "cmp k' k")
    case True
    then have "cmp (kv_key p) k'" using k eq by (meson equivp_symp equivp_transp)
    then have "\<forall>q \<in> set qs. \<not> cmp k' (kv_key q)" using apart(2) eq by (meson equivp_transp)
    then show ?thesis using True by (simp add: find_pair_None)
  next
    case False
    then have "\<not> cmp k' (kv_key p)" using k eq by (meson equivp_symp equivp_transp)
    then have "find_pair cmp k' qs = Some x \<longleftrightarrow> find_pair cmp k' ps = Some x" for x
      using find_pair_apart [OF apart(1), of k' x] find_pair_apart [OF M(2), of k' x] set by auto
    then show ?thesis using False by (metis option.exhaust)
  qed
qed

lemma find_insert:
  assumes eq: "equivp cmp" and M: "mset qs = add_mset q (mset ps)" "keys_apart cmp (mset qs)" and k: "cmp k (kv_key q)"
  shows "find_pair cmp k' qs = (if cmp k' k then Some q else find_pair cmp k' ps)"
proof (cases "cmp k' k")
  case True
  then have "cmp k' (kv_key q)" using k eq by (meson equivp_transp)
  moreover have "q \<in> set qs" using M(1) by (metis set_mset_mset union_single_eq_member)
  ultimately show ?thesis using True find_pair_apart [OF M(2), of k' q] by simp
next
  case False
  then show ?thesis using find_delete [OF eq M k, of k'] by simp
qed

lemma find_replace:
  assumes eq: "equivp cmp" and M: "mset qs + {#p#} = mset ps + {#q#}" "keys_apart cmp (mset ps)" "p \<in> set ps"
    and k: "cmp k (kv_key p)" "cmp k (kv_key q)"
  shows "keys_apart cmp (mset qs)" "find_pair cmp k' qs = (if cmp k' k then Some q else find_pair cmp k' ps)"
proof -
  obtain ns where ns: "mset ps = add_mset p (mset ns)" using M(3) by (metis ex_mset multi_member_split set_mset_mset)
  with M(1) have qs: "mset qs = add_mset q (mset ns)" by simp
  have pq: "cmp (kv_key p) (kv_key q)" using k eq by (meson equivp_symp equivp_transp)
  have "\<forall>r \<in> set ns. \<not> cmp (kv_key q) (kv_key r)"
    using M(2) pq eq unfolding ns keys_apart_add_iff [OF eq] by (metis equivp_transp set_mset_mset)
  then show apart: "keys_apart cmp (mset qs)"
    using M(2) unfolding ns qs keys_apart_add_iff [OF eq] by simp
  show "find_pair cmp k' qs = (if cmp k' k then Some q else find_pair cmp k' ps)"
    using find_insert [OF eq qs apart k(2), of k'] find_delete [OF eq ns M(2) k(1), of k'] by simp
qed

section \<open>The table as a map\<close>

abbreviation all_pairs :: "wHashTable \<Rightarrow> wKeyValuePair list" where
  "all_pairs t \<equiv> concat (ht_bucketArray t)"

abbreviation ht_find :: "wHashTable \<Rightarrow> ptr \<Rightarrow> ptr option" where
  "ht_find t k \<equiv> map_option kv_value (find_pair (ht_keyCompare t) k (all_pairs t))"

text \<open>
  What a table asks of the functions it is configured with: the comparison is an equivalence, equal keys
  have the same hash value, and a copy of a key equals the key.
\<close>

definition ht_functions_ok :: "wHashTable \<Rightarrow> bool" where
  "ht_functions_ok t \<longleftrightarrow> equivp (ht_keyCompare t) \<and>
     (\<forall>a b. ht_keyCompare t a b \<longrightarrow> ht_hash t a = ht_hash t b) \<and>
     (\<forall>f k. ht_keyClone t = Some f \<and> f k \<noteq> NULL \<longrightarrow> ht_keyCompare t (f k) k)"

definition buckets_ok :: "(ptr \<Rightarrow> u32 option) \<Rightarrow> nat \<Rightarrow> wKeyValuePair list list \<Rightarrow> bool" where
  "buckets_ok hash n bs \<longleftrightarrow> 0 < n \<and> length bs = n \<and>
     (\<forall>i < n. \<forall>p \<in> set (bs ! i). bucket_of hash n (kv_key p) = Some i)"

definition ht_ok :: "(ptr \<Rightarrow> ptr \<Rightarrow> bool) \<Rightarrow> wHashTable \<Rightarrow> bool" where
  "ht_ok cmp t \<longleftrightarrow> ht_keyCompare t = cmp \<and> ht_functions_ok t \<and>
     buckets_ok (ht_hash t) (ht_numOfBuckets t) (ht_bucketArray t) \<and>
     keys_apart cmp (mset (all_pairs t)) \<and> ht_numOfElements t = int (length (all_pairs t))"

lemma bucket_of_bounds: "bucket_of hash n k = Some h \<Longrightarrow> h < n"
  by (auto simp: bucket_of_def split: option.splits if_splits)

lemma buckets_ok_update:
  assumes "buckets_ok hash n bs" "h < n" "\<forall>p \<in> set c. bucket_of hash n (kv_key p) = Some h"
  shows "buckets_ok hash n (bs[h := c])"
  using assms by (auto simp: buckets_ok_def nth_list_update)

lemma rehash_pairs_ok:
  "buckets_ok hash n bs \<Longrightarrow> rehash_pairs hash n ps bs = Some bs' \<Longrightarrow>
   buckets_ok hash n bs' \<and> mset (concat bs') = mset ps + mset (concat bs)"
proof (induction ps arbitrary: bs)
  case (Cons p ps)
  then obtain h where h: "bucket_of hash n (kv_key p) = Some h" "rehash_pairs hash n ps (bs[h := p # bs ! h]) = Some bs'"
    by (auto split: option.splits)
  have hn: "h < n" "h < length bs" using bucket_of_bounds [OF h(1)] Cons.prems(1) by (simp_all add: buckets_ok_def)
  have "buckets_ok hash n (bs[h := p # bs ! h])"
    using Cons.prems(1) hn h(1) by (intro buckets_ok_update) (auto simp: buckets_ok_def)
  from Cons.IH [OF this h(2)] mset_concat_update [OF hn(2), of "p # bs ! h"] show ?case by simp
qed simp

lemma rehash_pairs_total:
  "\<forall>p \<in> set ps. hash (kv_key p) \<noteq> None \<Longrightarrow> n \<noteq> 0 \<Longrightarrow> \<exists>bs'. rehash_pairs hash n ps bs = Some bs'"
  by (induction ps arbitrary: bs) (auto simp: bucket_of_def)

lemma empty_buckets_ok: "0 < n \<Longrightarrow> buckets_ok hash n (replicate n [])"
  by (simp add: buckets_ok_def)

lemma ht_ok_hashed: "ht_ok cmp t \<Longrightarrow> p \<in> set (all_pairs t) \<Longrightarrow> ht_hash t (kv_key p) \<noteq> None"
  by (auto simp: ht_ok_def buckets_ok_def in_set_conv_nth bucket_of_def split: option.splits) force+

text \<open>The number of buckets a rehash asks for.\<close>

definition ratio_ok :: "wHashTable \<Rightarrow> bool" where
  "ratio_ok t \<longleftrightarrow> 1 \<le> ht_idealRatio t \<and> ht_idealRatio t \<le> of_int INT_MAX"

lemma ideal_total:
  assumes "ratio_ok t" "0 \<le> ht_numOfElements t" "ht_numOfElements t \<le> INT_MAX"
  shows "\<exists>n. HashTable_CalculateIdealNumOfBuckets t = Some n \<and> 5 \<le> n \<and> n \<le> INT_MAX \<and> odd n \<and> HashTable_IsProbablePrime n"
proof -
  let ?r = "\<lfloor>ht_idealRatio t\<rfloor>"
  have r: "1 \<le> ?r" "?r \<le> INT_MAX" using assms(1) unfolding ratio_ok_def by (simp_all add: le_floor_iff floor_le_iff)
  then have f: "float_to_int (ht_idealRatio t) = Some ?r"
    using assms(1) by (auto simp: float_to_int_def ratio_ok_def Let_def)
  let ?q = "ht_numOfElements t sdiv ?r"
  let ?m = "if ?q < 5 then 5 else or ?q 1"
  have "?q = ht_numOfElements t div ?r" using assms(2) r by (simp add: signed_divide_int_def sgn_if)
  then have q: "?q \<le> INT_MAX" "0 \<le> ?q"
    using assms(2,3) r zdiv_mono2 [of "ht_numOfElements t" 1 ?r] by (simp_all add: pos_imp_zdiv_nonneg_iff)
  have o: "or ?q 1 = (if even ?q then ?q + 1 else ?q)" by (simp add: or_one_eq)
  have m: "odd ?m" "?m \<le> INT_MAX" "5 \<le> ?m" using q unfolding o by presburger+
  have nz: "?r \<noteq> 0" using r(1) by linarith
  have "HashTable_CalculateIdealNumOfBuckets t = ideal_loop ?m"
    unfolding HashTable_CalculateIdealNumOfBuckets_def f Let_def option.case if_not_P [OF nz] ..
  with ideal_loop_total [OF m(1,2)] m(3) show ?thesis by auto
qed

lemma ideal_loop_lower: "ideal_loop n = Some m \<Longrightarrow> n \<le> m"
proof (induction n rule: ideal_loop.induct)
  case (1 n)
  then show ?case by (subst (asm) (2) ideal_loop.simps) (force split: if_splits)
qed

lemma ideal_lower:
  assumes "HashTable_CalculateIdealNumOfBuckets t = Some n" shows "5 \<le> n"
proof -
  obtain r where "ideal_loop (if ht_numOfElements t sdiv r < 5 then 5 else or (ht_numOfElements t sdiv r) 1) = Some n"
    using assms by (auto simp: HashTable_CalculateIdealNumOfBuckets_def Let_def split: option.splits if_splits)
  from ideal_loop_lower [OF this] show ?thesis by (auto simp: or_one_eq of_bool_def split: if_splits)
qed

text \<open>What a rehash keeps: everything but the arrangement of the pairs in the buckets.\<close>

definition ht_config :: "wHashTable \<Rightarrow> wHashTable" where
  "ht_config t = t\<lparr>ht_numOfBuckets := 0, ht_numOfElements := 0, ht_bucketArray := []\<rparr>"

lemma ht_config_fields:
  assumes "ht_config t = ht_config u"
  shows "ht_keyCompare t = ht_keyCompare u" "ht_hash t = ht_hash u" "ht_keyClone t = ht_keyClone u"
    "ht_valueClone t = ht_valueClone u" "ht_idealRatio t = ht_idealRatio u" "ht_functions_ok t = ht_functions_ok u"
  using assms by (cases t; cases u; simp add: ht_config_def ht_functions_ok_def)+

lemma HashTable_Rehash_Ok:
  assumes ok: "ht_ok cmp t" and r: "HashTable_Rehash al t n = Ok () u"
  shows "ht_ok cmp u" "mset (all_pairs u) = mset (all_pairs t)" "ht_config u = ht_config t"
    "ht_numOfElements u = ht_numOfElements t"
proof -
  have "u = t \<or> (\<exists>m bs. rehash_pairs (ht_hash t) m (all_pairs t) (replicate m []) = Some bs \<and> 0 < m \<and>
     u = t\<lparr>ht_bucketArray := bs, ht_numOfBuckets := m\<rparr>)"
  proof -
    have len: "take (ht_numOfBuckets t) (ht_bucketArray t) = ht_bucketArray t"
      using ok by (simp add: ht_ok_def buckets_ok_def)
    obtain m where m: "(if n = 0 then HashTable_CalculateIdealNumOfBuckets t else Some (int n)) = Some m" "0 < m"
      using r ideal_lower [of t] unfolding HashTable_Rehash_def
      by (cases "n = 0"; cases "HashTable_CalculateIdealNumOfBuckets t") force+
    have "u = t \<or> (\<exists>bs. rehash_pairs (ht_hash t) (nat m) (all_pairs t) (replicate (nat m) []) = Some bs \<and>
        u = t\<lparr>ht_bucketArray := bs, ht_numOfBuckets := nat m\<rparr>)"
      using r unfolding HashTable_Rehash_def m(1) option.case Let_def len by (simp split: if_splits option.splits)
    moreover have "0 < nat m" using m(2) by simp
    ultimately show ?thesis by blast
  qed
  then have "ht_ok cmp u \<and> mset (all_pairs u) = mset (all_pairs t) \<and> ht_config u = ht_config t \<and>
    ht_numOfElements u = ht_numOfElements t"
  proof (elim disjE exE conjE)
    fix m bs assume m: "rehash_pairs (ht_hash t) m (all_pairs t) (replicate m []) = Some bs" "0 < m"
      "u = t\<lparr>ht_bucketArray := bs, ht_numOfBuckets := m\<rparr>"
    from rehash_pairs_ok [OF empty_buckets_ok [OF m(2)] m(1)] have bs: "buckets_ok (ht_hash t) m bs"
      "mset (concat bs) = mset (all_pairs t)" by simp_all
    then have "length (concat bs) = length (all_pairs t)" by (metis size_mset)
    with ok bs show ?thesis by (auto simp: m(3) ht_ok_def ht_config_def ht_functions_ok_def)
  qed (use ok in simp)
  then show "ht_ok cmp u" "mset (all_pairs u) = mset (all_pairs t)" "ht_config u = ht_config t"
    "ht_numOfElements u = ht_numOfElements t" by blast+
qed

lemma HashTable_Rehash_find:
  assumes ok: "ht_ok cmp t" and r: "HashTable_Rehash al t n = Ok () u"
  shows "ht_find u k = ht_find t k"
proof -
  note u = HashTable_Rehash_Ok [OF ok r]
  have "keys_apart cmp (mset (all_pairs t))" "ht_keyCompare t = cmp" "ht_keyCompare u = cmp"
    using ok u(1) by (simp_all add: ht_ok_def)
  then show ?thesis using find_pair_perm [OF _ u(2) [symmetric], of cmp k] by (simp only:)
qed

lemma HashTable_Rehash_total:
  assumes ok: "ht_ok cmp t" and n: "ratio_ok t" "ht_numOfElements t \<le> INT_MAX"
  shows "\<exists>u. HashTable_Rehash al t n = Ok () u"
proof -
  obtain m where m: "(if n = 0 then HashTable_CalculateIdealNumOfBuckets t else Some (int n)) = Some m" "0 < m"
    using ideal_total [OF n(1) _ n(2)] ok by (cases "n = 0") (auto simp: ht_ok_def)
  have len: "take (ht_numOfBuckets t) (ht_bucketArray t) = ht_bucketArray t" "\<not> length (ht_bucketArray t) < ht_numOfBuckets t"
      using ok by (simp_all add: ht_ok_def buckets_ok_def)
  from rehash_pairs_total [of "all_pairs t" "ht_hash t" "nat m" "replicate (nat m) []"] ht_ok_hashed [OF ok] m(2)
  obtain bs where "rehash_pairs (ht_hash t) (nat m) (all_pairs t) (replicate (nat m) []) = Some bs" by auto
  then show ?thesis unfolding HashTable_Rehash_def m(1) Let_def len(1) using len(2) by auto
qed

section \<open>The operations on the map\<close>

lemma ht_ok_facts:
  assumes "ht_ok cmp t"
  shows "ht_keyCompare t = cmp" "equivp cmp" "\<And>a b. cmp a b \<Longrightarrow> ht_hash t a = ht_hash t b"
    "length (ht_bucketArray t) = ht_numOfBuckets t" "0 < ht_numOfBuckets t"
    "keys_apart cmp (mset (all_pairs t))" "ht_numOfElements t = int (length (all_pairs t))"
  using assms by (auto simp: ht_ok_def ht_functions_ok_def buckets_ok_def)

lemma chain_of_Some:
  assumes ok: "ht_ok cmp t" and c: "chain_of t k = Some (h, c)"
  shows "h < length (ht_bucketArray t)" "c = ht_bucketArray t ! h"
    "bucket_of (ht_hash t) (ht_numOfBuckets t) k = Some h"
    "\<forall>p \<in> set c. bucket_of (ht_hash t) (ht_numOfBuckets t) (kv_key p) = Some h"
    "find_pair cmp k c = find_pair cmp k (all_pairs t)"
proof -
  note f = ht_ok_facts [OF ok]
  show h: "h < length (ht_bucketArray t)" "c = ht_bucketArray t ! h"
    "bucket_of (ht_hash t) (ht_numOfBuckets t) k = Some h"
    using c by (auto simp: chain_of_def split: option.splits if_splits)
  have b: "i < ht_numOfBuckets t \<Longrightarrow> p \<in> set (ht_bucketArray t ! i) \<Longrightarrow>
      bucket_of (ht_hash t) (ht_numOfBuckets t) (kv_key p) = Some i" for i p
    using ok by (simp add: ht_ok_def buckets_ok_def)
  then show "\<forall>p \<in> set c. bucket_of (ht_hash t) (ht_numOfBuckets t) (kv_key p) = Some h"
    using h f(4) by simp
  have "mset c \<subseteq># mset (all_pairs t)"
    using mset_concat_update [OF h(1), of "[]"] h(2) by (metis add.commute add.right_neutral mset_subset_eq_add_left mset_zero_iff)
  then have apart: "keys_apart cmp (mset c)" using keys_apart_mono f(6) by blast
  have sub: "set c \<subseteq> set (all_pairs t)" using nth_mem [OF h(1)] h(2) by auto
  have "p \<in> set c" if p: "p \<in> set (all_pairs t)" "cmp k (kv_key p)" for p
  proof -
    from p(1) obtain i where i: "i < ht_numOfBuckets t" "p \<in> set (ht_bucketArray t ! i)"
      using f(4) by (metis UN_E in_set_conv_nth set_concat)
    have "bucket_of (ht_hash t) (ht_numOfBuckets t) k = bucket_of (ht_hash t) (ht_numOfBuckets t) (kv_key p)"
      using f(3) [OF p(2)] by (simp add: bucket_of_def)
    then have "i = h" using b [OF i] h(3) by simp
    then show ?thesis using i h by simp
  qed
  with sub have "p \<in> set c \<and> cmp k (kv_key p) \<longleftrightarrow> p \<in> set (all_pairs t) \<and> cmp k (kv_key p)" for p by blast
  then have "find_pair cmp k c = Some p \<longleftrightarrow> find_pair cmp k (all_pairs t) = Some p" for p
    using find_pair_apart [OF apart, of k p] find_pair_apart [OF f(6), of k p] by blast
  then show "find_pair cmp k c = find_pair cmp k (all_pairs t)" by (metis option.exhaust)
qed

lemma chain_of_total: "ht_ok cmp t \<Longrightarrow> ht_hash t k \<noteq> None \<Longrightarrow> \<exists>h c. chain_of t k = Some (h, c)"
  using ht_ok_facts [of cmp t] by (auto simp: chain_of_def bucket_of_def)

lemma HashTable_Get_find:
  "ht_ok cmp t \<Longrightarrow> ht_hash t k \<noteq> None \<Longrightarrow> HashTable_Get t k = Ok (find_pair cmp k (all_pairs t)) t"
  using chain_of_total [of cmp t k] chain_of_Some(5) [of cmp t k] ht_ok_facts(1) [of cmp t] by (auto simp: HashTable_Get_def)

text \<open>Replacing the chain of a key by one whose pairs belong there.\<close>

lemma ht_ok_chain:
  assumes ok: "ht_ok cmp t" and c: "chain_of t k = Some (h, c)"
    and p: "\<forall>p \<in> set d. bucket_of (ht_hash t) (ht_numOfBuckets t) (kv_key p) = Some h"
    and M: "keys_apart cmp (mset (concat ((ht_bucketArray t)[h := d])))"
    and n: "n = int (length (concat ((ht_bucketArray t)[h := d])))"
  shows "ht_ok cmp (t\<lparr>ht_bucketArray := (ht_bucketArray t)[h := d], ht_numOfElements := n\<rparr>)"
  using ok p M n buckets_ok_update [of "ht_hash t" "ht_numOfBuckets t" "ht_bucketArray t" h d] chain_of_Some(1) [OF ok c]
  by (auto simp: ht_ok_def ht_functions_ok_def buckets_ok_def)

lemma same_bucket:
  "ht_ok cmp t \<Longrightarrow> cmp a b \<Longrightarrow> bucket_of (ht_hash t) n a = bucket_of (ht_hash t) n b"
  using ht_ok_facts(3) [of cmp t a b] by (simp add: bucket_of_def)

lemma chain_replace:
  assumes ok: "ht_ok cmp t" and c: "chain_of t k = Some (h, c)" and p: "find_pair cmp k c = Some p"
    and q: "cmp k (kv_key (f p))"
  defines "u \<equiv> t\<lparr>ht_bucketArray := (ht_bucketArray t)[h := update_pair cmp k f c]\<rparr>"
  shows "ht_ok cmp u" "ht_find u k' = (if cmp k' k then Some (kv_value (f p)) else ht_find t k')"
proof -
  note h = chain_of_Some [OF ok c] note t = ht_ok_facts [OF ok]
  let ?bs = "(ht_bucketArray t)[h := update_pair cmp k f c]"
  from find_pair_Some [OF p, of f] obtain xs ys where xy: "c = xs @ p # ys" "cmp k (kv_key p)"
    "update_pair cmp k f c = xs @ f p # ys" by blast
  have "mset (concat ?bs) + mset c = mset (all_pairs t) + mset (update_pair cmp k f c)"
    using mset_concat_update [OF h(1)] h(2) by simp
  then have "(mset (concat ?bs) + {#p#}) + mset c = (mset (all_pairs t) + {#f p#}) + mset c"
    using update_pair_mset [OF p, of f] by (metis add.assoc add.commute)
  then have m: "mset (concat ?bs) + {#p#} = mset (all_pairs t) + {#f p#}" by (simp only: add_right_cancel)
  have "p \<in> set (all_pairs t)" using p h(5) find_pair_apart [OF t(6), of k p] by simp
  note r = find_replace [OF t(2) m t(6) this xy(2) q]
  have "size (mset (concat ?bs)) = size (mset (all_pairs t))" using arg_cong [OF m, of size] by simp
  then have n: "ht_numOfElements t = int (length (concat ?bs))" using t(7) by simp
  have "\<forall>r \<in> set (update_pair cmp k f c). bucket_of (ht_hash t) (ht_numOfBuckets t) (kv_key r) = Some h"
    using h(4) h(3) same_bucket [OF ok q, of "ht_numOfBuckets t"] xy by auto
  from ht_ok_chain [OF ok c this r(1) n] show "ht_ok cmp u" by (simp add: u_def)
  show "ht_find u k' = (if cmp k' k then Some (kv_value (f p)) else ht_find t k')"
    using r(2) [of k'] t(1) by (simp add: u_def)
qed

lemma chain_insert:
  fixes v :: ptr
  assumes ok: "ht_ok cmp t" and c: "chain_of t k = Some (h, c)" and p: "find_pair cmp k c = None"
  defines "u \<equiv> t\<lparr>ht_bucketArray := (ht_bucketArray t)[h := \<lparr>kv_key = k, kv_value = v\<rparr> # c],
    ht_numOfElements := ht_numOfElements t + 1\<rparr>"
  shows "ht_ok cmp u" "ht_find u k' = (if cmp k' k then Some v else ht_find t k')"
proof -
  note h = chain_of_Some [OF ok c] note t = ht_ok_facts [OF ok]
  let ?q = "\<lparr>kv_key = k, kv_value = v\<rparr>"
  let ?bs = "(ht_bucketArray t)[h := ?q # c]"
  have m: "mset (concat ?bs) = add_mset ?q (mset (all_pairs t))"
    using mset_concat_update [OF h(1), of "?q # c"] h(2) by simp
  have "\<forall>r \<in> set (all_pairs t). \<not> cmp k (kv_key r)" using p h(5) by (simp add: find_pair_None)
  then have apart: "keys_apart cmp (mset (concat ?bs))" unfolding m keys_apart_add_iff [OF t(2)] using t(6) by simp
  have "size (mset (concat ?bs)) = size (mset (all_pairs t)) + 1" unfolding m by simp
  then have n: "ht_numOfElements t + 1 = int (length (concat ?bs))" using t(7) by simp
  have "\<forall>r \<in> set (?q # c). bucket_of (ht_hash t) (ht_numOfBuckets t) (kv_key r) = Some h" using h(3,4) by simp
  from ht_ok_chain [OF ok c this apart n] show "ht_ok cmp u" by (simp add: u_def)
  show "ht_find u k' = (if cmp k' k then Some v else ht_find t k')"
    using find_insert [OF t(2) m apart, of k k'] equivp_reflp [OF t(2)] t(1) by (simp add: u_def)
qed

lemma chain_delete:
  assumes ok: "ht_ok cmp t" and c: "chain_of t k = Some (h, c)" and p: "find_pair cmp k c = Some p"
  defines "u \<equiv> t\<lparr>ht_bucketArray := (ht_bucketArray t)[h := unlink_pair cmp k c],
    ht_numOfElements := ht_numOfElements t - 1\<rparr>"
  shows "ht_ok cmp u" "ht_find u k' = (if cmp k' k then None else ht_find t k')"
proof -
  note h = chain_of_Some [OF ok c] note t = ht_ok_facts [OF ok]
  let ?bs = "(ht_bucketArray t)[h := unlink_pair cmp k c]"
  from find_pair_Some [OF p, of id] obtain xs ys where xy: "c = xs @ p # ys" "cmp k (kv_key p)" "unlink_pair cmp k c = xs @ ys"
    by blast
  have "mset (concat ?bs) + mset c = mset (all_pairs t) + mset (unlink_pair cmp k c)"
    using mset_concat_update [OF h(1)] h(2) by simp
  then have "mset (all_pairs t) + mset (unlink_pair cmp k c) = add_mset p (mset (concat ?bs)) + mset (unlink_pair cmp k c)"
    using unlink_pair_mset [OF p] by (metis add_mset_add_single add.assoc add.commute)
  then have m: "mset (all_pairs t) = add_mset p (mset (concat ?bs))" by (simp only: add_right_cancel)
  then have apart: "keys_apart cmp (mset (concat ?bs))" using t(6) by (simp add: keys_apart_remove)
  have "size (mset (all_pairs t)) = size (mset (concat ?bs)) + 1" unfolding m by simp
  then have n: "ht_numOfElements t - 1 = int (length (concat ?bs))" using t(7) by simp
  have "\<forall>r \<in> set (unlink_pair cmp k c). bucket_of (ht_hash t) (ht_numOfBuckets t) (kv_key r) = Some h"
    using h(4) xy by auto
  from ht_ok_chain [OF ok c this apart n] show "ht_ok cmp u" by (simp add: u_def)
  show "ht_find u k' = (if cmp k' k then None else ht_find t k')"
    using find_delete [OF t(2) m t(6) xy(2), of k'] t(1) by (simp add: u_def)
qed

lemma cloned_key:
  assumes ok: "ht_ok cmp t" and g: "\<not> (ht_keyClone t \<noteq> None \<and> clone (ht_keyClone t) k = NULL)"
  shows "cmp k' (clone (ht_keyClone t) k) = cmp k' k"
proof -
  have eq: "equivp cmp" using ht_ok_facts(2) [OF ok] .
  have "cmp (clone (ht_keyClone t) k) k"
    using ok g equivp_reflp [OF eq] by (cases "ht_keyClone t") (auto simp: clone_def ht_ok_def ht_functions_ok_def)
  then show ?thesis using eq by (meson equivp_symp equivp_transp)
qed

lemma HashTable_Insert_Ok:
  assumes ok: "ht_ok cmp t" and c: "chain_of t k = Some (h, c)" and p: "find_pair cmp k c = None"
    and a: "HashTable_Insert fdiv a b t h k v = Ok fr u"
  shows "ht_ok cmp u \<and> ht_config u = ht_config t \<and> fr = [] \<and>
    ht_find u k' = (if cmp k' k then Some v else ht_find t k')"
proof -
  let ?s = "t\<lparr>ht_bucketArray := (ht_bucketArray t)[h := \<lparr>kv_key = k, kv_value = v\<rparr> # c],
    ht_numOfElements := ht_numOfElements t + 1\<rparr>"
  note s = chain_insert [OF ok c p, of v]
  have cfg: "ht_config ?s = ht_config t" by (simp add: ht_config_def)
  have "ht_bucketArray t ! h = c" using chain_of_Some(2) [OF ok c] by simp
  with a have "fr = [] \<and> (u = ?s \<or> HashTable_Rehash b ?s 0 = Ok () u)"
    by (auto simp: HashTable_Insert_def Let_def and_then_Ok_iff split: if_splits)
  then show ?thesis
    using s(1) s(2) [of k'] cfg HashTable_Rehash_Ok [OF s(1), of b 0 u] HashTable_Rehash_find [OF s(1), of b 0 u k']
    by (elim conjE disjE) (simp_all)
qed

lemma HashTable_Add_Ok:
  assumes ok: "ht_ok cmp t" and a: "HashTable_Add fdiv a b t k v = Ok fr u"
  shows "ht_ok cmp u \<and> ht_config u = ht_config t \<and>
    ht_find u k' = (if cmp k' k then Some (clone (ht_valueClone t) v) else ht_find t k')"
proof -
  let ?k = "clone (ht_keyClone t) k" and ?v = "clone (ht_valueClone t) v"
  have g: "\<not> (ht_keyClone t \<noteq> None \<and> ?k = NULL)" using a unfolding HashTable_Add_def by (auto split: if_splits)
  note kk = cloned_key [OF ok g]
  have refl: "cmp ?k ?k" using ht_ok_facts(2) [OF ok] by (meson equivp_reflp)
  obtain h c where c: "chain_of t ?k = Some (h, c)"
    using a unfolding HashTable_Add_def Let_def by (auto split: if_splits option.splits)
  have cm: "ht_keyCompare t = cmp" using ht_ok_facts(1) [OF ok] .
  show ?thesis
  proof (cases "find_pair cmp ?k c")
    case None
    then have "HashTable_Insert fdiv a b t h ?k ?v = Ok fr u"
      using a c unfolding HashTable_Add_def Let_def by (auto simp: cm split: if_splits)
    from HashTable_Insert_Ok [OF ok c None this, of k'] kk show ?thesis by simp
  next
    case (Some p)
    let ?f = "\<lambda>_. \<lparr>kv_key = ?k, kv_value = ?v\<rparr>"
    have "u = t\<lparr>ht_bucketArray := (ht_bucketArray t)[h := update_pair cmp ?k ?f c]\<rparr>"
      using a c Some unfolding HashTable_Add_def Let_def by (auto simp: cm split: if_splits)
    then show ?thesis using chain_replace [OF ok c Some, of ?f] refl kk by (simp add: ht_config_def)
  qed
qed

lemma HashTable_Remove_Ok:
  assumes ok: "ht_ok cmp t" and r: "HashTable_Remove fdiv al t k = Ok fr u"
  shows "ht_ok cmp u \<and> ht_config u = ht_config t \<and> ht_find u k' = (if cmp k' k then None else ht_find t k')"
proof -
  obtain h c where c: "chain_of t k = Some (h, c)"
    using r unfolding HashTable_Remove_def by (auto split: option.splits)
  have cm: "ht_keyCompare t = cmp" using ht_ok_facts(1) [OF ok] .
  obtain p where p: "find_pair cmp k c = Some p"
    using r c unfolding HashTable_Remove_def by (auto simp: cm split: option.splits)
  let ?s = "t\<lparr>ht_bucketArray := (ht_bucketArray t)[h := unlink_pair cmp k c], ht_numOfElements := ht_numOfElements t - 1\<rparr>"
  note s = chain_delete [OF ok c p]
  have cfg: "ht_config ?s = ht_config t" by (simp add: ht_config_def)
  have "u = ?s \<or> HashTable_Rehash al ?s 0 = Ok () u"
    using r c p unfolding HashTable_Remove_def Let_def by (auto simp: cm and_then_Ok_iff split: if_splits)
  then show ?thesis
    using s(1) s(2) [of k'] cfg HashTable_Rehash_Ok [OF s(1), of al 0 u] HashTable_Rehash_find [OF s(1), of al 0 u k']
    by (elim disjE) simp_all
qed

definition ht_plain :: "(ptr \<Rightarrow> ptr \<Rightarrow> bool) \<Rightarrow> wHashTable \<Rightarrow> bool" where
  "ht_plain cmp t \<longleftrightarrow> ht_ok cmp t \<and> ht_valueClone t = None"

interpretation hash_table: replacing_dictionary "ht_plain cmp" cmp ht_find "HashTable_Add fdiv a b" "HashTable_Remove fdiv b"
  for cmp fdiv a b
proof unfold_locales
  fix s :: wHashTable and k k' v r t assume "ht_plain cmp s" "HashTable_Add fdiv a b s k v = Ok r t"
  then show "ht_plain cmp t \<and> ht_find t k' = (if cmp k' k then Some v else ht_find s k')"
    using HashTable_Add_Ok [of cmp s fdiv a b k v r t k'] ht_config_fields(4) [of t s]
    unfolding ht_plain_def by (metis clone_def option.case(1))
  then show "ht_plain cmp t \<and> ht_find t k' = (if cmp k' k then Some v else ht_find s k')" .
next
  fix s :: wHashTable and k k' d t assume "ht_plain cmp s" "HashTable_Remove fdiv b s k = Ok d t"
  then show "ht_plain cmp t \<and> ht_find t k' = (if cmp k' k then None else ht_find s k')"
    using HashTable_Remove_Ok [of cmp s fdiv b k d t k'] ht_config_fields(4) [of t s] unfolding ht_plain_def by metis
next
  fix s :: wHashTable and k k' assume s: "ht_plain cmp s" "cmp k k'"
  then have eq: "equivp cmp" "ht_keyCompare s = cmp" using ht_ok_facts [of cmp s] by (simp_all add: ht_plain_def)
  have "cmp k x = cmp k' x" for x using s(2) eq(1) by (meson equivp_symp equivp_transp)
  then have "find_pair cmp k ps = find_pair cmp k' ps" for ps by (induction ps) simp_all
  then show "ht_find s k = ht_find s k'" using eq(2) by simp
next
  fix s :: wHashTable assume "ht_plain cmp s" then show "equivp cmp" using ht_ok_facts(2) by (auto simp: ht_plain_def)
qed

lemma HashTable_SetItemValue_Ok:
  assumes ok: "ht_ok cmp t" and s: "HashTable_SetItemValue t k v = Ok fr u"
  shows "ht_ok cmp u \<and>
    ht_find u k' = (if cmp k' k then Some (if v \<noteq> NULL then clone (ht_valueClone t) v else v) else ht_find t k')"
proof -
  obtain h c where c: "chain_of t k = Some (h, c)"
    using s unfolding HashTable_SetItemValue_def Let_def by (auto split: option.splits if_splits)
  have cm: "ht_keyCompare t = cmp" using ht_ok_facts(1) [OF ok] .
  obtain p where p: "find_pair cmp k c = Some p"
    using s c unfolding HashTable_SetItemValue_def Let_def by (auto simp: cm split: option.splits if_splits)
  let ?w = "if v \<noteq> NULL then clone (ht_valueClone t) v else v"
  let ?f = "\<lambda>pair. pair\<lparr>kv_value := ?w\<rparr>"
  have u: "u = t\<lparr>ht_bucketArray := (ht_bucketArray t)[h := update_pair cmp k ?f c]\<rparr>"
    using s c p unfolding HashTable_SetItemValue_def Let_def by (simp add: cm split: if_splits)
  have "cmp k (kv_key p)" using find_pair_Some [OF p, of id] by auto
  then show ?thesis using chain_replace [OF ok c p, of ?f] unfolding u by simp
qed

lemma HashTable_Remove_none:
  assumes ok: "ht_ok cmp t" and h: "ht_hash t k \<noteq> None" and n: "ht_find t k = None"
  shows "HashTable_Remove fdiv al t k = Fail t" "HashTable_SetItemValue t k NULL = Fail t"
proof -
  obtain i c where c: "chain_of t k = Some (i, c)" using chain_of_total [OF ok h] by blast
  have "find_pair (ht_keyCompare t) k c = None" using chain_of_Some(5) [OF ok c] n ht_ok_facts(1) [OF ok] by simp
  then show "HashTable_Remove fdiv al t k = Fail t" "HashTable_SetItemValue t k NULL = Fail t"
    by (simp_all add: HashTable_Remove_def HashTable_SetItemValue_def c)
qed

lemma HashTable_Remove_total:
  assumes ok: "ht_ok cmp t" and h: "ht_hash t k \<noteq> None" and v: "ht_find t k = Some v"
    and r: "ratio_ok t" "ht_numOfElements t \<le> INT_MAX"
  shows "\<exists>p u. find_pair cmp k (all_pairs t) = Some p \<and> HashTable_Remove fdiv al t k = Ok (free_pair t p) u"
proof -
  obtain i c where c: "chain_of t k = Some (i, c)" using chain_of_total [OF ok h] by blast
  have cm: "ht_keyCompare t = cmp" using ht_ok_facts(1) [OF ok] .
  obtain p where p: "find_pair cmp k c = Some p" "find_pair cmp k (all_pairs t) = Some p"
    using v chain_of_Some(5) [OF ok c] cm by auto
  let ?s = "t\<lparr>ht_bucketArray := (ht_bucketArray t)[i := unlink_pair cmp k c], ht_numOfElements := ht_numOfElements t - 1\<rparr>"
  have "ratio_ok ?s" "ht_numOfElements ?s \<le> INT_MAX" using r by (simp_all add: ratio_ok_def)
  from HashTable_Rehash_total [OF chain_delete(1) [OF ok c p(1)] this, of al 0] obtain u where
    "HashTable_Rehash al ?s 0 = Ok () u" by blast
  then show ?thesis using p c by (auto simp: HashTable_Remove_def Let_def cm)
qed

lemma HashTable_Add_total:
  assumes ok: "ht_ok cmp t" and kv: "k \<noteq> NULL" "v \<noteq> NULL"
    and cl: "clone (ht_keyClone t) k \<noteq> NULL" "clone (ht_valueClone t) v \<noteq> NULL" "ht_hash t k \<noteq> None"
    and r: "ratio_ok t" "ht_numOfElements t < INT_MAX"
  shows "\<exists>fr u. HashTable_Add fdiv (Some f) al t k v = Ok fr u"
    "HashTable_Add fdiv None al t k v \<noteq> Fault"
proof -
  let ?k = "clone (ht_keyClone t) k" and ?v = "clone (ht_valueClone t) v"
  have cm: "ht_keyCompare t = cmp" using ht_ok_facts(1) [OF ok] .
  have "cmp ?k k" using cloned_key [OF ok, of k ?k] cl ht_ok_facts(2) [OF ok] by (auto dest: equivp_reflp)
  then have "ht_hash t ?k \<noteq> None" using ht_ok_facts(3) [OF ok] cl(3) by metis
  then obtain i c where c: "chain_of t ?k = Some (i, c)" using chain_of_total [OF ok] by blast
  have "\<exists>fr u. HashTable_Insert fdiv (Some f) al t i ?k ?v = Ok fr u" if p: "find_pair cmp ?k c = None"
  proof -
    let ?s = "t\<lparr>ht_bucketArray := (ht_bucketArray t)[i := \<lparr>kv_key = ?k, kv_value = ?v\<rparr> # c],
      ht_numOfElements := ht_numOfElements t + 1\<rparr>"
    have "ratio_ok ?s" "ht_numOfElements ?s \<le> INT_MAX" using r by (simp_all add: ratio_ok_def)
    from HashTable_Rehash_total [OF chain_insert(1) [OF ok c p] this, of al 0] obtain u where
      "HashTable_Rehash al ?s 0 = Ok () u" by blast
    then show ?thesis using r(2) chain_of_Some(2) [OF ok c] by (auto simp: HashTable_Insert_def Let_def)
  qed
  then show "\<exists>fr u. HashTable_Add fdiv (Some f) al t k v = Ok fr u"
    using kv cl c by (cases "find_pair cmp ?k c") (auto simp: HashTable_Add_def Let_def cm)
  show "HashTable_Add fdiv None al t k v \<noteq> Fault"
    using kv cl c by (cases "find_pair cmp ?k c") (auto simp: HashTable_Add_def Let_def cm HashTable_Insert_def)
qed

section \<open>Tables as they are created\<close>

lemma pointer_functions_ok:
  "ht_hash t = HashTable_PointerHash \<Longrightarrow> ht_keyCompare t = HashTable_PointerCompare \<Longrightarrow> ht_keyClone t = None \<Longrightarrow>
   ht_functions_ok t"
  by (auto simp: ht_functions_ok_def HashTable_PointerCompare_def equivp_def fun_eq_iff)

text \<open>The string functions agree with each other: strings that compare equal have the same hash.\<close>

lemma string_functions_ok:
  "ht_hash t = HashTable_StringHash str \<Longrightarrow> ht_keyCompare t = HashTable_StringCompare str \<Longrightarrow>
   (\<And>f k. ht_keyClone t = Some f \<Longrightarrow> f k \<noteq> NULL \<Longrightarrow> k \<noteq> NULL \<and> str (f k) = str k) \<Longrightarrow> ht_functions_ok t"
  unfolding ht_functions_ok_def
  by (auto simp: HashTable_StringCompare_def HashTable_StringHash_def intro!: equivpI reflpI sympI transpI split: if_splits)

lemma fresh_table_ok:
  assumes "ht_functions_ok t" "ht_keyCompare t = cmp" "0 < ht_numOfBuckets t"
    "ht_bucketArray t = replicate (ht_numOfBuckets t) []" "ht_numOfElements t = 0"
  shows "ht_ok cmp t"
  using assms by (simp add: ht_ok_def buckets_ok_def keys_apart_def)

definition empty_table :: wHashTable where
  "empty_table = the (HashTable_New (Some (\<lambda>_. ())) (Some (\<lambda>_. ())) False)"

lemma empty_table_fields [simp]:
  "ht_numOfBuckets empty_table = 64" "ht_numOfElements empty_table = 0" "ht_idealRatio empty_table = 3"
  "ht_bucketArray empty_table = replicate 64 []" "ht_keyClone empty_table = None" "ht_valueClone empty_table = None"
  "ht_hash empty_table = HashTable_PointerHash" "ht_keyCompare empty_table = HashTable_PointerCompare"
  "ht_keyFree empty_table = False" "ht_valueFree empty_table = False"
  by (simp_all add: empty_table_def HashTable_New_def)

lemma empty_table_ok: "ht_ok HashTable_PointerCompare empty_table" "ratio_ok empty_table"
  by (simp_all add: fresh_table_ok pointer_functions_ok ratio_ok_def)

text \<open>A table of strings in which every address holds the string ``A''.\<close>

definition string_table :: wHashTable where
  "string_table = empty_table\<lparr>ht_hash := HashTable_StringHash (\<lambda>_. [65]),
     ht_keyCompare := HashTable_StringCompare (\<lambda>_. [65])\<rparr>"

lemma string_table_ok: "ht_ok (HashTable_StringCompare (\<lambda>_. [65])) string_table" "ratio_ok string_table"
proof -
  have "ht_functions_ok string_table" by (rule string_functions_ok) (simp_all add: string_table_def)
  then show "ht_ok (HashTable_StringCompare (\<lambda>_. [65])) string_table" "ratio_ok string_table"
    by (simp_all add: fresh_table_ok string_table_def ratio_ok_def)
qed

section \<open>Properties\<close>

text \<open>
  C37. \<open>wHashTable\<close> implements a map up to the key comparison it is configured with, whatever way the pairs are
  spread over the buckets and whether or not an operation rehashes. A lookup gives the value or \<open>NULL\<close>;
  adding binds the key to the (cloned) value, replacing an earlier one; removing unbinds it and fails,
  changing nothing, when it was not bound; setting a value replaces it. All keep the invariant: each
  pair in the bucket of its hash, keys different, the count of elements exact.
\<close>

theorem HashTable_refines_map:
  assumes ok: "ht_ok cmp t" and h: "ht_hash t k \<noteq> None"
  shows "HashTable_GetItemValue t k = Some (case ht_find t k of None \<Rightarrow> NULL | Some v \<Rightarrow> v) \<and>
    HashTable_Contains t k = Ok (ht_find t k \<noteq> None) t \<and> HashTable_ContainsKey t k = Ok (ht_find t k \<noteq> None) t \<and>
    HashTable_Count t = int (length (all_pairs t)) \<and>
    (HashTable_Add fdiv a b t k v = Ok fr u \<longrightarrow>
       ht_ok cmp u \<and> (\<forall>k'. ht_find u k' = (if cmp k' k then Some (clone (ht_valueClone t) v) else ht_find t k'))) \<and>
    (HashTable_Remove fdiv b t k = Ok fr u \<longrightarrow>
       ht_ok cmp u \<and> (\<forall>k'. ht_find u k' = (if cmp k' k then None else ht_find t k'))) \<and>
    (ht_find t k = None \<longrightarrow> HashTable_Remove fdiv b t k = Fail t) \<and>
    (ht_valueClone t = None \<longrightarrow> HashTable_SetItemValue t k v = Ok fr u \<longrightarrow>
       ht_ok cmp u \<and> (\<forall>k'. ht_find u k' = (if cmp k' k then Some v else ht_find t k')))"
proof (intro conjI impI)
  have g: "HashTable_Get t k = Ok (find_pair (ht_keyCompare t) k (all_pairs t)) t"
    using HashTable_Get_find [OF ok h] ht_ok_facts(1) [OF ok] by simp
  show "HashTable_GetItemValue t k = Some (case ht_find t k of None \<Rightarrow> NULL | Some v \<Rightarrow> v)"
    "HashTable_Contains t k = Ok (ht_find t k \<noteq> None) t" "HashTable_ContainsKey t k = Ok (ht_find t k \<noteq> None) t"
    by (simp_all add: HashTable_GetItemValue_def HashTable_Contains_def HashTable_ContainsKey_def g split: option.split)
  show "HashTable_Count t = int (length (all_pairs t))"
    using ht_ok_facts(7) [OF ok] by (simp add: HashTable_Count_def)
  show "HashTable_Remove fdiv b t k = Fail t" if "ht_find t k = None"
    using HashTable_Remove_none(1) [OF ok h that] .
  show "ht_ok cmp u" "\<forall>k'. ht_find u k' = (if cmp k' k then Some (clone (ht_valueClone t) v) else ht_find t k')"
    if "HashTable_Add fdiv a b t k v = Ok fr u" using HashTable_Add_Ok [OF ok that] by blast+
  show "ht_ok cmp u" "\<forall>k'. ht_find u k' = (if cmp k' k then None else ht_find t k')"
    if "HashTable_Remove fdiv b t k = Ok fr u" using HashTable_Remove_Ok [OF ok that] by blast+
  show "ht_ok cmp u" "\<forall>k'. ht_find u k' = (if cmp k' k then Some v else ht_find t k')"
    if v: "ht_valueClone t = None" and s: "HashTable_SetItemValue t k v = Ok fr u"
    using HashTable_SetItemValue_Ok [OF ok s] v by (simp_all add: clone_def)
qed

theorem HashTable_refines_map_witness:
  "\<exists>fr u. HashTable_Add (\<lambda>_ _. 0) (Some (\<lambda>_. ())) None string_table 1 9 = Ok fr u \<and> ht_find u 2 = Some 9"
proof -
  have h: "ht_hash string_table 1 \<noteq> None" by (simp add: string_table_def HashTable_StringHash_def)
  obtain fr u where u: "HashTable_Add (\<lambda>_ _. 0) (Some (\<lambda>_. ())) None string_table 1 9 = Ok fr u"
    using HashTable_Add_total(1) [OF string_table_ok(1) _ _ _ _ h string_table_ok(2), of 9 "\<lambda>_ _. 0" "\<lambda>_. ()" None]
    by (auto simp: string_table_def clone_def)
  have "HashTable_StringCompare (\<lambda>_. [65]) 2 1" by (simp add: HashTable_StringCompare_def)
  with HashTable_refines_map [OF string_table_ok(1) h, of "\<lambda>_ _. 0" "Some (\<lambda>_. ())" None 9 fr u] u
  have "ht_find u 2 = Some (clone (ht_valueClone string_table) 9)" by metis
  with u show ?thesis by (simp add: string_table_def clone_def)
qed

text \<open>
  C38. Rehashing is invisible: for any table that satisfies the invariant and has an ideal ratio of at least
  one, \<open>HashTable_Rehash\<close> is defined, whether or not the new array can be allocated, keeps the invariant
  and the count, and leaves every lookup as it was.
\<close>

theorem HashTable_Rehash_invisible:
  assumes "ht_ok cmp t" "ratio_ok t" "ht_numOfElements t \<le> INT_MAX"
  shows "\<exists>u. HashTable_Rehash al t n = Ok () u \<and> ht_ok cmp u \<and> ht_numOfElements u = ht_numOfElements t \<and>
    mset (all_pairs u) = mset (all_pairs t) \<and> (\<forall>k. ht_find u k = ht_find t k)"
  using HashTable_Rehash_total [OF assms, of al n] HashTable_Rehash_Ok [OF assms(1)] HashTable_Rehash_find [OF assms(1)]
  by blast

theorem HashTable_Rehash_invisible_witness:
  "\<exists>u. HashTable_Rehash (Some (\<lambda>_. ())) empty_table 0 = Ok () u \<and> ht_ok HashTable_PointerCompare u \<and> ht_find u 7 = None"
  using HashTable_Rehash_invisible [OF empty_table_ok, of "Some (\<lambda>_. ())" 0]
  by (auto simp del: map_option_is_None)

text \<open>
  The number of buckets. \<open>HashTable_CalculateIdealNumOfBuckets\<close> ends without overflowing for every count of
  elements an \<open>int\<close> can hold, and its result is at least five, odd, and passes the primality test.
\<close>

theorem HashTable_ideal_number:
  assumes "ratio_ok t" "0 \<le> ht_numOfElements t" "ht_numOfElements t \<le> INT_MAX"
  shows "\<exists>n. HashTable_CalculateIdealNumOfBuckets t = Some n \<and> 5 \<le> n \<and> n \<le> INT_MAX \<and> odd n \<and>
    HashTable_IsProbablePrime n"
  using ideal_total [OF assms] .

theorem HashTable_ideal_number_witness:
  "\<exists>n. HashTable_CalculateIdealNumOfBuckets (empty_table\<lparr>ht_numOfElements := 961\<rparr>) = Some n \<and> 5 \<le> n \<and> odd n"
  using HashTable_ideal_number [of "empty_table\<lparr>ht_numOfElements := 961\<rparr>"] by (auto simp: ratio_ok_def)

text \<open>
  Adding and removing do not fault. With non-null arguments whose clones succeed and memory for the pair,
  adding to a table of fewer than \<open>INT_MAX\<close> elements succeeds; without memory it fails cleanly. Removing a
  bound key succeeds and frees exactly the key and the value of its pair.
\<close>

theorem HashTable_total:
  assumes ok: "ht_ok cmp t" "ratio_ok t" "ht_numOfElements t < INT_MAX" and h: "ht_hash t k \<noteq> None"
  shows "(k \<noteq> NULL \<and> v \<noteq> NULL \<and> clone (ht_keyClone t) k \<noteq> NULL \<and> clone (ht_valueClone t) v \<noteq> NULL \<longrightarrow>
       (\<exists>fr u. HashTable_Add fdiv (Some f) al t k v = Ok fr u) \<and> HashTable_Add fdiv None al t k v \<noteq> Fault) \<and>
    (ht_find t k = Some w \<longrightarrow>
       (\<exists>p u. p \<in> set (all_pairs t) \<and> cmp k (kv_key p) \<and> kv_value p = w \<and>
          HashTable_Remove fdiv al t k = Ok (free_pair t p) u))"
proof (intro conjI impI; (elim conjE)?)
  assume kv: "k \<noteq> NULL" "v \<noteq> NULL" "clone (ht_keyClone t) k \<noteq> NULL" "clone (ht_valueClone t) v \<noteq> NULL"
  show "\<exists>fr u. HashTable_Add fdiv (Some f) al t k v = Ok fr u" "HashTable_Add fdiv None al t k v \<noteq> Fault"
    using HashTable_Add_total [OF ok(1) kv h ok(2,3)] by blast+
next
  assume w: "ht_find t k = Some w"
  have "ht_numOfElements t \<le> INT_MAX" using ok(3) by linarith
  from HashTable_Remove_total [OF ok(1) h w ok(2) this, of fdiv al] obtain p u where
    p: "find_pair cmp k (all_pairs t) = Some p" "HashTable_Remove fdiv al t k = Ok (free_pair t p) u" by blast
  have "p \<in> set (all_pairs t) \<and> cmp k (kv_key p)" using find_pair_apart [OF ht_ok_facts(6) [OF ok(1)]] p(1) by blast
  moreover have "kv_value p = w" using w p(1) ht_ok_facts(1) [OF ok(1)] by simp
  ultimately show "\<exists>p u. p \<in> set (all_pairs t) \<and> cmp k (kv_key p) \<and> kv_value p = w \<and>
          HashTable_Remove fdiv al t k = Ok (free_pair t p) u" using p(2) by blast
qed

theorem HashTable_total_witness:
  "\<exists>fr u. HashTable_Add (\<lambda>_ _. 0) (Some (\<lambda>_. ())) None empty_table 16 9 = Ok fr u"
  using HashTable_total [OF empty_table_ok, of 16 9 "\<lambda>_ _. 0" "\<lambda>_. ()" None 0]
  by (simp add: HashTable_PointerHash_def clone_def)

lemma HashTable_Clear_Ok:
  assumes ok: "ht_ok cmp t"
  shows "\<exists>u. HashTable_Clear al t = Ok (concat (map (free_pair t) (all_pairs t))) u \<and> ht_ok cmp u \<and>
    all_pairs u = [] \<and> ht_numOfElements u = 0"
proof -
  note f = ht_ok_facts [OF ok]
  let ?n = "ht_numOfBuckets t"
  let ?s = "t\<lparr>ht_bucketArray := replicate ?n [], ht_numOfElements := 0\<rparr>"
  have b: "blit (ht_bucketArray t) 0 (replicate ?n []) = replicate ?n []" using f(4) by (simp add: blit_def)
  have s: "ht_ok cmp ?s"
    using ok f(5) by (intro fresh_table_ok) (auto simp: ht_ok_def ht_functions_ok_def)
  obtain u where u: "HashTable_Rehash al ?s 5 = Ok () u"
    by (cases "5 = ?n"; cases al) (auto simp: HashTable_Rehash_def Let_def)
  have "HashTable_Clear al t = Ok (concat (map (free_pair t) (all_pairs t))) u"
    using f(4) u by (simp add: HashTable_Clear_def Let_def b)
  moreover have "mset (all_pairs u) = {#}" using HashTable_Rehash_Ok(2) [OF s u] by simp
  ultimately show ?thesis using HashTable_Rehash_Ok(1,4) [OF s u] by auto
qed

lemma HashTable_GetKeys_Ok:
  assumes ok: "ht_ok cmp t" and al: "al \<noteq> None" shows "HashTable_GetKeys al t = Ok (map kv_key (all_pairs t)) t"
proof (cases "all_pairs t = []")
  case True
  then show ?thesis using ht_ok_facts [OF ok] by (simp add: HashTable_GetKeys_def)
next
  case False
  then have "0 < length (all_pairs t)" by blast
  then have "\<not> int (length (all_pairs t)) < 1" by linarith
  then show ?thesis using ht_ok_facts(4,7) [OF ok] al by (simp add: HashTable_GetKeys_def Let_def del: length_concat)
qed

text \<open>
  Enumeration and release. \<open>HashTable_GetKeys\<close> fills an array of exactly the counted size with the key of
  every pair; \<open>HashTable_Clear\<close> hands the key and the value of every pair to the free callbacks, once, and
  leaves an empty table that satisfies the invariant; \<open>HashTable_Free\<close> releases the same objects.
\<close>

theorem HashTable_enumerate_release:
  assumes ok: "ht_ok cmp t"
  shows "HashTable_GetKeys (Some f) t = Ok (map kv_key (all_pairs t)) t \<and>
    length (map kv_key (all_pairs t)) = nat (HashTable_Count t) \<and>
    (\<exists>u. HashTable_Clear al t = Ok (concat (map (free_pair t) (all_pairs t))) u \<and> ht_ok cmp u \<and>
       HashTable_Count u = 0 \<and> (\<forall>k. ht_find u k = None)) \<and>
    HashTable_Free (Some t) = Some (concat (map (free_pair t) (all_pairs t)))"
proof (intro conjI)
  show "HashTable_GetKeys (Some f) t = Ok (map kv_key (all_pairs t)) t" using HashTable_GetKeys_Ok [OF ok] by blast
  show "length (map kv_key (all_pairs t)) = nat (HashTable_Count t)"
    using ht_ok_facts(7) [OF ok] by (simp add: HashTable_Count_def)
  show "\<exists>u. HashTable_Clear al t = Ok (concat (map (free_pair t) (all_pairs t))) u \<and> ht_ok cmp u \<and>
       HashTable_Count u = 0 \<and> (\<forall>k. ht_find u k = None)"
    using HashTable_Clear_Ok [OF ok, of al] by (auto simp: HashTable_Count_def simp del: concat_eq_Nil_conv)
  show "HashTable_Free (Some t) = Some (concat (map (free_pair t) (all_pairs t)))"
    using ht_ok_facts(4) [OF ok] by (simp add: HashTable_Free_def)
qed

theorem HashTable_enumerate_release_witness:
  "\<exists>t u. HashTable_GetKeys (Some (\<lambda>_. ())) t = Ok [5] t \<and> HashTable_Clear None t = Ok [Freed_Key 5, Freed_Value 6] u"
proof -
  let ?t = "empty_table\<lparr>ht_numOfBuckets := 1, ht_bucketArray := [[\<lparr>kv_key = 5, kv_value = 6\<rparr>]], ht_numOfElements := 1,
    ht_keyFree := True, ht_valueFree := True\<rparr>"
  have ok: "ht_ok HashTable_PointerCompare ?t"
    by (simp add: ht_ok_def pointer_functions_ok buckets_ok_def bucket_of_def HashTable_PointerHash_def keys_apart_def)
  from HashTable_enumerate_release [OF ok, of "\<lambda>_. ()" None]
  have "HashTable_GetKeys (Some (\<lambda>_. ())) ?t = Ok [5] ?t" "\<exists>u. HashTable_Clear None ?t = Ok [Freed_Key 5, Freed_Value 6] u"
    by (auto simp: free_pair_def)
  then show ?thesis by blast
qed

end
