(* ===== verification/Utils_RingBuffer.thy ===== *)
theory Utils_RingBuffer
  imports Coll_Base
begin

text \<open>
  The byte ring buffer of \<^verbatim>\<open>libfreerdp/utils/ringbuffer.c\<close>. The \<open>size_t\<close> members are naturals below
  \<open>2 ^ 64\<close> and the sums and differences wrap as in C. A pointer into the buffer is an offset.
\<close>

section \<open>The operations\<close>

record RingBuffer =
  rb_initialSize :: nat
  rb_freeSize :: nat
  rb_size :: nat
  rb_readPtr :: nat
  rb_writePtr :: nat
  rb_buffer :: "u8 list"

text \<open>A piece of data in the ring buffer: the size and the offset of the first byte.\<close>

record DataChunk =
  dc_size :: nat
  dc_data :: nat

definition ringbuffer_init :: "u8 alloc \<Rightarrow> nat \<Rightarrow> RingBuffer option" where
  "ringbuffer_init al initialSize =
     (case malloc al initialSize of None \<Rightarrow> None
      | Some buffer \<Rightarrow> Some \<lparr>rb_initialSize = initialSize, rb_freeSize = initialSize, rb_size = initialSize,
                           rb_readPtr = 0, rb_writePtr = 0, rb_buffer = buffer\<rparr>)"

definition ringbuffer_used :: "RingBuffer \<Rightarrow> nat" where
  "ringbuffer_used rb = size_sub (rb_size rb) (rb_freeSize rb)"

definition ringbuffer_capacity :: "RingBuffer \<Rightarrow> nat" where
  "ringbuffer_capacity rb = rb_size rb"

text \<open>
  The copies into a fresh block: \<open>memcpy\<close> of \<open>n\<close> bytes from offset \<open>src\<close> of the old buffer to offset \<open>dst\<close>
  of the new one, \<open>None\<close> when a range leaves its block.
\<close>

definition copy_bytes :: "u8 list \<Rightarrow> nat \<Rightarrow> u8 list \<Rightarrow> nat \<Rightarrow> nat \<Rightarrow> u8 list option" where
  "copy_bytes new dst old src n =
     (if dst + n \<le> length new \<and> src + n \<le> length old then Some (blit new dst (take n (drop src old))) else None)"

definition ringbuffer_linearize :: "RingBuffer \<Rightarrow> u8 list \<Rightarrow> u8 list option" where
  "ringbuffer_linearize rb newData =
     (if rb_readPtr rb < rb_writePtr rb
      then copy_bytes newData 0 (rb_buffer rb) (rb_readPtr rb) (ringbuffer_used rb)
      else
        let upper = size_sub (rb_size rb) (rb_readPtr rb)
        in case copy_bytes newData 0 (rb_buffer rb) (rb_readPtr rb) upper of None \<Rightarrow> None
           | Some newData \<Rightarrow>
               if rb_writePtr rb \<noteq> 0 then copy_bytes newData upper (rb_buffer rb) 0 (rb_writePtr rb)
               else Some newData)"

definition ringbuffer_realloc :: "u8 alloc \<Rightarrow> RingBuffer \<Rightarrow> nat \<Rightarrow> (unit, RingBuffer) res" where
  "ringbuffer_realloc al rb targetSize =
     and_then
       (if rb_writePtr rb = rb_readPtr rb then
          (case realloc al (rb_buffer rb) targetSize of None \<Rightarrow> Fail rb
           | Some newData \<Rightarrow> Ok () (rb\<lparr>rb_readPtr := 0, rb_writePtr := 0, rb_buffer := newData\<rparr>))
        else if rb_writePtr rb \<ge> rb_readPtr rb \<and> rb_writePtr rb < targetSize then
          (case realloc al (rb_buffer rb) targetSize of None \<Rightarrow> Fail rb
           | Some newData \<Rightarrow> Ok () (rb\<lparr>rb_buffer := newData\<rparr>))
        else
          (case malloc al targetSize of None \<Rightarrow> Fail rb
           | Some newData \<Rightarrow>
               (case ringbuffer_linearize rb newData of None \<Rightarrow> Fault
                | Some newData \<Rightarrow>
                    Ok () (rb\<lparr>rb_writePtr := ringbuffer_used rb, rb_readPtr := 0, rb_buffer := newData\<rparr>))))
       (\<lambda>_ rb. Ok () (rb\<lparr>rb_freeSize := size_add (rb_freeSize rb) (size_sub targetSize (rb_size rb)),
                         rb_size := targetSize\<rparr>))"

text \<open>The bytes to write are the \<open>sz\<close> bytes at \<open>ptr\<close>.\<close>

definition ringbuffer_write :: "u8 alloc \<Rightarrow> RingBuffer \<Rightarrow> u8 list \<Rightarrow> (unit, RingBuffer) res" where
  "ringbuffer_write al rb ptr =
     (let sz = length ptr in
      and_then (if rb_freeSize rb \<le> sz then ringbuffer_realloc al rb (size_add (rb_size rb) sz) else Ok () rb)
        (\<lambda>_ rb.
           let toWrite = (if size_sub (rb_size rb) (rb_writePtr rb) < sz
                          then size_sub (rb_size rb) (rb_writePtr rb) else sz);
               remaining = sz - toWrite
           in if rb_size rb = 0 \<or> (toWrite \<noteq> 0 \<and> rb_writePtr rb + toWrite > length (rb_buffer rb)) \<or>
                 remaining > length (rb_buffer rb) then Fault
              else Ok () (rb\<lparr>rb_buffer := blit (blit (rb_buffer rb) (rb_writePtr rb) (take toWrite ptr)) 0
                                              (drop toWrite ptr),
                             rb_writePtr := size_add (rb_writePtr rb) sz mod rb_size rb,
                             rb_freeSize := size_sub (rb_freeSize rb) sz\<rparr>)))"

text \<open>The result is the offset at which the caller may write \<open>sz\<close> bytes.\<close>

definition ringbuffer_ensure_linear_write :: "u8 alloc \<Rightarrow> RingBuffer \<Rightarrow> nat \<Rightarrow> (nat, RingBuffer) res" where
  "ringbuffer_ensure_linear_write al rb sz =
     and_then
       (if rb_freeSize rb < sz
        then ringbuffer_realloc al rb (size_add (size_sub (size_add (rb_size rb) sz) (rb_freeSize rb)) 32)
        else Ok () rb)
       (\<lambda>_ rb.
          let rb = (if rb_writePtr rb = rb_readPtr rb then rb\<lparr>rb_writePtr := 0, rb_readPtr := 0\<rparr> else rb)
          in if size_add (rb_writePtr rb) sz < rb_size rb then Ok (rb_writePtr rb) rb
             else
               case copy_bytes (rb_buffer rb) 0 (rb_buffer rb) (rb_readPtr rb)
                      (size_sub (rb_writePtr rb) (rb_readPtr rb)) of
                 None \<Rightarrow> Fault
               | Some buffer \<Rightarrow>
                   let rb = rb\<lparr>rb_buffer := buffer, rb_readPtr := 0, rb_writePtr := ringbuffer_used rb\<rparr>
                   in Ok (rb_writePtr rb) rb)"

definition ringbuffer_commit_written_bytes :: "RingBuffer \<Rightarrow> nat \<Rightarrow> (unit, RingBuffer) res" where
  "ringbuffer_commit_written_bytes rb sz =
     (if sz < 1 then Ok () rb
      else if size_add (rb_writePtr rb) sz > rb_size rb then Fail rb
      else if rb_size rb = 0 then Fault
      else Ok () (rb\<lparr>rb_writePtr := size_add (rb_writePtr rb) sz mod rb_size rb,
                     rb_freeSize := size_sub (rb_freeSize rb) sz\<rparr>))"

text \<open>The chunks; their number is what the function returns.\<close>

definition ringbuffer_peek :: "RingBuffer \<Rightarrow> nat \<Rightarrow> DataChunk list" where
  "ringbuffer_peek rb sz =
     (if sz < 1 then []
      else
        let remaining = (if size_sub (rb_size rb) (rb_freeSize rb) < sz
                         then size_sub (rb_size rb) (rb_freeSize rb) else sz);
            toRead = (if size_add (rb_readPtr rb) remaining > rb_size rb
                      then size_sub (rb_size rb) (rb_readPtr rb) else remaining);
            left = remaining - toRead
        in (if toRead \<noteq> 0 then [\<lparr>dc_size = toRead, dc_data = rb_readPtr rb\<rparr>] else []) @
           (if left \<noteq> 0 then [\<lparr>dc_size = left, dc_data = 0\<rparr>] else []))"

text \<open>A failed assertion aborts the program, \<open>Fault\<close>. The result of shrinking is ignored.\<close>

definition ringbuffer_commit_read_bytes :: "u8 alloc \<Rightarrow> RingBuffer \<Rightarrow> nat \<Rightarrow> (unit, RingBuffer) res" where
  "ringbuffer_commit_read_bytes al rb sz =
     (if sz < 1 then Ok () rb
      else if \<not> size_sub (rb_size rb) (rb_freeSize rb) \<ge> sz then Fault
      else if rb_size rb = 0 then Fault
      else
        let rb = rb\<lparr>rb_readPtr := size_add (rb_readPtr rb) sz mod rb_size rb,
                    rb_freeSize := size_add (rb_freeSize rb) sz\<rparr>
        in if rb_size rb \<noteq> rb_initialSize rb \<and> ringbuffer_used rb < rb_initialSize rb div 2
           then (case ringbuffer_realloc al rb (rb_initialSize rb) of Fail rb \<Rightarrow> Ok () rb | r \<Rightarrow> r)
           else Ok () rb)"

section \<open>The ring buffer as a list of bytes\<close>

definition ring_contents :: "RingBuffer \<Rightarrow> u8 list" where
  "ring_contents rb =
     map (\<lambda>i. rb_buffer rb ! ((rb_readPtr rb + i) mod rb_size rb)) [0..<rb_size rb - rb_freeSize rb]"

text \<open>
  The buffer always keeps one byte free, so that equal positions mean an empty buffer.
\<close>

definition ring_ok :: "RingBuffer \<Rightarrow> bool" where
  "ring_ok rb \<longleftrightarrow> length (rb_buffer rb) = rb_size rb \<and> rb_readPtr rb < rb_size rb \<and>
     0 < rb_freeSize rb \<and> rb_freeSize rb \<le> rb_size rb \<and> rb_size rb < 2 ^ 63 \<and>
     rb_writePtr rb = (rb_readPtr rb + (rb_size rb - rb_freeSize rb)) mod rb_size rb \<and> 0 < rb_initialSize rb \<and>
     rb_initialSize rb < 2 ^ 63"

abbreviation ring_used :: "RingBuffer \<Rightarrow> nat" where
  "ring_used rb \<equiv> rb_size rb - rb_freeSize rb"

lemma length_ring_contents [simp]: "length (ring_contents rb) = ring_used rb"
  by (simp add: ring_contents_def)

lemma ring_nth:
  assumes "ring_ok rb" "i < ring_used rb"
  shows "ring_contents rb ! i = rb_buffer rb !
    (if rb_readPtr rb + i < rb_size rb then rb_readPtr rb + i else rb_readPtr rb + i - rb_size rb)"
  using assms by (simp add: ring_contents_def ring_ok_def wrap_index)

lemma ring_writePtr:
  assumes "ring_ok rb"
  shows "rb_writePtr rb =
    (if rb_readPtr rb + ring_used rb < rb_size rb then rb_readPtr rb + ring_used rb
     else rb_readPtr rb + ring_used rb - rb_size rb)"
proof -
  have "rb_readPtr rb < rb_size rb" "ring_used rb \<le> rb_size rb" using assms by (simp_all add: ring_ok_def)
  from wrap_index [OF this] assms show ?thesis unfolding ring_ok_def by metis
qed

text \<open>The contents are at most two runs of the buffer.\<close>

lemma ring_segments:
  assumes ok: "ring_ok rb"
  shows "ring_contents rb = take (ring_used rb) (drop (rb_readPtr rb) (rb_buffer rb)) @
    take (ring_used rb - (rb_size rb - rb_readPtr rb)) (rb_buffer rb)"
proof (rule nth_equalityI)
  show "length (ring_contents rb) = length (take (ring_used rb) (drop (rb_readPtr rb) (rb_buffer rb)) @
    take (ring_used rb - (rb_size rb - rb_readPtr rb)) (rb_buffer rb))"
    using ok by (auto simp: ring_ok_def min_def)
next
  fix i assume "i < length (ring_contents rb)"
  then have i: "i < ring_used rb" by simp
  show "ring_contents rb ! i = (take (ring_used rb) (drop (rb_readPtr rb) (rb_buffer rb)) @
    take (ring_used rb - (rb_size rb - rb_readPtr rb)) (rb_buffer rb)) ! i"
    unfolding ring_nth [OF ok i] using ok i by (auto simp: ring_ok_def nth_append min_def intro: arg_cong [where f = "(!) _"])
qed

lemma ring_empty_iff: "ring_ok rb \<Longrightarrow> rb_writePtr rb = rb_readPtr rb \<longleftrightarrow> ring_used rb = 0"
  using ring_writePtr [of rb] by (auto simp: ring_ok_def split: if_splits)

lemma ring_used_eq: "ring_ok rb \<Longrightarrow> ringbuffer_used rb = ring_used rb"
  by (simp add: ringbuffer_used_def ring_ok_def size_simps)

lemma resize_free:
  assumes "f \<le> s" "s < 2 ^ 63" "t < 2 ^ 63" "s - f \<le> t"
  shows "size_add f (size_sub t s) = t - (s - f)"
proof (cases "s \<le> t")
  case True
  then show ?thesis using assms by (simp add: size_simps)
next
  case False
  then have "f + (t + 2 ^ 64 - s) = (t - (s - f)) + 2 ^ 64" using assms by simp
  moreover have "t - (s - f) < 2 ^ 64" using assms by simp
  ultimately show ?thesis using False by (simp add: size_add_def size_sub_def)
qed

lemma copy_bytes_Some:
  "dst + n \<le> length new \<Longrightarrow> src + n \<le> length old \<Longrightarrow> copy_bytes new dst old src n = Some (blit new dst (take n (drop src old)))"
  by (simp add: copy_bytes_def)

text \<open>Copying into a fresh block puts the contents at its start.\<close>

lemma ring_facts:
  assumes "ring_ok rb"
  shows "length (rb_buffer rb) = rb_size rb" "rb_readPtr rb < rb_size rb" "0 < rb_freeSize rb"
    "rb_freeSize rb \<le> rb_size rb" "rb_size rb < 2 ^ 63" "ring_used rb < rb_size rb"
  using assms by (auto simp: ring_ok_def)

lemma ring_writePtr_cases:
  assumes ok: "ring_ok rb"
  obtains (linear) "rb_readPtr rb + ring_used rb < rb_size rb" "rb_writePtr rb = rb_readPtr rb + ring_used rb"
  | (wrapped) "rb_size rb \<le> rb_readPtr rb + ring_used rb" "rb_writePtr rb = rb_readPtr rb + ring_used rb - rb_size rb"
      "rb_writePtr rb < rb_readPtr rb" "ring_used rb = rb_size rb - rb_readPtr rb + rb_writePtr rb"
proof (cases "rb_readPtr rb + ring_used rb < rb_size rb")
  case True
  then show ?thesis using linear ring_writePtr [OF ok] by simp
next
  case False
  then have w: "rb_writePtr rb = rb_readPtr rb + ring_used rb - rb_size rb" using ring_writePtr [OF ok] by simp
  then show ?thesis using False wrapped ring_facts [OF ok] by linarith
qed

lemma linearize_upper:
  assumes "r < s" "length b = s" "w < r" "s - r + w \<le> length new"
  shows "\<exists>n. copy_bytes new 0 b r (s - r) = Some n \<and>
    (if w \<noteq> 0 then copy_bytes n (s - r) b 0 w else Some n) = Some (blit new 0 (drop r b @ take w b))"
proof -
  have tk: "take (s - r) (drop r b) = drop r b" "length (drop r b) = s - r" using assms(2) by simp_all
  let ?n = "blit new 0 (drop r b)"
  have h: "0 + length (drop r b) \<le> length new" "s - r = 0 + length (drop r b)" using assms(4) unfolding tk(2) by linarith+
  have n1: "copy_bytes new 0 b r (s - r) = Some ?n" 
    using copy_bytes_Some [of 0 "s - r" new r b] assms(1,4) unfolding tk(1) assms(2) by simp
  have ln: "length ?n = length new" using h(1) by (rule length_blit)
  have "copy_bytes ?n (s - r) b 0 w = Some (blit ?n (s - r) (take w b))"
    using copy_bytes_Some [of "s - r" w ?n 0 b] assms(1,3,4) unfolding ln assms(2) by simp
  also have "blit ?n (s - r) (take w b) = blit new 0 (drop r b @ take w b)" by (rule blit_blit [OF h])
  finally show ?thesis using n1 by (cases "w = 0") auto
qed

lemma linear_copy:
  assumes "r + u \<le> length b" "u \<le> length new"
  shows "\<exists>n. copy_bytes new 0 b r u = Some n \<and> length n = length new \<and> take u n = take u (drop r b)"
proof -
  have len: "length (take u (drop r b)) = u" using assms(1) by simp
  have "take u (blit new 0 (take u (drop r b))) = take 0 new @ take u (drop r b)"
    by (rule take_blit_full) (simp_all only: len)
  moreover have "length (blit new 0 (take u (drop r b))) = length new" using assms(2) by (simp only: length_blit len)
  ultimately show ?thesis using copy_bytes_Some [of 0 u new r b] assms by simp
qed

lemma wrapped_copy:
  assumes "r < s" "length b = s" "w < r" "s - r + w \<le> length new"
  shows "\<exists>n m. copy_bytes new 0 b r (s - r) = Some n \<and> (if w \<noteq> 0 then copy_bytes n (s - r) b 0 w else Some n) = Some m \<and>
    length m = length new \<and> take (s - r + w) m = drop r b @ take w b"
proof -
  let ?c = "drop r b @ take w b"
  have len: "length ?c = s - r + w" using assms(1,3) by (simp add: assms(2))
  have "take (s - r + w) (blit new 0 ?c) = take 0 new @ ?c" by (rule take_blit_full) (simp_all only: len)
  moreover have "length (blit new 0 ?c) = length new" using assms(4) by (simp only: length_blit len)
  ultimately show ?thesis using linearize_upper [OF assms] by auto
qed

lemma linearize_contents:
  assumes ok: "ring_ok rb" and u: "ring_used rb \<noteq> 0" and n: "ring_used rb \<le> length new"
  shows "\<exists>b. ringbuffer_linearize rb new = Some b \<and> length b = length new \<and> take (ring_used rb) b = ring_contents rb"
proof -
  note f = ring_facts [OF ok]
  from ok show ?thesis
  proof (cases rule: ring_writePtr_cases)
    case linear
    then have "rb_readPtr rb < rb_writePtr rb" using u by linarith
    moreover have "rb_readPtr rb + ring_used rb \<le> length (rb_buffer rb)" using linear(1) f(1) by linarith
    from linear_copy [OF this n] have "\<exists>b. copy_bytes new 0 (rb_buffer rb) (rb_readPtr rb) (ring_used rb) = Some b \<and>
      length b = length new \<and> take (ring_used rb) b = ring_contents rb"
      unfolding ring_segments [OF ok] using linear(1) by simp
    ultimately show ?thesis by (simp add: ringbuffer_linearize_def ring_used_eq [OF ok])
  next
    case wrapped
    have "size_sub (rb_size rb) (rb_readPtr rb) = rb_size rb - rb_readPtr rb" using f(2) by (simp add: size_simps)
    moreover have "ring_contents rb = drop (rb_readPtr rb) (rb_buffer rb) @ take (rb_writePtr rb) (rb_buffer rb)"
      unfolding ring_segments [OF ok] wrapped(4) by (simp add: f(1))
    ultimately show ?thesis using wrapped_copy [OF f(2,1) wrapped(3) n [unfolded wrapped(4)]] wrapped(3)
      unfolding wrapped(4) ringbuffer_linearize_def Let_def by (auto split: option.splits)
  qed
qed

lemma ring_linear_iff:
  assumes ok: "ring_ok rb"
  shows "rb_readPtr rb \<le> rb_writePtr rb \<longleftrightarrow>
    rb_writePtr rb = rb_readPtr rb + ring_used rb \<and> rb_readPtr rb + ring_used rb < rb_size rb"
  using ok by (rule ring_writePtr_cases) linarith+

text \<open>A buffer without wrap-around, from its fields.\<close>

lemma ring_linear:
  assumes "r + u < s" "length b = s" "s < 2 ^ 63" "0 < i" "i < 2 ^ 63"
  shows "ring_ok \<lparr>rb_initialSize = i, rb_freeSize = s - u, rb_size = s, rb_readPtr = r, rb_writePtr = r + u, rb_buffer = b\<rparr>"
    "ring_contents \<lparr>rb_initialSize = i, rb_freeSize = s - u, rb_size = s, rb_readPtr = r, rb_writePtr = r + u, rb_buffer = b\<rparr> =
     take u (drop r b)"
proof -
  let ?rb = "\<lparr>rb_initialSize = i, rb_freeSize = s - u, rb_size = s, rb_readPtr = r, rb_writePtr = r + u, rb_buffer = b\<rparr>"
  show ok: "ring_ok ?rb" using assms by (simp add: ring_ok_def)
  show "ring_contents ?rb = take u (drop r b)" using ring_segments [OF ok] assms(1) by simp
qed

definition resized :: "RingBuffer \<Rightarrow> nat \<Rightarrow> RingBuffer \<Rightarrow> bool" where
  "resized rb target t \<longleftrightarrow> ring_ok t \<and> ring_contents t = ring_contents rb \<and> rb_size t = target \<and>
     rb_freeSize t = target - ring_used rb \<and> rb_initialSize t = rb_initialSize rb"

lemma ringbuffer_realloc_wp:
  assumes ok: "ring_ok rb" and t: "ring_used rb < target" "target < 2 ^ 63"
  shows "wp (ringbuffer_realloc al rb target) (\<lambda>_. resized rb target) (\<lambda>t. t = rb \<and> al = None)"
proof (cases al)
  case None
  then show ?thesis by (simp add: ringbuffer_realloc_def realloc_def malloc_def)
next
  case (Some g)
  note f = ring_facts [OF ok]
  let ?u = "ring_used rb" and ?i = "rb_initialSize rb"
  have i: "0 < ?i" "?i < 2 ^ 63" using ok by (simp_all add: ring_ok_def)
  have free: "size_add (rb_freeSize rb) (size_sub target (rb_size rb)) = target - ?u"
    using f t by (intro resize_free) simp_all
  have result: "resized rb target (x\<lparr>rb_freeSize := target - ?u, rb_size := target\<rparr>)"
    if "rb_initialSize x = ?i" "rb_writePtr x = rb_readPtr x + ?u" "rb_readPtr x + ?u < target" "length (rb_buffer x) = target"
      "take ?u (drop (rb_readPtr x) (rb_buffer x)) = ring_contents rb" for x
    using ring_linear [OF that(3,4) t(2) i] that by (cases x) (simp add: resized_def)
  obtain nb where nb: "realloc al (rb_buffer rb) target = Some nb" using Some by (simp add: realloc_def)
  obtain mb where mb: "malloc al target = Some mb" using Some by (simp add: malloc_def)
  have lens: "length nb = target" "length mb = target" using realloc_length [OF nb] malloc_length [OF mb] .
  show ?thesis
  proof (cases "rb_writePtr rb = rb_readPtr rb")
    case True
    let ?x = "rb\<lparr>rb_readPtr := 0, rb_writePtr := 0, rb_buffer := nb\<rparr>"
    have u: "?u = 0" "ring_contents rb = []" using True ring_empty_iff [OF ok] by (simp_all flip: length_0_conv)
    have "resized rb target (?x\<lparr>rb_freeSize := target - ?u, rb_size := target\<rparr>)"
      by (rule result) (simp_all add: u lens del: diff_is_0_eq, use t(1) u(1) in linarith)
    then show ?thesis by (simp add: ringbuffer_realloc_def True nb free del: diff_is_0_eq)
  next
    case ne: False
    then have u: "?u \<noteq> 0" using ring_empty_iff [OF ok] by simp
    show ?thesis
    proof (cases "rb_writePtr rb \<ge> rb_readPtr rb \<and> rb_writePtr rb < target")
      case True
      have w: "rb_writePtr rb = rb_readPtr rb + ?u" "rb_readPtr rb + ?u < rb_size rb"
        using ring_linear_iff [OF ok] True by blast+
      have k: "rb_readPtr rb + ?u \<le> target" "rb_readPtr rb + ?u \<le> length (rb_buffer rb)" using True w f(1) by linarith+
      have "take ?u (drop (rb_readPtr rb) nb) = take ?u (drop (rb_readPtr rb) (rb_buffer rb))"
        using realloc_take [OF nb k] by (metis add.commute take_drop)
      moreover have "ring_contents rb = take ?u (drop (rb_readPtr rb) (rb_buffer rb))"
        using ring_segments [OF ok] w(2) by simp
      ultimately have "resized rb target (rb\<lparr>rb_buffer := nb\<rparr>\<lparr>rb_freeSize := target - ?u, rb_size := target\<rparr>)"
        using w(1) True lens by (intro result) simp_all
      then show ?thesis using True ne by (simp add: ringbuffer_realloc_def nb free)
    next
      case False
      from linearize_contents [OF ok u, of mb] t(1) lens obtain b where
        b: "ringbuffer_linearize rb mb = Some b" "length b = target" "take ?u b = ring_contents rb" by auto
      have "resized rb target (rb\<lparr>rb_writePtr := ?u, rb_readPtr := 0, rb_buffer := b\<rparr>\<lparr>rb_freeSize := target - ?u, rb_size := target\<rparr>)"
        using b t(1) by (intro result) simp_all
      then show ?thesis unfolding ringbuffer_realloc_def if_not_P [OF False] if_not_P [OF ne] mb
        by (simp add: b(1) ring_used_eq [OF ok] free)
    qed
  qed
qed

lemma ring_index:
  assumes "(r :: nat) < s" "u + n < s" "i < u + n" "w = (if r + u < s then r + u else r + u - s)"
    "tw = (if s - w < n then s - w else n)" "k = (if r + i < s then r + i else r + i - s)"
  shows "i < u \<Longrightarrow> \<not> k < n - tw" "i < u \<Longrightarrow> \<not> (w \<le> k \<and> k < w + tw)"
    "\<not> i < u \<Longrightarrow> k < n - tw \<Longrightarrow> tw + k = i - u" "\<not> i < u \<Longrightarrow> \<not> k < n - tw \<Longrightarrow> w \<le> k \<and> k < w + tw \<and> k - w = i - u"
proof -
  have w: "r + u < s \<and> w = r + u \<or> s \<le> r + u \<and> w = r + u - s"
    using assms(4) by (cases "r + u < s") simp_all
  have tw: "s - w < n \<and> tw = s - w \<or> n \<le> s - w \<and> tw = n" using assms(5) by (cases "s - w < n") simp_all
  have k: "r + i < s \<and> k = r + i \<or> s \<le> r + i \<and> k = r + i - s" using assms(6) by (cases "r + i < s") simp_all
  show "i < u \<Longrightarrow> \<not> k < n - tw" "i < u \<Longrightarrow> \<not> (w \<le> k \<and> k < w + tw)"
    "\<not> i < u \<Longrightarrow> k < n - tw \<Longrightarrow> tw + k = i - u" "\<not> i < u \<Longrightarrow> \<not> k < n - tw \<Longrightarrow> w \<le> k \<and> k < w + tw \<and> k - w = i - u"
    using assms(1-3) w tw k by linarith+
qed

text \<open>Writing \<open>sz\<close> bytes at the write position, in two parts when they reach the end of the buffer.\<close>

lemma ring_put_nth:
  assumes "length b = s" "w < s" "length p < s" "k < s"
    and tw: "tw = (if s - w < length p then s - w else length p)"
  shows "blit (blit b w (take tw p)) 0 (drop tw p) ! k =
    (if k < length p - tw then p ! (tw + k) else if w \<le> k \<and> k < w + tw then p ! (k - w) else b ! k)"
proof -
  have l: "length (take tw p) = tw" "length (drop tw p) = length p - tw" "w + tw \<le> length b" "tw \<le> length p"
    using assms by (auto split: if_splits)
  have lb: "length (blit b w (take tw p)) = s" using l assms(1) by simp
  have "0 + length (drop tw p) \<le> length (blit b w (take tw p))" using lb l assms(3) by simp
  from nth_blit [OF this, of k] nth_blit [of w "take tw p" b k] lb l assms(1,4) show ?thesis by auto
qed

lemma ring_put:
  assumes ok: "ring_ok rb" and sz: "length p < rb_freeSize rb"
    and tw: "tw = (if rb_size rb - rb_writePtr rb < length p then rb_size rb - rb_writePtr rb else length p)"
  defines "t \<equiv> rb\<lparr>rb_buffer := blit (blit (rb_buffer rb) (rb_writePtr rb) (take tw p)) 0 (drop tw p),
    rb_writePtr := (rb_writePtr rb + length p) mod rb_size rb, rb_freeSize := rb_freeSize rb - length p\<rparr>"
  shows "ring_ok t" "ring_contents t = ring_contents rb @ p"
proof -
  note f = ring_facts [OF ok]
  let ?r = "rb_readPtr rb" and ?w = "rb_writePtr rb" and ?s = "rb_size rb" and ?u = "ring_used rb"
  have w: "?w < ?s" using ok f(2) by (simp add: ring_ok_def)
  have ut: "ring_used t = ?u + length p" using sz f(4) by (simp add: t_def)
  have "(?w + length p) mod ?s = (?r + (?u + length p)) mod ?s"
    using ok unfolding ring_ok_def by (metis add.assoc mod_add_left_eq)
  moreover have l: "length (take tw p) = tw" "length (drop tw p) = length p - tw" "?w + tw \<le> ?s"
    using tw w by (auto split: if_splits)
  then have "length (rb_buffer t) = ?s" using f(1) sz f(4) by (simp add: t_def)
  ultimately show okt: "ring_ok t" using ok sz ut f(4) unfolding ring_ok_def by (simp add: t_def)
  show "ring_contents t = ring_contents rb @ p"
  proof (rule nth_equalityI)
    show "length (ring_contents t) = length (ring_contents rb @ p)" using ut by simp
  next
    fix i assume "i < length (ring_contents t)"
    then have i: "i < ring_used t" "i < ?u + length p" using ut by simp_all
    let ?k = "if ?r + i < ?s then ?r + i else ?r + i - ?s"
    have k: "?k < ?s" using i(2) f sz by auto
    have n: "rb_buffer t ! ?k = (if ?k < length p - tw then p ! (tw + ?k)
        else if ?w \<le> ?k \<and> ?k < ?w + tw then p ! (?k - ?w) else rb_buffer rb ! ?k)"
      using ring_put_nth [OF f(1) w _ k tw] sz f(4) by (simp add: t_def)
    have "ring_contents t ! i = rb_buffer t ! ?k" using ring_nth [OF okt i(1)] by (simp add: t_def)
    also have "\<dots> = (ring_contents rb @ p) ! i"
    proof -
      have un: "?u + length p < ?s" using sz f(4) by linarith
      note ix = ring_index [OF f(2) un i(2) ring_writePtr [OF ok] tw refl]
      show ?thesis
      proof (cases "i < ?u")
        case True
        then show ?thesis unfolding n if_not_P [OF ix(1) [OF True]] if_not_P [OF ix(2) [OF True]]
          using ring_nth [OF ok True] by (simp add: nth_append)
      next
        case False
        then have "(ring_contents rb @ p) ! i = p ! (i - ?u)" by (simp add: nth_append)
        moreover have "?k < length p - tw \<or> ?w \<le> ?k \<and> ?k < ?w + tw \<and> \<not> ?k < length p - tw" using ix(4) [OF False] by blast
        ultimately show ?thesis unfolding n using ix(3,4) [OF False] by metis
      qed
    qed
    finally show "ring_contents t ! i = (ring_contents rb @ p) ! i" .
  qed
qed

text \<open>No block is larger than \<open>PTRDIFF_MAX\<close>: the allocator refuses such a request.\<close>

definition bounded_alloc :: "'a alloc \<Rightarrow> nat \<Rightarrow> 'a alloc" where
  "bounded_alloc al n = (if n < 2 ^ 63 then al else None)"

lemma ringbuffer_write_fits:
  assumes ok: "ring_ok rb" and sz: "length p < rb_freeSize rb"
  shows "\<exists>t. ringbuffer_write al rb p = Ok () t \<and> ring_ok t \<and> ring_contents t = ring_contents rb @ p \<and>
    rb_initialSize t = rb_initialSize rb"
proof -
  note f = ring_facts [OF ok]
  have w: "rb_writePtr rb < rb_size rb" using ok f(2) by (simp add: ring_ok_def)
  have s: "size_sub (rb_size rb) (rb_writePtr rb) = rb_size rb - rb_writePtr rb"
    "size_add (rb_writePtr rb) (length p) = rb_writePtr rb + length p" "size_sub (rb_freeSize rb) (length p) = rb_freeSize rb - length p"
    using w f sz by (simp_all add: size_simps)
  define tw where "tw = (if rb_size rb - rb_writePtr rb < length p then rb_size rb - rb_writePtr rb else length p)"
  have b: "\<not> (rb_size rb = 0 \<or> tw \<noteq> 0 \<and> rb_writePtr rb + tw > length (rb_buffer rb) \<or> length p - tw > length (rb_buffer rb))"
    "\<not> rb_freeSize rb \<le> length p"
    using f sz w unfolding tw_def by (auto split: if_splits)
  note t = ring_put [OF ok sz tw_def]
  show ?thesis
    unfolding ringbuffer_write_def Let_def if_not_P [OF b(2)] and_then.simps s tw_def [symmetric] if_not_P [OF b(1)]
    using t by simp
qed

lemma ringbuffer_write_wp:
  assumes ok: "ring_ok rb"
  shows "wp (ringbuffer_write (bounded_alloc al (rb_size rb + length p)) rb p)
    (\<lambda>_ t. ring_ok t \<and> ring_contents t = ring_contents rb @ p \<and> rb_initialSize t = rb_initialSize rb)
    (\<lambda>t. t = rb \<and> bounded_alloc al (rb_size rb + length p) = None)"
proof (cases "rb_freeSize rb \<le> length p")
  case False
  with ringbuffer_write_fits [OF ok, of p "bounded_alloc al (rb_size rb + length p)"] show ?thesis by auto
next
  case True
  note f = ring_facts [OF ok]
  show ?thesis
  proof (cases "rb_size rb + length p < 2 ^ 63 \<and> al \<noteq> None")
    case False
    then have n: "bounded_alloc al (rb_size rb + length p) = None" by (auto simp: bounded_alloc_def)
    have "ringbuffer_realloc None rb x = Fail rb" for x by (simp add: ringbuffer_realloc_def realloc_def malloc_def)
    then show ?thesis unfolding n by (simp add: ringbuffer_write_def True)
  next
    case g: True
    let ?n = "rb_size rb + length p"
    have al: "bounded_alloc al ?n = al" "size_add (rb_size rb) (length p) = ?n" "ring_used rb < ?n"
      using g f by (simp_all add: bounded_alloc_def size_simps)
    from ringbuffer_realloc_wp [OF ok al(3), of al] g obtain t where
      t: "ringbuffer_realloc al rb ?n = Ok () t" "resized rb ?n t" by (cases "ringbuffer_realloc al rb ?n") auto
    then have sz: "ring_ok t" "length p < rb_freeSize t" "ring_contents t = ring_contents rb" "rb_initialSize t = rb_initialSize rb"
      using f by (auto simp: resized_def)
    from ringbuffer_write_fits [OF sz(1,2), of al] obtain v where
      v: "ringbuffer_write al t p = Ok () v" "ring_ok v" "ring_contents v = ring_contents t @ p" "rb_initialSize v = rb_initialSize t" by blast
    have "ringbuffer_write al rb p = ringbuffer_write al t p"
      using True t(1) sz(2) by (simp add: ringbuffer_write_def al(2))
    then show ?thesis using v sz(3,4) by (simp add: al(1))
  qed
qed

definition chunk_bytes :: "RingBuffer \<Rightarrow> DataChunk \<Rightarrow> u8 list" where
  "chunk_bytes rb c = take (dc_size c) (drop (dc_data c) (rb_buffer rb))"

lemma ringbuffer_peek_bytes:
  assumes ok: "ring_ok rb"
  shows "concat (map (chunk_bytes rb) (ringbuffer_peek rb sz)) = take sz (ring_contents rb)"
    "length (ringbuffer_peek rb sz) \<le> 2" "\<forall>c \<in> set (ringbuffer_peek rb sz). dc_data c + dc_size c \<le> rb_size rb \<and> 0 < dc_size c"
proof -
  note f = ring_facts [OF ok]
  let ?u = "ring_used rb" and ?r = "rb_readPtr rb" and ?s = "rb_size rb" and ?b = "rb_buffer rb"
  have s: "size_sub ?s (rb_freeSize rb) = ?u" "size_sub ?s ?r = ?s - ?r" using f by (simp_all add: size_simps)
  define m where "m = (if ?u < sz then ?u else sz)"
  have m: "m \<le> ?u" "m \<le> sz" "take sz (ring_contents rb) = take m (ring_contents rb)"
    by (auto simp: m_def)
  have a: "size_add ?r m = ?r + m" using f m(1) by (simp add: size_simps)
  define n where "n = (if ?r + m > ?s then ?s - ?r else m)"
  have n: "n \<le> m" "?r + n \<le> ?s" "m - n \<le> ?r" "n = ?s - ?r \<or> n = m" using f m(1) by (auto simp: n_def)
  have p: "ringbuffer_peek rb sz = (if sz < 1 then [] else
      (if n \<noteq> 0 then [\<lparr>dc_size = n, dc_data = ?r\<rparr>] else []) @ (if m - n \<noteq> 0 then [\<lparr>dc_size = m - n, dc_data = 0\<rparr>] else []))"
    unfolding ringbuffer_peek_def Let_def s m_def [symmetric] a n_def [symmetric] ..
  have "take m (ring_contents rb) = take n (drop ?r ?b) @ take (m - n) ?b"
  proof (cases "?r + m > ?s")
    case True
    then have "n = ?s - ?r" "n \<le> ?u" using m(1) by (auto simp: n_def)
    moreover have "length (drop ?r ?b) = ?s - ?r" using f(1) by simp
    moreover have "take (m - n) (take (?u - n) ?b) = take (m - n) ?b" using m(1) by (simp add: min_def)
    moreover have "take m (take ?u (drop ?r ?b)) = take n (drop ?r ?b)" using calculation n(1) by simp
    ultimately show ?thesis unfolding ring_segments [OF ok] by (simp add: min_absorb2)
  next
    case False
    then have "n = m" "m \<le> length (drop ?r ?b)" using f(1) by (auto simp: n_def)
    then show ?thesis unfolding ring_segments [OF ok] using m(1) by (simp add: min_def)
  qed
  then have "concat (map (chunk_bytes rb) (ringbuffer_peek rb sz)) = take m (ring_contents rb)"
    unfolding p using m(2) by (auto simp: chunk_bytes_def)
  then show "concat (map (chunk_bytes rb) (ringbuffer_peek rb sz)) = take sz (ring_contents rb)" using m(3) by simp
  show "length (ringbuffer_peek rb sz) \<le> 2" unfolding p by simp
  show "\<forall>c \<in> set (ringbuffer_peek rb sz). dc_data c + dc_size c \<le> rb_size rb \<and> 0 < dc_size c"
    unfolding p using n f(2) by auto
qed

lemma ring_advance:
  assumes ok: "ring_ok rb" and sz: "sz \<le> ring_used rb"
  defines "t \<equiv> rb\<lparr>rb_readPtr := (rb_readPtr rb + sz) mod rb_size rb, rb_freeSize := rb_freeSize rb + sz\<rparr>"
  shows "ring_ok t" "ring_contents t = drop sz (ring_contents rb)"
proof -
  note f = ring_facts [OF ok]
  have u: "ring_used t = ring_used rb - sz" by (simp add: t_def)
  have "((rb_readPtr rb + sz) mod rb_size rb + (ring_used rb - sz)) mod rb_size rb = (rb_readPtr rb + ring_used rb) mod rb_size rb"
    using sz unfolding mod_add_left_eq by (simp only: add.assoc le_add_diff_inverse)
  then show "ring_ok t" using ok sz f u unfolding ring_ok_def by (simp add: t_def)
  show "ring_contents t = drop sz (ring_contents rb)"
    by (rule nth_equalityI) (use sz u in \<open>auto simp: ring_contents_def t_def mod_add_left_eq add.assoc\<close>)
qed

lemma ringbuffer_commit_read_wp:
  assumes ok: "ring_ok rb" and sz: "sz \<le> ring_used rb"
  shows "\<exists>t. ringbuffer_commit_read_bytes al rb sz = Ok () t \<and> ring_ok t \<and> ring_contents t = drop sz (ring_contents rb)"
proof (cases "sz < 1")
  case True
  then show ?thesis using ok by (simp add: ringbuffer_commit_read_bytes_def)
next
  case False
  note f = ring_facts [OF ok]
  let ?t = "rb\<lparr>rb_readPtr := (rb_readPtr rb + sz) mod rb_size rb, rb_freeSize := rb_freeSize rb + sz\<rparr>"
  note t = ring_advance [OF ok sz]
  have s: "size_sub (rb_size rb) (rb_freeSize rb) = ring_used rb" "size_add (rb_readPtr rb) sz = rb_readPtr rb + sz"
    "size_add (rb_freeSize rb) sz = rb_freeSize rb + sz" "rb_size rb \<noteq> 0" "ring_used rb \<ge> sz"
    using f sz by (simp_all add: size_simps)
  let ?shrink = "rb_size ?t \<noteq> rb_initialSize ?t \<and> ringbuffer_used ?t < rb_initialSize ?t div 2"
  have c: "ringbuffer_commit_read_bytes al rb sz =
    (if ?shrink then (case ringbuffer_realloc al ?t (rb_initialSize ?t) of Fail rb \<Rightarrow> Ok () rb | r \<Rightarrow> r) else Ok () ?t)"
    unfolding ringbuffer_commit_read_bytes_def Let_def s(1,2,3) using False s(4,5) by simp
  show ?thesis
  proof (cases ?shrink)
    case True
    have i: "ring_used ?t < rb_initialSize ?t" "rb_initialSize ?t < 2 ^ 63"
      using True ring_used_eq [OF t(1)] ok by (linarith, simp add: ring_ok_def)
    from ringbuffer_realloc_wp [OF t(1) i, of al] t show ?thesis
      unfolding c if_P [OF True] by (cases "ringbuffer_realloc al ?t (rb_initialSize ?t)") (auto simp: resized_def)
  next
    case False
    then show ?thesis unfolding c if_not_P [OF False] using t by blast
  qed
qed

text \<open>An empty buffer may start again at offset 0.\<close>

lemma ring_restart:
  assumes ok: "ring_ok rb"
  defines "t \<equiv> (if rb_writePtr rb = rb_readPtr rb then rb\<lparr>rb_writePtr := 0, rb_readPtr := 0\<rparr> else rb)"
  shows "ring_ok t" "ring_contents t = ring_contents rb" "rb_size t = rb_size rb" "rb_freeSize t = rb_freeSize rb"
proof -
  show s: "rb_size t = rb_size rb" "rb_freeSize t = rb_freeSize rb" by (simp_all add: t_def)
  show "ring_ok t" using ok ring_empty_iff [OF ok] by (auto simp: t_def ring_ok_def)
  show "ring_contents t = ring_contents rb"
    using ring_empty_iff [OF ok] by (auto simp: t_def ring_contents_def)
qed

definition linear_room :: "RingBuffer \<Rightarrow> nat \<Rightarrow> nat \<Rightarrow> RingBuffer \<Rightarrow> bool" where
  "linear_room rb sz off t \<longleftrightarrow> ring_ok t \<and> ring_contents t = ring_contents rb \<and> off = rb_writePtr t \<and>
     off + sz \<le> rb_size t \<and> sz \<le> rb_freeSize t"

lemma linear_write_fits:
  assumes ok: "ring_ok rb" and sz: "sz \<le> rb_freeSize rb"
  shows "\<exists>off t. ringbuffer_ensure_linear_write al rb sz = Ok off t \<and> linear_room rb sz off t"
proof -
  define x where "x = (if rb_writePtr rb = rb_readPtr rb then rb\<lparr>rb_writePtr := 0, rb_readPtr := 0\<rparr> else rb)"
  note x = ring_restart [OF ok, folded x_def] note f = ring_facts [OF x(1)]
  have w: "rb_writePtr x < rb_size x" using x(1) f(2) by (simp add: ring_ok_def)
  have a: "size_add (rb_writePtr x) sz = rb_writePtr x + sz" using w f sz x(3,4) by (simp add: size_simps)
  let ?tail = "case copy_bytes (rb_buffer x) 0 (rb_buffer x) (rb_readPtr x) (size_sub (rb_writePtr x) (rb_readPtr x)) of
      None \<Rightarrow> Fault
    | Some buffer \<Rightarrow> let rb = x\<lparr>rb_buffer := buffer, rb_readPtr := 0, rb_writePtr := ringbuffer_used x\<rparr> in Ok (rb_writePtr rb) rb"
  have e: "ringbuffer_ensure_linear_write al rb sz =
      (if rb_writePtr x + sz < rb_size x then Ok (rb_writePtr x) x else ?tail)"
    unfolding ringbuffer_ensure_linear_write_def Let_def x_def [symmetric] if_not_P [OF leD [OF sz]] and_then.simps a ..
  show ?thesis
  proof (cases "rb_writePtr x + sz < rb_size x")
    case True
    then show ?thesis unfolding e if_P [OF True] using x sz by (simp add: linear_room_def)
  next
    case False
    have lin: "rb_writePtr x = rb_readPtr x + ring_used x" "rb_readPtr x + ring_used x < rb_size x"
      using x(1) by (rule ring_writePtr_cases; use False sz x(3,4) f in linarith)+
    have "rb_readPtr x + ring_used x \<le> length (rb_buffer x)" "ring_used x \<le> length (rb_buffer x)" using lin(2) f(1) by linarith+
    from linear_copy [OF this] obtain b where
      b: "copy_bytes (rb_buffer x) 0 (rb_buffer x) (rb_readPtr x) (ring_used x) = Some b" "length b = rb_size x"
        "take (ring_used x) b = take (ring_used x) (drop (rb_readPtr x) (rb_buffer x))" using f(1) by auto
    have d: "size_sub (rb_writePtr x) (rb_readPtr x) = ring_used x" unfolding lin(1) by (simp add: size_simps)
    let ?t = "x\<lparr>rb_buffer := b, rb_readPtr := 0, rb_writePtr := ring_used x\<rparr>"
    have z: "0 + ring_used x < rb_size x" "0 < rb_initialSize x" "rb_initialSize x < 2 ^ 63"
      using f x(1) by (simp_all add: ring_ok_def)
    have "rb_size x - ring_used x = rb_freeSize x" using f by simp
    then have "ring_ok ?t" "ring_contents ?t = take (ring_used x) b"
      using ring_linear [OF z(1) b(2) f(5) z(2,3)] by (cases x; simp)+
    moreover have "ring_contents x = take (ring_used x) b" unfolding ring_segments [OF x(1)] b(3) using lin(2) by simp
    moreover have "ring_used x + sz \<le> rb_size x" using f sz x(4) by linarith
    ultimately show ?thesis unfolding e if_not_P [OF False] d b(1) using x(2,4) sz
      by (simp add: linear_room_def ring_used_eq [OF x(1)])
  qed
qed

lemma linear_write_wp:
  assumes ok: "ring_ok rb" and n: "rb_size rb + sz + 32 < 2 ^ 63"
  shows "wp (ringbuffer_ensure_linear_write al rb sz) (linear_room rb sz) (\<lambda>t. t = rb \<and> al = None)"
proof (cases "rb_freeSize rb < sz")
  case False
  with linear_write_fits [OF ok, of sz al] show ?thesis by auto
next
  case True
  note f = ring_facts [OF ok]
  let ?n = "ring_used rb + sz + 32"
  have s: "size_add (size_sub (size_add (rb_size rb) sz) (rb_freeSize rb)) 32 = ?n"
    using f n by (simp add: size_simps)
  have b: "ring_used rb < ?n" "?n < 2 ^ 63" using n by simp_all
  show ?thesis
  proof (cases "ringbuffer_realloc al rb ?n")
    case (Ok a t)
    then have t: "resized rb ?n t" using ringbuffer_realloc_wp [OF ok b, of al] by simp
    then have sz: "ring_ok t" "sz \<le> rb_freeSize t" "ring_contents t = ring_contents rb" by (auto simp: resized_def)
    have "ringbuffer_ensure_linear_write al rb sz = ringbuffer_ensure_linear_write al t sz"
      using True Ok sz(2) by (simp add: ringbuffer_ensure_linear_write_def s)
    then show ?thesis using linear_write_fits [OF sz(1,2), of al] sz(3) by (auto simp: linear_room_def)
  qed (use ringbuffer_realloc_wp [OF ok b, of al] True in \<open>auto simp: ringbuffer_ensure_linear_write_def s\<close>)
qed

lemma commit_written:
  assumes t: "linear_room rb sz off t" and p: "length p \<le> sz" "length p < rb_freeSize t"
  shows "\<exists>v. ringbuffer_commit_written_bytes (t\<lparr>rb_buffer := blit (rb_buffer t) off p\<rparr>) (length p) = Ok () v \<and>
    ring_ok v \<and> ring_contents v = ring_contents rb @ p"
proof -
  have ok: "ring_ok t" and c: "ring_contents t = ring_contents rb" and w: "off = rb_writePtr t" "off + length p \<le> rb_size t"
    using t p(1) by (auto simp: linear_room_def)
  note f = ring_facts [OF ok]
  have tw: "length p = (if rb_size t - rb_writePtr t < length p then rb_size t - rb_writePtr t else length p)"
  proof -
    have "\<not> rb_size t - rb_writePtr t < length p" using w by linarith
    then show ?thesis by simp
  qed
  note v = ring_put [OF ok p(2) tw]
  have s: "size_add (rb_writePtr t) (length p) = rb_writePtr t + length p"
    "size_sub (rb_freeSize t) (length p) = rb_freeSize t - length p" using w f p(2) by (simp_all add: size_simps)
  show ?thesis
  proof (cases "p = []")
    case True
    then show ?thesis using ok c by (simp add: ringbuffer_commit_written_bytes_def)
  next
    case False
    then show ?thesis using v w c f s by (simp add: ringbuffer_commit_written_bytes_def)
  qed
qed

section \<open>Bytes in order\<close>

text \<open>A client that reads one byte: it peeks at it and then commits it.\<close>

definition ring_read_byte :: "u8 alloc \<Rightarrow> RingBuffer \<Rightarrow> (u8, RingBuffer) res" where
  "ring_read_byte al rb =
     (case concat (map (chunk_bytes rb) (ringbuffer_peek rb 1)) of [] \<Rightarrow> Fail rb
      | b # _ \<Rightarrow> and_then (case ringbuffer_commit_read_bytes al rb 1 of Fault \<Rightarrow> Fault | Fail rb \<Rightarrow> Fail rb | Ok _ rb \<Rightarrow> Ok b rb)
                  (\<lambda>b rb. Ok b rb))"

abbreviation ring_write_byte :: "u8 alloc \<Rightarrow> RingBuffer \<Rightarrow> u8 \<Rightarrow> (unit, RingBuffer) res" where
  "ring_write_byte al rb b \<equiv> ringbuffer_write (bounded_alloc al (rb_size rb + length [b])) rb [b]"

interpretation ring: fifo ring_ok ring_contents "ring_write_byte al" "ring_read_byte al'" for al al'
proof unfold_locales
  fix s :: RingBuffer and x t assume s: "ring_ok s"
  note w = ringbuffer_write_wp [OF s, of al "[x]"]
  show "ring_write_byte al s x = Ok () t \<Longrightarrow> ring_ok t \<and> ring_contents t = ring_contents s @ [x]"
    "ring_write_byte al s x = Fail t \<Longrightarrow> ring_ok t \<and> ring_contents t = ring_contents s" using w s by auto
next
  fix s :: RingBuffer and x xs assume s: "ring_ok s" "ring_contents s = x # xs"
  then have "1 \<le> ring_used s" by (metis length_ring_contents length_Cons Suc_eq_plus1 le_add2)
  from ringbuffer_commit_read_wp [OF s(1) this, of al'] ringbuffer_peek_bytes(1) [OF s(1), of 1] s(2)
  show "\<exists>t. ring_read_byte al' s = Ok x t \<and> ring_ok t \<and> ring_contents t = xs"
    by (auto simp: ring_read_byte_def)
qed

section \<open>Properties\<close>

text \<open>
  C39. The ring buffer is a queue of bytes. A write appends its bytes, growing the buffer when needed, and a
  write that cannot grow it changes nothing; the chunks of a peek, at most two and inside the buffer,
  are the first bytes; committing read bytes removes them, also when it shrinks the buffer back. Over
  whole runs bytes leave the buffer in the order they entered it.
\<close>

theorem ringbuffer_refines_list:
  assumes ok: "ring_ok rb"
  shows "(ringbuffer_write (bounded_alloc al (rb_size rb + length p)) rb p = Ok () t \<longrightarrow>
      ring_ok t \<and> ring_contents t = ring_contents rb @ p) \<and>
    (ringbuffer_write (bounded_alloc al (rb_size rb + length p)) rb p = Fail t \<longrightarrow> t = rb) \<and>
    ringbuffer_write (bounded_alloc al (rb_size rb + length p)) rb p \<noteq> Fault \<and>
    concat (map (chunk_bytes rb) (ringbuffer_peek rb sz)) = take sz (ring_contents rb) \<and>
    (\<forall>c \<in> set (ringbuffer_peek rb sz). dc_data c + dc_size c \<le> rb_size rb) \<and> length (ringbuffer_peek rb sz) \<le> 2 \<and>
    (sz \<le> length (ring_contents rb) \<longrightarrow> (\<exists>t. ringbuffer_commit_read_bytes al rb sz = Ok () t \<and> ring_ok t \<and>
      ring_contents t = drop sz (ring_contents rb))) \<and>
    (ring.enq_all al rb bs = Ok () t \<longrightarrow>
      (\<exists>u. ring.deq_all al' t (length (ring_contents rb) + length bs) = Ok (ring_contents rb @ bs) u))"
proof (intro conjI impI)
  note w = ringbuffer_write_wp [OF ok, of al p]
  show "ring_ok t" "ring_contents t = ring_contents rb @ p"
    if "ringbuffer_write (bounded_alloc al (rb_size rb + length p)) rb p = Ok () t" using w that by simp_all
  show "t = rb" if "ringbuffer_write (bounded_alloc al (rb_size rb + length p)) rb p = Fail t" using w that by simp
  show "ringbuffer_write (bounded_alloc al (rb_size rb + length p)) rb p \<noteq> Fault" using wp_not_Fault [OF w] .
  show "concat (map (chunk_bytes rb) (ringbuffer_peek rb sz)) = take sz (ring_contents rb)"
    "\<forall>c \<in> set (ringbuffer_peek rb sz). dc_data c + dc_size c \<le> rb_size rb" "length (ringbuffer_peek rb sz) \<le> 2"
    using ringbuffer_peek_bytes [OF ok] by auto
  show "\<exists>t. ringbuffer_commit_read_bytes al rb sz = Ok () t \<and> ring_ok t \<and> ring_contents t = drop sz (ring_contents rb)"
    if "sz \<le> length (ring_contents rb)" using ringbuffer_commit_read_wp [OF ok] that by simp
  show "\<exists>u. ring.deq_all al' t (length (ring_contents rb) + length bs) = Ok (ring_contents rb @ bs) u"
    if "ring.enq_all al rb bs = Ok () t" using ring.order_preserved [OF ok that] by blast
qed

theorem ringbuffer_refines_list_witness:
  "\<exists>rb t. ringbuffer_init (Some (\<lambda>_. 0)) 2 = Some rb \<and>
     ringbuffer_write (bounded_alloc (Some (\<lambda>_. 0)) (rb_size rb + length [7, 8, 9])) rb [7, 8, 9] = Ok () t \<and>
     ring_contents t = [7, 8, 9]"
proof -
  obtain rb where rb: "ringbuffer_init (Some (\<lambda>_. 0)) 2 = Some rb" "ring_ok rb" "ring_contents rb = []" "rb_size rb = 2"
    by (simp add: ringbuffer_init_def malloc_def ring_ok_def ring_contents_def)
  let ?al = "bounded_alloc (Some (\<lambda>_. 0 :: u8)) (rb_size rb + length [7, 8, 9 :: u8])"
  have "?al \<noteq> None" by (simp add: bounded_alloc_def rb(4))
  then obtain t where t: "ringbuffer_write ?al rb [7, 8, 9] = Ok () t"
    using ringbuffer_write_wp [OF rb(2), of "Some (\<lambda>_. 0)" "[7, 8, 9]"] by (cases "ringbuffer_write ?al rb [7, 8, 9]") auto
  from ringbuffer_refines_list [OF rb(2), of "Some (\<lambda>_. 0)" "[7, 8, 9]" t 0 "[]" None] t rb show ?thesis by auto
qed

text \<open>
  Writing in place. \<open>ringbuffer_ensure_linear_write\<close> keeps the contents and yields room for the requested
  number of bytes in one piece of the buffer; the bytes a caller then stores there and commits, fewer
  than the free size, are appended.
\<close>

theorem ringbuffer_linear_write:
  assumes ok: "ring_ok rb" and n: "rb_size rb + sz + 32 < 2 ^ 63" and e: "ringbuffer_ensure_linear_write (Some g) rb sz = r"
  shows "\<exists>off t. r = Ok off t \<and> off + sz \<le> rb_size t \<and> sz \<le> rb_freeSize t \<and> ring_contents t = ring_contents rb \<and>
    (\<forall>p. length p \<le> sz \<and> length p < rb_freeSize t \<longrightarrow>
       (\<exists>v. ringbuffer_commit_written_bytes (t\<lparr>rb_buffer := blit (rb_buffer t) off p\<rparr>) (length p) = Ok () v \<and>
          ring_ok v \<and> ring_contents v = ring_contents rb @ p))"
proof -
  from linear_write_wp [OF ok n, of "Some g"] e obtain off t where t: "r = Ok off t" "linear_room rb sz off t"
    by (cases r) auto
  then show ?thesis using commit_written [OF t(2)] by (auto simp: linear_room_def)
qed

theorem ringbuffer_linear_write_witness:
  "\<exists>rb off t v. ringbuffer_init (Some (\<lambda>_. 0)) 4 = Some rb \<and> ringbuffer_ensure_linear_write (Some (\<lambda>_. 0)) rb 3 = Ok off t \<and>
     ringbuffer_commit_written_bytes (t\<lparr>rb_buffer := blit (rb_buffer t) off [5, 6]\<rparr>) 2 = Ok () v \<and> ring_contents v = [5, 6]"
proof -
  obtain rb where rb: "ringbuffer_init (Some (\<lambda>_. 0)) 4 = Some rb" "ring_ok rb" "ring_contents rb = []" "rb_size rb = 4"
    by (simp add: ringbuffer_init_def malloc_def ring_ok_def ring_contents_def)
  have "rb_size rb + 3 + 32 < 2 ^ 63" by (simp add: rb(4))
  from ringbuffer_linear_write [OF rb(2) this refl, of "\<lambda>_. 0"] obtain off t where
    t: "ringbuffer_ensure_linear_write (Some (\<lambda>_. 0)) rb 3 = Ok off t" "3 \<le> rb_freeSize t"
    "\<forall>p. length p \<le> 3 \<and> length p < rb_freeSize t \<longrightarrow>
       (\<exists>v. ringbuffer_commit_written_bytes (t\<lparr>rb_buffer := blit (rb_buffer t) off p\<rparr>) (length p) = Ok () v \<and>
          ring_ok v \<and> ring_contents v = ring_contents rb @ p)" by blast
  from t(3) [rule_format, of "[5, 6]"] t(2) rb(3) obtain v where
    "ringbuffer_commit_written_bytes (t\<lparr>rb_buffer := blit (rb_buffer t) off [5, 6]\<rparr>) 2 = Ok () v" "ring_contents v = [5, 6]"
    by (auto simp: numeral_2_eq_2)
  with rb(1) t(1) show ?thesis by blast
qed

text \<open>
  C40. A full ring buffer loses data. A caller that commits exactly the free size after
  \<open>ringbuffer_ensure_linear_write\<close> leaves the two positions equal; the next write takes the buffer for empty,
  starts at offset 0 and overwrites what was not read: the first byte read afterwards is the first byte
  of that write.
\<close>

theorem ringbuffer_full_overwrites:
  assumes "length (rb_buffer rb) = rb_size rb" "0 < rb_size rb" "rb_size rb + length p < 2 ^ 63"
    "rb_freeSize rb = 0" "rb_writePtr rb = rb_readPtr rb" "p \<noteq> []"
  shows "\<exists>t. ringbuffer_write (Some g) rb p = Ok () t \<and>
    concat (map (chunk_bytes t) (ringbuffer_peek t 1)) = [hd p]"
proof -
  let ?n = "rb_size rb + length p"
  have s: "size_add (rb_size rb) (length p) = ?n" "size_add 0 (size_sub ?n (rb_size rb)) = length p"
    using assms(3) by (simp_all add: size_simps)
  obtain nb where nb: "realloc (Some g) (rb_buffer rb) ?n = Some nb" by (simp add: realloc_def)
  have len: "length nb = ?n" using realloc_length [OF nb] .
  let ?t = "rb\<lparr>rb_readPtr := 0, rb_writePtr := length p, rb_buffer := blit nb 0 p, rb_freeSize := 0, rb_size := ?n\<rparr>"
  have z: "size_sub ?n 0 = ?n" "size_add 0 (length p) = length p" "size_sub (length p) (length p) = 0" "\<not> ?n < length p"
    "?n \<noteq> 0" "length p mod ?n = length p" "\<not> ?n < 1" "size_add 0 1 = 1" "\<not> 1 > ?n"
    using assms(2,3) by (simp_all add: size_simps)
  have "ringbuffer_realloc (Some g) rb ?n =
    Ok () (rb\<lparr>rb_readPtr := 0, rb_writePtr := 0, rb_buffer := nb, rb_freeSize := length p, rb_size := ?n\<rparr>)"
    using assms(4,5) nb s(2) by (simp add: ringbuffer_realloc_def)
  then have "ringbuffer_write (Some g) rb p = Ok () ?t"
    using assms(2,4) len z by (simp add: ringbuffer_write_def s(1) Let_def)
  moreover have "ringbuffer_peek ?t 1 = [\<lparr>dc_size = 1, dc_data = 0\<rparr>]"
    using z assms(2) by (simp add: ringbuffer_peek_def Let_def)
  moreover have "take 1 (blit nb 0 p) = [hd p]" using assms(6) by (cases p) (simp_all add: blit_def)
  ultimately show ?thesis by (auto simp: chunk_bytes_def)
qed

theorem ringbuffer_full_overwrites_witness:
  "\<exists>rb t u v. ringbuffer_init (Some (\<lambda>_. 0)) 4 = Some rb \<and> ringbuffer_ensure_linear_write (Some (\<lambda>_. 0)) rb 4 = Ok 0 t \<and>
     ringbuffer_commit_written_bytes (t\<lparr>rb_buffer := [1, 2, 3, 4]\<rparr>) 4 = Ok () u \<and>
     ringbuffer_write (Some (\<lambda>_. 0)) u [9] = Ok () v \<and> concat (map (chunk_bytes v) (ringbuffer_peek v 1)) = [9]"
proof -
  let ?u = "\<lparr>rb_initialSize = 4, rb_freeSize = 0, rb_size = 4, rb_readPtr = 0, rb_writePtr = 0, rb_buffer = [1, 2, 3, 4]\<rparr>"
  have "\<exists>rb t. ringbuffer_init (Some (\<lambda>_. 0)) 4 = Some rb \<and> ringbuffer_ensure_linear_write (Some (\<lambda>_. 0)) rb 4 = Ok 0 t \<and>
     ringbuffer_commit_written_bytes (t\<lparr>rb_buffer := [1, 2, 3, 4]\<rparr>) 4 = Ok () ?u"
    by (simp add: ringbuffer_init_def malloc_def ringbuffer_ensure_linear_write_def ringbuffer_commit_written_bytes_def
        copy_bytes_def ringbuffer_used_def size_add_def size_sub_def)
  moreover from ringbuffer_full_overwrites [of ?u "[9]" "\<lambda>_. 0"] obtain v where
    "ringbuffer_write (Some (\<lambda>_. 0)) ?u [9] = Ok () v" "concat (map (chunk_bytes v) (ringbuffer_peek v 1)) = [9]" by auto
  ultimately show ?thesis by blast
qed

end
