(* ===== verification/Spec2Isabelle.thy ===== *)
theory Spec2Isabelle
  imports Gcc_Names Core_Bulk Region_Points Nego_Protocol Coll_Queue Coll_Stack Coll_ArrayList Coll_ListDictionary Coll_HashTable Utils_RingBuffer
begin

text \<open>
  A verification development for FreeRDP, the remote desktop implementation under
  \<^verbatim>\<open>src/freerdp\<close>. It covers the path of a connection from the byte stream up to the multipoint
  session, the bulk compression of what is sent over it, regions of the screen, and the containers this path and the rest of the program are
  built from.

  \<^bold>\<open>The program.\<close> A client opens a transport and both sides negotiate a security protocol with X.224
  connection PDUs (\<^verbatim>\<open>core/nego.c\<close>, framed by \<^verbatim>\<open>core/tpkt.c\<close> and \<^verbatim>\<open>core/tpdu.c\<close>). They then exchange the MCS
  connect PDUs (\<^verbatim>\<open>core/mcs.c\<close>, in BER, \<^verbatim>\<open>crypto/ber.c\<close>), each carrying a GCC conference PDU
  (\<^verbatim>\<open>core/gcc.c\<close>, in PER, \<^verbatim>\<open>crypto/per.c\<close>) with data blocks, attach a user and join channels. All
  of them read and write a \<^verbatim>\<open>wStream\<close> (\<^verbatim>\<open>winpr/utils/stream.c\<close>). Data that follow may be compressed with
  MPPC (\<^verbatim>\<open>libfreerdp/codec/mppc.c\<close>, over the bit stream of \<^verbatim>\<open>winpr/bitstream.h\<close>). The parts of the screen that have to be drawn
  or sent are kept as regions (\<^verbatim>\<open>libfreerdp/codec/region.c\<close>). The containers are those of
  \<^verbatim>\<open>winpr/utils/collections\<close> and the ring buffer of \<^verbatim>\<open>libfreerdp/utils/ringbuffer.c\<close>.

  \<^bold>\<open>Conventions\<close> (theory \<open>Rdp_Prelude\<close>). A C function that can fail is a function into the type \<open>res\<close>:
  \<open>Ok v s\<close> is a successful return with the out parameters \<open>v\<close> and the state \<open>s\<close>, \<open>Fail s\<close> the return
  of \<open>FALSE\<close> or \<open>NULL\<close>, and \<open>Fault\<close> undefined behaviour: an access outside a buffer, a null pointer,
  a signed overflow, a division by zero, a failed assertion. A theorem that a result is not \<open>Fault\<close> is
  therefore a memory safety statement, and one that it is \<open>Fault\<close> exhibits a defect. Machine integers
  are words of their width, \<open>size_t\<close> is written out modulo \<open>2 ^ 64\<close> where it can wrap. The answers of
  the allocator are parameters of type \<open>'a alloc\<close> (refuse, or grant a block with given contents), and
  code outside the modelled sources (the transport, TLS, the certificate parser) is an argument or a field of an
  environment record. A loop that may run for ever is a \<^theory_text>\<open>partial_function (option)\<close>, with
  \<open>None\<close> for not returning; the two searches by fuel (\<open>find_crlf\<close>, the hash table primality tests) start
  with as much fuel as there are bytes or candidates left, so they never run out.

  \<^bold>\<open>Theories.\<close>
  \<^item> \<open>Rdp_Prelude\<close>: results, sequencing \<open>and_then\<close>, the weakest precondition rules the safety proofs use,
    list and word lemmas. \<open>Wire_Format\<close>: what a writer emits (\<open>emits\<close>), byte orders, the locale of codecs.
  \<^item> \<open>WinPR_Stream\<close>: \<^verbatim>\<open>wStream\<close> as buffer, capacity, length and position, every accessor the protocol
    code uses, growth. Growing terminates with the old contents kept, except from capacity 0 and from
    a borrowed buffer when memory is refused.
  \<^item> \<open>Crypto_Per\<close>, \<open>Crypto_Ber\<close>: both encodings in full. Readers stay inside the stream on arbitrary
    bytes, values are read back as written, the predicted sizes are exact.
  \<^item> \<open>Core_Tpkt\<close>: TPKT and X.224 headers. Accepted lengths are within what was received; a framed payload
    is recovered.
  \<^item> \<open>Core_Settings\<close>, \<open>Core_Session\<close>: the part of \<^verbatim>\<open>rdpSettings\<close> the protocol code uses; the oracles and
    stream plumbing shared by the layers above.
  \<^item> \<open>Core_Nego\<close>, \<open>Nego_Protocol\<close>: the negotiation of \<^verbatim>\<open>nego.c\<close> on both sides, with
    \<^verbatim>\<open>rdp_server_accept_nego\<close>. The client is also an inductive step relation \<open>nego_step\<close> over its state
    machine; its invariant gives that no protocol is used that was neither enabled nor agreed. Return of
    the loop, and the peer that prevents it, the wire exchange in both directions, buffer bounds.
  \<^item> \<open>Core_Gcc\<close>, \<open>Core_Mcs\<close>, \<open>Mcs_Protocol\<close>: the conference create PDUs, domain parameters and their
    merge, and the MCS PDUs. What one side sends the other accepts, with the resulting states; receivers
    are memory safe. The readers and writers of the data blocks are arguments of these definitions.
  \<^item> \<open>Gcc_Blocks\<close>, \<open>Gcc_Protocol\<close>: the client and server data blocks of \<^verbatim>\<open>gcc.c\<close>, which the MCS layer is
    instantiated with. The readers are memory safe on arbitrary bytes and keep the session well formed.
    The settings, channels and ids one side announces are those the other side holds after the exchange of
    the connect PDUs. The client data fit their stream of 512 bytes for 19 channels, and not for 21. The
    loops over blocks carry fuel, one more than the bytes left: every block has at least four bytes.
  \<^item> \<open>Crt_Utf\<close>, \<open>Crt_Transcode\<close>, \<open>Crt_Unicode\<close>: the character conversion of \<^verbatim>\<open>winpr/crt\<close>: the converters of
    \<^verbatim>\<open>utf.c\<close>, compared through one generic transcoder with the encoding forms of the Unicode standard (what they
    emit, what they accept, that they stay inside their blocks), and the functions of \<^verbatim>\<open>unicode.c\<close> over
    them, which are inverse to each other.
  \<^item> \<open>Gcc_Names\<close>: the data blocks with these converters in place of the parameters \<open>g_ConvertToUnicode\<close> and
    \<open>g_ConvertFromUnicode\<close>; what a server makes of the host name of a client.
  \<^item> \<open>Coll_Base\<close>: interfaces (locales) of queues, sequences and maps with their client lemmas;
    \<open>Coll_Queue\<close>, \<open>Coll_Stack\<close>, \<open>Coll_ArrayList\<close>, \<open>Coll_ListDictionary\<close>, \<open>Coll_HashTable\<close>: the collections
    with growth, locks and release callbacks, each an interpretation of its interface, which is the
    refinement of a list or of a map.
  \<^item> \<open>WinPR_BitStream\<close>: reading and writing of bits, most significant first, through the accumulator and the
    prefetch register; numbers written one after the other are read back.
  \<^item> \<open>Codec_Mppc\<close>, \<open>Mppc_Codes\<close>, \<open>Mppc_Roundtrip\<close>, \<open>Mppc_Safety\<close>: compressor and decompressor of MPPC. The prefix code is read
    back as written; the compressor writes tokens (literals and copies) that reproduce the packet on the history, which both sides keep
    equal, so that any sequence of packets is recovered. On packets from anywhere the decompressor is memory safe with the history
    of 8K and not with that of 64K.
  \<^item> \<open>Core_Bulk\<close>: the choice of the compressor in \<^verbatim>\<open>core/bulk.c\<close> with MPPC in place; what one end sends, compressed or not, the
    other end recovers. Both levels are interpretations of the interface of codecs in \<open>Packet_Codec\<close>.
  \<^item> \<open>Codec_Region\<close>, \<open>Region_Points\<close>: the regions of \<^verbatim>\<open>codec/region.c\<close>, arrays of rectangles sorted into bands. Union, intersection and
    the test for an intersection are those of the sets of points, the results are well formed and the arrays allocated are large
    enough; two rectangles of a band may touch.
  \<^item> \<open>Utils_RingBuffer\<close>: the ring buffer refines a queue of bytes across growth, wrap-around and shrinking.

  \<^bold>\<open>Not modelled.\<close> The connection sequence and PDUs above MCS, capability sets, orders, licensing and
  security exchange (left out for size: the development follows a connection up to the multipoint session and stops there); codecs other than MPPC,
  GDI and virtual channels (left out for size as well; the bulk compressors NCRUSH and XCRUSH are arguments of \<open>Core_Bulk\<close>); transport, TLS,
  NLA, threads, clients and servers (input and output, parameters here where modelled code calls them);
  log output; concurrent callers of the collections, whose operations run under their own lock.
\<close>

end
